(* ===== verification/Prelude.thy ===== *)
theory Prelude
  imports Main "HOL-Library.AList" "HOL-Library.List_Lexorder" "HOL-Library.Char_ord"
begin

text \<open>
  Shared vocabulary of the development: results with errors as values, reads of an array at an
  index that may be out of range, and the insertion-ordered \<open>Map\<close> of JavaScript.

  \<^item> A method that may throw returns \<open>'e + 'a\<close>: \<open>Inl e\<close> for the exception, \<open>Inr x\<close> for the
    value. \<open>bind_res\<close> runs the rest of the method when nothing was thrown.
  \<^item> A method of a mutable object that may throw half way returns \<open>('e + 'a) \<times> 's\<close>: the outcome
    and the object as the method leaves it, also when it throws. \<open>bind_st\<close> is its sequencing.
  \<^item> \<open>nth_opt\<close> is the array read \<open>xs[i]\<close>: \<open>None\<close> is JavaScript's \<open>undefined\<close>.
  \<^item> \<open>jm_get\<close>, \<open>jm_set\<close>, \<open>jm_delete\<close> and \<open>jm_size\<close> are \<open>Map.prototype\<close>'s operations on the
    list of entries in insertion order: setting a present key keeps its position, setting an
    absent key appends it.
\<close>

named_theorems jm_simps \<open>how the operations of a JavaScript Map read back\<close>

section \<open>Results\<close>

fun bind_res :: "'e + 'a \<Rightarrow> ('a \<Rightarrow> 'e + 'b) \<Rightarrow> 'e + 'b" where
  "bind_res (Inl e) f = Inl e"
| "bind_res (Inr x) f = f x"

lemma bind_res_Inr_iff: "bind_res m f = Inr y \<longleftrightarrow> (\<exists>x. m = Inr x \<and> f x = Inr y)"
  by (cases m) auto

lemma bind_res_Inl_iff: "bind_res m f = Inl e \<longleftrightarrow> m = Inl e \<or> (\<exists>x. m = Inr x \<and> f x = Inl e)"
  by (cases m) auto

text \<open>A loop that calls a method for every element and collects the values, until one throws.\<close>

fun map_res :: "('a \<Rightarrow> 'e + 'b) \<Rightarrow> 'a list \<Rightarrow> 'e + 'b list" where
  "map_res f [] = Inr []"
| "map_res f (x # xs) = bind_res (f x) (\<lambda>y. bind_res (map_res f xs) (\<lambda>ys. Inr (y # ys)))"

lemma map_res_map: "(\<And>x. x \<in> set xs \<Longrightarrow> f (g x) = Inr x) \<Longrightarrow> map_res f (map g xs) = Inr xs"
  by (induction xs) auto

lemma map_res_Inr: "(\<And>x. x \<in> set xs \<Longrightarrow> f x = Inr (g x)) \<Longrightarrow> map_res f xs = Inr (map g xs)"
  by (induction xs) auto

text \<open>A loop that passes a state on, until one of its turns throws.\<close>

fun fold_res :: "('a \<Rightarrow> 's \<Rightarrow> 'e + 's) \<Rightarrow> 'a list \<Rightarrow> 's \<Rightarrow> 'e + 's" where
  "fold_res f [] s = Inr s"
| "fold_res f (x # xs) s = bind_res (f x s) (fold_res f xs)"

lemma fold_res_append: "fold_res f (xs @ ys) s = bind_res (fold_res f xs s) (fold_res f ys)"
proof (induction xs arbitrary: s)
  case (Cons x xs)
  then show ?case by (cases "f x s") auto
qed simp

lemma fold_res_invariant:
  assumes "fold_res f xs s = Inr t" "P s" "\<And>x s t. x \<in> set xs \<Longrightarrow> P s \<Longrightarrow> f x s = Inr t \<Longrightarrow> P t"
  shows "P t"
  using assms
proof (induction xs arbitrary: s)
  case (Cons x xs)
  from Cons.prems(1) obtain u where u: "f x s = Inr u" "fold_res f xs u = Inr t"
    by (auto simp: bind_res_Inr_iff)
  have "P u"
    by (rule Cons.prems(3) [OF _ Cons.prems(2) u(1)]) simp
  then show ?case
    by (rule Cons.IH [OF u(2)]) (rule Cons.prems(3), simp_all)
qed simp

type_synonym ('s, 'e, 'a) st = "'s \<Rightarrow> ('e + 'a) \<times> 's"

definition ret_st :: "'a \<Rightarrow> ('s, 'e, 'a) st" where
  "ret_st x s = (Inr x, s)"

definition throw_st :: "'e \<Rightarrow> ('s, 'e, 'a) st" where
  "throw_st e s = (Inl e, s)"

definition bind_st :: "('s, 'e, 'a) st \<Rightarrow> ('a \<Rightarrow> ('s, 'e, 'b) st) \<Rightarrow> ('s, 'e, 'b) st" where
  "bind_st m f s = (case m s of (Inl e, s') \<Rightarrow> (Inl e, s') | (Inr x, s') \<Rightarrow> f x s')"

definition modify_st :: "('s \<Rightarrow> 's) \<Rightarrow> ('s, 'e, unit) st" where
  "modify_st f s = (Inr (), f s)"

definition lift_st :: "('s \<Rightarrow> 'e + 'a) \<Rightarrow> ('s, 'e, 'a) st" where
  "lift_st f s = (f s, s)"

lemma ret_st_apply [simp]: "ret_st x s = (Inr x, s)"
  by (simp add: ret_st_def)

lemma throw_st_apply [simp]: "throw_st e s = (Inl e, s)"
  by (simp add: throw_st_def)

lemma modify_st_apply [simp]: "modify_st f s = (Inr (), f s)"
  by (simp add: modify_st_def)

lemma lift_st_apply [simp]: "lift_st f s = (f s, s)"
  by (simp add: lift_st_def)

lemma bind_st_Inr [simp]: "m s = (Inr x, s') \<Longrightarrow> bind_st m f s = f x s'"
  by (simp add: bind_st_def)

lemma bind_st_Inl [simp]: "m s = (Inl e, s') \<Longrightarrow> bind_st m f s = (Inl e, s')"
  by (simp add: bind_st_def)

lemma bind_st_eq_Inr:
  "bind_st m f s = (Inr y, t) \<longleftrightarrow> (\<exists>x s'. m s = (Inr x, s') \<and> f x s' = (Inr y, t))"
  by (auto simp: bind_st_def split: prod.splits sum.splits)

lemma bind_st_eq_Inl:
  "bind_st m f s = (Inl e, t) \<longleftrightarrow>
     m s = (Inl e, t) \<or> (\<exists>x s'. m s = (Inr x, s') \<and> f x s' = (Inl e, t))"
  by (auto simp: bind_st_def split: prod.splits sum.splits)

text \<open>A reflexive and transitive relation between states that two methods keep is kept by their sequence.\<close>

lemma rel_bind_st:
  assumes trans: "\<And>a b c. R a b \<Longrightarrow> R b c \<Longrightarrow> R a c"
    and m: "\<And>s. R s (snd (m s))" and f: "\<And>x s. R s (snd (f x s))"
  shows "R s (snd (bind_st m f s))"
proof -
  obtain r s' where r: "m s = (r, s')" by (cases "m s")
  with m [of s] have g: "R s s'" by simp
  show ?thesis
  proof (cases r)
    case (Inl e)
    with r g show ?thesis by simp
  next
    case (Inr x)
    with r trans [OF g f [of s' x]] show ?thesis by simp
  qed
qed

section \<open>Array reads\<close>

definition nth_opt :: "'a list \<Rightarrow> nat \<Rightarrow> 'a option" where
  "nth_opt xs i = (if i < length xs then Some (xs ! i) else None)"

lemma nth_opt_Some [simp]: "i < length xs \<Longrightarrow> nth_opt xs i = Some (xs ! i)"
  by (simp add: nth_opt_def)

lemma nth_opt_None [simp]: "length xs \<le> i \<Longrightarrow> nth_opt xs i = None"
  by (simp add: nth_opt_def)

lemma nth_opt_eq_Some: "nth_opt xs i = Some x \<longleftrightarrow> i < length xs \<and> x = xs ! i"
  by (auto simp: nth_opt_def)

lemma nth_opt_eq_None: "nth_opt xs i = None \<longleftrightarrow> length xs \<le> i"
  by (auto simp: nth_opt_def)

section \<open>JavaScript's Map\<close>

type_synonym ('k, 'v) jsmap = "('k \<times> 'v) list"

definition jm_get :: "('k, 'v) jsmap \<Rightarrow> 'k \<Rightarrow> 'v option" where
  "jm_get m k = map_of m k"

definition jm_has :: "('k, 'v) jsmap \<Rightarrow> 'k \<Rightarrow> bool" where
  "jm_has m k = (jm_get m k \<noteq> None)"

definition jm_set :: "'k \<Rightarrow> 'v \<Rightarrow> ('k, 'v) jsmap \<Rightarrow> ('k, 'v) jsmap" where
  "jm_set k v m = AList.update k v m"

definition jm_delete :: "'k \<Rightarrow> ('k, 'v) jsmap \<Rightarrow> ('k, 'v) jsmap" where
  "jm_delete k m = AList.delete k m"

definition jm_size :: "('k, 'v) jsmap \<Rightarrow> nat" where
  "jm_size m = length m"

definition jm_keys :: "('k, 'v) jsmap \<Rightarrow> 'k list" where
  "jm_keys m = map fst m"

text \<open>Every map the code builds holds a key once.\<close>

definition jm_ok :: "('k, 'v) jsmap \<Rightarrow> bool" where
  "jm_ok m = distinct (map fst m)"

lemma jm_get_Nil [simp, jm_simps]: "jm_get [] k = None"
  by (simp add: jm_get_def)

lemma jm_get_set [simp, jm_simps]: "jm_get (jm_set k v m) k' = (if k' = k then Some v else jm_get m k')"
  by (auto simp: jm_get_def jm_set_def update_conv')

lemma jm_get_delete [simp, jm_simps]: "jm_get (jm_delete k m) k' = (if k' = k then None else jm_get m k')"
  by (auto simp: jm_get_def jm_delete_def delete_conv')

lemma jm_has_iff [jm_simps]: "jm_has m k \<longleftrightarrow> (\<exists>v. jm_get m k = Some v)"
  by (auto simp: jm_has_def)

lemma jm_ok_Nil [simp]: "jm_ok []"
  by (simp add: jm_ok_def)

lemma jm_ok_set [simp]: "jm_ok m \<Longrightarrow> jm_ok (jm_set k v m)"
  by (simp add: jm_ok_def jm_set_def distinct_update)

lemma jm_ok_delete [simp]: "jm_ok m \<Longrightarrow> jm_ok (jm_delete k m)"
  by (simp add: jm_ok_def jm_delete_def distinct_delete)

lemma jm_size_set_new [jm_simps]: "jm_get m k = None \<Longrightarrow> jm_size (jm_set k v m) = Suc (jm_size m)"
  by (induction m) (auto simp: jm_get_def jm_set_def jm_size_def split: if_splits)

lemma dom_jm_get: "dom (jm_get m) = fst ` set m"
proof -
  have "jm_get m = map_of m"
    by (rule ext) (simp add: jm_get_def)
  then show ?thesis
    by (simp add: dom_map_of_conv_image_fst)
qed

lemma jm_size_card: "jm_ok m \<Longrightarrow> jm_size m = card (dom (jm_get m))"
  unfolding dom_jm_get jm_ok_def jm_size_def
  by (metis distinct_card length_map list.set_map)

end
