(* ===== verification/ProtoArray.thy ===== *)
theory ProtoArray
  imports Prelude
begin

text \<open>
  The block DAG of the fork choice: \<open>packages/fork-choice/src/protoArray\<close>. This theory holds the
  data (\<open>interface.ts\<close>, \<open>errors.ts\<close>) and every method of the class \<open>ProtoArray\<close>
  (\<open>protoArray.ts\<close>), in the file's order.

  A \<open>RootHex\<close> is its string; JavaScript's \<open>>=\<close> on strings is the lexicographic order. Epochs,
  slots and indices are natural numbers, weights and deltas integers (the code's doubles stay
  far below \<open>2^53\<close>). Two values of the error type do not exist in the source:
  \<open>NOT_A_NUMBER\<close> stands for the \<open>NaN\<close> weight the code computes when it reads a delta outside the
  array (the code's \<open>nodeDelta === undefined\<close> test never fires, the sum being a number), and
  \<open>LOOP_BOUND\<close> for a walk along parents that does not end. Neither occurs on a well-formed array
  (theory \<open>ProtoArrayWf\<close>).
\<close>

section \<open>Data\<close>

type_synonym root_hex = string
type_synonym epoch = nat
type_synonym slot = nat

definition HEX_ZERO_HASH :: root_hex where
  "HEX_ZERO_HASH = ''0x0000000000000000000000000000000000000000000000000000000000000000''"

record vote_tracker =
  currentRoot :: root_hex
  nextRoot :: root_hex
  nextEpoch :: epoch

datatype execution_status = Valid | Syncing | PreMerge

record proto_block =
  pb_slot :: slot
  pb_blockRoot :: root_hex
  pb_parentRoot :: root_hex
  pb_stateRoot :: root_hex
  pb_targetRoot :: root_hex
  pb_justifiedEpoch :: epoch
  pb_justifiedRoot :: root_hex
  pb_finalizedEpoch :: epoch
  pb_finalizedRoot :: root_hex
  pb_executionPayloadBlockHash :: "root_hex option"
  pb_executionStatus :: execution_status

record proto_node = proto_block +
  pn_parent :: "nat option"
  pn_weight :: int
  pn_bestChild :: "nat option"
  pn_bestDescendant :: "nat option"

datatype proto_array_error =
    FINALIZED_NODE_UNKNOWN root_hex
  | JUSTIFIED_NODE_UNKNOWN root_hex
  | INVALID_FINALIZED_ROOT_CHANGE
  | INVALID_NODE_INDEX nat
  | INVALID_PARENT_INDEX nat
  | INVALID_BEST_CHILD_INDEX nat
  | INVALID_JUSTIFIED_INDEX nat
  | INVALID_BEST_DESCENDANT_INDEX nat
  | INVALID_PARENT_DELTA nat
  | INVALID_NODE_DELTA nat
  | INDEX_OVERFLOW string
  | INVALID_DELTA_LEN nat nat
  | REVERTED_FINALIZED_EPOCH epoch epoch
  | INVALID_BEST_NODE root_hex epoch epoch root_hex epoch epoch
  | NOT_A_NUMBER nat
  | LOOP_BOUND

record proposer_boost =
  boost_root :: root_hex
  boost_score :: int

record proto_array =
  pa_pruneThreshold :: nat
  pa_justifiedEpoch :: epoch
  pa_justifiedRoot :: root_hex
  pa_finalizedEpoch :: epoch
  pa_finalizedRoot :: root_hex
  pa_nodes :: "proto_node list"
  pa_indices :: "(root_hex, nat) jsmap"
  pa_previousProposerBoost :: "proposer_boost option"

type_synonym 'a pa_result = "proto_array_error + 'a"

definition DEFAULT_PRUNE_THRESHOLD :: nat where
  "DEFAULT_PRUNE_THRESHOLD = 0"

definition new_ProtoArray :: "nat \<Rightarrow> epoch \<Rightarrow> root_hex \<Rightarrow> epoch \<Rightarrow> root_hex \<Rightarrow> proto_array" where
  "new_ProtoArray threshold jE jR fE fR =
     \<lparr>pa_pruneThreshold = threshold, pa_justifiedEpoch = jE, pa_justifiedRoot = jR,
      pa_finalizedEpoch = fE, pa_finalizedRoot = fR, pa_nodes = [], pa_indices = [],
      pa_previousProposerBoost = None\<rparr>"

section \<open>Reads of the array\<close>

definition getNodeFromIndex :: "proto_array \<Rightarrow> nat \<Rightarrow> proto_node pa_result" where
  "getNodeFromIndex pa i =
     (case nth_opt (pa_nodes pa) i of None \<Rightarrow> Inl (INVALID_NODE_INDEX i) | Some n \<Rightarrow> Inr n)"

definition getNodeByIndex :: "proto_array \<Rightarrow> nat \<Rightarrow> proto_node option" where
  "getNodeByIndex pa i = nth_opt (pa_nodes pa) i"

definition hasBlock :: "proto_array \<Rightarrow> root_hex \<Rightarrow> bool" where
  "hasBlock pa r = jm_has (pa_indices pa) r"

definition getNode :: "proto_array \<Rightarrow> root_hex \<Rightarrow> proto_node option" where
  "getNode pa r =
     (case jm_get (pa_indices pa) r of None \<Rightarrow> None | Some i \<Rightarrow> getNodeByIndex pa i)"

text \<open>\<open>getBlock\<close> returns a copy of the node: a value here.\<close>

definition getBlock :: "proto_array \<Rightarrow> root_hex \<Rightarrow> proto_node option" where
  "getBlock pa r = (case getNode pa r of None \<Rightarrow> None | Some n \<Rightarrow> Some n)"

definition pa_length :: "proto_array \<Rightarrow> nat" where
  "pa_length pa = jm_size (pa_indices pa)"

section \<open>Viability and the best child\<close>

definition nodeIsViableForHead :: "proto_array \<Rightarrow> proto_node \<Rightarrow> bool" where
  "nodeIsViableForHead pa n =
     (((pb_justifiedEpoch n = pa_justifiedEpoch pa \<and> pb_justifiedRoot n = pa_justifiedRoot pa)
        \<or> pa_justifiedEpoch pa = 0) \<and>
      ((pb_finalizedEpoch n = pa_finalizedEpoch pa \<and> pb_finalizedRoot n = pa_finalizedRoot pa)
        \<or> pa_finalizedEpoch pa = 0))"

definition nodeLeadsToViableHead :: "proto_array \<Rightarrow> proto_node \<Rightarrow> bool pa_result" where
  "nodeLeadsToViableHead pa n =
     (case pn_bestDescendant n of
        None \<Rightarrow> Inr (nodeIsViableForHead pa n)
      | Some d \<Rightarrow>
          (case nth_opt (pa_nodes pa) d of
             None \<Rightarrow> Inl (INVALID_BEST_DESCENDANT_INDEX d)
           | Some dn \<Rightarrow> Inr (nodeIsViableForHead pa dn \<or> nodeIsViableForHead pa n)))"

text \<open>
  \<open>maybeUpdateBestChildAndDescendant\<close>: \<open>newChildAndDescendant\<close> is the pair the four outcomes of
  the code choose, then the parent is updated in place.
\<close>

definition newChildAndDescendant ::
  "proto_array \<Rightarrow> proto_node \<Rightarrow> nat \<Rightarrow> proto_node \<Rightarrow> bool \<Rightarrow> (nat option \<times> nat option) pa_result" where
  "newChildAndDescendant pa parentNode childIndex childNode childLeads =
     (let changeToNull = (None, None);
          changeToChild = (Some childIndex,
            Some (case pn_bestDescendant childNode of None \<Rightarrow> childIndex | Some d \<Rightarrow> d));
          noChange = (pn_bestChild parentNode, pn_bestDescendant parentNode)
      in case pn_bestChild parentNode of
           None \<Rightarrow> Inr (if childLeads then changeToChild else noChange)
         | Some bc \<Rightarrow>
             if bc = childIndex \<and> \<not> childLeads then Inr changeToNull
             else if bc = childIndex then Inr changeToChild
             else
               (case nth_opt (pa_nodes pa) bc of
                  None \<Rightarrow> Inl (INVALID_BEST_CHILD_INDEX bc)
                | Some bestChildNode \<Rightarrow>
                    bind_res (nodeLeadsToViableHead pa bestChildNode) (\<lambda>bestChildLeads.
                      Inr (if childLeads \<and> \<not> bestChildLeads then changeToChild
                           else if \<not> childLeads \<and> bestChildLeads then noChange
                           else if pn_weight childNode = pn_weight bestChildNode then
                             (if pb_blockRoot bestChildNode \<le> pb_blockRoot childNode
                              then changeToChild else noChange)
                           else if pn_weight bestChildNode \<le> pn_weight childNode
                             then changeToChild else noChange))))"

definition maybeUpdateBestChildAndDescendant ::
  "proto_array \<Rightarrow> nat \<Rightarrow> nat \<Rightarrow> proto_array pa_result" where
  "maybeUpdateBestChildAndDescendant pa parentIndex childIndex =
     (case nth_opt (pa_nodes pa) childIndex of
        None \<Rightarrow> Inl (INVALID_NODE_INDEX childIndex)
      | Some childNode \<Rightarrow>
          (case nth_opt (pa_nodes pa) parentIndex of
             None \<Rightarrow> Inl (INVALID_NODE_INDEX parentIndex)
           | Some parentNode \<Rightarrow>
               bind_res (nodeLeadsToViableHead pa childNode) (\<lambda>childLeads.
               bind_res (newChildAndDescendant pa parentNode childIndex childNode childLeads)
                 (\<lambda>(bc, bd).
                    Inr (pa\<lparr>pa_nodes := (pa_nodes pa)[parentIndex :=
                      parentNode\<lparr>pn_bestChild := bc, pn_bestDescendant := bd\<rparr>]\<rparr>)))))"

section \<open>Score changes\<close>

definition boostFor :: "proposer_boost option \<Rightarrow> root_hex \<Rightarrow> int" where
  "boostFor pb r = (case pb of None \<Rightarrow> 0 | Some b \<Rightarrow> if boost_root b = r then boost_score b else 0)"

text \<open>
  The first backward loop: \<open>applyWeights cur prev (Suc i) nodes deltas\<close> is the iteration at
  \<open>nodeIndex = i\<close> and the ones after it.
\<close>

fun applyWeights ::
  "proposer_boost option \<Rightarrow> proposer_boost option \<Rightarrow> nat \<Rightarrow> proto_node list \<Rightarrow> int list
     \<Rightarrow> proto_node list pa_result" where
  "applyWeights cur prev 0 nodes deltas = Inr nodes"
| "applyWeights cur prev (Suc i) nodes deltas =
     (case nth_opt nodes i of
        None \<Rightarrow> Inl (INVALID_NODE_INDEX i)
      | Some n \<Rightarrow>
          if pb_blockRoot n = HEX_ZERO_HASH then applyWeights cur prev i nodes deltas
          else
            (case nth_opt deltas i of
               None \<Rightarrow> Inl (NOT_A_NUMBER i)
             | Some d \<Rightarrow>
                 (let nodeDelta = d + boostFor cur (pb_blockRoot n) - boostFor prev (pb_blockRoot n);
                      nodes' = nodes[i := n\<lparr>pn_weight := pn_weight n + nodeDelta\<rparr>]
                  in case pn_parent n of
                       None \<Rightarrow> applyWeights cur prev i nodes' deltas
                     | Some p \<Rightarrow>
                         (case nth_opt deltas p of
                            None \<Rightarrow> Inl (INVALID_PARENT_DELTA p)
                          | Some pd \<Rightarrow>
                              applyWeights cur prev i nodes' (deltas[p := pd + nodeDelta])))))"

text \<open>The second backward loop.\<close>

fun applyBestChildren :: "nat \<Rightarrow> proto_array \<Rightarrow> proto_array pa_result" where
  "applyBestChildren 0 pa = Inr pa"
| "applyBestChildren (Suc i) pa =
     (case nth_opt (pa_nodes pa) i of
        None \<Rightarrow> Inl (INVALID_NODE_INDEX i)
      | Some n \<Rightarrow>
          (case pn_parent n of
             None \<Rightarrow> applyBestChildren i pa
           | Some p \<Rightarrow>
               bind_res (maybeUpdateBestChildAndDescendant pa p i) (applyBestChildren i)))"

definition applyScoreChanges ::
  "proto_array \<Rightarrow> int list \<Rightarrow> proposer_boost option \<Rightarrow> epoch \<Rightarrow> root_hex \<Rightarrow> epoch \<Rightarrow> root_hex
     \<Rightarrow> proto_array pa_result" where
  "applyScoreChanges pa deltas boost jE jR fE fR =
     (if length deltas \<noteq> jm_size (pa_indices pa)
      then Inl (INVALID_DELTA_LEN (length deltas) (jm_size (pa_indices pa)))
      else
        (let pa1 = (if jE \<noteq> pa_justifiedEpoch pa \<or> fE \<noteq> pa_finalizedEpoch pa
                       \<or> jR \<noteq> pa_justifiedRoot pa \<or> fR \<noteq> pa_finalizedRoot pa
                    then pa\<lparr>pa_justifiedEpoch := jE, pa_finalizedEpoch := fE,
                            pa_justifiedRoot := jR, pa_finalizedRoot := fR\<rparr>
                    else pa)
         in bind_res (applyWeights boost (pa_previousProposerBoost pa1)
                        (length (pa_nodes pa1)) (pa_nodes pa1) deltas) (\<lambda>nodes.
            bind_res (applyBestChildren (length nodes) (pa1\<lparr>pa_nodes := nodes\<rparr>)) (\<lambda>pa2.
              Inr (pa2\<lparr>pa_previousProposerBoost := boost\<rparr>)))))"

section \<open>Adding a block\<close>

text \<open>
  The loop of \<open>onBlock\<close> that walks from the new node to the root. The first argument bounds the
  number of steps; \<open>onBlock\<close> gives it one step per node, which is enough when every parent has a
  smaller index (\<open>onBlock_wf\<close>).
\<close>

fun propagateUp :: "nat \<Rightarrow> proto_array \<Rightarrow> nat option \<Rightarrow> nat \<Rightarrow> proto_array pa_result" where
  "propagateUp fuel pa None nodeIndex = Inr pa"
| "propagateUp 0 pa (Some p) nodeIndex = Inl LOOP_BOUND"
| "propagateUp (Suc fuel) pa (Some p) nodeIndex =
     bind_res (maybeUpdateBestChildAndDescendant pa p nodeIndex) (\<lambda>pa'.
       propagateUp fuel pa'
         (case getNodeByIndex pa' p of None \<Rightarrow> None | Some n \<Rightarrow> pn_parent n) p)"

definition mkNode :: "proto_array \<Rightarrow> proto_block \<Rightarrow> proto_node" where
  "mkNode pa b = proto_block.extend b
     \<lparr>pn_parent = jm_get (pa_indices pa) (pb_parentRoot b), pn_weight = 0,
      pn_bestChild = None, pn_bestDescendant = None\<rparr>"

definition onBlock :: "proto_array \<Rightarrow> proto_block \<Rightarrow> proto_array pa_result" where
  "onBlock pa b =
     (if jm_has (pa_indices pa) (pb_blockRoot b) then Inr pa
      else
        (let n = mkNode pa b;
             nodeIndex = length (pa_nodes pa);
             pa' = pa\<lparr>pa_indices := jm_set (pb_blockRoot n) nodeIndex (pa_indices pa),
                      pa_nodes := pa_nodes pa @ [n]\<rparr>
         in propagateUp (Suc nodeIndex) pa' (pn_parent n) nodeIndex))"

text \<open>
  \<open>ProtoArray.initialize\<close> takes a block without its target root; the field of the argument is
  overwritten, whatever it holds.
\<close>

definition initialize :: "proto_block \<Rightarrow> proto_array pa_result" where
  "initialize b =
     onBlock (new_ProtoArray DEFAULT_PRUNE_THRESHOLD (pb_justifiedEpoch b) (pb_justifiedRoot b)
                (pb_finalizedEpoch b) (pb_finalizedRoot b))
       (b\<lparr>pb_targetRoot := pb_blockRoot b\<rparr>)"

section \<open>The head\<close>

definition findHead :: "proto_array \<Rightarrow> root_hex \<Rightarrow> root_hex pa_result" where
  "findHead pa jRoot =
     (case jm_get (pa_indices pa) jRoot of
        None \<Rightarrow> Inl (JUSTIFIED_NODE_UNKNOWN jRoot)
      | Some ji \<Rightarrow>
          (case nth_opt (pa_nodes pa) ji of
             None \<Rightarrow> Inl (INVALID_JUSTIFIED_INDEX ji)
           | Some jn \<Rightarrow>
               (let bi = (case pn_bestDescendant jn of None \<Rightarrow> ji | Some d \<Rightarrow> d)
                in case nth_opt (pa_nodes pa) bi of
                     None \<Rightarrow> Inl (INVALID_BEST_DESCENDANT_INDEX bi)
                   | Some bn \<Rightarrow>
                       if bi \<noteq> ji \<and> \<not> nodeIsViableForHead pa bn
                       then Inl (INVALID_BEST_NODE jRoot (pa_justifiedEpoch pa)
                              (pa_finalizedEpoch pa) (pb_blockRoot jn) (pb_justifiedEpoch jn)
                              (pb_finalizedEpoch jn))
                       else Inr (pb_blockRoot bn))))"

section \<open>Pruning\<close>

text \<open>
  \<open>maybePrune\<close> in its four loops: \<open>deleteIndices\<close> drops the entries of the nodes below the
  finalized index, \<open>adjustIndices\<close> shifts the remaining ones, \<open>adjustNodes\<close> the links of the
  remaining nodes.
\<close>

fun deleteIndices :: "proto_node list \<Rightarrow> nat list \<Rightarrow> (root_hex, nat) jsmap
    \<Rightarrow> (root_hex, nat) jsmap pa_result" where
  "deleteIndices nodes [] m = Inr m"
| "deleteIndices nodes (i # is) m =
     (case nth_opt nodes i of
        None \<Rightarrow> Inl (INVALID_NODE_INDEX i)
      | Some n \<Rightarrow> deleteIndices nodes is (jm_delete (pb_blockRoot n) m))"

fun adjustIndices :: "nat \<Rightarrow> (root_hex, nat) jsmap \<Rightarrow> (root_hex, nat) jsmap pa_result" where
  "adjustIndices fi [] = Inr []"
| "adjustIndices fi ((k, v) # m) =
     (if v < fi then Inl (INDEX_OVERFLOW ''indices'')
      else bind_res (adjustIndices fi m) (\<lambda>m'. Inr ((k, v - fi) # m')))"

definition adjustLink :: "nat \<Rightarrow> string \<Rightarrow> nat option \<Rightarrow> nat option pa_result" where
  "adjustLink fi what l =
     (case l of
        None \<Rightarrow> Inr None
      | Some i \<Rightarrow> if i < fi then Inl (INDEX_OVERFLOW what) else Inr (Some (i - fi)))"

definition adjustNode :: "nat \<Rightarrow> proto_node \<Rightarrow> proto_node pa_result" where
  "adjustNode fi n =
     (let n1 = n\<lparr>pn_parent := (case pn_parent n of
                    None \<Rightarrow> None
                  | Some p \<Rightarrow> if p < fi then None else Some (p - fi))\<rparr>
      in bind_res (adjustLink fi ''bestChild'' (pn_bestChild n)) (\<lambda>bc.
         bind_res (adjustLink fi ''bestDescendant'' (pn_bestDescendant n)) (\<lambda>bd.
           Inr (n1\<lparr>pn_bestChild := bc, pn_bestDescendant := bd\<rparr>))))"

fun adjustNodes :: "nat \<Rightarrow> proto_node list \<Rightarrow> proto_node list pa_result" where
  "adjustNodes fi [] = Inr []"
| "adjustNodes fi (n # ns) =
     bind_res (adjustNode fi n) (\<lambda>n'. bind_res (adjustNodes fi ns) (\<lambda>ns'. Inr (n' # ns')))"

definition maybePrune :: "proto_array \<Rightarrow> root_hex \<Rightarrow> (proto_node list \<times> proto_array) pa_result" where
  "maybePrune pa fRoot =
     (case jm_get (pa_indices pa) fRoot of
        None \<Rightarrow> Inl (FINALIZED_NODE_UNKNOWN fRoot)
      | Some fi \<Rightarrow>
          if fi < pa_pruneThreshold pa then Inr ([], pa)
          else
            bind_res (deleteIndices (pa_nodes pa) [0..<fi] (pa_indices pa)) (\<lambda>m.
            bind_res (adjustIndices fi m) (\<lambda>m'.
            bind_res (adjustNodes fi (drop fi (pa_nodes pa))) (\<lambda>ns.
              Inr (take fi (pa_nodes pa), pa\<lparr>pa_indices := m', pa_nodes := ns\<rparr>)))))"

section \<open>Walking the tree\<close>

text \<open>
  A generator is the list of what it yields and how it ends: \<open>None\<close> when it returns, \<open>Some e\<close>
  when the step after the last value throws \<open>e\<close>. A consumer that stops early never sees the
  exception. \<open>ancestorsFrom\<close> is \<open>iterateAncestorNodesFromNode\<close> with a bound on its steps.
\<close>

type_synonym 'a generator = "'a list \<times> proto_array_error option"

fun ancestorsFrom :: "nat \<Rightarrow> proto_array \<Rightarrow> proto_node \<Rightarrow> proto_node generator" where
  "ancestorsFrom fuel pa n =
     (case pn_parent n of
        None \<Rightarrow> ([], None)
      | Some p \<Rightarrow>
          (case fuel of
             0 \<Rightarrow> ([], Some LOOP_BOUND)
           | Suc f \<Rightarrow>
               (case getNodeFromIndex pa p of
                  Inl e \<Rightarrow> ([], Some e)
                | Inr m \<Rightarrow> (case ancestorsFrom f pa m of (ns, e) \<Rightarrow> (m # ns, e)))))"

definition iterateAncestorNodesFromNode :: "proto_array \<Rightarrow> proto_node \<Rightarrow> proto_node generator" where
  "iterateAncestorNodesFromNode pa n = ancestorsFrom (length (pa_nodes pa)) pa n"

definition iterateAncestorNodes :: "proto_array \<Rightarrow> root_hex \<Rightarrow> proto_node generator" where
  "iterateAncestorNodes pa r =
     (case jm_get (pa_indices pa) r of
        None \<Rightarrow> ([], None)
      | Some i \<Rightarrow>
          (case nth_opt (pa_nodes pa) i of
             None \<Rightarrow> ([], Some (INVALID_NODE_INDEX i))
           | Some n \<Rightarrow> iterateAncestorNodesFromNode pa n))"

definition getAllAncestorNodes :: "proto_array \<Rightarrow> root_hex \<Rightarrow> proto_node list pa_result" where
  "getAllAncestorNodes pa r =
     (case jm_get (pa_indices pa) r of
        None \<Rightarrow> Inr []
      | Some i \<Rightarrow>
          (case nth_opt (pa_nodes pa) i of
             None \<Rightarrow> Inl (INVALID_NODE_INDEX i)
           | Some n \<Rightarrow>
               (case ancestorsFrom (length (pa_nodes pa)) pa n of
                  (ns, None) \<Rightarrow> Inr (n # ns)
                | (ns, Some e) \<Rightarrow> Inl e)))"

text \<open>\<open>getNodesBetween\<close> reads the indices below \<open>upper\<close> and above \<open>lower\<close>, from the top down.\<close>

fun nodesAt :: "proto_array \<Rightarrow> nat list \<Rightarrow> proto_node list pa_result" where
  "nodesAt pa [] = Inr []"
| "nodesAt pa (i # is) =
     bind_res (getNodeFromIndex pa i) (\<lambda>n. bind_res (nodesAt pa is) (\<lambda>ns. Inr (n # ns)))"

definition getNodesBetween :: "proto_array \<Rightarrow> nat \<Rightarrow> nat \<Rightarrow> proto_node list pa_result" where
  "getNodesBetween pa upper lower = nodesAt pa (rev [Suc lower..<upper])"

fun nonAncestorsFrom :: "nat \<Rightarrow> proto_array \<Rightarrow> nat \<Rightarrow> proto_node \<Rightarrow> proto_node list pa_result" where
  "nonAncestorsFrom fuel pa nodeIndex n =
     (case pn_parent n of
        None \<Rightarrow> getNodesBetween pa nodeIndex 0
      | Some p \<Rightarrow>
          (case fuel of
             0 \<Rightarrow> Inl LOOP_BOUND
           | Suc f \<Rightarrow>
               bind_res (getNodeFromIndex pa p) (\<lambda>m.
               bind_res (getNodesBetween pa nodeIndex p) (\<lambda>between.
               bind_res (nonAncestorsFrom f pa p m) (\<lambda>rest.
                 Inr (between @ rest))))))"

definition getAllNonAncestorNodes :: "proto_array \<Rightarrow> root_hex \<Rightarrow> proto_node list pa_result" where
  "getAllNonAncestorNodes pa r =
     (case jm_get (pa_indices pa) r of
        None \<Rightarrow> Inr []
      | Some i \<Rightarrow>
          (case nth_opt (pa_nodes pa) i of
             None \<Rightarrow> Inl (INVALID_NODE_INDEX i)
           | Some n \<Rightarrow> nonAncestorsFrom (length (pa_nodes pa)) pa i n))"

text \<open>The loop of \<open>isDescendant\<close> over the generator.\<close>

fun scanAncestors :: "proto_node \<Rightarrow> proto_node list \<Rightarrow> proto_array_error option \<Rightarrow> bool pa_result" where
  "scanAncestors anc [] None = Inr False"
| "scanAncestors anc [] (Some e) = Inl e"
| "scanAncestors anc (n # ns) e =
     (if pb_slot n < pb_slot anc then Inr False
      else if pb_blockRoot n = pb_blockRoot anc then Inr True
      else scanAncestors anc ns e)"

definition isDescendant :: "proto_array \<Rightarrow> root_hex \<Rightarrow> root_hex \<Rightarrow> bool pa_result" where
  "isDescendant pa ancestorRoot descendantRoot =
     (case getNode pa ancestorRoot of
        None \<Rightarrow> Inr False
      | Some anc \<Rightarrow>
          if ancestorRoot = descendantRoot then Inr True
          else (case iterateAncestorNodes pa descendantRoot of (ns, e) \<Rightarrow> scanAncestors anc ns e))"

fun commonAncestorLoop :: "nat \<Rightarrow> proto_array \<Rightarrow> proto_node \<Rightarrow> proto_node
    \<Rightarrow> proto_node option pa_result" where
  "commonAncestorLoop fuel pa a b =
     (if pb_slot a = pb_slot b \<and> pb_blockRoot a = pb_blockRoot b then Inr (Some a)
      else
        (case fuel of
           0 \<Rightarrow> Inl LOOP_BOUND
         | Suc f \<Rightarrow>
             if pb_slot b < pb_slot a then
               (case pn_parent a of
                  None \<Rightarrow> Inr None
                | Some p \<Rightarrow> bind_res (getNodeFromIndex pa p) (\<lambda>a'. commonAncestorLoop f pa a' b))
             else if pb_slot a < pb_slot b then
               (case pn_parent b of
                  None \<Rightarrow> Inr None
                | Some p \<Rightarrow> bind_res (getNodeFromIndex pa p) (\<lambda>b'. commonAncestorLoop f pa a b'))
             else
               (case (pn_parent a, pn_parent b) of
                  (Some p, Some q) \<Rightarrow>
                    bind_res (getNodeFromIndex pa p) (\<lambda>a'.
                    bind_res (getNodeFromIndex pa q) (\<lambda>b'. commonAncestorLoop f pa a' b'))
                | _ \<Rightarrow> Inr None)))"

definition getCommonAncestor :: "proto_array \<Rightarrow> proto_node \<Rightarrow> proto_node
    \<Rightarrow> proto_node option pa_result" where
  "getCommonAncestor pa a b = commonAncestorLoop (2 * length (pa_nodes pa)) pa a b"

declare ancestorsFrom.simps [simp del] nonAncestorsFrom.simps [simp del]
  commonAncestorLoop.simps [simp del]

end
