(* ===== verification/ProtoArrayWf.thy ===== *)
theory ProtoArrayWf
  imports ProtoArray
begin

text \<open>
  Well-formed proto arrays: parents have smaller indices, the index map and the node list agree,
  and every best-child link points to a child and every best-descendant link into that child's
  subtree. The lemmas show that no method of the class throws one of its internal errors on such
  an array, and that \<open>onBlock\<close>, \<open>applyScoreChanges\<close> and \<open>maybePrune\<close> keep it well-formed.
\<close>

named_theorems pa_intros \<open>what keeps a proto array well-formed\<close>

section \<open>The tree\<close>

text \<open>The ancestors of a node, nearest first.\<close>

fun ancestors :: "proto_node list \<Rightarrow> nat \<Rightarrow> nat list" where
  "ancestors nodes i =
     (if i < length nodes then
        (case pn_parent (nodes ! i) of
           None \<Rightarrow> []
         | Some p \<Rightarrow> if p < i then p # ancestors nodes p else [])
      else [])"

declare ancestors.simps [simp del]

definition anc :: "proto_node list \<Rightarrow> nat \<Rightarrow> nat \<Rightarrow> bool" where
  "anc nodes a d = (a \<in> set (ancestors nodes d))"

definition children :: "proto_node list \<Rightarrow> nat \<Rightarrow> nat list" where
  "children nodes i = filter (\<lambda>c. pn_parent (nodes ! c) = Some i) [Suc i..<length nodes]"

lemma children_iff: "c \<in> set (children nodes i) \<longleftrightarrow>
    i < c \<and> c < length nodes \<and> pn_parent (nodes ! c) = Some i"
  by (auto simp: children_def)

lemma distinct_children [simp]: "distinct (children nodes i)"
  by (simp add: children_def)

definition parents_ok :: "proto_node list \<Rightarrow> bool" where
  "parents_ok nodes = (\<forall>i < length nodes. \<forall>p. pn_parent (nodes ! i) = Some p \<longrightarrow> p < i)"

definition links_ok :: "proto_node list \<Rightarrow> nat \<Rightarrow> bool" where
  "links_ok nodes i =
     (case (pn_bestChild (nodes ! i), pn_bestDescendant (nodes ! i)) of
        (None, None) \<Rightarrow> True
      | (Some c, Some d) \<Rightarrow>
          c < length nodes \<and> pn_parent (nodes ! c) = Some i \<and>
          d < length nodes \<and> (d = c \<or> anc nodes c d)
      | _ \<Rightarrow> False)"

definition indices_ok :: "proto_node list \<Rightarrow> (root_hex, nat) jsmap \<Rightarrow> bool" where
  "indices_ok nodes m \<longleftrightarrow> jm_ok m \<and>
     (\<forall>i < length nodes. jm_get m (pb_blockRoot (nodes ! i)) = Some i) \<and>
     (\<forall>k i. jm_get m k = Some i \<longrightarrow> i < length nodes \<and> pb_blockRoot (nodes ! i) = k)"

definition pa_wf :: "proto_array \<Rightarrow> bool" where
  "pa_wf pa \<longleftrightarrow> parents_ok (pa_nodes pa) \<and> indices_ok (pa_nodes pa) (pa_indices pa) \<and>
     (\<forall>i < length (pa_nodes pa). links_ok (pa_nodes pa) i)"

lemma parents_okD: "parents_ok nodes \<Longrightarrow> i < length nodes \<Longrightarrow> pn_parent (nodes ! i) = Some p \<Longrightarrow> p < i"
  by (auto simp: parents_ok_def)

lemma pa_wf_parents: "pa_wf pa \<Longrightarrow> parents_ok (pa_nodes pa)"
  by (simp add: pa_wf_def)

lemma pa_wf_parent_less: "pa_wf pa \<Longrightarrow> i < length (pa_nodes pa) \<Longrightarrow>
    pn_parent (pa_nodes pa ! i) = Some p \<Longrightarrow> p < i \<and> p < length (pa_nodes pa)"
  using parents_okD [OF pa_wf_parents] by fastforce

lemma pa_wf_get: "pa_wf pa \<Longrightarrow> jm_get (pa_indices pa) k = Some i \<Longrightarrow>
    i < length (pa_nodes pa) \<and> pb_blockRoot (pa_nodes pa ! i) = k"
  by (auto simp: pa_wf_def indices_ok_def)

lemma pa_wf_index: "pa_wf pa \<Longrightarrow> i < length (pa_nodes pa) \<Longrightarrow>
    jm_get (pa_indices pa) (pb_blockRoot (pa_nodes pa ! i)) = Some i"
  by (auto simp: pa_wf_def indices_ok_def)

lemma pa_wf_root_inj: "pa_wf pa \<Longrightarrow> i < length (pa_nodes pa) \<Longrightarrow> j < length (pa_nodes pa) \<Longrightarrow>
    pb_blockRoot (pa_nodes pa ! i) = pb_blockRoot (pa_nodes pa ! j) \<Longrightarrow> i = j"
  using pa_wf_index by (metis option.inject)

lemma pa_wf_links: "pa_wf pa \<Longrightarrow> i < length (pa_nodes pa) \<Longrightarrow> links_ok (pa_nodes pa) i"
  by (simp add: pa_wf_def)

lemma links_ok_Some: "links_ok nodes i \<Longrightarrow> pn_bestChild (nodes ! i) = Some c \<Longrightarrow>
    \<exists>d. pn_bestDescendant (nodes ! i) = Some d \<and> c < length nodes \<and>
        pn_parent (nodes ! c) = Some i \<and> d < length nodes \<and> (d = c \<or> anc nodes c d)"
  by (auto simp: links_ok_def split: option.splits)

lemma links_ok_desc: "links_ok nodes i \<Longrightarrow> pn_bestDescendant (nodes ! i) = Some d \<Longrightarrow>
    \<exists>c. pn_bestChild (nodes ! i) = Some c \<and> c < length nodes \<and>
        pn_parent (nodes ! c) = Some i \<and> d < length nodes \<and> (d = c \<or> anc nodes c d)"
  by (auto simp: links_ok_def split: option.splits)

lemma links_ok_None: "links_ok nodes i \<Longrightarrow>
    pn_bestChild (nodes ! i) = None \<longleftrightarrow> pn_bestDescendant (nodes ! i) = None"
  by (auto simp: links_ok_def split: option.splits)

text \<open>Ancestors in a list with smaller parents.\<close>

lemma ancestors_Some: "parents_ok nodes \<Longrightarrow> i < length nodes \<Longrightarrow> pn_parent (nodes ! i) = Some p \<Longrightarrow>
    ancestors nodes i = p # ancestors nodes p"
  by (subst ancestors.simps) (simp add: parents_okD)

lemma ancestors_None: "pn_parent (nodes ! i) = None \<Longrightarrow> ancestors nodes i = []"
  by (subst ancestors.simps) simp

lemma anc_child: "parents_ok nodes \<Longrightarrow> i < length nodes \<Longrightarrow> pn_parent (nodes ! i) = Some p \<Longrightarrow>
    anc nodes a i \<longleftrightarrow> a = p \<or> anc nodes a p"
  by (auto simp: anc_def ancestors_Some)

lemma anc_unfold: "anc nodes a i \<longleftrightarrow>
    (\<exists>p. i < length nodes \<and> pn_parent (nodes ! i) = Some p \<and> p < i \<and> (a = p \<or> anc nodes a p))"
  unfolding anc_def ancestors.simps [of nodes i]
  by (cases "i < length nodes"; cases "pn_parent (nodes ! i)") auto

lemma anc_less: "anc nodes a d \<Longrightarrow> a < d \<and> d < length nodes"
proof (induction nodes d rule: ancestors.induct)
  case (1 nodes i)
  from "1.prems" obtain p where p: "i < length nodes" "pn_parent (nodes ! i) = Some p" "p < i"
      "a = p \<or> anc nodes a p"
    unfolding anc_unfold [of nodes a i] by blast
  then show ?case
    using "1.IH" [OF p(1,2,3)] by auto
qed

lemma anc_trans: "parents_ok nodes \<Longrightarrow> anc nodes b c \<Longrightarrow> anc nodes a b \<Longrightarrow> anc nodes a c"
proof (induction nodes c rule: ancestors.induct)
  case (1 nodes i)
  from "1.prems"(2) obtain p where p: "i < length nodes" "pn_parent (nodes ! i) = Some p" "p < i"
      "b = p \<or> anc nodes b p"
    unfolding anc_unfold [of nodes b i] by blast
  then have "anc nodes a p"
    using "1.IH" [OF p(1,2,3)] "1.prems" by blast
  with p show ?case
    unfolding anc_unfold [of nodes a i] by blast
qed

lemma ancestors_cong: "map pn_parent nodes = map pn_parent nodes' \<Longrightarrow> ancestors nodes i = ancestors nodes' i"
proof (induction nodes i rule: ancestors.induct)
  case (1 nodes i)
  have len: "length nodes = length nodes'"
    using "1.prems" by (metis length_map)
  have par: "pn_parent (nodes ! i) = pn_parent (nodes' ! i)" if "i < length nodes"
    using "1.prems" that len by (metis nth_map)
  show ?case
    using "1.IH" "1.prems" len par
    by (subst (1 2) ancestors.simps) (auto split: option.splits)
qed

lemma anc_cong: "map pn_parent nodes = map pn_parent nodes' \<Longrightarrow> anc nodes = anc nodes'"
  by (intro ext) (simp only: anc_def ancestors_cong [of nodes nodes'])

lemma children_cong: "map pn_parent nodes = map pn_parent nodes' \<Longrightarrow> children nodes i = children nodes' i"
proof -
  assume m: "map pn_parent nodes = map pn_parent nodes'"
  have len: "length nodes = length nodes'"
    using m by (metis length_map)
  have "pn_parent (nodes ! c) = pn_parent (nodes' ! c)" if "c \<in> set [Suc i..<length nodes']" for c
    using m that len by (metis atLeastLessThan_iff nth_map set_upt)
  then show ?thesis
    unfolding children_def len by (intro filter_cong) auto
qed

section \<open>What the score and link updates leave alone\<close>

definition core :: "proto_node \<Rightarrow> proto_node" where
  "core n = n\<lparr>pn_bestChild := None, pn_bestDescendant := None\<rparr>"

definition same_core :: "proto_array \<Rightarrow> proto_array \<Rightarrow> bool" where
  "same_core pa pa' \<longleftrightarrow> map core (pa_nodes pa) = map core (pa_nodes pa') \<and>
     pa\<lparr>pa_nodes := []\<rparr> = pa'\<lparr>pa_nodes := []\<rparr>"

lemma core_simps [simp]:
  "pn_parent (core n) = pn_parent n" "pn_weight (core n) = pn_weight n"
  "pb_blockRoot (core n) = pb_blockRoot n" "pb_slot (core n) = pb_slot n"
  "pb_justifiedEpoch (core n) = pb_justifiedEpoch n"
  "pb_justifiedRoot (core n) = pb_justifiedRoot n"
  "pb_finalizedEpoch (core n) = pb_finalizedEpoch n"
  "pb_finalizedRoot (core n) = pb_finalizedRoot n"
  by (simp_all add: core_def)

lemma core_eqD: "core n = core m \<Longrightarrow>
    pn_parent n = pn_parent m \<and> pn_weight n = pn_weight m \<and> pb_blockRoot n = pb_blockRoot m \<and>
    pb_justifiedEpoch n = pb_justifiedEpoch m \<and> pb_justifiedRoot n = pb_justifiedRoot m \<and>
    pb_finalizedEpoch n = pb_finalizedEpoch m \<and> pb_finalizedRoot n = pb_finalizedRoot m \<and>
    pb_slot n = pb_slot m"
  by (metis (no_types) core_simps)

lemma same_core_refl [simp]: "same_core pa pa"
  by (simp add: same_core_def)

lemma same_core_trans: "same_core a b \<Longrightarrow> same_core b c \<Longrightarrow> same_core a c"
  by (simp add: same_core_def)

lemma same_core_sym: "same_core a b \<Longrightarrow> same_core b a"
  by (simp add: same_core_def)

lemma same_core_length: "same_core a b \<Longrightarrow> length (pa_nodes a) = length (pa_nodes b)"
  unfolding same_core_def by (metis length_map)

lemma same_core_node: "same_core a b \<Longrightarrow> i < length (pa_nodes a) \<Longrightarrow>
    core (pa_nodes a ! i) = core (pa_nodes b ! i)"
  unfolding same_core_def by (metis length_map nth_map)

lemma same_core_parents: "same_core a b \<Longrightarrow> map pn_parent (pa_nodes a) = map pn_parent (pa_nodes b)"
  using core_eqD [OF same_core_node, of a b] same_core_length [of a b]
  by (intro nth_equalityI) auto

lemma same_core_fields: "same_core a b \<Longrightarrow>
    pa_justifiedEpoch a = pa_justifiedEpoch b \<and> pa_justifiedRoot a = pa_justifiedRoot b \<and>
    pa_finalizedEpoch a = pa_finalizedEpoch b \<and> pa_finalizedRoot a = pa_finalizedRoot b \<and>
    pa_indices a = pa_indices b \<and> pa_pruneThreshold a = pa_pruneThreshold b \<and>
    pa_previousProposerBoost a = pa_previousProposerBoost b"
  by (cases a; cases b) (simp add: same_core_def)

lemma same_core_viable: "same_core a b \<Longrightarrow> i < length (pa_nodes a) \<Longrightarrow>
    nodeIsViableForHead a (pa_nodes a ! i) = nodeIsViableForHead b (pa_nodes b ! i)"
  using core_eqD [OF same_core_node, of a b i] same_core_fields [of a b]
  by (simp add: nodeIsViableForHead_def)

section \<open>One link update\<close>

definition viable :: "proto_array \<Rightarrow> nat \<Rightarrow> bool" where
  "viable pa i = nodeIsViableForHead pa (pa_nodes pa ! i)"

definition leads :: "proto_array \<Rightarrow> nat \<Rightarrow> bool" where
  "leads pa i = (viable pa i \<or>
     (case pn_bestDescendant (pa_nodes pa ! i) of None \<Rightarrow> False | Some d \<Rightarrow> viable pa d))"

text \<open>\<open>beats nodes c b\<close>: heavier, or as heavy with a root that is not smaller.\<close>

definition beats :: "proto_node list \<Rightarrow> nat \<Rightarrow> nat \<Rightarrow> bool" where
  "beats nodes c b \<longleftrightarrow> pn_weight (nodes ! b) < pn_weight (nodes ! c) \<or>
     (pn_weight (nodes ! b) = pn_weight (nodes ! c) \<and>
      pb_blockRoot (nodes ! b) \<le> pb_blockRoot (nodes ! c))"

definition tip :: "proto_node list \<Rightarrow> nat \<Rightarrow> nat" where
  "tip nodes c = (case pn_bestDescendant (nodes ! c) of None \<Rightarrow> c | Some d \<Rightarrow> d)"

definition decide_links :: "proto_array \<Rightarrow> nat \<Rightarrow> nat \<Rightarrow> nat option \<times> nat option" where
  "decide_links pa p c =
     (let nodes = pa_nodes pa;
          toChild = (Some c, Some (tip nodes c));
          keep = (pn_bestChild (nodes ! p), pn_bestDescendant (nodes ! p))
      in case pn_bestChild (nodes ! p) of
           None \<Rightarrow> if leads pa c then toChild else keep
         | Some b \<Rightarrow>
             if b = c then (if leads pa c then toChild else (None, None))
             else if leads pa c \<and> \<not> leads pa b then toChild
             else if \<not> leads pa c \<and> leads pa b then keep
             else if beats nodes c b then toChild else keep)"

definition set_links :: "proto_array \<Rightarrow> nat \<Rightarrow> nat option \<times> nat option \<Rightarrow> proto_array" where
  "set_links pa p l = pa\<lparr>pa_nodes := (pa_nodes pa)[p := (pa_nodes pa ! p)
     \<lparr>pn_bestChild := fst l, pn_bestDescendant := snd l\<rparr>]\<rparr>"

lemma nodeLeads_wf: "pa_wf pa \<Longrightarrow> i < length (pa_nodes pa) \<Longrightarrow>
    nodeLeadsToViableHead pa (pa_nodes pa ! i) = Inr (leads pa i)"
  using links_ok_desc [OF pa_wf_links]
  by (fastforce simp: nodeLeadsToViableHead_def leads_def viable_def split: option.splits)

lemma maybeUpdate_wf:
  assumes wf: "pa_wf pa" and c: "c < length (pa_nodes pa)" and p: "p < length (pa_nodes pa)"
  shows "maybeUpdateBestChildAndDescendant pa p c = Inr (set_links pa p (decide_links pa p c))"
proof (cases "pn_bestChild (pa_nodes pa ! p)")
  case None
  then show ?thesis
    by (simp add: maybeUpdateBestChildAndDescendant_def c p nodeLeads_wf [OF wf]
        newChildAndDescendant_def decide_links_def set_links_def tip_def)
next
  case (Some b)
  have b: "b < length (pa_nodes pa)"
    using links_ok_Some [OF pa_wf_links [OF wf p] Some] by blast
  show ?thesis
    by (auto simp: maybeUpdateBestChildAndDescendant_def c p b Some nodeLeads_wf [OF wf]
        newChildAndDescendant_def decide_links_def set_links_def tip_def beats_def Let_def)
qed

lemma same_core_set_links: "p < length (pa_nodes pa) \<Longrightarrow> same_core pa (set_links pa p l)"
  unfolding same_core_def set_links_def
  by (auto simp: map_update core_def intro!: nth_equalityI simp: nth_list_update)

lemma set_links_simps [simp]:
  "length (pa_nodes (set_links pa p l)) = length (pa_nodes pa)"
  "pa_indices (set_links pa p l) = pa_indices pa"
  by (simp_all add: set_links_def)

lemma set_links_other: "i \<noteq> p \<Longrightarrow> pa_nodes (set_links pa p l) ! i = pa_nodes pa ! i"
  by (simp add: set_links_def)

lemma set_links_same: "p < length (pa_nodes pa) \<Longrightarrow>
    pn_bestChild (pa_nodes (set_links pa p l) ! p) = fst l \<and>
    pn_bestDescendant (pa_nodes (set_links pa p l) ! p) = snd l"
  by (simp add: set_links_def)

lemma decide_links_shape:
  "decide_links pa p c = (Some c, Some (tip (pa_nodes pa) c)) \<or>
   decide_links pa p c = (pn_bestChild (pa_nodes pa ! p), pn_bestDescendant (pa_nodes pa ! p)) \<or>
   decide_links pa p c = (None, None)"
  by (auto simp: decide_links_def Let_def split: option.splits)

lemma indices_ok_same_core: "same_core a b \<Longrightarrow> indices_ok (pa_nodes a) m \<Longrightarrow> indices_ok (pa_nodes b) m"
  using core_eqD [OF same_core_node, of a b] same_core_length [of a b]
  unfolding indices_ok_def by metis

lemma parents_ok_cong: "map pn_parent nodes = map pn_parent nodes' \<Longrightarrow> parents_ok nodes = parents_ok nodes'"
  unfolding parents_ok_def by (metis length_map nth_map)

lemma links_ok_cong: "map pn_parent nodes = map pn_parent nodes' \<Longrightarrow> i < length nodes \<Longrightarrow>
    pn_bestChild (nodes ! i) = pn_bestChild (nodes' ! i) \<Longrightarrow>
    pn_bestDescendant (nodes ! i) = pn_bestDescendant (nodes' ! i) \<Longrightarrow>
    links_ok nodes i = links_ok nodes' i"
proof -
  assume m: "map pn_parent nodes = map pn_parent nodes'" and i: "i < length nodes"
    and bc: "pn_bestChild (nodes ! i) = pn_bestChild (nodes' ! i)"
    and bd: "pn_bestDescendant (nodes ! i) = pn_bestDescendant (nodes' ! i)"
  have len: "length nodes = length nodes'"
    using m by (metis length_map)
  have par: "pn_parent (nodes ! c) = pn_parent (nodes' ! c)" if "c < length nodes" for c
    using m that len by (metis nth_map)
  show ?thesis
    using par by (auto simp: links_ok_def bc bd len anc_cong [OF m] split: option.splits)
qed

lemma pa_wf_set_links:
  assumes wf: "pa_wf pa" and c: "c < length (pa_nodes pa)"
    and par: "pn_parent (pa_nodes pa ! c) = Some p"
  shows "pa_wf (set_links pa p (decide_links pa p c))"
proof -
  let ?l = "decide_links pa p c"
  let ?pa = "set_links pa p ?l"
  have p: "p < length (pa_nodes pa)"
    using pa_wf_parent_less [OF wf c par] by simp
  have sc: "same_core pa ?pa"
    by (rule same_core_set_links [OF p])
  note m = same_core_parents [OF sc]
  have tipc: "tip (pa_nodes pa) c < length (pa_nodes pa) \<and>
      (tip (pa_nodes pa) c = c \<or> anc (pa_nodes pa) c (tip (pa_nodes pa) c))"
  proof (cases "pn_bestDescendant (pa_nodes pa ! c)")
    case None
    with c show ?thesis by (simp add: tip_def)
  next
    case (Some d)
    from links_ok_desc [OF pa_wf_links [OF wf c] Some] obtain b where
      b: "b < length (pa_nodes pa)" "pn_parent (pa_nodes pa ! b) = Some c"
         "d < length (pa_nodes pa)" "d = b \<or> anc (pa_nodes pa) b d"
      by blast
    have "anc (pa_nodes pa) c b"
      using anc_child [OF pa_wf_parents [OF wf] b(1,2)] by blast
    with b show ?thesis
      using anc_trans [OF pa_wf_parents [OF wf]] by (auto simp: tip_def Some)
  qed
  have "links_ok (pa_nodes ?pa) i" if i: "i < length (pa_nodes ?pa)" for i
  proof (cases "i = p")
    case False
    then have "pa_nodes ?pa ! i = pa_nodes pa ! i"
      by (rule set_links_other)
    then show ?thesis
      using links_ok_cong [OF m, of i] pa_wf_links [OF wf, of i] i by simp
  next
    case True
    have sm: "pn_bestChild (pa_nodes ?pa ! p) = fst ?l" "pn_bestDescendant (pa_nodes ?pa ! p) = snd ?l"
      using set_links_same [OF p] by auto
    have par': "pn_parent (pa_nodes ?pa ! x) = pn_parent (pa_nodes pa ! x)" if "x < length (pa_nodes pa)" for x
      using core_eqD [OF same_core_node [OF sc that]] by simp
    from decide_links_shape [of pa p c] show ?thesis
    proof (elim disjE)
      assume e: "?l = (Some c, Some (tip (pa_nodes pa) c))"
      show ?thesis
        using tipc c par sm par' [OF c] anc_cong [OF m] unfolding True links_ok_def
        by (simp add: e)
    next
      assume e: "?l = (pn_bestChild (pa_nodes pa ! p), pn_bestDescendant (pa_nodes pa ! p))"
      show ?thesis
        using pa_wf_links [OF wf p] links_ok_cong [OF m p] sm
        unfolding True e fst_conv snd_conv by metis
    next
      assume e: "?l = (None, None)"
      show ?thesis
        using sm unfolding True links_ok_def by (simp add: e)
    qed
  qed
  moreover have "parents_ok (pa_nodes ?pa)"
    using pa_wf_parents [OF wf] parents_ok_cong [OF m] by simp
  moreover have "indices_ok (pa_nodes ?pa) (pa_indices ?pa)"
    using indices_ok_same_core [OF sc] wf by (simp add: pa_wf_def)
  ultimately show ?thesis
    by (simp add: pa_wf_def)
qed

section \<open>The score changes\<close>

text \<open>The weight loop only writes weights.\<close>

definition strip_weight :: "proto_node \<Rightarrow> proto_node" where
  "strip_weight n = n\<lparr>pn_weight := 0\<rparr>"



lemma parents_ok_update_weight:
  "i < length nodes \<Longrightarrow> parents_ok (nodes[i := (nodes ! i)\<lparr>pn_weight := w\<rparr>]) = parents_ok nodes"
  by (rule parents_ok_cong) (auto simp: map_update list_update_same_conv intro!: nth_equalityI simp: nth_list_update)

lemma applyWeights_ok:
  "parents_ok nodes \<Longrightarrow> length deltas = length nodes \<Longrightarrow> k \<le> length nodes \<Longrightarrow>
   \<exists>nodes'. applyWeights cur prev k nodes deltas = Inr nodes' \<and>
     map strip_weight nodes' = map strip_weight nodes"
proof (induction cur prev k nodes deltas rule: applyWeights.induct)
  case (1 cur prev nodes deltas)
  then show ?case by simp
next
  case (2 cur prev i nodes deltas)
  have i: "i < length nodes"
    using "2.prems" by simp
  let ?n = "nodes ! i"
  let ?nd = "deltas ! i + boostFor cur (pb_blockRoot ?n) - boostFor prev (pb_blockRoot ?n)"
  let ?nodes = "nodes[i := ?n\<lparr>pn_weight := pn_weight ?n + ?nd\<rparr>]"
  have strip: "map strip_weight ?nodes = map strip_weight nodes"
    using i by (auto simp: strip_weight_def intro!: nth_equalityI simp: nth_list_update)
  have par: "parents_ok ?nodes"
    using "2.prems" parents_ok_update_weight [OF i] by simp
  show ?case
  proof (cases "pb_blockRoot ?n = HEX_ZERO_HASH")
    case True
    with "2.IH"(1) [of ?n] "2.prems" i show ?thesis by simp
  next
    case False
    show ?thesis
    proof (cases "pn_parent ?n")
      case None
      with "2.IH"(2) [of ?n "deltas ! i" ?nd ?nodes] "2.prems" i False par strip show ?thesis
        by (simp add: Let_def)
    next
      case (Some p)
      have p: "p < length deltas"
        using parents_okD [OF "2.prems"(1) i Some] i "2.prems" by simp
      with "2.IH"(3) [of ?n "deltas ! i" ?nd ?nodes p "deltas ! p"] "2.prems" i False par strip Some
      show ?thesis by (simp add: Let_def)
    qed
  qed
qed

lemma indices_ok_length: "indices_ok nodes m \<Longrightarrow> jm_size m = length nodes"
proof -
  assume ok: "indices_ok nodes m"
  have "dom (jm_get m) = (\<lambda>i. pb_blockRoot (nodes ! i)) ` {..<length nodes}"
    using ok by (force simp: indices_ok_def dom_def image_def)
  moreover have "inj_on (\<lambda>i. pb_blockRoot (nodes ! i)) {..<length nodes}"
    using ok unfolding indices_ok_def inj_on_def by (metis lessThan_iff option.inject)
  ultimately show ?thesis
    using ok by (simp add: jm_size_card indices_ok_def card_image)
qed

lemma applyBestChildren_ok:
  "pa_wf pa \<Longrightarrow> k \<le> length (pa_nodes pa) \<Longrightarrow>
   \<exists>pa'. applyBestChildren k pa = Inr pa' \<and> pa_wf pa' \<and> same_core pa pa'"
proof (induction k pa rule: applyBestChildren.induct)
  case (1 pa)
  then show ?case by simp
next
  case (2 i pa)
  have i: "i < length (pa_nodes pa)"
    using "2.prems" by simp
  show ?case
  proof (cases "pn_parent (pa_nodes pa ! i)")
    case None
    with "2.IH"(1) [of "pa_nodes pa ! i"] "2.prems" i show ?thesis by simp
  next
    case (Some p)
    have p: "p < length (pa_nodes pa)"
      using pa_wf_parent_less [OF "2.prems"(1) i Some] by simp
    let ?pa = "set_links pa p (decide_links pa p i)"
    have upd: "maybeUpdateBestChildAndDescendant pa p i = Inr ?pa"
      by (rule maybeUpdate_wf [OF "2.prems"(1) i p])
    obtain pa' where r: "applyBestChildren i ?pa = Inr pa'" "pa_wf pa'" "same_core ?pa pa'"
      using "2.IH"(2) [of "pa_nodes pa ! i" p ?pa] "2.prems" i Some
        pa_wf_set_links [OF "2.prems"(1) i Some] by auto
    have "same_core pa pa'"
      by (rule same_core_trans [OF same_core_set_links [OF p] r(3)])
    with i Some upd r show ?thesis by simp
  qed
qed


lemma strip_weight_eqD: "strip_weight n = strip_weight m \<Longrightarrow>
    pn_parent n = pn_parent m \<and> pb_blockRoot n = pb_blockRoot m \<and>
    pn_bestChild n = pn_bestChild m \<and> pn_bestDescendant n = pn_bestDescendant m"
proof -
  have s: "pn_parent (strip_weight x) = pn_parent x" "pb_blockRoot (strip_weight x) = pb_blockRoot x"
    "pn_bestChild (strip_weight x) = pn_bestChild x"
    "pn_bestDescendant (strip_weight x) = pn_bestDescendant x" for x
    by (simp_all add: strip_weight_def)
  show "strip_weight n = strip_weight m \<Longrightarrow> ?thesis"
    by (metis s)
qed

lemma pa_wf_strip_weight:
  assumes eq: "map strip_weight nodes' = map strip_weight (pa_nodes pa)" and wf: "pa_wf pa"
    and n: "pa_nodes pa' = nodes'" and ix: "pa_indices pa' = pa_indices pa"
  shows "pa_wf pa'"
proof -
  have len: "length nodes' = length (pa_nodes pa)"
    using eq by (metis length_map)
  have e: "strip_weight (nodes' ! i) = strip_weight (pa_nodes pa ! i)" if "i < length nodes'" for i
    using eq that len by (metis nth_map)
  note d = strip_weight_eqD [OF e]
  have m: "map pn_parent nodes' = map pn_parent (pa_nodes pa)"
    using d len by (intro nth_equalityI) auto
  have "parents_ok nodes'"
    using parents_ok_cong [OF m] pa_wf_parents [OF wf] by simp
  moreover have "indices_ok nodes' (pa_indices pa)"
    using wf d len unfolding pa_wf_def indices_ok_def by metis
  moreover have "links_ok nodes' i" if i: "i < length nodes'" for i
    using links_ok_cong [OF m i] d [OF i] pa_wf_links [OF wf, of i] i len by simp
  ultimately show ?thesis
    by (simp add: pa_wf_def n ix)
qed

lemma applyScoreChanges_wf:
  assumes wf: "pa_wf pa" and len: "length deltas = length (pa_nodes pa)"
  shows "\<exists>pa'. applyScoreChanges pa deltas boost jE jR fE fR = Inr pa' \<and> pa_wf pa' \<and>
    length (pa_nodes pa') = length (pa_nodes pa)"
proof -
  let ?pa1 = "if jE \<noteq> pa_justifiedEpoch pa \<or> fE \<noteq> pa_finalizedEpoch pa
                \<or> jR \<noteq> pa_justifiedRoot pa \<or> fR \<noteq> pa_finalizedRoot pa
              then pa\<lparr>pa_justifiedEpoch := jE, pa_finalizedEpoch := fE,
                     pa_justifiedRoot := jR, pa_finalizedRoot := fR\<rparr> else pa"
  have n1: "pa_nodes ?pa1 = pa_nodes pa" "pa_indices ?pa1 = pa_indices pa"
    by simp_all
  have size: "length deltas = jm_size (pa_indices pa)"
    using indices_ok_length [of "pa_nodes pa" "pa_indices pa"] wf len by (simp add: pa_wf_def)
  obtain nodes where nodes: "applyWeights boost (pa_previousProposerBoost ?pa1)
      (length (pa_nodes pa)) (pa_nodes pa) deltas = Inr nodes"
      "map strip_weight nodes = map strip_weight (pa_nodes pa)"
    using applyWeights_ok [OF pa_wf_parents [OF wf] len] by blast
  have ln: "length nodes = length (pa_nodes pa)"
    using nodes(2) by (metis length_map)
  have wf2: "pa_wf (?pa1\<lparr>pa_nodes := nodes\<rparr>)"
    by (rule pa_wf_strip_weight [OF nodes(2) wf]) simp_all
  obtain pa2 where pa2: "applyBestChildren (length nodes) (?pa1\<lparr>pa_nodes := nodes\<rparr>) = Inr pa2"
      "pa_wf pa2" "same_core (?pa1\<lparr>pa_nodes := nodes\<rparr>) pa2"
    using applyBestChildren_ok [OF wf2, of "length nodes"] by auto
  have "length (pa_nodes pa2) = length (pa_nodes pa)"
    using same_core_length [OF pa2(3)] ln by simp
  moreover have "pa_wf (pa2\<lparr>pa_previousProposerBoost := boost\<rparr>)"
    using pa2(2) by (simp add: pa_wf_def)
  ultimately show ?thesis
    using nodes(1) pa2(1) unfolding applyScoreChanges_def Let_def
    by (simp only: size n1 not_True_eq_False if_False simp_thms bind_res.simps) simp
qed

lemma applyScoreChanges_split:
  assumes wf: "pa_wf pa" and app: "applyScoreChanges pa deltas boost jE jR fE fR = Inr pa'"
  shows "\<exists>nodes pa1 pa2. length deltas = length (pa_nodes pa) \<and>
    applyWeights boost (pa_previousProposerBoost pa) (length (pa_nodes pa)) (pa_nodes pa) deltas = Inr nodes \<and>
    pa_nodes pa1 = nodes \<and> pa_indices pa1 = pa_indices pa \<and> pa_justifiedEpoch pa1 = jE \<and>
    pa_justifiedRoot pa1 = jR \<and> pa_finalizedEpoch pa1 = fE \<and> pa_finalizedRoot pa1 = fR \<and> pa_wf pa1 \<and>
    applyBestChildren (length nodes) pa1 = Inr pa2 \<and> pa' = pa2\<lparr>pa_previousProposerBoost := boost\<rparr>"
proof -
  let ?pa1 = "pa\<lparr>pa_justifiedEpoch := jE, pa_finalizedEpoch := fE, pa_justifiedRoot := jR, pa_finalizedRoot := fR\<rparr>"
  have eq: "(if jE \<noteq> pa_justifiedEpoch pa \<or> fE \<noteq> pa_finalizedEpoch pa
                \<or> jR \<noteq> pa_justifiedRoot pa \<or> fR \<noteq> pa_finalizedRoot pa then ?pa1 else pa) = ?pa1"
    by simp
  have len: "length deltas = length (pa_nodes pa)"
    using app indices_ok_length [of "pa_nodes pa" "pa_indices pa"] wf
    by (auto simp: applyScoreChanges_def pa_wf_def split: if_splits)
  obtain nodes where nodes: "applyWeights boost (pa_previousProposerBoost pa) (length (pa_nodes pa))
      (pa_nodes pa) deltas = Inr nodes" "map strip_weight nodes = map strip_weight (pa_nodes pa)"
    using applyWeights_ok [OF pa_wf_parents [OF wf] len] by blast
  have wf1: "pa_wf (?pa1\<lparr>pa_nodes := nodes\<rparr>)"
    by (rule pa_wf_strip_weight [OF nodes(2) wf]) simp_all
  have "length deltas = jm_size (pa_indices pa)"
    using app by (simp add: applyScoreChanges_def split: if_splits)
  with app obtain pa2 where "applyBestChildren (length nodes) (?pa1\<lparr>pa_nodes := nodes\<rparr>) = Inr pa2"
      "pa' = pa2\<lparr>pa_previousProposerBoost := boost\<rparr>"
    unfolding applyScoreChanges_def eq Let_def using nodes(1) by (auto simp: bind_res_Inr_iff)
  with len nodes(1) wf1 show ?thesis
    by (intro exI [of _ nodes] exI [of _ "?pa1\<lparr>pa_nodes := nodes\<rparr>"] exI [of _ pa2]) simp
qed

section \<open>Adding a block\<close>

lemma propagateUp_ok:
  "pa_wf pa \<Longrightarrow> c < length (pa_nodes pa) \<Longrightarrow> pn_parent (pa_nodes pa ! c) = par \<Longrightarrow> c \<le> fuel \<Longrightarrow>
   \<exists>pa'. propagateUp fuel pa par c = Inr pa' \<and> pa_wf pa' \<and> same_core pa pa'"
proof (induction fuel pa par c rule: propagateUp.induct)
  case (1 fuel pa c)
  then show ?case by simp
next
  case (2 pa p c)
  then show ?case
    using pa_wf_parent_less by fastforce
next
  case (3 fuel pa p c)
  have p: "p < c" "p < length (pa_nodes pa)"
    using pa_wf_parent_less [OF "3.prems"(1,2,3)] by auto
  let ?pa = "set_links pa p (decide_links pa p c)"
  have upd: "maybeUpdateBestChildAndDescendant pa p c = Inr ?pa"
    by (rule maybeUpdate_wf [OF "3.prems"(1,2) p(2)])
  have wf': "pa_wf ?pa"
    by (rule pa_wf_set_links [OF "3.prems"(1,2,3)])
  have node: "getNodeByIndex ?pa p = Some (pa_nodes ?pa ! p)"
    using p by (simp add: getNodeByIndex_def)
  obtain pa' where r: "propagateUp fuel ?pa (pn_parent (pa_nodes ?pa ! p)) p = Inr pa'"
      "pa_wf pa'" "same_core ?pa pa'"
    using "3.IH" [of ?pa] wf' p "3.prems"(4) by (auto simp: node)
  have "same_core pa pa'"
    by (rule same_core_trans [OF same_core_set_links [OF p(2)] r(3)])
  with r upd node show ?case by simp
qed

lemma mkNode_simps [simp]:
  "pn_parent (mkNode pa b) = jm_get (pa_indices pa) (pb_parentRoot b)"
  "pn_weight (mkNode pa b) = 0" "pn_bestChild (mkNode pa b) = None"
  "pn_bestDescendant (mkNode pa b) = None" "pb_blockRoot (mkNode pa b) = pb_blockRoot b"
  "pb_slot (mkNode pa b) = pb_slot b" "proto_block.truncate (mkNode pa b) = b"
  by (simp_all add: mkNode_def proto_block.defs)

text \<open>The array after the push, before the walk to the root.\<close>

definition pushBlock :: "proto_array \<Rightarrow> proto_block \<Rightarrow> proto_array" where
  "pushBlock pa b = pa\<lparr>pa_indices := jm_set (pb_blockRoot b) (length (pa_nodes pa)) (pa_indices pa),
     pa_nodes := pa_nodes pa @ [mkNode pa b]\<rparr>"

lemma pushBlock_simps [simp]:
  "pa_nodes (pushBlock pa b) = pa_nodes pa @ [mkNode pa b]"
  "pa_indices (pushBlock pa b) = jm_set (pb_blockRoot b) (length (pa_nodes pa)) (pa_indices pa)"
  by (simp_all add: pushBlock_def)

lemma anc_append: "parents_ok nodes \<Longrightarrow> d < length nodes \<Longrightarrow> anc (nodes @ ms) a d \<longleftrightarrow> anc nodes a d"
proof (induction d rule: less_induct)
  case (less d)
  show ?case
    using less by (auto simp: anc_unfold [of "nodes @ ms" a d] anc_unfold [of nodes a d] nth_append)
qed

lemma pushBlock_wf:
  assumes wf: "pa_wf pa" and new: "jm_get (pa_indices pa) (pb_blockRoot b) = None"
  shows "pa_wf (pushBlock pa b)"
proof -
  let ?ns = "pa_nodes pa" and ?n = "mkNode pa b"
  have par: "parents_ok (?ns @ [?n])"
    using pa_wf_parents [OF wf] pa_wf_get [OF wf]
    by (auto simp: parents_ok_def nth_append less_Suc_eq)
  have "jm_get (pa_indices pa) (pb_blockRoot (?ns ! i)) = Some i \<and> pb_blockRoot (?ns ! i) \<noteq> pb_blockRoot b"
    if "i < length ?ns" for i
    using pa_wf_index [OF wf that] new by auto
  moreover have "jm_ok (pa_indices pa)"
    using wf by (simp add: pa_wf_def indices_ok_def)
  ultimately have ix: "indices_ok (?ns @ [?n]) (pa_indices (pushBlock pa b))"
    using pa_wf_get [OF wf] by (auto simp: indices_ok_def nth_append less_Suc_eq split: if_splits)
  have "links_ok (?ns @ [?n]) i" if i: "i < length ?ns" for i
    using pa_wf_links [OF wf i] i
    by (auto simp: links_ok_def nth_append anc_append [OF pa_wf_parents [OF wf]] split: option.splits)
  moreover have "links_ok (?ns @ [?n]) (length ?ns)"
    by (simp add: links_ok_def)
  ultimately show ?thesis
    using par ix by (simp add: pa_wf_def less_Suc_eq)
qed

lemma onBlock_known: "jm_has (pa_indices pa) (pb_blockRoot b) \<Longrightarrow> onBlock pa b = Inr pa"
  by (simp add: onBlock_def)

lemma onBlock_new: "\<not> jm_has (pa_indices pa) (pb_blockRoot b) \<Longrightarrow>
    onBlock pa b = propagateUp (Suc (length (pa_nodes pa))) (pushBlock pa b)
      (jm_get (pa_indices pa) (pb_parentRoot b)) (length (pa_nodes pa))"
  by (simp add: onBlock_def pushBlock_def Let_def)

lemma onBlock_wf:
  assumes wf: "pa_wf pa"
  shows "\<exists>pa'. onBlock pa b = Inr pa' \<and> pa_wf pa' \<and>
    (if jm_has (pa_indices pa) (pb_blockRoot b) then pa' = pa else same_core (pushBlock pa b) pa')"
proof (cases "jm_has (pa_indices pa) (pb_blockRoot b)")
  case True
  with wf show ?thesis by (simp add: onBlock_known)
next
  case False
  have "pa_wf (pushBlock pa b)"
    using pushBlock_wf [OF wf] False by (simp add: jm_has_def)
  from propagateUp_ok [OF this, of "length (pa_nodes pa)"]
  show ?thesis
    using False by (simp add: onBlock_new)
qed

lemma new_ProtoArray_wf: "pa_wf (new_ProtoArray t jE jR fE fR)"
  by (simp add: new_ProtoArray_def pa_wf_def parents_ok_def indices_ok_def)

lemma initialize_wf: "\<exists>pa. initialize b = Inr pa \<and> pa_wf pa"
  unfolding initialize_def using onBlock_wf [OF new_ProtoArray_wf] by blast


section \<open>Pruning\<close>

text \<open>What pruning at index \<open>fi\<close> makes of a node that stays.\<close>

definition shiftNode :: "nat \<Rightarrow> proto_node \<Rightarrow> proto_node" where
  "shiftNode fi n = n\<lparr>pn_parent := (case pn_parent n of
        None \<Rightarrow> None | Some p \<Rightarrow> if p < fi then None else Some (p - fi)),
      pn_bestChild := map_option (\<lambda>i. i - fi) (pn_bestChild n),
      pn_bestDescendant := map_option (\<lambda>i. i - fi) (pn_bestDescendant n)\<rparr>"

lemma shiftNode_simps [simp]:
  "pb_slot (shiftNode fi n) = pb_slot n" "pb_blockRoot (shiftNode fi n) = pb_blockRoot n"
  "pb_justifiedEpoch (shiftNode fi n) = pb_justifiedEpoch n"
  "pb_justifiedRoot (shiftNode fi n) = pb_justifiedRoot n"
  "pb_finalizedEpoch (shiftNode fi n) = pb_finalizedEpoch n"
  "pb_finalizedRoot (shiftNode fi n) = pb_finalizedRoot n"
  "pn_weight (shiftNode fi n) = pn_weight n"
  by (simp_all add: shiftNode_def)

lemma adjustNode_ok:
  "(\<And>c. pn_bestChild n = Some c \<Longrightarrow> fi \<le> c) \<Longrightarrow> (\<And>d. pn_bestDescendant n = Some d \<Longrightarrow> fi \<le> d) \<Longrightarrow>
   adjustNode fi n = Inr (shiftNode fi n)"
  by (auto simp: adjustNode_def adjustLink_def shiftNode_def Let_def not_less split: option.splits)

lemma adjustNodes_ok:
  "(\<And>n. n \<in> set ns \<Longrightarrow> adjustNode fi n = Inr (shiftNode fi n)) \<Longrightarrow>
   adjustNodes fi ns = Inr (map (shiftNode fi) ns)"
  by (induction ns) auto

lemma deleteIndices_ok:
  "\<forall>i \<in> set is. i < length nodes \<Longrightarrow> \<exists>m'. deleteIndices nodes is m = Inr m' \<and>
     (jm_ok m \<longrightarrow> jm_ok m') \<and>
     (\<forall>k. jm_get m' k = (if k \<in> (\<lambda>i. pb_blockRoot (nodes ! i)) ` set is then None else jm_get m k))"
proof (induction "is" arbitrary: m)
  case Nil
  then show ?case by simp
next
  case (Cons i "is")
  then obtain m' where m': "deleteIndices nodes is (jm_delete (pb_blockRoot (nodes ! i)) m) = Inr m'"
      "jm_ok (jm_delete (pb_blockRoot (nodes ! i)) m) \<longrightarrow> jm_ok m'"
      "\<And>k. jm_get m' k = (if k \<in> (\<lambda>i. pb_blockRoot (nodes ! i)) ` set is then None
                          else jm_get (jm_delete (pb_blockRoot (nodes ! i)) m) k)"
    by fastforce
  then show ?case
    using Cons.prems by auto
qed

lemma adjustIndices_ok:
  "jm_ok m \<Longrightarrow> (\<And>k v. jm_get m k = Some v \<Longrightarrow> fi \<le> v) \<Longrightarrow> \<exists>m'. adjustIndices fi m = Inr m' \<and>
     jm_ok m' \<and> (\<forall>k. jm_get m' k = map_option (\<lambda>v. v - fi) (jm_get m k)) \<and> map fst m' = map fst m"
proof (induction m)
  case Nil
  then show ?case by simp
next
  case (Cons kv m)
  obtain k v where kv: "kv = (k, v)" by (cases kv)
  have fresh: "k \<notin> fst ` set m" and ok: "jm_ok m"
    using Cons.prems(1) by (simp_all add: jm_ok_def kv)
  have get: "jm_get (kv # m) k' = (if k' = k then Some v else jm_get m k')" for k'
    by (simp add: jm_get_def kv)
  have "fi \<le> w" if "jm_get m k' = Some w" for k' w
  proof (cases "k' = k")
    case True
    with that fresh have False
      by (metis domI dom_jm_get)
    then show ?thesis ..
  next
    case False
    with that Cons.prems(2) [of k' w] get show ?thesis by simp
  qed
  then obtain m' where m': "adjustIndices fi m = Inr m'" "jm_ok m'"
      "\<And>k. jm_get m' k = map_option (\<lambda>v. v - fi) (jm_get m k)" "map fst m' = map fst m"
    using Cons.IH ok by blast
  have "fi \<le> v"
    using Cons.prems(2) [of k v] get by simp
  then show ?case
    using m' fresh by (auto simp: kv jm_ok_def jm_get_def)
qed

lemma anc_drop:
  assumes par: "parents_ok nodes"
  shows "anc nodes (a + fi) (d + fi) \<Longrightarrow> anc (map (shiftNode fi) (drop fi nodes)) a d"
proof (induction d rule: less_induct)
  case (less d)
  let ?ns = "map (shiftNode fi) (drop fi nodes)"
  from less.prems obtain p where p: "d + fi < length nodes" "pn_parent (nodes ! (d + fi)) = Some p"
      "p < d + fi" "a + fi = p \<or> anc nodes (a + fi) p"
    using anc_unfold [of nodes "a + fi" "d + fi"] by blast
  have "fi \<le> p"
    using p(4) anc_less by fastforce
  then obtain q where q: "p = q + fi"
    by (metis le_add_diff_inverse2)
  have "pn_parent (?ns ! d) = Some q" "d < length ?ns"
    using p q by (simp_all add: shiftNode_def add.commute)
  moreover have "a = q \<or> anc ?ns a q"
    using p q less.IH [of q] by auto
  ultimately show ?case
    using p q anc_unfold [of ?ns a d] by auto
qed

lemma links_ok_shift:
  assumes par: "parents_ok nodes" and i: "i + fi < length nodes" and ok: "links_ok nodes (i + fi)"
  shows "links_ok (map (shiftNode fi) (drop fi nodes)) i"
proof (cases "pn_bestChild (nodes ! (i + fi))")
  case None
  with ok i show ?thesis
    by (simp add: links_ok_def shiftNode_def add.commute split: option.splits)
next
  case (Some c)
  let ?ns = "map (shiftNode fi) (drop fi nodes)"
  from links_ok_Some [OF ok Some] obtain d where d: "pn_bestDescendant (nodes ! (i + fi)) = Some d"
      "c < length nodes" "pn_parent (nodes ! c) = Some (i + fi)" "d < length nodes"
      "d = c \<or> anc nodes c d"
    by blast
  have "i + fi < c"
    using parents_okD [OF par d(2,3)] .
  moreover have "c \<le> d"
    using d(5) anc_less by fastforce
  ultimately have "c = (c - fi) + fi" "d = (d - fi) + fi"
    by simp_all
  then obtain c' d' where cd: "c = c' + fi" "d = d' + fi"
    by blast
  have "pn_parent (?ns ! c') = Some i" "c' < length ?ns" "d' < length ?ns"
    using d cd by (auto simp: shiftNode_def add.commute)
  moreover have "d' = c' \<or> anc ?ns c' d'"
    using d(5) cd anc_drop [OF par] by auto
  moreover have "pn_bestChild (?ns ! i) = Some c'" "pn_bestDescendant (?ns ! i) = Some d'"
    using i Some d cd by (simp_all add: shiftNode_def add.commute)
  ultimately show ?thesis
    by (simp add: links_ok_def)
qed

text \<open>
  On a well-formed array with a known root, pruning throws nothing; it drops the nodes below the
  finalized index and shifts the others.
\<close>

lemma maybePrune_ok:
  assumes wf: "pa_wf pa" and fi: "jm_get (pa_indices pa) r = Some fi"
    and thr: "pa_pruneThreshold pa \<le> fi"
  shows "\<exists>m'. maybePrune pa r = Inr (take fi (pa_nodes pa),
      pa\<lparr>pa_indices := m', pa_nodes := map (shiftNode fi) (drop fi (pa_nodes pa))\<rparr>) \<and>
    pa_wf (pa\<lparr>pa_indices := m', pa_nodes := map (shiftNode fi) (drop fi (pa_nodes pa))\<rparr>)"
proof -
  let ?ns = "pa_nodes pa" and ?ix = "pa_indices pa"
  let ?ns' = "map (shiftNode fi) (drop fi ?ns)"
  have fil: "fi < length ?ns"
    using pa_wf_get [OF wf fi] by simp
  have "\<forall>i \<in> set [0..<fi]. i < length ?ns"
    using fil by auto
  from deleteIndices_ok [OF this, of ?ix] obtain m where m: "deleteIndices ?ns [0..<fi] ?ix = Inr m"
      "jm_ok ?ix \<longrightarrow> jm_ok m" "\<And>k. jm_get m k =
        (if k \<in> (\<lambda>i. pb_blockRoot (?ns ! i)) ` set [0..<fi] then None else jm_get ?ix k)"
    by blast
  have ok: "jm_ok m"
    using m(2) wf by (simp add: pa_wf_def indices_ok_def)
  have low: "fi \<le> v" if "jm_get m k = Some v" for k v
  proof (rule ccontr)
    assume "\<not> fi \<le> v"
    then have "v \<in> set [0..<fi]" by simp
    moreover from that m(3) have "jm_get ?ix k = Some v" by (simp split: if_splits)
    then have "pb_blockRoot (?ns ! v) = k"
      using pa_wf_get [OF wf] by blast
    ultimately have "jm_get m k = None"
      using m(3) by auto
    with that show False by simp
  qed
  obtain m' where m': "adjustIndices fi m = Inr m'" "jm_ok m'"
      "\<And>k. jm_get m' k = map_option (\<lambda>v. v - fi) (jm_get m k)"
    using adjustIndices_ok [OF ok, of fi] low by blast
  have adj: "adjustNode fi n = Inr (shiftNode fi n)" if "n \<in> set (drop fi ?ns)" for n
  proof -
    from that obtain i where i: "i < length (drop fi ?ns)" "n = drop fi ?ns ! i"
      by (metis in_set_conv_nth)
    then have il: "fi + i < length ?ns" and n: "n = ?ns ! (fi + i)"
      by (auto simp: nth_drop)
    note lk = pa_wf_links [OF wf il]
    show ?thesis
    proof (rule adjustNode_ok)
      fix c assume "pn_bestChild n = Some c"
      from links_ok_Some [OF lk this [unfolded n]] parents_okD [OF pa_wf_parents [OF wf]]
      show "fi \<le> c" by fastforce
    next
      fix d assume "pn_bestDescendant n = Some d"
      from links_ok_desc [OF lk this [unfolded n]] parents_okD [OF pa_wf_parents [OF wf]] anc_less
      show "fi \<le> d" by fastforce
    qed
  qed
  have nodes: "adjustNodes fi (drop fi ?ns) = Inr ?ns'"
    by (rule adjustNodes_ok) (rule adj)
  have par: "parents_ok ?ns'"
    unfolding parents_ok_def
  proof (intro allI impI)
    fix i q assume i: "i < length ?ns'" and q: "pn_parent (?ns' ! i) = Some q"
    then obtain p where "pn_parent (?ns ! (fi + i)) = Some p" "fi \<le> p" "q = p - fi"
      by (auto simp: shiftNode_def split: option.splits if_splits)
    moreover have "fi + i < length ?ns"
      using i by simp
    ultimately show "q < i"
      using parents_okD [OF pa_wf_parents [OF wf], of "fi + i" p] by linarith
  qed
  have root: "pb_blockRoot (?ns' ! i) = pb_blockRoot (?ns ! (fi + i))" if "i < length ?ns'" for i
    using that by (simp add: shiftNode_def)
  have get: "jm_get m k = Some v \<longleftrightarrow> jm_get ?ix k = Some v \<and> fi \<le> v" for k v
  proof
    assume g: "jm_get m k = Some v"
    then show "jm_get ?ix k = Some v \<and> fi \<le> v"
      using m(3) [of k] low by (simp split: if_splits)
  next
    assume g: "jm_get ?ix k = Some v \<and> fi \<le> v"
    have "k \<noteq> pb_blockRoot (?ns ! i)" if "i < fi" for i
      using pa_wf_index [OF wf, of i] that g fil by auto
    then have "k \<notin> (\<lambda>i. pb_blockRoot (?ns ! i)) ` set [0..<fi]"
      by (simp add: image_iff)
    with g m(3) [of k] show "jm_get m k = Some v" by simp
  qed
  have ix: "indices_ok ?ns' m'"
  proof -
    have "jm_get m' (pb_blockRoot (?ns' ! i)) = Some i" if i: "i < length ?ns'" for i
      using get [of "pb_blockRoot (?ns ! (fi + i))" "fi + i"] pa_wf_index [OF wf, of "fi + i"] i
      by (simp add: m'(3) root [OF i])
    moreover have "i < length ?ns' \<and> pb_blockRoot (?ns' ! i) = k" if "jm_get m' k = Some i" for k i
    proof -
      from that m'(3) obtain v where v: "jm_get m k = Some v" "i = v - fi" by auto
      with get pa_wf_get [OF wf, of k v] have "fi \<le> v" "v < length ?ns" "pb_blockRoot (?ns ! v) = k"
        by blast+
      then have il: "i < length ?ns'"
        using v by auto
      with root [OF il] v \<open>fi \<le> v\<close> \<open>pb_blockRoot (?ns ! v) = k\<close> show ?thesis by simp
    qed
    ultimately show ?thesis
      using m'(2) unfolding indices_ok_def by blast
  qed
  have "links_ok ?ns' i" if "i < length ?ns'" for i
    using links_ok_shift [OF pa_wf_parents [OF wf], of i fi] that pa_wf_links [OF wf, of "i + fi"]
    by simp
  then have "pa_wf (pa\<lparr>pa_indices := m', pa_nodes := ?ns'\<rparr>)"
    using par ix by (simp add: pa_wf_def)
  moreover have "maybePrune pa r = Inr (take fi ?ns, pa\<lparr>pa_indices := m', pa_nodes := ?ns'\<rparr>)"
    using thr by (simp add: maybePrune_def fi m(1) m'(1) nodes)
  ultimately show ?thesis by blast
qed

lemma maybePrune_wf: "pa_wf pa \<Longrightarrow> maybePrune pa r = Inr (ns, pa') \<Longrightarrow> pa_wf pa'"
  using maybePrune_ok [of pa r]
  by (cases "jm_get (pa_indices pa) r"; cases "pa_pruneThreshold pa \<le> the (jm_get (pa_indices pa) r)")
    (auto simp: maybePrune_def)

end
