(* ===== verification/ProtoArrayWeights.thy ===== *)
theory ProtoArrayWeights
  imports ProtoArrayWf
begin

text \<open>
  The weights that the first loop of \<open>applyScoreChanges\<close> computes: each node gets the changes of
  its whole subtree.
\<close>

section \<open>The weight of a subtree\<close>

definition in_subtree :: "proto_node list \<Rightarrow> nat \<Rightarrow> nat \<Rightarrow> bool" where
  "in_subtree nodes i j = (j = i \<or> anc nodes i j)"

definition subtree_sum :: "proto_node list \<Rightarrow> (nat \<Rightarrow> int) \<Rightarrow> nat \<Rightarrow> int" where
  "subtree_sum nodes f i = sum_list (map f (filter (in_subtree nodes i) [0..<length nodes]))"

text \<open>The zero hash is the alias of the genesis block: its node, if any, hangs nowhere.\<close>

definition zero_is_root :: "proto_node list \<Rightarrow> bool" where
  "zero_is_root nodes = list_all (\<lambda>n. pb_blockRoot n = HEX_ZERO_HASH \<longrightarrow> pn_parent n = None) nodes"

text \<open>What the first loop owes to node \<open>j\<close> itself.\<close>

definition own_change :: "proposer_boost option \<Rightarrow> proposer_boost option \<Rightarrow> proto_node list \<Rightarrow> int list
    \<Rightarrow> nat \<Rightarrow> int" where
  "own_change cur prev nodes deltas j =
     deltas ! j + boostFor cur (pb_blockRoot (nodes ! j)) - boostFor prev (pb_blockRoot (nodes ! j))"

definition partial_sum :: "proto_node list \<Rightarrow> (nat \<Rightarrow> int) \<Rightarrow> nat \<Rightarrow> nat \<Rightarrow> int" where
  "partial_sum nodes f i k = (\<Sum>j<k. if in_subtree nodes i j then f j else 0)"

lemma subtree_sum_partial: "subtree_sum nodes f i = partial_sum nodes f i (length nodes)"
proof -
  have "sum_list (map f (filter P [0..<n])) = (\<Sum>j<n. if P j then f j else 0)" for P n
    by (induction n) auto
  then show ?thesis
    by (simp add: subtree_sum_def partial_sum_def)
qed

lemma in_subtree_refl [simp]: "in_subtree nodes i i"
  by (simp add: in_subtree_def)

lemma in_subtree_le: "in_subtree nodes i j \<Longrightarrow> i \<le> j"
  using anc_less by (fastforce simp: in_subtree_def)

lemma in_subtree_parent: "parents_ok nodes \<Longrightarrow> j < length nodes \<Longrightarrow> pn_parent (nodes ! j) = Some p \<Longrightarrow> i < j \<Longrightarrow>
    in_subtree nodes i j = in_subtree nodes i p"
  by (auto simp: in_subtree_def anc_child)

lemma in_subtree_orphan: "pn_parent (nodes ! j) = None \<Longrightarrow> in_subtree nodes i j \<longleftrightarrow> j = i"
  by (auto simp: in_subtree_def anc_def ancestors_None)

lemma partial_sum_Suc [simp]: "partial_sum nodes f i (Suc k) =
    partial_sum nodes f i k + (if in_subtree nodes i k then f k else 0)"
  by (simp add: partial_sum_def)

lemma partial_sum_self: "partial_sum nodes f k k = 0"
  unfolding partial_sum_def using in_subtree_le by (intro sum.neutral) force

lemma partial_sum_upd: "p < k \<Longrightarrow> partial_sum nodes (f(p := f p + x)) i k =
    partial_sum nodes f i k + (if in_subtree nodes i p then x else 0)"
proof (induction k)
  case (Suc k)
  have "partial_sum nodes (f(k := f k + x)) i k = partial_sum nodes f i k"
    unfolding partial_sum_def by (intro sum.cong) auto
  with Suc show ?case
    by (cases "p = k") (auto simp del: fun_upd_apply simp: fun_upd_same fun_upd_other)
qed simp

lemma partial_sum_cong: "(\<And>j. j < k \<Longrightarrow> f j = g j) \<Longrightarrow>
    map pn_parent nodes = map pn_parent nodes' \<Longrightarrow> partial_sum nodes f i k = partial_sum nodes' g i k"
  unfolding partial_sum_def in_subtree_def using anc_cong [of nodes nodes'] by (intro sum.cong) auto

lemma applyWeights_sum:
  "parents_ok nodes \<Longrightarrow> zero_is_root nodes \<Longrightarrow> length deltas = length nodes \<Longrightarrow> k \<le> length nodes \<Longrightarrow>
   applyWeights cur prev k nodes deltas = Inr nodes' \<Longrightarrow> i < length nodes \<Longrightarrow>
   pn_weight (nodes' ! i) = pn_weight (nodes ! i) +
     (if i < k \<and> pb_blockRoot (nodes ! i) \<noteq> HEX_ZERO_HASH
      then partial_sum nodes (own_change cur prev nodes deltas) i k else 0)"
proof (induction cur prev k nodes deltas rule: applyWeights.induct)
  case (1 cur prev nodes deltas)
  then show ?case by simp
next
  case (2 cur prev m nodes deltas)
  have m: "m < length nodes"
    using "2.prems" by simp
  let ?n = "nodes ! m" and ?oc = "own_change cur prev nodes"
  let ?nd = "?oc deltas m"
  let ?nodes = "nodes[m := ?n\<lparr>pn_weight := pn_weight ?n + ?nd\<rparr>]"
  have par: "parents_ok ?nodes"
    using "2.prems" parents_ok_update_weight [OF m] by simp
  have node: "pn_parent (?nodes ! x) = pn_parent (nodes ! x)"
    "pb_blockRoot (?nodes ! x) = pb_blockRoot (nodes ! x)"
    "pn_weight (?nodes ! x) = pn_weight (nodes ! x) + (if x = m then ?nd else 0)"
    if "x < length nodes" for x
    using that m by (simp_all add: nth_list_update)
  have mp: "map pn_parent ?nodes = map pn_parent nodes"
    using node by (intro nth_equalityI) auto
  have z: "zero_is_root ?nodes"
    using "2.prems"(2) node unfolding zero_is_root_def list_all_length by simp
  have oc: "own_change cur prev ?nodes ds x = ?oc ds x" if "x < length nodes" for ds x
    using node [OF that] by (simp add: own_change_def)
  have ps: "partial_sum ?nodes (own_change cur prev ?nodes ds) i m = partial_sum nodes (?oc ds) i m" for ds
    using oc m mp by (intro partial_sum_cong) auto
  show ?case
  proof (cases "pb_blockRoot ?n = HEX_ZERO_HASH")
    case True
    have "pn_parent ?n = None"
      using "2.prems"(2) True m by (auto simp: zero_is_root_def list_all_length)
    then have "i < m \<Longrightarrow> \<not> in_subtree nodes i m"
      by (simp add: in_subtree_orphan)
    with True "2.IH"(1) [of ?n] "2.prems" m show ?thesis
      by (auto simp: less_Suc_eq)
  next
    case False
    show ?thesis
    proof (cases "pn_parent ?n")
      case None
      have "applyWeights cur prev m ?nodes deltas = Inr nodes'"
        using "2.prems" m False None by (simp add: own_change_def Let_def)
      moreover have "i < m \<Longrightarrow> \<not> in_subtree nodes i m"
        by (simp add: in_subtree_orphan [OF None])
      ultimately show ?thesis
        using "2.IH"(2) [of ?n "deltas ! m" ?nd ?nodes] "2.prems" m False None par z node ps [of deltas]
          partial_sum_self [of nodes _ m]
        by (auto simp: own_change_def less_Suc_eq)
    next
      case (Some p)
      have p: "p < m" "p < length deltas"
        using parents_okD [OF "2.prems"(1) m Some] m "2.prems" by simp_all
      let ?ds = "deltas[p := deltas ! p + ?nd]"
      have app: "applyWeights cur prev m ?nodes ?ds = Inr nodes'"
        using "2.prems" m False Some p by (simp add: own_change_def Let_def)
      have "?oc ?ds = (?oc deltas)(p := ?oc deltas p + ?nd)"
        using p(2) by (auto simp: own_change_def nth_list_update fun_eq_iff)
      then have "partial_sum nodes (?oc ?ds) i m =
          partial_sum nodes (?oc deltas) i m + (if in_subtree nodes i p then ?nd else 0)"
        using partial_sum_upd [OF p(1), of nodes "?oc deltas" ?nd i] by simp
      moreover have "i < m \<Longrightarrow> in_subtree nodes i m = in_subtree nodes i p"
        using in_subtree_parent [OF "2.prems"(1) m Some] by blast
      ultimately show ?thesis
        using "2.IH"(3) [of ?n "deltas ! m" ?nd ?nodes p "deltas ! p"] "2.prems" m False Some p par z node
          ps [of ?ds] partial_sum_self [of nodes _ m] app
        by (auto simp: own_change_def less_Suc_eq)
    qed
  qed
qed

end
