(* ===== verification/ProtoArrayHead.thy ===== *)
theory ProtoArrayHead
  imports ProtoArrayWf
begin

text \<open>
  LMD-GHOST. The first section states the head of the consensus specification (\<open>filter_block_tree\<close>
  and the greedy walk of \<open>get_head\<close>) on the tree of a proto array; the rest shows that the
  best-child and best-descendant links which \<open>applyScoreChanges\<close> maintains lead \<open>findHead\<close> to it.
\<close>

section \<open>Specification\<close>

text \<open>
  The tree of the blocks that may become the head: \<open>filter_block_tree\<close> of the consensus
  specification keeps a leaf that is viable and an inner block with a child that is kept.
\<close>

function filter_block_tree :: "proto_array \<Rightarrow> nat \<Rightarrow> bool" where
  "filter_block_tree pa i =
     (let cs = children (pa_nodes pa) i
      in if cs = [] then viable pa i else list_ex (filter_block_tree pa) cs)"
  by pat_completeness auto
termination
  by (relation "measure (\<lambda>(pa, i). length (pa_nodes pa) - i)") (auto simp: children_iff)

text \<open>
  What the links of the array compute: an inner block that is viable itself is kept too, also
  when none of its children is.
\<close>

function leads_to_head :: "proto_array \<Rightarrow> nat \<Rightarrow> bool" where
  "leads_to_head pa i = (viable pa i \<or> list_ex (leads_to_head pa) (children (pa_nodes pa) i))"
  by pat_completeness auto
termination
  by (relation "measure (\<lambda>(pa, i). length (pa_nodes pa) - i)") (auto simp: children_iff)

fun heaviest :: "proto_node list \<Rightarrow> nat \<Rightarrow> nat list \<Rightarrow> nat" where
  "heaviest nodes c [] = c"
| "heaviest nodes c (x # xs) = heaviest nodes (if beats nodes x c then x else c) xs"

lemma heaviest_in: "heaviest nodes c cs \<in> set (c # cs)"
proof (induction cs arbitrary: c)
  case (Cons x cs)
  from Cons.IH [of "if beats nodes x c then x else c"] show ?case
    by (auto split: if_splits)
qed simp

text \<open>
  The greedy walk of \<open>get_head\<close>: from a block to its heaviest kept child, ties broken towards the
  larger root, until no child is kept.
\<close>

function greedy_head :: "proto_node list \<Rightarrow> (nat \<Rightarrow> bool) \<Rightarrow> nat \<Rightarrow> nat" where
  "greedy_head nodes kept i =
     (case filter kept (children nodes i) of [] \<Rightarrow> i | c # cs \<Rightarrow> greedy_head nodes kept (heaviest nodes c cs))"
  by pat_completeness auto
termination
proof (relation "measure (\<lambda>(nodes, kept, i). length nodes - i)")
  fix nodes :: "proto_node list" and kept :: "nat \<Rightarrow> bool" and i c cs
  assume "filter kept (children nodes i) = c # cs"
  then have "set (c # cs) \<subseteq> set (children nodes i)"
    by (metis filter_is_subset)
  with heaviest_in [of nodes c cs] have "heaviest nodes c cs \<in> set (children nodes i)"
    by blast
  then show "((nodes, kept, heaviest nodes c cs), (nodes, kept, i))
      \<in> measure (\<lambda>(nodes, kept, i). length nodes - i)"
    by (auto simp: children_iff)
qed simp

definition get_head :: "proto_array \<Rightarrow> nat \<Rightarrow> nat" where
  "get_head pa i = greedy_head (pa_nodes pa) (filter_block_tree pa) i"

declare filter_block_tree.simps [simp del] leads_to_head.simps [simp del] greedy_head.simps [simp del]

section \<open>The order on siblings\<close>

lemma beats_refl [simp]: "beats nodes c c"
  by (simp add: beats_def)

lemma beats_trans: "beats nodes a b \<Longrightarrow> beats nodes b c \<Longrightarrow> beats nodes a c"
  by (auto simp: beats_def)

lemma beats_total: "\<not> beats nodes a b \<Longrightarrow> beats nodes b a"
  by (auto simp: beats_def)

lemma beats_antisym: "beats nodes a b \<Longrightarrow> beats nodes b a \<Longrightarrow>
    pb_blockRoot (nodes ! a) = pb_blockRoot (nodes ! b)"
  by (auto simp: beats_def)

lemma heaviest_max: "x \<in> set (c # cs) \<Longrightarrow> beats nodes (heaviest nodes c cs) x"
proof (induction cs arbitrary: x c)
  case Nil
  then show ?case by simp
next
  case (Cons a cs)
  let ?b = "if beats nodes a c then a else c"
  have top: "beats nodes (heaviest nodes c (a # cs)) ?b"
    using Cons.IH [of ?b ?b] by simp
  have "beats nodes ?b a" "beats nodes ?b c"
    using beats_total by auto
  then have "beats nodes (heaviest nodes c (a # cs)) a" "beats nodes (heaviest nodes c (a # cs)) c"
    using top beats_trans by blast+
  moreover have "beats nodes (heaviest nodes c (a # cs)) x" if "x \<in> set cs"
    using Cons.IH [of x ?b] that by simp
  ultimately show ?case
    using Cons.prems by auto
qed

lemma viable_same_core: "same_core a b \<Longrightarrow> i < length (pa_nodes a) \<Longrightarrow> viable a i = viable b i"
  by (simp add: viable_def same_core_viable)

lemma beats_same_core: "same_core a b \<Longrightarrow> i < length (pa_nodes a) \<Longrightarrow> j < length (pa_nodes a) \<Longrightarrow>
    beats (pa_nodes a) i j = beats (pa_nodes b) i j"
  using core_eqD [OF same_core_node, of a b] by (simp add: beats_def)

lemma children_same_core: "same_core a b \<Longrightarrow> children (pa_nodes a) i = children (pa_nodes b) i"
  by (rule children_cong [OF same_core_parents])

lemma leads_to_head_same_core:
  "same_core a b \<Longrightarrow> i < length (pa_nodes a) \<Longrightarrow> leads_to_head a i = leads_to_head b i"
proof (induction a i rule: leads_to_head.induct)
  case (1 pa i)
  have "leads_to_head pa c = leads_to_head b c" if "c \<in> set (children (pa_nodes pa) i)" for c
    using "1.IH" [OF that] that "1.prems" by (simp add: children_iff)
  then show ?case
    using "1.prems" viable_same_core [of pa b i] children_same_core [of pa b i]
    by (simp add: leads_to_head.simps [of _ i] list_ex_iff)
qed

lemma leads_to_head_child: "leads_to_head pa c \<Longrightarrow> c \<in> set (children (pa_nodes pa) i) \<Longrightarrow> leads_to_head pa i"
  by (subst leads_to_head.simps) (auto simp: list_ex_iff)

lemma leads_to_head_anc:
  assumes par: "parents_ok (pa_nodes pa)"
  shows "viable pa d \<Longrightarrow> anc (pa_nodes pa) a d \<Longrightarrow> leads_to_head pa a"
proof -
  have "leads_to_head pa d \<Longrightarrow> anc (pa_nodes pa) a d \<Longrightarrow> leads_to_head pa a"
  proof (induction d rule: less_induct)
    case (less d)
    from less.prems(2) obtain p where p: "d < length (pa_nodes pa)" "pn_parent (pa_nodes pa ! d) = Some p"
        "p < d" "a = p \<or> anc (pa_nodes pa) a p"
      using anc_unfold [of "pa_nodes pa" a d] by blast
    have "leads_to_head pa p"
      using leads_to_head_child [OF less.prems(1)] p by (simp add: children_iff)
    with less.IH [of p] p show ?case by blast
  qed
  moreover assume "viable pa d" "anc (pa_nodes pa) a d"
  ultimately show "leads_to_head pa a"
    by (simp add: leads_to_head.simps [of pa d])
qed

text \<open>What the code computes from a stored link is never wrong in the positive.\<close>

lemma leads_sound: "pa_wf pa \<Longrightarrow> i < length (pa_nodes pa) \<Longrightarrow> leads pa i \<Longrightarrow> leads_to_head pa i"
proof -
  assume wf: "pa_wf pa" and i: "i < length (pa_nodes pa)" and l: "leads pa i"
  show ?thesis
  proof (cases "viable pa i")
    case True
    then show ?thesis by (subst leads_to_head.simps) simp
  next
    case False
    with l obtain d where d: "pn_bestDescendant (pa_nodes pa ! i) = Some d" "viable pa d"
      by (auto simp: leads_def split: option.splits)
    from links_ok_desc [OF pa_wf_links [OF wf i] d(1)] obtain c where
      c: "c < length (pa_nodes pa)" "pn_parent (pa_nodes pa ! c) = Some i"
         "d = c \<or> anc (pa_nodes pa) c d" by blast
    have "anc (pa_nodes pa) i c"
      using anc_child [OF pa_wf_parents [OF wf] c(1,2)] by blast
    then have "anc (pa_nodes pa) i d"
      using c(3) anc_trans [OF pa_wf_parents [OF wf]] by blast
    then show ?thesis
      by (rule leads_to_head_anc [OF pa_wf_parents [OF wf] d(2)])
  qed
qed

section \<open>The backward pass over the links\<close>

text \<open>
  \<open>stale_free\<close>: a viable block with no child that leads to a head has no best child. A link left
  from an earlier justified checkpoint may break it; it holds whenever the children of a viable
  block are viable (\<open>stale_free_closed\<close>).
\<close>

definition viable_closed :: "proto_array \<Rightarrow> bool" where
  "viable_closed pa = list_all (\<lambda>i. viable pa i \<longrightarrow> list_all (viable pa) (children (pa_nodes pa) i))
     [0..<length (pa_nodes pa)]"

definition stale_free :: "proto_array \<Rightarrow> bool" where
  "stale_free pa = list_all (\<lambda>i. viable pa i \<and> \<not> list_ex (leads_to_head pa) (children (pa_nodes pa) i)
       \<longrightarrow> pn_bestChild (pa_nodes pa ! i) = None)
     [0..<length (pa_nodes pa)]"

text \<open>
  The state of the pass when the nodes from \<open>k\<close> up have been handled. \<open>kids\<close> and \<open>wanted\<close> refer to
  the array before the pass, which has the same tree, weights and viability.
\<close>

definition link_inv :: "proto_array \<Rightarrow> nat \<Rightarrow> proto_array \<Rightarrow> nat \<Rightarrow> bool" where
  "link_inv pa0 k pa p \<longleftrightarrow>
     (\<forall>y \<in> set (children (pa_nodes pa0) p). k \<le> y \<longrightarrow> leads_to_head pa0 y \<longrightarrow>
        (\<exists>b. pn_bestChild (pa_nodes pa ! p) = Some b \<and> leads_to_head pa0 b \<and> beats (pa_nodes pa0) b y) \<or>
        (\<exists>z \<in> set (children (pa_nodes pa0) p). z < k \<and> leads_to_head pa0 z \<and> beats (pa_nodes pa0) z y)) \<and>
     (\<forall>b. pn_bestChild (pa_nodes pa ! p) = Some b \<longrightarrow> k \<le> b \<longrightarrow>
        pn_bestDescendant (pa_nodes pa ! p) = Some (tip (pa_nodes pa) b)) \<and>
     (pn_bestChild (pa_nodes pa0 ! p) = None \<longrightarrow>
        \<not> list_ex (leads_to_head pa0) (children (pa_nodes pa0) p) \<longrightarrow> pn_bestChild (pa_nodes pa ! p) = None)"

definition pass_inv :: "proto_array \<Rightarrow> nat \<Rightarrow> proto_array \<Rightarrow> bool" where
  "pass_inv pa0 k pa \<longleftrightarrow> pa_wf pa \<and> same_core pa0 pa \<and> (\<forall>p < length (pa_nodes pa0). link_inv pa0 k pa p)"

lemma pass_inv_start: "pa_wf pa \<Longrightarrow> pass_inv pa (length (pa_nodes pa)) pa"
proof -
  assume wf: "pa_wf pa"
  have "link_inv pa (length (pa_nodes pa)) pa p" if p: "p < length (pa_nodes pa)" for p
    using links_ok_Some [OF pa_wf_links [OF wf p]]
    unfolding link_inv_def by (fastforce simp: children_iff)
  with wf show ?thesis by (simp add: pass_inv_def)
qed

lemma pass_inv_wfD: "pass_inv pa0 k pa \<Longrightarrow> pa_wf pa" "pass_inv pa0 k pa \<Longrightarrow> same_core pa0 pa"
  "pass_inv pa0 k pa \<Longrightarrow> p < length (pa_nodes pa0) \<Longrightarrow> link_inv pa0 k pa p"
  by (simp_all add: pass_inv_def)

lemma pass_inv_child:
  assumes inv: "pass_inv pa0 k pa" and p: "p < length (pa_nodes pa0)"
    and b: "pn_bestChild (pa_nodes pa ! p) = Some b"
  shows "b \<in> set (children (pa_nodes pa0) p)"
proof -
  note wf = pass_inv_wfD(1) [OF inv] and sc = pass_inv_wfD(2) [OF inv]
  have p': "p < length (pa_nodes pa)"
    using p same_core_length [OF sc] by simp
  from links_ok_Some [OF pa_wf_links [OF wf p'] b] have "b < length (pa_nodes pa)"
      "pn_parent (pa_nodes pa ! b) = Some p" by blast+
  then have "b \<in> set (children (pa_nodes pa) p)"
    using parents_okD [OF pa_wf_parents [OF wf]] by (simp add: children_iff)
  then show ?thesis
    by (simp add: children_same_core [OF sc])
qed

text \<open>Once its children are handled, a node's links are final and right.\<close>

lemma pass_inv_final:
  assumes inv: "pass_inv pa0 k pa" and sf: "stale_free pa0"
  shows "i < length (pa_nodes pa0) \<Longrightarrow> k \<le> Suc i \<Longrightarrow>
    viable pa0 (tip (pa_nodes pa) i) = leads_to_head pa0 i \<and> (viable pa0 i \<longrightarrow> leads_to_head pa0 i) \<and>
    (leads_to_head pa0 i \<longrightarrow> tip (pa_nodes pa) i = greedy_head (pa_nodes pa0) (leads_to_head pa0) i)"
proof (induction "length (pa_nodes pa0) - i" arbitrary: i rule: less_induct)
  case less
  note wf = pass_inv_wfD(1) [OF inv] and sc = pass_inv_wfD(2) [OF inv]
  note li = pass_inv_wfD(3) [OF inv less.prems(1)]
  have i: "i < length (pa_nodes pa)"
    using less.prems same_core_length [OF sc] by simp
  let ?C = "children (pa_nodes pa0) i" and ?L = "leads_to_head pa0"
  show ?case
  proof (cases "filter ?L ?C")
    case Nil
    then have none: "\<not> list_ex ?L ?C"
      by (auto simp: list_ex_iff filter_empty_conv)
    have L: "?L i = viable pa0 i"
      using none by (subst leads_to_head.simps) simp
    have gh: "greedy_head (pa_nodes pa0) ?L i = i"
      by (subst greedy_head.simps) (simp add: Nil)
    show ?thesis
    proof (cases "pn_bestChild (pa_nodes pa ! i)")
      case None
      then have "tip (pa_nodes pa) i = i"
        using links_ok_None [OF pa_wf_links [OF wf i]] by (simp add: tip_def)
      with L gh show ?thesis by simp
    next
      case (Some b)
      have b: "b \<in> set ?C"
        by (rule pass_inv_child [OF inv less.prems(1) Some])
      then have "i < b" "b < length (pa_nodes pa0)" "\<not> ?L b"
        using none by (auto simp: children_iff list_ex_iff)
      then have "\<not> viable pa0 (tip (pa_nodes pa) b)" and kb: "k \<le> b"
        using less.hyps [of b] less.prems by auto
      moreover have "tip (pa_nodes pa) i = tip (pa_nodes pa) b"
        using li Some kb by (simp add: link_inv_def tip_def)
      moreover have "\<not> viable pa0 i"
      proof
        assume "viable pa0 i"
        with sf less.prems(1) none have "pn_bestChild (pa_nodes pa0 ! i) = None"
          by (simp add: stale_free_def list_all_iff)
        with li none Some show False by (simp add: link_inv_def)
      qed
      ultimately show ?thesis using L by simp
    qed
  next
    case (Cons c cs)
    let ?h = "heaviest (pa_nodes pa0) c cs"
    have mem: "set (c # cs) = {y \<in> set ?C. ?L y}"
      using arg_cong [OF Cons, of set] by simp
    have h: "?h \<in> set ?C" "?L ?h"
      using heaviest_in [of "pa_nodes pa0" c cs] mem by blast+
    have hk: "k \<le> ?h" "i < ?h" "?h < length (pa_nodes pa0)"
      using h(1) less.prems by (auto simp: children_iff)
    have "\<not> (\<exists>z \<in> set ?C. z < k \<and> ?L z \<and> beats (pa_nodes pa0) z ?h)"
      using less.prems by (auto simp: children_iff)
    then obtain b where b: "pn_bestChild (pa_nodes pa ! i) = Some b" "?L b" "beats (pa_nodes pa0) b ?h"
      using li h hk(1) unfolding link_inv_def by blast
    have bC: "b \<in> set ?C"
      by (rule pass_inv_child [OF inv less.prems(1) b(1)])
    have "beats (pa_nodes pa0) ?h b"
      using heaviest_max [of b c cs "pa_nodes pa0"] mem bC b(2) by blast
    with b(3) have "pb_blockRoot (pa_nodes pa0 ! b) = pb_blockRoot (pa_nodes pa0 ! ?h)"
      by (rule beats_antisym)
    moreover have "pb_blockRoot (pa_nodes pa0 ! x) = pb_blockRoot (pa_nodes pa ! x)"
      if "x < length (pa_nodes pa0)" for x
      using core_eqD [OF same_core_node [OF sc that]] by simp
    ultimately have eq: "b = ?h"
      using pa_wf_root_inj [OF wf, of b ?h] bC hk same_core_length [OF sc] by (simp add: children_iff)
    have kb: "k \<le> b"
      using eq hk(1) by simp
    have t: "tip (pa_nodes pa) i = tip (pa_nodes pa) b"
      using li b(1) kb by (simp add: link_inv_def tip_def)
    have IH: "viable pa0 (tip (pa_nodes pa) b)"
        "tip (pa_nodes pa) b = greedy_head (pa_nodes pa0) ?L b"
      using less.hyps [of b] eq hk less.prems b(2) by linarith+
    have "greedy_head (pa_nodes pa0) ?L i = greedy_head (pa_nodes pa0) ?L b"
      by (subst greedy_head.simps) (simp add: Cons eq)
    moreover have "?L i"
      using leads_to_head_child [OF b(2) bC] .
    ultimately show ?thesis
      using t IH by simp
  qed
qed

lemma pass_inv_leads:
  assumes inv: "pass_inv pa0 k pa" and sf: "stale_free pa0" and i: "i < length (pa_nodes pa0)"
  shows "leads pa i \<Longrightarrow> leads_to_head pa0 i" "k \<le> Suc i \<Longrightarrow> leads_to_head pa0 i \<Longrightarrow> leads pa i"
proof -
  note wf = pass_inv_wfD(1) [OF inv] and sc = pass_inv_wfD(2) [OF inv]
  have i': "i < length (pa_nodes pa)"
    using i same_core_length [OF sc] by simp
  show "leads pa i \<Longrightarrow> leads_to_head pa0 i"
    using leads_sound [OF wf i'] leads_to_head_same_core [OF sc i] by simp
  assume k: "k \<le> Suc i" and L: "leads_to_head pa0 i"
  have v: "viable pa0 (tip (pa_nodes pa) i)"
    using pass_inv_final [OF inv sf i k] L by blast
  show "leads pa i"
  proof (cases "pn_bestDescendant (pa_nodes pa ! i)")
    case None
    with v viable_same_core [OF sc i] show ?thesis
      by (simp add: leads_def tip_def)
  next
    case (Some d)
    have "d < length (pa_nodes pa)"
      using links_ok_desc [OF pa_wf_links [OF wf i'] Some] by blast
    with v viable_same_core [OF sc, of d] Some same_core_length [OF sc] show ?thesis
      by (simp add: leads_def tip_def)
  qed
qed

text \<open>One iteration: the child \<open>i\<close> is offered to its parent \<open>p\<close>.\<close>

lemma link_inv_other:
  assumes li: "link_inv pa0 (Suc i) pa q" and q: "q < length (pa_nodes pa0)" "pa_nodes pa' ! q = pa_nodes pa ! q"
    and i: "i \<notin> set (children (pa_nodes pa0) q)"
    and bc: "\<And>b. pn_bestChild (pa_nodes pa ! q) = Some b \<Longrightarrow> b \<in> set (children (pa_nodes pa0) q)"
    and tips: "\<And>b. i < b \<Longrightarrow> tip (pa_nodes pa') b = tip (pa_nodes pa) b"
  shows "link_inv pa0 i pa' q"
proof -
  have gt: "Suc i \<le> y" if "y \<in> set (children (pa_nodes pa0) q)" "i \<le> y" for y
    using that i le_eq_less_or_eq [of i y] by auto
  have lt: "z < i" if "z \<in> set (children (pa_nodes pa0) q)" "z < Suc i" for z
    using that i less_Suc_eq [of z i] by auto
  show ?thesis
    unfolding link_inv_def q(2)
  proof (intro conjI ballI impI allI)
    fix y assume y: "y \<in> set (children (pa_nodes pa0) q)" "i \<le> y" "leads_to_head pa0 y"
    show "(\<exists>b. pn_bestChild (pa_nodes pa ! q) = Some b \<and> leads_to_head pa0 b \<and> beats (pa_nodes pa0) b y) \<or>
      (\<exists>z \<in> set (children (pa_nodes pa0) q). z < i \<and> leads_to_head pa0 z \<and> beats (pa_nodes pa0) z y)"
      using li y gt [OF y(1,2)] lt unfolding link_inv_def by blast
  next
    fix b assume b: "pn_bestChild (pa_nodes pa ! q) = Some b" "i \<le> b"
    show "pn_bestDescendant (pa_nodes pa ! q) = Some (tip (pa_nodes pa') b)"
      using li b gt [OF bc [OF b(1)] b(2)] tips [of b] by (simp add: link_inv_def)
  next
    assume "pn_bestChild (pa_nodes pa0 ! q) = None" "\<not> list_ex (leads_to_head pa0) (children (pa_nodes pa0) q)"
    then show "pn_bestChild (pa_nodes pa ! q) = None"
      using li by (simp add: link_inv_def)
  qed
qed

lemma link_inv_step:
  assumes inv: "pass_inv pa0 (Suc i) pa" and sf: "stale_free pa0"
    and i: "i < length (pa_nodes pa0)" and par: "pn_parent (pa_nodes pa0 ! i) = Some p" and pi: "p < i"
  shows "link_inv pa0 i (set_links pa p (decide_links pa p i)) p"
proof -
  let ?ns0 = "pa_nodes pa0" and ?L = "leads_to_head pa0" and ?l = "decide_links pa p i"
  let ?C = "set (children ?ns0 p)" and ?pa' = "set_links pa p (decide_links pa p i)"
  let ?B = "pn_bestChild (pa_nodes pa ! p)"
  note wf = pass_inv_wfD(1) [OF inv] and sc = pass_inv_wfD(2) [OF inv]
  have len: "length ?ns0 = length (pa_nodes pa)"
    by (rule same_core_length [OF sc])
  have p: "p < length ?ns0" "p < length (pa_nodes pa)"
    using pi i len by simp_all
  note li = pass_inv_wfD(3) [OF inv p(1)]
  have iC: "i \<in> ?C"
    using i par pi by (simp add: children_iff)
  have sm: "pn_bestChild (pa_nodes ?pa' ! p) = fst ?l" "pn_bestDescendant (pa_nodes ?pa' ! p) = snd ?l"
    using set_links_same [OF p(2)] by auto
  have tips: "tip (pa_nodes ?pa') b = tip (pa_nodes pa) b" if "b \<noteq> p" for b
    using that by (simp add: tip_def set_links_other)
  have bC: "b \<in> ?C \<and> b < length ?ns0 \<and> b \<noteq> p" if "?B = Some b" for b
    using pass_inv_child [OF inv p(1) that] by (simp add: children_iff)
  have Li: "leads pa i = ?L i"
    using pass_inv_leads [OF inv sf i] by auto
  have Ls: "leads pa b \<Longrightarrow> ?L b" and Lf: "?L b \<Longrightarrow> i \<le> b \<Longrightarrow> leads pa b" if "?B = Some b" for b
    using pass_inv_leads [OF inv sf, of b] bC [OF that] by auto
  have bt: "beats (pa_nodes pa) i b = beats ?ns0 i b" if "?B = Some b" for b
    using beats_same_core [OF sc i, of b] bC [OF that] by simp
  have old: "(\<exists>b. ?B = Some b \<and> ?L b \<and> beats ?ns0 b y) \<or>
      (\<exists>z \<in> ?C. z < i \<and> ?L z \<and> beats ?ns0 z y) \<or> (?L i \<and> beats ?ns0 i y)"
    if "y \<in> ?C" "i \<le> y" "?L y" for y
    using li that iC beats_refl [of ?ns0 i] unfolding link_inv_def
    by (metis Suc_leI le_neq_implies_less less_SucE)
  have best: "(\<exists>b. fst ?l = Some b \<and> ?L b \<and> beats ?ns0 b y) \<or>
      (\<exists>z \<in> ?C. z < i \<and> ?L z \<and> beats ?ns0 z y)" if y: "y \<in> ?C" "i \<le> y" "?L y" for y
  proof (cases "?B")
    case None
    with old [OF y] show ?thesis
      by (auto simp: decide_links_def Li)
  next
    case (Some b)
    have keep: "?L b \<Longrightarrow> \<not> leads pa b \<Longrightarrow> b < i"
      using Lf [OF Some] by (meson not_less)
    show ?thesis
      using old [OF y] Some keep Ls [OF Some] bt [OF Some] bC [OF Some] Li
        beats_trans [of ?ns0 i b y] beats_trans [of ?ns0 b i y] beats_total [of ?ns0 i b]
      unfolding decide_links_def Let_def by (auto split: if_splits)
  qed
  moreover have "snd ?l = Some (tip (pa_nodes ?pa') b)" if "fst ?l = Some b" "i \<le> b" for b
  proof -
    have "b \<noteq> p"
      using that(2) pi by simp
    moreover have "?B = Some b \<longrightarrow> Suc i \<le> b \<longrightarrow>
        pn_bestDescendant (pa_nodes pa ! p) = Some (tip (pa_nodes pa) b)"
      using li by (simp add: link_inv_def)
    ultimately show ?thesis
      using that tips [of b] unfolding decide_links_def Let_def
      by (auto split: if_splits option.splits)
  qed
  moreover have "fst ?l = None" if "pn_bestChild (?ns0 ! p) = None" "\<not> list_ex ?L (children ?ns0 p)"
  proof -
    have "?B = None"
      using li that by (simp add: link_inv_def)
    moreover have "\<not> ?L i"
      using that(2) iC by (auto simp: list_ex_iff)
    ultimately show ?thesis
      by (simp add: decide_links_def Li)
  qed
  ultimately show ?thesis
    unfolding link_inv_def sm by blast
qed

text \<open>The whole pass.\<close>

lemma applyBestChildren_pass:
  "pass_inv pa0 k pa \<Longrightarrow> stale_free pa0 \<Longrightarrow> k \<le> length (pa_nodes pa0) \<Longrightarrow>
   \<exists>pa'. applyBestChildren k pa = Inr pa' \<and> pass_inv pa0 0 pa'"
proof (induction k pa rule: applyBestChildren.induct)
  case (1 pa)
  then show ?case by simp
next
  case (2 i pa)
  note inv = "2.prems"(1) and sf = "2.prems"(2)
  note wf = pass_inv_wfD(1) [OF inv] and sc = pass_inv_wfD(2) [OF inv]
  have i: "i < length (pa_nodes pa0)" "i < length (pa_nodes pa)"
    using "2.prems" same_core_length [OF sc] by simp_all
  have par: "pn_parent (pa_nodes pa0 ! i) = pn_parent (pa_nodes pa ! i)"
    using core_eqD [OF same_core_node [OF sc i(1)]] by simp
  show ?case
  proof (cases "pn_parent (pa_nodes pa ! i)")
    case None
    have "link_inv pa0 i pa q" if q: "q < length (pa_nodes pa0)" for q
      using link_inv_other [OF pass_inv_wfD(3) [OF inv q] q refl _ pass_inv_child [OF inv q]] None par
      by (simp add: children_iff)
    then have "pass_inv pa0 i pa"
      using wf sc by (simp add: pass_inv_def)
    with "2.IH"(1) [of "pa_nodes pa ! i"] None i sf "2.prems" show ?thesis by simp
  next
    case (Some p)
    have p: "p < i" "p < length (pa_nodes pa)"
      using pa_wf_parent_less [OF wf i(2) Some] by auto
    let ?pa = "set_links pa p (decide_links pa p i)"
    have "link_inv pa0 i ?pa q" if q: "q < length (pa_nodes pa0)" for q
    proof (cases "q = p")
      case True
      with link_inv_step [OF inv sf i(1) _ p(1)] par Some show ?thesis by simp
    next
      case False
      have "i \<notin> set (children (pa_nodes pa0) q)"
        using False par Some by (simp add: children_iff)
      moreover have "tip (pa_nodes ?pa) b = tip (pa_nodes pa) b" if "i < b" for b
        using that p(1) by (simp add: tip_def set_links_other)
      ultimately show ?thesis
        using link_inv_other [OF pass_inv_wfD(3) [OF inv q] q set_links_other [OF False] _
            pass_inv_child [OF inv q]] by blast
    qed
    moreover have "pa_wf ?pa"
      by (rule pa_wf_set_links [OF wf i(2) Some])
    moreover have "same_core pa0 ?pa"
      by (rule same_core_trans [OF sc same_core_set_links [OF p(2)]])
    ultimately have "pass_inv pa0 i ?pa"
      by (simp add: pass_inv_def)
    with "2.IH"(2) [of "pa_nodes pa ! i" p ?pa] Some i sf "2.prems" maybeUpdate_wf [OF wf i(2) p(2)]
    show ?thesis by simp
  qed
qed

lemma list_ex_filter_cong: "(\<And>c. c \<in> set cs \<Longrightarrow> f c = g c) \<Longrightarrow> list_ex f cs = list_ex g cs"
  by (auto simp: list_ex_iff)

lemma viable_closedD: "viable_closed pa \<Longrightarrow> i < length (pa_nodes pa) \<Longrightarrow> viable pa i \<Longrightarrow>
    c \<in> set (children (pa_nodes pa) i) \<Longrightarrow> viable pa c"
  by (auto simp: viable_closed_def list_all_iff)

lemma filter_block_tree_closed:
  "viable_closed pa \<Longrightarrow> i < length (pa_nodes pa) \<Longrightarrow> filter_block_tree pa i = leads_to_head pa i"
proof (induction pa i rule: filter_block_tree.induct)
  case (1 pa i)
  let ?cs = "children (pa_nodes pa) i"
  have "filter_block_tree pa c = leads_to_head pa c" if c: "c \<in> set ?cs" for c
  proof -
    have "?cs \<noteq> []" "c < length (pa_nodes pa)"
      using c by (fastforce, simp add: children_iff)
    with 1 c show ?thesis by blast
  qed
  then have eq: "list_ex (filter_block_tree pa) ?cs = list_ex (leads_to_head pa) ?cs"
    by (rule list_ex_filter_cong)
  show ?case
  proof (cases ?cs)
    case Nil
    then show ?thesis
      by (simp add: filter_block_tree.simps [of pa i] leads_to_head.simps [of pa i])
  next
    case (Cons c cs)
    have "leads_to_head pa c" if "viable pa i"
      using viable_closedD [OF 1(2,3) that, of c] Cons by (subst leads_to_head.simps) simp
    then have "viable pa i \<Longrightarrow> list_ex (leads_to_head pa) ?cs"
      using Cons by simp
    with eq Cons show ?thesis
      by (subst filter_block_tree.simps, subst leads_to_head.simps) auto
  qed
qed

lemma greedy_head_cong:
  "(\<And>c. c < length nodes \<Longrightarrow> f c = g c) \<Longrightarrow> greedy_head nodes f i = greedy_head nodes g i"
proof (induction nodes f i rule: greedy_head.induct)
  case (1 nodes f i)
  have "filter f (children nodes i) = filter g (children nodes i)"
    using "1.prems" by (intro filter_cong) (auto simp: children_iff)
  with 1 show ?case
    by (subst (1 2) greedy_head.simps) (auto split: list.splits)
qed

lemma heaviest_cong:
  "(\<And>x y. x \<in> set (c # cs) \<Longrightarrow> y \<in> set (c # cs) \<Longrightarrow> beats ns x y = beats ms x y) \<Longrightarrow>
   heaviest ns c cs = heaviest ms c cs"
proof (induction cs arbitrary: c)
  case (Cons x cs)
  then show ?case
    using Cons.IH [of "if beats ms x c then x else c"] by (auto split: if_splits)
qed simp

lemma greedy_head_same_core:
  "same_core a b \<Longrightarrow> greedy_head (pa_nodes a) f i = greedy_head (pa_nodes b) f i"
proof -
  assume sc: "same_core a b"
  have "nodes = pa_nodes a \<Longrightarrow> greedy_head nodes f i = greedy_head (pa_nodes b) f i" for nodes
  proof (induction nodes f i rule: greedy_head.induct)
    case (1 nodes f i)
    have ch: "children nodes i = children (pa_nodes b) i"
      using children_same_core [OF sc] "1.prems" by simp
    show ?case
    proof (cases "filter f (children nodes i)")
      case Nil
      with ch show ?thesis
        by (subst (1 2) greedy_head.simps) simp
    next
      case (Cons c cs)
      then have "set (c # cs) \<subseteq> set (children nodes i)"
        by (metis filter_is_subset)
      then have "heaviest nodes c cs = heaviest (pa_nodes b) c cs"
        unfolding "1.prems" by (intro heaviest_cong beats_same_core [OF sc]) (auto simp: children_iff)
      with 1 Cons ch show ?thesis
        by (subst (1 2) greedy_head.simps) simp
    qed
  qed
  then show ?thesis by simp
qed

lemma viable_closed_same_core: "same_core a b \<Longrightarrow> viable_closed a = viable_closed b"
  unfolding viable_closed_def list_all_iff
  using same_core_length [of a b] viable_same_core [of a b] children_same_core [of a b]
  by (auto simp: children_iff)

lemma stale_free_closed: "pa_wf pa \<Longrightarrow> viable_closed pa \<Longrightarrow> stale_free pa"
proof -
  assume wf: "pa_wf pa" and vc: "viable_closed pa"
  have "pn_bestChild (pa_nodes pa ! i) = None"
    if i: "i < length (pa_nodes pa)" "viable pa i" "\<not> list_ex (leads_to_head pa) (children (pa_nodes pa) i)" for i
  proof (rule ccontr)
    assume "pn_bestChild (pa_nodes pa ! i) \<noteq> None"
    then obtain c where "pn_bestChild (pa_nodes pa ! i) = Some c" by blast
    from links_ok_Some [OF pa_wf_links [OF wf i(1)] this] parents_okD [OF pa_wf_parents [OF wf]]
    have "c \<in> set (children (pa_nodes pa) i)"
      by (auto simp: children_iff)
    moreover from this have "leads_to_head pa c"
      using viable_closedD [OF vc i(1,2)] by (subst leads_to_head.simps) simp
    ultimately show False
      using i(3) by (auto simp: list_ex_iff)
  qed
  then show ?thesis
    by (auto simp: stale_free_def list_all_iff)
qed

lemma filter_block_tree_same_core:
  "same_core a b \<Longrightarrow> i < length (pa_nodes a) \<Longrightarrow> viable_closed a \<Longrightarrow>
   filter_block_tree a i = filter_block_tree b i"
  using filter_block_tree_closed [of a i] filter_block_tree_closed [of b i] viable_closed_same_core [of a b]
    leads_to_head_same_core [of a b i] same_core_length [of a b] by simp

lemma findHead_pass:
  assumes inv: "pass_inv pa0 0 pa" and sf: "stale_free pa0"
    and j: "jm_get (pa_indices pa) jr = Some j" and L: "leads_to_head pa0 j"
  shows "findHead pa jr = Inr (pb_blockRoot (pa_nodes pa ! greedy_head (pa_nodes pa0) (leads_to_head pa0) j))"
proof -
  note wf = pass_inv_wfD(1) [OF inv] and sc = pass_inv_wfD(2) [OF inv]
  have jl: "j < length (pa_nodes pa)" "j < length (pa_nodes pa0)"
    using pa_wf_get [OF wf j] same_core_length [OF sc] by simp_all
  have t: "viable pa0 (tip (pa_nodes pa) j)"
      "tip (pa_nodes pa) j = greedy_head (pa_nodes pa0) (leads_to_head pa0) j"
    using pass_inv_final [OF inv sf jl(2)] L by blast+
  have tl: "tip (pa_nodes pa) j < length (pa_nodes pa)"
    using links_ok_desc [OF pa_wf_links [OF wf jl(1)]] jl(1) by (fastforce simp: tip_def split: option.splits)
  have "nodeIsViableForHead pa (pa_nodes pa ! tip (pa_nodes pa) j)"
    using t(1) viable_same_core [OF sc, of "tip (pa_nodes pa) j"] tl same_core_length [OF sc]
    by (simp add: viable_def)
  then show ?thesis
    using jl tl unfolding findHead_def t(2) [symmetric] by (simp add: j Let_def tip_def)
qed

section \<open>Arrays built by the code\<close>

fun array_of :: "proto_array \<Rightarrow> proto_block list \<Rightarrow> proto_array pa_result" where
  "array_of pa [] = Inr pa"
| "array_of pa (b # bs) = bind_res (onBlock pa b) (\<lambda>pa'. array_of pa' bs)"

lemma array_of_wf: "pa_wf pa \<Longrightarrow> \<exists>pa'. array_of pa bs = Inr pa' \<and> pa_wf pa'"
proof (induction bs arbitrary: pa)
  case Nil
  then show ?case by simp
next
  case (Cons b bs)
  from onBlock_wf [OF Cons.prems] obtain pa' where "onBlock pa b = Inr pa'" "pa_wf pa'" by blast
  with Cons.IH [of pa'] show ?case by simp
qed

definition ex_block :: "slot \<Rightarrow> root_hex \<Rightarrow> root_hex \<Rightarrow> proto_block" where
  "ex_block s r par = \<lparr>pb_slot = s, pb_blockRoot = r, pb_parentRoot = par, pb_stateRoot = r,
     pb_targetRoot = ''A'', pb_justifiedEpoch = 1, pb_justifiedRoot = ''A'', pb_finalizedEpoch = 0,
     pb_finalizedRoot = ''A'', pb_executionPayloadBlockHash = None, pb_executionStatus = PreMerge\<rparr>"

definition ex_array :: proto_array where
  "ex_array = projr (array_of (new_ProtoArray 0 1 ''A'' 0 ''A'')
     [ex_block 0 ''A'' ''Z'', ex_block 9 ''B'' ''A'', ex_block 9 ''C'' ''A'', ex_block 10 ''D'' ''B''])"

lemma ex_array_wf: "pa_wf ex_array"
  using array_of_wf [OF new_ProtoArray_wf, of 0 1 "''A''" 0 "''A''"
      "[ex_block 0 ''A'' ''Z'', ex_block 9 ''B'' ''A'', ex_block 9 ''C'' ''A'', ex_block 10 ''D'' ''B'']"]
  unfolding ex_array_def by fastforce

definition ex_scored :: proto_array where
  "ex_scored = projr (applyScoreChanges ex_array [0, 5, 7, 3] None 1 ''A'' 0 ''A'')"

lemma ex_scored: "applyScoreChanges ex_array [0, 5, 7, 3] None 1 ''A'' 0 ''A'' = Inr ex_scored"
proof -
  have "length [0, 5, 7, 3 :: int] = length (pa_nodes ex_array)" by code_simp
  from applyScoreChanges_wf [OF ex_array_wf this, where boost = None and jE = 1 and jR = "''A''" and fE = 0 and fR = "''A''"]
  obtain pa' where "applyScoreChanges ex_array [0, 5, 7, 3] None 1 ''A'' 0 ''A'' = Inr pa'" by blast
  then show ?thesis by (simp add: ex_scored_def)
qed

section \<open>The head\<close>

lemma boost_irrelevant [simp]:
  "nodeIsViableForHead (pa\<lparr>pa_previousProposerBoost := b\<rparr>) = nodeIsViableForHead pa"
  "findHead (pa\<lparr>pa_previousProposerBoost := b\<rparr>) r = findHead pa r"
  by (simp_all add: fun_eq_iff nodeIsViableForHead_def findHead_def Let_def cong: option.case_cong if_cong)

lemma viable_boost [simp]: "viable (pa\<lparr>pa_previousProposerBoost := b\<rparr>) = viable pa"
  by (simp add: fun_eq_iff viable_def)

lemma filter_block_tree_boost [simp]:
  "filter_block_tree (pa\<lparr>pa_previousProposerBoost := b\<rparr>) i = filter_block_tree pa i"
proof (induction pa i rule: filter_block_tree.induct)
  case (1 pa i)
  then show ?case
    by (subst (1 2) filter_block_tree.simps) (auto simp: Let_def intro!: list_ex_filter_cong)
qed

lemma viable_closed_boost [simp]: "viable_closed (pa\<lparr>pa_previousProposerBoost := b\<rparr>) = viable_closed pa"
  by (simp add: viable_closed_def)

lemma findHead_head:
  assumes wf: "pa_wf pa" and app: "applyScoreChanges pa deltas boost jE jR fE fR = Inr pa'"
    and vc: "viable_closed pa'" and j: "jm_get (pa_indices pa') r = Some j"
    and kept: "filter_block_tree pa' j"
  shows "findHead pa' r = Inr (pb_blockRoot (pa_nodes pa' ! get_head pa' j))"
proof -
  from applyScoreChanges_split [OF wf app] obtain pa1 pa2 where
    wf1: "pa_wf pa1" and best: "applyBestChildren (length (pa_nodes pa1)) pa1 = Inr pa2"
    and pa': "pa' = pa2\<lparr>pa_previousProposerBoost := boost\<rparr>" by blast
  have vc2: "viable_closed pa2" and kept2: "filter_block_tree pa2 j"
    and j2: "jm_get (pa_indices pa2) r = Some j"
    using vc kept j by (simp_all add: pa')
  have sc: "same_core pa1 pa2" and wf2: "pa_wf pa2"
    using applyBestChildren_ok [OF wf1, of "length (pa_nodes pa1)"] best by auto
  have vc1: "viable_closed pa1"
    using vc2 viable_closed_same_core [OF sc] by simp
  note sf = stale_free_closed [OF wf1 vc1]
  have inv: "pass_inv pa1 0 pa2"
    using applyBestChildren_pass [OF pass_inv_start [OF wf1] sf order_refl] best by simp
  have fbt: "filter_block_tree pa2 c = leads_to_head pa1 c" if "c < length (pa_nodes pa2)" for c
    using that filter_block_tree_closed [OF vc2 that] leads_to_head_same_core [OF sc, of c]
      same_core_length [OF sc] by simp
  have "get_head pa' j = greedy_head (pa_nodes pa2) (filter_block_tree pa2) j"
    by (simp add: get_head_def pa' greedy_head_cong [OF filter_block_tree_boost])
  also have "\<dots> = greedy_head (pa_nodes pa2) (leads_to_head pa1) j"
    by (rule greedy_head_cong) (rule fbt)
  also have "\<dots> = greedy_head (pa_nodes pa1) (leads_to_head pa1) j"
    by (rule greedy_head_same_core [OF sc, symmetric])
  finally show ?thesis
    using findHead_pass [OF inv sf j2] fbt [of j] kept2 pa_wf_get [OF wf2 j2] by (simp add: pa')
qed

text \<open>
  The hypothesis that the children of a viable block are viable cannot be dropped: a viable block whose
  only child is not viable is a head for the code, while \<open>filter_block_tree\<close>, which looks at the leaves,
  drops both. Here \<open>D\<close>, on top of \<open>B\<close>, knows a later justified checkpoint than the store.
\<close>

definition ex_split :: proto_array where
  "ex_split = projr (applyScoreChanges (projr (array_of (new_ProtoArray 0 1 ''A'' 0 ''A'')
     [ex_block 0 ''A'' ''Z'', ex_block 9 ''B'' ''A'', ex_block 9 ''C'' ''A'',
      ex_block 10 ''D'' ''B''\<lparr>pb_justifiedEpoch := 2\<rparr>]))
     [0, 5, 3, 0] None 1 ''A'' 0 ''A'')"

lemma unviable_child_differs: "findHead ex_split ''A'' = Inr ''B'' \<and> filter_block_tree ex_split 0 \<and>
    pb_blockRoot (pa_nodes ex_split ! get_head ex_split 0) = ''C'' \<and> \<not> viable_closed ex_split"
  by code_simp

text \<open>
  C1. After an \<open>applyScoreChanges\<close> that returns, \<open>findHead\<close> on a root of the array returns the head of
  LMD-GHOST from there: the block that \<open>get_head\<close> of the consensus specification reaches on the filtered
  block tree, going at each block to the heaviest child and, among equally heavy ones, to the larger
  root. The links inherited from earlier calls may be arbitrary, as long as the array is well-formed.
  Hypotheses: in the resulting array the children of every viable block are viable, and the filtered
  tree keeps the block of that root. Without the first the code and the specification differ, see
  \<open>unviable_child_differs\<close>.
\<close>

theorem findHead_get_head:
  assumes wf: "pa_wf pa" and app: "applyScoreChanges pa deltas boost jE jR fE fR = Inr pa'"
    and vc: "viable_closed pa'" and j: "jm_get (pa_indices pa') r = Some j"
    and kept: "filter_block_tree pa' j"
  shows "findHead pa' r = Inr (pb_blockRoot (pa_nodes pa' ! get_head pa' j))"
  using assms by (rule findHead_head)

theorem findHead_get_head_witness:
  "findHead ex_scored ''A'' = Inr (pb_blockRoot (pa_nodes ex_scored ! get_head ex_scored 0))
   \<and> get_head ex_scored 0 = 3"
proof
  have "viable_closed ex_scored" by code_simp
  moreover have "jm_get (pa_indices ex_scored) ''A'' = Some 0" by code_simp
  moreover have "filter_block_tree ex_scored 0" by code_simp
  ultimately show "findHead ex_scored ''A'' = Inr (pb_blockRoot (pa_nodes ex_scored ! get_head ex_scored 0))"
    by (rule findHead_get_head [OF ex_array_wf ex_scored])
  show "get_head ex_scored 0 = 3" by code_simp
qed

end
