(* ===== verification/ComputeDeltas.thy ===== *)
theory ComputeDeltas
  imports ProtoArrayWeights ProtoArrayHead
begin

text \<open>
  \<open>packages/fork-choice/src/protoArray/computeDeltas.ts\<close>. The votes are the sparse array
  \<open>IVoteTracker[]\<close>: \<open>None\<close> is a hole. A balance read past the end of a \<open>Uint8Array\<close> is
  \<open>undefined || 0\<close>. The lemmas show which balances each delta collects, and that the weights of
  the array stay the sums of the balances of the votes in each subtree, plus the proposer boost.
\<close>

section \<open>The function\<close>

definition balanceAt :: "nat list \<Rightarrow> nat \<Rightarrow> int" where
  "balanceAt bs v = (case nth_opt bs v of None \<Rightarrow> 0 | Some b \<Rightarrow> int b)"

definition addDelta :: "(root_hex, nat) jsmap \<Rightarrow> root_hex \<Rightarrow> int \<Rightarrow> int list \<Rightarrow> int list pa_result" where
  "addDelta indices r x deltas =
     (case jm_get indices r of
        None \<Rightarrow> Inr deltas
      | Some i \<Rightarrow>
          if length deltas \<le> i then Inl (INVALID_NODE_DELTA i)
          else Inr (deltas[i := deltas ! i + x]))"

text \<open>
  \<open>deltasLoop\<close> is the loop from validator \<open>vIndex\<close> on; with the outcome it returns the votes as the
  loop leaves them, also when it throws.
\<close>

fun deltasLoop :: "(root_hex, nat) jsmap \<Rightarrow> nat list \<Rightarrow> nat list \<Rightarrow> nat \<Rightarrow> vote_tracker option list
    \<Rightarrow> int list \<Rightarrow> int list pa_result \<times> vote_tracker option list" where
  "deltasLoop indices oldB newB vIndex [] deltas = (Inr deltas, [])"
| "deltasLoop indices oldB newB vIndex (None # votes) deltas =
     (case deltasLoop indices oldB newB (Suc vIndex) votes deltas of (r, vs) \<Rightarrow> (r, None # vs))"
| "deltasLoop indices oldB newB vIndex (Some vote # votes) deltas =
     (if currentRoot vote = HEX_ZERO_HASH \<and> nextRoot vote = HEX_ZERO_HASH then
        (case deltasLoop indices oldB newB (Suc vIndex) votes deltas of (r, vs) \<Rightarrow> (r, Some vote # vs))
      else
        (let oldBalance = balanceAt oldB vIndex;
             newBalance = balanceAt newB vIndex;
             upd = (if currentRoot vote \<noteq> nextRoot vote \<or> oldBalance \<noteq> newBalance
                    then bind_res (addDelta indices (currentRoot vote) (- oldBalance) deltas)
                           (addDelta indices (nextRoot vote) newBalance)
                    else Inr deltas)
         in case upd of
              Inl e \<Rightarrow> (Inl e, Some vote # votes)
            | Inr deltas' \<Rightarrow>
                (case deltasLoop indices oldB newB (Suc vIndex) votes deltas' of
                   (r, vs) \<Rightarrow> (r, Some (vote\<lparr>currentRoot := nextRoot vote\<rparr>) # vs))))"

definition computeDeltas :: "(root_hex, nat) jsmap \<Rightarrow> vote_tracker option list \<Rightarrow> nat list \<Rightarrow> nat list
    \<Rightarrow> int list pa_result \<times> vote_tracker option list" where
  "computeDeltas indices votes oldB newB =
     deltasLoop indices oldB newB 0 votes (replicate (jm_size indices) 0)"

section \<open>What the deltas are\<close>

text \<open>The balance of the validators from number \<open>v\<close> on whose vote, read by \<open>sel\<close>, is for \<open>r\<close>.\<close>

fun votes_from :: "(vote_tracker \<Rightarrow> root_hex) \<Rightarrow> root_hex \<Rightarrow> nat list \<Rightarrow> nat \<Rightarrow> vote_tracker option list \<Rightarrow> int" where
  "votes_from sel r bal v [] = 0"
| "votes_from sel r bal v (x # xs) =
     (case x of None \<Rightarrow> 0 | Some vote \<Rightarrow> if sel vote = r then balanceAt bal v else 0)
     + votes_from sel r bal (Suc v) xs"

definition votes_for :: "(vote_tracker \<Rightarrow> root_hex) \<Rightarrow> root_hex \<Rightarrow> nat list \<Rightarrow> vote_tracker option list \<Rightarrow> int" where
  "votes_for sel r bal votes = votes_from sel r bal 0 votes"

definition moved :: "vote_tracker option \<Rightarrow> vote_tracker option" where
  "moved = map_option (\<lambda>v. v\<lparr>currentRoot := nextRoot v\<rparr>)"

lemma addDelta_ok:
  assumes ix: "indices_ok nodes m" and len: "length deltas = length nodes"
  shows "\<exists>deltas'. addDelta m r x deltas = Inr deltas' \<and> length deltas' = length nodes \<and>
    (\<forall>j < length nodes. deltas' ! j = deltas ! j + (if pb_blockRoot (nodes ! j) = r then x else 0))"
proof (cases "jm_get m r")
  case None
  then have "pb_blockRoot (nodes ! j) \<noteq> r" if "j < length nodes" for j
    using ix that by (auto simp: indices_ok_def)
  with None len show ?thesis by (auto simp: addDelta_def)
next
  case (Some i)
  then have i: "i < length nodes" "pb_blockRoot (nodes ! i) = r"
    using ix by (auto simp: indices_ok_def)
  have uniq: "pb_blockRoot (nodes ! j) = r \<longleftrightarrow> j = i" if "j < length nodes" for j
    using ix that Some i unfolding indices_ok_def by (metis option.inject)
  have "addDelta m r x deltas = Inr (deltas[i := deltas ! i + x])"
    using Some i len by (simp add: addDelta_def)
  moreover have "\<forall>j < length nodes. deltas[i := deltas ! i + x] ! j =
      deltas ! j + (if pb_blockRoot (nodes ! j) = r then x else 0)"
    using i len by (simp add: uniq nth_list_update)
  ultimately show ?thesis
    using len by simp
qed

lemma deltasLoop_ok:
  "indices_ok nodes m \<Longrightarrow> length deltas = length nodes \<Longrightarrow>
   \<exists>deltas'. deltasLoop m oldB newB v votes deltas = (Inr deltas', map moved votes) \<and>
     length deltas' = length nodes \<and>
     (\<forall>j < length nodes. pb_blockRoot (nodes ! j) \<noteq> HEX_ZERO_HASH \<longrightarrow>
        deltas' ! j = deltas ! j + votes_from nextRoot (pb_blockRoot (nodes ! j)) newB v votes
          - votes_from currentRoot (pb_blockRoot (nodes ! j)) oldB v votes)"
proof (induction m oldB newB v votes deltas rule: deltasLoop.induct)
  case (1 m oldB newB v deltas)
  then show ?case by simp
next
  case (2 m oldB newB v votes deltas)
  then show ?case by (fastforce simp: moved_def)
next
  case (3 m oldB newB v vote votes deltas)
  show ?case
  proof (cases "currentRoot vote = HEX_ZERO_HASH \<and> nextRoot vote = HEX_ZERO_HASH")
    case True
    with "3.IH"(1) "3.prems" show ?thesis
      by (fastforce simp: moved_def)
  next
    case False
    let ?o = "balanceAt oldB v" and ?w = "balanceAt newB v"
    let ?upd = "if currentRoot vote \<noteq> nextRoot vote \<or> ?o \<noteq> ?w
      then bind_res (addDelta m (currentRoot vote) (- ?o) deltas) (addDelta m (nextRoot vote) ?w)
      else Inr deltas"
    obtain d1 where d1: "addDelta m (currentRoot vote) (- ?o) deltas = Inr d1" "length d1 = length nodes"
        "\<And>j. j < length nodes \<Longrightarrow> d1 ! j = deltas ! j + (if pb_blockRoot (nodes ! j) = currentRoot vote then - ?o else 0)"
      using addDelta_ok [OF "3.prems"] by blast
    obtain d2 where d2: "addDelta m (nextRoot vote) ?w d1 = Inr d2" "length d2 = length nodes"
        "\<And>j. j < length nodes \<Longrightarrow> d2 ! j = d1 ! j + (if pb_blockRoot (nodes ! j) = nextRoot vote then ?w else 0)"
      using addDelta_ok [OF "3.prems"(1) d1(2)] by blast
    have "\<exists>ds. ?upd = Inr ds \<and> length ds = length nodes \<and> (\<forall>j < length nodes. ds ! j = deltas ! j
        + (if pb_blockRoot (nodes ! j) = nextRoot vote then ?w else 0)
        - (if pb_blockRoot (nodes ! j) = currentRoot vote then ?o else 0))"
      using d1 d2 "3.prems" by auto
    then obtain ds where ds: "?upd = Inr ds" "length ds = length nodes"
        "\<And>j. j < length nodes \<Longrightarrow> ds ! j = deltas ! j
          + (if pb_blockRoot (nodes ! j) = nextRoot vote then ?w else 0)
          - (if pb_blockRoot (nodes ! j) = currentRoot vote then ?o else 0)"
      by blast
    obtain deltas' where r: "deltasLoop m oldB newB (Suc v) votes ds = (Inr deltas', map moved votes)"
        "length deltas' = length nodes"
        "\<And>j. j < length nodes \<Longrightarrow> pb_blockRoot (nodes ! j) \<noteq> HEX_ZERO_HASH \<Longrightarrow>
        deltas' ! j = ds ! j + votes_from nextRoot (pb_blockRoot (nodes ! j)) newB (Suc v) votes
          - votes_from currentRoot (pb_blockRoot (nodes ! j)) oldB (Suc v) votes"
      using "3.IH"(2) [OF False refl refl refl ds(1) "3.prems"(1) ds(2)] by blast
    have "deltasLoop m oldB newB v (Some vote # votes) deltas = (Inr deltas', map moved (Some vote # votes))"
      using False by (simp only: deltasLoop.simps Let_def if_False ds(1) r(1) sum.case prod.case) (simp add: moved_def)
    with r ds show ?thesis by auto
  qed
qed

lemma computeDeltas_ok:
  assumes "indices_ok nodes m"
  shows "\<exists>deltas. computeDeltas m votes oldB newB = (Inr deltas, map moved votes) \<and>
    length deltas = length nodes \<and>
    (\<forall>j < length nodes. pb_blockRoot (nodes ! j) \<noteq> HEX_ZERO_HASH \<longrightarrow>
       deltas ! j = votes_for nextRoot (pb_blockRoot (nodes ! j)) newB votes
         - votes_for currentRoot (pb_blockRoot (nodes ! j)) oldB votes)"
  using deltasLoop_ok [OF assms, of "replicate (jm_size m) 0" oldB newB 0 votes] indices_ok_length [OF assms]
  unfolding computeDeltas_def votes_for_def by auto

lemma votes_for_moved: "votes_for currentRoot r bal (map moved votes) = votes_for nextRoot r bal votes"
proof -
  have "votes_from currentRoot r bal v (map moved votes) = votes_from nextRoot r bal v votes" for v
    by (induction votes arbitrary: v) (auto simp: moved_def split: option.splits)
  then show ?thesis by (simp add: votes_for_def)
qed

section \<open>Weights are the balances of the votes\<close>

text \<open>
  Every weight is the sum, over the node's subtree, of the balances of the votes applied to it
  (the trackers' \<open>currentRoot\<close>) and of the proposer boost that is in force.
\<close>

definition own_weight :: "proto_array \<Rightarrow> vote_tracker option list \<Rightarrow> nat list \<Rightarrow> nat \<Rightarrow> int" where
  "own_weight pa votes bal j =
     votes_for currentRoot (pb_blockRoot (pa_nodes pa ! j)) bal votes
     + boostFor (pa_previousProposerBoost pa) (pb_blockRoot (pa_nodes pa ! j))"

definition votes_applied :: "proto_array \<Rightarrow> vote_tracker option list \<Rightarrow> nat list \<Rightarrow> bool" where
  "votes_applied pa votes bal =
     list_all (\<lambda>i. pb_blockRoot (pa_nodes pa ! i) \<noteq> HEX_ZERO_HASH \<longrightarrow>
         pn_weight (pa_nodes pa ! i) = subtree_sum (pa_nodes pa) (own_weight pa votes bal) i)
       [0..<length (pa_nodes pa)]"

lemma partial_sum_add: "partial_sum nodes (\<lambda>j. f j + g j) i k = partial_sum nodes f i k + partial_sum nodes g i k"
  by (induction k) (auto simp: partial_sum_def)

lemma partial_sum_cong_sub:
  "(\<And>j. j < k \<Longrightarrow> in_subtree nodes i j \<Longrightarrow> f j = g j) \<Longrightarrow> partial_sum nodes f i k = partial_sum nodes g i k"
  unfolding partial_sum_def by (intro sum.cong) auto

lemma in_subtree_nonzero: "zero_is_root nodes \<Longrightarrow> j < length nodes \<Longrightarrow> in_subtree nodes i j \<Longrightarrow>
    pb_blockRoot (nodes ! i) \<noteq> HEX_ZERO_HASH \<Longrightarrow> pb_blockRoot (nodes ! j) \<noteq> HEX_ZERO_HASH"
  using in_subtree_orphan [of nodes j i] by (auto simp: zero_is_root_def list_all_length)

lemma scores_exact:
  assumes wf: "pa_wf pa" and z: "zero_is_root (pa_nodes pa)" and old: "votes_applied pa votes oldB"
    and ds: "computeDeltas (pa_indices pa) votes oldB newB = (Inr deltas, votes')"
    and app: "applyScoreChanges pa deltas boost jE jR fE fR = Inr pa'"
  shows "votes_applied pa' votes' newB"
proof -
  let ?ns = "pa_nodes pa" and ?r = "\<lambda>j. pb_blockRoot (pa_nodes pa ! j)"
  from applyScoreChanges_split [OF wf app] obtain nodes pa1 pa2 where
    w: "applyWeights boost (pa_previousProposerBoost pa) (length ?ns) ?ns deltas = Inr nodes"
    and len: "length deltas = length ?ns" and n1: "pa_nodes pa1 = nodes" "pa_wf pa1"
    and best: "applyBestChildren (length nodes) pa1 = Inr pa2"
    and pa': "pa' = pa2\<lparr>pa_previousProposerBoost := boost\<rparr>" by blast
  have strip: "map strip_weight nodes = map strip_weight ?ns"
    using applyWeights_ok [OF pa_wf_parents [OF wf] len order_refl, of boost "pa_previousProposerBoost pa"] w
    by simp
  have ln: "length nodes = length ?ns"
    using strip by (metis length_map)
  have sc: "same_core pa1 pa2"
    using applyBestChildren_ok [OF n1(2), of "length nodes"] best n1(1) by auto
  have ln': "length (pa_nodes pa') = length ?ns"
    using same_core_length [OF sc] n1 ln by (simp add: pa')
  have node: "?r i = pb_blockRoot (pa_nodes pa' ! i) \<and> pn_parent (pa_nodes pa' ! i) = pn_parent (?ns ! i)
      \<and> pn_weight (pa_nodes pa' ! i) = pn_weight (nodes ! i)" if "i < length ?ns" for i
  proof -
    have "strip_weight (nodes ! i) = strip_weight (?ns ! i)"
      using strip that ln by (metis nth_map)
    moreover have "core (nodes ! i) = core (pa_nodes pa' ! i)"
      using same_core_node [OF sc, of i] that ln n1 by (simp add: pa')
    ultimately show ?thesis
      using strip_weight_eqD [of "nodes ! i" "?ns ! i"] core_eqD [of "nodes ! i" "pa_nodes pa' ! i"] by simp
  qed
  have mp: "map pn_parent (pa_nodes pa') = map pn_parent ?ns"
    using node ln' by (intro nth_equalityI) auto
  have cd: "votes' = map moved votes" "\<And>j. j < length ?ns \<Longrightarrow> ?r j \<noteq> HEX_ZERO_HASH \<Longrightarrow>
      deltas ! j = votes_for nextRoot (?r j) newB votes - votes_for currentRoot (?r j) oldB votes"
    using computeDeltas_ok [of ?ns "pa_indices pa" votes oldB newB] wf ds by (auto simp: pa_wf_def)
  have "pn_weight (nodes ! i) = partial_sum ?ns (own_weight pa' votes' newB) i (length ?ns)"
    if i: "i < length ?ns" "?r i \<noteq> HEX_ZERO_HASH" for i
  proof -
    let ?oc = "own_change boost (pa_previousProposerBoost pa) ?ns deltas"
    have "pn_weight (nodes ! i) = pn_weight (?ns ! i) + partial_sum ?ns ?oc i (length ?ns)"
      using applyWeights_sum [OF pa_wf_parents [OF wf] z len order_refl w i(1)] i by simp
    also have "pn_weight (?ns ! i) = partial_sum ?ns (own_weight pa votes oldB) i (length ?ns)"
      using old i by (simp add: votes_applied_def list_all_iff subtree_sum_partial)
    finally have "pn_weight (nodes ! i) =
        partial_sum ?ns (\<lambda>j. own_weight pa votes oldB j + ?oc j) i (length ?ns)"
      by (simp add: partial_sum_add)
    also have "\<dots> = partial_sum ?ns (own_weight pa' votes' newB) i (length ?ns)"
    proof (rule partial_sum_cong_sub)
      fix j assume j: "j < length ?ns" "in_subtree ?ns i j"
      have "?r j \<noteq> HEX_ZERO_HASH"
        by (rule in_subtree_nonzero [OF z j i(2)])
      then show "own_weight pa votes oldB j + ?oc j = own_weight pa' votes' newB j"
        using node [OF j(1)] cd(2) [OF j(1)]
        by (simp add: own_weight_def own_change_def cd(1) votes_for_moved pa')
    qed
    finally show ?thesis .
  qed
  then show ?thesis
    using node ln' partial_sum_cong [OF refl mp]
    by (simp add: votes_applied_def list_all_iff subtree_sum_partial)
qed

text \<open>
  C3. The score update is exact: if every weight is the sum of the balances of the applied votes in
  its subtree plus the boost, and the deltas come from \<open>computeDeltas\<close> with the old and the new
  balances, then after \<open>applyScoreChanges\<close> the same holds for the new votes, the new balances and
  the new boost. The votes that \<open>computeDeltas\<close> leaves behind are those it was asked to move to.
\<close>

theorem applyScoreChanges_votes:
  assumes wf: "pa_wf pa" and z: "zero_is_root (pa_nodes pa)" and old: "votes_applied pa votes oldB"
    and ds: "computeDeltas (pa_indices pa) votes oldB newB = (Inr deltas, votes')"
    and app: "applyScoreChanges pa deltas boost jE jR fE fR = Inr pa'"
  shows "votes_applied pa' votes' newB"
  using assms by (rule scores_exact)

definition ex_votes :: "vote_tracker option list" where
  "ex_votes = [Some \<lparr>currentRoot = HEX_ZERO_HASH, nextRoot = ''B'', nextEpoch = 1\<rparr>, None,
     Some \<lparr>currentRoot = HEX_ZERO_HASH, nextRoot = ''D'', nextEpoch = 1\<rparr>]"

definition ex_boost :: "proposer_boost option" where
  "ex_boost = Some \<lparr>boost_root = ''C'', boost_score = 6\<rparr>"

definition ex_voted :: proto_array where
  "ex_voted = projr (applyScoreChanges ex_array [0, 2, 0, 3] ex_boost 1 ''A'' 0 ''A'')"

theorem applyScoreChanges_votes_witness:
  "votes_applied ex_voted (map moved ex_votes) [2, 9, 3]
   \<and> map pn_weight (pa_nodes ex_voted) = [11, 5, 6, 3]"
proof
  have "zero_is_root (pa_nodes ex_array)" by code_simp
  moreover have "votes_applied ex_array ex_votes [1, 1]" by code_simp
  moreover have "computeDeltas (pa_indices ex_array) ex_votes [1, 1] [2, 9, 3]
      = (Inr [0, 2, 0, 3], map moved ex_votes)" by code_simp
  moreover have "applyScoreChanges ex_array [0, 2, 0, 3] ex_boost 1 ''A'' 0 ''A'' = Inr ex_voted"
    by code_simp
  ultimately show "votes_applied ex_voted (map moved ex_votes) [2, 9, 3]"
    by (rule applyScoreChanges_votes [OF ex_array_wf])
  show "map pn_weight (pa_nodes ex_voted) = [11, 5, 6, 3]" by code_simp
qed

end
