(* ===== verification/ProtoArrayWalk.thy ===== *)
theory ProtoArrayWalk
  imports ProtoArrayHead
begin

text \<open>
  The walks of the proto array: ancestors, side branches, descent, the common ancestor; and the
  contracts of \<open>onBlock\<close> and \<open>maybePrune\<close>.
\<close>

section \<open>Lines of ancestors\<close>

definition line :: "proto_node list \<Rightarrow> nat \<Rightarrow> nat list" where
  "line nodes i = i # ancestors nodes i"

definition slots_ok :: "proto_node list \<Rightarrow> bool" where
  "slots_ok nodes = list_all (\<lambda>n. case pn_parent n of None \<Rightarrow> True
      | Some p \<Rightarrow> pb_slot (nodes ! p) < pb_slot n) nodes"

lemma slots_okD: "slots_ok nodes \<Longrightarrow> i < length nodes \<Longrightarrow> pn_parent (nodes ! i) = Some p \<Longrightarrow>
    pb_slot (nodes ! p) < pb_slot (nodes ! i)"
  by (auto simp: slots_ok_def list_all_length split: option.splits)

lemma in_line: "x \<in> set (line nodes i) \<longleftrightarrow> x = i \<or> anc nodes x i"
  by (simp add: line_def anc_def)

lemma anc_slot:
  assumes "slots_ok nodes"
  shows "anc nodes a d \<Longrightarrow> pb_slot (nodes ! a) < pb_slot (nodes ! d)"
proof (induction d rule: less_induct)
  case (less d)
  from less.prems obtain p where p: "d < length nodes" "pn_parent (nodes ! d) = Some p" "p < d"
      "a = p \<or> anc nodes a p"
    using anc_unfold [of nodes a d] by blast
  with less.IH [of p] slots_okD [OF assms p(1,2)] show ?case by auto
qed

lemma line_Some: "parents_ok nodes \<Longrightarrow> i < length nodes \<Longrightarrow> pn_parent (nodes ! i) = Some p \<Longrightarrow>
    line nodes i = i # line nodes p"
  by (simp add: line_def ancestors_Some)

lemma line_None: "pn_parent (nodes ! i) = None \<Longrightarrow> line nodes i = [i]"
  by (simp add: line_def ancestors_None)

lemma getNodeFromIndex_wf: "i < length (pa_nodes pa) \<Longrightarrow> getNodeFromIndex pa i = Inr (pa_nodes pa ! i)"
  by (simp add: getNodeFromIndex_def)

lemma ancestorsFrom_ok:
  assumes wf: "pa_wf pa"
  shows "i < length (pa_nodes pa) \<Longrightarrow> i \<le> fuel \<Longrightarrow>
    ancestorsFrom fuel pa (pa_nodes pa ! i) = (map ((!) (pa_nodes pa)) (ancestors (pa_nodes pa) i), None)"
proof (induction fuel arbitrary: i)
  case 0
  have "pn_parent (pa_nodes pa ! 0) = None"
    using pa_wf_parent_less [OF wf, of 0] 0 by (cases "pn_parent (pa_nodes pa ! 0)") auto
  with 0 show ?case
    by (subst ancestorsFrom.simps) (simp add: ancestors_None)
next
  case (Suc fuel)
  show ?case
  proof (cases "pn_parent (pa_nodes pa ! i)")
    case None
    then show ?thesis
      by (subst ancestorsFrom.simps) (simp add: ancestors_None)
  next
    case (Some p)
    have "p < i" "p < length (pa_nodes pa)"
      using pa_wf_parent_less [OF wf Suc.prems(1) Some] by auto
    with Suc Some show ?thesis
      by (subst ancestorsFrom.simps)
        (simp add: getNodeFromIndex_wf ancestors_Some [OF pa_wf_parents [OF wf]])
  qed
qed

text \<open>
  On a well-formed array the generator of ancestors ends and throws nothing, and
  \<open>getAllAncestorNodes\<close> returns the node of the root and then its ancestors, nearest first; an
  unknown root has none.
\<close>

theorem getAllAncestorNodes_line:
  assumes "pa_wf pa"
  shows "getAllAncestorNodes pa r = Inr (case jm_get (pa_indices pa) r of None \<Rightarrow> []
     | Some i \<Rightarrow> map ((!) (pa_nodes pa)) (line (pa_nodes pa) i))"
  using pa_wf_get [OF assms, of r] ancestorsFrom_ok [OF assms]
  by (auto simp: getAllAncestorNodes_def line_def split: option.splits)

lemma nodesAt_ok: "\<forall>i \<in> set is. i < length (pa_nodes pa) \<Longrightarrow> nodesAt pa is = Inr (map ((!) (pa_nodes pa)) is)"
  by (induction "is") (auto simp: getNodeFromIndex_wf)

definition side_branches :: "proto_node list \<Rightarrow> nat \<Rightarrow> nat list" where
  "side_branches nodes i = rev (filter (\<lambda>k. 0 < k \<and> k \<notin> set (ancestors nodes i)) [0..<i])"

lemma side_branches_Some:
  assumes par: "parents_ok nodes" and i: "i < length nodes" and p: "pn_parent (nodes ! i) = Some p"
  shows "side_branches nodes i = rev [Suc p..<i] @ side_branches nodes p"
proof -
  have pi: "p < i"
    using parents_okD [OF par i p] .
  have a: "ancestors nodes i = p # ancestors nodes p"
    by (rule ancestors_Some [OF par i p])
  have low: "x < p" if "x \<in> set (ancestors nodes p)" for x
    using anc_less [of nodes x p] that by (simp add: anc_def)
  have "[0..<i] = [0..<p] @ p # [Suc p..<i]"
    using pi by (metis le0 less_imp_le_nat upt_add_eq_append upt_conv_Cons le_add_diff_inverse)
  moreover have "filter (\<lambda>k. 0 < k \<and> k \<notin> set (ancestors nodes i)) [Suc p..<i] = [Suc p..<i]"
    using low a by (intro filter_True) fastforce
  moreover have "filter (\<lambda>k. 0 < k \<and> k \<notin> set (ancestors nodes i)) [0..<p] =
      filter (\<lambda>k. 0 < k \<and> k \<notin> set (ancestors nodes p)) [0..<p]"
    using a by (intro filter_cong) auto
  ultimately show ?thesis
    by (simp add: side_branches_def a)
qed

lemma nonAncestorsFrom_ok:
  assumes wf: "pa_wf pa"
  shows "i < length (pa_nodes pa) \<Longrightarrow> i \<le> fuel \<Longrightarrow>
    nonAncestorsFrom fuel pa i (pa_nodes pa ! i) = Inr (map ((!) (pa_nodes pa)) (side_branches (pa_nodes pa) i))"
proof (induction fuel arbitrary: i)
  case (0 i)
  have "pn_parent (pa_nodes pa ! 0) = None"
    using pa_wf_parent_less [OF wf, of 0] 0 by (cases "pn_parent (pa_nodes pa ! 0)") auto
  with 0 show ?case
    by (subst nonAncestorsFrom.simps) (simp add: getNodesBetween_def side_branches_def)
next
  case (Suc fuel)
  show ?case
  proof (cases "pn_parent (pa_nodes pa ! i)")
    case None
    have "filter (\<lambda>k. 0 < k) [0..<i] = [Suc 0..<i]"
      by (cases i) (simp_all add: upt_conv_Cons del: upt_Suc)
    then have "side_branches (pa_nodes pa) i = rev [Suc 0..<i]"
      by (simp add: side_branches_def ancestors_None [OF None])
    moreover have "\<forall>x \<in> set (rev [Suc 0..<i]). x < length (pa_nodes pa)"
      using Suc.prems by auto
    ultimately show ?thesis
      using None by (subst nonAncestorsFrom.simps) (simp add: getNodesBetween_def nodesAt_ok)
  next
    case (Some p)
    have p: "p < i" "p < length (pa_nodes pa)"
      using pa_wf_parent_less [OF wf Suc.prems(1) Some] by auto
    have "\<forall>x \<in> set (rev [Suc p..<i]). x < length (pa_nodes pa)"
      using Suc.prems by auto
    with p Suc Some show ?thesis
      by (subst nonAncestorsFrom.simps)
        (simp add: getNodeFromIndex_wf getNodesBetween_def nodesAt_ok
          side_branches_Some [OF pa_wf_parents [OF wf] Suc.prems(1) Some])
  qed
qed

text \<open>
  \<open>getAllNonAncestorNodes\<close> returns, newest first, the nodes that were added before the block and
  are not its ancestors, except the node at index 0; it throws nothing on a well-formed array.
\<close>

theorem getAllNonAncestorNodes_side:
  assumes "pa_wf pa"
  shows "getAllNonAncestorNodes pa r = Inr (case jm_get (pa_indices pa) r of None \<Rightarrow> []
     | Some i \<Rightarrow> map ((!) (pa_nodes pa)) (side_branches (pa_nodes pa) i))"
  using pa_wf_get [OF assms, of r] nonAncestorsFrom_ok [OF assms]
  by (auto simp: getAllNonAncestorNodes_def split: option.splits)

section \<open>Descent\<close>

lemma scanAncestors_ok:
  assumes wf: "pa_wf pa" and s: "slots_ok (pa_nodes pa)" and a: "a < length (pa_nodes pa)"
  shows "d < length (pa_nodes pa) \<Longrightarrow>
    scanAncestors (pa_nodes pa ! a) (map ((!) (pa_nodes pa)) (ancestors (pa_nodes pa) d)) None
      = Inr (anc (pa_nodes pa) a d)"
proof (induction d rule: less_induct)
  case (less d)
  let ?ns = "pa_nodes pa"
  show ?case
  proof (cases "pn_parent (?ns ! d)")
    case None
    then show ?thesis
      by (simp add: ancestors_None anc_def)
  next
    case (Some p)
    have p: "p < d" "p < length ?ns"
      using pa_wf_parent_less [OF wf less.prems Some] by auto
    have anc: "anc ?ns a d \<longleftrightarrow> a = p \<or> anc ?ns a p"
      by (rule anc_child [OF pa_wf_parents [OF wf] less.prems Some])
    have root: "pb_blockRoot (?ns ! p) = pb_blockRoot (?ns ! a) \<longleftrightarrow> p = a"
      using pa_wf_root_inj [OF wf p(2) a] by blast
    show ?thesis
      using less.IH [OF p] anc_slot [OF s, of a p]
      by (auto simp: ancestors_Some [OF pa_wf_parents [OF wf] less.prems Some] anc root)
  qed
qed

lemma isDescendant_eq:
  assumes "pa_wf pa" "slots_ok (pa_nodes pa)"
  shows "isDescendant pa ar dr = Inr (case (jm_get (pa_indices pa) ar, jm_get (pa_indices pa) dr) of
     (Some a, Some d) \<Rightarrow> a = d \<or> anc (pa_nodes pa) a d | _ \<Rightarrow> False)"
proof (cases "jm_get (pa_indices pa) ar")
  case None
  then show ?thesis by (simp add: isDescendant_def getNode_def)
next
  case (Some a)
  have a: "a < length (pa_nodes pa)"
    using pa_wf_get [OF assms(1) Some] by simp
  show ?thesis
  proof (cases "jm_get (pa_indices pa) dr")
    case None
    with Some a show ?thesis
      by (auto simp: isDescendant_def getNode_def getNodeByIndex_def iterateAncestorNodes_def)
  next
    case d: (Some d)
    have dl: "d < length (pa_nodes pa)"
      using pa_wf_get [OF assms(1) d] by simp
    have eq: "ar = dr \<longleftrightarrow> a = d"
      using pa_wf_get [OF assms(1) d] pa_wf_get [OF assms(1) Some] Some d
      by (metis option.inject)
    show ?thesis
      using Some a d dl eq scanAncestors_ok [OF assms a dl] ancestorsFrom_ok [OF assms(1) dl]
      by (simp add: isDescendant_def getNode_def getNodeByIndex_def iterateAncestorNodes_def
          iterateAncestorNodesFromNode_def)
  qed
qed

text \<open>
  When slots grow along parents, \<open>isDescendant\<close> decides whether the second root is the first
  one or one of its descendants; it is false when a root is unknown, it always returns, and the early
  exit on a smaller slot loses no answer.
\<close>

theorem isDescendant_iff:
  assumes "pa_wf pa" "slots_ok (pa_nodes pa)"
  shows "isDescendant pa ar dr = Inr (case (jm_get (pa_indices pa) ar, jm_get (pa_indices pa) dr) of
     (Some a, Some d) \<Rightarrow> a = d \<or> anc (pa_nodes pa) a d | _ \<Rightarrow> False)"
  using assms by (rule isDescendant_eq)

section \<open>The common ancestor\<close>

definition is_meet :: "proto_node list \<Rightarrow> nat \<Rightarrow> nat \<Rightarrow> nat option \<Rightarrow> bool" where
  "is_meet nodes a b r = (set (line nodes a) \<inter> set (line nodes b) =
     (case r of None \<Rightarrow> {} | Some c \<Rightarrow> set (line nodes c)))"

lemma line_slot: "slots_ok nodes \<Longrightarrow> x \<in> set (line nodes i) \<Longrightarrow> pb_slot (nodes ! x) \<le> pb_slot (nodes ! i)"
  using anc_slot by (fastforce simp: in_line)

lemma commonAncestorLoop_ok:
  assumes wf: "pa_wf pa" and s: "slots_ok (pa_nodes pa)"
  shows "a < length (pa_nodes pa) \<Longrightarrow> b < length (pa_nodes pa) \<Longrightarrow> a + b \<le> fuel \<Longrightarrow>
    \<exists>r. commonAncestorLoop fuel pa (pa_nodes pa ! a) (pa_nodes pa ! b) = Inr (map_option ((!) (pa_nodes pa)) r)
      \<and> is_meet (pa_nodes pa) a b r"
proof (induction fuel arbitrary: a b)
  case 0
  then show ?case
    by (subst commonAncestorLoop.simps) (auto simp: is_meet_def intro!: exI [of _ "Some 0"])
next
  case (Suc fuel)
  let ?ns = "pa_nodes pa"
  note par = pa_wf_parents [OF wf]
  have up: "p < i \<and> p < length ?ns" if "i < length ?ns" "pn_parent (?ns ! i) = Some p" for i p
    using pa_wf_parent_less [OF wf that] by simp
  consider (eq) "a = b" | (high) "pb_slot (?ns ! b) < pb_slot (?ns ! a)"
    | (low) "pb_slot (?ns ! a) < pb_slot (?ns ! b)"
    | (same) "pb_slot (?ns ! a) = pb_slot (?ns ! b)" "a \<noteq> b"
    by linarith
  then show ?case
  proof cases
    case eq
    then show ?thesis
      by (subst commonAncestorLoop.simps) (auto simp: is_meet_def intro!: exI [of _ "Some b"])
  next
    case high
    then have out: "a \<notin> set (line ?ns b)"
      using line_slot [OF s] by fastforce
    show ?thesis
    proof (cases "pn_parent (?ns ! a)")
      case None
      with out high show ?thesis
        by (subst commonAncestorLoop.simps) (auto simp: is_meet_def line_None intro!: exI [of _ None])
    next
      case (Some p)
      from Suc.IH [of p b] up [OF Suc.prems(1) Some] Suc.prems obtain r where
        "commonAncestorLoop fuel pa (?ns ! p) (?ns ! b) = Inr (map_option ((!) ?ns) r)" "is_meet ?ns p b r"
        by auto
      with out high Some up [OF Suc.prems(1) Some] show ?thesis
        by (subst commonAncestorLoop.simps)
          (auto simp: getNodeFromIndex_wf is_meet_def line_Some [OF par Suc.prems(1) Some] intro!: exI [of _ r])
    qed
  next
    case low
    then have out: "b \<notin> set (line ?ns a)"
      using line_slot [OF s] by fastforce
    show ?thesis
    proof (cases "pn_parent (?ns ! b)")
      case None
      with out low show ?thesis
        by (subst commonAncestorLoop.simps) (auto simp: is_meet_def line_None intro!: exI [of _ None])
    next
      case (Some p)
      from Suc.IH [of a p] up [OF Suc.prems(2) Some] Suc.prems obtain r where
        "commonAncestorLoop fuel pa (?ns ! a) (?ns ! p) = Inr (map_option ((!) ?ns) r)" "is_meet ?ns a p r"
        by auto
      with out low Some up [OF Suc.prems(2) Some] show ?thesis
        by (subst commonAncestorLoop.simps)
          (auto simp: getNodeFromIndex_wf is_meet_def line_Some [OF par Suc.prems(2) Some] intro!: exI [of _ r])
    qed
  next
    case same
    have out: "a \<notin> set (line ?ns b)" "b \<notin> set (line ?ns a)"
      using same anc_slot [OF s] by (fastforce simp: in_line)+
    have root: "pb_blockRoot (?ns ! a) \<noteq> pb_blockRoot (?ns ! b)"
      using pa_wf_root_inj [OF wf Suc.prems(1,2)] same(2) by blast
    show ?thesis
    proof (cases "pn_parent (?ns ! a) = None \<or> pn_parent (?ns ! b) = None")
      case True
      then have "is_meet ?ns a b None"
        using out by (auto simp: is_meet_def line_None)
      with True root same show ?thesis
        by (subst commonAncestorLoop.simps) (auto intro!: exI [of _ None] split: option.splits)
    next
      case False
      then obtain p q where pq: "pn_parent (?ns ! a) = Some p" "pn_parent (?ns ! b) = Some q" by auto
      note u = up [OF Suc.prems(1) pq(1)] up [OF Suc.prems(2) pq(2)]
      from Suc.IH [of p q] u Suc.prems obtain r where
        "commonAncestorLoop fuel pa (?ns ! p) (?ns ! q) = Inr (map_option ((!) ?ns) r)" "is_meet ?ns p q r"
        by auto
      with out root same pq u show ?thesis
        by (subst commonAncestorLoop.simps)
          (auto simp: getNodeFromIndex_wf is_meet_def line_Some [OF par Suc.prems(1) pq(1)]
            line_Some [OF par Suc.prems(2) pq(2)] intro!: exI [of _ r])
    qed
  qed
qed

text \<open>
  \<open>getCommonAncestor\<close> always returns when slots grow along parents, and what it returns is the
  nearest common ancestor: the blocks above (or at) both nodes are exactly those above (or at) the
  result, and there is none when it returns \<open>null\<close>.
\<close>

theorem getCommonAncestor_meet:
  assumes "pa_wf pa" "slots_ok (pa_nodes pa)" "a < length (pa_nodes pa)" "b < length (pa_nodes pa)"
  shows "\<exists>r. getCommonAncestor pa (pa_nodes pa ! a) (pa_nodes pa ! b) = Inr (map_option ((!) (pa_nodes pa)) r)
    \<and> is_meet (pa_nodes pa) a b r"
  unfolding getCommonAncestor_def
  by (rule commonAncestorLoop_ok [OF assms]) (use assms in simp)

lemma ex_array_slots: "slots_ok (pa_nodes ex_array)" "length (pa_nodes ex_array) = 4"
  by (code_simp, code_simp)

theorem getAllAncestorNodes_witness:
  "getAllAncestorNodes ex_array ''D'' = Inr (map ((!) (pa_nodes ex_array)) [3, 1, 0])"
proof -
  have "jm_get (pa_indices ex_array) ''D'' = Some 3" "line (pa_nodes ex_array) 3 = [3, 1, 0]"
    by (code_simp, code_simp)
  then show ?thesis
    using getAllAncestorNodes_line [OF ex_array_wf, of "''D''"] by simp
qed

theorem getAllNonAncestorNodes_witness:
  "getAllNonAncestorNodes ex_array ''D'' = Inr [pa_nodes ex_array ! 2]"
proof -
  have "jm_get (pa_indices ex_array) ''D'' = Some 3" "side_branches (pa_nodes ex_array) 3 = [2]"
    by (code_simp, code_simp)
  then show ?thesis
    using getAllNonAncestorNodes_side [OF ex_array_wf, of "''D''"] by simp
qed

theorem isDescendant_witness:
  "isDescendant ex_array ''B'' ''D'' = Inr True \<and> isDescendant ex_array ''C'' ''D'' = Inr False"
proof -
  have "jm_get (pa_indices ex_array) ''B'' = Some 1" "jm_get (pa_indices ex_array) ''C'' = Some 2"
    "jm_get (pa_indices ex_array) ''D'' = Some 3" by (code_simp, code_simp, code_simp)
  moreover have "anc (pa_nodes ex_array) 1 3" "\<not> anc (pa_nodes ex_array) 2 3" by (code_simp, code_simp)
  ultimately show ?thesis
    using isDescendant_iff [OF ex_array_wf ex_array_slots(1)] by simp
qed

theorem getCommonAncestor_witness:
  "\<exists>r. getCommonAncestor ex_array (pa_nodes ex_array ! 3) (pa_nodes ex_array ! 2)
      = Inr (map_option ((!) (pa_nodes ex_array)) r) \<and> is_meet (pa_nodes ex_array) 3 2 r"
  by (rule getCommonAncestor_meet [OF ex_array_wf ex_array_slots(1)]) (simp_all add: ex_array_slots)

section \<open>Adding and pruning\<close>

lemma onBlock_result:
  assumes wf: "pa_wf pa" and run: "onBlock pa b = Inr pa'"
  shows "pa_wf pa' \<and> hasBlock pa' (pb_blockRoot b) \<and>
    (if hasBlock pa (pb_blockRoot b) then pa' = pa
     else map core (pa_nodes pa') = map core (pa_nodes pa) @ [mkNode pa b])"
proof -
  from onBlock_wf [OF wf, of b] run have pa': "pa_wf pa'"
    "if jm_has (pa_indices pa) (pb_blockRoot b) then pa' = pa else same_core (pushBlock pa b) pa'" by simp_all
  have "core (mkNode pa b) = mkNode pa b"
    by (simp add: core_def mkNode_def proto_block.defs)
  moreover have "hasBlock pa' (pb_blockRoot b)"
  proof (cases "hasBlock pa (pb_blockRoot b)")
    case True
    with pa'(2) show ?thesis by (simp add: hasBlock_def)
  next
    case False
    with pa'(2) have "same_core (pushBlock pa b) pa'"
      by (simp add: hasBlock_def)
    from same_core_fields [OF this] have "pa_indices pa' = pa_indices (pushBlock pa b)" by simp
    then show ?thesis
      by (simp add: hasBlock_def jm_has_def)
  qed
  ultimately show ?thesis
    using pa' by (auto simp: hasBlock_def same_core_def)
qed

text \<open>
  \<open>onBlock\<close> on a well-formed array throws nothing and its walk to the root ends. A known block
  changes nothing; a new one is appended, linked to its parent if that is known, and the others keep
  everything but their best links, which stay consistent.
\<close>

theorem onBlock_extends:
  assumes "pa_wf pa"
  shows "\<exists>pa'. onBlock pa b = Inr pa' \<and> pa_wf pa' \<and> hasBlock pa' (pb_blockRoot b) \<and>
    (if hasBlock pa (pb_blockRoot b) then pa' = pa
     else map core (pa_nodes pa') = map core (pa_nodes pa) @ [mkNode pa b])"
proof -
  from onBlock_wf [OF assms, of b] obtain pa' where "onBlock pa b = Inr pa'" by blast
  with onBlock_result [OF assms this] show ?thesis by blast
qed

theorem onBlock_extends_witness:
  "\<exists>pa'. onBlock ex_array (ex_block 11 ''E'' ''C'') = Inr pa' \<and> pa_wf pa' \<and> hasBlock pa' ''E''
    \<and> length (pa_nodes pa') = 5"
proof -
  have "\<not> hasBlock ex_array (pb_blockRoot (ex_block 11 ''E'' ''C''))" by code_simp
  with onBlock_extends [OF ex_array_wf, of "ex_block 11 ''E'' ''C''"] obtain pa' where
    "onBlock ex_array (ex_block 11 ''E'' ''C'') = Inr pa'" "pa_wf pa'"
    "hasBlock pa' (pb_blockRoot (ex_block 11 ''E'' ''C''))"
    "map core (pa_nodes pa') = map core (pa_nodes ex_array) @ [mkNode ex_array (ex_block 11 ''E'' ''C'')]"
    by auto
  moreover from arg_cong [OF this(4), of length] have "length (pa_nodes pa') = 5"
    by (simp add: ex_array_slots)
  ultimately show ?thesis
    by (auto simp: ex_block_def)
qed

text \<open>
  Pruning at a known root throws nothing and keeps the array well-formed. It removes exactly the
  nodes stored before the root (none below the threshold), and the head found from a root that stays
  is the same as before.
\<close>

theorem maybePrune_head:
  assumes wf: "pa_wf pa" and fi: "jm_get (pa_indices pa) r = Some fi"
  shows "\<exists>pa'. maybePrune pa r = Inr (if fi < pa_pruneThreshold pa then [] else take fi (pa_nodes pa), pa') \<and>
    pa_wf pa' \<and> (\<forall>k j. jm_get (pa_indices pa) k = Some j \<longrightarrow>
      (if pa_pruneThreshold pa \<le> fi \<and> j < fi then \<not> hasBlock pa' k
       else hasBlock pa' k \<and> findHead pa' k = findHead pa k))"
proof (cases "fi < pa_pruneThreshold pa")
  case True
  then show ?thesis
    using wf fi by (intro exI [of _ pa]) (auto simp: maybePrune_def hasBlock_def jm_has_def)
next
  case False
  let ?ns = "pa_nodes pa"
  from maybePrune_ok [OF wf fi] False obtain m' where
    pr: "maybePrune pa r = Inr (take fi ?ns, pa\<lparr>pa_indices := m', pa_nodes := map (shiftNode fi) (drop fi ?ns)\<rparr>)"
    and wf': "pa_wf (pa\<lparr>pa_indices := m', pa_nodes := map (shiftNode fi) (drop fi ?ns)\<rparr>)" (is "pa_wf ?pa'")
    by auto
  have "if j < fi then \<not> hasBlock ?pa' k else hasBlock ?pa' k \<and> findHead ?pa' k = findHead pa k"
    if k: "jm_get (pa_indices pa) k = Some j" for k j
  proof -
    have j: "j < length ?ns" "pb_blockRoot (?ns ! j) = k"
      using pa_wf_get [OF wf k] by auto
    show ?thesis
    proof (cases "j < fi")
      case True
      have "jm_get m' k \<noteq> Some i" for i
      proof
        assume "jm_get m' k = Some i"
        then have i: "i + fi < length ?ns" "pb_blockRoot (?ns ! (i + fi)) = k"
          using pa_wf_get [OF wf', of k i] by (auto simp: add.commute)
        with pa_wf_root_inj [OF wf i(1) j(1)] j(2) True show False by simp
      qed
      with True show ?thesis
        by (auto simp: hasBlock_def jm_has_def)
    next
      case False
      then obtain q where q: "j = q + fi" by (metis le_add_diff_inverse2 not_less)
      have "jm_get m' (pb_blockRoot (pa_nodes ?pa' ! q)) = Some q"
        using pa_wf_index [OF wf', of q] j q by simp
      then have m'k: "jm_get m' k = Some q"
        using j q by (simp add: add.commute)
      have "findHead ?pa' k = findHead pa k"
      proof (cases "pn_bestDescendant (?ns ! j)")
        case None
        with m'k k j q show ?thesis
          by (simp add: findHead_def add.commute shiftNode_def)
      next
        case (Some d)
        from links_ok_desc [OF pa_wf_links [OF wf j(1)] Some] obtain c where c:
          "c < length ?ns" "pn_parent (?ns ! c) = Some j" "d < length ?ns" "d = c \<or> anc ?ns c d"
          by blast
        have "j < d"
          using parents_okD [OF pa_wf_parents [OF wf] c(1,2)] anc_less c(4) by fastforce
        then obtain e where e: "d = e + fi" "q < e"
          using q by (metis add_less_cancel_right le_add_diff_inverse2 less_imp_le_nat not_less trans_less_add2 False)
        have "nodeIsViableForHead ?pa' (shiftNode fi n) = nodeIsViableForHead pa n" for n
          by (simp add: nodeIsViableForHead_def)
        with m'k k j q c e Some show ?thesis
          by (simp add: findHead_def add.commute shiftNode_def nodeIsViableForHead_def Let_def)
      qed
      with False m'k show ?thesis
        by (simp add: hasBlock_def jm_has_def)
    qed
  qed
  with pr wf' False show ?thesis by auto
qed

theorem maybePrune_head_witness:
  "\<exists>pa'. maybePrune ex_scored ''B'' = Inr (take 1 (pa_nodes ex_scored), pa') \<and> pa_wf pa' \<and>
     findHead pa' ''B'' = findHead ex_scored ''B''"
proof -
  have wf: "pa_wf ex_scored"
  proof -
    have "length [0, 5, 7, 3 :: int] = length (pa_nodes ex_array)" by code_simp
    from applyScoreChanges_wf [OF ex_array_wf this, where boost = None and jE = 1 and jR = "''A''" and fE = 0 and fR = "''A''"]
    show ?thesis using ex_scored by auto
  qed
  have B: "jm_get (pa_indices ex_scored) ''B'' = Some 1" "pa_pruneThreshold ex_scored = 0"
    by (code_simp, code_simp)
  from maybePrune_head [OF wf B(1)] B show ?thesis by fastforce
qed

end
