(* ===== verification/Params.thy ===== *)
theory Params
  imports ProtoArray Complex_Main
begin

text \<open>
  The constants of the mainnet preset (\<open>packages/params/src/presets/mainnet\<close>,
  \<open>packages/params/src/index.ts\<close>) and the slot and epoch arithmetic of
  \<open>packages/beacon-state-transition/src/util\<close> (\<open>epoch.ts\<close>, \<open>slot.ts\<close>), which every component
  shares. Slots and epochs are natural numbers, so \<open>Math.floor\<close> of a quotient is \<open>div\<close>.
\<close>

definition SLOTS_PER_EPOCH :: nat where
  "SLOTS_PER_EPOCH = 32"

definition SAFE_SLOTS_TO_UPDATE_JUSTIFIED :: nat where
  "SAFE_SLOTS_TO_UPDATE_JUSTIFIED = 8"

definition SLOTS_PER_HISTORICAL_ROOT :: nat where
  "SLOTS_PER_HISTORICAL_ROOT = 8192"

definition MAX_SEED_LOOKAHEAD :: nat where
  "MAX_SEED_LOOKAHEAD = 4"

definition EPOCHS_PER_SYNC_COMMITTEE_PERIOD :: nat where
  "EPOCHS_PER_SYNC_COMMITTEE_PERIOD = 256"

definition GENESIS_EPOCH :: epoch where
  "GENESIS_EPOCH = 0"

definition INTERVALS_PER_SLOT :: nat where
  "INTERVALS_PER_SLOT = 3"

definition MAX_SAFE_INTEGER :: nat where
  "MAX_SAFE_INTEGER = 9007199254740991"

definition computeEpochAtSlot :: "slot \<Rightarrow> epoch" where
  "computeEpochAtSlot s = s div SLOTS_PER_EPOCH"

definition computeStartSlotAtEpoch :: "epoch \<Rightarrow> slot" where
  "computeStartSlotAtEpoch e = e * SLOTS_PER_EPOCH"

definition computeActivationExitEpoch :: "epoch \<Rightarrow> epoch" where
  "computeActivationExitEpoch e = e + 1 + MAX_SEED_LOOKAHEAD"

text \<open>\<open>getCurrentEpoch\<close> and \<open>getPreviousEpoch\<close> read only the slot of the state.\<close>

definition getCurrentEpoch :: "slot \<Rightarrow> epoch" where
  "getCurrentEpoch stateSlot = computeEpochAtSlot stateSlot"

definition getPreviousEpoch :: "slot \<Rightarrow> epoch" where
  "getPreviousEpoch stateSlot =
     (if getCurrentEpoch stateSlot = GENESIS_EPOCH then GENESIS_EPOCH else getCurrentEpoch stateSlot - 1)"

definition computeSyncPeriodAtEpoch :: "epoch \<Rightarrow> nat" where
  "computeSyncPeriodAtEpoch e = e div EPOCHS_PER_SYNC_COMMITTEE_PERIOD"

definition computeSyncPeriodAtSlot :: "slot \<Rightarrow> nat" where
  "computeSyncPeriodAtSlot s = computeSyncPeriodAtEpoch (computeEpochAtSlot s)"

text \<open>The result may be negative when an epoch is given.\<close>

definition computeSlotsSinceEpochStart :: "slot \<Rightarrow> epoch option \<Rightarrow> int" where
  "computeSlotsSinceEpochStart s e =
     int s - int (computeStartSlotAtEpoch (case e of None \<Rightarrow> computeEpochAtSlot s | Some x \<Rightarrow> x))"

definition computeTimeAtSlot :: "nat \<Rightarrow> slot \<Rightarrow> nat \<Rightarrow> nat" where
  "computeTimeAtSlot secondsPerSlot s genesisTime = genesisTime + s * secondsPerSlot"

text \<open>
  \<open>None\<close> is the value that is not a number (or infinite) when a slot is shorter than
  \<open>INTERVALS_PER_SLOT\<close> seconds. The seconds into the slot are a fraction.
\<close>

definition getCurrentInterval :: "nat \<Rightarrow> rat \<Rightarrow> int option" where
  "getCurrentInterval secondsPerSlot secondsIntoSlot =
     (let timePerInterval = secondsPerSlot div INTERVALS_PER_SLOT
      in if timePerInterval = 0 then None else Some \<lfloor>secondsIntoSlot / of_nat timePerInterval\<rfloor>)"

lemma computeEpochAtSlot_start [simp]: "computeEpochAtSlot (computeStartSlotAtEpoch e) = e"
  by (simp add: computeEpochAtSlot_def computeStartSlotAtEpoch_def SLOTS_PER_EPOCH_def)

lemma computeStartSlot_le: "computeStartSlotAtEpoch (computeEpochAtSlot s) \<le> s"
  by (simp add: computeEpochAtSlot_def computeStartSlotAtEpoch_def)

lemma computeEpochAtSlot_mono: "s \<le> t \<Longrightarrow> computeEpochAtSlot s \<le> computeEpochAtSlot t"
  by (simp add: computeEpochAtSlot_def div_le_mono)

lemma computeStartSlot_mono: "e \<le> f \<Longrightarrow> computeStartSlotAtEpoch e \<le> computeStartSlotAtEpoch f"
  by (simp add: computeStartSlotAtEpoch_def)

lemma computeSlotsSinceEpochStart_mod: "computeSlotsSinceEpochStart s None = int (s mod SLOTS_PER_EPOCH)"
  by (simp add: computeSlotsSinceEpochStart_def computeStartSlotAtEpoch_def computeEpochAtSlot_def
      minus_div_mult_eq_mod [symmetric] of_nat_diff)

end
