(* ===== verification/ForkChoice.thy ===== *)
theory ForkChoice
  imports ComputeDeltas ProtoArrayWalk Params
begin

text \<open>
  \<open>packages/fork-choice/src/forkChoice\<close>: the data of \<open>store.ts\<close>, \<open>interface.ts\<close> and \<open>errors.ts\<close>,
  and every method of the class \<open>ForkChoice\<close> (\<open>forkChoice.ts\<close>) in the file's order.

  Byte arrays are represented by their hex strings, so \<open>toHexString\<close> is the identity. A method
  that changes the object is a state transformer with errors (\<open>st\<close> of the prelude): the state it
  returns with an exception has the changes made before the throw. One part of that state is not
  followed: where a method of \<open>ProtoArray\<close> throws half way, the array is given back as it was
  before the call; on well-formed arrays these methods do not throw (theory \<open>ProtoArrayWf\<close>). The
  hashing of blocks and the default values of two SSZ types are parameters (\<open>ssz_env\<close>). Metrics
  are left out.
\<close>

section \<open>Data\<close>

record checkpoint =
  cp_epoch :: epoch
  cp_root :: root_hex

definition equalCheckpointWithHex :: "checkpoint \<Rightarrow> checkpoint \<Rightarrow> bool" where
  "equalCheckpointWithHex a b = (cp_epoch a = cp_epoch b \<and> cp_root a = cp_root b)"

datatype fc_event = OnJustified checkpoint | OnFinalized checkpoint

record fc_store =
  st_currentSlot :: slot
  st_justifiedCheckpoint :: checkpoint
  st_finalizedCheckpoint :: checkpoint
  st_bestJustifiedCheckpoint :: checkpoint
  st_events :: "fc_event list"

definition new_ForkChoiceStore :: "slot \<Rightarrow> checkpoint \<Rightarrow> checkpoint \<Rightarrow> fc_store" where
  "new_ForkChoiceStore s j f =
     \<lparr>st_currentSlot = s, st_justifiedCheckpoint = j, st_finalizedCheckpoint = f,
      st_bestJustifiedCheckpoint = j, st_events = []\<rparr>"

text \<open>The setters notify the listener.\<close>

definition set_justifiedCheckpoint :: "checkpoint \<Rightarrow> fc_store \<Rightarrow> fc_store" where
  "set_justifiedCheckpoint cp st =
     st\<lparr>st_justifiedCheckpoint := cp, st_events := st_events st @ [OnJustified cp]\<rparr>"

definition set_finalizedCheckpoint :: "checkpoint \<Rightarrow> fc_store \<Rightarrow> fc_store" where
  "set_finalizedCheckpoint cp st =
     st\<lparr>st_finalizedCheckpoint := cp, st_events := st_events st @ [OnFinalized cp]\<rparr>"

datatype invalid_block =
    UNKNOWN_PARENT root_hex
  | BLOCK_FUTURE_SLOT slot slot
  | FINALIZED_SLOT slot slot
  | NOT_FINALIZED_DESCENDANT root_hex root_hex

datatype invalid_attestation =
    EMPTY_AGGREGATION_BITFIELD
  | UNKNOWN_HEAD_BLOCK root_hex
  | BAD_TARGET_EPOCH epoch slot
  | UNKNOWN_TARGET_ROOT root_hex
  | FUTURE_EPOCH epoch epoch
  | PAST_EPOCH epoch epoch
  | INVALID_TARGET root_hex root_hex
  | ATTESTS_TO_FUTURE_BLOCK slot slot
  | ATTESTATION_FUTURE_SLOT slot slot

text \<open>
  \<open>PROTO_ARRAY\<close> is a \<open>ProtoArrayError\<close> that passes through, \<open>ERROR\<close> a plain \<open>Error\<close>;
  \<open>SCORE_NOT_A_NUMBER\<close> does not exist in the source: it stands for the \<open>NaN\<close> boost that the code
  computes when no validator has a balance.
\<close>

datatype fc_error =
    INVALID_ATTESTATION invalid_attestation
  | INVALID_BLOCK invalid_block
  | PROTO_ARRAY_ERROR string
  | INVALID_PROTO_ARRAY_BYTES string
  | MISSING_PROTO_ARRAY_BLOCK root_hex
  | UNKNOWN_ANCESTOR slot root_hex
  | INCONSISTENT_ON_TICK slot slot
  | BEACON_STATE_ERROR string
  | ATTEMPT_TO_REVERT_JUSTIFICATION slot slot
  | FORK_CHOICE_STORE_ERROR string
  | UNABLE_TO_SET_JUSTIFIED_CHECKPOINT string
  | AFTER_BLOCK_FAILED string
  | PROTO_ARRAY proto_array_error
  | ERROR string
  | SCORE_NOT_A_NUMBER

record queued_attestation =
  qa_slot :: slot
  qa_attestingIndices :: "nat list"
  qa_blockRoot :: root_hex
  qa_targetEpoch :: epoch

record latest_message =
  lm_epoch :: epoch
  lm_root :: root_hex

record pow_block_hex =
  pow_blockhash :: root_hex
  pow_parentHash :: root_hex
  pow_totalDifficulty :: nat

record precached_data =
  pc_justifiedBalances :: "nat list option"
  pc_blockDelaySec :: "rat option"
  pc_powBlock :: "pow_block_hex option"
  pc_powBlockParent :: "pow_block_hex option"
  pc_isMergeTransitionBlock :: bool
  pc_executionStatus :: "execution_status option"

text \<open>An absent \<open>preCachedData\<close> reads like one with no field set.\<close>

definition no_data :: precached_data where
  "no_data = \<lparr>pc_justifiedBalances = None, pc_blockDelaySec = None, pc_powBlock = None,
     pc_powBlockParent = None, pc_isMergeTransitionBlock = False, pc_executionStatus = None\<rparr>"

record chain_config =
  PROPOSER_SCORE_BOOST :: nat
  SECONDS_PER_SLOT :: nat
  TERMINAL_BLOCK_HASH :: root_hex
  TERMINAL_BLOCK_HASH_ACTIVATION_EPOCH :: epoch
  TERMINAL_TOTAL_DIFFICULTY :: nat

text \<open>
  The parts of a block, of the state after it and of an attestation that the fork choice reads. The
  payload and the payload header are absent before bellatrix; what the code does not look into is
  one string.
\<close>

record execution_payload =
  ep_parentHash :: root_hex
  ep_blockHash :: root_hex
  ep_rest :: string

record beacon_block =
  bb_slot :: slot
  bb_parentRoot :: root_hex
  bb_stateRoot :: root_hex
  bb_executionPayload :: "execution_payload option"
  bb_rest :: string

record beacon_state =
  bs_slot :: slot
  bs_genesisTime :: nat
  bs_currentJustifiedCheckpoint :: checkpoint
  bs_finalizedCheckpoint :: checkpoint
  bs_blockRoots :: "root_hex list"
  bs_latestExecutionPayloadHeader :: "string option"

record indexed_attestation =
  ia_attestingIndices :: "nat list"
  ia_slot :: slot
  ia_beaconBlockRoot :: root_hex
  ia_targetEpoch :: epoch
  ia_targetRoot :: root_hex
  ia_treeRoot :: "root_hex option"

record ssz_env =
  env_hashTreeRoot :: "beacon_block \<Rightarrow> root_hex"
  env_defaultPayload :: execution_payload
  env_defaultPayloadHeader :: string

record fork_choice =
  fc_votes :: "vote_tracker option list"
  fc_queuedAttestations :: "queued_attestation list"
  fc_bestJustifiedBalances :: "nat list"
  fc_synced :: bool
  fc_head :: proto_block
  fc_validatedAttestationDatas :: "root_hex list"
  fc_proposerBoostRoot :: "root_hex option"
  fc_justifiedProposerBoostScore :: "nat option"
  fc_fcStore :: fc_store
  fc_protoArray :: proto_array
  fc_justifiedBalances :: "nat list"
  fc_proposerBoostEnabled :: bool

type_synonym 'a fc_st = "(fork_choice, fc_error, 'a) st"

definition lift_pa :: "'a pa_result \<Rightarrow> fc_error + 'a" where
  "lift_pa r = (case r of Inl e \<Rightarrow> Inl (PROTO_ARRAY e) | Inr x \<Rightarrow> Inr x)"

section \<open>Bellatrix helpers\<close>

text \<open>\<open>packages/beacon-state-transition/src/bellatrix/utils.ts\<close>\<close>

definition isMergeTransitionComplete :: "ssz_env \<Rightarrow> string \<Rightarrow> bool" where
  "isMergeTransitionComplete env header = (header \<noteq> env_defaultPayloadHeader env)"

definition isExecutionEnabled :: "ssz_env \<Rightarrow> string \<Rightarrow> execution_payload \<Rightarrow> bool" where
  "isExecutionEnabled env header payload =
     (isMergeTransitionComplete env header \<or> payload \<noteq> env_defaultPayload env)"

definition isMergeTransitionBlock :: "ssz_env \<Rightarrow> string \<Rightarrow> execution_payload \<Rightarrow> bool" where
  "isMergeTransitionBlock env header payload =
     (\<not> isMergeTransitionComplete env header \<and> payload \<noteq> env_defaultPayload env)"

section \<open>The proposer boost\<close>

text \<open>\<open>None\<close> is \<open>NaN\<close>: there is no active validator to average over.\<close>

definition computeProposerBoostScore :: "nat \<Rightarrow> nat \<Rightarrow> nat \<Rightarrow> nat \<Rightarrow> nat option" where
  "computeProposerBoostScore balance validators slotsPerEpoch scoreBoost =
     (if validators = 0 then None
      else
        (let avgBalanceByIncrement = balance div validators;
             committeeSize = validators div slotsPerEpoch;
             committeeWeight = committeeSize * avgBalanceByIncrement
         in Some (committeeWeight * scoreBoost div 100)))"

definition computeProposerBoostScoreFromBalances :: "nat list \<Rightarrow> nat \<Rightarrow> nat \<Rightarrow> nat option" where
  "computeProposerBoostScoreFromBalances balances slotsPerEpoch scoreBoost =
     (let active = filter (\<lambda>b. 0 < b) balances
      in computeProposerBoostScore (sum_list active) (length active) slotsPerEpoch scoreBoost)"

section \<open>Ancestors\<close>

text \<open>The loop of \<open>getAncestor\<close> over the generator; \<open>Inr None\<close> when no ancestor is old enough.\<close>

fun firstAtOrBelow :: "slot \<Rightarrow> proto_node list \<Rightarrow> proto_array_error option \<Rightarrow> root_hex option pa_result" where
  "firstAtOrBelow s [] None = Inr None"
| "firstAtOrBelow s [] (Some e) = Inl e"
| "firstAtOrBelow s (n # ns) e =
     (if pb_slot n \<le> s then Inr (Some (pb_blockRoot n)) else firstAtOrBelow s ns e)"

definition getAncestor :: "proto_array \<Rightarrow> root_hex \<Rightarrow> slot \<Rightarrow> fc_error + root_hex" where
  "getAncestor pa r ancestorSlot =
     (case getBlock pa r of
        None \<Rightarrow> Inl (MISSING_PROTO_ARRAY_BLOCK r)
      | Some block \<Rightarrow>
          if ancestorSlot < pb_slot block then
            (case iterateAncestorNodes pa r of (ns, e) \<Rightarrow>
               (case firstAtOrBelow ancestorSlot ns e of
                  Inl e' \<Rightarrow> Inl (PROTO_ARRAY e')
                | Inr (Some a) \<Rightarrow> Inr a
                | Inr None \<Rightarrow> Inl (UNKNOWN_ANCESTOR ancestorSlot r)))
          else Inr r)"

section \<open>The head\<close>

definition getHead :: "fork_choice \<Rightarrow> proto_block" where
  "getHead s = fc_head s"

definition getHeadRoot :: "fork_choice \<Rightarrow> root_hex" where
  "getHeadRoot s = pb_blockRoot (getHead s)"

definition getProposerBoostRoot :: "fork_choice \<Rightarrow> root_hex" where
  "getProposerBoostRoot s = (case fc_proposerBoostRoot s of None \<Rightarrow> HEX_ZERO_HASH | Some r \<Rightarrow> r)"

text \<open>The boost of this round; it stores the score it computes.\<close>

definition currentBoost :: "chain_config \<Rightarrow> proposer_boost option fc_st" where
  "currentBoost cfg s =
     (case (if fc_proposerBoostEnabled s then fc_proposerBoostRoot s else None) of
        None \<Rightarrow> (Inr None, s)
      | Some r \<Rightarrow>
          (case (case fc_justifiedProposerBoostScore s of
                   Some score \<Rightarrow> Some score
                 | None \<Rightarrow> computeProposerBoostScoreFromBalances (fc_justifiedBalances s)
                            SLOTS_PER_EPOCH (PROPOSER_SCORE_BOOST cfg)) of
             None \<Rightarrow> (Inl SCORE_NOT_A_NUMBER, s)
           | Some score \<Rightarrow>
               (Inr (Some \<lparr>boost_root = r, boost_score = int score\<rparr>),
                s\<lparr>fc_justifiedProposerBoostScore := Some score\<rparr>)))"

definition syncScores :: "chain_config \<Rightarrow> unit fc_st" where
  "syncScores cfg s =
     (case computeDeltas (pa_indices (fc_protoArray s)) (fc_votes s)
             (fc_justifiedBalances s) (fc_justifiedBalances s) of
        (Inl e, votes) \<Rightarrow> (Inl (PROTO_ARRAY e), s\<lparr>fc_votes := votes\<rparr>)
      | (Inr deltas, votes) \<Rightarrow>
          bind_st (currentBoost cfg) (\<lambda>boost s1.
            (case applyScoreChanges (fc_protoArray s1) deltas boost
                    (cp_epoch (st_justifiedCheckpoint (fc_fcStore s1)))
                    (cp_root (st_justifiedCheckpoint (fc_fcStore s1)))
                    (cp_epoch (st_finalizedCheckpoint (fc_fcStore s1)))
                    (cp_root (st_finalizedCheckpoint (fc_fcStore s1))) of
               Inl e \<Rightarrow> (Inl (PROTO_ARRAY e), s1)
             | Inr pa \<Rightarrow> (Inr (), s1\<lparr>fc_protoArray := pa, fc_synced := True\<rparr>)))
            (s\<lparr>fc_votes := votes\<rparr>))"

definition setHead :: "proto_block fc_st" where
  "setHead s =
     (case findHead (fc_protoArray s) (cp_root (st_justifiedCheckpoint (fc_fcStore s))) of
        Inl e \<Rightarrow> (Inl (PROTO_ARRAY e), s)
      | Inr headRoot \<Rightarrow>
          (case getNode (fc_protoArray s) headRoot of
             None \<Rightarrow> (Inl (MISSING_PROTO_ARRAY_BLOCK headRoot), s)
           | Some n \<Rightarrow> (Inr (proto_block.truncate n), s\<lparr>fc_head := proto_block.truncate n\<rparr>)))"

definition updateHead :: "chain_config \<Rightarrow> proto_block fc_st" where
  "updateHead cfg s =
     bind_st (if fc_synced s then ret_st () else syncScores cfg) (\<lambda>_. setHead) s"

text \<open>The constructor computes the head; the field is not set before, its first value is immaterial.\<close>

definition new_ForkChoice ::
  "chain_config \<Rightarrow> fc_store \<Rightarrow> proto_array \<Rightarrow> nat list \<Rightarrow> bool \<Rightarrow> proto_block \<Rightarrow> (fc_error + proto_block) \<times> fork_choice"
where
  "new_ForkChoice cfg store pa balances boostEnabled unset =
     updateHead cfg
       \<lparr>fc_votes = [], fc_queuedAttestations = [], fc_bestJustifiedBalances = balances,
        fc_synced = False, fc_head = unset, fc_validatedAttestationDatas = [],
        fc_proposerBoostRoot = None, fc_justifiedProposerBoostScore = None, fc_fcStore = store,
        fc_protoArray = pa, fc_justifiedBalances = balances, fc_proposerBoostEnabled = boostEnabled\<rparr>"

definition getHeads :: "fork_choice \<Rightarrow> proto_node list" where
  "getHeads s = filter (\<lambda>n. pn_bestChild n = None) (pa_nodes (fc_protoArray s))"

section \<open>Adding a block\<close>

definition updateJustified :: "checkpoint \<Rightarrow> nat list \<Rightarrow> fork_choice \<Rightarrow> fork_choice" where
  "updateJustified cp balances s =
     s\<lparr>fc_synced := False, fc_justifiedBalances := balances, fc_justifiedProposerBoostScore := None,
       fc_fcStore := set_justifiedCheckpoint cp (fc_fcStore s)\<rparr>"

definition updateBestJustified :: "checkpoint \<Rightarrow> nat list \<Rightarrow> fork_choice \<Rightarrow> fork_choice" where
  "updateBestJustified cp balances s =
     s\<lparr>fc_bestJustifiedBalances := balances,
       fc_fcStore := (fc_fcStore s)\<lparr>st_bestJustifiedCheckpoint := cp\<rparr>\<rparr>"

definition shouldUpdateJustifiedCheckpoint :: "fork_choice \<Rightarrow> beacon_state \<Rightarrow> fc_error + bool" where
  "shouldUpdateJustifiedCheckpoint s state =
     (let store = fc_fcStore s;
          justifiedSlot = computeStartSlotAtEpoch (cp_epoch (st_justifiedCheckpoint store))
      in if computeSlotsSinceEpochStart (st_currentSlot store) None < int SAFE_SLOTS_TO_UPDATE_JUSTIFIED
         then Inr True
         else if bs_slot state \<le> justifiedSlot
         then Inl (ATTEMPT_TO_REVERT_JUSTIFICATION justifiedSlot (bs_slot state))
         else if computeEpochAtSlot (bs_slot state) < computeEpochAtSlot (st_currentSlot store)
         then Inr True
         else bind_res (getAncestor (fc_protoArray s) (cp_root (bs_currentJustifiedCheckpoint state)) justifiedSlot)
                (\<lambda>justifiedAncestor. Inr (justifiedAncestor = cp_root (st_justifiedCheckpoint store))))"

definition getPreMergeExecStatus :: "precached_data \<Rightarrow> fc_error + execution_status" where
  "getPreMergeExecStatus pc =
     (let status = (case pc_executionStatus pc of None \<Rightarrow> PreMerge | Some x \<Rightarrow> x)
      in if status \<noteq> PreMerge then Inl (ERROR ''Invalid pre-merge execution status'') else Inr status)"

definition getPostMergeExecStatus :: "precached_data \<Rightarrow> fc_error + execution_status" where
  "getPostMergeExecStatus pc =
     (let status = (case pc_executionStatus pc of None \<Rightarrow> Syncing | Some x \<Rightarrow> x)
      in if status = PreMerge then Inl (ERROR ''Invalid post-merge execution status'') else Inr status)"

text \<open>
  \<open>assertValidTerminalPowBlock\<close>. The block is known to be a bellatrix block; without a payload the
  property read throws a \<open>TypeError\<close>.
\<close>

definition assertValidTerminalPowBlock :: "chain_config \<Rightarrow> beacon_block \<Rightarrow> precached_data \<Rightarrow> fc_error + unit" where
  "assertValidTerminalPowBlock cfg block pc =
     (if TERMINAL_BLOCK_HASH cfg \<noteq> HEX_ZERO_HASH then
        (if computeEpochAtSlot (bb_slot block) < TERMINAL_BLOCK_HASH_ACTIVATION_EPOCH cfg
         then Inl (ERROR ''Terminal block activation epoch not reached'')
         else
           (case bb_executionPayload block of
              None \<Rightarrow> Inl (ERROR ''TypeError'')
            | Some payload \<Rightarrow>
                if ep_parentHash payload \<noteq> TERMINAL_BLOCK_HASH cfg
                then Inl (ERROR ''Invalid terminal block hash'') else Inr ()))
      else if pc_executionStatus pc = Some Syncing then Inr ()
      else
        (case pc_powBlock pc of
           None \<Rightarrow> Inl (ERROR ''onBlock preCachedData must include powBlock'')
         | Some powBlock \<Rightarrow>
             (case pc_powBlockParent pc of
                None \<Rightarrow> Inl (ERROR ''onBlock preCachedData must include powBlock'')
              | Some powBlockParent \<Rightarrow>
                  if \<not> (TERMINAL_TOTAL_DIFFICULTY cfg \<le> pow_totalDifficulty powBlock)
                     \<or> \<not> (pow_totalDifficulty powBlockParent < TERMINAL_TOTAL_DIFFICULTY cfg)
                  then Inl (ERROR ''Invalid terminal POW block'') else Inr ())))"

text \<open>The guards of \<open>onBlock\<close>, in their order. They change nothing.\<close>

definition checkBlock :: "ssz_env \<Rightarrow> chain_config \<Rightarrow> beacon_block \<Rightarrow> beacon_state \<Rightarrow> precached_data
    \<Rightarrow> fork_choice \<Rightarrow> fc_error + unit" where
  "checkBlock env cfg block state pc s =
     (let store = fc_fcStore s; pa = fc_protoArray s;
          finalizedSlot = computeStartSlotAtEpoch (cp_epoch (st_finalizedCheckpoint store));
          finalizedRoot = cp_root (st_finalizedCheckpoint store)
      in if \<not> hasBlock pa (bb_parentRoot block)
         then Inl (INVALID_BLOCK (UNKNOWN_PARENT (bb_parentRoot block)))
         else if st_currentSlot store < bb_slot block
         then Inl (INVALID_BLOCK (BLOCK_FUTURE_SLOT (st_currentSlot store) (bb_slot block)))
         else if bb_slot block \<le> finalizedSlot
         then Inl (INVALID_BLOCK (FINALIZED_SLOT finalizedSlot (bb_slot block)))
         else bind_res (getAncestor pa (bb_parentRoot block) finalizedSlot) (\<lambda>blockAncestorRoot.
           if blockAncestorRoot \<noteq> finalizedRoot
           then Inl (INVALID_BLOCK (NOT_FINALIZED_DESCENDANT finalizedRoot blockAncestorRoot))
           else if pc_isMergeTransitionBlock pc
                  \<or> (case (bs_latestExecutionPayloadHeader state, bb_executionPayload block) of
                       (Some header, Some payload) \<Rightarrow> isMergeTransitionBlock env header payload
                     | _ \<Rightarrow> False)
           then assertValidTerminalPowBlock cfg block pc
           else Inr ()))"

definition justify :: "checkpoint \<Rightarrow> precached_data \<Rightarrow> unit fc_st" where
  "justify cp pc =
     (case pc_justifiedBalances pc of
        None \<Rightarrow> throw_st (UNABLE_TO_SET_JUSTIFIED_CHECKPOINT ''No validator balances supplied'')
      | Some balances \<Rightarrow> modify_st (updateJustified cp balances))"

text \<open>
  The update of the justified and the finalized checkpoint. The first half decides whether the
  justified checkpoint is to be set, after having updated the best one.
\<close>

definition considerJustified :: "beacon_state \<Rightarrow> precached_data \<Rightarrow> bool fc_st" where
  "considerJustified state pc s =
     (let cp = bs_currentJustifiedCheckpoint state
      in if cp_epoch (st_justifiedCheckpoint (fc_fcStore s)) < cp_epoch cp then
           (case pc_justifiedBalances pc of
              None \<Rightarrow> (Inl (UNABLE_TO_SET_JUSTIFIED_CHECKPOINT ''No validator balances supplied''), s)
            | Some balances \<Rightarrow>
                (let s1 = (if cp_epoch (st_bestJustifiedCheckpoint (fc_fcStore s)) < cp_epoch cp
                           then updateBestJustified cp balances s else s)
                 in (shouldUpdateJustifiedCheckpoint s1 state, s1)))
         else (Inr False, s))"

definition updateCheckpoints :: "beacon_state \<Rightarrow> precached_data \<Rightarrow> unit fc_st" where
  "updateCheckpoints state pc =
     bind_st (considerJustified state pc) (\<lambda>shouldUpdate s.
       if cp_epoch (st_finalizedCheckpoint (fc_fcStore s)) < cp_epoch (bs_finalizedCheckpoint state)
       then justify (bs_currentJustifiedCheckpoint state) pc
              (s\<lparr>fc_fcStore := set_finalizedCheckpoint (bs_finalizedCheckpoint state) (fc_fcStore s),
                 fc_synced := False\<rparr>)
       else if shouldUpdate then justify (bs_currentJustifiedCheckpoint state) pc s
       else (Inr (), s))"

definition boostTimelyBlock :: "chain_config \<Rightarrow> beacon_block \<Rightarrow> precached_data \<Rightarrow> root_hex \<Rightarrow> unit fc_st" where
  "boostTimelyBlock cfg block pc blockRoot s =
     (if fc_proposerBoostEnabled s \<and> bb_slot block = st_currentSlot (fc_fcStore s) then
        (case pc_blockDelaySec pc of
           None \<Rightarrow> (Inl (ERROR ''Missing blockDelaySec info for proposerBoost''), s)
         | Some delay \<Rightarrow>
             (case getCurrentInterval (SECONDS_PER_SLOT cfg) delay of
                None \<Rightarrow> (Inr (), s)
              | Some interval \<Rightarrow>
                  (Inr (), if interval < 1
                           then s\<lparr>fc_proposerBoostRoot := Some blockRoot, fc_synced := False\<rparr> else s)))
      else (Inr (), s))"

text \<open>
  The block for the proto array: \<open>targetRoot\<close> is the block itself at an epoch start; a state with
  too few block roots makes \<open>toHexString\<close> throw.
\<close>

definition protoBlock :: "ssz_env \<Rightarrow> beacon_block \<Rightarrow> beacon_state \<Rightarrow> precached_data \<Rightarrow> fc_error + proto_block" where
  "protoBlock env block state pc =
     (let blockRoot = env_hashTreeRoot env block;
          targetSlot = computeStartSlotAtEpoch (computeEpochAtSlot (bb_slot block))
      in case (if bb_slot block = targetSlot then Some blockRoot
               else nth_opt (bs_blockRoots state) (targetSlot mod SLOTS_PER_HISTORICAL_ROOT)) of
           None \<Rightarrow> Inl (ERROR ''TypeError'')
         | Some targetRoot \<Rightarrow>
             bind_res
               (case (bb_executionPayload block, bs_latestExecutionPayloadHeader state) of
                  (Some payload, Some header) \<Rightarrow>
                    if isExecutionEnabled env header payload
                    then bind_res (getPostMergeExecStatus pc) (\<lambda>st. Inr (Some (ep_blockHash payload), st))
                    else bind_res (getPreMergeExecStatus pc) (\<lambda>st. Inr (None, st))
                | _ \<Rightarrow> bind_res (getPreMergeExecStatus pc) (\<lambda>st. Inr (None, st)))
               (\<lambda>(hash, status). Inr
                  \<lparr>pb_slot = bb_slot block, pb_blockRoot = blockRoot, pb_parentRoot = bb_parentRoot block,
                   pb_stateRoot = bb_stateRoot block, pb_targetRoot = targetRoot,
                   pb_justifiedEpoch = cp_epoch (bs_currentJustifiedCheckpoint state),
                   pb_justifiedRoot = cp_root (bs_currentJustifiedCheckpoint state),
                   pb_finalizedEpoch = cp_epoch (bs_finalizedCheckpoint state),
                   pb_finalizedRoot = cp_root (bs_finalizedCheckpoint state),
                   pb_executionPayloadBlockHash = hash, pb_executionStatus = status\<rparr>))"

definition addToArray :: "ssz_env \<Rightarrow> beacon_block \<Rightarrow> beacon_state \<Rightarrow> precached_data \<Rightarrow> unit fc_st" where
  "addToArray env block state pc s =
     (case bind_res (protoBlock env block state pc) (\<lambda>b. lift_pa (onBlock (fc_protoArray s) b)) of
        Inl e \<Rightarrow> (Inl e, s)
      | Inr pa \<Rightarrow> (Inr (), s\<lparr>fc_protoArray := pa\<rparr>))"

definition fc_onBlock :: "ssz_env \<Rightarrow> chain_config \<Rightarrow> beacon_block \<Rightarrow> beacon_state \<Rightarrow> precached_data \<Rightarrow> unit fc_st" where
  "fc_onBlock env cfg block state pc =
     bind_st (lift_st (checkBlock env cfg block state pc)) (\<lambda>_.
     bind_st (updateCheckpoints state pc) (\<lambda>_.
     bind_st (boostTimelyBlock cfg block pc (env_hashTreeRoot env block)) (\<lambda>_.
       addToArray env block state pc)))"

section \<open>Attestations\<close>

text \<open>\<open>votes[i] = v\<close> on a sparse array: a write past the end leaves holes.\<close>

definition setVote :: "nat \<Rightarrow> vote_tracker \<Rightarrow> vote_tracker option list \<Rightarrow> vote_tracker option list" where
  "setVote i v votes =
     (if i < length votes then votes[i := Some v]
      else votes @ replicate (i - length votes) None @ [Some v])"

definition voteAt :: "vote_tracker option list \<Rightarrow> nat \<Rightarrow> vote_tracker option" where
  "voteAt votes i = (case nth_opt votes i of None \<Rightarrow> None | Some v \<Rightarrow> v)"

definition addVote :: "epoch \<Rightarrow> root_hex \<Rightarrow> nat \<Rightarrow> vote_tracker option list \<Rightarrow> vote_tracker option list" where
  "addVote e r i votes =
     (case voteAt votes i of
        None \<Rightarrow> setVote i \<lparr>currentRoot = HEX_ZERO_HASH, nextRoot = r, nextEpoch = e\<rparr> votes
      | Some v \<Rightarrow>
          if nextEpoch v < e then setVote i (v\<lparr>nextRoot := r, nextEpoch := e\<rparr>) votes else votes)"

definition addLatestMessage :: "epoch \<Rightarrow> root_hex \<Rightarrow> nat \<Rightarrow> fork_choice \<Rightarrow> fork_choice" where
  "addLatestMessage e r i s = s\<lparr>fc_synced := False, fc_votes := addVote e r i (fc_votes s)\<rparr>"

definition validateAttestationData :: "indexed_attestation \<Rightarrow> unit fc_st" where
  "validateAttestationData a s =
     (let pa = fc_protoArray s;
          epochNow = computeEpochAtSlot (st_currentSlot (fc_fcStore s));
          targetEpoch = ia_targetEpoch a; sl = ia_slot a
      in if epochNow < targetEpoch
         then (Inl (INVALID_ATTESTATION (FUTURE_EPOCH targetEpoch epochNow)), s)
         else if targetEpoch + 1 < epochNow
         then (Inl (INVALID_ATTESTATION (PAST_EPOCH targetEpoch epochNow)), s)
         else if targetEpoch \<noteq> computeEpochAtSlot sl
         then (Inl (INVALID_ATTESTATION (BAD_TARGET_EPOCH targetEpoch sl)), s)
         else if \<not> hasBlock pa (ia_targetRoot a)
         then (Inl (INVALID_ATTESTATION (UNKNOWN_TARGET_ROOT (ia_targetRoot a))), s)
         else
           (case getBlock pa (ia_beaconBlockRoot a) of
              None \<Rightarrow> (Inl (INVALID_ATTESTATION (UNKNOWN_HEAD_BLOCK (ia_beaconBlockRoot a))), s)
            | Some block \<Rightarrow>
                (let expectedTarget = (if computeEpochAtSlot (pb_slot block) < targetEpoch
                                       then ia_beaconBlockRoot a else pb_targetRoot block)
                 in if expectedTarget \<noteq> ia_targetRoot a
                    then (Inl (INVALID_ATTESTATION (INVALID_TARGET (ia_targetRoot a) expectedTarget)), s)
                    else if sl < pb_slot block
                    then (Inl (INVALID_ATTESTATION (ATTESTS_TO_FUTURE_BLOCK (pb_slot block) sl)), s)
                    else (Inr (),
                      (case ia_treeRoot a of
                         None \<Rightarrow> s
                       | Some r \<Rightarrow> s\<lparr>fc_validatedAttestationDatas :=
                           List.insert r (fc_validatedAttestationDatas s)\<rparr>)))))"

definition validateOnAttestation :: "indexed_attestation \<Rightarrow> unit fc_st" where
  "validateOnAttestation a s =
     (if ia_attestingIndices a = [] then (Inl (INVALID_ATTESTATION EMPTY_AGGREGATION_BITFIELD), s)
      else if (case ia_treeRoot a of None \<Rightarrow> False
               | Some r \<Rightarrow> r \<in> set (fc_validatedAttestationDatas s)) then (Inr (), s)
      else validateAttestationData a s)"

definition fc_onAttestation :: "indexed_attestation \<Rightarrow> unit fc_st" where
  "fc_onAttestation a s =
     (if ia_beaconBlockRoot a = HEX_ZERO_HASH then (Inr (), s)
      else
        bind_st (validateOnAttestation a) (\<lambda>_ s1.
          (Inr (),
           if ia_slot a < st_currentSlot (fc_fcStore s1)
           then fold (addLatestMessage (ia_targetEpoch a) (ia_beaconBlockRoot a)) (ia_attestingIndices a) s1
           else s1\<lparr>fc_queuedAttestations := fc_queuedAttestations s1 @
             [\<lparr>qa_slot = ia_slot a, qa_attestingIndices = ia_attestingIndices a,
               qa_blockRoot = ia_beaconBlockRoot a, qa_targetEpoch = ia_targetEpoch a\<rparr>]\<rparr>)) s)"

definition getLatestMessage :: "fork_choice \<Rightarrow> nat \<Rightarrow> latest_message option" where
  "getLatestMessage s i =
     map_option (\<lambda>v. \<lparr>lm_epoch = nextEpoch v, lm_root = nextRoot v\<rparr>) (voteAt (fc_votes s) i)"

section \<open>Time\<close>

definition onTick :: "slot \<Rightarrow> unit fc_st" where
  "onTick time s =
     (let previousSlot = st_currentSlot (fc_fcStore s)
      in if previousSlot + 1 < time then (Inl (INCONSISTENT_ON_TICK previousSlot time), s)
         else
           (let s1 = s\<lparr>fc_fcStore := (fc_fcStore s)\<lparr>st_currentSlot := time\<rparr>\<rparr>;
                s2 = (case fc_proposerBoostRoot s1 of None \<Rightarrow> s1
                      | Some _ \<Rightarrow> s1\<lparr>fc_proposerBoostRoot := None, fc_synced := False\<rparr>);
                store = fc_fcStore s2
            in if computeSlotsSinceEpochStart time None \<noteq> 0 then (Inr (), s2)
               else if cp_epoch (st_justifiedCheckpoint store) < cp_epoch (st_bestJustifiedCheckpoint store) then
                 (case getAncestor (fc_protoArray s2) (cp_root (st_bestJustifiedCheckpoint store))
                         (computeStartSlotAtEpoch (cp_epoch (st_finalizedCheckpoint store))) of
                    Inl e \<Rightarrow> (Inl e, s2)
                  | Inr a \<Rightarrow>
                      (Inr (), if a = cp_root (st_finalizedCheckpoint store)
                               then updateJustified (st_bestJustifiedCheckpoint store)
                                      (fc_bestJustifiedBalances s2) s2
                               else s2))
               else (Inr (), s2)))"

lemma onTick_slot: "onTick time s = (r, s') \<Longrightarrow> time \<le> Suc (st_currentSlot (fc_fcStore s)) \<Longrightarrow>
    st_currentSlot (fc_fcStore s') = time"
  by (auto simp: onTick_def Let_def updateJustified_def set_justifiedCheckpoint_def
      split: if_splits option.splits sum.splits)

text \<open>The \<open>while\<close> loop of \<open>updateTime\<close>: each tick moves the clock by one slot, so it ends.\<close>

function ticks :: "slot \<Rightarrow> unit fc_st" where
  "ticks target s =
     (if st_currentSlot (fc_fcStore s) < target then
        (case onTick (Suc (st_currentSlot (fc_fcStore s))) s of
           (Inl e, s') \<Rightarrow> (Inl e, s')
         | (Inr u, s') \<Rightarrow> ticks target s')
      else (Inr (), s))"
  by pat_completeness auto
termination
  by (relation "measure (\<lambda>(target, s). target - st_currentSlot (fc_fcStore s))")
    (auto dest!: onTick_slot [OF sym])

declare ticks.simps [simp del]

definition processAttestationQueue :: "fork_choice \<Rightarrow> fork_choice" where
  "processAttestationQueue s =
     (let due = (\<lambda>a. qa_slot a \<le> st_currentSlot (fc_fcStore s))
      in fold (\<lambda>a. fold (addLatestMessage (qa_targetEpoch a) (qa_blockRoot a)) (qa_attestingIndices a))
           (filter due (fc_queuedAttestations s))
           (s\<lparr>fc_queuedAttestations := filter (\<lambda>a. \<not> due a) (fc_queuedAttestations s)\<rparr>))"

definition updateTime :: "slot \<Rightarrow> unit fc_st" where
  "updateTime currentSlot =
     bind_st (ticks currentSlot) (\<lambda>_ s.
       (Inr (), (processAttestationQueue s)\<lparr>fc_validatedAttestationDatas := []\<rparr>))"

definition getTime :: "fork_choice \<Rightarrow> slot" where
  "getTime s = st_currentSlot (fc_fcStore s)"

section \<open>Queries\<close>

definition isDescendantOfFinalized :: "fork_choice \<Rightarrow> root_hex \<Rightarrow> fc_error + bool" where
  "isDescendantOfFinalized s r =
     lift_pa (isDescendant (fc_protoArray s) (cp_root (st_finalizedCheckpoint (fc_fcStore s))) r)"

definition fc_isDescendant :: "fork_choice \<Rightarrow> root_hex \<Rightarrow> root_hex \<Rightarrow> fc_error + bool" where
  "fc_isDescendant s a d = lift_pa (isDescendant (fc_protoArray s) a d)"

definition hasBlockHex :: "fork_choice \<Rightarrow> root_hex \<Rightarrow> fc_error + bool" where
  "hasBlockHex s r = (if hasBlock (fc_protoArray s) r then isDescendantOfFinalized s r else Inr False)"

definition getBlockHex :: "fork_choice \<Rightarrow> root_hex \<Rightarrow> fc_error + proto_node option" where
  "getBlockHex s r =
     (case getBlock (fc_protoArray s) r of
        None \<Rightarrow> Inr None
      | Some block \<Rightarrow>
          bind_res (isDescendantOfFinalized s r) (\<lambda>d. Inr (if d then Some block else None)))"

definition requireBlock :: "fork_choice \<Rightarrow> root_hex \<Rightarrow> fc_error + proto_node" where
  "requireBlock s r =
     bind_res (getBlockHex s r) (\<lambda>b. case b of None \<Rightarrow> Inl (MISSING_PROTO_ARRAY_BLOCK r) | Some n \<Rightarrow> Inr n)"

definition getJustifiedBlock :: "fork_choice \<Rightarrow> fc_error + proto_node" where
  "getJustifiedBlock s = requireBlock s (cp_root (st_justifiedCheckpoint (fc_fcStore s)))"

definition getFinalizedBlock :: "fork_choice \<Rightarrow> fc_error + proto_node" where
  "getFinalizedBlock s = requireBlock s (cp_root (st_finalizedCheckpoint (fc_fcStore s)))"

definition prune :: "root_hex \<Rightarrow> proto_node list fc_st" where
  "prune r s =
     (case maybePrune (fc_protoArray s) r of
        Inl e \<Rightarrow> (Inl (PROTO_ARRAY e), s)
      | Inr (removed, pa) \<Rightarrow> (Inr removed, s\<lparr>fc_protoArray := pa\<rparr>))"

definition setPruneThreshold :: "nat \<Rightarrow> fork_choice \<Rightarrow> fork_choice" where
  "setPruneThreshold t s = s\<lparr>fc_protoArray := (fc_protoArray s)\<lparr>pa_pruneThreshold := t\<rparr>\<rparr>"

text \<open>\<open>blocks.slice(0, length - 1)\<close> of an empty list is empty.\<close>

definition getAllAncestorBlocks :: "fork_choice \<Rightarrow> root_hex \<Rightarrow> fc_error + proto_node list" where
  "getAllAncestorBlocks s r =
     bind_res (lift_pa (getAllAncestorNodes (fc_protoArray s) r)) (\<lambda>blocks. Inr (butlast blocks))"

definition getAllNonAncestorBlocks :: "fork_choice \<Rightarrow> root_hex \<Rightarrow> fc_error + proto_node list" where
  "getAllNonAncestorBlocks s r = lift_pa (getAllNonAncestorNodes (fc_protoArray s) r)"

fun findAtSlot :: "slot \<Rightarrow> proto_node list \<Rightarrow> proto_array_error option \<Rightarrow> proto_node option pa_result" where
  "findAtSlot s [] None = Inr None"
| "findAtSlot s [] (Some e) = Inl e"
| "findAtSlot s (n # ns) e = (if pb_slot n = s then Inr (Some n) else findAtSlot s ns e)"

definition getCanonicalBlockAtSlot :: "fork_choice \<Rightarrow> slot \<Rightarrow> fc_error + proto_block option" where
  "getCanonicalBlockAtSlot s sl =
     (if pb_slot (fc_head s) < sl then Inr None
      else if sl = pb_slot (fc_head s) then Inr (Some (fc_head s))
      else
        (case iterateAncestorNodes (fc_protoArray s) (pb_blockRoot (fc_head s)) of (ns, e) \<Rightarrow>
           bind_res (lift_pa (findAtSlot sl ns e)) (\<lambda>b. Inr (map_option proto_block.truncate b))))"

definition forwarditerateAncestorBlocks :: "fork_choice \<Rightarrow> proto_node list" where
  "forwarditerateAncestorBlocks s = pa_nodes (fc_protoArray s)"

definition getBlockSummariesByParentRoot :: "fork_choice \<Rightarrow> root_hex \<Rightarrow> proto_node list" where
  "getBlockSummariesByParentRoot s r = filter (\<lambda>n. pb_parentRoot n = r) (pa_nodes (fc_protoArray s))"

definition getBlockSummariesAtSlot :: "fork_choice \<Rightarrow> slot \<Rightarrow> proto_node list" where
  "getBlockSummariesAtSlot s sl = filter (\<lambda>n. pb_slot n = sl) (pa_nodes (fc_protoArray s))"

text \<open>The distance may not be negative on slots that grow; the code's difference is an integer.\<close>

definition getCommonAncestorDistance :: "fork_choice \<Rightarrow> proto_block \<Rightarrow> proto_block \<Rightarrow> fc_error + int option" where
  "getCommonAncestorDistance s prevBlock newBlock =
     (case getNode (fc_protoArray s) (pb_blockRoot prevBlock) of
        None \<Rightarrow> Inl (ERROR ''No node if forkChoice for blockRoot'')
      | Some prevNode \<Rightarrow>
          (case getNode (fc_protoArray s) (pb_blockRoot newBlock) of
             None \<Rightarrow> Inl (ERROR ''No node if forkChoice for blockRoot'')
           | Some newNode \<Rightarrow>
               bind_res (lift_pa (getCommonAncestor (fc_protoArray s) prevNode newNode)) (\<lambda>ca.
                 (case ca of
                    None \<Rightarrow> Inr None
                  | Some c \<Rightarrow>
                      if pb_blockRoot c = pb_blockRoot prevNode \<or> pb_blockRoot c = pb_blockRoot newNode
                      then Inr None
                      else Inr (Some (int (pb_slot newNode) - int (pb_slot c)))))))"

definition validateLatestHash :: "root_hex \<Rightarrow> root_hex option \<Rightarrow> unit fc_st" where
  "validateLatestHash latestValid invalidateTill s = (Inr (), s)"

end
