(* ===== verification/ForkChoiceSteps.thy ===== *)
theory ForkChoiceSteps
  imports ForkChoice
begin

text \<open>
  The fork choice as a transition system: one step is one call of a public method, also a call that
  throws. The lemmas show what no sequence of calls can break: the array stays well-formed, and
  clock, checkpoints and latest messages only move forward.
\<close>

section \<open>Operations as steps\<close>

datatype fc_op =
    UpdateHead
  | OnBlock beacon_block beacon_state precached_data
  | OnAttestation indexed_attestation
  | UpdateTime slot
  | Prune root_hex
  | SetPruneThreshold nat

text \<open>The object after a call, also when the call threw.\<close>

fun fc_exec :: "ssz_env \<Rightarrow> chain_config \<Rightarrow> fc_op \<Rightarrow> fork_choice \<Rightarrow> fork_choice" where
  "fc_exec env cfg UpdateHead s = snd (updateHead cfg s)"
| "fc_exec env cfg (OnBlock b st pc) s = snd (fc_onBlock env cfg b st pc s)"
| "fc_exec env cfg (OnAttestation a) s = snd (fc_onAttestation a s)"
| "fc_exec env cfg (UpdateTime t) s = snd (updateTime t s)"
| "fc_exec env cfg (Prune r) s = snd (prune r s)"
| "fc_exec env cfg (SetPruneThreshold t) s = setPruneThreshold t s"

inductive fc_step :: "ssz_env \<Rightarrow> chain_config \<Rightarrow> fork_choice \<Rightarrow> fork_choice \<Rightarrow> bool" for env cfg where
  call: "fc_step env cfg s (fc_exec env cfg op s)"

inductive_cases fc_stepE: "fc_step env cfg s s'"

inductive fc_reach :: "ssz_env \<Rightarrow> chain_config \<Rightarrow> fork_choice \<Rightarrow> fork_choice \<Rightarrow> bool" for env cfg s where
  start: "fc_reach env cfg s s"
| step: "fc_reach env cfg s t \<Longrightarrow> fc_step env cfg t u \<Longrightarrow> fc_reach env cfg s u"

section \<open>What every operation keeps\<close>

definition fc_inv :: "fork_choice \<Rightarrow> bool" where
  "fc_inv s \<longleftrightarrow> pa_wf (fc_protoArray s) \<and>
     cp_epoch (st_justifiedCheckpoint (fc_fcStore s)) \<le> cp_epoch (st_bestJustifiedCheckpoint (fc_fcStore s))"

text \<open>How the object may change: clocks and checkpoints go forward, latest messages are only replaced by newer ones.\<close>

definition vote_le :: "vote_tracker option \<Rightarrow> vote_tracker option \<Rightarrow> bool" where
  "vote_le v w = (case v of None \<Rightarrow> True | Some x \<Rightarrow> (case w of None \<Rightarrow> False
     | Some y \<Rightarrow> nextEpoch x < nextEpoch y \<or> nextEpoch x = nextEpoch y \<and> nextRoot x = nextRoot y))"

definition store_le :: "fc_store \<Rightarrow> fc_store \<Rightarrow> bool" where
  "store_le st st' \<longleftrightarrow> st_currentSlot st \<le> st_currentSlot st' \<and>
     cp_epoch (st_bestJustifiedCheckpoint st) \<le> cp_epoch (st_bestJustifiedCheckpoint st') \<and>
     (st_finalizedCheckpoint st = st_finalizedCheckpoint st' \<or>
      cp_epoch (st_finalizedCheckpoint st) < cp_epoch (st_finalizedCheckpoint st')) \<and>
     (st_justifiedCheckpoint st = st_justifiedCheckpoint st' \<or>
      cp_epoch (st_justifiedCheckpoint st) < cp_epoch (st_justifiedCheckpoint st') \<or>
      cp_epoch (st_finalizedCheckpoint st) < cp_epoch (st_finalizedCheckpoint st'))"

definition advances :: "fork_choice \<Rightarrow> fork_choice \<Rightarrow> bool" where
  "advances s s' \<longleftrightarrow> store_le (fc_fcStore s) (fc_fcStore s') \<and>
     (\<forall>i. vote_le (voteAt (fc_votes s) i) (voteAt (fc_votes s') i))"

lemma vote_le_refl [simp]: "vote_le v v"
  by (simp add: vote_le_def split: option.splits)

lemma vote_le_trans: "vote_le u v \<Longrightarrow> vote_le v w \<Longrightarrow> vote_le u w"
  by (auto simp: vote_le_def split: option.splits)

lemma store_le_refl [simp]: "store_le st st"
  by (simp add: store_le_def)

lemma store_le_trans: "store_le a b \<Longrightarrow> store_le b c \<Longrightarrow> store_le a c"
  by (auto simp: store_le_def)

lemma advances_refl [simp]: "advances s s"
  by (simp add: advances_def)

lemma advances_trans: "advances a b \<Longrightarrow> advances b c \<Longrightarrow> advances a c"
  unfolding advances_def using store_le_trans vote_le_trans by blast

definition good :: "fork_choice \<Rightarrow> fork_choice \<Rightarrow> bool" where
  "good s s' \<longleftrightarrow> advances s s' \<and> (fc_inv s \<longrightarrow> fc_inv s')"

lemma good_refl [simp]: "good s s"
  by (simp add: good_def)

lemma good_trans: "good a b \<Longrightarrow> good b c \<Longrightarrow> good a c"
  unfolding good_def using advances_trans by blast

lemma good_bind: "(\<And>s. good s (snd (m s))) \<Longrightarrow> (\<And>x s. good s (snd (f x s))) \<Longrightarrow> good s (snd (bind_st m f s))"
  by (rule rel_bind_st [where R = good]) (rule good_trans)

subsection \<open>Votes\<close>

lemma voteAt_setVote: "voteAt (setVote i v votes) j = (if j = i then Some v else voteAt votes j)"
  by (auto simp: voteAt_def setVote_def nth_opt_def nth_append nth_list_update nth_Cons
      split: option.splits nat.splits)

lemma voteAt_addVote: "voteAt (addVote e r i votes) j =
    (if j \<noteq> i then voteAt votes j
     else (case voteAt votes i of
        None \<Rightarrow> Some \<lparr>currentRoot = HEX_ZERO_HASH, nextRoot = r, nextEpoch = e\<rparr>
      | Some v \<Rightarrow> Some (if nextEpoch v < e then v\<lparr>nextRoot := r, nextEpoch := e\<rparr> else v)))"
  by (auto simp: addVote_def voteAt_setVote split: option.splits)

lemma vote_le_addVote: "vote_le (voteAt votes j) (voteAt (addVote e r i votes) j)"
  by (auto simp: voteAt_addVote vote_le_def split: option.splits)

lemma addLatestMessage_simps [simp]:
  "fc_fcStore (addLatestMessage e r i s) = fc_fcStore s"
  "fc_protoArray (addLatestMessage e r i s) = fc_protoArray s"
  "fc_queuedAttestations (addLatestMessage e r i s) = fc_queuedAttestations s"
  "fc_votes (addLatestMessage e r i s) = addVote e r i (fc_votes s)"
  by (simp_all add: addLatestMessage_def)

lemma good_addLatestMessage: "good s (addLatestMessage e r i s)"
  by (simp add: good_def advances_def fc_inv_def vote_le_addVote)

lemma good_fold: "(\<And>x s. good s (f x s)) \<Longrightarrow> good s (fold f xs s)"
proof (induction xs arbitrary: s)
  case (Cons x xs)
  then show ?case
    using good_trans [of s "f x s" "fold f xs (f x s)"] by simp
qed simp

lemma voteAt_map_moved: "voteAt (map moved votes) i = moved (voteAt votes i)"
  by (auto simp: voteAt_def nth_opt_def moved_def)

lemma vote_le_moved: "vote_le v (moved v)"
  by (simp add: vote_le_def moved_def split: option.splits)

lemma voteAt_Cons [simp]: "voteAt (x # xs) 0 = x" "voteAt (x # xs) (Suc i) = voteAt xs i"
  by (simp_all add: voteAt_def nth_opt_def)

text \<open>\<open>computeDeltas\<close> leaves every validator's latest message as it is, also when it throws.\<close>

lemma deltasLoop_votes:
  "deltasLoop m oldB newB v votes deltas = (r, votes') \<Longrightarrow> vote_le (voteAt votes i) (voteAt votes' i)"
proof (induction m oldB newB v votes deltas arbitrary: r votes' i rule: deltasLoop.induct)
  case (1 m oldB newB v deltas)
  then show ?case by simp
next
  case (2 m oldB newB v votes deltas)
  then show ?case
    by (cases i) (auto split: prod.splits)
next
  case (3 m oldB newB v vote votes deltas)
  have cons: "vote_le (voteAt (Some vote # votes) i) (voteAt (x # vs) i)"
    if "x = Some vote \<or> x = moved (Some vote)" "\<And>j. vote_le (voteAt votes j) (voteAt vs j)" for x vs
    using that vote_le_moved [of "Some vote"] by (cases i) auto
  show ?case
  proof (cases "currentRoot vote = HEX_ZERO_HASH \<and> nextRoot vote = HEX_ZERO_HASH")
    case True
    with 3 cons show ?thesis by (auto split: prod.splits)
  next
    case False
    let ?upd = "if currentRoot vote \<noteq> nextRoot vote \<or> balanceAt oldB v \<noteq> balanceAt newB v
      then bind_res (addDelta m (currentRoot vote) (- balanceAt oldB v) deltas)
             (addDelta m (nextRoot vote) (balanceAt newB v)) else Inr deltas"
    have eq: "deltasLoop m oldB newB v (Some vote # votes) deltas = (case ?upd of
        Inl e \<Rightarrow> (Inl e, Some vote # votes)
      | Inr d \<Rightarrow> (case deltasLoop m oldB newB (Suc v) votes d of
          (r, vs) \<Rightarrow> (r, Some (vote\<lparr>currentRoot := nextRoot vote\<rparr>) # vs)))"
      using False by (simp only: deltasLoop.simps Let_def if_False)
    show ?thesis
    proof (cases ?upd)
      case (Inl e)
      with "3.prems" show ?thesis
        unfolding eq Inl by simp
    next
      case (Inr d)
      obtain r' vs where d: "deltasLoop m oldB newB (Suc v) votes d = (r', vs)"
        by (cases "deltasLoop m oldB newB (Suc v) votes d")
      have "vote_le (voteAt votes j) (voteAt vs j)" for j
        using "3.IH"(2) [OF False refl refl refl Inr d] .
      then have "vote_le (voteAt (Some vote # votes) i) (voteAt (moved (Some vote) # vs) i)"
        by (intro cons) auto
      moreover have "votes' = moved (Some vote) # vs"
        using "3.prems" unfolding eq Inr by (simp add: d moved_def)
      ultimately show ?thesis by simp
    qed
  qed
qed

subsection \<open>Each operation\<close>

lemma good_currentBoost: "good s (snd (currentBoost cfg s))"
  by (auto simp: currentBoost_def good_def advances_def fc_inv_def split: option.splits)

lemma good_syncScores: "good s (snd (syncScores cfg s))"
proof -
  obtain r votes where c: "computeDeltas (pa_indices (fc_protoArray s)) (fc_votes s)
      (fc_justifiedBalances s) (fc_justifiedBalances s) = (r, votes)"
    by (metis prod.exhaust)
  have g: "good s (s\<lparr>fc_votes := votes\<rparr>)"
    using deltasLoop_votes [OF c [unfolded computeDeltas_def]] by (simp add: good_def advances_def fc_inv_def)
  show ?thesis
  proof (cases r)
    case (Inl e)
    with c g show ?thesis by (simp add: syncScores_def)
  next
    case (Inr deltas)
    have "good s1 (snd (case applyScoreChanges (fc_protoArray s1) deltas boost a b c d of
        Inl e \<Rightarrow> (Inl (PROTO_ARRAY e), s1)
      | Inr pa \<Rightarrow> (Inr (), s1\<lparr>fc_protoArray := pa, fc_synced := True\<rparr>)))" for s1 boost a b c d
    proof (cases "applyScoreChanges (fc_protoArray s1) deltas boost a b c d")
      case (Inr pa)
      have "pa_wf (fc_protoArray s1) \<Longrightarrow> pa_wf pa"
      proof -
        assume wf: "pa_wf (fc_protoArray s1)"
        obtain nodes where "length deltas = length (pa_nodes (fc_protoArray s1))"
          using applyScoreChanges_split [OF wf Inr] by blast
        from applyScoreChanges_wf [OF wf this, of boost a b c d] Inr show "pa_wf pa" by simp
      qed
      with Inr show ?thesis by (simp add: good_def advances_def fc_inv_def)
    qed simp
    then have "good (s\<lparr>fc_votes := votes\<rparr>) (snd (syncScores cfg s))"
      unfolding syncScores_def c Inr by (simp add: good_bind good_currentBoost)
    with g show ?thesis by (rule good_trans)
  qed
qed

lemma good_setHead: "good s (snd (setHead s))"
  by (auto simp: setHead_def good_def advances_def fc_inv_def split: sum.splits option.splits)

lemma good_updateHead: "good s (snd (updateHead cfg s))"
  unfolding updateHead_def by (rule good_bind) (auto simp: good_syncScores good_setHead)

lemma good_onAttestation: "good s (snd (fc_onAttestation a s))"
proof -
  have v: "good s (snd (validateOnAttestation a s))" for s
    by (auto simp: validateOnAttestation_def validateAttestationData_def Let_def good_def advances_def
        fc_inv_def split: option.splits)
  show ?thesis
    unfolding fc_onAttestation_def
    by (auto intro!: good_bind v good_fold good_addLatestMessage) (simp add: good_def advances_def fc_inv_def)
qed

lemma good_prune: "good s (snd (prune r s))"
proof -
  have "pa_wf pa \<Longrightarrow> maybePrune pa r = Inr (ns, pa') \<Longrightarrow> pa_wf pa'" for pa pa' ns
    by (rule maybePrune_wf)
  then show ?thesis
    by (auto simp: prune_def good_def advances_def fc_inv_def split: sum.splits prod.splits)
qed

lemma updateJustified_simps [simp]:
  "fc_votes (updateJustified cp b s) = fc_votes s" "fc_protoArray (updateJustified cp b s) = fc_protoArray s"
  "fc_fcStore (updateJustified cp b s) = set_justifiedCheckpoint cp (fc_fcStore s)"
  "fc_proposerBoostRoot (updateJustified cp b s) = fc_proposerBoostRoot s"
  "fc_queuedAttestations (updateJustified cp b s) = fc_queuedAttestations s"
  by (simp_all add: updateJustified_def)

lemma updateBestJustified_simps [simp]:
  "fc_votes (updateBestJustified cp b s) = fc_votes s"
  "fc_protoArray (updateBestJustified cp b s) = fc_protoArray s"
  "fc_fcStore (updateBestJustified cp b s) = (fc_fcStore s)\<lparr>st_bestJustifiedCheckpoint := cp\<rparr>"
  by (simp_all add: updateBestJustified_def)

lemma set_Checkpoint_simps [simp]:
  "st_currentSlot (set_justifiedCheckpoint cp st) = st_currentSlot st"
  "st_justifiedCheckpoint (set_justifiedCheckpoint cp st) = cp"
  "st_finalizedCheckpoint (set_justifiedCheckpoint cp st) = st_finalizedCheckpoint st"
  "st_bestJustifiedCheckpoint (set_justifiedCheckpoint cp st) = st_bestJustifiedCheckpoint st"
  "st_currentSlot (set_finalizedCheckpoint cp st) = st_currentSlot st"
  "st_justifiedCheckpoint (set_finalizedCheckpoint cp st) = st_justifiedCheckpoint st"
  "st_finalizedCheckpoint (set_finalizedCheckpoint cp st) = cp"
  "st_bestJustifiedCheckpoint (set_finalizedCheckpoint cp st) = st_bestJustifiedCheckpoint st"
  by (simp_all add: set_justifiedCheckpoint_def set_finalizedCheckpoint_def)

lemma lift_pa_Inr: "lift_pa r = Inr x \<longleftrightarrow> r = Inr x"
  by (simp add: lift_pa_def split: sum.splits)

lemma good_justify:
  assumes "cp_epoch (st_justifiedCheckpoint (fc_fcStore s)) < cp_epoch cp"
    and "cp_epoch cp \<le> cp_epoch (st_bestJustifiedCheckpoint (fc_fcStore s))"
  shows "good s (snd (justify cp pc s))"
  using assms by (simp add: justify_def good_def advances_def fc_inv_def store_le_def split: option.split)

lemma good_finalize:
  assumes fin: "cp_epoch (st_finalizedCheckpoint (fc_fcStore s)) < cp_epoch f"
    and cp: "cp_epoch cp \<le> cp_epoch (st_justifiedCheckpoint (fc_fcStore s)) \<or>
      cp_epoch cp \<le> cp_epoch (st_bestJustifiedCheckpoint (fc_fcStore s))"
  shows "good s (snd (justify cp pc
    (s\<lparr>fc_fcStore := set_finalizedCheckpoint f (fc_fcStore s), fc_synced := False\<rparr>)))"
proof -
  have "cp_epoch cp \<le> cp_epoch (st_bestJustifiedCheckpoint (fc_fcStore s))" if "fc_inv s"
    using cp that by (auto simp: fc_inv_def)
  with fin show ?thesis
    by (simp add: justify_def good_def advances_def fc_inv_def store_le_def split: option.split)
qed

lemma good_updateCheckpoints: "good s (snd (updateCheckpoints state pc s))"
proof -
  let ?cp = "bs_currentJustifiedCheckpoint state"
  obtain r s1 where c: "considerJustified state pc s = (r, s1)" by (cases "considerJustified state pc s")
  have s1: "good s s1 \<and> fc_votes s1 = fc_votes s \<and> fc_protoArray s1 = fc_protoArray s \<and>
      st_currentSlot (fc_fcStore s1) = st_currentSlot (fc_fcStore s) \<and>
      st_justifiedCheckpoint (fc_fcStore s1) = st_justifiedCheckpoint (fc_fcStore s) \<and>
      st_finalizedCheckpoint (fc_fcStore s1) = st_finalizedCheckpoint (fc_fcStore s)"
    using c by (auto simp: considerJustified_def Let_def good_def advances_def fc_inv_def store_le_def
        split: if_splits option.splits)
  have T: "cp_epoch (st_justifiedCheckpoint (fc_fcStore s)) < cp_epoch ?cp \<and>
      cp_epoch ?cp \<le> cp_epoch (st_bestJustifiedCheckpoint (fc_fcStore s1))" if "r = Inr True"
    using c that by (auto simp: considerJustified_def Let_def split: if_splits option.splits)
  have F: "cp_epoch ?cp \<le> cp_epoch (st_justifiedCheckpoint (fc_fcStore s)) \<or>
      cp_epoch ?cp \<le> cp_epoch (st_bestJustifiedCheckpoint (fc_fcStore s1))" if "r = Inr x" for x
    using c that by (auto simp: considerJustified_def Let_def split: if_splits option.splits)
  show ?thesis
  proof (cases r)
    case (Inl e)
    with c s1 show ?thesis by (simp add: updateCheckpoints_def)
  next
    case (Inr sh)
    have "good s1 (snd (if cp_epoch (st_finalizedCheckpoint (fc_fcStore s1)) < cp_epoch (bs_finalizedCheckpoint state)
       then justify ?cp pc (s1\<lparr>fc_fcStore := set_finalizedCheckpoint (bs_finalizedCheckpoint state) (fc_fcStore s1),
                 fc_synced := False\<rparr>)
       else if sh then justify ?cp pc s1 else (Inr (), s1)))"
    proof (cases "cp_epoch (st_finalizedCheckpoint (fc_fcStore s1)) < cp_epoch (bs_finalizedCheckpoint state)")
      case True
      moreover have "cp_epoch ?cp \<le> cp_epoch (st_justifiedCheckpoint (fc_fcStore s1)) \<or>
          cp_epoch ?cp \<le> cp_epoch (st_bestJustifiedCheckpoint (fc_fcStore s1))"
        using F [OF Inr] s1 by simp
      ultimately show ?thesis
        using good_finalize by simp
    next
      case False
      show ?thesis
      proof (cases sh)
        case True
        with T Inr s1 False show ?thesis
          using good_justify by simp
      next
        case f: False
        with False show ?thesis by simp
      qed
    qed
    moreover have "good s s1"
      using s1 by blast
    ultimately have "good s (snd (if cp_epoch (st_finalizedCheckpoint (fc_fcStore s1)) < cp_epoch (bs_finalizedCheckpoint state)
       then justify ?cp pc (s1\<lparr>fc_fcStore := set_finalizedCheckpoint (bs_finalizedCheckpoint state) (fc_fcStore s1),
                 fc_synced := False\<rparr>)
       else if sh then justify ?cp pc s1 else (Inr (), s1)))"
      by (rule good_trans [rotated])
    with c Inr show ?thesis
      by (simp add: updateCheckpoints_def)
  qed
qed

lemma good_fc_onBlock: "good s (snd (fc_onBlock env cfg block state pc s))"
proof -
  have "good s (snd (boostTimelyBlock cfg block pc r s))" for s r
    by (auto simp: boostTimelyBlock_def good_def advances_def fc_inv_def split: option.splits)
  moreover have "good s (snd (addToArray env block state pc s))" for s
  proof (cases "bind_res (protoBlock env block state pc) (\<lambda>b. lift_pa (onBlock (fc_protoArray s) b))")
    case (Inr pa)
    then obtain b where "onBlock (fc_protoArray s) b = Inr pa"
      unfolding bind_res_Inr_iff lift_pa_Inr by blast
    with onBlock_wf [of "fc_protoArray s" b] Inr show ?thesis
      by (auto simp: addToArray_def good_def advances_def fc_inv_def)
  qed (simp add: addToArray_def)
  ultimately show ?thesis
    unfolding fc_onBlock_def by (auto intro!: good_bind good_updateCheckpoints)
qed

lemma good_onTick: "time = Suc (st_currentSlot (fc_fcStore s)) \<Longrightarrow> good s (snd (onTick time s))"
  by (auto simp: onTick_def Let_def good_def advances_def fc_inv_def store_le_def
      split: option.splits sum.splits)

lemma good_ticks: "good s (snd (ticks t s))"
proof (induction t s rule: ticks.induct)
  case (1 t s)
  show ?case
  proof (cases "st_currentSlot (fc_fcStore s) < t")
    case True
    obtain r s' where r: "onTick (Suc (st_currentSlot (fc_fcStore s))) s = (r, s')"
      by (cases "onTick (Suc (st_currentSlot (fc_fcStore s))) s")
    have g: "good s s'"
      using good_onTick [OF refl, of s] r by simp
    show ?thesis
    proof (cases r)
      case (Inl e)
      with True r g show ?thesis by (subst ticks.simps) simp
    next
      case (Inr u)
      with "1.IH" [OF True r [symmetric]] have "good s' (snd (ticks t s'))" by simp
      moreover have "ticks t s = ticks t s'"
        using True r Inr by (simp add: ticks.simps [of t s])
      ultimately show ?thesis
        using good_trans [OF g] by simp
    qed
  qed (subst ticks.simps, simp)
qed

lemma good_processAttestationQueue: "good s (processAttestationQueue s)"
proof -
  let ?s = "s\<lparr>fc_queuedAttestations := filter (\<lambda>a. \<not> qa_slot a \<le> st_currentSlot (fc_fcStore s)) (fc_queuedAttestations s)\<rparr>"
  have "good s ?s"
    by (simp add: good_def advances_def fc_inv_def)
  moreover have "good ?s (processAttestationQueue s)"
    unfolding processAttestationQueue_def Let_def
    by (intro good_fold good_addLatestMessage)
  ultimately show ?thesis by (rule good_trans)
qed

lemma good_updateTime: "good s (snd (updateTime t s))"
proof -
  have "good s ((processAttestationQueue s)\<lparr>fc_validatedAttestationDatas := []\<rparr>)" for s
    using good_processAttestationQueue [of s] by (auto simp: good_def advances_def fc_inv_def)
  then show ?thesis
    unfolding updateTime_def by (auto intro!: good_bind good_ticks)
qed

lemma good_setPruneThreshold: "good s (setPruneThreshold t s)"
  by (simp add: setPruneThreshold_def good_def advances_def fc_inv_def pa_wf_def)

lemma good_exec: "good s (fc_exec env cfg op s)"
  by (cases op) (simp_all add: good_updateHead good_fc_onBlock good_onAttestation good_updateTime good_prune
      good_setPruneThreshold)

lemma good_reach: "fc_reach env cfg s t \<Longrightarrow> good s t"
proof (induction rule: fc_reach.induct)
  case start
  show ?case by simp
next
  case (step t u)
  from step.hyps(2) have "good t u"
    by (auto elim: fc_stepE simp: good_exec)
  with step.IH show ?case by (rule good_trans)
qed

text \<open>
  C21. Whatever calls are made, in whatever order and whether or not they throw, the block array stays
  well-formed and the best justified checkpoint is never older than the justified one.
\<close>

theorem fc_reach_inv:
  assumes "fc_reach env cfg s t" "fc_inv s"
  shows "fc_inv t"
  using good_reach [OF assms(1)] assms(2) by (simp add: good_def)

text \<open>
  C20. Fork choice never goes back: along any sequence of calls, failed calls included, the clock and
  the best justified epoch do not decrease, a new finalized checkpoint has a larger epoch, the
  justified checkpoint is replaced only by a newer one or together with a finalized one, and a
  validator's latest message is replaced only by one of a larger epoch.
\<close>

theorem fc_reach_advances:
  assumes "fc_reach env cfg s t"
  shows "advances s t"
  using good_reach [OF assms] by (simp add: good_def)

end
