(* ===== verification/ForkChoiceSpec.thy ===== *)
theory ForkChoiceSpec
  imports ForkChoiceSteps
begin

text \<open>
  What the methods of \<open>ForkChoice\<close> promise, stated with the functions of the consensus
  specification: \<open>get_ancestor\<close>, the conditions of \<open>on_block\<close> and \<open>validate_on_attestation\<close>, the
  latest-message rule, \<open>get_head\<close>.
\<close>

section \<open>Ancestors at a slot\<close>

text \<open>\<open>get_ancestor\<close> of the consensus specification: the first block of the line that is not newer.\<close>

definition ancestor_at :: "proto_node list \<Rightarrow> nat \<Rightarrow> slot \<Rightarrow> nat option" where
  "ancestor_at nodes i s = find (\<lambda>k. pb_slot (nodes ! k) \<le> s) (line nodes i)"

lemma firstAtOrBelow_find: "firstAtOrBelow s (map f ks) None =
    Inr (map_option (\<lambda>k. pb_blockRoot (f k)) (find (\<lambda>k. pb_slot (f k) \<le> s) ks))"
  by (induction ks) auto

lemma getAncestor_eq:
  assumes "pa_wf pa"
  shows "getAncestor pa r s = (case jm_get (pa_indices pa) r of
     None \<Rightarrow> Inl (MISSING_PROTO_ARRAY_BLOCK r)
   | Some i \<Rightarrow> (case ancestor_at (pa_nodes pa) i s of
       None \<Rightarrow> Inl (UNKNOWN_ANCESTOR s r)
     | Some a \<Rightarrow> Inr (pb_blockRoot (pa_nodes pa ! a))))"
proof (cases "jm_get (pa_indices pa) r")
  case None
  then show ?thesis
    by (simp add: getAncestor_def getBlock_def getNode_def)
next
  case (Some i)
  have i: "i < length (pa_nodes pa)" "pb_blockRoot (pa_nodes pa ! i) = r"
    using pa_wf_get [OF assms Some] by auto
  show ?thesis
    using Some i ancestorsFrom_ok [OF assms i(1)]
    by (auto simp: getAncestor_def getBlock_def getNode_def getNodeByIndex_def iterateAncestorNodes_def
        iterateAncestorNodesFromNode_def ancestor_at_def line_def firstAtOrBelow_find split: option.splits)
qed

text \<open>
  \<open>getAncestor\<close> is \<open>get_ancestor\<close> of the specification on a well-formed array: it returns the
  root of the newest block of the line that is not newer than the slot, an unknown root and a line
  that ends too early are its only errors.
\<close>

theorem getAncestor_at:
  assumes "pa_wf pa"
  shows "getAncestor pa r s = (case jm_get (pa_indices pa) r of
     None \<Rightarrow> Inl (MISSING_PROTO_ARRAY_BLOCK r)
   | Some i \<Rightarrow> (case ancestor_at (pa_nodes pa) i s of
       None \<Rightarrow> Inl (UNKNOWN_ANCESTOR s r)
     | Some a \<Rightarrow> Inr (pb_blockRoot (pa_nodes pa ! a))))"
  using assms by (rule getAncestor_eq)

section \<open>Blocks\<close>

text \<open>The conditions of \<open>on_block\<close>, apart from those of the merge.\<close>

definition block_acceptable :: "fork_choice \<Rightarrow> beacon_block \<Rightarrow> bool" where
  "block_acceptable s block =
     (let pa = fc_protoArray s; store = fc_fcStore s;
          fslot = computeStartSlotAtEpoch (cp_epoch (st_finalizedCheckpoint store))
      in bb_slot block \<le> st_currentSlot store \<and> fslot < bb_slot block \<and>
         (case jm_get (pa_indices pa) (bb_parentRoot block) of
            None \<Rightarrow> False
          | Some p \<Rightarrow> (case ancestor_at (pa_nodes pa) p fslot of
              None \<Rightarrow> False
            | Some a \<Rightarrow> pb_blockRoot (pa_nodes pa ! a) = cp_root (st_finalizedCheckpoint store))))"

lemma checkBlock_acceptable:
  assumes "pa_wf (fc_protoArray s)" "checkBlock env cfg block state pc s = Inr ()"
  shows "block_acceptable s block"
  using assms(2)
  by (auto simp: checkBlock_def Let_def hasBlock_def jm_has_def getAncestor_eq [OF assms(1)]
      block_acceptable_def bind_res_Inr_iff split: if_splits option.splits)

lemma considerJustified_frame: "considerJustified state pc s = (r, s1) \<Longrightarrow>
    fc_protoArray s1 = fc_protoArray s \<and> fc_votes s1 = fc_votes s \<and> fc_head s1 = fc_head s \<and>
    fc_queuedAttestations s1 = fc_queuedAttestations s \<and> fc_proposerBoostRoot s1 = fc_proposerBoostRoot s \<and>
    st_currentSlot (fc_fcStore s1) = st_currentSlot (fc_fcStore s)"
  by (auto simp: considerJustified_def Let_def updateBestJustified_def split: if_splits option.splits)

lemma justify_frame: "justify cp pc s = (r, s1) \<Longrightarrow>
    fc_protoArray s1 = fc_protoArray s \<and> fc_votes s1 = fc_votes s \<and> fc_head s1 = fc_head s \<and>
    fc_queuedAttestations s1 = fc_queuedAttestations s \<and> fc_proposerBoostRoot s1 = fc_proposerBoostRoot s \<and>
    st_currentSlot (fc_fcStore s1) = st_currentSlot (fc_fcStore s)"
  by (auto simp: justify_def updateJustified_def set_justifiedCheckpoint_def split: option.splits)

lemma updateCheckpoints_frame:
  assumes "updateCheckpoints state pc s = (r, s1)"
  shows "fc_protoArray s1 = fc_protoArray s \<and> fc_votes s1 = fc_votes s \<and> fc_head s1 = fc_head s \<and>
    fc_queuedAttestations s1 = fc_queuedAttestations s \<and> fc_proposerBoostRoot s1 = fc_proposerBoostRoot s \<and>
    st_currentSlot (fc_fcStore s1) = st_currentSlot (fc_fcStore s)"
proof -
  obtain r0 s0 where c: "considerJustified state pc s = (r0, s0)" by (cases "considerJustified state pc s")
  note f = considerJustified_frame [OF c]
  show ?thesis
  proof (cases r0)
    case (Inl e)
    with assms c f show ?thesis by (simp add: updateCheckpoints_def)
  next
    case (Inr sh)
    with assms c f show ?thesis
      by (auto simp: updateCheckpoints_def dest!: justify_frame split: if_splits)
  qed
qed

lemma boostTimelyBlock_frame: "boostTimelyBlock cfg block pc r0 s = (r, s1) \<Longrightarrow>
    fc_protoArray s1 = fc_protoArray s \<and> fc_votes s1 = fc_votes s \<and> fc_head s1 = fc_head s \<and>
    fc_queuedAttestations s1 = fc_queuedAttestations s \<and> fc_fcStore s1 = fc_fcStore s \<and>
    (fc_proposerBoostRoot s1 = fc_proposerBoostRoot s \<or> fc_proposerBoostRoot s1 = Some r0 \<and>
      bb_slot block = st_currentSlot (fc_fcStore s) \<and>
      (\<exists>delay interval. pc_blockDelaySec pc = Some delay \<and> interval < 1 \<and>
         getCurrentInterval (SECONDS_PER_SLOT cfg) delay = Some interval))"
  by (auto simp: boostTimelyBlock_def split: if_splits option.splits)

lemma protoBlock_root: "protoBlock env block state pc = Inr b \<Longrightarrow>
    pb_blockRoot b = env_hashTreeRoot env block \<and> pb_parentRoot b = bb_parentRoot block \<and>
    pb_slot b = bb_slot block \<and> pb_justifiedEpoch b = cp_epoch (bs_currentJustifiedCheckpoint state) \<and>
    pb_finalizedEpoch b = cp_epoch (bs_finalizedCheckpoint state)"
  by (auto simp: protoBlock_def Let_def bind_res_Inr_iff split: option.splits)

text \<open>
  C22. A block that \<open>onBlock\<close> accepts satisfies the conditions of the specification: its parent is
  known, it is not from the future, it is newer than the finalized epoch's start and the finalized
  block is the ancestor of its parent there. Afterwards the block is in the array (a block that was
  there is not added again) and votes, queue and cached head are untouched.
\<close>

theorem fc_onBlock_accepted:
  assumes wf: "pa_wf (fc_protoArray s)" and ok: "fc_onBlock env cfg block state pc s = (Inr (), s')"
  shows "block_acceptable s block \<and> hasBlock (fc_protoArray s') (env_hashTreeRoot env block) \<and>
    (if hasBlock (fc_protoArray s) (env_hashTreeRoot env block) then fc_protoArray s' = fc_protoArray s
     else \<exists>b. protoBlock env block state pc = Inr b \<and>
       map core (pa_nodes (fc_protoArray s')) = map core (pa_nodes (fc_protoArray s)) @ [mkNode (fc_protoArray s) b]) \<and>
    fc_votes s' = fc_votes s \<and> fc_queuedAttestations s' = fc_queuedAttestations s \<and> fc_head s' = fc_head s"
proof -
  have chk: "checkBlock env cfg block state pc s = Inr ()"
    using ok by (auto simp: fc_onBlock_def bind_st_eq_Inr)
  obtain s1 s2 where s1: "updateCheckpoints state pc s = (Inr (), s1)"
    and s2: "boostTimelyBlock cfg block pc (env_hashTreeRoot env block) s1 = (Inr (), s2)"
    and s3: "addToArray env block state pc s2 = (Inr (), s')"
    using ok by (auto simp: fc_onBlock_def bind_st_eq_Inr)
  note f = updateCheckpoints_frame [OF s1] boostTimelyBlock_frame [OF s2]
  from s3 obtain b pa where b: "protoBlock env block state pc = Inr b"
      "onBlock (fc_protoArray s) b = Inr pa" "s' = s2\<lparr>fc_protoArray := pa\<rparr>"
    using f by (auto simp: addToArray_def bind_res_Inr_iff lift_pa_Inr split: sum.splits)
  note r = protoBlock_root [OF b(1)]
  have "hasBlock pa (env_hashTreeRoot env block) \<and>
    (if hasBlock (fc_protoArray s) (env_hashTreeRoot env block) then pa = fc_protoArray s
     else map core (pa_nodes pa) = map core (pa_nodes (fc_protoArray s)) @ [mkNode (fc_protoArray s) b])"
    using onBlock_result [OF wf b(2)] r by simp
  with checkBlock_acceptable [OF wf chk] f b show ?thesis
    by (simp split: if_splits)
qed

section \<open>Attestations\<close>

text \<open>The conditions of \<open>validate_on_attestation\<close>.\<close>

definition attestation_valid :: "fork_choice \<Rightarrow> indexed_attestation \<Rightarrow> bool" where
  "attestation_valid s a =
     (let epochNow = computeEpochAtSlot (st_currentSlot (fc_fcStore s))
      in (ia_targetEpoch a = epochNow \<or> ia_targetEpoch a + 1 = epochNow) \<and>
         ia_targetEpoch a = computeEpochAtSlot (ia_slot a) \<and>
         hasBlock (fc_protoArray s) (ia_targetRoot a) \<and>
         (case getBlock (fc_protoArray s) (ia_beaconBlockRoot a) of
            None \<Rightarrow> False
          | Some block \<Rightarrow> pb_slot block \<le> ia_slot a \<and>
              ia_targetRoot a = (if computeEpochAtSlot (pb_slot block) < ia_targetEpoch a
                                 then ia_beaconBlockRoot a else pb_targetRoot block)))"

definition validated_before :: "fork_choice \<Rightarrow> indexed_attestation \<Rightarrow> bool" where
  "validated_before s a = (case ia_treeRoot a of None \<Rightarrow> False
     | Some r \<Rightarrow> r \<in> set (fc_validatedAttestationDatas s))"

text \<open>A validator's vote after an attestation: a newer one wins.\<close>

definition newer_vote :: "vote_tracker option \<Rightarrow> epoch \<Rightarrow> root_hex \<Rightarrow> vote_tracker" where
  "newer_vote v e r = (case v of
       None \<Rightarrow> \<lparr>currentRoot = HEX_ZERO_HASH, nextRoot = r, nextEpoch = e\<rparr>
     | Some x \<Rightarrow> if nextEpoch x < e then x\<lparr>nextRoot := r, nextEpoch := e\<rparr> else x)"

lemma voteAt_fold_addVote:
  "voteAt (fold (addVote e r) is votes) i =
     (if i \<in> set is then Some (newer_vote (voteAt votes i) e r) else voteAt votes i)"
  by (induction "is" arbitrary: votes) (auto simp: voteAt_addVote newer_vote_def split: option.splits)

lemma fold_addLatestMessage: "fc_votes (fold (addLatestMessage e r) is s) = fold (addVote e r) is (fc_votes s) \<and>
    fc_queuedAttestations (fold (addLatestMessage e r) is s) = fc_queuedAttestations s \<and>
    fc_fcStore (fold (addLatestMessage e r) is s) = fc_fcStore s \<and>
    fc_protoArray (fold (addLatestMessage e r) is s) = fc_protoArray s"
  by (induction "is" arbitrary: s) auto

lemma validateOnAttestation_iff:
  "fst (validateOnAttestation a s) = Inr () \<longleftrightarrow>
     ia_attestingIndices a \<noteq> [] \<and> (validated_before s a \<or> attestation_valid s a)"
  by (auto simp: validateOnAttestation_def validateAttestationData_def validated_before_def
      attestation_valid_def Let_def split: option.splits if_splits)

lemma validateOnAttestation_frame: "validateOnAttestation a s = (r, s1) \<Longrightarrow>
    fc_votes s1 = fc_votes s \<and> fc_queuedAttestations s1 = fc_queuedAttestations s \<and>
    fc_fcStore s1 = fc_fcStore s \<and> fc_protoArray s1 = fc_protoArray s"
  by (auto simp: validateOnAttestation_def validateAttestationData_def Let_def split: option.splits if_splits)

text \<open>What is cached of an accepted attestation: the root of its data, when that is backed by a tree.\<close>

definition remembered :: "indexed_attestation \<Rightarrow> root_hex list \<Rightarrow> root_hex list" where
  "remembered a datas = (case ia_treeRoot a of None \<Rightarrow> datas | Some r \<Rightarrow> List.insert r datas)"

lemma validateOnAttestation_state: "validateOnAttestation a s = (v, s1) \<Longrightarrow>
    s1 = (if v = Inr () then s\<lparr>fc_validatedAttestationDatas := remembered a (fc_validatedAttestationDatas s)\<rparr> else s)"
  by (auto simp: validateOnAttestation_def validateAttestationData_def remembered_def Let_def
    split: option.splits if_splits)

lemma fold_addLatestMessage_state: "fold (addLatestMessage e r) is s =
    s\<lparr>fc_votes := fold (addVote e r) is (fc_votes s), fc_synced := fc_synced s \<and> is = []\<rparr>"
  by (induction "is" arbitrary: s) (auto simp: addLatestMessage_def)

text \<open>
  C33. onAttestation returns exactly for an attestation of the zero hash, which it ignores, and for
  one that names a validator and whose data satisfies the conditions of validate_on_attestation or was
  validated before; any other attestation is rejected, and a rejected or ignored one leaves the whole
  state as it was. An accepted attestation of a past slot updates exactly its validators' votes, a
  vote being replaced only by one of a larger epoch, and makes the scores stale; one of the current or
  a later slot changes no vote and is queued. Beside votes, queue and the mark of the scores, only the
  root of the data enters the cache of validated attestations.
\<close>

theorem fc_onAttestation_votes:
  assumes run: "fc_onAttestation a s = (r, s')"
  shows "(r = Inr () \<longleftrightarrow> ia_beaconBlockRoot a = HEX_ZERO_HASH \<or>
      ia_attestingIndices a \<noteq> [] \<and> (validated_before s a \<or> attestation_valid s a)) \<and>
    (if r \<noteq> Inr () \<or> ia_beaconBlockRoot a = HEX_ZERO_HASH then s' = s
     else (\<forall>i. voteAt (fc_votes s') i =
         (if ia_slot a < st_currentSlot (fc_fcStore s) \<and> i \<in> set (ia_attestingIndices a)
          then Some (newer_vote (voteAt (fc_votes s) i) (ia_targetEpoch a) (ia_beaconBlockRoot a))
          else voteAt (fc_votes s) i)) \<and>
       fc_queuedAttestations s' = fc_queuedAttestations s @
         (if st_currentSlot (fc_fcStore s) \<le> ia_slot a
          then [\<lparr>qa_slot = ia_slot a, qa_attestingIndices = ia_attestingIndices a,
                 qa_blockRoot = ia_beaconBlockRoot a, qa_targetEpoch = ia_targetEpoch a\<rparr>] else []) \<and>
       s' = s\<lparr>fc_votes := fc_votes s', fc_queuedAttestations := fc_queuedAttestations s',
         fc_synced := fc_synced s \<and> st_currentSlot (fc_fcStore s) \<le> ia_slot a,
         fc_validatedAttestationDatas := remembered a (fc_validatedAttestationDatas s)\<rparr>)"
proof (cases "ia_beaconBlockRoot a = HEX_ZERO_HASH")
  case True
  with run show ?thesis by (simp add: fc_onAttestation_def)
next
  case nz: False
  obtain v s1 where v: "validateOnAttestation a s = (v, s1)" by (cases "validateOnAttestation a s")
  note f = validateOnAttestation_state [OF v]
  have iff: "v = Inr () \<longleftrightarrow> ia_attestingIndices a \<noteq> [] \<and> (validated_before s a \<or> attestation_valid s a)"
    using validateOnAttestation_iff [of a s] v by simp
  show ?thesis
  proof (cases v)
    case (Inl e)
    with run nz v f have "r = Inl e" "s' = s"
      by (simp_all add: fc_onAttestation_def)
    moreover have "\<not> (ia_attestingIndices a \<noteq> [] \<and> (validated_before s a \<or> attestation_valid s a))"
      using iff Inl by simp
    ultimately show ?thesis
      using nz by simp
  next
    case (Inr u)
    with iff have ok: "ia_attestingIndices a \<noteq> []" "validated_before s a \<or> attestation_valid s a" by simp_all
    have s1: "s1 = s\<lparr>fc_validatedAttestationDatas := remembered a (fc_validatedAttestationDatas s)\<rparr>"
      using f Inr by simp
    from Inr run nz v have s': "r = Inr ()"
      "s' = (if ia_slot a < st_currentSlot (fc_fcStore s1)
        then fold (addLatestMessage (ia_targetEpoch a) (ia_beaconBlockRoot a)) (ia_attestingIndices a) s1
        else s1\<lparr>fc_queuedAttestations := fc_queuedAttestations s1 @
             [\<lparr>qa_slot = ia_slot a, qa_attestingIndices = ia_attestingIndices a,
               qa_blockRoot = ia_beaconBlockRoot a, qa_targetEpoch = ia_targetEpoch a\<rparr>]\<rparr>)"
      by (simp_all add: fc_onAttestation_def)
    show ?thesis
      using ok nz by (simp add: s' s1 fold_addLatestMessage_state voteAt_fold_addVote)
  qed
qed

section \<open>Time\<close>

lemma onTick_frame: "onTick t s = (r, s') \<Longrightarrow> fc_votes s' = fc_votes s \<and>
    fc_queuedAttestations s' = fc_queuedAttestations s \<and> fc_protoArray s' = fc_protoArray s"
  by (auto simp: onTick_def Let_def split: option.splits sum.splits if_splits)

lemma ticks_ok: "ticks t s = (Inr (), s') \<Longrightarrow>
    st_currentSlot (fc_fcStore s') = max t (st_currentSlot (fc_fcStore s)) \<and> fc_votes s' = fc_votes s \<and>
    fc_queuedAttestations s' = fc_queuedAttestations s"
proof (induction t s rule: ticks.induct)
  case (1 t s)
  show ?case
  proof (cases "st_currentSlot (fc_fcStore s) < t")
    case True
    obtain r s1 where r: "onTick (Suc (st_currentSlot (fc_fcStore s))) s = (r, s1)"
      by (cases "onTick (Suc (st_currentSlot (fc_fcStore s))) s")
    with "1.prems" True obtain u where u: "r = Inr u"
      by (cases r) (auto simp: ticks.simps [of t s])
    have "ticks t s1 = (Inr (), s')"
      using "1.prems" True r u by (simp add: ticks.simps [of t s])
    with "1.IH" [OF True r [symmetric]] u onTick_slot [OF r] onTick_frame [OF r] True show ?thesis by auto
  next
    case False
    with "1.prems" show ?thesis by (simp add: ticks.simps [of t s])
  qed
qed

definition queued_votes :: "queued_attestation list \<Rightarrow> vote_tracker option list \<Rightarrow> vote_tracker option list" where
  "queued_votes q votes = fold (\<lambda>a. fold (addVote (qa_targetEpoch a) (qa_blockRoot a)) (qa_attestingIndices a)) q votes"

lemma processAttestationQueue_votes:
  "fc_votes (processAttestationQueue s) =
     queued_votes (filter (\<lambda>a. qa_slot a \<le> st_currentSlot (fc_fcStore s)) (fc_queuedAttestations s)) (fc_votes s) \<and>
   fc_queuedAttestations (processAttestationQueue s) =
     filter (\<lambda>a. \<not> qa_slot a \<le> st_currentSlot (fc_fcStore s)) (fc_queuedAttestations s) \<and>
   fc_fcStore (processAttestationQueue s) = fc_fcStore s"
proof -
  have "fc_votes (fold (\<lambda>a. fold (addLatestMessage (qa_targetEpoch a) (qa_blockRoot a)) (qa_attestingIndices a)) q s)
      = queued_votes q (fc_votes s) \<and>
    fc_queuedAttestations (fold (\<lambda>a. fold (addLatestMessage (qa_targetEpoch a) (qa_blockRoot a)) (qa_attestingIndices a)) q s)
      = fc_queuedAttestations s \<and>
    fc_fcStore (fold (\<lambda>a. fold (addLatestMessage (qa_targetEpoch a) (qa_blockRoot a)) (qa_attestingIndices a)) q s)
      = fc_fcStore s" for q s
    by (induction q arbitrary: s) (simp_all add: queued_votes_def fold_addLatestMessage)
  then show ?thesis
    by (simp add: processAttestationQueue_def Let_def)
qed

lemma newer_vote_epoch: "e \<le> nextEpoch (newer_vote v e r)"
  by (auto simp: newer_vote_def split: option.splits)

lemma vote_le_newer: "vote_le v (Some (newer_vote v e r))"
  by (auto simp: newer_vote_def vote_le_def split: option.splits)

lemma queued_votes_epoch:
  "a \<in> set q \<Longrightarrow> i \<in> set (qa_attestingIndices a) \<Longrightarrow>
   \<exists>v. voteAt (queued_votes q votes) i = Some v \<and> qa_targetEpoch a \<le> nextEpoch v"
proof (induction q arbitrary: votes)
  case (Cons b q)
  have mono: "vote_le (voteAt vs j) (voteAt (queued_votes q vs) j)" for vs j
  proof (induction q arbitrary: vs)
    case (Cons c q)
    have "vote_le (voteAt vs j) (voteAt (fold (addVote (qa_targetEpoch c) (qa_blockRoot c)) (qa_attestingIndices c) vs) j)"
      by (simp add: voteAt_fold_addVote vote_le_newer)
    with Cons.IH vote_le_trans show ?case by (fastforce simp: queued_votes_def)
  qed (simp add: queued_votes_def)
  show ?case
  proof (cases "a = b")
    case True
    let ?vs = "fold (addVote (qa_targetEpoch a) (qa_blockRoot a)) (qa_attestingIndices a) votes"
    have "voteAt ?vs i = Some (newer_vote (voteAt votes i) (qa_targetEpoch a) (qa_blockRoot a))"
      using Cons.prems by (simp add: voteAt_fold_addVote)
    with mono [of ?vs i] newer_vote_epoch [of "qa_targetEpoch a" "voteAt votes i" "qa_blockRoot a"] True
    show ?thesis
      by (force simp: queued_votes_def vote_le_def split: option.splits)
  next
    case False
    with Cons show ?thesis by (simp add: queued_votes_def)
  qed
qed simp

text \<open>
  When \<open>updateTime\<close> returns, the clock stands at the given slot (or where it was, if later),
  exactly the queued attestations up to the new slot have left the queue, and none of them is lost:
  each of their validators has a latest message at least as new as the attestation.
\<close>

theorem updateTime_queue:
  assumes run: "updateTime t s = (Inr (), s')"
  shows "getTime s' = max t (getTime s) \<and>
    fc_queuedAttestations s' = filter (\<lambda>a. getTime s' < qa_slot a) (fc_queuedAttestations s) \<and>
    (\<forall>a \<in> set (fc_queuedAttestations s). qa_slot a \<le> getTime s' \<longrightarrow>
       (\<forall>i \<in> set (qa_attestingIndices a). \<exists>m. getLatestMessage s' i = Some m \<and> qa_targetEpoch a \<le> lm_epoch m))"
proof -
  from run obtain s1 where s1: "ticks t s = (Inr (), s1)"
    and s': "s' = (processAttestationQueue s1)\<lparr>fc_validatedAttestationDatas := []\<rparr>"
    by (auto simp: updateTime_def bind_st_eq_Inr)
  note tk = ticks_ok [OF s1] and q = processAttestationQueue_votes [of s1]
  have time: "getTime s' = max t (getTime s)" "getTime s' = st_currentSlot (fc_fcStore s1)"
    using tk q by (simp_all add: getTime_def s')
  have "\<exists>m. getLatestMessage s' i = Some m \<and> qa_targetEpoch a \<le> lm_epoch m"
    if "a \<in> set (fc_queuedAttestations s)" "qa_slot a \<le> getTime s'" "i \<in> set (qa_attestingIndices a)" for a i
  proof -
    have "a \<in> set (filter (\<lambda>a. qa_slot a \<le> st_currentSlot (fc_fcStore s1)) (fc_queuedAttestations s1))"
      using that tk time by simp
    from queued_votes_epoch [OF this that(3)] q show ?thesis
      by (force simp: getLatestMessage_def s')
  qed
  with time tk q show ?thesis
    by (simp add: s' not_le cong: filter_cong)
qed

section \<open>The head\<close>

lemma currentBoost_frame: "currentBoost cfg s = (r, s1) \<Longrightarrow>
    fc_protoArray s1 = fc_protoArray s \<and> fc_votes s1 = fc_votes s \<and> fc_fcStore s1 = fc_fcStore s \<and>
    fc_justifiedBalances s1 = fc_justifiedBalances s"
  by (auto simp: currentBoost_def split: option.splits)

lemma syncScores_ok:
  assumes "syncScores cfg s = (Inr (), s1)"
  shows "\<exists>deltas boost. computeDeltas (pa_indices (fc_protoArray s)) (fc_votes s) (fc_justifiedBalances s)
      (fc_justifiedBalances s) = (Inr deltas, fc_votes s1) \<and>
    applyScoreChanges (fc_protoArray s) deltas boost
      (cp_epoch (st_justifiedCheckpoint (fc_fcStore s))) (cp_root (st_justifiedCheckpoint (fc_fcStore s)))
      (cp_epoch (st_finalizedCheckpoint (fc_fcStore s))) (cp_root (st_finalizedCheckpoint (fc_fcStore s)))
      = Inr (fc_protoArray s1) \<and>
    fc_fcStore s1 = fc_fcStore s \<and> fc_synced s1 \<and> fc_justifiedBalances s1 = fc_justifiedBalances s"
proof -
  obtain r votes where c: "computeDeltas (pa_indices (fc_protoArray s)) (fc_votes s)
      (fc_justifiedBalances s) (fc_justifiedBalances s) = (r, votes)"
    by (metis prod.exhaust)
  with assms obtain deltas where r: "r = Inr deltas"
    by (cases r) (auto simp: syncScores_def)
  from assms obtain boost s2 where b: "currentBoost cfg (s\<lparr>fc_votes := votes\<rparr>) = (Inr boost, s2)"
    "(case applyScoreChanges (fc_protoArray s2) deltas boost
        (cp_epoch (st_justifiedCheckpoint (fc_fcStore s2))) (cp_root (st_justifiedCheckpoint (fc_fcStore s2)))
        (cp_epoch (st_finalizedCheckpoint (fc_fcStore s2))) (cp_root (st_finalizedCheckpoint (fc_fcStore s2))) of
        Inl e \<Rightarrow> (Inl (PROTO_ARRAY e), s2)
      | Inr pa \<Rightarrow> (Inr (), s2\<lparr>fc_protoArray := pa, fc_synced := True\<rparr>)) = (Inr (), s1)"
    by (auto simp: syncScores_def c r bind_st_eq_Inr)
  with currentBoost_frame [OF b(1)] c r show ?thesis
    by (auto split: sum.splits)
qed

lemma applyScoreChanges_indices: "pa_wf pa \<Longrightarrow> applyScoreChanges pa deltas boost jE jR fE fR = Inr pa' \<Longrightarrow>
    pa_wf pa' \<and> pa_indices pa' = pa_indices pa \<and> length (pa_nodes pa') = length (pa_nodes pa)"
proof -
  assume wf: "pa_wf pa" and app: "applyScoreChanges pa deltas boost jE jR fE fR = Inr pa'"
  from applyScoreChanges_split [OF wf app] obtain nodes pa1 pa2 where
    len: "length deltas = length (pa_nodes pa)"
    and p1: "pa_nodes pa1 = nodes" "pa_indices pa1 = pa_indices pa" "pa_wf pa1"
    and best: "applyBestChildren (length nodes) pa1 = Inr pa2"
    and pa': "pa' = pa2\<lparr>pa_previousProposerBoost := boost\<rparr>" by blast
  have "same_core pa1 pa2"
    using applyBestChildren_ok [OF p1(3), of "length nodes"] best p1(1) by auto
  with same_core_fields [OF this] p1 applyScoreChanges_wf [OF wf len, of boost jE jR fE fR] app show ?thesis
    by (simp add: pa')
qed

text \<open>
  C2. A call of \<open>updateHead\<close> on stale scores that returns caches and returns the LMD-GHOST head of the
  justified block: all pending votes are applied, every weight is the sum of the justified balances of
  the votes of its subtree plus the boost, and the head is what \<open>get_head\<close> reaches with these weights.
  The boost is the one that the resulting array stores as its previous boost. Hypotheses: before the
  call the array is well-formed, a block of the zero hash has no parent (\<open>zero_is_root\<close>), and the
  weights are the vote sums at the justified balances of now (\<open>votes_applied\<close>; they are not after the
  justified balances have changed, see \<open>stale_balances\<close> of \<open>ForkChoiceExamples\<close>), the justified block
  is in the array and kept by the filter, and after the call the children of every viable block are
  viable.
\<close>

theorem updateHead_ghost:
  assumes wf: "pa_wf (fc_protoArray s)" and z: "zero_is_root (pa_nodes (fc_protoArray s))"
    and stale: "\<not> fc_synced s"
    and old: "votes_applied (fc_protoArray s) (fc_votes s) (fc_justifiedBalances s)"
    and run: "updateHead cfg s = (Inr b, s')"
    and j: "jm_get (pa_indices (fc_protoArray s)) (cp_root (st_justifiedCheckpoint (fc_fcStore s))) = Some j"
    and vc: "viable_closed (fc_protoArray s')" and kept: "filter_block_tree (fc_protoArray s') j"
  shows "fc_head s' = b \<and> fc_synced s' \<and>
    pb_blockRoot b = pb_blockRoot (pa_nodes (fc_protoArray s') ! get_head (fc_protoArray s') j) \<and>
    fc_votes s' = map moved (fc_votes s) \<and>
    votes_applied (fc_protoArray s') (fc_votes s') (fc_justifiedBalances s)"
proof -
  obtain s1 where s1: "syncScores cfg s = (Inr (), s1)" and h: "setHead s1 = (Inr b, s')"
    using run stale by (auto simp: updateHead_def bind_st_eq_Inr)
  from syncScores_ok [OF s1] obtain deltas boost where
    cd: "computeDeltas (pa_indices (fc_protoArray s)) (fc_votes s) (fc_justifiedBalances s)
      (fc_justifiedBalances s) = (Inr deltas, fc_votes s1)"
    and app: "applyScoreChanges (fc_protoArray s) deltas boost
      (cp_epoch (st_justifiedCheckpoint (fc_fcStore s))) (cp_root (st_justifiedCheckpoint (fc_fcStore s)))
      (cp_epoch (st_finalizedCheckpoint (fc_fcStore s))) (cp_root (st_finalizedCheckpoint (fc_fcStore s)))
      = Inr (fc_protoArray s1)"
    and fr: "fc_fcStore s1 = fc_fcStore s" "fc_synced s1" by blast
  from h obtain hr n where hr: "findHead (fc_protoArray s1) (cp_root (st_justifiedCheckpoint (fc_fcStore s1))) = Inr hr"
    "getNode (fc_protoArray s1) hr = Some n" "b = proto_block.truncate n" "s' = s1\<lparr>fc_head := b\<rparr>"
    by (auto simp: setHead_def split: sum.splits option.splits)
  have pa: "fc_protoArray s' = fc_protoArray s1" "fc_votes s' = fc_votes s1"
    using hr by simp_all
  have head: "findHead (fc_protoArray s1) (cp_root (st_justifiedCheckpoint (fc_fcStore s))) =
      Inr (pb_blockRoot (pa_nodes (fc_protoArray s1) ! get_head (fc_protoArray s1) j))"
    using applyScoreChanges_indices [OF wf app] j
    by (intro findHead_head [OF wf app vc [unfolded pa] _ kept [unfolded pa]]) simp
  have "votes_applied (fc_protoArray s1) (fc_votes s1) (fc_justifiedBalances s)"
    by (rule scores_exact [OF wf z old cd app])
  moreover have "pb_blockRoot n = hr"
    using hr(2) pa_wf_get [of "fc_protoArray s1" hr] applyScoreChanges_indices [OF wf app]
    by (auto simp: getNode_def getNodeByIndex_def split: option.splits)
  moreover have "fc_votes s1 = map moved (fc_votes s)"
    using computeDeltas_ok [of "pa_nodes (fc_protoArray s)" "pa_indices (fc_protoArray s)"
      "fc_votes s" "fc_justifiedBalances s" "fc_justifiedBalances s"] cd wf by (auto simp: pa_wf_def)
  ultimately show ?thesis
    using head hr fr pa by (simp add: proto_block.truncate_def)
qed

section \<open>The boost\<close>

lemma computeProposerBoostScore_bound:
  assumes "computeProposerBoostScore t v n b = Some x"
  shows "x * 100 * n \<le> t * b"
proof -
  have x: "x = v div n * (t div v) * b div 100"
    using assms by (auto simp: computeProposerBoostScore_def Let_def split: if_splits)
  have "x * 100 \<le> v div n * (t div v) * b"
    unfolding x by (rule div_times_less_eq_dividend)
  then have "x * 100 * n \<le> (v div n * n) * (t div v) * b"
    using mult_le_mono1 [of "x * 100" "v div n * (t div v) * b" n] by (simp add: algebra_simps)
  also have "\<dots> \<le> v * (t div v) * b"
    by (intro mult_le_mono1) (rule div_times_less_eq_dividend)
  also have "\<dots> \<le> t * b"
    by (intro mult_le_mono1) (metis div_times_less_eq_dividend mult.commute)
  finally show ?thesis .
qed

text \<open>
  The proposer boost never exceeds its share: the score that \<open>computeProposerBoostScoreFromBalances\<close>
  returns is at most \<open>PROPOSER_SCORE_BOOST\<close> percent of the total balance divided by the slots of an
  epoch, and it is not a number exactly when every balance is zero.
\<close>

theorem proposer_boost_bound:
  "(case computeProposerBoostScoreFromBalances balances slotsPerEpoch boost of
      None \<Rightarrow> list_all (\<lambda>b. b = 0) balances
    | Some x \<Rightarrow> \<not> list_all (\<lambda>b. b = 0) balances \<and> x * 100 * slotsPerEpoch \<le> sum_list balances * boost)"
proof -
  have sum: "sum_list (filter (\<lambda>b. 0 < b) balances) = sum_list balances"
    by (induction balances) auto
  have none: "length (filter (\<lambda>b. 0 < b) balances) = 0 \<longleftrightarrow> list_all (\<lambda>b. b = 0) balances"
    by (induction balances) auto
  show ?thesis
  proof (cases "computeProposerBoostScoreFromBalances balances slotsPerEpoch boost")
    case None
    with none show ?thesis
      by (auto simp: computeProposerBoostScoreFromBalances_def computeProposerBoostScore_def Let_def split: if_splits)
  next
    case (Some x)
    then have s: "computeProposerBoostScore (sum_list balances) (length (filter (\<lambda>b. 0 < b) balances)) slotsPerEpoch boost = Some x"
      using sum by (simp add: computeProposerBoostScoreFromBalances_def Let_def)
    then have "length (filter (\<lambda>b. 0 < b) balances) \<noteq> 0"
      by (auto simp: computeProposerBoostScore_def)
    with none Some computeProposerBoostScore_bound [OF s] show ?thesis by simp
  qed
qed

lemma onTick_boost: "onTick t s = (r, s') \<Longrightarrow> t \<le> Suc (st_currentSlot (fc_fcStore s)) \<Longrightarrow> fc_proposerBoostRoot s' = None"
  by (auto simp: onTick_def Let_def split: option.splits sum.splits if_splits)

lemma ticks_boost: "st_currentSlot (fc_fcStore (snd (ticks t s))) = st_currentSlot (fc_fcStore s) \<and>
    fc_proposerBoostRoot (snd (ticks t s)) = fc_proposerBoostRoot s \<or> fc_proposerBoostRoot (snd (ticks t s)) = None"
proof (induction t s rule: ticks.induct)
  case (1 t s)
  show ?case
  proof (cases "st_currentSlot (fc_fcStore s) < t")
    case True
    obtain r s1 where r: "onTick (Suc (st_currentSlot (fc_fcStore s))) s = (r, s1)"
      by (cases "onTick (Suc (st_currentSlot (fc_fcStore s))) s")
    note b = onTick_boost [OF r]
    show ?thesis
    proof (cases r)
      case (Inl e)
      with True r b show ?thesis by (simp add: ticks.simps [of t s])
    next
      case (Inr u)
      with "1.IH" [OF True r [symmetric]] b True r show ?thesis
        by (auto simp: ticks.simps [of t s])
    qed
  qed (simp add: ticks.simps [of t s])
qed

lemma fold_boost: "(\<And>x s. fc_proposerBoostRoot (f x s) = fc_proposerBoostRoot s) \<Longrightarrow>
    fc_proposerBoostRoot (fold f xs s) = fc_proposerBoostRoot s"
  by (induction xs arbitrary: s) auto

lemma addLatestMessage_boost [simp]: "fc_proposerBoostRoot (addLatestMessage e r i s) = fc_proposerBoostRoot s"
  by (simp add: addLatestMessage_def)

lemma snd_bind_st: "snd (bind_st m f s) = (case m s of (Inl e, t) \<Rightarrow> t | (Inr x, t) \<Rightarrow> snd (f x t))"
  by (auto simp: bind_st_def split: prod.splits sum.splits)

definition calm :: "fork_choice \<Rightarrow> fork_choice \<Rightarrow> bool" where
  "calm s s' \<longleftrightarrow> fc_proposerBoostRoot s' = fc_proposerBoostRoot s \<and> getTime s' = getTime s"

lemma calm_trans: "calm a b \<Longrightarrow> calm b c \<Longrightarrow> calm a c"
  by (simp add: calm_def)

lemma calm_bind: "(\<And>s. calm s (snd (m s))) \<Longrightarrow> (\<And>x s. calm s (snd (f x s))) \<Longrightarrow> calm s (snd (bind_st m f s))"
  by (rule rel_bind_st [where R = calm]) (rule calm_trans)

lemma calm_updateHead: "calm s (snd (updateHead cfg s))"
proof -
  have cb: "calm s (snd (currentBoost cfg s))" for s
    by (auto simp: currentBoost_def calm_def getTime_def split: option.splits)
  have "calm s1 (snd (case r of Inl e \<Rightarrow> (Inl (PROTO_ARRAY e), s1)
      | Inr pa \<Rightarrow> (Inr (), s1\<lparr>fc_protoArray := pa, fc_synced := True\<rparr>)))" for s1 r
    by (simp add: calm_def getTime_def split: sum.split)
  then have "calm (s\<lparr>fc_votes := votes\<rparr>) (snd (syncScores cfg s))"
    if "computeDeltas (pa_indices (fc_protoArray s)) (fc_votes s) (fc_justifiedBalances s)
      (fc_justifiedBalances s) = (r, votes)" for s r votes
    by (cases r) (simp_all add: syncScores_def that calm_bind cb, simp add: calm_def)
  then have "calm s (snd (syncScores cfg s))" for s
    by (cases "computeDeltas (pa_indices (fc_protoArray s)) (fc_votes s) (fc_justifiedBalances s)
      (fc_justifiedBalances s)") (auto simp: calm_def getTime_def)
  moreover have "calm s (snd (setHead s))" for s
    by (auto simp: setHead_def calm_def getTime_def split: sum.splits option.splits)
  ultimately show ?thesis
    unfolding updateHead_def by (intro calm_bind) (auto simp: calm_def)
qed

lemma calm_onAttestation: "calm s (snd (fc_onAttestation a s))"
proof -
  have "calm s (snd (validateOnAttestation a s))" for s
    by (auto simp: validateOnAttestation_def validateAttestationData_def Let_def calm_def getTime_def
        split: option.splits)
  then show ?thesis
    unfolding fc_onAttestation_def
    by (auto intro!: calm_bind) (auto simp: calm_def getTime_def fold_boost fold_addLatestMessage)
qed

lemma updateTime_boost: "fc_proposerBoostRoot (snd (updateTime t s)) = Some r \<Longrightarrow>
    fc_proposerBoostRoot s = Some r \<and> getTime (snd (updateTime t s)) = getTime s"
proof -
  assume b: "fc_proposerBoostRoot (snd (updateTime t s)) = Some r"
  have q: "fc_proposerBoostRoot (processAttestationQueue s) = fc_proposerBoostRoot s" for s
    by (simp add: processAttestationQueue_def Let_def fold_boost)
  obtain x s1 where x: "ticks t s = (x, s1)" by (cases "ticks t s")
  with b q ticks_boost [of t s] processAttestationQueue_votes [of s1] show ?thesis
    by (cases x) (auto simp: updateTime_def snd_bind_st getTime_def)
qed

text \<open>
  Only a timely block is boosted: a boost root that is set after a call either was set before
  and the clock has not moved, or the call was \<open>onBlock\<close> with a block of the current slot received
  in the first of the slot's intervals. In particular every tick of the clock clears the boost.
\<close>

theorem boost_only_timely:
  assumes "fc_proposerBoostRoot (fc_exec env cfg op s) = Some r"
  shows "(fc_proposerBoostRoot s = Some r \<and> getTime (fc_exec env cfg op s) = getTime s) \<or>
    (\<exists>block state pc delay interval. op = OnBlock block state pc \<and> r = env_hashTreeRoot env block \<and>
       bb_slot block = getTime s \<and> pc_blockDelaySec pc = Some delay \<and>
       getCurrentInterval (SECONDS_PER_SLOT cfg) delay = Some interval \<and> interval < 1)"
proof (cases op)
  case UpdateHead
  with assms calm_updateHead [of s cfg] show ?thesis by (simp add: calm_def)
next
  case (OnAttestation a)
  with assms calm_onAttestation [of s a] show ?thesis by (simp add: calm_def)
next
  case (UpdateTime t)
  with assms updateTime_boost [of t s r] show ?thesis by simp
next
  case (Prune x)
  with assms show ?thesis by (auto simp: prune_def getTime_def split: sum.splits prod.splits)
next
  case (SetPruneThreshold t)
  with assms show ?thesis by (simp add: setPruneThreshold_def getTime_def)
next
  case (OnBlock block state pc)
  let ?m = "boostTimelyBlock cfg block pc (env_hashTreeRoot env block)"
  obtain x s1 where x: "updateCheckpoints state pc s = (x, s1)" by (cases "updateCheckpoints state pc s")
  obtain y s2 where y: "?m s1 = (y, s2)" by (cases "?m s1")
  obtain z s3 where z: "addToArray env block state pc s2 = (z, s3)" by (cases "addToArray env block state pc s2")
  have f3: "fc_proposerBoostRoot s3 = fc_proposerBoostRoot s2 \<and> fc_fcStore s3 = fc_fcStore s2"
    using z by (auto simp: addToArray_def split: sum.splits)
  have "fc_exec env cfg op s \<in> {s, s1, s2, s3}"
    using x y z by (cases x; cases y; cases z; cases "checkBlock env cfg block state pc s")
      (auto simp: OnBlock fc_onBlock_def snd_bind_st)
  with updateCheckpoints_frame [OF x] boostTimelyBlock_frame [OF y] f3 assms OnBlock show ?thesis
    by (auto simp: getTime_def)
qed

section \<open>Queries\<close>

text \<open>
  \<open>hasBlockHex\<close> answers, without an exception, whether the block is known and the finalized
  block or one of its descendants, when slots grow along parents.
\<close>

theorem hasBlockHex_iff:
  assumes "pa_wf (fc_protoArray s)" "slots_ok (pa_nodes (fc_protoArray s))"
  shows "hasBlockHex s r = Inr (case (jm_get (pa_indices (fc_protoArray s))
       (cp_root (st_finalizedCheckpoint (fc_fcStore s))), jm_get (pa_indices (fc_protoArray s)) r) of
     (Some f, Some i) \<Rightarrow> f = i \<or> anc (pa_nodes (fc_protoArray s)) f i | _ \<Rightarrow> False)"
  by (auto simp: hasBlockHex_def isDescendantOfFinalized_def isDescendant_eq [OF assms] lift_pa_def
      hasBlock_def jm_has_def split: option.splits)

end
