(* ===== verification/ForkChoiceExamples.thy ===== *)
theory ForkChoiceExamples
  imports ForkChoiceSpec
begin

text \<open>
  A concrete fork choice on the array of theory \<open>ProtoArrayHead\<close>: the fork choice theorems are
  applied to it, and a run shows what becomes of the scores when the justified balances change.
\<close>

section \<open>A concrete fork choice\<close>

definition ex_cfg :: chain_config where
  "ex_cfg = \<lparr>PROPOSER_SCORE_BOOST = 70, SECONDS_PER_SLOT = 12, TERMINAL_BLOCK_HASH = HEX_ZERO_HASH,
     TERMINAL_BLOCK_HASH_ACTIVATION_EPOCH = 0, TERMINAL_TOTAL_DIFFICULTY = 0\<rparr>"

definition ex_env :: ssz_env where
  "ex_env = \<lparr>env_hashTreeRoot = bb_rest,
     env_defaultPayload = \<lparr>ep_parentHash = [], ep_blockHash = [], ep_rest = []\<rparr>,
     env_defaultPayloadHeader = []\<rparr>"

definition ex_checkpoint :: "epoch \<Rightarrow> root_hex \<Rightarrow> checkpoint" where
  "ex_checkpoint e r = \<lparr>cp_epoch = e, cp_root = r\<rparr>"

definition ex_fc :: fork_choice where
  "ex_fc = snd (new_ForkChoice ex_cfg
     (new_ForkChoiceStore 40 (ex_checkpoint 1 ''A'') (ex_checkpoint 0 ''A''))
     ex_array [32, 32, 32] True (ex_block 0 ''A'' ''Z''))"

definition ex_attestation :: "slot \<Rightarrow> root_hex \<Rightarrow> indexed_attestation" where
  "ex_attestation s r = \<lparr>ia_attestingIndices = [0, 2], ia_slot = s, ia_beaconBlockRoot = r,
     ia_targetEpoch = 1, ia_targetRoot = r, ia_treeRoot = None\<rparr>"

definition ex_beacon_block :: beacon_block where
  "ex_beacon_block = \<lparr>bb_slot = 40, bb_parentRoot = ''C'', bb_stateRoot = ''S'', bb_executionPayload = None,
     bb_rest = ''E''\<rparr>"

definition ex_beacon_state :: beacon_state where
  "ex_beacon_state = \<lparr>bs_slot = 40, bs_genesisTime = 0, bs_currentJustifiedCheckpoint = ex_checkpoint 1 ''A'',
     bs_finalizedCheckpoint = ex_checkpoint 0 ''A'', bs_blockRoots = replicate 40 ''C'',
     bs_latestExecutionPayloadHeader = None\<rparr>"

definition ex_data :: precached_data where
  "ex_data = no_data\<lparr>pc_justifiedBalances := Some [32, 32, 32], pc_blockDelaySec := Some 3\<rparr>"

lemma ex_fc_array: "fc_protoArray ex_fc = projr (applyScoreChanges ex_array [0, 0, 0, 0] None 1 ''A'' 0 ''A'')"
  by code_simp

lemma ex_fc_inv: "fc_inv ex_fc"
proof -
  have "length [0, 0, 0, 0 :: int] = length (pa_nodes ex_array)" by code_simp
  from applyScoreChanges_wf [OF ex_array_wf this, where boost = None and jE = 1 and jR = "''A''" and fE = 0 and fR = "''A''"]
  have "pa_wf (fc_protoArray ex_fc)"
    unfolding ex_fc_array by force
  moreover have "cp_epoch (st_justifiedCheckpoint (fc_fcStore ex_fc))
      \<le> cp_epoch (st_bestJustifiedCheckpoint (fc_fcStore ex_fc))" by code_simp
  ultimately show ?thesis by (simp add: fc_inv_def)
qed

lemma ex_fc_wf: "pa_wf (fc_protoArray ex_fc)"
  using ex_fc_inv by (simp add: fc_inv_def)

theorem fc_reach_inv_witness: "fc_inv (fc_exec ex_env ex_cfg (UpdateTime 64) ex_fc)"
  by (rule fc_reach_inv [OF fc_reach.step [OF fc_reach.start fc_step.call] ex_fc_inv])

theorem fc_reach_advances_witness: "advances ex_fc (fc_exec ex_env ex_cfg (UpdateTime 64) ex_fc)"
  by (rule fc_reach_advances [OF fc_reach.step [OF fc_reach.start fc_step.call]])

theorem getAncestor_at_witness:
  "getAncestor (fc_protoArray ex_fc) ''D'' 8 = Inr ''A'' \<and>
   getAncestor (fc_protoArray ex_fc) ''E'' 8 = Inl (MISSING_PROTO_ARRAY_BLOCK ''E'')"
proof -
  have "jm_get (pa_indices (fc_protoArray ex_fc)) ''D'' = Some 3"
    "ancestor_at (pa_nodes (fc_protoArray ex_fc)) 3 8 = Some 0"
    "pb_blockRoot (pa_nodes (fc_protoArray ex_fc) ! 0) = ''A''"
    "jm_get (pa_indices (fc_protoArray ex_fc)) ''E'' = None"
    by (code_simp, code_simp, code_simp, code_simp)
  then show ?thesis
    using getAncestor_at [OF ex_fc_wf] by simp
qed

theorem fc_onBlock_accepted_witness:
  "block_acceptable ex_fc ex_beacon_block \<and>
   hasBlock (fc_protoArray (snd (fc_onBlock ex_env ex_cfg ex_beacon_block ex_beacon_state ex_data ex_fc))) ''E''"
proof -
  let ?r = "fc_onBlock ex_env ex_cfg ex_beacon_block ex_beacon_state ex_data ex_fc"
  have f: "fst ?r = Inr ()" by code_simp
  have "?r = (Inr (), snd ?r)"
    using f by (metis prod.collapse)
  from fc_onBlock_accepted [OF ex_fc_wf this] show ?thesis
    by (simp add: ex_env_def ex_beacon_block_def)
qed

theorem fc_onAttestation_votes_witness:
  "map (map_option nextRoot) (fc_votes (snd (fc_onAttestation (ex_attestation 39 ''D'') ex_fc)))
     = [Some ''D'', None, Some ''D''] \<and>
   fst (fc_onAttestation (ex_attestation 39 ''D'') ex_fc) = Inr ()"
proof
  have "ia_attestingIndices (ex_attestation 39 ''D'') \<noteq> []" by (simp add: ex_attestation_def)
  moreover have "attestation_valid ex_fc (ex_attestation 39 ''D'')" by code_simp
  ultimately show "fst (fc_onAttestation (ex_attestation 39 ''D'') ex_fc) = Inr ()"
    using fc_onAttestation_votes [of _ ex_fc "fst (fc_onAttestation (ex_attestation 39 ''D'') ex_fc)"
        "snd (fc_onAttestation (ex_attestation 39 ''D'') ex_fc)"] by simp
  show "map (map_option nextRoot) (fc_votes (snd (fc_onAttestation (ex_attestation 39 ''D'') ex_fc)))
     = [Some ''D'', None, Some ''D'']" by code_simp
qed

text \<open>An attestation of the current slot is queued; the next tick applies it.\<close>

definition ex_queued :: fork_choice where
  "ex_queued = snd (fc_onAttestation (ex_attestation 40 ''D'') ex_fc)"

theorem updateTime_queue_witness:
  "length (fc_queuedAttestations ex_queued) = 1 \<and> getTime (snd (updateTime 41 ex_queued)) = 41 \<and>
   fc_queuedAttestations (snd (updateTime 41 ex_queued)) = [] \<and>
   (\<exists>m. getLatestMessage (snd (updateTime 41 ex_queued)) 2 = Some m \<and> 1 \<le> lm_epoch m)"
proof -
  let ?q = "\<lparr>qa_slot = 40, qa_attestingIndices = [0, 2], qa_blockRoot = ''D'', qa_targetEpoch = 1\<rparr>"
  have q: "fc_queuedAttestations ex_queued = [?q]" "getTime ex_queued = 40"
    by (code_simp, code_simp)
  have "fst (updateTime 41 ex_queued) = Inr ()" by code_simp
  then have "updateTime 41 ex_queued = (Inr (), snd (updateTime 41 ex_queued))"
    by (metis prod.collapse)
  from updateTime_queue [OF this] show ?thesis
    by (simp add: q)
qed

definition ex_voting :: fork_choice where
  "ex_voting = snd (fc_onAttestation (ex_attestation 39 ''D'') ex_fc)"

theorem updateHead_ghost_witness:
  "fc_head (snd (updateHead ex_cfg ex_voting)) = ex_block 10 ''D'' ''B'' \<and>
   votes_applied (fc_protoArray (snd (updateHead ex_cfg ex_voting)))
     (fc_votes (snd (updateHead ex_cfg ex_voting))) (fc_justifiedBalances ex_voting)"
proof -
  let ?r = "updateHead ex_cfg ex_voting"
  have wf: "pa_wf (fc_protoArray ex_voting)"
    using good_onAttestation [of ex_fc "ex_attestation 39 ''D''"] ex_fc_inv
    by (simp add: good_def fc_inv_def ex_voting_def)
  have z: "zero_is_root (pa_nodes (fc_protoArray ex_voting))" by code_simp
  have u: "\<not> fc_synced ex_voting" by code_simp
  have va: "votes_applied (fc_protoArray ex_voting) (fc_votes ex_voting) (fc_justifiedBalances ex_voting)"
    by code_simp
  have f: "fst ?r = Inr (ex_block 10 ''D'' ''B'')" by code_simp
  have run: "?r = (Inr (ex_block 10 ''D'' ''B''), snd ?r)"
    using f by (metis prod.collapse)
  have j: "jm_get (pa_indices (fc_protoArray ex_voting)) (cp_root (st_justifiedCheckpoint (fc_fcStore ex_voting)))
      = Some 0" by code_simp
  have vc: "viable_closed (fc_protoArray (snd ?r))" by code_simp
  have kept: "filter_block_tree (fc_protoArray (snd ?r)) 0" by code_simp
  from updateHead_ghost [OF wf z u va run j vc kept] show ?thesis by blast
qed

theorem boost_only_timely_witness:
  "fc_proposerBoostRoot (fc_exec ex_env ex_cfg (OnBlock ex_beacon_block ex_beacon_state ex_data) ex_fc) = Some ''E'' \<and>
   bb_slot ex_beacon_block = getTime ex_fc"
proof -
  let ?op = "OnBlock ex_beacon_block ex_beacon_state ex_data"
  have b: "fc_proposerBoostRoot (fc_exec ex_env ex_cfg ?op ex_fc) = Some ''E''" by code_simp
  have "fc_proposerBoostRoot ex_fc \<noteq> Some ''E''" by code_simp
  with boost_only_timely [OF b] b show ?thesis by auto
qed

section \<open>Scores after a change of the justified balances\<close>

definition ex_late_state :: beacon_state where
  "ex_late_state = ex_beacon_state\<lparr>bs_slot := 64, bs_currentJustifiedCheckpoint := ex_checkpoint 2 ''A''\<rparr>"

definition ex_stale :: fork_choice where
  "ex_stale = fold (fc_exec ex_env ex_cfg)
     [OnAttestation (ex_attestation 39 ''D''), UpdateHead, UpdateTime 64,
      OnBlock (ex_beacon_block\<lparr>bb_slot := 64\<rparr>) ex_late_state
        (ex_data\<lparr>pc_justifiedBalances := Some [1, 1, 1], pc_blockDelaySec := Some 5\<rparr>),
      UpdateHead] ex_fc"

text \<open>
  \<open>updateHead\<close> gives \<open>computeDeltas\<close> the new justified balances also as the old ones, so a
  change of the justified balances does not reach the weights. Here two votes for \<open>D\<close> were applied at
  32 each; a block then justifies a state in which every balance is 1, and after the next
  \<open>updateHead\<close> the scores count as up to date, \<open>D\<close> still weighs 64, while its votes are worth 2.
\<close>

theorem stale_balances:
  "fc_synced ex_stale \<and> fc_justifiedBalances ex_stale = [1, 1, 1] \<and>
   map_option pn_weight (getNode (fc_protoArray ex_stale) ''D'') = Some 64 \<and>
   votes_for currentRoot ''D'' (fc_justifiedBalances ex_stale) (fc_votes ex_stale) = 2 \<and>
   \<not> votes_applied (fc_protoArray ex_stale) (fc_votes ex_stale) (fc_justifiedBalances ex_stale)"
proof (intro conjI)
  show "fc_synced ex_stale" by code_simp
  show "fc_justifiedBalances ex_stale = [1, 1, 1]" by code_simp
  show "map_option pn_weight (getNode (fc_protoArray ex_stale) ''D'') = Some 64" by code_simp
  show "votes_for currentRoot ''D'' (fc_justifiedBalances ex_stale) (fc_votes ex_stale) = 2" by code_simp
  show "\<not> votes_applied (fc_protoArray ex_stale) (fc_votes ex_stale) (fc_justifiedBalances ex_stale)" by code_simp
qed

theorem hasBlockHex_witness: "hasBlockHex ex_fc ''D'' = Inr True \<and> hasBlockHex ex_fc ''E'' = Inr False"
proof -
  have s: "slots_ok (pa_nodes (fc_protoArray ex_fc))" by code_simp
  have "jm_get (pa_indices (fc_protoArray ex_fc)) ''D'' = Some 3"
    "jm_get (pa_indices (fc_protoArray ex_fc)) (cp_root (st_finalizedCheckpoint (fc_fcStore ex_fc))) = Some 0"
    "anc (pa_nodes (fc_protoArray ex_fc)) 0 3"
    "jm_get (pa_indices (fc_protoArray ex_fc)) ''E'' = None"
    by (code_simp, code_simp, code_simp, code_simp)
  then show ?thesis
    using hasBlockHex_iff [OF ex_fc_wf s] by simp
qed

end
