(* ===== verification/Bytes.thy ===== *)
theory Bytes
  imports Params "HOL-Library.Word"
begin

text \<open>
  Bytes and their big-endian numbers (\<open>packages/utils/src/bytes.ts\<close>). A byte is an \<open>8 word\<close>.
\<close>

section \<open>Types and encodings\<close>

type_synonym bytes = "8 word list"
type_synonym pubkey = bytes
type_synonym root = bytes

text \<open>\<open>intToBytes(value, length, "be")\<close> for a value that fits.\<close>

fun intToBytesBE :: "nat \<Rightarrow> nat \<Rightarrow> bytes" where
  "intToBytesBE n 0 = []"
| "intToBytesBE n (Suc len) = of_nat (n div 256 ^ len) # intToBytesBE n len"

fun bytesToIntBE :: "bytes \<Rightarrow> nat" where
  "bytesToIntBE [] = 0"
| "bytesToIntBE (b # bs) = unat b * 256 ^ length bs + bytesToIntBE bs"

text \<open>Little endian, the default.\<close>

definition intToBytesLE :: "nat \<Rightarrow> nat \<Rightarrow> bytes" where
  "intToBytesLE n len = rev (intToBytesBE n len)"

definition bytesToIntLE :: "bytes \<Rightarrow> nat" where
  "bytesToIntLE bs = bytesToIntBE (rev bs)"

text \<open>\<open>Uint8Array.set\<close> of bytes that fit.\<close>

definition setBytes :: "bytes \<Rightarrow> nat \<Rightarrow> bytes \<Rightarrow> bytes" where
  "setBytes src offset dst = take offset dst @ src @ drop (offset + length src) dst"

section \<open>Numbers round trip and keep their order\<close>

lemma length_intToBytesBE [simp]: "length (intToBytesBE n len) = len"
  by (induction len) auto

lemma intToBytesBE_mod: "intToBytesBE (n mod 256 ^ k) len = intToBytesBE n len" if "len \<le> k"
  using that
proof (induction len)
  case (Suc len)
  have e: "(256::nat) ^ k = 256 ^ len * 256 * 256 ^ (k - Suc len)"
    using Suc.prems by (metis le_add_diff_inverse mult.commute power_Suc power_add)
  have "(n mod 256 ^ k) div 256 ^ len mod 256 = n div 256 ^ len mod 256"
    unfolding e by (simp add: mod_mult2_eq mult.assoc div_mult2_eq)
  then have "(of_nat ((n mod 256 ^ k) div 256 ^ len) :: 8 word) = of_nat (n div 256 ^ len)"
    by (simp add: word_unat_eq_iff unat_of_nat)
  with Suc show ?case by simp
qed simp

lemma unat_byte: "n < 256 \<Longrightarrow> unat (of_nat n :: 8 word) = n"
  by (simp add: unat_of_nat)

lemma bytesToIntBE_intToBytesBE: "n < 256 ^ len \<Longrightarrow> bytesToIntBE (intToBytesBE n len) = n"
proof (induction len arbitrary: n)
  case (Suc len)
  have "n div 256 ^ len < 256"
    using Suc.prems by (simp add: less_mult_imp_div_less mult.commute)
  moreover have "bytesToIntBE (intToBytesBE n len) = n mod 256 ^ len"
    using Suc.IH [of "n mod 256 ^ len"] intToBytesBE_mod [of len len n] by simp
  ultimately show ?case
    using div_mult_mod_eq [of n "256 ^ len"] by (simp add: unat_byte)
qed simp

lemma less_div_mod: "(n div b < m div b \<or> n div b = m div b \<and> n mod b < m mod b) \<longleftrightarrow> n < (m :: nat)"
proof (cases "n div b" "m div b" rule: linorder_cases)
  case less
  then have "\<not> m \<le> n"
    using div_le_mono [of m n b] by linarith
  with less show ?thesis by simp
next
  case equal
  have "n = n div b * b + n mod b" "m = n div b * b + m mod b"
    using equal div_mult_mod_eq [of n b] div_mult_mod_eq [of m b] by simp_all
  then have "n < m \<longleftrightarrow> n mod b < m mod b"
    by linarith
  with equal show ?thesis by simp
next
  case greater
  then have "\<not> n \<le> m"
    using div_le_mono [of n m b] by linarith
  with greater show ?thesis by simp
qed

lemma intToBytesBE_inj: "n < 256 ^ len \<Longrightarrow> m < 256 ^ len \<Longrightarrow> intToBytesBE n len = intToBytesBE m len \<longleftrightarrow> n = m"
  by (metis bytesToIntBE_intToBytesBE)

lemma intToBytesBE_less: "n < 256 ^ len \<Longrightarrow> m < 256 ^ len \<Longrightarrow> intToBytesBE n len < intToBytesBE m len \<longleftrightarrow> n < m"
proof (induction len arbitrary: n m)
  case (Suc len)
  let ?b = "256 ^ len :: nat"
  have d: "n div ?b < 256" "m div ?b < 256"
    using Suc.prems by (simp_all add: less_mult_imp_div_less mult.commute)
  have "intToBytesBE n len < intToBytesBE m len \<longleftrightarrow> n mod ?b < m mod ?b"
    using Suc.IH [of "n mod ?b" "m mod ?b"] by (simp add: intToBytesBE_mod)
  moreover have "(of_nat (n div ?b) :: 8 word) < of_nat (m div ?b) \<longleftrightarrow> n div ?b < m div ?b"
    using d by (simp add: word_less_nat_alt unat_byte)
  moreover have "(of_nat (n div ?b) :: 8 word) = of_nat (m div ?b) \<longleftrightarrow> n div ?b = m div ?b"
    using d by (metis unat_byte)
  ultimately have "intToBytesBE n (Suc len) < intToBytesBE m (Suc len) \<longleftrightarrow>
      n div ?b < m div ?b \<or> n div ?b = m div ?b \<and> n mod ?b < m mod ?b"
    by simp
  also have "\<dots> \<longleftrightarrow> n < m"
    by (rule less_div_mod)
  finally show ?case .
qed simp

end
