(* ===== verification/SlashingDb.thy ===== *)
theory SlashingDb
  imports Bytes
begin

text \<open>
  The storage under the slashing protection: the key scheme (\<open>packages/db/src/schema.ts\<close>), the database controller
  (\<open>packages/db/src/controller\<close>) and the four repositories of
  \<open>packages/validator/src/slashingProtection\<close>.

  The content of LevelDB is the list of its entries; an iteration goes
  through them in the order of their keys, which for byte strings is the lexicographic one. Values
  are stored decoded, one constructor for each of the repositories' SSZ types.
\<close>

section \<open>Keys and buckets\<close>

definition uintLen :: nat where
  "uintLen = 8"

definition BUCKET_LENGTH :: nat where
  "BUCKET_LENGTH = 1"

definition DB_PREFIX_LENGTH :: nat where
  "DB_PREFIX_LENGTH = BUCKET_LENGTH"

definition blsPubkeyLen :: nat where
  "blsPubkeyLen = 48"

text \<open>The buckets, which are separate name spaces, with their numbers.\<close>

datatype bucket =
    allForks_stateArchive
  | allForks_block
  | allForks_blockArchive
  | index_blockArchiveParentRootIndex
  | index_blockArchiveRootIndex
  | index_mainChain
  | index_chainInfo
  | phase0_eth1Data
  | index_depositDataRoot
  | phase0_depositEvent
  | phase0_preGenesisState
  | phase0_preGenesisStateLastProcessedBlock
  | phase0_depositData
  | phase0_exit
  | phase0_proposerSlashing
  | phase0_attesterSlashing
  | phase0_slashingProtectionBlockBySlot
  | phase0_slashingProtectionAttestationByTarget
  | phase0_slashingProtectionAttestationLowerBound
  | index_slashingProtectionMinSpanDistance
  | index_slashingProtectionMaxSpanDistance
  | index_stateArchiveRootIndex
  | lightClient_syncCommitteeWitness
  | lightClient_syncCommittee
  | lightClient_checkpointHeader
  | lightClient_bestPartialLightClientUpdate
  | validator_metaData
  | backfilled_ranges

fun bucketNumber :: "bucket \<Rightarrow> 8 word" where
  "bucketNumber allForks_stateArchive = 0"
| "bucketNumber allForks_block = 1"
| "bucketNumber allForks_blockArchive = 2"
| "bucketNumber index_blockArchiveParentRootIndex = 3"
| "bucketNumber index_blockArchiveRootIndex = 4"
| "bucketNumber index_mainChain = 6"
| "bucketNumber index_chainInfo = 7"
| "bucketNumber phase0_eth1Data = 8"
| "bucketNumber index_depositDataRoot = 9"
| "bucketNumber phase0_depositEvent = 19"
| "bucketNumber phase0_preGenesisState = 30"
| "bucketNumber phase0_preGenesisStateLastProcessedBlock = 31"
| "bucketNumber phase0_depositData = 12"
| "bucketNumber phase0_exit = 13"
| "bucketNumber phase0_proposerSlashing = 14"
| "bucketNumber phase0_attesterSlashing = 15"
| "bucketNumber phase0_slashingProtectionBlockBySlot = 20"
| "bucketNumber phase0_slashingProtectionAttestationByTarget = 21"
| "bucketNumber phase0_slashingProtectionAttestationLowerBound = 22"
| "bucketNumber index_slashingProtectionMinSpanDistance = 23"
| "bucketNumber index_slashingProtectionMaxSpanDistance = 24"
| "bucketNumber index_stateArchiveRootIndex = 26"
| "bucketNumber lightClient_syncCommitteeWitness = 51"
| "bucketNumber lightClient_syncCommittee = 52"
| "bucketNumber lightClient_checkpointHeader = 53"
| "bucketNumber lightClient_bestPartialLightClientUpdate = 54"
| "bucketNumber validator_metaData = 41"
| "bucketNumber backfilled_ranges = 42"

definition encodeKey :: "bucket \<Rightarrow> bytes \<Rightarrow> bytes" where
  "encodeKey b key = bucketNumber b # key"

section \<open>Values\<close>

record sp_block =
  blk_slot :: slot
  blk_signingRoot :: root

record sp_attestation =
  att_sourceEpoch :: epoch
  att_targetEpoch :: epoch
  att_signingRoot :: root

record lower_bound =
  minSourceEpoch :: epoch
  minTargetEpoch :: epoch

datatype db_value =
    BlockValue sp_block
  | AttestationValue sp_attestation
  | LowerBoundValue lower_bound
  | DistanceValue int
  | GenesisRootValue root
  | GenesisTimeValue nat

section \<open>The database controller\<close>

type_synonym db = "(bytes, db_value) jsmap"

record filter_options =
  opt_gt :: "bytes option"
  opt_gte :: "bytes option"
  opt_lt :: "bytes option"
  opt_lte :: "bytes option"
  opt_reverse :: bool
  opt_limit :: "nat option"

definition no_filter :: filter_options where
  "no_filter = \<lparr>opt_gt = None, opt_gte = None, opt_lt = None, opt_lte = None,
     opt_reverse = False, opt_limit = None\<rparr>"

definition in_filter :: "filter_options \<Rightarrow> bytes \<Rightarrow> bool" where
  "in_filter opts k =
     ((case opt_gt opts of None \<Rightarrow> True | Some b \<Rightarrow> b < k) \<and>
      (case opt_gte opts of None \<Rightarrow> True | Some b \<Rightarrow> b \<le> k) \<and>
      (case opt_lt opts of None \<Rightarrow> True | Some b \<Rightarrow> k < b) \<and>
      (case opt_lte opts of None \<Rightarrow> True | Some b \<Rightarrow> k \<le> b))"

definition db_get :: "db \<Rightarrow> bytes \<Rightarrow> db_value option" where
  "db_get d k = jm_get d k"

definition db_put :: "bytes \<Rightarrow> db_value \<Rightarrow> db \<Rightarrow> db" where
  "db_put k v d = jm_set k v d"

definition db_batchPut :: "(bytes \<times> db_value) list \<Rightarrow> db \<Rightarrow> db" where
  "db_batchPut items d = fold (\<lambda>(k, v). db_put k v) items d"

definition db_entries :: "filter_options \<Rightarrow> db \<Rightarrow> (bytes \<times> db_value) list" where
  "db_entries opts d =
     (let es = filter (\<lambda>e. in_filter opts (fst e)) (sort_key fst d);
          es' = (if opt_reverse opts then rev es else es)
      in case opt_limit opts of None \<Rightarrow> es' | Some n \<Rightarrow> take n es')"

definition db_keys :: "filter_options \<Rightarrow> db \<Rightarrow> bytes list" where
  "db_keys opts d = map fst (db_entries opts d)"

definition db_values :: "filter_options \<Rightarrow> db \<Rightarrow> db_value list" where
  "db_values opts d = map snd (db_entries opts d)"

section \<open>The repositories\<close>

text \<open>\<open>utils.ts\<close>: the first occurrence of every key.\<close>

fun uniqueVectorArr :: "bytes list \<Rightarrow> bytes list" where
  "uniqueVectorArr [] = []"
| "uniqueVectorArr (b # bs) = b # filter (\<lambda>x. x \<noteq> b) (uniqueVectorArr bs)"

text \<open>The key of a number under a public key, the pubkey of a key; all repositories share them.\<close>

definition indexKey :: "bucket \<Rightarrow> pubkey \<Rightarrow> nat \<Rightarrow> bytes" where
  "indexKey b pubkey n = encodeKey b (pubkey @ intToBytesBE n uintLen)"

definition keyPubkey :: "bytes \<Rightarrow> pubkey" where
  "keyPubkey key = take blsPubkeyLen (drop DB_PREFIX_LENGTH key)"

subsection \<open>Blocks by slot\<close>

definition blockKey :: "pubkey \<Rightarrow> slot \<Rightarrow> bytes" where
  "blockKey = indexKey phase0_slashingProtectionBlockBySlot"

text \<open>\<open>decodeKey\<close> reads the slot at the place of the public key.\<close>

definition decodeBlockKey :: "bytes \<Rightarrow> pubkey \<times> slot" where
  "decodeBlockKey key = (keyPubkey key, bytesToIntBE (take uintLen (drop DB_PREFIX_LENGTH key)))"

fun blockOf :: "db_value \<Rightarrow> sp_block option" where
  "blockOf (BlockValue b) = Some b"
| "blockOf _ = None"

definition getAllBlocks :: "db \<Rightarrow> pubkey \<Rightarrow> nat option \<Rightarrow> sp_block list" where
  "getAllBlocks d pubkey limit =
     List.map_filter blockOf (db_values (no_filter\<lparr>opt_limit := limit,
       opt_gte := Some (blockKey pubkey 0), opt_lt := Some (blockKey pubkey MAX_SAFE_INTEGER)\<rparr>) d)"

definition getFirstBlock :: "db \<Rightarrow> pubkey \<Rightarrow> sp_block option" where
  "getFirstBlock d pubkey = nth_opt (getAllBlocks d pubkey (Some 1)) 0"

definition getBlockBySlot :: "db \<Rightarrow> pubkey \<Rightarrow> slot \<Rightarrow> sp_block option" where
  "getBlockBySlot d pubkey s = Option.bind (db_get d (blockKey pubkey s)) blockOf"

definition setBlocks :: "pubkey \<Rightarrow> sp_block list \<Rightarrow> db \<Rightarrow> db" where
  "setBlocks pubkey blocks d =
     db_batchPut (map (\<lambda>b. (blockKey pubkey (blk_slot b), BlockValue b)) blocks) d"

definition listBlockPubkeys :: "db \<Rightarrow> pubkey list" where
  "listBlockPubkeys d = uniqueVectorArr (map (\<lambda>k. fst (decodeBlockKey k)) (db_keys no_filter d))"

subsection \<open>Attestations by target\<close>

definition attestationKey :: "pubkey \<Rightarrow> epoch \<Rightarrow> bytes" where
  "attestationKey = indexKey phase0_slashingProtectionAttestationByTarget"

definition decodeAttestationKey :: "bytes \<Rightarrow> pubkey \<times> epoch" where
  "decodeAttestationKey key =
     (keyPubkey key, bytesToIntBE (take uintLen (drop (DB_PREFIX_LENGTH + blsPubkeyLen) key)))"

fun attestationOf :: "db_value \<Rightarrow> sp_attestation option" where
  "attestationOf (AttestationValue a) = Some a"
| "attestationOf _ = None"

definition getAllAttestations :: "db \<Rightarrow> pubkey \<Rightarrow> nat option \<Rightarrow> sp_attestation list" where
  "getAllAttestations d pubkey limit =
     List.map_filter attestationOf (db_values (no_filter\<lparr>opt_limit := limit,
       opt_gte := Some (attestationKey pubkey 0), opt_lt := Some (attestationKey pubkey MAX_SAFE_INTEGER)\<rparr>) d)"

definition getAttestationByTarget :: "db \<Rightarrow> pubkey \<Rightarrow> epoch \<Rightarrow> sp_attestation option" where
  "getAttestationByTarget d pubkey e = Option.bind (db_get d (attestationKey pubkey e)) attestationOf"

definition setAttestations :: "pubkey \<Rightarrow> sp_attestation list \<Rightarrow> db \<Rightarrow> db" where
  "setAttestations pubkey atts d =
     db_batchPut (map (\<lambda>a. (attestationKey pubkey (att_targetEpoch a), AttestationValue a)) atts) d"

definition listAttestationPubkeys :: "db \<Rightarrow> pubkey list" where
  "listAttestationPubkeys d = uniqueVectorArr (map (\<lambda>k. fst (decodeAttestationKey k)) (db_keys no_filter d))"

subsection \<open>Lower bounds\<close>

definition lowerBoundKey :: "pubkey \<Rightarrow> bytes" where
  "lowerBoundKey pubkey = encodeKey phase0_slashingProtectionAttestationLowerBound pubkey"

fun lowerBoundOf :: "db_value \<Rightarrow> lower_bound option" where
  "lowerBoundOf (LowerBoundValue b) = Some b"
| "lowerBoundOf _ = None"

definition getLowerBound :: "db \<Rightarrow> pubkey \<Rightarrow> lower_bound option" where
  "getLowerBound d pubkey = Option.bind (db_get d (lowerBoundKey pubkey)) lowerBoundOf"

definition setLowerBound :: "pubkey \<Rightarrow> lower_bound \<Rightarrow> db \<Rightarrow> db" where
  "setLowerBound pubkey b d = db_put (lowerBoundKey pubkey) (LowerBoundValue b) d"

subsection \<open>Span distances\<close>

record distance_entry =
  de_source :: epoch
  de_distance :: int

fun distanceOf :: "db_value \<Rightarrow> int option" where
  "distanceOf (DistanceValue x) = Some x"
| "distanceOf _ = None"

definition getSpan :: "bucket \<Rightarrow> db \<Rightarrow> pubkey \<Rightarrow> epoch \<Rightarrow> int option" where
  "getSpan b d pubkey e = Option.bind (db_get d (indexKey b pubkey e)) distanceOf"

definition setSpans :: "bucket \<Rightarrow> pubkey \<Rightarrow> distance_entry list \<Rightarrow> db \<Rightarrow> db" where
  "setSpans b pubkey values d =
     db_batchPut (map (\<lambda>v. (indexKey b pubkey (de_source v), DistanceValue (de_distance v))) values) d"

section \<open>Keys\<close>

text \<open>What a public key and a number must satisfy for their keys to be told apart.\<close>

definition pubkey_ok :: "pubkey \<Rightarrow> bool" where
  "pubkey_ok pk = (length pk = blsPubkeyLen)"

definition number_bound :: nat where
  "number_bound = 256 ^ uintLen"

lemma bucketNumber_inj: "bucketNumber b = bucketNumber c \<longleftrightarrow> b = c"
  by (cases b; cases c) simp_all

lemma indexKey_inj: "pubkey_ok p \<Longrightarrow> pubkey_ok q \<Longrightarrow> n < number_bound \<Longrightarrow> m < number_bound \<Longrightarrow>
    indexKey b p n = indexKey c q m \<longleftrightarrow> b = c \<and> p = q \<and> n = m"
  by (auto simp: indexKey_def encodeKey_def pubkey_ok_def number_bound_def bucketNumber_inj intToBytesBE_inj)

lemma append_less_append: "length p = length q \<Longrightarrow> (p @ x < q @ y) \<longleftrightarrow> p < q \<or> p = q \<and> x < (y :: bytes)"
  by (induction p q rule: list_induct2) auto

lemma indexKey_less: "pubkey_ok p \<Longrightarrow> n < number_bound \<Longrightarrow> m < number_bound \<Longrightarrow>
    indexKey b p n < indexKey b p m \<longleftrightarrow> n < m"
  by (simp add: indexKey_def encodeKey_def number_bound_def append_less_append intToBytesBE_less)

lemma indexKey_between: "indexKey b p lo \<le> k \<Longrightarrow> k < indexKey b p hi \<Longrightarrow> \<exists>tail. k = bucketNumber b # p @ tail"
proof -
  have pre: "p @ x \<le> k \<Longrightarrow> k < p @ y \<Longrightarrow> \<exists>tail. k = p @ tail" for x y k :: bytes and p
  proof (induction p arbitrary: k)
    case (Cons a p)
    from Cons.prems obtain c k' where k: "k = c # k'" by (cases k) auto
    with Cons.prems have "c = a" by auto
    with Cons k show ?case by auto
  qed simp
  assume "indexKey b p lo \<le> k" "k < indexKey b p hi"
  then show ?thesis
    using pre [of "bucketNumber b # p" "intToBytesBE lo uintLen" k "intToBytesBE hi uintLen"]
    by (simp add: indexKey_def encodeKey_def)
qed

lemma keyPubkey_indexKey: "pubkey_ok p \<Longrightarrow> keyPubkey (indexKey b p n) = p"
  by (simp add: keyPubkey_def indexKey_def encodeKey_def pubkey_ok_def DB_PREFIX_LENGTH_def BUCKET_LENGTH_def)

section \<open>Reads after writes\<close>

lemma db_get_put [simp]: "db_get (db_put k v d) k' = (if k' = k then Some v else db_get d k')"
  by (simp add: db_get_def db_put_def)

lemma db_get_batchPut: "db_get (db_batchPut items d) k =
    (case map_of (rev items) k of Some v \<Rightarrow> Some v | None \<Rightarrow> db_get d k)"
proof (induction items rule: rev_induct)
  case (snoc x xs)
  obtain k' v where "x = (k', v)" by (cases x)
  with snoc show ?case
    by (auto simp: db_batchPut_def)
qed (simp add: db_batchPut_def)

end
