(* ===== verification/SlashingScan.thy ===== *)
theory SlashingScan
  imports SlashingDb
begin

text \<open>
  The range scans of the block and attestation repositories: every entry stays under the key of its
  value, and a scan returns the values of one public key in the order of their numbers.
\<close>

section \<open>Range scans\<close>

text \<open>
  Every entry sits under the key of its value, and no key occurs twice. This is what the writes of
  the repositories leave, and what the scans of a public key rely on.
\<close>

definition entry_ok :: "bytes \<Rightarrow> db_value \<Rightarrow> bool" where
  "entry_ok k v = (case v of
      BlockValue b \<Rightarrow> \<exists>q. pubkey_ok q \<and> blk_slot b < number_bound \<and> k = blockKey q (blk_slot b)
    | AttestationValue a \<Rightarrow> \<exists>q. pubkey_ok q \<and> att_targetEpoch a < number_bound \<and> k = attestationKey q (att_targetEpoch a)
    | LowerBoundValue _ \<Rightarrow> \<exists>q. k = lowerBoundKey q
    | DistanceValue _ \<Rightarrow> \<exists>q n. k = indexKey index_slashingProtectionMinSpanDistance q n \<or> k = indexKey index_slashingProtectionMaxSpanDistance q n
    | GenesisRootValue _ \<Rightarrow> \<exists>m. k = encodeKey validator_metaData m
    | GenesisTimeValue _ \<Rightarrow> \<exists>m. k = encodeKey validator_metaData m)"

definition db_ok :: "db \<Rightarrow> bool" where
  "db_ok d \<longleftrightarrow> jm_ok d \<and> (\<forall>(k, v) \<in> set d. entry_ok k v)"

lemma db_ok_empty: "db_ok []"
  by (simp add: db_ok_def)

lemma set_update: "(k', v') \<in> set (AList.update k v d) \<Longrightarrow> (k', v') = (k, v) \<or> (k', v') \<in> set d"
  by (induction d) (auto split: if_splits)

lemma db_ok_put: "db_ok d \<Longrightarrow> entry_ok k v \<Longrightarrow> db_ok (db_put k v d)"
  by (auto simp: db_ok_def db_put_def jm_set_def jm_ok_def distinct_update dest: set_update)

lemma db_ok_batchPut: "db_ok d \<Longrightarrow> (\<And>k v. (k, v) \<in> set items \<Longrightarrow> entry_ok k v) \<Longrightarrow> db_ok (db_batchPut items d)"
proof (induction items arbitrary: d)
  case (Cons i items)
  obtain k v where i: "i = (k, v)" by (cases i)
  have "db_ok (db_put k v d)"
    using Cons.prems by (auto simp: i intro: db_ok_put)
  with Cons.IH [OF this] Cons.prems(2) show ?case
    by (simp add: i db_batchPut_def)
qed (simp add: db_batchPut_def)

lemma db_get_entry: "db_ok d \<Longrightarrow> db_get d k = Some v \<longleftrightarrow> (k, v) \<in> set d"
  by (simp add: db_ok_def jm_ok_def db_get_def jm_get_def)

definition pubkey_range :: "bucket \<Rightarrow> pubkey \<Rightarrow> nat option \<Rightarrow> filter_options" where
  "pubkey_range b p limit = no_filter\<lparr>opt_limit := limit, opt_gte := Some (indexKey b p 0),
     opt_lt := Some (indexKey b p MAX_SAFE_INTEGER)\<rparr>"

lemma in_pubkey_range: "in_filter (pubkey_range b p limit) k \<longleftrightarrow> indexKey b p 0 \<le> k \<and> k < indexKey b p MAX_SAFE_INTEGER"
  by (simp add: in_filter_def pubkey_range_def no_filter_def)

lemma map_filter_all: "(\<And>x. x \<in> set xs \<Longrightarrow> f x = Some (g x)) \<Longrightarrow> List.map_filter f xs = map g xs"
  by (induction xs) (auto simp: List.map_filter_simps)

lemma range_scan:
  fixes C :: "'v \<Rightarrow> db_value"
  assumes d: "db_ok d" and p: "pubkey_ok p" and ex: "\<And>x. ex (C x) = Some x"
    and ent: "\<And>k v. entry_ok k v \<Longrightarrow> hd k = bucketNumber b \<Longrightarrow>
      \<exists>q x. v = C x \<and> pubkey_ok q \<and> key x < number_bound \<and> k = indexKey b q (key x)"
  shows "\<exists>L. (\<forall>limit. List.map_filter ex (db_values (pubkey_range b p limit) d) =
      (case limit of None \<Rightarrow> L | Some n \<Rightarrow> take n L)) \<and>
    sorted_wrt (\<lambda>x y. key x < key y) L \<and>
    (\<forall>x. x \<in> set L \<longleftrightarrow> key x < MAX_SAFE_INTEGER \<and> db_get d (indexKey b p (key x)) = Some (C x))"
proof -
  let ?in = "\<lambda>e. in_filter (pubkey_range b p None) (fst e)"
  define es where "es = filter ?in (sort_key fst d)"
  have safe: "MAX_SAFE_INTEGER < number_bound" "0 < number_bound"
    by (simp_all add: MAX_SAFE_INTEGER_def number_bound_def uintLen_def)
  have mem: "e \<in> set es \<longleftrightarrow> e \<in> set d \<and> ?in e" for e
    by (auto simp: es_def)
  have val: "\<exists>x. e = (indexKey b p (key x), C x) \<and> key x < MAX_SAFE_INTEGER" if e: "e \<in> set es" for e
  proof -
    obtain k v where kv: "e = (k, v)" by (cases e)
    with e mem have k: "indexKey b p 0 \<le> k" "k < indexKey b p MAX_SAFE_INTEGER" "(k, v) \<in> set d"
      by (auto simp: in_pubkey_range)
    obtain tl where tl: "k = bucketNumber b # p @ tl"
      using indexKey_between [OF k(1,2)] by blast
    have "entry_ok k v"
      using d k(3) by (auto simp: db_ok_def)
    from ent [OF this] tl obtain q x where x: "v = C x" "pubkey_ok q" "key x < number_bound" "k = indexKey b q (key x)"
      by auto
    have "q = p"
    proof -
      have "keyPubkey k = q"
        using keyPubkey_indexKey [OF x(2)] x(4) by simp
      moreover have "keyPubkey k = p"
        using p by (simp add: tl keyPubkey_def pubkey_ok_def DB_PREFIX_LENGTH_def BUCKET_LENGTH_def)
      ultimately show ?thesis by simp
    qed
    with k(2) x p safe show ?thesis
      by (auto simp: kv indexKey_less)
  qed
  define g where "g = (\<lambda>e :: bytes \<times> db_value. the (ex (snd e)))"
  have g: "ex (snd e) = Some (g e)" "snd e = C (g e)" "fst e = indexKey b p (key (g e))" "key (g e) < MAX_SAFE_INTEGER"
    if "e \<in> set es" for e
    using val [OF that] ex by (auto simp: g_def)
  have srt: "sorted_wrt (\<lambda>x y. fst x < fst y) es"
  proof -
    have "sorted (map fst (sort_key fst d))" "distinct (map fst (sort_key fst d))"
      using d by (simp_all add: db_ok_def jm_ok_def distinct_map)
    then have "sorted_wrt (<) (map fst es)"
      unfolding es_def by (simp add: strict_sorted_iff sorted_filter distinct_map_filter)
    then show ?thesis by (simp add: sorted_wrt_map)
  qed
  let ?L = "map g es"
  have "List.map_filter ex (db_values (pubkey_range b p limit) d) =
      (case limit of None \<Rightarrow> ?L | Some n \<Rightarrow> take n ?L)" for limit
  proof -
    have "db_entries (pubkey_range b p limit) d = (case limit of None \<Rightarrow> es | Some n \<Rightarrow> take n es)"
      by (simp add: db_entries_def es_def in_pubkey_range Let_def)
        (simp add: pubkey_range_def no_filter_def es_def in_filter_def split: option.split)
    moreover have "List.map_filter ex (map snd es') = map g es'" if "set es' \<subseteq> set es" for es'
      using that by (induction es') (auto simp: List.map_filter_simps g(1))
    ultimately show ?thesis
      by (auto simp: db_values_def take_map set_take_subset split: option.split)
  qed
  moreover have "sorted_wrt (\<lambda>x y. key x < key y) ?L"
    unfolding sorted_wrt_map using srt
  proof (rule sorted_wrt_mono_rel [rotated])
    fix x y assume e: "x \<in> set es" "y \<in> set es" "fst x < fst y"
    have "key (g x) < number_bound" "key (g y) < number_bound"
      using g(4) e safe by fastforce+
    with e show "key (g x) < key (g y)"
      using g(3) [OF e(1)] g(3) [OF e(2)] p by (simp add: indexKey_less)
  qed
  moreover have "x \<in> set ?L \<longleftrightarrow> key x < MAX_SAFE_INTEGER \<and> db_get d (indexKey b p (key x)) = Some (C x)" for x
  proof
    assume "x \<in> set ?L"
    then obtain e where e: "e \<in> set es" "x = g e" by auto
    have "e = (indexKey b p (key x), C x)"
      using g [OF e(1)] e(2) by (metis prod.collapse)
    then show "key x < MAX_SAFE_INTEGER \<and> db_get d (indexKey b p (key x)) = Some (C x)"
      using g(4) [OF e(1)] e mem [of e] d by (simp add: db_get_entry)
  next
    assume x: "key x < MAX_SAFE_INTEGER \<and> db_get d (indexKey b p (key x)) = Some (C x)"
    then have "(indexKey b p (key x), C x) \<in> set es"
      using d p safe indexKey_less [OF p, of "key x" 0 b] indexKey_less [OF p, of "key x" MAX_SAFE_INTEGER b]
      by (auto simp: mem db_get_entry in_pubkey_range not_less [symmetric])
    moreover have "g (indexKey b p (key x), C x) = x"
      by (simp add: g_def ex)
    ultimately show "x \<in> set ?L" by (metis image_eqI list.set_map)
  qed
  ultimately show ?thesis by blast
qed

section \<open>The scans of the repositories\<close>

lemma bind_blockOf: "Option.bind v blockOf = Some b \<longleftrightarrow> v = Some (BlockValue b)"
  by (cases v) (auto elim: blockOf.elims)

lemma bind_attestationOf: "Option.bind v attestationOf = Some b \<longleftrightarrow> v = Some (AttestationValue b)"
  by (cases v) (auto elim: attestationOf.elims)

lemma blockOf_BlockValue: "blockOf (BlockValue b) = Some b" "attestationOf (AttestationValue a) = Some a"
  by simp_all

lemma hd_keys: "hd (indexKey b p n) = bucketNumber b" "hd (encodeKey b k) = bucketNumber b"
  by (simp_all add: indexKey_def encodeKey_def)

lemma entry_block:
  "entry_ok k v \<Longrightarrow> hd k = bucketNumber phase0_slashingProtectionBlockBySlot \<Longrightarrow>
    \<exists>q b. v = BlockValue b \<and> pubkey_ok q \<and> blk_slot b < number_bound \<and>
      k = indexKey phase0_slashingProtectionBlockBySlot q (blk_slot b)"
  by (auto simp: entry_ok_def blockKey_def attestationKey_def lowerBoundKey_def hd_keys bucketNumber_inj
    split: db_value.splits)

lemma entry_attestation:
  "entry_ok k v \<Longrightarrow> hd k = bucketNumber phase0_slashingProtectionAttestationByTarget \<Longrightarrow>
    \<exists>q a. v = AttestationValue a \<and> pubkey_ok q \<and> att_targetEpoch a < number_bound \<and>
      k = indexKey phase0_slashingProtectionAttestationByTarget q (att_targetEpoch a)"
  by (auto simp: entry_ok_def blockKey_def attestationKey_def lowerBoundKey_def hd_keys bucketNumber_inj
    split: db_value.splits)

lemma getAllBlocks_scan:
  assumes "db_ok d" "pubkey_ok p"
  shows "sorted_wrt (\<lambda>x y. blk_slot x < blk_slot y) (getAllBlocks d p None)"
    "b \<in> set (getAllBlocks d p None) \<longleftrightarrow> blk_slot b < MAX_SAFE_INTEGER \<and> getBlockBySlot d p (blk_slot b) = Some b"
    "getAllBlocks d p (Some n) = take n (getAllBlocks d p None)"
proof -
  have e: "getAllBlocks d p limit = List.map_filter blockOf (db_values (pubkey_range phase0_slashingProtectionBlockBySlot p limit) d)" for limit
    by (simp add: getAllBlocks_def pubkey_range_def blockKey_def)
  from range_scan [of d p blockOf BlockValue, OF assms blockOf_BlockValue(1) entry_block] obtain L where
    L: "\<And>limit. getAllBlocks d p limit = (case limit of None \<Rightarrow> L | Some n \<Rightarrow> take n L)"
    "sorted_wrt (\<lambda>x y. blk_slot x < blk_slot y) L"
    "\<And>x. x \<in> set L \<longleftrightarrow> blk_slot x < MAX_SAFE_INTEGER \<and>
       db_get d (indexKey phase0_slashingProtectionBlockBySlot p (blk_slot x)) = Some (BlockValue x)"
    unfolding e by blast
  then show "sorted_wrt (\<lambda>x y. blk_slot x < blk_slot y) (getAllBlocks d p None)"
    "b \<in> set (getAllBlocks d p None) \<longleftrightarrow> blk_slot b < MAX_SAFE_INTEGER \<and> getBlockBySlot d p (blk_slot b) = Some b"
    "getAllBlocks d p (Some n) = take n (getAllBlocks d p None)"
    by (simp_all add: getBlockBySlot_def blockKey_def bind_blockOf)
qed

lemma getAllAttestations_scan:
  assumes "db_ok d" "pubkey_ok p"
  shows "sorted_wrt (\<lambda>x y. att_targetEpoch x < att_targetEpoch y) (getAllAttestations d p None)"
    "a \<in> set (getAllAttestations d p None) \<longleftrightarrow>
      att_targetEpoch a < MAX_SAFE_INTEGER \<and> getAttestationByTarget d p (att_targetEpoch a) = Some a"
proof -
  have e: "getAllAttestations d p limit = List.map_filter attestationOf (db_values (pubkey_range phase0_slashingProtectionAttestationByTarget p limit) d)" for limit
    by (simp add: getAllAttestations_def pubkey_range_def attestationKey_def)
  from range_scan [of d p attestationOf AttestationValue, OF assms blockOf_BlockValue(2) entry_attestation] obtain L where
    L: "\<And>limit. getAllAttestations d p limit = (case limit of None \<Rightarrow> L | Some n \<Rightarrow> take n L)"
    "sorted_wrt (\<lambda>x y. att_targetEpoch x < att_targetEpoch y) L"
    "\<And>x. x \<in> set L \<longleftrightarrow> att_targetEpoch x < MAX_SAFE_INTEGER \<and>
       db_get d (indexKey phase0_slashingProtectionAttestationByTarget p (att_targetEpoch x)) = Some (AttestationValue x)"
    unfolding e by blast
  then show "sorted_wrt (\<lambda>x y. att_targetEpoch x < att_targetEpoch y) (getAllAttestations d p None)"
    "a \<in> set (getAllAttestations d p None) \<longleftrightarrow>
      att_targetEpoch a < MAX_SAFE_INTEGER \<and> getAttestationByTarget d p (att_targetEpoch a) = Some a"
    by (simp_all add: getAttestationByTarget_def attestationKey_def bind_attestationOf)
qed

text \<open>\<open>getFirst\<close> returns the block with the smallest slot.\<close>

lemma getFirstBlock_min:
  assumes "db_ok d" "pubkey_ok p"
  shows "getFirstBlock d p = None \<longleftrightarrow> getAllBlocks d p None = []"
    "getFirstBlock d p = Some b \<Longrightarrow> b \<in> set (getAllBlocks d p None) \<and>
      (\<forall>c \<in> set (getAllBlocks d p None). blk_slot b \<le> blk_slot c)"
  using getAllBlocks_scan [OF assms]
  by (cases "getAllBlocks d p None"; auto simp: getFirstBlock_def nth_opt_def intro: less_imp_le)+

lemma db_ok_setBlocks: "db_ok d \<Longrightarrow> pubkey_ok p \<Longrightarrow> (\<And>b. b \<in> set bs \<Longrightarrow> blk_slot b < number_bound) \<Longrightarrow> db_ok (setBlocks p bs d)"
  unfolding setBlocks_def by (rule db_ok_batchPut) (auto simp: entry_ok_def)

lemma db_ok_setAttestations: "db_ok d \<Longrightarrow> pubkey_ok p \<Longrightarrow> (\<And>a. a \<in> set as \<Longrightarrow> att_targetEpoch a < number_bound) \<Longrightarrow>
    db_ok (setAttestations p as d)"
  unfolding setAttestations_def by (rule db_ok_batchPut) (auto simp: entry_ok_def)

lemma db_ok_setLowerBound: "db_ok d \<Longrightarrow> db_ok (setLowerBound p b d)"
  unfolding setLowerBound_def by (rule db_ok_put) (auto simp: entry_ok_def)

lemma db_ok_setSpans: "db_ok d \<Longrightarrow> c = index_slashingProtectionMinSpanDistance \<or> c = index_slashingProtectionMaxSpanDistance \<Longrightarrow>
    db_ok (setSpans c p vs d)"
  unfolding setSpans_def by (rule db_ok_batchPut) (fastforce simp: entry_ok_def)+

end
