(* ===== verification/MinMaxSurround.thy ===== *)
theory MinMaxSurround
  imports SlashingScan
begin

text \<open>
  Detection of surround votes (\<open>packages/validator/src/slashingProtection/minMaxSurround\<close>): the
  store interface, the class \<open>MinMaxSurround\<close>, the meaning of its two kinds of spans, and the
  validator's store. The lemmas about the class are proved in the locale of a lawful store, which
  is interpreted on the repository the validator uses.
\<close>


section \<open>The interface of the store\<close>

text \<open>\<open>IDistanceStore\<close>: reading a span and writing a batch of them, for both kinds of span.\<close>

record 's distance_store =
  minSpan_get :: "'s \<Rightarrow> pubkey \<Rightarrow> epoch \<Rightarrow> int option"
  minSpan_setBatch :: "pubkey \<Rightarrow> distance_entry list \<Rightarrow> 's \<Rightarrow> 's"
  maxSpan_get :: "'s \<Rightarrow> pubkey \<Rightarrow> epoch \<Rightarrow> int option"
  maxSpan_setBatch :: "pubkey \<Rightarrow> distance_entry list \<Rightarrow> 's \<Rightarrow> 's"

record surround_attestation =
  sa_sourceEpoch :: epoch
  sa_targetEpoch :: epoch

datatype surround_error =
    IS_SURROUNDING surround_attestation int
  | IS_SURROUNDED surround_attestation int

section \<open>The class MinMaxSurround\<close>

definition span_distance :: "surround_attestation \<Rightarrow> epoch \<Rightarrow> int" where
  "span_distance a e = int (sa_targetEpoch a) - int e"

definition assertNotSurrounding :: "'s distance_store \<Rightarrow> 's \<Rightarrow> pubkey \<Rightarrow> surround_attestation \<Rightarrow> surround_error + unit" where
  "assertNotSurrounding ds s pk a =
     (case minSpan_get ds s pk (sa_sourceEpoch a) of
        None \<Rightarrow> Inr ()
      | Some minSpan \<Rightarrow>
          if 0 < minSpan \<and> minSpan < span_distance a (sa_sourceEpoch a)
          then Inl (IS_SURROUNDING a (int (sa_sourceEpoch a) + minSpan)) else Inr ())"

definition assertNotSurrounded :: "'s distance_store \<Rightarrow> 's \<Rightarrow> pubkey \<Rightarrow> surround_attestation \<Rightarrow> surround_error + unit" where
  "assertNotSurrounded ds s pk a =
     (case maxSpan_get ds s pk (sa_sourceEpoch a) of
        None \<Rightarrow> Inr ()
      | Some maxSpan \<Rightarrow>
          if 0 < maxSpan \<and> span_distance a (sa_sourceEpoch a) < maxSpan
          then Inl (IS_SURROUNDED a (int (sa_sourceEpoch a) + maxSpan)) else Inr ())"

definition assertNoSurround :: "'s distance_store \<Rightarrow> 's \<Rightarrow> pubkey \<Rightarrow> surround_attestation \<Rightarrow> surround_error + unit" where
  "assertNoSurround ds s pk a =
     bind_res (assertNotSurrounding ds s pk a) (\<lambda>_. assertNotSurrounded ds s pk a)"

text \<open>
  The two loops collect the entries to write over the epochs they visit and stop at the first one
  whose span is good enough.
\<close>

fun minEntries :: "'s distance_store \<Rightarrow> 's \<Rightarrow> pubkey \<Rightarrow> surround_attestation \<Rightarrow> epoch list \<Rightarrow> distance_entry list" where
  "minEntries ds s pk a [] = []"
| "minEntries ds s pk a (e # es) =
     (if (case minSpan_get ds s pk e of None \<Rightarrow> True | Some minSpan \<Rightarrow> span_distance a e < minSpan)
      then \<lparr>de_source = e, de_distance = span_distance a e\<rparr> # minEntries ds s pk a es
      else [])"

fun maxEntries :: "'s distance_store \<Rightarrow> 's \<Rightarrow> pubkey \<Rightarrow> surround_attestation \<Rightarrow> epoch list \<Rightarrow> distance_entry list" where
  "maxEntries ds s pk a [] = []"
| "maxEntries ds s pk a (e # es) =
     (if (case maxSpan_get ds s pk e of None \<Rightarrow> True | Some maxSpan \<Rightarrow> maxSpan < span_distance a e)
      then \<lparr>de_source = e, de_distance = span_distance a e\<rparr> # maxEntries ds s pk a es
      else [])"

text \<open>
  \<open>maxEpochLookback\<close> is \<open>None\<close> for \<open>Infinity\<close>. The difference of natural numbers is cut at 0, as
  \<open>Math.max(0, ...)\<close> does.
\<close>

definition untilEpoch :: "nat option \<Rightarrow> epoch \<Rightarrow> epoch" where
  "untilEpoch lookback source = (case lookback of None \<Rightarrow> 0 | Some l \<Rightarrow> source - 1 - l)"

definition updateMinSpan :: "'s distance_store \<Rightarrow> nat option \<Rightarrow> pubkey \<Rightarrow> surround_attestation
    \<Rightarrow> ('s, surround_error, unit) st" where
  "updateMinSpan ds lookback pk a =
     bind_st (lift_st (\<lambda>s. assertNotSurrounding ds s pk a)) (\<lambda>_ s.
       (Inr (), minSpan_setBatch ds pk
          (minEntries ds s pk a (rev [untilEpoch lookback (sa_sourceEpoch a)..<sa_sourceEpoch a])) s))"

definition updateMaxSpan :: "'s distance_store \<Rightarrow> pubkey \<Rightarrow> surround_attestation
    \<Rightarrow> ('s, surround_error, unit) st" where
  "updateMaxSpan ds pk a =
     bind_st (lift_st (\<lambda>s. assertNotSurrounded ds s pk a)) (\<lambda>_ s.
       (Inr (), maxSpan_setBatch ds pk
          (maxEntries ds s pk a [Suc (sa_sourceEpoch a)..<sa_targetEpoch a]) s))"

definition insertSurround :: "'s distance_store \<Rightarrow> nat option \<Rightarrow> pubkey \<Rightarrow> surround_attestation
    \<Rightarrow> ('s, surround_error, unit) st" where
  "insertSurround ds lookback pk a =
     bind_st (updateMinSpan ds lookback pk a) (\<lambda>_. updateMaxSpan ds pk a)"

section \<open>What the spans stand for\<close>

definition surrounds :: "surround_attestation \<Rightarrow> surround_attestation \<Rightarrow> bool" where
  "surrounds a b \<longleftrightarrow> sa_sourceEpoch a < sa_sourceEpoch b \<and> sa_targetEpoch b < sa_targetEpoch a"

definition min_ok :: "int option \<Rightarrow> surround_attestation list \<Rightarrow> epoch \<Rightarrow> bool" where
  "min_ok v H e = (case v of
      None \<Rightarrow> \<forall>a \<in> set H. \<not> e < sa_sourceEpoch a
    | Some m \<Rightarrow> (\<exists>a \<in> set H. e < sa_sourceEpoch a \<and> m = span_distance a e) \<and>
        (\<forall>a \<in> set H. e < sa_sourceEpoch a \<longrightarrow> m \<le> span_distance a e))"

definition max_ok :: "int option \<Rightarrow> surround_attestation list \<Rightarrow> epoch \<Rightarrow> bool" where
  "max_ok v H e = (case v of
      None \<Rightarrow> \<forall>a \<in> set H. \<not> (sa_sourceEpoch a < e \<and> e < sa_targetEpoch a)
    | Some m \<Rightarrow> (\<exists>a \<in> set H. sa_sourceEpoch a < e \<and> e < sa_targetEpoch a \<and> m = span_distance a e) \<and>
        (\<forall>a \<in> set H. sa_sourceEpoch a < e \<and> e < sa_targetEpoch a \<longrightarrow> span_distance a e \<le> m))"

definition batch_get :: "distance_entry list \<Rightarrow> epoch \<Rightarrow> int option" where
  "batch_get vs e = map_of (rev (map (\<lambda>v. (de_source v, de_distance v)) vs)) e"

text \<open>
  The contract of a distance store: what is read after a batch has been written. \<open>key_ok\<close> and
  \<open>bound\<close> say for which public keys and below which epoch it holds.
\<close>

locale lawful_distance_store =
  fixes ds :: "'s distance_store" and key_ok :: "pubkey \<Rightarrow> bool" and bound :: nat
  assumes min_get_set: "key_ok pk \<Longrightarrow> key_ok pk' \<Longrightarrow> (\<And>v. v \<in> set vs \<Longrightarrow> de_source v < bound) \<Longrightarrow> e < bound \<Longrightarrow>
      minSpan_get ds (minSpan_setBatch ds pk vs s) pk' e =
        (if pk' = pk then (case batch_get vs e of Some d \<Rightarrow> Some d | None \<Rightarrow> minSpan_get ds s pk e)
         else minSpan_get ds s pk' e)"
    and max_get_set: "key_ok pk \<Longrightarrow> key_ok pk' \<Longrightarrow> (\<And>v. v \<in> set vs \<Longrightarrow> de_source v < bound) \<Longrightarrow> e < bound \<Longrightarrow>
      maxSpan_get ds (maxSpan_setBatch ds pk vs s) pk' e =
        (if pk' = pk then (case batch_get vs e of Some d \<Rightarrow> Some d | None \<Rightarrow> maxSpan_get ds s pk e)
         else maxSpan_get ds s pk' e)"
    and min_get_max: "key_ok pk \<Longrightarrow> key_ok pk' \<Longrightarrow> (\<And>v. v \<in> set vs \<Longrightarrow> de_source v < bound) \<Longrightarrow> e < bound \<Longrightarrow>
      minSpan_get ds (maxSpan_setBatch ds pk vs s) pk' e = minSpan_get ds s pk' e"
    and max_get_min: "key_ok pk \<Longrightarrow> key_ok pk' \<Longrightarrow> (\<And>v. v \<in> set vs \<Longrightarrow> de_source v < bound) \<Longrightarrow> e < bound \<Longrightarrow>
      maxSpan_get ds (minSpan_setBatch ds pk vs s) pk' e = maxSpan_get ds s pk' e"
begin

definition spans_exact :: "'s \<Rightarrow> pubkey \<Rightarrow> surround_attestation list \<Rightarrow> bool" where
  "spans_exact s pk H \<longleftrightarrow>
     (\<forall>e < bound. min_ok (minSpan_get ds s pk e) H e \<and> max_ok (maxSpan_get ds s pk e) H e) \<and>
     (\<forall>a \<in> set H. sa_sourceEpoch a \<le> sa_targetEpoch a)"

lemma spans_exact_cong: "set H = set H' \<Longrightarrow> spans_exact s pk H \<longleftrightarrow> spans_exact s pk H'"
proof -
  assume e: "set H = set H'"
  show ?thesis
    unfolding spans_exact_def min_ok_def max_ok_def e ..
qed

lemma minEntries_down: "\<exists>j \<le> k. minEntries ds s pk a (rev [0..<k]) =
      map (\<lambda>e. \<lparr>de_source = e, de_distance = span_distance a e\<rparr>) (rev [j..<k]) \<and>
    (\<forall>e. j \<le> e \<longrightarrow> e < k \<longrightarrow> (case minSpan_get ds s pk e of None \<Rightarrow> True | Some m \<Rightarrow> span_distance a e < m)) \<and>
    (0 < j \<longrightarrow> (\<exists>m. minSpan_get ds s pk (j - 1) = Some m \<and> m \<le> span_distance a (j - 1)))"
proof (induction k)
  case (Suc k)
  then obtain j where j: "j \<le> k" "minEntries ds s pk a (rev [0..<k]) =
      map (\<lambda>e. \<lparr>de_source = e, de_distance = span_distance a e\<rparr>) (rev [j..<k])"
    "\<forall>e. j \<le> e \<longrightarrow> e < k \<longrightarrow> (case minSpan_get ds s pk e of None \<Rightarrow> True | Some m \<Rightarrow> span_distance a e < m)"
    "0 < j \<longrightarrow> (\<exists>m. minSpan_get ds s pk (j - 1) = Some m \<and> m \<le> span_distance a (j - 1))" by blast
  show ?case
  proof (cases "case minSpan_get ds s pk k of None \<Rightarrow> True | Some m \<Rightarrow> span_distance a k < m")
    case True
    with j show ?thesis
      by (intro exI [of _ j]) (auto simp: less_Suc_eq)
  next
    case False
    then show ?thesis
      by (intro exI [of _ "Suc k"]) (auto split: option.splits)
  qed
qed simp

lemma maxEntries_up: "k \<le> n \<Longrightarrow> \<exists>j. k \<le> j \<and> j \<le> n \<and> maxEntries ds s pk a [k..<n] =
      map (\<lambda>e. \<lparr>de_source = e, de_distance = span_distance a e\<rparr>) [k..<j] \<and>
    (\<forall>e. k \<le> e \<longrightarrow> e < j \<longrightarrow> (case maxSpan_get ds s pk e of None \<Rightarrow> True | Some m \<Rightarrow> m < span_distance a e)) \<and>
    (j < n \<longrightarrow> (\<exists>m. maxSpan_get ds s pk j = Some m \<and> span_distance a j \<le> m))"
proof (induction "n - k" arbitrary: k)
  case 0
  then show ?case by (intro exI [of _ k]) auto
next
  case (Suc d)
  then have kn: "k < n" by simp
  show ?case
  proof (cases "case maxSpan_get ds s pk k of None \<Rightarrow> True | Some m \<Rightarrow> m < span_distance a k")
    case True
    have "d = n - Suc k" "Suc k \<le> n"
      using Suc.hyps(2) kn by simp_all
    from Suc.hyps(1) [OF this] obtain j where j: "Suc k \<le> j" "j \<le> n" "maxEntries ds s pk a [Suc k..<n] =
        map (\<lambda>e. \<lparr>de_source = e, de_distance = span_distance a e\<rparr>) [Suc k..<j]"
      "\<forall>e. Suc k \<le> e \<longrightarrow> e < j \<longrightarrow> (case maxSpan_get ds s pk e of None \<Rightarrow> True | Some m \<Rightarrow> m < span_distance a e)"
      "j < n \<longrightarrow> (\<exists>m. maxSpan_get ds s pk j = Some m \<and> span_distance a j \<le> m)" by blast
    have "\<forall>e. k \<le> e \<longrightarrow> e < j \<longrightarrow> (case maxSpan_get ds s pk e of None \<Rightarrow> True | Some m \<Rightarrow> m < span_distance a e)"
      using j(4) True by (metis le_antisym not_less_eq_eq)
    with j True kn show ?thesis
      by (intro exI [of _ j]) (simp add: upt_conv_Cons)
  next
    case False
    with kn show ?thesis
      by (intro exI [of _ k]) (auto simp: upt_conv_Cons split: option.splits)
  qed
qed

lemma batch_get_map: "distinct es \<Longrightarrow> batch_get (map (\<lambda>e. \<lparr>de_source = e, de_distance = f e\<rparr>) es) e =
    (if e \<in> set es then Some (f e) else None)"
  by (induction es) (auto simp: batch_get_def map_add_def split: option.splits)

lemma min_update:
  assumes ok: "\<And>e. e < bound \<Longrightarrow> min_ok (minSpan_get ds s pk e) H e" and k: "key_ok pk"
    and src: "sa_sourceEpoch a < bound" and e: "e < bound"
  shows "min_ok (minSpan_get ds (minSpan_setBatch ds pk (minEntries ds s pk a (rev [0..<sa_sourceEpoch a])) s) pk e) (a # H) e"
proof -
  let ?k = "sa_sourceEpoch a"
  from minEntries_down [of ?k s pk a] obtain j where j: "j \<le> ?k"
    and es: "minEntries ds s pk a (rev [0..<?k]) =
      map (\<lambda>e. \<lparr>de_source = e, de_distance = span_distance a e\<rparr>) (rev [j..<?k])"
    and above: "\<And>e. j \<le> e \<Longrightarrow> e < ?k \<Longrightarrow> (case minSpan_get ds s pk e of None \<Rightarrow> True | Some m \<Rightarrow> span_distance a e < m)"
    and below: "0 < j \<Longrightarrow> \<exists>m. minSpan_get ds s pk (j - 1) = Some m \<and> m \<le> span_distance a (j - 1)"
    by blast
  have b: "\<And>v. v \<in> set (minEntries ds s pk a (rev [0..<?k])) \<Longrightarrow> de_source v < bound"
    using src by (auto simp: es)
  from min_get_set [where vs = "minEntries ds s pk a (rev [0..<?k])" and s = s, OF k k b e] have new: "minSpan_get ds (minSpan_setBatch ds pk
      (minEntries ds s pk a (rev [0..<?k])) s) pk e =
      (if j \<le> e \<and> e < ?k then Some (span_distance a e) else minSpan_get ds s pk e)"
    by (simp add: es batch_get_map)
  consider (written) "j \<le> e" "e < ?k" | (high) "?k \<le> e" | (low) "e < j"
    by linarith
  then show ?thesis
  proof cases
    case written
    have "span_distance a e \<le> span_distance b e" if "b \<in> set H" "e < sa_sourceEpoch b" for b
      using above [OF written] ok [OF e] that by (fastforce simp: min_ok_def split: option.splits)
    then show ?thesis
      using written by (auto simp: new min_ok_def)
  next
    case high
    then show ?thesis
      using ok [OF e] by (auto simp: new min_ok_def split: option.splits)
  next
    case low
    then obtain m where m: "minSpan_get ds s pk (j - 1) = Some m" "m \<le> span_distance a (j - 1)"
      using below by auto
    have "j - 1 < bound"
      using j src by simp
    from ok [OF this] m obtain b where b: "b \<in> set H" "j - 1 < sa_sourceEpoch b" "m = span_distance b (j - 1)"
      by (auto simp: min_ok_def)
    have "sa_targetEpoch b \<le> sa_targetEpoch a" "e < sa_sourceEpoch b"
      using b m low by (auto simp: span_distance_def)
    then show ?thesis
      using ok [OF e] b low by (fastforce simp: new min_ok_def span_distance_def split: option.splits)
  qed
qed

lemma max_update:
  assumes ok: "\<And>e. e < bound \<Longrightarrow> max_ok (maxSpan_get ds s pk e) H e" and k: "key_ok pk"
    and tgt: "sa_targetEpoch a < bound" and e: "e < bound"
  shows "max_ok (maxSpan_get ds (maxSpan_setBatch ds pk
    (maxEntries ds s pk a [Suc (sa_sourceEpoch a)..<sa_targetEpoch a]) s) pk e) (a # H) e"
proof (cases "Suc (sa_sourceEpoch a) \<le> sa_targetEpoch a")
  case False
  have "maxEntries ds s pk a [Suc (sa_sourceEpoch a)..<sa_targetEpoch a] = []"
    using False by simp
  moreover have "maxSpan_get ds (maxSpan_setBatch ds pk [] s) pk e = maxSpan_get ds s pk e"
    using max_get_set [OF k k _ e, of "[]"] by (simp add: batch_get_def)
  ultimately show ?thesis
    using ok [OF e] False by (auto simp: max_ok_def split: option.splits)
next
  case True
  let ?k = "Suc (sa_sourceEpoch a)" and ?n = "sa_targetEpoch a"
  from maxEntries_up [OF True, of s pk a] obtain j where j: "?k \<le> j" "j \<le> ?n"
    and es: "maxEntries ds s pk a [?k..<?n] =
      map (\<lambda>e. \<lparr>de_source = e, de_distance = span_distance a e\<rparr>) [?k..<j]"
    and below: "\<And>e. ?k \<le> e \<Longrightarrow> e < j \<Longrightarrow> (case maxSpan_get ds s pk e of None \<Rightarrow> True | Some m \<Rightarrow> m < span_distance a e)"
    and above: "j < ?n \<Longrightarrow> \<exists>m. maxSpan_get ds s pk j = Some m \<and> span_distance a j \<le> m"
    by blast
  have b: "\<And>v. v \<in> set (maxEntries ds s pk a [?k..<?n]) \<Longrightarrow> de_source v < bound"
    using tgt j by (auto simp: es)
  from max_get_set [where vs = "maxEntries ds s pk a [?k..<?n]" and s = s, OF k k b e] have new: "maxSpan_get ds (maxSpan_setBatch ds pk
      (maxEntries ds s pk a [?k..<?n]) s) pk e =
      (if ?k \<le> e \<and> e < j then Some (span_distance a e) else maxSpan_get ds s pk e)"
    by (simp add: es batch_get_map)
  consider (written) "?k \<le> e" "e < j" | (out) "e < ?k \<or> ?n \<le> e" | (skip) "j \<le> e" "e < ?n"
    by linarith
  then show ?thesis
  proof cases
    case written
    have "span_distance b e \<le> span_distance a e"
      if "b \<in> set H" "sa_sourceEpoch b < e" "e < sa_targetEpoch b" for b
      using below [OF written] ok [OF e] that by (fastforce simp: max_ok_def split: option.splits)
    then show ?thesis
      using written j by (auto simp: new max_ok_def)
  next
    case out
    then have "\<not> (?k \<le> e \<and> e < j)" "\<not> (sa_sourceEpoch a < e \<and> e < sa_targetEpoch a)"
      using j by auto
    then show ?thesis
      using ok [OF e] by (auto simp: new max_ok_def split: option.splits)
  next
    case skip
    then obtain m where m: "maxSpan_get ds s pk j = Some m" "span_distance a j \<le> m"
      using above by auto
    have "j < bound"
      using j tgt skip by simp
    from ok [OF this] m obtain b where b: "b \<in> set H" "sa_sourceEpoch b < j" "j < sa_targetEpoch b"
        "m = span_distance b j"
      by (auto simp: max_ok_def)
    have "sa_targetEpoch a \<le> sa_targetEpoch b"
      using b m by (auto simp: span_distance_def)
    moreover have "\<not> (?k \<le> e \<and> e < j)"
      using skip by simp
    ultimately show ?thesis
      using ok [OF e] b skip by (fastforce simp: new max_ok_def span_distance_def split: option.splits)
  qed
qed

lemma assertNoSurround_iff:
  assumes ex: "spans_exact s pk H" and src: "sa_sourceEpoch a < bound"
    and le: "sa_sourceEpoch a \<le> sa_targetEpoch a"
  shows "assertNoSurround ds s pk a = Inr () \<longleftrightarrow> (\<forall>b \<in> set H. \<not> surrounds a b \<and> \<not> surrounds b a)"
proof -
  let ?e = "sa_sourceEpoch a"
  have mn: "min_ok (minSpan_get ds s pk ?e) H ?e" and mx: "max_ok (maxSpan_get ds s pk ?e) H ?e"
    and H: "\<And>b. b \<in> set H \<Longrightarrow> sa_sourceEpoch b \<le> sa_targetEpoch b"
    using ex src by (auto simp: spans_exact_def)
  have "assertNotSurrounding ds s pk a = Inr () \<longleftrightarrow> (\<forall>b \<in> set H. \<not> surrounds a b)"
  proof (cases "minSpan_get ds s pk ?e")
    case None
    with mn show ?thesis
      by (auto simp: assertNotSurrounding_def min_ok_def surrounds_def)
  next
    case (Some m)
    with mn obtain b where b: "b \<in> set H" "?e < sa_sourceEpoch b" "m = span_distance b ?e"
      "\<And>c. c \<in> set H \<Longrightarrow> ?e < sa_sourceEpoch c \<Longrightarrow> m \<le> span_distance c ?e"
      by (auto simp: min_ok_def)
    have "0 < m"
      using b(2,3) H [OF b(1)] by (simp add: span_distance_def)
    then have "assertNotSurrounding ds s pk a = Inr () \<longleftrightarrow> \<not> m < span_distance a ?e"
      using Some by (simp add: assertNotSurrounding_def)
    also have "\<dots> \<longleftrightarrow> (\<forall>b \<in> set H. \<not> surrounds a b)"
      using b by (fastforce simp: surrounds_def span_distance_def)
    finally show ?thesis .
  qed
  moreover have "assertNotSurrounded ds s pk a = Inr () \<longleftrightarrow> (\<forall>b \<in> set H. \<not> surrounds b a)"
  proof (cases "maxSpan_get ds s pk ?e")
    case None
    with mx le show ?thesis
      by (fastforce simp: assertNotSurrounded_def max_ok_def surrounds_def)
  next
    case (Some m)
    with mx obtain b where b: "b \<in> set H" "sa_sourceEpoch b < ?e" "?e < sa_targetEpoch b" "m = span_distance b ?e"
      "\<And>c. c \<in> set H \<Longrightarrow> sa_sourceEpoch c < ?e \<Longrightarrow> ?e < sa_targetEpoch c \<Longrightarrow> span_distance c ?e \<le> m"
      by (auto simp: max_ok_def)
    have "0 < m"
      using b by (auto simp: span_distance_def)
    then have "assertNotSurrounded ds s pk a = Inr () \<longleftrightarrow> \<not> span_distance a ?e < m"
      using Some by (simp add: assertNotSurrounded_def)
    also have "\<dots> \<longleftrightarrow> (\<forall>b \<in> set H. \<not> surrounds b a)"
    proof
      assume n: "\<not> span_distance a ?e < m"
      show "\<forall>b \<in> set H. \<not> surrounds b a"
      proof (intro ballI notI)
        fix c assume c: "c \<in> set H" "surrounds c a"
        then have "?e < sa_targetEpoch c" "sa_sourceEpoch c < ?e" "sa_targetEpoch a < sa_targetEpoch c"
          using le by (auto simp: surrounds_def)
        with b(5) [OF c(1)] n show False by (auto simp: span_distance_def)
      qed
    next
      assume "\<forall>b \<in> set H. \<not> surrounds b a"
      with b show "\<not> span_distance a ?e < m"
        by (auto simp: surrounds_def span_distance_def)
    qed
    finally show ?thesis .
  qed
  ultimately show ?thesis
    by (cases "assertNotSurrounding ds s pk a") (auto simp: assertNoSurround_def)
qed

text \<open>The second target in the error is the target of an attestation of the history.\<close>

lemma assertNoSurround_error:
  assumes ex: "spans_exact s pk H" and src: "sa_sourceEpoch a < bound"
    and err: "assertNoSurround ds s pk a = Inl e"
  shows "(\<exists>b \<in> set H. surrounds a b \<and> e = IS_SURROUNDING a (int (sa_targetEpoch b))) \<or>
    (\<exists>b \<in> set H. surrounds b a \<and> e = IS_SURROUNDED a (int (sa_targetEpoch b)))"
proof -
  let ?e = "sa_sourceEpoch a"
  have mn: "min_ok (minSpan_get ds s pk ?e) H ?e" and mx: "max_ok (maxSpan_get ds s pk ?e) H ?e"
    using ex src by (auto simp: spans_exact_def)
  from err consider "assertNotSurrounding ds s pk a = Inl e" | "assertNotSurrounded ds s pk a = Inl e"
    by (auto simp: assertNoSurround_def bind_res_Inl_iff)
  then show ?thesis
  proof cases
    case 1
    with mn show ?thesis
      by (fastforce simp: assertNotSurrounding_def min_ok_def surrounds_def span_distance_def
        split: option.splits if_splits)
  next
    case 2
    with mx show ?thesis
      by (fastforce simp: assertNotSurrounded_def max_ok_def surrounds_def span_distance_def
        split: option.splits if_splits)
  qed
qed

lemma minEntries_sources: "de_source ` set (minEntries ds s pk a es) \<subseteq> set es"
  by (induction es) auto

lemma maxEntries_sources: "de_source ` set (maxEntries ds s pk a es) \<subseteq> set es"
  by (induction es) auto

text \<open>The maximum span is checked after the minimum spans have been written, which does not change it.\<close>

lemma insertSurround_only:
  assumes ex: "spans_exact s pk H" and k: "key_ok pk" and tgt: "sa_targetEpoch a < bound"
    and le: "sa_sourceEpoch a \<le> sa_targetEpoch a"
    and run: "insertSurround ds None pk a s = (Inr (), s')" and b: "b \<in> set H"
  shows "\<not> surrounds a b \<and> \<not> surrounds b a"
proof -
  have src: "sa_sourceEpoch a < bound"
    using tgt le by simp
  let ?mn = "minEntries ds s pk a (rev [0..<sa_sourceEpoch a])"
  have srcs: "de_source v < bound" if "v \<in> set ?mn" for v
    using minEntries_sources [of s pk a "rev [0..<sa_sourceEpoch a]"] src that by fastforce
  have "maxSpan_get ds (minSpan_setBatch ds pk ?mn s) pk (sa_sourceEpoch a) = maxSpan_get ds s pk (sa_sourceEpoch a)"
    by (rule max_get_min [OF k k srcs src])
  moreover have "assertNotSurrounding ds s pk a = Inr ()"
    "assertNotSurrounded ds (minSpan_setBatch ds pk ?mn s) pk a = Inr ()"
    using run by (auto simp: insertSurround_def updateMinSpan_def updateMaxSpan_def untilEpoch_def bind_st_eq_Inr)
  ultimately have "assertNoSurround ds s pk a = Inr ()"
    by (simp add: assertNoSurround_def assertNotSurrounded_def)
  then show ?thesis
    using assertNoSurround_iff [OF ex src le] b by blast
qed

lemma insertSurround_ok:
  assumes ex: "spans_exact s pk H" and k: "key_ok pk" and tgt: "sa_targetEpoch a < bound"
    and le: "sa_sourceEpoch a \<le> sa_targetEpoch a"
    and free: "\<And>b. b \<in> set H \<Longrightarrow> \<not> surrounds a b \<and> \<not> surrounds b a"
  shows "\<exists>s'. insertSurround ds None pk a s = (Inr (), s') \<and> spans_exact s' pk (a # H) \<and>
    (\<forall>pk' H'. key_ok pk' \<longrightarrow> pk' \<noteq> pk \<longrightarrow> spans_exact s pk' H' \<longrightarrow> spans_exact s' pk' H')"
proof -
  have src: "sa_sourceEpoch a < bound"
    using tgt le by simp
  let ?mn = "minEntries ds s pk a (rev [0..<sa_sourceEpoch a])"
  let ?s1 = "minSpan_setBatch ds pk ?mn s"
  let ?mx = "maxEntries ds ?s1 pk a [Suc (sa_sourceEpoch a)..<sa_targetEpoch a]"
  let ?s2 = "maxSpan_setBatch ds pk ?mx ?s1"
  have "assertNoSurround ds s pk a = Inr ()"
    using assertNoSurround_iff [OF ex src le] free by blast
  then have ns: "assertNotSurrounding ds s pk a = Inr ()" "assertNotSurrounded ds s pk a = Inr ()"
    by (auto simp: assertNoSurround_def bind_res_Inr_iff)
  have srcs: "de_source v < bound" if "v \<in> set ?mn" for v
    using minEntries_sources [of s pk a "rev [0..<sa_sourceEpoch a]"] src that by fastforce
  have srcs': "de_source v < bound" if "v \<in> set ?mx" for v
    using maxEntries_sources [of ?s1 pk a "[Suc (sa_sourceEpoch a)..<sa_targetEpoch a]"] tgt that by fastforce
  have max1: "maxSpan_get ds ?s1 pk' e = maxSpan_get ds s pk' e" if "key_ok pk'" "e < bound" for pk' e
    by (rule max_get_min [OF k that(1) srcs that(2)])
  have min2: "minSpan_get ds ?s2 pk' e = minSpan_get ds ?s1 pk' e" if "key_ok pk'" "e < bound" for pk' e
    by (rule min_get_max [OF k that(1) srcs' that(2)])
  have "assertNotSurrounded ds ?s1 pk a = Inr ()"
    using ns(2) max1 [OF k src] by (simp add: assertNotSurrounded_def)
  then have run: "insertSurround ds None pk a s = (Inr (), ?s2)"
    using ns(1) by (simp add: insertSurround_def updateMinSpan_def updateMaxSpan_def untilEpoch_def bind_st_def)
  have "min_ok (minSpan_get ds ?s2 pk e) (a # H) e" if e: "e < bound" for e
    using min_update [OF _ k src e, of s H] ex min2 [OF k e] by (simp add: spans_exact_def)
  moreover have "max_ok (maxSpan_get ds ?s2 pk e) (a # H) e" if e: "e < bound" for e
    by (rule max_update [OF _ k tgt e]) (use ex max1 [OF k] in \<open>simp add: spans_exact_def\<close>)
  ultimately have "spans_exact ?s2 pk (a # H)"
    using ex le by (simp add: spans_exact_def)
  moreover have "spans_exact ?s2 pk' H'" if p: "key_ok pk'" "pk' \<noteq> pk" "spans_exact s pk' H'" for pk' H'
  proof -
    have "minSpan_get ds ?s2 pk' e = minSpan_get ds s pk' e" if "e < bound" for e
      using min2 [OF p(1) that] min_get_set [OF k p(1) srcs that] p(2) by simp
    moreover have "maxSpan_get ds ?s2 pk' e = maxSpan_get ds s pk' e" if "e < bound" for e
      using max1 [OF p(1) that] max_get_set [OF k p(1) srcs' that] p(2) by simp
    ultimately show ?thesis
      using p(3) by (simp add: spans_exact_def)
  qed
  ultimately show ?thesis
    using run by blast
qed

end

section \<open>The store of the validator\<close>

definition DistanceStoreRepository :: "db distance_store" where
  "DistanceStoreRepository =
     \<lparr>minSpan_get = getSpan index_slashingProtectionMinSpanDistance,
      minSpan_setBatch = setSpans index_slashingProtectionMinSpanDistance,
      maxSpan_get = getSpan index_slashingProtectionMaxSpanDistance,
      maxSpan_setBatch = setSpans index_slashingProtectionMaxSpanDistance\<rparr>"

lemma DistanceStoreRepository_simps [simp]:
  "minSpan_get DistanceStoreRepository = getSpan index_slashingProtectionMinSpanDistance"
  "minSpan_setBatch DistanceStoreRepository = setSpans index_slashingProtectionMinSpanDistance"
  "maxSpan_get DistanceStoreRepository = getSpan index_slashingProtectionMaxSpanDistance"
  "maxSpan_setBatch DistanceStoreRepository = setSpans index_slashingProtectionMaxSpanDistance"
  by (simp_all add: DistanceStoreRepository_def)

lemma getSpan_setSpans:
  assumes "pubkey_ok p" "pubkey_ok q" "\<And>v. v \<in> set vs \<Longrightarrow> de_source v < number_bound" "e < number_bound"
  shows "getSpan b (setSpans c p vs d) q e =
    (if b = c \<and> p = q then (case batch_get vs e of Some x \<Rightarrow> Some x | None \<Rightarrow> getSpan b d q e) else getSpan b d q e)"
proof -
  let ?items = "map (\<lambda>v. (indexKey c p (de_source v), DistanceValue (de_distance v))) vs"
  have m: "map_of (rev ?items) (indexKey b q e) =
      (if b = c \<and> p = q then map_option DistanceValue (batch_get vs e) else None)"
    using assms(3)
  proof (induction vs rule: rev_induct)
    case (snoc v vs)
    have "indexKey c p (de_source v) = indexKey b q e \<longleftrightarrow> b = c \<and> p = q \<and> de_source v = e"
      using indexKey_inj [OF assms(1,2), of "de_source v" e c b] snoc.prems assms(4) by auto
    with snoc show ?case
      by (auto simp: batch_get_def)
  qed (simp add: batch_get_def)
  show ?thesis
    by (simp add: getSpan_def setSpans_def db_get_batchPut m split: option.split)
qed

interpretation spans: lawful_distance_store DistanceStoreRepository pubkey_ok number_bound
  by unfold_locales (auto simp: getSpan_setSpans split: option.split)

section \<open>A history in the spans\<close>

fun insertHistory :: "pubkey \<Rightarrow> surround_attestation list \<Rightarrow> (db, surround_error, unit) st" where
  "insertHistory pk [] = ret_st ()"
| "insertHistory pk (a # as) =
     bind_st (insertSurround DistanceStoreRepository None pk a) (\<lambda>_. insertHistory pk as)"

definition att_ok :: "surround_attestation \<Rightarrow> bool" where
  "att_ok a \<longleftrightarrow> sa_sourceEpoch a \<le> sa_targetEpoch a \<and> sa_targetEpoch a < number_bound"

lemma spans_exact_empty: "spans.spans_exact [] pk []"
  by (simp add: spans.spans_exact_def min_ok_def max_ok_def getSpan_def db_get_def)

lemma insertHistory_exact:
  assumes "pubkey_ok pk" "spans.spans_exact d pk H" "\<And>a. a \<in> set as \<Longrightarrow> att_ok a"
    "insertHistory pk as d = (Inr (), d')"
  shows "spans.spans_exact d' pk (rev as @ H) \<and>
    (\<forall>a \<in> set as. \<forall>b \<in> set H. \<not> surrounds a b \<and> \<not> surrounds b a)"
  using assms
proof (induction as arbitrary: d H)
  case (Cons a as)
  obtain d1 where d1: "insertSurround DistanceStoreRepository None pk a d = (Inr (), d1)" "insertHistory pk as d1 = (Inr (), d')"
    using Cons.prems(4) by (auto simp: bind_st_eq_Inr)
  have a: "sa_targetEpoch a < number_bound" "sa_sourceEpoch a \<le> sa_targetEpoch a"
    using Cons.prems(3) by (auto simp: att_ok_def)
  note free = spans.insertSurround_only [OF Cons.prems(2,1) a d1(1)]
  have "spans.spans_exact d1 pk (a # H)"
    using spans.insertSurround_ok [OF Cons.prems(2,1) a free] d1(1) by auto
  from Cons.IH [OF Cons.prems(1) this _ d1(2)] Cons.prems(3) free show ?case by auto
qed simp

text \<open>
  C19. Min-max surround detection is exact. After any history has been entered into empty spans, the
  check of a new attestation, which reads two numbers, passes exactly when comparing it with every
  attestation of the history finds none that it surrounds or that surrounds it.
\<close>

theorem minmax_exact:
  assumes "pubkey_ok pk" "\<And>b. b \<in> set as \<Longrightarrow> att_ok b" "att_ok a" "insertHistory pk as [] = (Inr (), d)"
  shows "assertNoSurround DistanceStoreRepository d pk a = Inr () \<longleftrightarrow>
    (\<forall>b \<in> set as. \<not> surrounds a b \<and> \<not> surrounds b a)"
proof -
  have ex: "spans.spans_exact d pk (rev as)"
    using insertHistory_exact [OF assms(1) spans_exact_empty assms(2,4)] by simp
  have "sa_sourceEpoch a < number_bound" "sa_sourceEpoch a \<le> sa_targetEpoch a"
    using assms(3) by (auto simp: att_ok_def)
  from spans.assertNoSurround_iff [OF ex this] show ?thesis by simp
qed

text \<open>
  Entering an attestation into exact spans throws exactly when it surrounds or is surrounded by
  one of the history, so a history can be entered if and only if no member surrounds another.
\<close>

theorem insertHistory_iff:
  assumes "pubkey_ok pk" "\<And>b. b \<in> set as \<Longrightarrow> att_ok b"
  shows "fst (insertHistory pk as []) = Inr () \<longleftrightarrow> (\<forall>a \<in> set as. \<forall>b \<in> set as. \<not> surrounds a b)"
proof -
  have "fst (insertHistory pk as d) = Inr () \<longleftrightarrow> (\<forall>a \<in> set as. \<forall>b \<in> set as \<union> set H. \<not> surrounds a b \<and> \<not> surrounds b a)"
    if "spans.spans_exact d pk H" for d H
    using that assms
  proof (induction as arbitrary: d H)
    case (Cons a as)
    have a: "sa_targetEpoch a < number_bound" "sa_sourceEpoch a \<le> sa_targetEpoch a"
      using Cons.prems(3) by (auto simp: att_ok_def)
    obtain res d1 where run: "insertSurround DistanceStoreRepository None pk a d = (res, d1)"
      by (cases "insertSurround DistanceStoreRepository None pk a d")
    show ?case
    proof (cases "\<forall>b \<in> set H. \<not> surrounds a b \<and> \<not> surrounds b a")
      case True
      with spans.insertSurround_ok [OF Cons.prems(1,2) a] run
      have "res = Inr ()" "spans.spans_exact d1 pk (a # H)" by auto
      moreover have "\<not> surrounds a a"
        by (simp add: surrounds_def)
      ultimately show ?thesis
        using Cons.IH [OF _ Cons.prems(2), of d1 "a # H"] Cons.prems(3) run True
        by (auto simp: bind_st_def)
    next
      case False
      with spans.insertSurround_only [OF Cons.prems(1,2) a] run have "res \<noteq> Inr ()" by blast
      with run False show ?thesis
        by (cases res) (auto simp: bind_st_def)
    qed
  qed simp
  from this [OF spans_exact_empty] show ?thesis by auto
qed

end
