(* ===== verification/SlashingProtection.thy ===== *)
theory SlashingProtection
  imports MinMaxSurround
begin

text \<open>
  The services of \<open>packages/validator/src/slashingProtection\<close>: \<open>SlashingProtectionBlockService\<close>,
  \<open>SlashingProtectionAttestationService\<close> and the calls of \<open>SlashingProtection\<close> that go to them, as
  state passing over the database; then the contract of the repositories they use, interpreted on
  the two repositories of the model.
\<close>


section \<open>Helpers\<close>

definition ZERO_ROOT :: root where
  "ZERO_ROOT = replicate 32 0"

definition isEqualRoot :: "root \<Rightarrow> root \<Rightarrow> bool" where
  "isEqualRoot root1 root2 = (root1 = root2)"

definition isEqualNonZeroRoot :: "root \<Rightarrow> root \<Rightarrow> bool" where
  "isEqualNonZeroRoot root1 root2 = (\<not> isEqualRoot root1 ZERO_ROOT \<and> isEqualRoot root1 root2)"

definition minEpoch :: "epoch list \<Rightarrow> epoch option" where
  "minEpoch epochs = (if epochs \<noteq> [] then Some (Min (set epochs)) else None)"

datatype safe_status = SAME_DATA | SafeOK

datatype block_error =
    DOUBLE_BLOCK_PROPOSAL sp_block sp_block
  | SLOT_LESS_THAN_LOWER_BOUND slot slot

datatype attestation_error =
    DOUBLE_VOTE sp_attestation sp_attestation
  | NEW_SURROUNDS_PREV sp_attestation "sp_attestation option"
  | PREV_SURROUNDS_NEW sp_attestation "sp_attestation option"
  | SOURCE_EXCEEDS_TARGET
  | SOURCE_LESS_THAN_LOWER_BOUND epoch epoch
  | TARGET_LESS_THAN_OR_EQ_LOWER_BOUND epoch epoch

text \<open>What a call of the slashing protection may throw.\<close>

datatype sp_error =
    InvalidBlock block_error
  | InvalidAttestation attestation_error
  | SurroundAttestation surround_error

definition throw_as :: "('e \<Rightarrow> 'f) \<Rightarrow> ('s, 'e, 'a) st \<Rightarrow> ('s, 'f, 'a) st" where
  "throw_as f m s = (case m s of (Inl e, s') \<Rightarrow> (Inl (f e), s') | (Inr x, s') \<Rightarrow> (Inr x, s'))"

section \<open>SlashingProtectionBlockService\<close>

definition checkMinBlock :: "db \<Rightarrow> pubkey \<Rightarrow> sp_block \<Rightarrow> block_error + safe_status" where
  "checkMinBlock d pubkey block =
     (case getFirstBlock d pubkey of
        Some minBlock \<Rightarrow>
          if blk_slot block \<le> blk_slot minBlock
          then Inl (SLOT_LESS_THAN_LOWER_BOUND (blk_slot block) (blk_slot minBlock)) else Inr SafeOK
      | None \<Rightarrow> Inr SafeOK)"

definition checkBlockProposal :: "db \<Rightarrow> pubkey \<Rightarrow> sp_block \<Rightarrow> block_error + safe_status" where
  "checkBlockProposal d pubkey block =
     (case getBlockBySlot d pubkey (blk_slot block) of
        Some sameSlotBlock \<Rightarrow>
          if blk_slot block = blk_slot sameSlotBlock
          then (if isEqualNonZeroRoot (blk_signingRoot sameSlotBlock) (blk_signingRoot block) then Inr SAME_DATA
                else Inl (DOUBLE_BLOCK_PROPOSAL block sameSlotBlock))
          else checkMinBlock d pubkey block
      | None \<Rightarrow> checkMinBlock d pubkey block)"

definition insertBlockProposal :: "pubkey \<Rightarrow> sp_block \<Rightarrow> (db, sp_error, unit) st" where
  "insertBlockProposal pubkey block = modify_st (setBlocks pubkey [block])"

definition checkAndInsertBlockProposal :: "pubkey \<Rightarrow> sp_block \<Rightarrow> (db, sp_error, unit) st" where
  "checkAndInsertBlockProposal pubkey block =
     bind_st (throw_as InvalidBlock (lift_st (\<lambda>d. checkBlockProposal d pubkey block))) (\<lambda>safeStatus.
       if safeStatus \<noteq> SAME_DATA then insertBlockProposal pubkey block else ret_st ())"

definition importBlocks :: "pubkey \<Rightarrow> sp_block list \<Rightarrow> (db, sp_error, unit) st" where
  "importBlocks pubkey blocks = modify_st (setBlocks pubkey blocks)"

definition exportBlocks :: "db \<Rightarrow> pubkey \<Rightarrow> sp_block list" where
  "exportBlocks d pubkey = getAllBlocks d pubkey None"

section \<open>SlashingProtectionAttestationService\<close>

definition surroundAtt :: "sp_attestation \<Rightarrow> surround_attestation" where
  "surroundAtt a = \<lparr>sa_sourceEpoch = att_sourceEpoch a, sa_targetEpoch = att_targetEpoch a\<rparr>"

text \<open>The \<open>catch\<close> around the surround check.\<close>

fun catchSurround :: "db \<Rightarrow> pubkey \<Rightarrow> sp_attestation \<Rightarrow> surround_error \<Rightarrow> attestation_error" where
  "catchSurround d pubkey a (IS_SURROUNDING _ attestation2Target) =
     NEW_SURROUNDS_PREV a (getAttestationByTarget d pubkey (nat attestation2Target))"
| "catchSurround d pubkey a (IS_SURROUNDED _ attestation2Target) =
     PREV_SURROUNDS_NEW a (getAttestationByTarget d pubkey (nat attestation2Target))"

definition checkLowerBound :: "db \<Rightarrow> pubkey \<Rightarrow> sp_attestation \<Rightarrow> attestation_error + safe_status" where
  "checkLowerBound d pubkey a =
     (case getLowerBound d pubkey of
        None \<Rightarrow> Inr SafeOK
      | Some b \<Rightarrow>
          if att_sourceEpoch a < minSourceEpoch b
          then Inl (SOURCE_LESS_THAN_LOWER_BOUND (att_sourceEpoch a) (minSourceEpoch b))
          else if att_targetEpoch a \<le> minTargetEpoch b
          then Inl (TARGET_LESS_THAN_OR_EQ_LOWER_BOUND (att_targetEpoch a) (minTargetEpoch b))
          else Inr SafeOK)"

definition checkAttestation :: "db \<Rightarrow> pubkey \<Rightarrow> sp_attestation \<Rightarrow> attestation_error + safe_status" where
  "checkAttestation d pubkey a =
     (if att_targetEpoch a < att_sourceEpoch a then Inl SOURCE_EXCEEDS_TARGET
      else case getAttestationByTarget d pubkey (att_targetEpoch a) of
        Some sameTargetAtt \<Rightarrow>
          if isEqualNonZeroRoot (att_signingRoot sameTargetAtt) (att_signingRoot a) then Inr SAME_DATA
          else Inl (DOUBLE_VOTE a sameTargetAtt)
      | None \<Rightarrow>
          (case assertNoSurround DistanceStoreRepository d pubkey (surroundAtt a) of
             Inl e \<Rightarrow> Inl (catchSurround d pubkey a e)
           | Inr _ \<Rightarrow> checkLowerBound d pubkey a))"

text \<open>\<open>MinMaxSurround\<close> is built without options, so its lookback is \<open>Infinity\<close>.\<close>

definition insertSpans :: "pubkey \<Rightarrow> sp_attestation \<Rightarrow> (db, sp_error, unit) st" where
  "insertSpans pubkey a =
     throw_as SurroundAttestation (insertSurround DistanceStoreRepository None pubkey (surroundAtt a))"

definition insertAttestation :: "pubkey \<Rightarrow> sp_attestation \<Rightarrow> (db, sp_error, unit) st" where
  "insertAttestation pubkey a =
     bind_st (modify_st (setAttestations pubkey [a])) (\<lambda>_. insertSpans pubkey a)"

definition checkAndInsertAttestation :: "pubkey \<Rightarrow> sp_attestation \<Rightarrow> (db, sp_error, unit) st" where
  "checkAndInsertAttestation pubkey a =
     bind_st (throw_as InvalidAttestation (lift_st (\<lambda>d. checkAttestation d pubkey a))) (\<lambda>safeStatus.
       if safeStatus \<noteq> SAME_DATA then insertAttestation pubkey a else ret_st ())"

fun insertAllSpans :: "pubkey \<Rightarrow> sp_attestation list \<Rightarrow> (db, sp_error, unit) st" where
  "insertAllSpans pubkey [] = ret_st ()"
| "insertAllSpans pubkey (a # as) = bind_st (insertSpans pubkey a) (\<lambda>_. insertAllSpans pubkey as)"

definition importAttestations :: "pubkey \<Rightarrow> sp_attestation list \<Rightarrow> (db, sp_error, unit) st" where
  "importAttestations pubkey as =
     bind_st (modify_st (setAttestations pubkey as)) (\<lambda>_.
     bind_st (insertAllSpans pubkey as) (\<lambda>_.
       case (minEpoch (map att_sourceEpoch as), minEpoch (map att_targetEpoch as)) of
         (Some s, Some t) \<Rightarrow> modify_st (setLowerBound pubkey \<lparr>minSourceEpoch = s, minTargetEpoch = t\<rparr>)
       | _ \<Rightarrow> ret_st ()))"

definition exportAttestations :: "db \<Rightarrow> pubkey \<Rightarrow> sp_attestation list" where
  "exportAttestations d pubkey = getAllAttestations d pubkey None"

section \<open>SlashingProtection\<close>

definition listPubkeys :: "db \<Rightarrow> pubkey list" where
  "listPubkeys d = uniqueVectorArr (listAttestationPubkeys d @ listBlockPubkeys d)"

text \<open>A call of the interface that the validator client uses before it signs.\<close>

datatype sign_request =
    SignBlock pubkey sp_block
  | SignAttestation pubkey sp_attestation

fun checkAndInsert :: "sign_request \<Rightarrow> (db, sp_error, unit) st" where
  "checkAndInsert (SignBlock pubkey block) = checkAndInsertBlockProposal pubkey block"
| "checkAndInsert (SignAttestation pubkey a) = checkAndInsertAttestation pubkey a"

text \<open>The requests of a sequence that were let through, and the database left.\<close>

fun sign_all :: "sign_request list \<Rightarrow> db \<Rightarrow> sign_request list \<times> db" where
  "sign_all [] d = ([], d)"
| "sign_all (r # rs) d =
     (case checkAndInsert r d of
        (Inl e, d') \<Rightarrow> sign_all rs d'
      | (Inr _, d') \<Rightarrow> (case sign_all rs d' of (ok, d'') \<Rightarrow> (r # ok, d'')))"

text \<open>The loop of \<open>importInterchange\<close> over validators whose numbers are all in range.\<close>

fun importAll :: "(pubkey \<times> sp_block list \<times> sp_attestation list) list \<Rightarrow> (db, sp_error, unit) st" where
  "importAll [] = ret_st ()"
| "importAll ((pubkey, bs, as) # vs) =
     bind_st (importBlocks pubkey bs) (\<lambda>_.
     bind_st (importAttestations pubkey as) (\<lambda>_. importAll vs))"

section \<open>Searching lists\<close>

lemma find_SomeD: "find P xs = Some x \<Longrightarrow> x \<in> set xs \<and> P x"
  by (induction xs) (auto split: if_splits)

lemma map_of_rev_find: "map_of (rev (map (\<lambda>v. (k v, g v)) vs)) x = map_option g (find (\<lambda>v. k v = x) (rev vs))"
proof (induction vs rule: rev_induct)
  case (snoc v vs)
  then show ?case by simp
qed simp

lemma find_key_cong: "(\<And>v. v \<in> set vs \<Longrightarrow> P v \<longleftrightarrow> Q v) \<Longrightarrow> find P vs = find Q vs"
  by (rule find_cong) auto

section \<open>The contract of a repository keyed by public key and number\<close>

text \<open>
  A repository is read back by its writes. \<open>holds d p H\<close> says that the repository has exactly the
  values \<open>H\<close> for the public key \<open>p\<close>.
\<close>

locale keyed_repository =
  fixes rget :: "'d \<Rightarrow> pubkey \<Rightarrow> nat \<Rightarrow> 'v option" and rset :: "pubkey \<Rightarrow> 'v list \<Rightarrow> 'd \<Rightarrow> 'd"
    and rkey :: "'v \<Rightarrow> nat" and key_ok :: "pubkey \<Rightarrow> bool" and bound :: nat
  assumes get_set: "key_ok p \<Longrightarrow> key_ok q \<Longrightarrow> (\<And>v. v \<in> set vs \<Longrightarrow> rkey v < bound) \<Longrightarrow> n < bound \<Longrightarrow>
      rget (rset p vs d) q n =
        (if q = p then (case find (\<lambda>v. rkey v = n) (rev vs) of Some v \<Rightarrow> Some v | None \<Rightarrow> rget d q n)
         else rget d q n)"
begin

definition holds :: "'d \<Rightarrow> pubkey \<Rightarrow> 'v list \<Rightarrow> bool" where
  "holds d p H \<longleftrightarrow> (\<forall>v \<in> set H. rkey v < bound) \<and>
     (\<forall>n < bound. \<forall>v. rget d p n = Some v \<longleftrightarrow> v \<in> set H \<and> rkey v = n)"

lemma holds_get: "holds d p H \<Longrightarrow> n < bound \<Longrightarrow> rget d p n = Some v \<longleftrightarrow> v \<in> set H \<and> rkey v = n"
  by (simp add: holds_def)

lemma holds_None: "holds d p H \<Longrightarrow> n < bound \<Longrightarrow> rget d p n = None \<longleftrightarrow> (\<forall>v \<in> set H. rkey v \<noteq> n)"
  by (metis (no_types, lifting) holds_get not_None_eq)

lemma holds_unique: "holds d p H \<Longrightarrow> v \<in> set H \<Longrightarrow> w \<in> set H \<Longrightarrow> rkey v = rkey w \<Longrightarrow> v = w"
  by (metis (no_types, lifting) holds_def option.inject)

lemma holds_cong: "(\<And>n. n < bound \<Longrightarrow> rget d' p n = rget d p n) \<Longrightarrow> holds d p H \<Longrightarrow> holds d' p H"
  by (simp add: holds_def)

lemma holds_set_cong: "set H = set H' \<Longrightarrow> holds d p H \<longleftrightarrow> holds d p H'"
  by (simp add: holds_def)

lemma holds_other: "key_ok p \<Longrightarrow> key_ok q \<Longrightarrow> p \<noteq> q \<Longrightarrow> (\<And>v. v \<in> set vs \<Longrightarrow> rkey v < bound) \<Longrightarrow>
    holds d q H \<Longrightarrow> holds (rset p vs d) q H"
  by (simp add: holds_def get_set)

lemma holds_set:
  assumes "key_ok p" "\<And>v. v \<in> set vs \<Longrightarrow> rkey v < bound" "holds d p H"
    and same: "\<And>v w. v \<in> set vs \<Longrightarrow> w \<in> set vs \<union> set H \<Longrightarrow> rkey v = rkey w \<Longrightarrow> v = w"
  shows "holds (rset p vs d) p (vs @ H)"
proof -
  have "rget (rset p vs d) p n = Some v \<longleftrightarrow> v \<in> set (vs @ H) \<and> rkey v = n" if n: "n < bound" for n v
  proof (cases "find (\<lambda>v. rkey v = n) (rev vs)")
    case None
    then have "\<forall>v \<in> set vs. rkey v \<noteq> n"
      by (simp add: find_None_iff)
    with None n assms(1-3) show ?thesis
      by (auto simp: get_set holds_def)
  next
    case (Some w)
    then have w: "w \<in> set vs" "rkey w = n"
      using find_SomeD [of _ "rev vs"] by auto
    show ?thesis
      using Some w n assms(1,2) same [OF w(1)] by (auto simp: get_set)
  qed
  with assms(2,3) show ?thesis
    by (auto simp: holds_def)
qed

end

text \<open>What a write of one repository leaves in the database under any key.\<close>

lemma db_get_batchPut_indexKey:
  assumes "pubkey_ok p" "pubkey_ok q" "\<And>v. v \<in> set vs \<Longrightarrow> key v < number_bound" "n < number_bound"
  shows "db_get (db_batchPut (map (\<lambda>v. (indexKey c p (key v), g v)) vs) d) (indexKey b q n) =
    (if b = c \<and> q = p then (case find (\<lambda>v. key v = n) (rev vs) of Some v \<Rightarrow> Some (g v) | None \<Rightarrow> db_get d (indexKey b q n))
     else db_get d (indexKey b q n))"
proof -
  have "find (\<lambda>v. indexKey c p (key v) = indexKey b q n) (rev vs) =
      (if b = c \<and> q = p then find (\<lambda>v. key v = n) (rev vs) else None)"
  proof (cases "b = c \<and> q = p")
    case True
    have "find (\<lambda>v. indexKey c p (key v) = indexKey b q n) (rev vs) = find (\<lambda>v. key v = n) (rev vs)"
    proof (rule find_key_cong)
      fix v assume "v \<in> set (rev vs)"
      then show "(indexKey c p (key v) = indexKey b q n) = (key v = n)"
        using True assms indexKey_inj [OF assms(1,2), of "key v" n c b] by simp
    qed
    with True show ?thesis by simp
  next
    case False
    have "find (\<lambda>v. indexKey c p (key v) = indexKey b q n) (rev vs) = None"
      using False assms indexKey_inj [OF assms(1,2), of _ n c b] by (auto simp: find_None_iff)
    with False show ?thesis by auto
  qed
  then show ?thesis
    by (simp add: db_get_batchPut map_of_rev_find split: option.split)
qed

interpretation blocks: keyed_repository getBlockBySlot setBlocks blk_slot pubkey_ok number_bound
  by unfold_locales
    (simp add: getBlockBySlot_def setBlocks_def blockKey_def db_get_batchPut_indexKey split: option.split)

interpretation atts: keyed_repository getAttestationByTarget setAttestations att_targetEpoch pubkey_ok number_bound
  by unfold_locales
    (simp add: getAttestationByTarget_def setAttestations_def attestationKey_def db_get_batchPut_indexKey
      split: option.split)

end
