(* ===== verification/SlashingProtectionSpec.thy ===== *)
theory SlashingProtectionSpec
  imports SlashingProtection
begin

text \<open>
  What the slashing protection promises: the frames of its writes, what the database knows after
  each call, and the safety of every sequence of calls.
\<close>

section \<open>Frames\<close>

text \<open>The two databases agree on every bucket outside \<open>C\<close>.\<close>

definition bucket_frame :: "bucket set \<Rightarrow> db \<Rightarrow> db \<Rightarrow> bool" where
  "bucket_frame C d d' \<longleftrightarrow> (\<forall>b key. b \<notin> C \<longrightarrow> db_get d' (encodeKey b key) = db_get d (encodeKey b key))"

lemma bucket_frame_refl [simp]: "bucket_frame C d d"
  by (simp add: bucket_frame_def)

lemma bucket_frame_trans: "bucket_frame C d d' \<Longrightarrow> bucket_frame C d' d'' \<Longrightarrow> bucket_frame C d d''"
  by (simp add: bucket_frame_def)

lemma bucket_frame_mono: "bucket_frame C d d' \<Longrightarrow> C \<subseteq> D \<Longrightarrow> bucket_frame D d d'"
  by (auto simp: bucket_frame_def)

lemma encodeKey_inj: "encodeKey b k = encodeKey c k' \<longleftrightarrow> b = c \<and> k = k'"
  by (simp add: encodeKey_def bucketNumber_inj)

lemma bucket_frame_put: "bucket_frame {c} d (db_put (encodeKey c k) v d)"
  by (simp add: bucket_frame_def encodeKey_inj)

lemma bucket_frame_batchPut: "bucket_frame {c} d (db_batchPut (map (\<lambda>v. (indexKey c p (key v), g v)) vs) d)"
proof (induction vs arbitrary: d)
  case (Cons v vs)
  have "bucket_frame {c} d (db_put (indexKey c p (key v)) (g v) d)"
    by (simp add: indexKey_def bucket_frame_put)
  from bucket_frame_trans [OF this Cons] show ?case
    by (simp add: db_batchPut_def)
qed (simp add: db_batchPut_def)

lemma setBlocks_frame: "bucket_frame {phase0_slashingProtectionBlockBySlot} d (setBlocks p bs d)"
  unfolding setBlocks_def blockKey_def by (rule bucket_frame_batchPut)

lemma setAttestations_frame: "bucket_frame {phase0_slashingProtectionAttestationByTarget} d (setAttestations p bs d)"
  unfolding setAttestations_def attestationKey_def by (rule bucket_frame_batchPut)

lemma setSpans_frame: "bucket_frame {c} d (setSpans c p vs d)"
  unfolding setSpans_def by (rule bucket_frame_batchPut)

lemma setLowerBound_frame: "bucket_frame {phase0_slashingProtectionAttestationLowerBound} d (setLowerBound p b d)"
  unfolding setLowerBound_def lowerBoundKey_def by (rule bucket_frame_put)

abbreviation span_buckets :: "bucket set" where
  "span_buckets \<equiv> {index_slashingProtectionMinSpanDistance, index_slashingProtectionMaxSpanDistance}"

lemma insertSpans_frame: "bucket_frame span_buckets d (snd (insertSpans p a d))"
proof -
  have mn: "bucket_frame span_buckets s (snd (updateMinSpan DistanceStoreRepository None p x s))" for x s
    by (auto simp: updateMinSpan_def bind_st_def split: sum.split prod.split
      intro: bucket_frame_mono [OF setSpans_frame])
  have mx: "bucket_frame span_buckets s (snd (updateMaxSpan DistanceStoreRepository p x s))" for x s
    by (auto simp: updateMaxSpan_def bind_st_def split: sum.split prod.split
      intro: bucket_frame_mono [OF setSpans_frame])
  have "bucket_frame span_buckets d (snd (insertSurround DistanceStoreRepository None p (surroundAtt a) d))"
    unfolding insertSurround_def
    by (rule rel_bind_st [where R = "bucket_frame span_buckets"]) (auto intro: bucket_frame_trans mn mx)
  then show ?thesis
    by (auto simp: insertSpans_def throw_as_def split: sum.split prod.split)
qed

lemma blocks_frame: "bucket_frame C d d' \<Longrightarrow> phase0_slashingProtectionBlockBySlot \<notin> C \<Longrightarrow>
    getBlockBySlot d' p n = getBlockBySlot d p n"
  by (simp add: bucket_frame_def getBlockBySlot_def blockKey_def indexKey_def)

lemma atts_frame: "bucket_frame C d d' \<Longrightarrow> phase0_slashingProtectionAttestationByTarget \<notin> C \<Longrightarrow>
    getAttestationByTarget d' p n = getAttestationByTarget d p n"
  by (simp add: bucket_frame_def getAttestationByTarget_def attestationKey_def indexKey_def)

lemma spans_frame: "bucket_frame C d d' \<Longrightarrow> b \<notin> C \<Longrightarrow> getSpan b d' p n = getSpan b d p n"
  by (simp add: bucket_frame_def getSpan_def indexKey_def)

lemma spans_exact_frame: "bucket_frame C d d' \<Longrightarrow> C \<inter> span_buckets = {} \<Longrightarrow>
    spans.spans_exact d p H \<Longrightarrow> spans.spans_exact d' p H"
  using spans_frame [of C d d'] by (simp add: spans.spans_exact_def)

lemma lower_bound_frame: "bucket_frame C d d' \<Longrightarrow> phase0_slashingProtectionAttestationLowerBound \<notin> C \<Longrightarrow>
    getLowerBound d' p = getLowerBound d p"
  by (simp add: bucket_frame_def getLowerBound_def lowerBoundKey_def)

section \<open>What the database knows\<close>

text \<open>
  The database has recorded, for every public key, exactly the blocks \<open>B\<close> and the attestations \<open>A\<close>,
  and the spans are exact for the attestations \<open>S\<close>, of which none surrounds another one. Between
  two calls \<open>S\<close> is \<open>A\<close>; in the middle of an insertion the spans lag behind.
\<close>

definition records :: "db \<Rightarrow> (pubkey \<Rightarrow> sp_block list) \<Rightarrow> (pubkey \<Rightarrow> sp_attestation list)
    \<Rightarrow> (pubkey \<Rightarrow> sp_attestation list) \<Rightarrow> bool" where
  "records d B A S \<longleftrightarrow> (\<forall>p. pubkey_ok p \<longrightarrow>
     blocks.holds d p (B p) \<and> atts.holds d p (A p) \<and> spans.spans_exact d p (map surroundAtt (S p)) \<and>
     (\<forall>a \<in> set (S p). \<forall>b \<in> set (S p). \<not> surrounds (surroundAtt a) (surroundAtt b)))"

lemma records_D:
  assumes "records d B A S" "pubkey_ok p"
  shows "blocks.holds d p (B p)" "atts.holds d p (A p)" "spans.spans_exact d p (map surroundAtt (S p))"
    "a \<in> set (S p) \<Longrightarrow> b \<in> set (S p) \<Longrightarrow> \<not> surrounds (surroundAtt a) (surroundAtt b)"
  using assms by (auto simp: records_def)

lemma records_empty: "records [] (\<lambda>_. []) (\<lambda>_. []) (\<lambda>_. [])"
  by (simp add: records_def blocks.holds_def atts.holds_def spans.spans_exact_def getBlockBySlot_def
    getAttestationByTarget_def getSpan_def db_get_def jm_get_def min_ok_def max_ok_def)

lemma records_setBlocks:
  assumes r: "records d B A S" and p: "pubkey_ok p" and n: "\<And>b. b \<in> set bs \<Longrightarrow> blk_slot b < number_bound"
    and u: "\<And>b c. b \<in> set bs \<Longrightarrow> c \<in> set bs \<union> set (B p) \<Longrightarrow> blk_slot b = blk_slot c \<Longrightarrow> b = c"
  shows "records (setBlocks p bs d) (B(p := bs @ B p)) A S"
proof -
  note f = setBlocks_frame [of d p bs]
  have "blocks.holds (setBlocks p bs d) p (bs @ B p)"
    by (rule blocks.holds_set [OF p _ records_D(1) [OF r p]]) (use n u in auto)
  moreover have "blocks.holds (setBlocks p bs d) q (B q)" if "pubkey_ok q" "q \<noteq> p" for q
    by (rule blocks.holds_other [OF p _ _ _ records_D(1) [OF r]]) (use n that in auto)
  moreover have "atts.holds (setBlocks p bs d) q (A q)" if "pubkey_ok q" for q
    by (rule atts.holds_cong [OF _ records_D(2) [OF r that]]) (simp add: atts_frame [OF f])
  moreover have "spans.spans_exact (setBlocks p bs d) q (map surroundAtt (S q))" if "pubkey_ok q" for q
    by (rule spans_exact_frame [OF f _ records_D(3) [OF r that]]) simp
  ultimately show ?thesis
    using r unfolding records_def by (metis (no_types, lifting) fun_upd_apply)
qed

lemma records_setAttestations:
  assumes r: "records d B A S" and p: "pubkey_ok p" and n: "\<And>a. a \<in> set as \<Longrightarrow> att_targetEpoch a < number_bound"
    and u: "\<And>a c. a \<in> set as \<Longrightarrow> c \<in> set as \<union> set (A p) \<Longrightarrow> att_targetEpoch a = att_targetEpoch c \<Longrightarrow> a = c"
  shows "records (setAttestations p as d) B (A(p := as @ A p)) S"
proof -
  note f = setAttestations_frame [of d p as]
  have "atts.holds (setAttestations p as d) p (as @ A p)"
    by (rule atts.holds_set [OF p _ records_D(2) [OF r p]]) (use n u in auto)
  moreover have "atts.holds (setAttestations p as d) q (A q)" if "pubkey_ok q" "q \<noteq> p" for q
    by (rule atts.holds_other [OF p _ _ _ records_D(2) [OF r]]) (use n that in auto)
  moreover have "blocks.holds (setAttestations p as d) q (B q)" if "pubkey_ok q" for q
    by (rule blocks.holds_cong [OF _ records_D(1) [OF r that]]) (simp add: blocks_frame [OF f])
  moreover have "spans.spans_exact (setAttestations p as d) q (map surroundAtt (S q))" if "pubkey_ok q" for q
    by (rule spans_exact_frame [OF f _ records_D(3) [OF r that]]) simp
  ultimately show ?thesis
    using r unfolding records_def by (metis (no_types, lifting) fun_upd_apply)
qed

text \<open>Entering one attestation into the spans: the call succeeds exactly on attestations that fit.\<close>

lemma surroundAtt_simps [simp]:
  "sa_sourceEpoch (surroundAtt a) = att_sourceEpoch a" "sa_targetEpoch (surroundAtt a) = att_targetEpoch a"
  by (simp_all add: surroundAtt_def)

lemma insertSpans_records:
  assumes r: "records d B A S" and p: "pubkey_ok p" and n: "att_targetEpoch a < number_bound"
    and le: "att_sourceEpoch a \<le> att_targetEpoch a"
    and fit: "\<And>b. b \<in> set (S p) \<Longrightarrow> \<not> surrounds (surroundAtt a) (surroundAtt b) \<and> \<not> surrounds (surroundAtt b) (surroundAtt a)"
  shows "\<exists>d'. insertSpans p a d = (Inr (), d') \<and> records d' B A (S(p := a # S p))"
proof -
  have "\<exists>d'. insertSurround DistanceStoreRepository None p (surroundAtt a) d = (Inr (), d') \<and>
      spans.spans_exact d' p (surroundAtt a # map surroundAtt (S p)) \<and>
      (\<forall>q H. pubkey_ok q \<longrightarrow> q \<noteq> p \<longrightarrow> spans.spans_exact d q H \<longrightarrow> spans.spans_exact d' q H)"
    by (rule spans.insertSurround_ok [OF records_D(3) [OF r p] p]) (use n le fit in auto)
  then obtain d' where d': "insertSurround DistanceStoreRepository None p (surroundAtt a) d = (Inr (), d')"
    and ex: "spans.spans_exact d' p (map surroundAtt (a # S p))"
    and other: "\<And>q H. pubkey_ok q \<Longrightarrow> q \<noteq> p \<Longrightarrow> spans.spans_exact d q H \<Longrightarrow> spans.spans_exact d' q H"
    by auto
  have run: "insertSpans p a d = (Inr (), d')"
    using d' by (simp add: insertSpans_def throw_as_def)
  have f: "bucket_frame span_buckets d d'"
    using insertSpans_frame [of d p a] run by simp
  have "blocks.holds d' q (B q)" if "pubkey_ok q" for q
    by (rule blocks.holds_cong [OF _ records_D(1) [OF r that]]) (simp add: blocks_frame [OF f])
  moreover have "atts.holds d' q (A q)" if "pubkey_ok q" for q
    by (rule atts.holds_cong [OF _ records_D(2) [OF r that]]) (simp add: atts_frame [OF f])
  moreover have "spans.spans_exact d' q (map surroundAtt ((S(p := a # S p)) q))" if "pubkey_ok q" for q
    using ex other [OF that _ records_D(3) [OF r that]] by (cases "q = p") simp_all
  moreover have "\<not> surrounds (surroundAtt b) (surroundAtt c)"
    if "pubkey_ok q" "b \<in> set ((S(p := a # S p)) q)" "c \<in> set ((S(p := a # S p)) q)" for q b c
    using that fit records_D(4) [OF r that(1)] by (auto simp: surrounds_def split: if_splits)
  ultimately show ?thesis
    using run unfolding records_def by blast
qed

lemma insertSpans_misfit:
  assumes r: "records d B A S" and p: "pubkey_ok p" and n: "att_targetEpoch a < number_bound"
    and le: "att_sourceEpoch a \<le> att_targetEpoch a" and run: "insertSpans p a d = (Inr (), d')" and b: "b \<in> set (S p)"
  shows "\<not> surrounds (surroundAtt a) (surroundAtt b) \<and> \<not> surrounds (surroundAtt b) (surroundAtt a)"
  using spans.insertSurround_only [OF records_D(3) [OF r p] p, of "surroundAtt a" d'] run n le b
  by (auto simp: insertSpans_def throw_as_def split: sum.splits prod.splits)

lemma records_setLowerBound: "records d B A S \<Longrightarrow> records (setLowerBound p b d) B A S"
proof -
  note f = setLowerBound_frame [of d p b]
  assume r: "records d B A S"
  have "blocks.holds (setLowerBound p b d) q (B q)" if "pubkey_ok q" for q
    by (rule blocks.holds_cong [OF _ records_D(1) [OF r that]]) (simp add: blocks_frame [OF f])
  moreover have "atts.holds (setLowerBound p b d) q (A q)" if "pubkey_ok q" for q
    by (rule atts.holds_cong [OF _ records_D(2) [OF r that]]) (simp add: atts_frame [OF f])
  moreover have "spans.spans_exact (setLowerBound p b d) q (map surroundAtt (S q))" if "pubkey_ok q" for q
    by (rule spans_exact_frame [OF f _ records_D(3) [OF r that]]) simp
  ultimately show ?thesis
    using r by (simp add: records_def)
qed

section \<open>Checks\<close>

lemma checkBlockProposal_blocks:
  assumes r: "records d B A S" and p: "pubkey_ok p" and n: "blk_slot b < number_bound"
    and run: "checkBlockProposal d p b = Inr st"
  shows "if st = SAME_DATA
    then \<exists>c \<in> set (B p). blk_slot c = blk_slot b \<and> blk_signingRoot c = blk_signingRoot b \<and> blk_signingRoot b \<noteq> ZERO_ROOT
    else \<forall>c \<in> set (B p). blk_slot c \<noteq> blk_slot b"
proof (cases "getBlockBySlot d p (blk_slot b)")
  case None
  with blocks.holds_None [OF records_D(1) [OF r p] n] run show ?thesis
    by (auto simp: checkBlockProposal_def checkMinBlock_def split: option.splits if_splits)
next
  case (Some c)
  with blocks.holds_get [OF records_D(1) [OF r p] n] have "c \<in> set (B p)" "blk_slot c = blk_slot b"
    by auto
  with Some run show ?thesis
    by (auto simp: checkBlockProposal_def isEqualNonZeroRoot_def isEqualRoot_def split: if_splits)
qed

lemma checkAttestation_atts:
  assumes r: "records d B A A" and p: "pubkey_ok p" and n: "att_targetEpoch a < number_bound"
    and run: "checkAttestation d p a = Inr st"
  shows "att_sourceEpoch a \<le> att_targetEpoch a" "if st = SAME_DATA
    then \<exists>c \<in> set (A p). att_targetEpoch c = att_targetEpoch a \<and> att_signingRoot c = att_signingRoot a \<and> att_signingRoot a \<noteq> ZERO_ROOT
    else \<forall>c \<in> set (A p). att_targetEpoch c \<noteq> att_targetEpoch a \<and>
      \<not> surrounds (surroundAtt a) (surroundAtt c) \<and> \<not> surrounds (surroundAtt c) (surroundAtt a)"
proof -
  show le: "att_sourceEpoch a \<le> att_targetEpoch a"
    using run by (auto simp: checkAttestation_def split: if_splits)
  show "if st = SAME_DATA
    then \<exists>c \<in> set (A p). att_targetEpoch c = att_targetEpoch a \<and> att_signingRoot c = att_signingRoot a \<and> att_signingRoot a \<noteq> ZERO_ROOT
    else \<forall>c \<in> set (A p). att_targetEpoch c \<noteq> att_targetEpoch a \<and>
      \<not> surrounds (surroundAtt a) (surroundAtt c) \<and> \<not> surrounds (surroundAtt c) (surroundAtt a)"
  proof (cases "getAttestationByTarget d p (att_targetEpoch a)")
    case None
    then have "assertNoSurround DistanceStoreRepository d p (surroundAtt a) = Inr ()" "st = SafeOK"
      using run le by (auto simp: checkAttestation_def checkLowerBound_def split: sum.splits option.splits if_splits)
    with atts.holds_None [OF records_D(2) [OF r p] n] None n le
      spans.assertNoSurround_iff [OF records_D(3) [OF r p], of "surroundAtt a"] show ?thesis
      by auto
  next
    case (Some c)
    with atts.holds_get [OF records_D(2) [OF r p] n] have "c \<in> set (A p)" "att_targetEpoch c = att_targetEpoch a"
      by auto
    with Some run le show ?thesis
      by (auto simp: checkAttestation_def isEqualNonZeroRoot_def isEqualRoot_def split: if_splits)
  qed
qed

section \<open>One request\<close>

definition request_ok :: "sign_request \<Rightarrow> bool" where
  "request_ok r = (case r of
      SignBlock p b \<Rightarrow> pubkey_ok p \<and> blk_slot b < MAX_SAFE_INTEGER
    | SignAttestation p a \<Rightarrow> pubkey_ok p \<and> att_targetEpoch a < MAX_SAFE_INTEGER)"

lemma safe_number: "n < MAX_SAFE_INTEGER \<Longrightarrow> n < number_bound"
  by (simp add: MAX_SAFE_INTEGER_def number_bound_def uintLen_def)

lemma checkAndInsertBlockProposal_records:
  assumes r: "records d B A A" and p: "pubkey_ok p" and n: "blk_slot b < number_bound"
    and run: "checkAndInsertBlockProposal p b d = (Inr (), d')"
  shows "(\<exists>c \<in> set (B p). blk_slot c = blk_slot b \<and> blk_signingRoot c = blk_signingRoot b) \<and> d' = d \<or>
    (\<forall>c \<in> set (B p). blk_slot c \<noteq> blk_slot b) \<and> records d' (B(p := b # B p)) A A"
proof -
  obtain st where st: "checkBlockProposal d p b = Inr st"
    "(if st \<noteq> SAME_DATA then insertBlockProposal p b else ret_st ()) d = (Inr (), d')"
    using run by (auto simp: checkAndInsertBlockProposal_def throw_as_def bind_st_eq_Inr split: sum.splits)
  show ?thesis
  proof (cases "st = SAME_DATA")
    case True
    with checkBlockProposal_blocks [OF r p n st(1)] st(2) show ?thesis by auto
  next
    case False
    with checkBlockProposal_blocks [OF r p n st(1)] have new: "\<forall>c \<in> set (B p). blk_slot c \<noteq> blk_slot b"
      by simp
    have "records (setBlocks p [b] d) (B(p := [b] @ B p)) A A"
      by (rule records_setBlocks [OF r p]) (use n new in auto)
    with False st(2) new show ?thesis
      by (auto simp: insertBlockProposal_def)
  qed
qed

lemma checkAndInsertAttestation_records:
  assumes r: "records d B A A" and p: "pubkey_ok p" and n: "att_targetEpoch a < number_bound"
    and run: "checkAndInsertAttestation p a d = (res, d')"
  shows "case res of Inl e \<Rightarrow> d' = d \<and> (\<exists>e'. e = InvalidAttestation e' \<and> checkAttestation d p a = Inl e')
    | Inr _ \<Rightarrow> (\<exists>c \<in> set (A p). att_targetEpoch c = att_targetEpoch a \<and> att_signingRoot c = att_signingRoot a \<and> att_signingRoot a \<noteq> ZERO_ROOT) \<and> d' = d \<or>
      (\<forall>c \<in> set (A p). att_targetEpoch c \<noteq> att_targetEpoch a) \<and> records d' B (A(p := a # A p)) (A(p := a # A p))"
proof (cases "checkAttestation d p a")
  case (Inl e)
  with run show ?thesis
    by (auto simp: checkAndInsertAttestation_def throw_as_def bind_st_def)
next
  case (Inr st)
  note chk = checkAttestation_atts [OF r p n Inr]
  have run': "(if st \<noteq> SAME_DATA then insertAttestation p a else ret_st ()) d = (res, d')"
    using run Inr by (simp add: checkAndInsertAttestation_def throw_as_def bind_st_def)
  show ?thesis
  proof (cases "st = SAME_DATA")
    case True
    with chk(2) run' show ?thesis by auto
  next
    case False
    with chk(2) have fit: "\<forall>c \<in> set (A p). att_targetEpoch c \<noteq> att_targetEpoch a \<and>
        \<not> surrounds (surroundAtt a) (surroundAtt c) \<and> \<not> surrounds (surroundAtt c) (surroundAtt a)"
      by simp
    have "records (setAttestations p [a] d) B (A(p := [a] @ A p)) A"
      by (rule records_setAttestations [OF r p]) (use n fit in auto)
    from insertSpans_records [OF this p n chk(1)] fit obtain d1
      where "insertSpans p a (setAttestations p [a] d) = (Inr (), d1)" "records d1 B (A(p := a # A p)) (A(p := a # A p))"
      by auto
    with False run' fit show ?thesis
      by (auto simp: insertAttestation_def bind_st_def)
  qed
qed

section \<open>Imports\<close>

lemma records_cong:
  assumes "records d B A S" "\<And>p. set (A p) = set (A' p)" "\<And>p. set (S p) = set (S' p)"
  shows "records d B A' S'"
proof -
  have "atts.holds d p (A p) = atts.holds d p (A' p)" for p
    by (rule atts.holds_set_cong) (rule assms)
  moreover have "spans.spans_exact d p (map surroundAtt (S p)) = spans.spans_exact d p (map surroundAtt (S' p))" for p
    by (rule spans.spans_exact_cong) (simp add: assms)
  ultimately show ?thesis
    using assms by (simp add: records_def)
qed

lemma insertAllSpans_records:
  assumes "records d B A S" "pubkey_ok p"
    "\<And>a. a \<in> set as \<Longrightarrow> att_targetEpoch a < number_bound \<and> att_sourceEpoch a \<le> att_targetEpoch a"
    "insertAllSpans p as d = (Inr (), d')"
  shows "records d' B A (S(p := rev as @ S p))"
  using assms
proof (induction as arbitrary: d S)
  case (Cons a as)
  then obtain d1 where d1: "insertSpans p a d = (Inr (), d1)" "insertAllSpans p as d1 = (Inr (), d')"
    by (auto simp: bind_st_eq_Inr)
  have "\<exists>d1'. insertSpans p a d = (Inr (), d1') \<and> records d1' B A (S(p := a # S p))"
    by (rule insertSpans_records [OF Cons.prems(1,2)])
      (use Cons.prems(3) insertSpans_misfit [OF Cons.prems(1,2) _ _ d1(1)] in auto)
  with d1(1) have "records d1 B A (S(p := a # S p))" by auto
  from Cons.IH [OF this Cons.prems(2) _ d1(2)] Cons.prems(3)
  show ?case by (simp del: fun_upd_apply add: fun_upd_same)
qed simp

lemma importAttestations_records:
  assumes r: "records d B A A" and p: "pubkey_ok p"
    and n: "\<And>a. a \<in> set as \<Longrightarrow> att_targetEpoch a < number_bound \<and> att_sourceEpoch a \<le> att_targetEpoch a"
    and u: "\<And>a c. a \<in> set as \<Longrightarrow> c \<in> set as \<union> set (A p) \<Longrightarrow> att_targetEpoch a = att_targetEpoch c \<Longrightarrow> a = c"
    and run: "importAttestations p as d = (Inr (), d')"
  shows "records d' B (A(p := as @ A p)) (A(p := as @ A p))"
proof -
  obtain d1 where d1: "insertAllSpans p as (setAttestations p as d) = (Inr (), d1)"
    and d': "d' = d1 \<or> (\<exists>b. d' = setLowerBound p b d1)"
    using run by (auto simp: importAttestations_def bind_st_eq_Inr split: option.splits)
  have "records (setAttestations p as d) B (A(p := as @ A p)) A"
    by (rule records_setAttestations [OF r p]) (use n u in auto)
  from insertAllSpans_records [OF this p n d1]
  have "records d1 B (A(p := as @ A p)) (A(p := rev as @ A p))" by simp
  then have "records d1 B (A(p := as @ A p)) (A(p := as @ A p))"
    by (rule records_cong) auto
  then show ?thesis
    using d' records_setLowerBound by blast
qed

text \<open>What a list of validators brings in.\<close>

type_synonym history = "(pubkey \<times> sp_block list \<times> sp_attestation list) list"

definition imported_blocks :: "history \<Rightarrow> pubkey \<Rightarrow> sp_block list" where
  "imported_blocks vs p = concat [bs. (q, bs, as) \<leftarrow> vs, q = p]"

definition imported_atts :: "history \<Rightarrow> pubkey \<Rightarrow> sp_attestation list" where
  "imported_atts vs p = concat [as. (q, bs, as) \<leftarrow> vs, q = p]"

text \<open>A history names no public key twice and holds one entry per slot and per target epoch.\<close>

definition history_ok :: "history \<Rightarrow> bool" where
  "history_ok vs \<longleftrightarrow> distinct (map fst vs) \<and> (\<forall>(p, bs, as) \<in> set vs. pubkey_ok p \<and>
     (\<forall>b \<in> set bs. blk_slot b < MAX_SAFE_INTEGER) \<and> inj_on blk_slot (set bs) \<and>
     (\<forall>a \<in> set as. att_targetEpoch a < MAX_SAFE_INTEGER \<and> att_sourceEpoch a \<le> att_targetEpoch a) \<and>
     inj_on att_targetEpoch (set as))"

lemma importAll_records:
  assumes "records d B A A" "history_ok vs" "importAll vs d = (Inr (), d')"
    "\<And>p. p \<in> fst ` set vs \<Longrightarrow> B p = [] \<and> A p = []"
  shows "\<exists>B' A'. records d' B' A' A' \<and> (\<forall>p. set (B' p) = set (imported_blocks vs p) \<union> set (B p)) \<and>
    (\<forall>p. set (A' p) = set (imported_atts vs p) \<union> set (A p))"
  using assms
proof (induction vs arbitrary: d B A)
  case Nil
  then show ?case
    by (auto simp: imported_blocks_def imported_atts_def)
next
  case (Cons v vs)
  obtain p bs as where v: "v = (p, bs, as)" by (cases v)
  have ok: "pubkey_ok p" "\<And>b. b \<in> set bs \<Longrightarrow> blk_slot b < number_bound" "inj_on blk_slot (set bs)"
    "\<And>a. a \<in> set as \<Longrightarrow> att_targetEpoch a < number_bound \<and> att_sourceEpoch a \<le> att_targetEpoch a"
    "inj_on att_targetEpoch (set as)" "history_ok vs" "p \<notin> fst ` set vs"
    using Cons.prems(2) by (auto simp: v history_ok_def safe_number)
  have e: "B p = []" "A p = []"
    using Cons.prems(4) by (auto simp: v)
  obtain d1 where d1: "importAttestations p as (setBlocks p bs d) = (Inr (), d1)" "importAll vs d1 = (Inr (), d')"
    using Cons.prems(3) by (auto simp: v bind_st_eq_Inr importBlocks_def)
  have "records (setBlocks p bs d) (B(p := bs @ B p)) A A"
    by (rule records_setBlocks [OF Cons.prems(1) ok(1,2)]) (use ok(3) e in \<open>auto dest: inj_onD\<close>)
  then have r1: "records d1 (B(p := bs @ B p)) (A(p := as @ A p)) (A(p := as @ A p))"
    by (rule importAttestations_records [OF _ ok(1,4) _ d1(1)]) (use ok(5) e in \<open>auto dest: inj_onD\<close>)
  have em: "(B(p := bs @ B p)) q = [] \<and> (A(p := as @ A p)) q = []" if "q \<in> fst ` set vs" for q
    using that ok(7) Cons.prems(4) by (auto simp: v)
  from Cons.IH [OF r1 ok(6) d1(2) em] obtain B' A' where "records d' B' A' A'"
    "\<forall>q. set (B' q) = set (imported_blocks vs q) \<union> set ((B(p := bs @ B p)) q)"
    "\<forall>q. set (A' q) = set (imported_atts vs q) \<union> set ((A(p := as @ A p)) q)"
    by blast
  then show ?case
    by (intro exI [of _ B'] exI [of _ A']) (auto simp: v imported_blocks_def imported_atts_def)
qed

section \<open>Sequences of requests\<close>

text \<open>\<open>is_slashable_attestation_data\<close> of the consensus specification, one way round.\<close>

definition slashable :: "sp_attestation \<Rightarrow> sp_attestation \<Rightarrow> bool" where
  "slashable a b \<longleftrightarrow> a \<noteq> b \<and> att_targetEpoch a = att_targetEpoch b \<or> surrounds (surroundAtt a) (surroundAtt b)"

definition requested_atts :: "sign_request list \<Rightarrow> pubkey \<Rightarrow> sp_attestation list" where
  "requested_atts rs p = [a. SignAttestation q a \<leftarrow> rs, q = p]"

definition requested_blocks :: "sign_request list \<Rightarrow> pubkey \<Rightarrow> sp_block list" where
  "requested_blocks rs p = [b. SignBlock q b \<leftarrow> rs, q = p]"

text \<open>A signing root that is given determines the attestation it is the root of.\<close>

definition roots_determine :: "sp_attestation set \<Rightarrow> bool" where
  "roots_determine X \<longleftrightarrow> (\<forall>a \<in> X. \<forall>b \<in> X. att_signingRoot a = att_signingRoot b \<longrightarrow>
     att_signingRoot a \<noteq> ZERO_ROOT \<longrightarrow> a = b)"

definition no_slashing :: "sp_block set \<Rightarrow> sp_attestation set \<Rightarrow> bool" where
  "no_slashing B A \<longleftrightarrow> (\<forall>a \<in> A. \<forall>b \<in> A. \<not> slashable a b) \<and>
     (\<forall>b \<in> B. \<forall>c \<in> B. blk_slot b = blk_slot c \<longrightarrow> blk_signingRoot b = blk_signingRoot c)"

lemma records_no_slashing: "records d B A A \<Longrightarrow> pubkey_ok p \<Longrightarrow> no_slashing (set (B p)) (set (A p))"
  using records_D [of d B A A p] blocks.holds_unique [of d p "B p"] atts.holds_unique [of d p "A p"]
  unfolding no_slashing_def slashable_def by blast

text \<open>A request that is let through is recorded; one that is refused leaves the database alone.\<close>

definition grown :: "sign_request list \<Rightarrow> (pubkey \<Rightarrow> sp_block list) \<Rightarrow> (pubkey \<Rightarrow> sp_attestation list)
    \<Rightarrow> (pubkey \<Rightarrow> sp_block list) \<Rightarrow> (pubkey \<Rightarrow> sp_attestation list) \<Rightarrow> bool" where
  "grown ok B A B' A' \<longleftrightarrow> (\<forall>p. set (B' p) = set (B p) \<union> set (requested_blocks ok p) \<and>
     set (A' p) = set (A p) \<union> set (requested_atts ok p))"

lemma sp_block_eqI: "blk_slot b = blk_slot c \<Longrightarrow> blk_signingRoot b = blk_signingRoot c \<Longrightarrow> b = (c :: sp_block)"
  by (cases b; cases c) simp

lemma checkAndInsert_records:
  assumes r: "records d B A A" and ok: "request_ok r" and run: "checkAndInsert r d = (res, d')"
    and roots: "\<And>p. roots_determine (set (A p) \<union> set (requested_atts [r] p))"
  shows "case res of Inl e \<Rightarrow> d' = d | Inr _ \<Rightarrow> \<exists>B' A'. records d' B' A' A' \<and> grown [r] B A B' A'"
proof (cases r)
  case (SignBlock p b)
  with ok have p: "pubkey_ok p" and n: "blk_slot b < number_bound"
    by (auto simp: request_ok_def safe_number)
  show ?thesis
  proof (cases res)
    case (Inl e)
    with run SignBlock show ?thesis
      by (auto simp: checkAndInsertBlockProposal_def insertBlockProposal_def throw_as_def bind_st_def
        split: sum.splits if_splits)
  next
    case (Inr u)
    with run SignBlock have "checkAndInsertBlockProposal p b d = (Inr (), d')" by simp
    from checkAndInsertBlockProposal_records [OF r p n this] consider
      (same) "b \<in> set (B p)" "d' = d" | (new) "records d' (B(p := b # B p)) A A"
      by (metis (no_types, lifting) sp_block_eqI)
    then show ?thesis
    proof cases
      case same
      then have "grown [r] B A B A"
        using SignBlock by (auto simp: grown_def requested_blocks_def requested_atts_def)
      with r same(2) Inr show ?thesis by auto
    next
      case new
      have "grown [r] B A (B(p := b # B p)) A"
        using SignBlock by (auto simp: grown_def requested_blocks_def requested_atts_def)
      with new Inr show ?thesis by auto
    qed
  qed
next
  case (SignAttestation p a)
  with ok have p: "pubkey_ok p" and n: "att_targetEpoch a < number_bound"
    by (auto simp: request_ok_def safe_number)
  have "checkAndInsertAttestation p a d = (res, d')"
    using run SignAttestation by simp
  note step = checkAndInsertAttestation_records [OF r p n this]
  show ?thesis
  proof (cases res)
    case (Inl e)
    with step show ?thesis by simp
  next
    case (Inr u)
    with step roots [of p] SignAttestation consider
      (same) "a \<in> set (A p)" "d' = d" | (new) "records d' B (A(p := a # A p)) (A(p := a # A p))"
      by (auto simp: roots_determine_def requested_atts_def)
    then show ?thesis
    proof cases
      case same
      then have "grown [r] B A B A"
        using SignAttestation by (auto simp: grown_def requested_blocks_def requested_atts_def)
      with r same(2) Inr show ?thesis by auto
    next
      case new
      have "grown [r] B A B (A(p := a # A p))"
        using SignAttestation by (auto simp: grown_def requested_blocks_def requested_atts_def)
      with new Inr show ?thesis by auto
    qed
  qed
qed

lemma requested_Cons: "requested_atts (r # rs) p = requested_atts [r] p @ requested_atts rs p"
  "requested_blocks (r # rs) p = requested_blocks [r] p @ requested_blocks rs p"
  by (simp_all add: requested_atts_def requested_blocks_def)

lemma sign_all_records:
  assumes "records d B A A" "\<And>r. r \<in> set rs \<Longrightarrow> request_ok r"
    "\<And>p. roots_determine (set (A p) \<union> set (requested_atts rs p))" "sign_all rs d = (ok, d')"
  shows "\<exists>B' A'. records d' B' A' A' \<and> grown ok B A B' A'"
  using assms
proof (induction rs arbitrary: d B A ok)
  case Nil
  then show ?case
    by (intro exI [of _ B] exI [of _ A]) (simp add: grown_def requested_atts_def requested_blocks_def)
next
  case (Cons r rs)
  obtain res d1 where run: "checkAndInsert r d = (res, d1)"
    by (cases "checkAndInsert r d")
  have roots: "roots_determine (set (A p) \<union> set (requested_atts [r] p))"
    "roots_determine (set (A p) \<union> set (requested_atts [r] p) \<union> set (requested_atts rs p))"
    "roots_determine (set (A p) \<union> set (requested_atts rs p))" for p
    using Cons.prems(3) [of p] requested_Cons(1) [of r rs p] by (auto simp: roots_determine_def)
  note step = checkAndInsert_records [OF Cons.prems(1) Cons.prems(2) run roots(1), simplified]
  show ?case
  proof (cases res)
    case (Inl e)
    with step run Cons.prems show ?thesis
      using Cons.IH [OF Cons.prems(1) _ roots(3)] by simp
  next
    case (Inr u)
    with step obtain B1 A1 where 1: "records d1 B1 A1 A1" "grown [r] B A B1 A1" by auto
    obtain ok' where ok': "sign_all rs d1 = (ok', d')" "ok = r # ok'"
      using Cons.prems(4) run Inr by (auto split: prod.splits)
    have "roots_determine (set (A1 p) \<union> set (requested_atts rs p))" for p
      using roots(2) 1(2) by (simp add: grown_def)
    from Cons.IH [OF 1(1) _ this ok'(1)] Cons.prems(2) obtain B' A' where
      "records d' B' A' A'" "grown ok' B1 A1 B' A'" by auto
    with 1(2) ok'(2) show ?thesis
      by (intro exI [of _ B'] exI [of _ A']) (auto simp: grown_def requested_Cons [of r ok'])
  qed
qed

lemma imported_then_signed:
  assumes "history_ok vs" "importAll vs [] = (Inr (), d0)" "\<And>r. r \<in> set rs \<Longrightarrow> request_ok r"
    "\<And>q. roots_determine (set (imported_atts vs q) \<union> set (requested_atts rs q))"
    "sign_all rs d0 = (ok, d)"
  shows "\<exists>B A. records d B A A \<and> (\<forall>p. set (B p) = set (imported_blocks vs p) \<union> set (requested_blocks ok p)) \<and>
    (\<forall>p. set (A p) = set (imported_atts vs p) \<union> set (requested_atts ok p))"
proof -
  from importAll_records [OF records_empty assms(1,2)] obtain B0 A0 where 0: "records d0 B0 A0 A0"
    "\<And>p. set (B0 p) = set (imported_blocks vs p)" "\<And>p. set (A0 p) = set (imported_atts vs p)"
    by auto
  from sign_all_records [OF 0(1) assms(3) _ assms(5)] assms(4) 0(2,3) show ?thesis
    by (fastforce simp: grown_def)
qed

end
