(* ===== verification/SlashingSession.thy ===== *)
theory SlashingSession
  imports SlashingProtectionSpec
begin

text \<open>
  Sessions of the slashing protection: an import of a history into an empty database, then any
  sequence of requests. The properties say which requests a session lets through, what is true of
  those it let through, what an export contains and which errors are reported.
\<close>

section \<open>Keys and lower bounds along a session\<close>

text \<open>What a call may do beside its records: keep the entries under their keys and the lower bounds.\<close>

definition keeps :: "db \<Rightarrow> db \<Rightarrow> bool" where
  "keeps d d' \<longleftrightarrow> (db_ok d \<longrightarrow> db_ok d') \<and> (\<forall>q. getLowerBound d' q = getLowerBound d q)"

lemma keeps_refl [simp]: "keeps d d"
  by (simp add: keeps_def)

lemma keeps_trans: "keeps a b \<Longrightarrow> keeps b c \<Longrightarrow> keeps a c"
  by (simp add: keeps_def)

lemma keeps_setBlocks: "pubkey_ok p \<Longrightarrow> (\<And>b. b \<in> set bs \<Longrightarrow> blk_slot b < number_bound) \<Longrightarrow> keeps d (setBlocks p bs d)"
  using lower_bound_frame [OF setBlocks_frame] by (simp add: keeps_def db_ok_setBlocks)

lemma keeps_setAttestations: "pubkey_ok p \<Longrightarrow> (\<And>a. a \<in> set as \<Longrightarrow> att_targetEpoch a < number_bound) \<Longrightarrow>
    keeps d (setAttestations p as d)"
  using lower_bound_frame [OF setAttestations_frame] by (simp add: keeps_def db_ok_setAttestations)

lemma keeps_setSpans: "c = index_slashingProtectionMinSpanDistance \<or> c = index_slashingProtectionMaxSpanDistance \<Longrightarrow>
    keeps d (setSpans c p vs d)"
  using lower_bound_frame [OF setSpans_frame [of c d p vs]] by (auto simp: keeps_def intro: db_ok_setSpans)

lemma keeps_insertSpans: "keeps d (snd (insertSpans p a d))"
proof -
  have mn: "keeps s (snd (updateMinSpan DistanceStoreRepository None p x s))" for x s
    by (auto simp: updateMinSpan_def bind_st_def keeps_setSpans split: sum.split prod.split)
  have mx: "keeps s (snd (updateMaxSpan DistanceStoreRepository p x s))" for x s
    by (auto simp: updateMaxSpan_def bind_st_def keeps_setSpans split: sum.split prod.split)
  have "keeps d (snd (insertSurround DistanceStoreRepository None p (surroundAtt a) d))"
    unfolding insertSurround_def by (rule rel_bind_st [where R = keeps]) (auto intro: keeps_trans mn mx)
  then show ?thesis
    by (auto simp: insertSpans_def throw_as_def split: sum.split prod.split)
qed

lemma keeps_insertAllSpans: "keeps d (snd (insertAllSpans p as d))"
proof (induction as arbitrary: d)
  case (Cons a as)
  show ?case
    by (simp, rule rel_bind_st [where R = keeps]) (auto intro: keeps_trans keeps_insertSpans Cons)
qed simp

lemma keeps_checkAndInsert:
  assumes "request_ok r"
  shows "keeps d (snd (checkAndInsert r d))"
proof (cases r)
  case (SignBlock p b)
  with assms have "keeps d (setBlocks p [b] d)" for d
    by (intro keeps_setBlocks) (auto simp: request_ok_def safe_number)
  with SignBlock show ?thesis
    by (auto simp: checkAndInsertBlockProposal_def insertBlockProposal_def throw_as_def bind_st_def
      split: sum.split prod.split)
next
  case (SignAttestation p a)
  with assms have w: "keeps d (setAttestations p [a] d)" for d
    by (intro keeps_setAttestations) (auto simp: request_ok_def safe_number)
  have "keeps d (snd (insertAttestation p a d))" for d
    unfolding insertAttestation_def
    by (rule rel_bind_st [where R = keeps]) (auto intro: keeps_trans keeps_insertSpans w)
  with SignAttestation show ?thesis
    by (auto simp: checkAndInsertAttestation_def throw_as_def bind_st_def split: sum.split prod.split)
qed

lemma keeps_sign_all: "(\<And>r. r \<in> set rs \<Longrightarrow> request_ok r) \<Longrightarrow> sign_all rs d = (ok, d') \<Longrightarrow> keeps d d'"
proof (induction rs arbitrary: d ok)
  case (Cons r rs)
  obtain res d1 where run: "checkAndInsert r d = (res, d1)"
    by (cases "checkAndInsert r d")
  with keeps_checkAndInsert [of r d] Cons.prems(1) have "keeps d d1" by simp
  moreover obtain ok' where "sign_all rs d1 = (ok', d')"
    using Cons.prems(2) run by (auto split: sum.splits prod.splits)
  ultimately show ?case
    using Cons keeps_trans by (meson list.set_intros(2))
qed simp

text \<open>The lower bound that an import leaves.\<close>

definition boundOf :: "sp_attestation list \<Rightarrow> lower_bound option" where
  "boundOf as = (if as = [] then None
     else Some \<lparr>minSourceEpoch = Min (att_sourceEpoch ` set as), minTargetEpoch = Min (att_targetEpoch ` set as)\<rparr>)"

lemma getLowerBound_set: "getLowerBound (setLowerBound p b d) q = (if q = p then Some b else getLowerBound d q)"
  by (auto simp: getLowerBound_def setLowerBound_def lowerBoundKey_def encodeKey_inj)

lemma importAttestations_bound:
  assumes "pubkey_ok p" "\<And>a. a \<in> set as \<Longrightarrow> att_targetEpoch a < number_bound" "importAttestations p as d = (Inr (), d')"
  shows "getLowerBound d' q = (if q = p \<and> as \<noteq> [] then boundOf as else getLowerBound d q)"
    "db_ok d \<Longrightarrow> db_ok d'"
proof -
  obtain d1 where d1: "insertAllSpans p as (setAttestations p as d) = (Inr (), d1)"
    and d': "d' = (if as = [] then d1 else setLowerBound p (the (boundOf as)) d1)"
    using assms(3) by (auto simp: importAttestations_def bind_st_eq_Inr minEpoch_def boundOf_def split: if_splits)
  have "keeps d d1"
    using keeps_setAttestations [OF assms(1,2), of as d] keeps_insertAllSpans [of "setAttestations p as d" p as] d1
    by (auto intro: keeps_trans)
  with d' show "getLowerBound d' q = (if q = p \<and> as \<noteq> [] then boundOf as else getLowerBound d q)"
    "db_ok d \<Longrightarrow> db_ok d'"
    by (auto simp: keeps_def getLowerBound_set boundOf_def intro: db_ok_setLowerBound)
qed

lemma imported_atts_Cons: "imported_atts ((p, bs, as) # vs) q = (if q = p then as else []) @ imported_atts vs q"
  by (simp add: imported_atts_def)

lemma importAll_bound:
  assumes "history_ok vs" "importAll vs d = (Inr (), d')" "db_ok d" "\<And>q. q \<in> fst ` set vs \<Longrightarrow> getLowerBound d q = None"
  shows "db_ok d'" "getLowerBound d' q = (if q \<in> fst ` set vs then boundOf (imported_atts vs q) else getLowerBound d q)"
proof -
  have "db_ok d' \<and> (\<forall>q. getLowerBound d' q = (if q \<in> fst ` set vs then boundOf (imported_atts vs q) else getLowerBound d q))"
    using assms
  proof (induction vs arbitrary: d)
    case (Cons v vs)
    obtain p bs as where v: "v = (p, bs, as)" by (cases v)
    have ok: "pubkey_ok p" "\<And>b. b \<in> set bs \<Longrightarrow> blk_slot b < number_bound"
      "\<And>a. a \<in> set as \<Longrightarrow> att_targetEpoch a < number_bound" "history_ok vs" "p \<notin> fst ` set vs"
      using Cons.prems(1) by (auto simp: v history_ok_def safe_number)
    obtain d1 where d1: "importAttestations p as (setBlocks p bs d) = (Inr (), d1)" "importAll vs d1 = (Inr (), d')"
      using Cons.prems(2) by (auto simp: v bind_st_eq_Inr importBlocks_def)
    have k: "keeps d (setBlocks p bs d)"
      by (rule keeps_setBlocks [OF ok(1,2)])
    note b = importAttestations_bound [OF ok(1,3) d1(1)]
    have lb: "getLowerBound d1 q = (if q = p \<and> as \<noteq> [] then boundOf as else getLowerBound d q)" for q
      using b(1) k by (simp add: keeps_def)
    have "db_ok d1"
      using b(2) k Cons.prems(3) by (simp add: keeps_def)
    moreover have "getLowerBound d1 q = None" if "q \<in> fst ` set vs" for q
      using that ok(5) Cons.prems(4) lb by (auto simp: v)
    moreover have "imported_atts vs p = []"
      using ok(5) by (induction vs) (auto simp: imported_atts_def)
    moreover have "boundOf [] = None"
      by (simp add: boundOf_def)
    ultimately show ?case
      using Cons.IH [OF ok(4) d1(2)] lb Cons.prems(4) ok(5)
      by (auto simp: v imported_atts_Cons)
  qed simp
  then show "db_ok d'" "getLowerBound d' q = (if q \<in> fst ` set vs then boundOf (imported_atts vs q) else getLowerBound d q)"
    by auto
qed


section \<open>Sessions\<close>

definition session :: "history \<Rightarrow> sign_request list \<Rightarrow> sign_request list \<Rightarrow> db \<Rightarrow> bool" where
  "session vs rs ok d \<longleftrightarrow> history_ok vs \<and> (\<forall>r \<in> set rs. request_ok r) \<and>
     (\<forall>q. roots_determine (set (imported_atts vs q) \<union> set (requested_atts rs q))) \<and>
     (case importAll vs [] of (Inl e, d0) \<Rightarrow> False | (Inr _, d0) \<Rightarrow> sign_all rs d0 = (ok, d))"

text \<open>What the database should know: what was imported and what was let through.\<close>

definition recorded_blocks :: "history \<Rightarrow> sign_request list \<Rightarrow> pubkey \<Rightarrow> sp_block set" where
  "recorded_blocks vs ok p = set (imported_blocks vs p) \<union> set (requested_blocks ok p)"

definition recorded_atts :: "history \<Rightarrow> sign_request list \<Rightarrow> pubkey \<Rightarrow> sp_attestation set" where
  "recorded_atts vs ok p = set (imported_atts vs p) \<union> set (requested_atts ok p)"

lemma sign_all_subset: "sign_all rs d = (ok, d') \<Longrightarrow> set ok \<subseteq> set rs"
proof (induction rs arbitrary: d ok)
  case (Cons r rs)
  then show ?case
    by (fastforce split: prod.splits sum.splits)
qed simp

lemma session_records:
  assumes "session vs rs ok d"
  shows "\<exists>B A. records d B A A \<and> (\<forall>p. set (B p) = recorded_blocks vs ok p) \<and> (\<forall>p. set (A p) = recorded_atts vs ok p)"
proof -
  obtain d0 where "importAll vs [] = (Inr (), d0)" "sign_all rs d0 = (ok, d)"
    using assms by (auto simp: session_def split: prod.splits sum.splits)
  from imported_then_signed [OF _ this(1) _ _ this(2)] assms show ?thesis
    by (auto simp: session_def recorded_blocks_def recorded_atts_def)
qed

lemma session_keys:
  assumes "session vs rs ok d"
  shows "db_ok d" "getLowerBound d p = boundOf (imported_atts vs p)"
proof -
  obtain d0 where d0: "importAll vs [] = (Inr (), d0)" "sign_all rs d0 = (ok, d)"
    using assms by (auto simp: session_def split: prod.splits sum.splits)
  have "history_ok vs" "\<And>r. r \<in> set rs \<Longrightarrow> request_ok r"
    using assms by (auto simp: session_def)
  with keeps_sign_all [OF _ d0(2)] have k: "keeps d0 d" by blast
  have e: "getLowerBound [] q = None" for q
    by (simp add: getLowerBound_def db_get_def)
  note b = importAll_bound [OF \<open>history_ok vs\<close> d0(1) db_ok_empty e]
  have "imported_atts vs p = []" if "p \<notin> fst ` set vs"
    using that by (induction vs) (auto simp: imported_atts_def)
  then show "db_ok d" "getLowerBound d p = boundOf (imported_atts vs p)"
    using k b e by (auto simp: keeps_def boundOf_def)
qed

lemma session_numbers:
  assumes "session vs rs ok d"
  shows "b \<in> recorded_blocks vs ok p \<Longrightarrow> blk_slot b < MAX_SAFE_INTEGER"
    "a \<in> recorded_atts vs ok p \<Longrightarrow> att_targetEpoch a < MAX_SAFE_INTEGER"
proof -
  obtain d0 where "sign_all rs d0 = (ok, d)"
    using assms by (auto simp: session_def split: prod.splits sum.splits)
  from sign_all_subset [OF this] have ok: "r \<in> set ok \<Longrightarrow> request_ok r" for r
    using assms by (auto simp: session_def)
  show "b \<in> recorded_blocks vs ok p \<Longrightarrow> blk_slot b < MAX_SAFE_INTEGER"
    using assms ok
    by (fastforce simp: session_def recorded_blocks_def imported_blocks_def requested_blocks_def history_ok_def
      request_ok_def split: sign_request.splits)
  show "a \<in> recorded_atts vs ok p \<Longrightarrow> att_targetEpoch a < MAX_SAFE_INTEGER"
    using assms ok
    by (fastforce simp: session_def recorded_atts_def imported_atts_def requested_atts_def history_ok_def
      request_ok_def split: sign_request.splits)
qed

lemma session_get:
  assumes s: "session vs rs ok d" and p: "pubkey_ok p" and n: "n < MAX_SAFE_INTEGER"
  shows "getBlockBySlot d p n = Some b \<longleftrightarrow> b \<in> recorded_blocks vs ok p \<and> blk_slot b = n"
    "getAttestationByTarget d p n = Some a \<longleftrightarrow> a \<in> recorded_atts vs ok p \<and> att_targetEpoch a = n"
    "getBlockBySlot d p n = None \<longleftrightarrow> (\<forall>b \<in> recorded_blocks vs ok p. blk_slot b \<noteq> n)"
    "getAttestationByTarget d p n = None \<longleftrightarrow> (\<forall>a \<in> recorded_atts vs ok p. att_targetEpoch a \<noteq> n)"
proof -
  obtain B A where r: "records d B A A" "\<And>p. set (B p) = recorded_blocks vs ok p" "\<And>p. set (A p) = recorded_atts vs ok p"
    using session_records [OF s] by blast
  show "getBlockBySlot d p n = Some b \<longleftrightarrow> b \<in> recorded_blocks vs ok p \<and> blk_slot b = n"
    "getAttestationByTarget d p n = Some a \<longleftrightarrow> a \<in> recorded_atts vs ok p \<and> att_targetEpoch a = n"
    "getBlockBySlot d p n = None \<longleftrightarrow> (\<forall>b \<in> recorded_blocks vs ok p. blk_slot b \<noteq> n)"
    "getAttestationByTarget d p n = None \<longleftrightarrow> (\<forall>a \<in> recorded_atts vs ok p. att_targetEpoch a \<noteq> n)"
    using blocks.holds_get [OF records_D(1) [OF r(1) p] safe_number [OF n]]
      atts.holds_get [OF records_D(2) [OF r(1) p] safe_number [OF n]]
      blocks.holds_None [OF records_D(1) [OF r(1) p] safe_number [OF n]]
      atts.holds_None [OF records_D(2) [OF r(1) p] safe_number [OF n]] r(2,3) by simp_all
qed

lemma session_surround:
  assumes s: "session vs rs ok d" and p: "pubkey_ok p" and n: "att_targetEpoch a < MAX_SAFE_INTEGER"
    and le: "att_sourceEpoch a \<le> att_targetEpoch a"
  shows "assertNoSurround DistanceStoreRepository d p (surroundAtt a) = Inr () \<longleftrightarrow>
      (\<forall>b \<in> recorded_atts vs ok p. \<not> surrounds (surroundAtt a) (surroundAtt b) \<and> \<not> surrounds (surroundAtt b) (surroundAtt a))"
    "assertNoSurround DistanceStoreRepository d p (surroundAtt a) = Inl e \<Longrightarrow>
      (\<exists>b \<in> recorded_atts vs ok p. surrounds (surroundAtt a) (surroundAtt b) \<and>
        e = IS_SURROUNDING (surroundAtt a) (int (att_targetEpoch b))) \<or>
      (\<exists>b \<in> recorded_atts vs ok p. surrounds (surroundAtt b) (surroundAtt a) \<and>
        e = IS_SURROUNDED (surroundAtt a) (int (att_targetEpoch b)))"
proof -
  obtain B A where r: "records d B A A" "\<And>p. set (A p) = recorded_atts vs ok p"
    using session_records [OF s] by blast
  have src: "sa_sourceEpoch (surroundAtt a) < number_bound" "sa_sourceEpoch (surroundAtt a) \<le> sa_targetEpoch (surroundAtt a)"
    using n le safe_number [of "att_sourceEpoch a"] by simp_all
  show "assertNoSurround DistanceStoreRepository d p (surroundAtt a) = Inr () \<longleftrightarrow>
      (\<forall>b \<in> recorded_atts vs ok p. \<not> surrounds (surroundAtt a) (surroundAtt b) \<and> \<not> surrounds (surroundAtt b) (surroundAtt a))"
    using spans.assertNoSurround_iff [OF records_D(3) [OF r(1) p] src] r(2) by simp
  show "assertNoSurround DistanceStoreRepository d p (surroundAtt a) = Inl e \<Longrightarrow>
      (\<exists>b \<in> recorded_atts vs ok p. surrounds (surroundAtt a) (surroundAtt b) \<and>
        e = IS_SURROUNDING (surroundAtt a) (int (att_targetEpoch b))) \<or>
      (\<exists>b \<in> recorded_atts vs ok p. surrounds (surroundAtt b) (surroundAtt a) \<and>
        e = IS_SURROUNDED (surroundAtt a) (int (att_targetEpoch b)))"
    using spans.assertNoSurround_error [OF records_D(3) [OF r(1) p] src(1)] r(2) by simp
qed

section \<open>Histories that can be imported\<close>

lemma insertAllSpans_succeeds:
  assumes "records d B A S" "pubkey_ok p"
    "\<And>a. a \<in> set as \<Longrightarrow> att_targetEpoch a < number_bound \<and> att_sourceEpoch a \<le> att_targetEpoch a"
    "\<And>a b. a \<in> set as \<Longrightarrow> b \<in> set as \<union> set (S p) \<Longrightarrow>
      \<not> surrounds (surroundAtt a) (surroundAtt b) \<and> \<not> surrounds (surroundAtt b) (surroundAtt a)"
  shows "\<exists>d'. insertAllSpans p as d = (Inr (), d')"
  using assms
proof (induction as arbitrary: d S)
  case (Cons a as)
  have "\<exists>d1. insertSpans p a d = (Inr (), d1) \<and> records d1 B A (S(p := a # S p))"
    by (rule insertSpans_records [OF Cons.prems(1,2)]) (use Cons.prems(3,4) in auto)
  then obtain d1 where d1: "insertSpans p a d = (Inr (), d1)" "records d1 B A (S(p := a # S p))" by blast
  have "\<exists>d'. insertAllSpans p as d1 = (Inr (), d')"
    by (rule Cons.IH [OF d1(2) Cons.prems(2)]) (use Cons.prems(3,4) in auto)
  with d1(1) show ?case by simp
qed simp

text \<open>A history without surround votes can be imported, for every validator that has no records yet.\<close>

lemma importAll_succeeds:
  assumes "records d B A A" "history_ok vs" "\<And>p. p \<in> fst ` set vs \<Longrightarrow> B p = [] \<and> A p = []"
    "\<And>p bs as a b. (p, bs, as) \<in> set vs \<Longrightarrow> a \<in> set as \<Longrightarrow> b \<in> set as \<Longrightarrow> \<not> surrounds (surroundAtt a) (surroundAtt b)"
  shows "\<exists>d'. importAll vs d = (Inr (), d')"
  using assms
proof (induction vs arbitrary: d B A)
  case (Cons v vs)
  obtain p bs as where v: "v = (p, bs, as)" by (cases v)
  have ok: "pubkey_ok p" "\<And>b. b \<in> set bs \<Longrightarrow> blk_slot b < number_bound" "inj_on blk_slot (set bs)"
    "\<And>a. a \<in> set as \<Longrightarrow> att_targetEpoch a < number_bound \<and> att_sourceEpoch a \<le> att_targetEpoch a"
    "inj_on att_targetEpoch (set as)" "history_ok vs" "p \<notin> fst ` set vs"
    using Cons.prems(2) by (auto simp: v history_ok_def safe_number)
  have e: "B p = []" "A p = []"
    using Cons.prems(3) by (auto simp: v)
  have r1: "records (setBlocks p bs d) (B(p := bs @ B p)) A A"
    by (rule records_setBlocks [OF Cons.prems(1) ok(1,2)]) (use ok(3) e in \<open>auto dest: inj_onD\<close>)
  then have "records (setAttestations p as (setBlocks p bs d)) (B(p := bs @ B p)) (A(p := as @ A p)) A"
    by (rule records_setAttestations [OF _ ok(1)]) (use ok(4,5) e in \<open>auto dest: inj_onD\<close>)
  then have "\<exists>d1. insertAllSpans p as (setAttestations p as (setBlocks p bs d)) = (Inr (), d1)"
    by (rule insertAllSpans_succeeds [OF _ ok(1,4)]) (use Cons.prems(4) [of p bs as] e in \<open>auto simp: v\<close>)
  then have "\<exists>d1. importAttestations p as (setBlocks p bs d) = (Inr (), d1)"
    by (cases "as = []") (auto simp: importAttestations_def bind_st_def minEpoch_def)
  then obtain d1 where d1: "importAttestations p as (setBlocks p bs d) = (Inr (), d1)" by blast
  have "records d1 (B(p := bs @ B p)) (A(p := as @ A p)) (A(p := as @ A p))"
    by (rule importAttestations_records [OF r1 ok(1,4) _ d1]) (use ok(5) e in \<open>auto dest: inj_onD\<close>)
  then have "\<exists>d'. importAll vs d1 = (Inr (), d')"
  proof (rule Cons.IH [OF _ ok(6)])
    show "(B(p := bs @ B p)) q = [] \<and> (A(p := as @ A p)) q = []" if "q \<in> fst ` set vs" for q
      using that Cons.prems(3) ok(7) by (auto simp: v)
    show "\<not> surrounds (surroundAtt a) (surroundAtt b)" if "(q, bs', as') \<in> set vs" "a \<in> set as'" "b \<in> set as'" for q bs' as' a b
      using that by (intro Cons.prems(4) [of q bs' as']) simp_all
  qed
  with d1 show ?case
    by (simp add: v importBlocks_def)
qed simp

section \<open>Properties of sessions\<close>

lemma session_no_slashing:
  assumes "session vs rs ok d" "pubkey_ok p"
  shows "no_slashing (recorded_blocks vs ok p) (recorded_atts vs ok p)"
  using session_records [OF assms(1)] records_no_slashing [OF _ assms(2)] by metis

text \<open>
  C4. Start from an empty database, import a history that names no public key twice and has, for each
  key, one record per slot and per target epoch, with source at most target and numbers below
  \<open>MAX_SAFE_INTEGER\<close> (\<open>history_ok\<close>), and, when that import succeeds, let any sequence of block and
  attestation requests come in, of keys of 48 bytes and with slots and target epochs below
  \<open>MAX_SAFE_INTEGER\<close>, where no two different attestations imported or requested for a key have the same
  signing root other than zero. Then, for every public key, what was imported together with what was let
  through contains no two attestations that \<open>is_slashable_attestation_data\<close> would slash and no two
  blocks of one slot with different signing roots. A history that itself holds two roots for one slot
  is imported too (\<open>import_two_roots\<close> of \<open>SlashingExamples\<close>) and is excluded.
\<close>

theorem session_safe:
  assumes "session vs rs ok d" "pubkey_ok p"
  shows "no_slashing (recorded_blocks vs ok p) (recorded_atts vs ok p)"
  using assms by (rule session_no_slashing)

definition may_attest :: "history \<Rightarrow> sign_request list \<Rightarrow> pubkey \<Rightarrow> sp_attestation \<Rightarrow> bool" where
  "may_attest vs ok p a \<longleftrightarrow> att_sourceEpoch a \<le> att_targetEpoch a \<and>
     ((\<exists>b \<in> recorded_atts vs ok p. att_targetEpoch b = att_targetEpoch a \<and>
         att_signingRoot b = att_signingRoot a \<and> att_signingRoot b \<noteq> ZERO_ROOT) \<or>
      (\<forall>b \<in> recorded_atts vs ok p. att_targetEpoch b \<noteq> att_targetEpoch a \<and>
         \<not> surrounds (surroundAtt a) (surroundAtt b) \<and> \<not> surrounds (surroundAtt b) (surroundAtt a)) \<and>
      (imported_atts vs p = [] \<or> (\<exists>b \<in> set (imported_atts vs p). att_sourceEpoch b \<le> att_sourceEpoch a) \<and>
         (\<exists>b \<in> set (imported_atts vs p). att_targetEpoch b < att_targetEpoch a)))"

lemma session_lower_bound:
  assumes s: "session vs rs ok d"
  shows "checkLowerBound d p a = Inr st \<longleftrightarrow> st = SafeOK \<and>
    (imported_atts vs p = [] \<or> (\<exists>b \<in> set (imported_atts vs p). att_sourceEpoch b \<le> att_sourceEpoch a) \<and>
       (\<exists>b \<in> set (imported_atts vs p). att_targetEpoch b < att_targetEpoch a))"
  by (auto simp: checkLowerBound_def session_keys(2) [OF s] boundOf_def not_less Min_le_iff Min_less_iff not_le)

lemma session_checkAttestation:
  assumes s: "session vs rs ok d" and p: "pubkey_ok p" and n: "att_targetEpoch a < MAX_SAFE_INTEGER"
  shows "(\<exists>st. checkAttestation d p a = Inr st) \<longleftrightarrow> may_attest vs ok p a"
proof (cases "att_sourceEpoch a \<le> att_targetEpoch a")
  case True
  show ?thesis
  proof (cases "getAttestationByTarget d p (att_targetEpoch a)")
    case None
    with session_get(4) [OF s p n] have "\<forall>b \<in> recorded_atts vs ok p. att_targetEpoch b \<noteq> att_targetEpoch a"
      by simp
    then have "may_attest vs ok p a \<longleftrightarrow>
        assertNoSurround DistanceStoreRepository d p (surroundAtt a) = Inr () \<and> (\<exists>st. checkLowerBound d p a = Inr st)"
      unfolding session_surround(1) [OF s p n True] session_lower_bound [OF s]
      unfolding may_attest_def using True by blast
    moreover have "(\<exists>st. checkAttestation d p a = Inr st) \<longleftrightarrow>
        assertNoSurround DistanceStoreRepository d p (surroundAtt a) = Inr () \<and> (\<exists>st. checkLowerBound d p a = Inr st)"
      using None True by (simp add: checkAttestation_def not_less split: sum.split)
    ultimately show ?thesis by simp
  next
    case (Some b)
    with session_get(2) [OF s p n] have b: "b \<in> recorded_atts vs ok p" "att_targetEpoch b = att_targetEpoch a"
      by auto
    have "c = b" if "c \<in> recorded_atts vs ok p" "att_targetEpoch c = att_targetEpoch a" for c
      using session_get(2) [OF s p n, of c] that Some by simp
    with b True have "may_attest vs ok p a \<longleftrightarrow> att_signingRoot b = att_signingRoot a \<and> att_signingRoot b \<noteq> ZERO_ROOT"
      unfolding may_attest_def by blast
    with True Some show ?thesis
      by (auto simp: checkAttestation_def isEqualNonZeroRoot_def isEqualRoot_def)
  qed
qed (auto simp: checkAttestation_def may_attest_def)


text \<open>
  C35. What the error of a refused attestation says is true: a double vote names the recorded
  attestation of the same target, a surround error names a recorded attestation that surrounds or is
  surrounded, although only spans are stored, and the lower bounds reported are those of the import.
\<close>

theorem session_attestation_errors:
  assumes "session vs rs ok d" "pubkey_ok p" "att_targetEpoch a < MAX_SAFE_INTEGER" "checkAttestation d p a = Inl e"
  shows "case e of
      SOURCE_EXCEEDS_TARGET \<Rightarrow> att_targetEpoch a < att_sourceEpoch a
    | DOUBLE_VOTE a' b \<Rightarrow> a' = a \<and> b \<in> recorded_atts vs ok p \<and> att_targetEpoch b = att_targetEpoch a \<and>
        (att_signingRoot b \<noteq> att_signingRoot a \<or> att_signingRoot b = ZERO_ROOT)
    | NEW_SURROUNDS_PREV a' prev \<Rightarrow> a' = a \<and>
        (\<exists>b \<in> recorded_atts vs ok p. prev = Some b \<and> surrounds (surroundAtt a) (surroundAtt b))
    | PREV_SURROUNDS_NEW a' prev \<Rightarrow> a' = a \<and>
        (\<exists>b \<in> recorded_atts vs ok p. prev = Some b \<and> surrounds (surroundAtt b) (surroundAtt a))
    | SOURCE_LESS_THAN_LOWER_BOUND s m \<Rightarrow> s = att_sourceEpoch a \<and> s < m \<and>
        m = Min (att_sourceEpoch ` set (imported_atts vs p))
    | TARGET_LESS_THAN_OR_EQ_LOWER_BOUND t m \<Rightarrow> t = att_targetEpoch a \<and> t \<le> m \<and>
        m = Min (att_targetEpoch ` set (imported_atts vs p))"
proof (cases "att_sourceEpoch a \<le> att_targetEpoch a")
  case le: True
  show ?thesis
  proof (cases "getAttestationByTarget d p (att_targetEpoch a)")
    case (Some b)
    with session_get(2) [OF assms(1-3)] have "b \<in> recorded_atts vs ok p" "att_targetEpoch b = att_targetEpoch a"
      by auto
    with Some assms(4) le show ?thesis
      by (auto simp: checkAttestation_def isEqualNonZeroRoot_def isEqualRoot_def split: if_splits)
  next
    case None
    show ?thesis
    proof (cases "assertNoSurround DistanceStoreRepository d p (surroundAtt a)")
      case (Inl se)
      have e: "e = catchSurround d p a se"
        using assms(4) None le Inl by (simp add: checkAttestation_def)
      have "getAttestationByTarget d p (att_targetEpoch b) = Some b" if "b \<in> recorded_atts vs ok p" for b
        using session_get(2) [OF assms(1,2) session_numbers(2) [OF assms(1) that]] that by simp
      with session_surround(2) [OF assms(1-3) le Inl] show ?thesis
        by (auto simp: e)
    next
      case (Inr u)
      with assms(4) None le have "checkLowerBound d p a = Inl e"
        by (simp add: checkAttestation_def)
      then show ?thesis
        by (auto simp: checkLowerBound_def session_keys(2) [OF assms(1)] boundOf_def split: if_splits)
    qed
  qed
qed (use assms(4) in \<open>auto simp: checkAttestation_def\<close>)

text \<open>
  Attestations that move forward are never refused: if the source is at least every recorded
  source and the target is beyond every recorded target, the attestation is let through.
\<close>

theorem session_attestation_live:
  assumes "session vs rs ok d" "pubkey_ok p" "att_targetEpoch a < MAX_SAFE_INTEGER"
    "att_sourceEpoch a \<le> att_targetEpoch a"
    "\<And>b. b \<in> recorded_atts vs ok p \<Longrightarrow> att_sourceEpoch b \<le> att_sourceEpoch a \<and> att_targetEpoch b < att_targetEpoch a"
  shows "\<exists>d'. checkAndInsertAttestation p a d = (Inr (), d')"
proof -
  obtain res d' where run: "checkAndInsertAttestation p a d = (res, d')"
    by (cases "checkAndInsertAttestation p a d")
  obtain B A where r: "records d B A A" "\<And>p. set (A p) = recorded_atts vs ok p"
    using session_records [OF assms(1)] by blast
  have "may_attest vs ok p a"
    unfolding may_attest_def surrounds_def recorded_atts_def
    using assms(4,5) by (cases "imported_atts vs p") (fastforce simp: recorded_atts_def)+
  then obtain st where "checkAttestation d p a = Inr st"
    using session_checkAttestation [OF assms(1-3)] by blast
  with checkAndInsertAttestation_records [OF r(1) assms(2) safe_number [OF assms(3)] run] run show ?thesis
    by (cases res) auto
qed

text \<open>
  checkAndInsertBlockProposal lets a block through exactly when it repeats a recorded one (same
  slot, same given signing root), or no recorded block has its slot and its slot is beyond the
  smallest recorded slot, if there is any.
\<close>

theorem session_block_iff:
  assumes "session vs rs ok d" "pubkey_ok p" "blk_slot b < MAX_SAFE_INTEGER"
  shows "fst (checkAndInsertBlockProposal p b d) = Inr () \<longleftrightarrow>
    (\<exists>c \<in> recorded_blocks vs ok p. blk_slot c = blk_slot b \<and> blk_signingRoot c = blk_signingRoot b \<and> blk_signingRoot c \<noteq> ZERO_ROOT) \<or>
    (\<forall>c \<in> recorded_blocks vs ok p. blk_slot c \<noteq> blk_slot b) \<and>
      (recorded_blocks vs ok p = {} \<or> (\<exists>c \<in> recorded_blocks vs ok p. blk_slot c < blk_slot b))"
    (is "_ \<longleftrightarrow> ?same \<or> ?none \<and> ?beyond")
proof -
  have all: "set (getAllBlocks d p None) = recorded_blocks vs ok p"
    using getAllBlocks_scan(2) [OF session_keys(1) [OF assms(1)] assms(2)] session_numbers(1) [OF assms(1)]
      session_get(1) [OF assms(1,2)] by blast
  note first = getFirstBlock_min [OF session_keys(1) [OF assms(1)] assms(2)]
  have fst: "fst (checkAndInsertBlockProposal p b d) = Inr () \<longleftrightarrow> (\<exists>st. checkBlockProposal d p b = Inr st)"
    by (auto simp: checkAndInsertBlockProposal_def insertBlockProposal_def throw_as_def bind_st_def split: sum.split)
  show ?thesis
  proof (cases "getBlockBySlot d p (blk_slot b)")
    case None
    with session_get(3) [OF assms] have none: ?none by simp
    have "(\<exists>st. checkMinBlock d p b = Inr st) \<longleftrightarrow> ?beyond"
    proof (cases "getFirstBlock d p")
      case None
      with first(1) all show ?thesis by (simp add: checkMinBlock_def)
    next
      case (Some m)
      from first(2) [OF this] have m: "m \<in> recorded_blocks vs ok p" "\<And>c. c \<in> recorded_blocks vs ok p \<Longrightarrow> blk_slot m \<le> blk_slot c"
        by (auto simp: all)
      have "?beyond \<longleftrightarrow> blk_slot m < blk_slot b"
        using m le_less_trans by blast
      with Some show ?thesis by (simp add: checkMinBlock_def not_le)
    qed
    moreover have "\<not> ?same"
      using none by blast
    ultimately show ?thesis
      using None none fst by (simp add: checkBlockProposal_def)
  next
    case (Some c)
    with session_get(1) [OF assms] have c: "c \<in> recorded_blocks vs ok p" "blk_slot c = blk_slot b"
      by auto
    have "c' = c" if "c' \<in> recorded_blocks vs ok p" "blk_slot c' = blk_slot b" for c'
      using session_get(1) [OF assms, of c'] that Some by simp
    with c have "?same \<or> ?none \<and> ?beyond \<longleftrightarrow> blk_signingRoot c = blk_signingRoot b \<and> blk_signingRoot c \<noteq> ZERO_ROOT"
      by blast
    with Some c(2) fst show ?thesis
      by (auto simp: checkBlockProposal_def isEqualNonZeroRoot_def isEqualRoot_def)
  qed
qed

lemma session_exports:
  assumes "session vs rs ok d" "pubkey_ok p"
  shows "set (exportBlocks d p) = recorded_blocks vs ok p \<and>
    sorted_wrt (\<lambda>b c. blk_slot b < blk_slot c) (exportBlocks d p) \<and>
    set (exportAttestations d p) = recorded_atts vs ok p \<and>
    sorted_wrt (\<lambda>a b. att_targetEpoch a < att_targetEpoch b) (exportAttestations d p)"
proof -
  note ok = session_keys(1) [OF assms(1)] assms(2)
  have "set (getAllBlocks d p None) = recorded_blocks vs ok p"
    using getAllBlocks_scan(2) [OF ok] session_numbers(1) [OF assms(1)] session_get(1) [OF assms] by blast
  moreover have "set (getAllAttestations d p None) = recorded_atts vs ok p"
    using getAllAttestations_scan(2) [OF ok] session_numbers(2) [OF assms(1)] session_get(2) [OF assms] by blast
  ultimately show ?thesis
    using getAllBlocks_scan(1) [OF ok] getAllAttestations_scan(1) [OF ok]
    by (simp add: exportBlocks_def exportAttestations_def)
qed

text \<open>
  What exportInterchange collects for a validator is complete and in order: the blocks and the
  attestations that were imported or let through, by increasing slot and by increasing target epoch,
  nothing else and nothing twice.
\<close>

theorem session_export:
  assumes "session vs rs ok d" "pubkey_ok p"
  shows "set (exportBlocks d p) = recorded_blocks vs ok p \<and>
    sorted_wrt (\<lambda>b c. blk_slot b < blk_slot c) (exportBlocks d p) \<and>
    set (exportAttestations d p) = recorded_atts vs ok p \<and>
    sorted_wrt (\<lambda>a b. att_targetEpoch a < att_targetEpoch b) (exportAttestations d p)"
  using assms by (rule session_exports)

section \<open>Listing public keys\<close>

lemma uniqueVectorArr_set: "set (uniqueVectorArr ks) = set ks \<and> distinct (uniqueVectorArr ks)"
  by (induction ks) auto

text \<open>
  listPubkeys names every validator that has a record, and no public key twice.
\<close>

theorem session_listPubkeys:
  assumes "session vs rs ok d"
  shows "distinct (listPubkeys d) \<and>
    (\<forall>p. pubkey_ok p \<longrightarrow> recorded_atts vs ok p \<noteq> {} \<or> recorded_blocks vs ok p \<noteq> {} \<longrightarrow> p \<in> set (listPubkeys d))"
proof (intro conjI allI impI)
  show "distinct (listPubkeys d)"
    by (simp add: listPubkeys_def uniqueVectorArr_set)
  have key: "keyPubkey k \<in> set (listPubkeys d)" if "db_get d k = Some v" for k v
  proof -
    have "(k, v) \<in> set d"
      using that session_keys(1) [OF assms] by (simp add: db_get_entry)
    then have "k \<in> set (db_keys no_filter d)"
      by (force simp: db_keys_def db_entries_def no_filter_def in_filter_def)
    then have "keyPubkey k \<in> set (listAttestationPubkeys d)"
      by (auto simp: listAttestationPubkeys_def uniqueVectorArr_set decodeAttestationKey_def)
    then show ?thesis
      by (simp add: listPubkeys_def uniqueVectorArr_set)
  qed
  fix p assume p: "pubkey_ok p" and "recorded_atts vs ok p \<noteq> {} \<or> recorded_blocks vs ok p \<noteq> {}"
  then consider a where "a \<in> recorded_atts vs ok p" | b where "b \<in> recorded_blocks vs ok p" by blast
  then show "p \<in> set (listPubkeys d)"
  proof cases
    case 1
    with session_get(2) [OF assms p session_numbers(2) [OF assms 1]]
    have "db_get d (attestationKey p (att_targetEpoch a)) = Some (AttestationValue a)"
      by (simp add: getAttestationByTarget_def bind_attestationOf)
    from key [OF this] p show ?thesis
      by (simp add: attestationKey_def keyPubkey_indexKey)
  next
    case 2
    with session_get(1) [OF assms p session_numbers(1) [OF assms 2]]
    have "db_get d (blockKey p (blk_slot b)) = Some (BlockValue b)"
      by (simp add: getBlockBySlot_def bind_blockOf)
    from key [OF this] p show ?thesis
      by (simp add: blockKey_def keyPubkey_indexKey)
  qed
qed

section \<open>Facts about sessions for the interchange\<close>

lemma session_recorded:
  assumes "session vs rs ok d" "pubkey_ok p"
  shows "set (exportBlocks d p) = recorded_blocks vs ok p" "set (exportAttestations d p) = recorded_atts vs ok p"
    "no_slashing (recorded_blocks vs ok p) (recorded_atts vs ok p)"
  using session_exports [OF assms] session_no_slashing [OF assms] by auto

lemma session_sources:
  assumes "session vs rs ok d" "pubkey_ok p" "a \<in> recorded_atts vs ok p"
  shows "att_sourceEpoch a \<le> att_targetEpoch a"
proof -
  obtain B A where r: "records d B A A" "\<And>p. set (A p) = recorded_atts vs ok p"
    using session_records [OF assms(1)] by blast
  with records_D(3) [OF r(1) assms(2)] assms(3) show ?thesis
    by (fastforce simp: spans.spans_exact_def)
qed

lemma session_roots:
  assumes "session vs rs ok d"
  shows "roots_determine (recorded_atts vs ok q)"
proof -
  obtain d0 where "sign_all rs d0 = (ok, d)"
    using assms by (auto simp: session_def split: prod.splits sum.splits)
  from sign_all_subset [OF this] have "set (requested_atts ok q) \<subseteq> set (requested_atts rs q)"
    by (fastforce simp: requested_atts_def)
  moreover have "roots_determine (set (imported_atts vs q) \<union> set (requested_atts rs q))"
    using assms by (simp add: session_def)
  ultimately show ?thesis
    unfolding roots_determine_def recorded_atts_def by blast
qed

lemma sorted_key_unique:
  fixes k :: "'a \<Rightarrow> nat"
  shows "sorted_wrt (\<lambda>x y. k x < k y) xs \<Longrightarrow> sorted_wrt (\<lambda>x y. k x < k y) ys \<Longrightarrow> set xs = set ys \<Longrightarrow> xs = ys"
proof (induction xs arbitrary: ys)
  case (Cons x xs)
  then obtain y ys' where ys: "ys = y # ys'"
    by (cases ys) auto
  have "x = y"
  proof (rule ccontr)
    assume "x \<noteq> y"
    then have "x \<in> set ys'" "y \<in> set xs"
      using Cons.prems(3) by (auto simp: ys)
    with Cons.prems(1,2) show False
      by (auto simp: ys dest: less_asym)
  qed
  moreover have "x \<notin> set xs" "y \<notin> set ys'"
    using Cons.prems(1,2) by (auto simp: ys)
  ultimately have "set xs = set ys'"
    using Cons.prems(3) by (auto simp: ys)
  with \<open>x = y\<close> show ?case
    using Cons.IH [of ys'] Cons.prems(1,2) by (simp add: ys)
qed simp

lemma session_same_export:
  assumes "session vs rs ok d" "session vs' rs' ok' d'" "pubkey_ok p"
    "recorded_blocks vs ok p = recorded_blocks vs' ok' p" "recorded_atts vs ok p = recorded_atts vs' ok' p"
  shows "exportBlocks d p = exportBlocks d' p" "exportAttestations d p = exportAttestations d' p"
  using session_exports [OF assms(1,3)] session_exports [OF assms(2,3)] assms(4,5)
  by (auto intro: sorted_key_unique)

end
