(* ===== verification/JsText.thy ===== *)
theory JsText
  imports Bytes
begin

text \<open>
  Hexadecimal strings (\<open>packages/utils/src/bytes.ts\<close>) and the conversions between numbers and decimal
  strings that JavaScript has built in, with their round trips.
\<close>

section \<open>Strings and numbers\<close>

text \<open>\<open>toHexString\<close> and \<open>fromHex\<close> of \<open>packages/utils\<close>.\<close>

definition hexDigits :: string where
  "hexDigits = ''0123456789abcdef''"

definition hexByte :: "8 word \<Rightarrow> string" where
  "hexByte b = [hexDigits ! (unat b div 16), hexDigits ! (unat b mod 16)]"

definition toHexString :: "bytes \<Rightarrow> string" where
  "toHexString bs = ''0x'' @ concat (map hexByte bs)"

text \<open>The value of a hexadecimal digit of either case.\<close>

definition hexValue :: "char \<Rightarrow> nat option" where
  "hexValue c = (let n = of_char c :: nat in
     if 48 \<le> n \<and> n \<le> 57 then Some (n - 48)
     else if 97 \<le> n \<and> n \<le> 102 then Some (n - 87)
     else if 65 \<le> n \<and> n \<le> 70 then Some (n - 55) else None)"

text \<open>\<open>Buffer.from(hex, "hex")\<close> stops at the first pair that is not hexadecimal.\<close>

fun bufferFromHex :: "string \<Rightarrow> bytes" where
  "bufferFromHex (c # c' # cs) =
     (case (hexValue c, hexValue c') of
        (Some h, Some l) \<Rightarrow> of_nat (16 * h + l) # bufferFromHex cs
      | _ \<Rightarrow> [])"
| "bufferFromHex _ = []"

text \<open>\<open>hex.replace("0x", "")\<close> removes the first occurrence.\<close>

fun remove0x :: "string \<Rightarrow> string" where
  "remove0x (c # c' # cs) = (if c = CHR ''0'' \<and> c' = CHR ''x'' then cs else c # remove0x (c' # cs))"
| "remove0x cs = cs"

definition fromHex :: "string \<Rightarrow> bytes" where
  "fromHex hex = bufferFromHex (remove0x hex)"

lemma hexDigit_value: "n < 16 \<Longrightarrow> hexValue (hexDigits ! n) = Some n"
proof -
  have "\<forall>n \<in> set [0..<16]. hexValue (hexDigits ! n) = Some n"
    by code_simp
  then show "n < 16 \<Longrightarrow> hexValue (hexDigits ! n) = Some n" by simp
qed

lemma bufferFromHex_bytes: "bufferFromHex (concat (map hexByte bs)) = bs"
proof (induction bs)
  case (Cons b bs)
  have "unat b < 256"
    using unsigned_less [of b, where ?'a = nat] by simp
  then have "hexValue (hexDigits ! (unat b div 16)) = Some (unat b div 16)"
    "hexValue (hexDigits ! (unat b mod 16)) = Some (unat b mod 16)"
    by (auto intro: hexDigit_value)
  moreover have "of_nat (16 * (unat b div 16) + unat b mod 16) = b"
    by simp
  ultimately show ?case
    using Cons by (simp add: hexByte_def)
qed simp

lemma fromHex_toHexString: "fromHex (toHexString bs) = bs"
  by (simp add: fromHex_def toHexString_def bufferFromHex_bytes)

text \<open>
  A number of JavaScript as far as the interchange needs it: \<open>Some i\<close> is an integer that a double can
  hold, \<open>None\<close> is \<open>NaN\<close>. \<open>Infinity\<close>, which \<open>BigInt\<close> refuses as it refuses \<open>NaN\<close>, is \<open>None\<close> too.
\<close>

type_synonym jsnum = "int option"

definition digitChar :: "nat \<Rightarrow> char" where
  "digitChar n = char_of (48 + n)"

fun decimal :: "nat \<Rightarrow> string" where
  "decimal n = (if n < 10 then [digitChar n] else decimal (n div 10) @ [digitChar (n mod 10)])"

declare decimal.simps [simp del]

text \<open>
  The double nearest to an integer, ties to the even significand: 53 bits are kept. The integers below
  \<open>2 ^ 53\<close> are doubles.
\<close>

abbreviation two53 :: nat where
  "two53 \<equiv> 9007199254740992"

fun excessBits :: "nat \<Rightarrow> nat" where
  "excessBits n = (if n < two53 then 0 else Suc (excessBits (n div 2)))"

declare excessBits.simps [simp del]

definition roundDouble :: "nat \<Rightarrow> nat" where
  "roundDouble n =
     (if n < two53 then n
      else (let p = 2 ^ excessBits n; q = n div p; r = n mod p
            in if p < 2 * r \<or> (2 * r = p \<and> odd q) then (q + 1) * p else q * p))"

text \<open>
  \<open>Number::toString\<close> of ECMAScript takes the fewest decimal digits that denote the number, that is, whose
  value is rounded to it, and the closest value when there is a choice. \<open>shortestFrom x j\<close> is the value
  with at most \<open>j\<close> zeros in place of the last digits.
\<close>

definition candidate :: "nat \<Rightarrow> nat \<Rightarrow> nat option" where
  "candidate x p =
     (let lo = x div p * p; hi = lo + p;
          (near, far) = (if 2 * (x - lo) < p \<or> (2 * (x - lo) = p \<and> even (x div p)) then (lo, hi) else (hi, lo))
      in if roundDouble near = x then Some near else if roundDouble far = x then Some far else None)"

fun shortestFrom :: "nat \<Rightarrow> nat \<Rightarrow> nat" where
  "shortestFrom x 0 = x"
| "shortestFrom x (Suc j) = (case candidate x (10 ^ Suc j) of Some c \<Rightarrow> c | None \<Rightarrow> shortestFrom x j)"

text \<open>Below \<open>2 ^ 53\<close> every integer is a double, so only its own digits denote it.\<close>

definition shortest :: "nat \<Rightarrow> nat" where
  "shortest x = (if x < two53 then x else shortestFrom x (length (decimal x)))"

text \<open>Up to 21 digits the digits are written out, with more there is an exponent, as in \<open>1.5e+21\<close>.\<close>

definition exponentForm :: "string \<Rightarrow> string" where
  "exponentForm ds =
     (let significant = rev (dropWhile (\<lambda>c. c = CHR ''0'') (rev ds))
      in take 1 significant @ (if length significant \<le> 1 then [] else CHR ''.'' # drop 1 significant) @
         ''e+'' @ decimal (length ds - 1))"

definition natToString :: "nat \<Rightarrow> string" where
  "natToString x = (let ds = decimal (shortest x) in if length ds \<le> 21 then ds else exponentForm ds)"

text \<open>\<open>String(num)\<close>.\<close>

fun numToString :: "jsnum \<Rightarrow> string" where
  "numToString None = ''NaN''"
| "numToString (Some i) = (if i < 0 then ''-'' @ natToString (nat (- i)) else natToString (nat i))"

definition digitValue :: "char \<Rightarrow> nat option" where
  "digitValue c = (let n = of_char c :: nat in if 48 \<le> n \<and> n \<le> 57 then Some (n - 48) else None)"

fun digitsPrefix :: "string \<Rightarrow> nat list" where
  "digitsPrefix [] = []"
| "digitsPrefix (c # cs) = (case digitValue c of Some v \<Rightarrow> v # digitsPrefix cs | None \<Rightarrow> [])"

definition natOfDigits :: "nat list \<Rightarrow> nat" where
  "natOfDigits ds = foldl (\<lambda>acc v. 10 * acc + v) 0 ds"

definition isSpace :: "char \<Rightarrow> bool" where
  "isSpace c = (let n = of_char c :: nat in (9 \<le> n \<and> n \<le> 13) \<or> n = 32 \<or> n = 160)"

text \<open>
  \<open>parseInt(s, 10)\<close>: leading white space, a sign, the longest prefix of digits, and the double nearest to
  their value; from \<open>2 ^ 1024\<close> on that is \<open>Infinity\<close>.
\<close>

definition doubleOf :: "nat \<Rightarrow> nat option" where
  "doubleOf n = (let d = roundDouble n in if d < 2 ^ 1024 then Some d else None)"

definition parseInt :: "string \<Rightarrow> jsnum" where
  "parseInt s =
     (let s1 = dropWhile isSpace s;
          (neg, s2) = (case s1 of c # cs \<Rightarrow>
             if c = CHR ''-'' then (True, cs) else if c = CHR ''+'' then (False, cs) else (False, s1) | [] \<Rightarrow> (False, s1));
          ds = digitsPrefix s2
      in if ds = [] then None
         else (case doubleOf (natOfDigits ds) of None \<Rightarrow> None | Some d \<Rightarrow> Some ((if neg then -1 else 1) * int d)))"

lemma digitValue_char: "n < 10 \<Longrightarrow> digitValue (digitChar n) = Some n"
  by (simp add: digitValue_def digitChar_def)

lemma digitsPrefix_append: "digitsPrefix (xs @ [digitChar n]) = digitsPrefix xs @ [n]"
  if "n < 10" "length (digitsPrefix xs) = length xs"
  using that(2) by (induction xs) (auto simp: digitValue_char that(1) split: option.splits)

lemma decimal_digits: "length (digitsPrefix (decimal n)) = length (decimal n) \<and>
    natOfDigits (digitsPrefix (decimal n)) = n \<and> decimal n \<noteq> []"
proof (induction n rule: decimal.induct)
  case (1 n)
  show ?case
  proof (cases "n < 10")
    case True
    then show ?thesis
      by (simp add: decimal.simps [of n] digitValue_char natOfDigits_def)
  next
    case False
    with 1 have IH: "length (digitsPrefix (decimal (n div 10))) = length (decimal (n div 10))"
      "natOfDigits (digitsPrefix (decimal (n div 10))) = n div 10" by auto
    with False show ?thesis
      by (simp add: decimal.simps [of n] digitsPrefix_append natOfDigits_def)
  qed
qed

lemma decimal_head: "\<exists>v cs. decimal n = digitChar v # cs \<and> v < 10"
proof (induction n rule: decimal.induct)
  case (1 n)
  then show ?case
    by (cases "n < 10") (force simp: decimal.simps [of n])+
qed

lemma digitChar_plain: "v < 10 \<Longrightarrow> \<not> isSpace (digitChar v) \<and> digitChar v \<noteq> CHR ''-'' \<and> digitChar v \<noteq> CHR ''+''"
proof -
  assume v: "v < 10"
  have code: "of_char (digitChar v) = 48 + v"
    using v by (simp add: digitChar_def)
  moreover have "of_char CHR ''-'' = (45 :: nat)" "of_char CHR ''+'' = (43 :: nat)"
    by simp_all
  ultimately have "digitChar v \<noteq> CHR ''-''" "digitChar v \<noteq> CHR ''+''"
    by (auto dest: arg_cong [of _ _ "of_char :: char \<Rightarrow> nat"])
  with code v show ?thesis
    by (simp add: isSpace_def Let_def)
qed

lemma parseInt_decimal: "parseInt (decimal n) = map_option int (doubleOf n)"
  "parseInt (''-'' @ decimal n) = map_option (\<lambda>d. - int d) (doubleOf n)"
proof -
  obtain v cs where d: "decimal n = digitChar v # cs" "v < 10"
    using decimal_head by blast
  have p: "digitsPrefix (digitChar v # cs) \<noteq> []" "natOfDigits (digitsPrefix (digitChar v # cs)) = n"
    using decimal_digits [of n] d by (auto simp: digitValue_char)
  then show "parseInt (decimal n) = map_option int (doubleOf n)"
    using digitChar_plain [OF d(2)] by (simp add: parseInt_def d Let_def split: option.split)
  have "\<not> isSpace CHR ''-''" by code_simp
  with p show "parseInt (''-'' @ decimal n) = map_option (\<lambda>d. - int d) (doubleOf n)"
    by (simp add: parseInt_def d Let_def split: option.split)
qed

text \<open>Numbers of at most 15 digits need no rounding, which makes the evaluation of small inputs fast.\<close>

lemma foldl_digits: "(\<And>d. d \<in> set ds \<Longrightarrow> d < 10) \<Longrightarrow>
    foldl (\<lambda>acc v. 10 * acc + v) acc ds < (acc + 1) * (10 :: nat) ^ length ds"
proof (induction ds arbitrary: acc)
  case (Cons d ds)
  have "10 * acc + d + 1 \<le> (acc + 1) * 10"
    using Cons.prems [of d] by simp
  then have "(10 * acc + d + 1) * 10 ^ length ds \<le> (acc + 1) * 10 * 10 ^ length ds"
    by (rule mult_le_mono1)
  moreover have "foldl (\<lambda>acc v. 10 * acc + v) (10 * acc + d) ds < (10 * acc + d + 1) * 10 ^ length ds"
    using Cons by simp
  ultimately have "foldl (\<lambda>acc v. 10 * acc + v) (10 * acc + d) ds < (acc + 1) * 10 * 10 ^ length ds"
    by (rule less_le_trans [rotated])
  then show ?case by (simp add: algebra_simps)
qed simp

lemma digitsPrefix_less: "d \<in> set (digitsPrefix cs) \<Longrightarrow> d < 10"
  by (induction cs) (auto simp: digitValue_def Let_def split: option.splits if_splits)

lemma natOfDigits_small: "length (digitsPrefix cs) \<le> 15 \<Longrightarrow> natOfDigits (digitsPrefix cs) < 10 ^ 15"
proof -
  assume "length (digitsPrefix cs) \<le> 15"
  then have "(10 :: nat) ^ length (digitsPrefix cs) \<le> 10 ^ 15"
    by (rule power_increasing) simp
  moreover have "natOfDigits (digitsPrefix cs) < 1 * 10 ^ length (digitsPrefix cs)"
    using foldl_digits [of "digitsPrefix cs" 0] digitsPrefix_less by (simp add: natOfDigits_def)
  ultimately show ?thesis by linarith
qed

lemma doubleOf_small: "n < two53 \<Longrightarrow> doubleOf n = Some n"
proof -
  assume n: "n < two53"
  have "two53 < 2 ^ 1024" by simp
  with n have "n < 2 ^ 1024" by (rule less_trans)
  with n show ?thesis
    by (simp add: doubleOf_def roundDouble_def Let_def del: power_numeral)
qed

lemma parseInt_code [code]: "parseInt s =
     (let s1 = dropWhile isSpace s;
          (neg, s2) = (case s1 of c # cs \<Rightarrow>
             if c = CHR ''-'' then (True, cs) else if c = CHR ''+'' then (False, cs) else (False, s1) | [] \<Rightarrow> (False, s1));
          ds = digitsPrefix s2
      in if ds = [] then None
         else if length ds \<le> 15 then Some ((if neg then -1 else 1) * int (natOfDigits ds))
         else (case doubleOf (natOfDigits ds) of None \<Rightarrow> None | Some d \<Rightarrow> Some ((if neg then -1 else 1) * int d)))"
proof -
  have "doubleOf (natOfDigits (digitsPrefix cs)) = Some (natOfDigits (digitsPrefix cs))"
    if "length (digitsPrefix cs) \<le> 15" for cs
    by (rule doubleOf_small) (use natOfDigits_small [OF that] in simp)
  then show ?thesis
    unfolding parseInt_def Let_def by (auto split: prod.split)
qed

lemma natToString_code [code]: "natToString x =
    (let ds = decimal x in if length ds \<le> 15 then ds
     else let ds = decimal (shortest x) in if length ds \<le> 21 then ds else exponentForm ds)"
proof -
  have "natToString x = decimal x" if d: "length (decimal x) \<le> 15"
  proof -
    have "x < 10 ^ 15"
      using natOfDigits_small [of "decimal x"] decimal_digits [of x] d by simp
    then have "shortest x = x" by (simp add: shortest_def)
    with d show ?thesis by (simp add: natToString_def)
  qed
  then show ?thesis
    by (simp add: natToString_def Let_def)
qed

text \<open>The value of the digits that are written is rounded to the number, and has no more than 21 digits below \<open>10 ^ 21\<close>.\<close>

lemma candidate_D:
  assumes "candidate x p = Some c"
  shows "roundDouble c = x" "c = x div p * p \<or> c = x div p * p + p"
  using assms by (auto simp: candidate_def Let_def split: if_splits)

lemma roundDouble_shortest: "roundDouble x = x \<Longrightarrow> roundDouble (shortest x) = x"
proof -
  assume x: "roundDouble x = x"
  have "roundDouble (shortestFrom x j) = x" for j
    by (induction j) (auto simp: x dest: candidate_D(1) split: option.splits)
  with x show ?thesis by (simp add: shortest_def)
qed

lemma roundDouble_10_21: "roundDouble (10 ^ 21) = 10 ^ 21"
  by (simp add: roundDouble_def excessBits.simps Let_def)

lemma next_multiple: "x < k * p \<Longrightarrow> x div p * p + p \<le> k * (p :: nat)"
  by (metis Suc_leI add.commute less_mult_imp_div_less mult_Suc mult_le_mono1)

lemma shortestFrom_less:
  assumes "x < 10 ^ 21" "j \<le> 21"
  shows "shortestFrom x j < 10 ^ 21"
  using assms(2)
proof (induction j)
  case (Suc j)
  show ?case
  proof (cases "candidate x (10 ^ Suc j)")
    case (Some c)
    have ten: "(10 :: nat) ^ 21 = 10 ^ (21 - Suc j) * 10 ^ Suc j"
      using Suc.prems by (simp add: power_add [symmetric])
    have "x div 10 ^ Suc j * 10 ^ Suc j + 10 ^ Suc j \<le> 10 ^ 21"
      using next_multiple [of x "10 ^ (21 - Suc j)" "10 ^ Suc j"] assms(1) unfolding ten by blast
    with candidate_D(2) [OF Some] have "c \<le> 10 ^ 21" by linarith
    moreover have "c \<noteq> 10 ^ 21"
      using candidate_D(1) [OF Some] roundDouble_10_21 assms(1) by auto
    ultimately show ?thesis
      using Some by simp
  qed (use Suc in simp)
qed (use assms in simp)

lemma length_decimal: "n < 10 ^ k \<Longrightarrow> 0 < k \<Longrightarrow> length (decimal n) \<le> k"
proof (induction k arbitrary: n)
  case (Suc k)
  show ?case
  proof (cases "n < 10")
    case False
    with Suc.prems have "n div 10 < 10 ^ k" "0 < k"
      by (auto intro: gr0I simp: less_mult_imp_div_less mult.commute)
    with Suc.IH False show ?thesis
      by (subst decimal.simps) simp
  qed (subst decimal.simps, simp)
qed simp

lemma natToString_plain: "x < 10 ^ 21 \<Longrightarrow> natToString x = decimal (shortest x)"
  using length_decimal [of x 21] shortestFrom_less [of x "length (decimal x)"] length_decimal [of "shortest x" 21]
  by (auto simp: natToString_def shortest_def)

text \<open>
  A number that \<open>String\<close> writes without exponent: \<open>NaN\<close> or an integer of a double below \<open>10 ^ 21\<close>. All
  safe integers are of this kind.
\<close>

definition plain_number :: "jsnum \<Rightarrow> bool" where
  "plain_number x = (case x of None \<Rightarrow> True | Some i \<Rightarrow> nat \<bar>i\<bar> < 10 ^ 21 \<and> roundDouble (nat \<bar>i\<bar>) = nat \<bar>i\<bar>)"

lemma plain_number_safe: "n < two53 \<Longrightarrow> plain_number (Some (int n))"
  by (simp add: plain_number_def roundDouble_def)

lemma doubleOf_shortest: "x < 10 ^ 21 \<Longrightarrow> roundDouble x = x \<Longrightarrow> doubleOf (shortest x) = Some x"
proof -
  assume x: "x < 10 ^ 21" "roundDouble x = x"
  have "(10 :: nat) ^ 21 < 2 ^ 1024" by simp
  with x(1) have "x < 2 ^ 1024" by (rule less_trans)
  with roundDouble_shortest [OF x(2)] show ?thesis
    by (simp add: doubleOf_def Let_def del: power_numeral)
qed

lemma parseInt_numToString: "plain_number x \<Longrightarrow> parseInt (numToString x) = x"
proof (cases x)
  case None
  have "parseInt ''NaN'' = None" by code_simp
  with None show ?thesis by simp
next
  case (Some i)
  assume "plain_number x"
  with Some have i: "nat \<bar>i\<bar> < 10 ^ 21" "roundDouble (nat \<bar>i\<bar>) = nat \<bar>i\<bar>"
    by (simp_all add: plain_number_def)
  note d = doubleOf_shortest [OF i] natToString_plain [OF i(1)]
  show ?thesis
  proof (cases "i < 0")
    case True
    with d parseInt_decimal(2) [of "shortest (nat \<bar>i\<bar>)"] Some show ?thesis by simp
  next
    case False
    with d parseInt_decimal(1) [of "shortest (nat \<bar>i\<bar>)"] Some show ?thesis by simp
  qed
qed

text \<open>From \<open>10 ^ 21\<close> on the digits end at the exponent, and what is read back is another number.\<close>

lemma shortest_10_21: "shortest (10 ^ 21) = 10 ^ 21"
proof -
  have d: "length (decimal (10 ^ 21)) = Suc 21" 
    by (simp add: decimal.simps)
  have "roundDouble (10 ^ 22) = 10 ^ 22"
    by (simp add: roundDouble_def excessBits.simps Let_def)
  then have "candidate (10 ^ 21) (10 ^ Suc 21) = None" "candidate (10 ^ 21) (10 ^ 21) = Some (10 ^ 21)"
    using roundDouble_10_21 by (simp_all add: candidate_def roundDouble_def [of 0])
  then have "shortestFrom (10 ^ 21) (Suc 21) = shortestFrom (10 ^ 21) 21"
    by (simp only: shortestFrom.simps(2) option.case)
  moreover have "shortestFrom (10 ^ 21) 21 = 10 ^ 21"
    using shortestFrom.simps(2) [of "10 ^ 21" 20] \<open>candidate (10 ^ 21) (10 ^ 21) = Some (10 ^ 21)\<close> by simp
  ultimately show ?thesis
    using d by (simp only: shortest_def if_False) (simp split: if_split)
qed

lemma numToString_exponent: "numToString (Some (10 ^ 21)) = ''1e+21''" "parseInt ''1e+21'' = Some 1"
proof -
  have digits: "digitChar 0 = CHR ''0''" "digitChar 1 = CHR ''1''" "digitChar 2 = CHR ''2''" "digitChar (Suc 0) = CHR ''1''"
    by code_simp+
  have d: "decimal (10 ^ 21) = ''1000000000000000000000''"
    by (simp add: decimal.simps digits)
  have "length ''1000000000000000000000'' - 1 = 21"
    by simp
  then have e: "decimal (length ''1000000000000000000000'' - 1) = ''21''"
    by (simp only:) (simp add: decimal.simps digits)
  have "exponentForm ''1000000000000000000000'' = ''1e+21''"
    unfolding exponentForm_def e by simp
  then have "natToString (10 ^ 21) = ''1e+21''"
    by (simp only: natToString_def shortest_10_21 d Let_def) simp
  then show "numToString (Some (10 ^ 21)) = ''1e+21''" by simp
  show "parseInt ''1e+21'' = Some 1"
    by code_simp
qed

end
