(* ===== verification/Interchange.thy ===== *)
theory Interchange
  imports SlashingSession JsText
begin

text \<open>
  The interchange of slashing protection data (\<open>packages/validator/src/slashingProtection/interchange\<close>)
  in its two formats, the import and export of \<open>SlashingProtection\<close>, and their round trips.
\<close>

section \<open>Data\<close>

text \<open>
  \<open>toHexString\<close> and \<open>fromHexString\<close> of the SSZ library are a parameter; \<open>None\<close> is an exception.
\<close>

record ssz_hex =
  ssz_toHexString :: "bytes \<Rightarrow> string"
  ssz_fromHexString :: "string \<Rightarrow> bytes option"

record signed_block_json =
  jb_slot :: string
  jb_signing_root :: "string option"

record signed_attestation_json =
  ja_source_epoch :: string
  ja_target_epoch :: string
  ja_signing_root :: "string option"

record validator_json =
  jv_pubkey :: string
  jv_signed_blocks :: "signed_block_json list"
  jv_signed_attestations :: "signed_attestation_json list"

text \<open>
  The JSON object, which may be of either format: version 5 has no \<open>interchange_format\<close>.
\<close>

record interchange =
  interchange_format :: "string option"
  interchange_format_version :: "string option"
  genesis_validators_root :: string
  interchange_data :: "validator_json list"

record interchange_block =
  ib_slot :: jsnum
  ib_signingRoot :: root

record interchange_attestation =
  ia_sourceEpoch :: jsnum
  ia_targetEpoch :: jsnum
  ia_signingRoot :: root

record interchange_validator =
  iv_pubkey :: pubkey
  iv_signedBlocks :: "interchange_block list"
  iv_signedAttestations :: "interchange_attestation list"

record interchange_lodestar =
  il_genesisValidatorsRoot :: root
  il_data :: "interchange_validator list"

datatype interchange_error =
    UNSUPPORTED_FORMAT string
  | UNSUPPORTED_VERSION "string option"
  | GENESIS_VALIDATOR_MISMATCH root root

text \<open>What the calls may throw: their own errors, the SSZ library's, a \<open>RangeError\<close> of \<open>BigInt\<close>, the slashing protection's.\<close>

datatype import_error =
    InterchangeError interchange_error
  | HexError
  | RangeError
  | ProtectionError sp_error

section \<open>Optional roots\<close>

definition fromHexString :: "ssz_hex \<Rightarrow> string \<Rightarrow> import_error + bytes" where
  "fromHexString hx s = (case ssz_fromHexString hx s of Some b \<Rightarrow> Inr b | None \<Rightarrow> Inl HexError)"

definition fromOptionalHexString :: "ssz_hex \<Rightarrow> string option \<Rightarrow> import_error + root" where
  "fromOptionalHexString hx hex =
     (case hex of Some s \<Rightarrow> if s \<noteq> [] then fromHexString hx s else Inr ZERO_ROOT | None \<Rightarrow> Inr ZERO_ROOT)"

definition toOptionalHexString :: "ssz_hex \<Rightarrow> root \<Rightarrow> string option" where
  "toOptionalHexString hx r = (if isEqualRoot r ZERO_ROOT then None else Some (ssz_toHexString hx r))"

section \<open>The two formats\<close>

definition serializeValidator :: "ssz_hex \<Rightarrow> interchange_validator \<Rightarrow> validator_json" where
  "serializeValidator hx v =
     \<lparr>jv_pubkey = ssz_toHexString hx (iv_pubkey v),
      jv_signed_blocks = map (\<lambda>b. \<lparr>jb_slot = numToString (ib_slot b),
        jb_signing_root = toOptionalHexString hx (ib_signingRoot b)\<rparr>) (iv_signedBlocks v),
      jv_signed_attestations = map (\<lambda>a. \<lparr>ja_source_epoch = numToString (ia_sourceEpoch a),
        ja_target_epoch = numToString (ia_targetEpoch a),
        ja_signing_root = toOptionalHexString hx (ia_signingRoot a)\<rparr>) (iv_signedAttestations v)\<rparr>"

definition parseBlock :: "ssz_hex \<Rightarrow> signed_block_json \<Rightarrow> import_error + interchange_block" where
  "parseBlock hx b = bind_res (fromOptionalHexString hx (jb_signing_root b)) (\<lambda>r.
     Inr \<lparr>ib_slot = parseInt (jb_slot b), ib_signingRoot = r\<rparr>)"

definition parseAttestation :: "ssz_hex \<Rightarrow> signed_attestation_json \<Rightarrow> import_error + interchange_attestation" where
  "parseAttestation hx a = bind_res (fromOptionalHexString hx (ja_signing_root a)) (\<lambda>r.
     Inr \<lparr>ia_sourceEpoch = parseInt (ja_source_epoch a), ia_targetEpoch = parseInt (ja_target_epoch a),
          ia_signingRoot = r\<rparr>)"

definition parseValidator :: "ssz_hex \<Rightarrow> validator_json \<Rightarrow> import_error + interchange_validator" where
  "parseValidator hx v =
     bind_res (fromHexString hx (jv_pubkey v)) (\<lambda>pk.
     bind_res (map_res (parseBlock hx) (jv_signed_blocks v)) (\<lambda>bs.
     bind_res (map_res (parseAttestation hx) (jv_signed_attestations v)) (\<lambda>as.
       Inr \<lparr>iv_pubkey = pk, iv_signedBlocks = bs, iv_signedAttestations = as\<rparr>)))"

definition serializeInterchangeCompleteV4 :: "ssz_hex \<Rightarrow> interchange_lodestar \<Rightarrow> interchange" where
  "serializeInterchangeCompleteV4 hx il =
     \<lparr>interchange_format = Some ''complete'', interchange_format_version = Some ''4'',
      genesis_validators_root = ssz_toHexString hx (il_genesisValidatorsRoot il),
      interchange_data = map (serializeValidator hx) (il_data il)\<rparr>"

definition parseInterchangeCompleteV4 :: "ssz_hex \<Rightarrow> interchange \<Rightarrow> import_error + interchange_lodestar" where
  "parseInterchangeCompleteV4 hx ic =
     bind_res (fromHexString hx (genesis_validators_root ic)) (\<lambda>r.
     bind_res (map_res (parseValidator hx) (interchange_data ic)) (\<lambda>vs.
       Inr \<lparr>il_genesisValidatorsRoot = r, il_data = vs\<rparr>))"

definition serializeInterchangeV5 :: "ssz_hex \<Rightarrow> interchange_lodestar \<Rightarrow> interchange" where
  "serializeInterchangeV5 hx il =
     \<lparr>interchange_format = None, interchange_format_version = Some ''5'',
      genesis_validators_root = ssz_toHexString hx (il_genesisValidatorsRoot il),
      interchange_data = map (serializeValidator hx) (il_data il)\<rparr>"

definition parseInterchangeV5 :: "ssz_hex \<Rightarrow> interchange \<Rightarrow> import_error + interchange_lodestar" where
  "parseInterchangeV5 hx ic =
     bind_res (fromHexString hx (genesis_validators_root ic)) (\<lambda>r.
     bind_res (map_res (parseValidator hx) (interchange_data ic)) (\<lambda>vs.
       Inr \<lparr>il_genesisValidatorsRoot = r, il_data = vs\<rparr>))"

section \<open>parseInterchange and serializeInterchange\<close>

definition checkGenesisRoot :: "root \<Rightarrow> interchange_lodestar \<Rightarrow> import_error + interchange_lodestar" where
  "checkGenesisRoot expected il =
     (if \<not> isEqualRoot (il_genesisValidatorsRoot il) expected
      then Inl (InterchangeError (GENESIS_VALIDATOR_MISMATCH (il_genesisValidatorsRoot il) expected)) else Inr il)"

text \<open>A format that is missing or empty counts as absent.\<close>

definition formatOf :: "string option \<Rightarrow> string option" where
  "formatOf f = (case f of Some s \<Rightarrow> if s = [] then None else Some s | None \<Rightarrow> None)"

definition parseInterchange :: "ssz_hex \<Rightarrow> interchange \<Rightarrow> root \<Rightarrow> import_error + interchange_lodestar" where
  "parseInterchange hx ic expected =
     (case formatOf (interchange_format ic) of
        None \<Rightarrow>
          if interchange_format_version ic = Some ''5''
          then bind_res (parseInterchangeV5 hx ic) (checkGenesisRoot expected)
          else Inl (InterchangeError (UNSUPPORTED_VERSION (interchange_format_version ic)))
      | Some format \<Rightarrow>
          if format = ''complete''
          then (if interchange_format_version ic = Some ''4''
                then bind_res (parseInterchangeCompleteV4 hx ic) (checkGenesisRoot expected)
                else Inl (InterchangeError (UNSUPPORTED_VERSION (interchange_format_version ic))))
          else Inl (InterchangeError (UNSUPPORTED_FORMAT format)))"

definition serializeInterchange :: "ssz_hex \<Rightarrow> interchange_lodestar \<Rightarrow> string option \<Rightarrow> string \<Rightarrow> import_error + interchange" where
  "serializeInterchange hx il format version =
     (case formatOf format of
        None \<Rightarrow>
          if version = ''5'' then Inr (serializeInterchangeV5 hx il)
          else Inl (InterchangeError (UNSUPPORTED_VERSION (Some version)))
      | Some f \<Rightarrow>
          if f = ''complete''
          then (if version = ''4'' then Inr (serializeInterchangeCompleteV4 hx il)
                else Inl (InterchangeError (UNSUPPORTED_VERSION (Some version))))
          else Inl (InterchangeError (UNSUPPORTED_FORMAT f)))"

section \<open>importInterchange and exportInterchange\<close>

text \<open>
  A number becomes a key by \<open>BigInt\<close>, which throws a \<open>RangeError\<close> on \<open>NaN\<close>. A negative number is
  refused the same way here; what the byte conversion of the library makes of one is not modelled, nor
  is a source epoch that is not a number, which only the SSZ library sees.
\<close>

definition numberKey :: "jsnum \<Rightarrow> import_error + nat" where
  "numberKey n = (case n of Some i \<Rightarrow> if i < 0 then Inl RangeError else Inr (nat i) | None \<Rightarrow> Inl RangeError)"

definition importBlock :: "interchange_block \<Rightarrow> import_error + sp_block" where
  "importBlock b = bind_res (numberKey (ib_slot b)) (\<lambda>s. Inr \<lparr>blk_slot = s, blk_signingRoot = ib_signingRoot b\<rparr>)"

definition importAttestation :: "interchange_attestation \<Rightarrow> import_error + sp_attestation" where
  "importAttestation a =
     bind_res (numberKey (ia_targetEpoch a)) (\<lambda>t.
     bind_res (numberKey (ia_sourceEpoch a)) (\<lambda>s.
       Inr \<lparr>att_sourceEpoch = s, att_targetEpoch = t, att_signingRoot = ia_signingRoot a\<rparr>))"

definition importValidator :: "interchange_validator \<Rightarrow> (db, import_error, unit) st" where
  "importValidator v =
     bind_st (lift_st (\<lambda>_. map_res importBlock (iv_signedBlocks v))) (\<lambda>bs.
     bind_st (throw_as ProtectionError (importBlocks (iv_pubkey v) bs)) (\<lambda>_.
     bind_st (lift_st (\<lambda>_. map_res importAttestation (iv_signedAttestations v))) (\<lambda>as.
       throw_as ProtectionError (importAttestations (iv_pubkey v) as))))"

fun importValidators :: "interchange_validator list \<Rightarrow> (db, import_error, unit) st" where
  "importValidators [] = ret_st ()"
| "importValidators (v # vs) = bind_st (importValidator v) (\<lambda>_. importValidators vs)"

definition importInterchange :: "ssz_hex \<Rightarrow> interchange \<Rightarrow> root \<Rightarrow> (db, import_error, unit) st" where
  "importInterchange hx ic genesisValidatorsRoot =
     bind_st (lift_st (\<lambda>_. parseInterchange hx ic genesisValidatorsRoot)) (\<lambda>il. importValidators (il_data il))"

definition exportBlock :: "sp_block \<Rightarrow> interchange_block" where
  "exportBlock b = \<lparr>ib_slot = Some (int (blk_slot b)), ib_signingRoot = blk_signingRoot b\<rparr>"

definition exportAttestation :: "sp_attestation \<Rightarrow> interchange_attestation" where
  "exportAttestation a = \<lparr>ia_sourceEpoch = Some (int (att_sourceEpoch a)),
     ia_targetEpoch = Some (int (att_targetEpoch a)), ia_signingRoot = att_signingRoot a\<rparr>"

definition exportValidator :: "db \<Rightarrow> pubkey \<Rightarrow> interchange_validator" where
  "exportValidator d pubkey =
     \<lparr>iv_pubkey = pubkey, iv_signedBlocks = map exportBlock (exportBlocks d pubkey),
      iv_signedAttestations = map exportAttestation (exportAttestations d pubkey)\<rparr>"

definition exportInterchange :: "ssz_hex \<Rightarrow> db \<Rightarrow> root \<Rightarrow> pubkey list \<Rightarrow> string option \<Rightarrow> string \<Rightarrow> import_error + interchange" where
  "exportInterchange hx d genesisValidatorsRoot pubkeys format version =
     serializeInterchange hx
       \<lparr>il_genesisValidatorsRoot = genesisValidatorsRoot, il_data = map (exportValidator d) pubkeys\<rparr> format version"

section \<open>Round trips\<close>

text \<open>Data whose numbers are all written without exponent: each is \<open>NaN\<close> or an integer below \<open>10 ^ 21\<close>.\<close>

definition plain_validator :: "interchange_validator \<Rightarrow> bool" where
  "plain_validator v \<longleftrightarrow> (\<forall>b \<in> set (iv_signedBlocks v). plain_number (ib_slot b)) \<and>
     (\<forall>a \<in> set (iv_signedAttestations v). plain_number (ia_sourceEpoch a) \<and> plain_number (ia_targetEpoch a))"

definition plain_data :: "interchange_lodestar \<Rightarrow> bool" where
  "plain_data il \<longleftrightarrow> (\<forall>v \<in> set (il_data il). plain_validator v)"

text \<open>The law of a hexadecimal codec: what is written can be read, and is never empty.\<close>

locale lawful_hex =
  fixes hx :: ssz_hex
  assumes from_to: "ssz_fromHexString hx (ssz_toHexString hx b) = Some b"
    and to_nonempty: "ssz_toHexString hx b \<noteq> []"
begin

lemma optional_root: "fromOptionalHexString hx (toOptionalHexString hx r) = Inr r"
  by (simp add: fromOptionalHexString_def toOptionalHexString_def isEqualRoot_def fromHexString_def from_to to_nonempty)

lemma parse_serialize_validator:
  assumes "plain_validator v"
  shows "parseValidator hx (serializeValidator hx v) = Inr v"
proof -
  have n: "b \<in> set (iv_signedBlocks v) \<Longrightarrow> parseInt (numToString (ib_slot b)) = ib_slot b"
    "a \<in> set (iv_signedAttestations v) \<Longrightarrow> parseInt (numToString (ia_sourceEpoch a)) = ia_sourceEpoch a"
    "a \<in> set (iv_signedAttestations v) \<Longrightarrow> parseInt (numToString (ia_targetEpoch a)) = ia_targetEpoch a" for a b
    using assms by (auto simp: plain_validator_def intro: parseInt_numToString)
  show ?thesis
    by (simp add: parseValidator_def serializeValidator_def fromHexString_def from_to
      map_res_map parseBlock_def parseAttestation_def optional_root n)
qed

lemma parse_serialize:
  assumes "serializeInterchange hx il format version = Inr ic" "plain_data il"
  shows "parseInterchange hx ic (il_genesisValidatorsRoot il) = Inr il"
proof -
  have "map_res (parseValidator hx) (map (serializeValidator hx) (il_data il)) = Inr (il_data il)"
    by (rule map_res_map, rule parse_serialize_validator) (use assms(2) in \<open>simp add: plain_data_def\<close>)
  with assms(1) show ?thesis
    by (auto simp: serializeInterchange_def parseInterchange_def serializeInterchangeV5_def parseInterchangeV5_def
      serializeInterchangeCompleteV4_def parseInterchangeCompleteV4_def formatOf_def fromHexString_def from_to
      checkGenesisRoot_def isEqualRoot_def split: option.splits if_splits)
qed

end

text \<open>The codec of \<open>packages/utils\<close> obeys the law.\<close>

definition utils_hex :: ssz_hex where
  "utils_hex = \<lparr>ssz_toHexString = toHexString, ssz_fromHexString = (\<lambda>s. Some (fromHex s))\<rparr>"

lemma toHexString_nonempty: "toHexString b \<noteq> []"
  by (simp add: toHexString_def)

interpretation utils: lawful_hex utils_hex
  by unfold_locales (simp_all add: utils_hex_def fromHex_toHexString toHexString_nonempty)


text \<open>The expected root only matters for the comparison at the end.\<close>

lemma parseInterchange_root:
  assumes "parseInterchange hx ic (il_genesisValidatorsRoot il) = Inr il"
  shows "parseInterchange hx ic r =
    (if r = il_genesisValidatorsRoot il then Inr il
     else Inl (InterchangeError (GENESIS_VALIDATOR_MISMATCH (il_genesisValidatorsRoot il) r)))"
  using assms
  by (auto simp: parseInterchange_def bind_res_Inr_iff checkGenesisRoot_def isEqualRoot_def
    split: option.splits if_splits)

lemma parseInterchange_Inr:
  "parseInterchange hx ic r = Inr il \<Longrightarrow> il_genesisValidatorsRoot il = r \<and>
    ssz_fromHexString hx (genesis_validators_root ic) = Some r"
  by (auto simp: parseInterchange_def bind_res_Inr_iff checkGenesisRoot_def isEqualRoot_def
    parseInterchangeV5_def parseInterchangeCompleteV4_def fromHexString_def split: option.splits if_splits)

section \<open>Exported data can be imported\<close>

lemma importBlock_exportBlock: "importBlock (exportBlock b) = Inr b"
  by (simp add: importBlock_def exportBlock_def numberKey_def)

lemma importAttestation_exportAttestation: "importAttestation (exportAttestation a) = Inr a"
  by (simp add: importAttestation_def exportAttestation_def numberKey_def)

definition exported :: "db \<Rightarrow> pubkey list \<Rightarrow> history" where
  "exported d pks = map (\<lambda>p. (p, exportBlocks d p, exportAttestations d p)) pks"

lemma importValidators_export:
  "importAll (exported d pks) s = (Inr (), s') \<Longrightarrow> importValidators (map (exportValidator d) pks) s = (Inr (), s')"
proof (induction pks arbitrary: s)
  case (Cons p pks)
  then obtain s1 where s1: "importAttestations p (exportAttestations d p) (setBlocks p (exportBlocks d p) s) = (Inr (), s1)"
    "importAll (exported d pks) s1 = (Inr (), s')"
    by (auto simp: exported_def bind_st_eq_Inr importBlocks_def)
  have "importValidator (exportValidator d p) s = (Inr (), s1)"
    using s1(1)
    by (simp add: importValidator_def exportValidator_def map_res_map importBlock_exportBlock
      importAttestation_exportAttestation importBlocks_def throw_as_def bind_st_def)
  with Cons.IH [OF s1(2)] show ?case by simp
qed (simp add: exported_def)

lemma imported_exported: "distinct pks \<Longrightarrow> imported_atts (exported d pks) q = (if q \<in> set pks then exportAttestations d q else [])"
  "distinct pks \<Longrightarrow> imported_blocks (exported d pks) q = (if q \<in> set pks then exportBlocks d q else [])"
  by (induction pks) (auto simp: exported_def imported_atts_def imported_blocks_def)

text \<open>The numbers that are exported are safe integers.\<close>

lemma plain_exported: "history_ok (exported d pks) \<Longrightarrow> p \<in> set pks \<Longrightarrow> plain_validator (exportValidator d p)"
  by (fastforce simp: history_ok_def exported_def plain_validator_def exportValidator_def exportBlock_def
    exportAttestation_def MAX_SAFE_INTEGER_def intro!: plain_number_safe)

section \<open>Properties of the interchange\<close>

text \<open>
  C37. Both formats round trip: when every number of the data is \<open>NaN\<close> or an integer of a double below
  \<open>10 ^ 21\<close>, what serializeInterchange makes of the data, parseInterchange turns back into the same
  data, numbers that are \<open>NaN\<close> and roots that are all zero included, provided the hexadecimal strings of
  the SSZ library do; with another genesis root it is refused as a mismatch. From \<open>10 ^ 21\<close> on
  \<open>String\<close> writes an exponent, and the number that comes back is another one.
\<close>

theorem interchange_roundtrip:
  assumes "\<And>b. ssz_fromHexString hx (ssz_toHexString hx b) = Some b" "\<And>b. ssz_toHexString hx b \<noteq> []"
    "serializeInterchange hx il format version = Inr ic" "plain_data il"
  shows "parseInterchange hx ic root' =
    (if root' = il_genesisValidatorsRoot il then Inr il
     else Inl (InterchangeError (GENESIS_VALIDATOR_MISMATCH (il_genesisValidatorsRoot il) root')))"
proof -
  have "lawful_hex hx"
    by unfold_locales (use assms(1,2) in auto)
  from lawful_hex.parse_serialize [OF this assms(3,4)]
  have "parseInterchange hx ic (il_genesisValidatorsRoot il) = Inr il" .
  then show ?thesis
    by (rule parseInterchange_root)
qed


text \<open>
  A file of another network, of an unknown format or version, or with a bad hexadecimal string is
  refused before the first write: the import fails with the error of parseInterchange and the database
  is as before. An import that succeeds has read a file whose genesis root is the expected one.
\<close>

theorem importInterchange_refuses:
  "case parseInterchange hx ic r of
     Inl e \<Rightarrow> importInterchange hx ic r d = (Inl e, d) \<and>
       (case e of InterchangeError ie \<Rightarrow>
          (case ie of
             UNSUPPORTED_FORMAT f \<Rightarrow> interchange_format ic = Some f \<and> f \<noteq> ''complete''
           | UNSUPPORTED_VERSION v \<Rightarrow> interchange_format_version ic = v \<and>
               (case interchange_format ic of Some f \<Rightarrow> f = ''complete'' \<and> v \<noteq> Some ''4'' \<or> f = [] \<and> v \<noteq> Some ''5''
                | None \<Rightarrow> v \<noteq> Some ''5'')
           | GENESIS_VALIDATOR_MISMATCH found expected \<Rightarrow> expected = r \<and> found \<noteq> r \<and>
               ssz_fromHexString hx (genesis_validators_root ic) = Some found)
        | _ \<Rightarrow> e = HexError)
   | Inr il \<Rightarrow> ssz_fromHexString hx (genesis_validators_root ic) = Some r"
proof -
  have hex: "fromHexString hx s = Inl e \<Longrightarrow> e = HexError" for s e
    by (auto simp: fromHexString_def split: option.splits)
  have opt: "fromOptionalHexString hx s = Inl e \<Longrightarrow> e = HexError" for s e
    by (auto simp: fromOptionalHexString_def dest: hex split: option.splits if_splits)
  have mapE: "(\<And>x e. f x = Inl e \<Longrightarrow> e = HexError) \<Longrightarrow> map_res f xs = Inl e \<Longrightarrow> e = HexError"
    for f :: "'a \<Rightarrow> import_error + 'b" and xs e
    by (induction xs) (auto simp: bind_res_Inl_iff)
  have val: "parseValidator hx v = Inl e \<Longrightarrow> e = HexError" for v e
    by (auto simp: parseValidator_def bind_res_Inl_iff parseBlock_def parseAttestation_def
      dest!: hex dest: opt elim!: mapE [rotated])
  have formats: "parseInterchangeV5 hx ic = Inl e \<Longrightarrow> e = HexError" "parseInterchangeCompleteV4 hx ic = Inl e \<Longrightarrow> e = HexError" for e
    by (auto simp: parseInterchangeV5_def parseInterchangeCompleteV4_def bind_res_Inl_iff
      dest!: hex dest: val elim!: mapE [rotated])
  have roots: "parseInterchangeV5 hx ic = Inr il \<Longrightarrow> ssz_fromHexString hx (genesis_validators_root ic) = Some (il_genesisValidatorsRoot il)"
    "parseInterchangeCompleteV4 hx ic = Inr il \<Longrightarrow> ssz_fromHexString hx (genesis_validators_root ic) = Some (il_genesisValidatorsRoot il)" for il
    by (auto simp: parseInterchangeV5_def parseInterchangeCompleteV4_def bind_res_Inr_iff fromHexString_def split: option.splits)
  show ?thesis
  proof (cases "parseInterchange hx ic r")
    case (Inl e)
    then show ?thesis
      by (auto simp: importInterchange_def bind_st_def parseInterchange_def formatOf_def bind_res_Inl_iff
        checkGenesisRoot_def isEqualRoot_def dest!: formats dest: roots split: option.splits if_splits)
  next
    case (Inr il)
    with parseInterchange_Inr show ?thesis by fastforce
  qed
qed

lemma exported_history_ok:
  assumes s: "session vs rs ok d" and pks: "distinct pks" "\<And>p. p \<in> set pks \<Longrightarrow> pubkey_ok p"
  shows "history_ok (exported d pks)"
    "(p, bs, as) \<in> set (exported d pks) \<Longrightarrow> a \<in> set as \<Longrightarrow> b \<in> set as \<Longrightarrow> \<not> surrounds (surroundAtt a) (surroundAtt b)"
proof -
  have ex: "set (exportBlocks d p) = recorded_blocks vs ok p" "set (exportAttestations d p) = recorded_atts vs ok p"
    "no_slashing (recorded_blocks vs ok p) (recorded_atts vs ok p)" if "p \<in> set pks" for p
    using session_recorded [OF s pks(2) [OF that]] by auto
  have le: "att_sourceEpoch a \<le> att_targetEpoch a" if "p \<in> set pks" "a \<in> recorded_atts vs ok p" for p a
    using session_sources [OF s pks(2) [OF that(1)] that(2)] .
  have inj: "inj_on blk_slot (recorded_blocks vs ok p)" "inj_on att_targetEpoch (recorded_atts vs ok p)" if "p \<in> set pks" for p
    using ex(3) [OF that] unfolding no_slashing_def slashable_def inj_on_def by (blast intro: sp_block_eqI)+
  show "history_ok (exported d pks)"
    unfolding history_ok_def
  proof (intro conjI ballI)
    show "distinct (map fst (exported d pks))"
      using pks(1) by (simp add: exported_def comp_def)
    fix v assume "v \<in> set (exported d pks)"
    then obtain p where p: "p \<in> set pks" and v: "v = (p, exportBlocks d p, exportAttestations d p)"
      by (auto simp: exported_def)
    show "case v of (p, bs, as) \<Rightarrow> pubkey_ok p \<and> (\<forall>b \<in> set bs. blk_slot b < MAX_SAFE_INTEGER) \<and> inj_on blk_slot (set bs) \<and>
       (\<forall>a \<in> set as. att_targetEpoch a < MAX_SAFE_INTEGER \<and> att_sourceEpoch a \<le> att_targetEpoch a) \<and>
       inj_on att_targetEpoch (set as)"
      using pks(2) [OF p] inj [OF p] le [OF p] session_numbers [OF s] by (simp add: v ex(1,2) [OF p])
  qed
  show "(p, bs, as) \<in> set (exported d pks) \<Longrightarrow> a \<in> set as \<Longrightarrow> b \<in> set as \<Longrightarrow> \<not> surrounds (surroundAtt a) (surroundAtt b)"
    using ex(2,3) by (auto simp: exported_def no_slashing_def slashable_def)
qed

text \<open>
  C36. A validator can be migrated. Export any public keys from a database that a session has produced,
  in either format, and import the file into an empty database: the import succeeds, the new database
  exports the same records, and it is the result of a session again, with the records as its imported
  history, so that everything shown of sessions holds of it.
\<close>

theorem migration:
  assumes "\<And>b. ssz_fromHexString hx (ssz_toHexString hx b) = Some b" "\<And>b. ssz_toHexString hx b \<noteq> []"
    "session vs rs ok d" "distinct pks" "\<And>p. p \<in> set pks \<Longrightarrow> pubkey_ok p"
    "exportInterchange hx d r pks format version = Inr ic"
  shows "\<exists>d'. importInterchange hx ic r [] = (Inr (), d') \<and> session (exported d pks) [] [] d' \<and>
    (\<forall>p \<in> set pks. exportBlocks d' p = exportBlocks d p \<and> exportAttestations d' p = exportAttestations d p)"
proof -
  have hist: "history_ok (exported d pks)" "\<And>p bs as a b. (p, bs, as) \<in> set (exported d pks) \<Longrightarrow> a \<in> set as \<Longrightarrow>
      b \<in> set as \<Longrightarrow> \<not> surrounds (surroundAtt a) (surroundAtt b)"
    using exported_history_ok [OF assms(3,4)] assms(5) by blast+
  obtain d' where d': "importAll (exported d pks) [] = (Inr (), d')"
    using importAll_succeeds [OF records_empty hist(1)] hist(2) by blast
  have "lawful_hex hx"
    by unfold_locales (use assms(1,2) in auto)
  moreover have "plain_data \<lparr>il_genesisValidatorsRoot = r, il_data = map (exportValidator d) pks\<rparr>"
    using plain_exported [OF hist(1)] by (simp add: plain_data_def)
  ultimately
  have "parseInterchange hx ic r = Inr \<lparr>il_genesisValidatorsRoot = r, il_data = map (exportValidator d) pks\<rparr>"
    using lawful_hex.parse_serialize [OF _ assms(6) [unfolded exportInterchange_def]] by simp
  then have run: "importInterchange hx ic r [] = (Inr (), d')"
    using importValidators_export [OF d'] by (simp add: importInterchange_def)
  have "roots_determine (set (imported_atts (exported d pks) q))" for q
    using session_roots [OF assms(3)] session_recorded(2) [OF assms(3)] assms(4,5)
    by (auto simp: imported_exported roots_determine_def)
  then have s': "session (exported d pks) [] [] d'"
    using hist(1) d' by (simp add: session_def requested_atts_def)
  have "exportBlocks d' p = exportBlocks d p \<and> exportAttestations d' p = exportAttestations d p" if p: "p \<in> set pks" for p
  proof -
    have "recorded_blocks (exported d pks) [] p = recorded_blocks vs ok p"
      "recorded_atts (exported d pks) [] p = recorded_atts vs ok p"
      using session_recorded(1,2) [OF assms(3) assms(5) [OF p]] p assms(4)
      by (simp_all add: recorded_blocks_def [of "exported d pks"] recorded_atts_def [of "exported d pks"]
        imported_exported requested_blocks_def requested_atts_def)
    then show ?thesis
      using session_same_export [OF s' assms(3) assms(5) [OF p]] by blast
  qed
  with run s' show ?thesis by blast
qed


end
