(* ===== verification/ValidatorMetaData.thy ===== *)
theory ValidatorMetaData
  imports SlashingProtectionSpec
begin

text \<open>
  The meta data of the validator's database (\<open>packages/validator/src/repositories\<close>) and the check
  of \<open>packages/validator/src/validator.ts\<close> that a database serves one network only. They share the
  database with the slashing protection.
\<close>

section \<open>MetaDataRepository\<close>

text \<open>The ASCII codes of the two keys.\<close>

definition GENESIS_VALIDATORS_ROOT :: bytes where
  "GENESIS_VALIDATORS_ROOT = [71, 69, 78, 69, 83, 73, 83, 95, 86, 65, 76, 73, 68, 65, 84, 79, 82, 83, 95, 82, 79, 79, 84]"

definition GENESIS_TIME :: bytes where
  "GENESIS_TIME = [71, 69, 78, 69, 83, 73, 83, 95, 84, 73, 77, 69]"

fun genesisRootOf :: "db_value \<Rightarrow> root option" where
  "genesisRootOf (GenesisRootValue r) = Some r"
| "genesisRootOf _ = None"

fun genesisTimeOf :: "db_value \<Rightarrow> nat option" where
  "genesisTimeOf (GenesisTimeValue t) = Some t"
| "genesisTimeOf _ = None"

definition getGenesisValidatorsRoot :: "db \<Rightarrow> root option" where
  "getGenesisValidatorsRoot d =
     Option.bind (db_get d (encodeKey validator_metaData GENESIS_VALIDATORS_ROOT)) genesisRootOf"

definition setGenesisValidatorsRoot :: "root \<Rightarrow> db \<Rightarrow> db" where
  "setGenesisValidatorsRoot r d = db_put (encodeKey validator_metaData GENESIS_VALIDATORS_ROOT) (GenesisRootValue r) d"

definition getGenesisTime :: "db \<Rightarrow> nat option" where
  "getGenesisTime d = Option.bind (db_get d (encodeKey validator_metaData GENESIS_TIME)) genesisTimeOf"

definition setGenesisTime :: "nat \<Rightarrow> db \<Rightarrow> db" where
  "setGenesisTime t d = db_put (encodeKey validator_metaData GENESIS_TIME) (GenesisTimeValue t) d"

section \<open>assertEqualGenesis\<close>

datatype not_equal_params = NotSameGenesisValidatorRoot | NotSameGenesisTime

fun assertEqualGenesis :: "root \<times> nat \<Rightarrow> (db, not_equal_params, unit) st" where
  "assertEqualGenesis (nodeRoot, nodeTime) =
     bind_st (\<lambda>d. case getGenesisValidatorsRoot d of
         Some r \<Rightarrow> if \<not> isEqualRoot r nodeRoot then (Inl NotSameGenesisValidatorRoot, d) else (Inr (), d)
       | None \<Rightarrow> (Inr (), setGenesisValidatorsRoot nodeRoot d)) (\<lambda>_ d.
     (case getGenesisTime d of
         Some t \<Rightarrow> if t \<noteq> nodeTime then (Inl NotSameGenesisTime, d) else (Inr (), d)
       | None \<Rightarrow> (Inr (), setGenesisTime nodeTime d)))"

lemma genesis_keys: "GENESIS_VALIDATORS_ROOT \<noteq> GENESIS_TIME"
  by (simp add: GENESIS_VALIDATORS_ROOT_def GENESIS_TIME_def)

lemma get_genesis_set:
  "getGenesisValidatorsRoot (setGenesisValidatorsRoot r d) = Some r"
  "getGenesisValidatorsRoot (setGenesisTime t d) = getGenesisValidatorsRoot d"
  "getGenesisTime (setGenesisValidatorsRoot r d) = getGenesisTime d"
  "getGenesisTime (setGenesisTime t d) = Some t"
  using genesis_keys
  by (auto simp: getGenesisValidatorsRoot_def setGenesisValidatorsRoot_def getGenesisTime_def setGenesisTime_def encodeKey_inj)

lemma assertEqualGenesis_stored:
  assumes "assertEqualGenesis g d = (Inr (), d')"
  shows "getGenesisValidatorsRoot d' = Some (fst g) \<and> getGenesisTime d' = Some (snd g)"
  using assms
  by (cases g) (auto simp: bind_st_def isEqualRoot_def get_genesis_set split: option.splits if_splits)

text \<open>
  A validator database serves one network: once the check has passed for a genesis root and time,
  it passes again for them only, and every other genesis is refused, the root before the time. Neither
  outcome changes the database any more.
\<close>

theorem assertEqualGenesis_pins:
  assumes "assertEqualGenesis g d = (Inr (), d')"
  shows "assertEqualGenesis g' d' =
    ((if fst g' \<noteq> fst g then Inl NotSameGenesisValidatorRoot
      else if snd g' \<noteq> snd g then Inl NotSameGenesisTime else Inr ()), d')"
  using assertEqualGenesis_stored [OF assms]
  by (cases g') (simp add: bind_st_def isEqualRoot_def)

text \<open>The check leaves every record of the slashing protection as it is.\<close>

lemma assertEqualGenesis_frame: "bucket_frame {validator_metaData} d (snd (assertEqualGenesis g d))"
  by (cases g) (auto simp: bind_st_def setGenesisValidatorsRoot_def setGenesisTime_def
    intro: bucket_frame_trans bucket_frame_put split: option.split)

end
