(* ===== verification/SlashingExamples.thy ===== *)
theory SlashingExamples
  imports Interchange ValidatorMetaData "HOL-Library.Code_Target_Nat"
begin

text \<open>
  A concrete session, evaluated in the kernel, at which the properties of the slashing protection
  are applied.
\<close>

section \<open>A session\<close>

definition spx_pubkey :: pubkey where
  "spx_pubkey = replicate 48 7"

definition spx_att :: "epoch \<Rightarrow> epoch \<Rightarrow> 8 word \<Rightarrow> sp_attestation" where
  "spx_att s t r = \<lparr>att_sourceEpoch = s, att_targetEpoch = t, att_signingRoot = replicate 32 r\<rparr>"

definition spx_block :: "slot \<Rightarrow> 8 word \<Rightarrow> sp_block" where
  "spx_block s r = \<lparr>blk_slot = s, blk_signingRoot = replicate 32 r\<rparr>"

text \<open>One validator with a block and an attestation without signing root.\<close>

definition spx_history :: history where
  "spx_history = [(spx_pubkey, [spx_block 9 1], [spx_att 1 2 0])]"

text \<open>A vote, a double vote, a repetition, a surrounding vote, one below the bound, a block, a double block.\<close>

definition spx_requests :: "sign_request list" where
  "spx_requests =
     [SignAttestation spx_pubkey (spx_att 2 4 1), SignAttestation spx_pubkey (spx_att 3 4 2),
      SignAttestation spx_pubkey (spx_att 2 4 1), SignAttestation spx_pubkey (spx_att 1 5 3),
      SignAttestation spx_pubkey (spx_att 1 2 4), SignBlock spx_pubkey (spx_block 12 1),
      SignBlock spx_pubkey (spx_block 12 2), SignBlock spx_pubkey (spx_block 8 3)]"

definition spx_passed :: "sign_request list" where
  "spx_passed = [SignAttestation spx_pubkey (spx_att 2 4 1), SignAttestation spx_pubkey (spx_att 2 4 1),
      SignBlock spx_pubkey (spx_block 12 1)]"

definition spx_db :: db where
  "spx_db = snd (sign_all spx_requests (snd (importAll spx_history [])))"

text \<open>The session is evaluated once.\<close>

lemma spx_evaluated: "case importAll spx_history [] of (r, d) \<Rightarrow> case sign_all spx_requests d of (passed, d') \<Rightarrow>
    r = Inr () \<and> passed = spx_passed \<and> exportAttestations d' spx_pubkey = [spx_att 1 2 0, spx_att 2 4 1] \<and>
    checkAttestation d' spx_pubkey (spx_att 1 5 6) = Inl (NEW_SURROUNDS_PREV (spx_att 1 5 6) (Some (spx_att 2 4 1)))"
  by code_simp

lemma spx_run: "importAll spx_history [] = (Inr (), snd (importAll spx_history []))"
  "fst (sign_all spx_requests (snd (importAll spx_history []))) = spx_passed"
  using spx_evaluated by (auto split: prod.splits)

lemma spx_export: "exportAttestations spx_db spx_pubkey = [spx_att 1 2 0, spx_att 2 4 1]"
  using spx_evaluated by (simp add: spx_db_def split: prod.splits)

lemma spx_surrounds: "checkAttestation spx_db spx_pubkey (spx_att 1 5 6) =
    Inl (NEW_SURROUNDS_PREV (spx_att 1 5 6) (Some (spx_att 2 4 1)))"
  using spx_evaluated by (simp add: spx_db_def split: prod.splits)

lemma spx_session: "session spx_history spx_requests spx_passed spx_db"
proof -
  have "history_ok spx_history" "\<forall>r \<in> set spx_requests. request_ok r"
    by code_simp+
  moreover have "roots_determine (set (imported_atts spx_history q) \<union> set (requested_atts spx_requests q))" for q
  proof (cases "q = spx_pubkey")
    case True
    show ?thesis unfolding True by code_simp
  next
    case False
    then show ?thesis
      by (auto simp: roots_determine_def imported_atts_def requested_atts_def spx_history_def spx_requests_def)
  qed
  moreover have "sign_all spx_requests (snd (importAll spx_history [])) = (spx_passed, spx_db)"
    using spx_run(2) by (metis spx_db_def prod.collapse)
  then have "case importAll spx_history [] of (Inl e, d0) \<Rightarrow> False
    | (Inr _, d0) \<Rightarrow> sign_all spx_requests d0 = (spx_passed, spx_db)"
    by (subst spx_run(1)) simp
  ultimately show ?thesis
    unfolding session_def by blast
qed

lemma spx_pubkey_ok: "pubkey_ok spx_pubkey"
  by code_simp

theorem session_safe_witness:
  "no_slashing (recorded_blocks spx_history spx_passed spx_pubkey) (recorded_atts spx_history spx_passed spx_pubkey) \<and>
    card (recorded_atts spx_history spx_passed spx_pubkey) = 2"
proof
  show "no_slashing (recorded_blocks spx_history spx_passed spx_pubkey) (recorded_atts spx_history spx_passed spx_pubkey)"
    by (rule session_safe [OF spx_session spx_pubkey_ok])
  show "card (recorded_atts spx_history spx_passed spx_pubkey) = 2"
    by code_simp
qed


theorem session_attestation_errors_witness:
  "\<exists>b \<in> recorded_atts spx_history spx_passed spx_pubkey.
     checkAttestation spx_db spx_pubkey (spx_att 1 5 6) = Inl (NEW_SURROUNDS_PREV (spx_att 1 5 6) (Some b)) \<and>
     surrounds (surroundAtt (spx_att 1 5 6)) (surroundAtt b)"
proof -
  have "att_targetEpoch (spx_att 1 5 6) < MAX_SAFE_INTEGER"
    by code_simp
  then show ?thesis
    using session_attestation_errors [OF spx_session spx_pubkey_ok _ spx_surrounds] spx_surrounds by simp
qed

theorem session_attestation_live_witness:
  "\<exists>d'. checkAndInsertAttestation spx_pubkey (spx_att 2 5 6) spx_db = (Inr (), d')"
proof (rule session_attestation_live [OF spx_session spx_pubkey_ok])
  show "att_targetEpoch (spx_att 2 5 6) < MAX_SAFE_INTEGER" "att_sourceEpoch (spx_att 2 5 6) \<le> att_targetEpoch (spx_att 2 5 6)"
    by code_simp+
  fix b assume b: "b \<in> recorded_atts spx_history spx_passed spx_pubkey"
  have "\<forall>b \<in> recorded_atts spx_history spx_passed spx_pubkey.
      att_sourceEpoch b \<le> att_sourceEpoch (spx_att 2 5 6) \<and> att_targetEpoch b < att_targetEpoch (spx_att 2 5 6)"
    by code_simp
  with b show "att_sourceEpoch b \<le> att_sourceEpoch (spx_att 2 5 6) \<and> att_targetEpoch b < att_targetEpoch (spx_att 2 5 6)"
    by blast
qed

theorem session_block_witness:
  "fst (checkAndInsertBlockProposal spx_pubkey (spx_block 13 4) spx_db) = Inr () \<and>
   fst (checkAndInsertBlockProposal spx_pubkey (spx_block 12 4) spx_db) \<noteq> Inr ()"
proof
  have n: "blk_slot (spx_block 13 4) < MAX_SAFE_INTEGER" "blk_slot (spx_block 12 4) < MAX_SAFE_INTEGER"
    by code_simp+
  have r: "recorded_blocks spx_history spx_passed spx_pubkey = {spx_block 9 1, spx_block 12 1}"
    by code_simp
  have "spx_block 12 1 \<noteq> spx_block 12 4" "blk_signingRoot (spx_block 12 1) \<noteq> blk_signingRoot (spx_block 12 4)"
    "blk_slot (spx_block s x) = s" for s x
    by code_simp+
  then show "fst (checkAndInsertBlockProposal spx_pubkey (spx_block 13 4) spx_db) = Inr ()"
    "fst (checkAndInsertBlockProposal spx_pubkey (spx_block 12 4) spx_db) \<noteq> Inr ()"
    unfolding session_block_iff [OF spx_session spx_pubkey_ok n(1)] session_block_iff [OF spx_session spx_pubkey_ok n(2)]
    by (simp_all add: r)
qed

theorem session_export_witness:
  "exportAttestations spx_db spx_pubkey = [spx_att 1 2 0, spx_att 2 4 1] \<and>
   set (exportAttestations spx_db spx_pubkey) = recorded_atts spx_history spx_passed spx_pubkey"
proof
  show "exportAttestations spx_db spx_pubkey = [spx_att 1 2 0, spx_att 2 4 1]"
    by (rule spx_export)
  show "set (exportAttestations spx_db spx_pubkey) = recorded_atts spx_history spx_passed spx_pubkey"
    using session_export [OF spx_session spx_pubkey_ok] by blast
qed

theorem session_listPubkeys_witness: "spx_pubkey \<in> set (listPubkeys spx_db)"
proof -
  have "recorded_blocks spx_history spx_passed spx_pubkey \<noteq> {}"
    by code_simp
  with session_listPubkeys [OF spx_session] spx_pubkey_ok show ?thesis by blast
qed

text \<open>
  listPubkeys goes through the keys of every bucket of the database the repositories share, so
  with the genesis root of the validator stored, as every validator client stores it, a database
  without any record already lists a public key, which is not even 48 bytes long.
\<close>

theorem listPubkeys_metadata:
  "listPubkeys (setGenesisValidatorsRoot ZERO_ROOT []) = [GENESIS_VALIDATORS_ROOT] \<and>
   \<not> pubkey_ok GENESIS_VALIDATORS_ROOT"
  by code_simp

theorem assertEqualGenesis_witness:
  "fst (assertEqualGenesis (ZERO_ROOT, 5) (snd (assertEqualGenesis (ZERO_ROOT, 5) []))) = Inr () \<and>
   fst (assertEqualGenesis (ZERO_ROOT, 6) (snd (assertEqualGenesis (ZERO_ROOT, 5) []))) = Inl NotSameGenesisTime"
proof -
  have run: "assertEqualGenesis (ZERO_ROOT, 5) [] = (Inr (), snd (assertEqualGenesis (ZERO_ROOT, 5) []))"
    by code_simp
  have "assertEqualGenesis (ZERO_ROOT, 5) (snd (assertEqualGenesis (ZERO_ROOT, 5) [])) =
      (Inr (), snd (assertEqualGenesis (ZERO_ROOT, 5) []))"
    "assertEqualGenesis (ZERO_ROOT, 6) (snd (assertEqualGenesis (ZERO_ROOT, 5) [])) =
      (Inl NotSameGenesisTime, snd (assertEqualGenesis (ZERO_ROOT, 5) []))"
    using assertEqualGenesis_pins [OF run, of "(ZERO_ROOT, 5)"] assertEqualGenesis_pins [OF run, of "(ZERO_ROOT, 6)"]
    by simp_all
  then show ?thesis by simp
qed

theorem minmax_exact_witness:
  "assertNoSurround DistanceStoreRepository (snd (insertHistory spx_pubkey (map surroundAtt [spx_att 1 3 0, spx_att 2 5 0]) []))
     spx_pubkey (surroundAtt (spx_att 2 4 0)) = Inr () \<and>
   assertNoSurround DistanceStoreRepository (snd (insertHistory spx_pubkey (map surroundAtt [spx_att 1 3 0, spx_att 2 5 0]) []))
     spx_pubkey (surroundAtt (spx_att 3 4 0)) \<noteq> Inr ()"
proof -
  let ?as = "map surroundAtt [spx_att 1 3 0, spx_att 2 5 0]"
  have "fst (insertHistory spx_pubkey ?as []) = Inr ()"
    by code_simp
  then have run: "insertHistory spx_pubkey ?as [] = (Inr (), snd (insertHistory spx_pubkey ?as []))"
    by (metis prod.collapse)
  have "\<forall>b \<in> set ?as. att_ok b" and a: "att_ok (surroundAtt (spx_att 2 4 0))" "att_ok (surroundAtt (spx_att 3 4 0))"
    by code_simp+
  then have ok: "\<And>b. b \<in> set ?as \<Longrightarrow> att_ok b" by blast
  have "\<forall>b \<in> set ?as. \<not> surrounds (surroundAtt (spx_att 2 4 0)) b \<and> \<not> surrounds b (surroundAtt (spx_att 2 4 0))"
    "\<not> (\<forall>b \<in> set ?as. \<not> surrounds (surroundAtt (spx_att 3 4 0)) b \<and> \<not> surrounds b (surroundAtt (spx_att 3 4 0)))"
    by code_simp+
  then show ?thesis
    using minmax_exact [OF spx_pubkey_ok ok a(1) run] minmax_exact [OF spx_pubkey_ok ok a(2) run] by blast
qed

theorem insertHistory_witness:
  "fst (insertHistory spx_pubkey (map surroundAtt [spx_att 1 3 0, spx_att 2 5 0]) []) = Inr () \<and>
   fst (insertHistory spx_pubkey (map surroundAtt [spx_att 1 6 0, spx_att 2 5 0]) []) \<noteq> Inr ()"
proof -
  have "\<forall>b \<in> set (map surroundAtt [spx_att 1 3 0, spx_att 2 5 0]). att_ok b"
    "\<forall>b \<in> set (map surroundAtt [spx_att 1 6 0, spx_att 2 5 0]). att_ok b"
    "\<forall>a \<in> set (map surroundAtt [spx_att 1 3 0, spx_att 2 5 0]). \<forall>b \<in> set (map surroundAtt [spx_att 1 3 0, spx_att 2 5 0]). \<not> surrounds a b"
    "\<not> (\<forall>a \<in> set (map surroundAtt [spx_att 1 6 0, spx_att 2 5 0]). \<forall>b \<in> set (map surroundAtt [spx_att 1 6 0, spx_att 2 5 0]). \<not> surrounds a b)"
    by code_simp+
  then show ?thesis
    using insertHistory_iff [OF spx_pubkey_ok] by blast
qed

text \<open>An import does not look for conflicts inside the file: of two roots for one slot the last is recorded.\<close>

lemma import_two_roots: "case importAll [(spx_pubkey, [spx_block 9 1, spx_block 9 2], [])] [] of (r, d) \<Rightarrow>
    r = Inr () \<and> exportBlocks d spx_pubkey = [spx_block 9 2]"
  by code_simp

section \<open>Interchange files\<close>

definition spx_data :: interchange_lodestar where
  "spx_data = \<lparr>il_genesisValidatorsRoot = replicate 32 5, il_data =
     [\<lparr>iv_pubkey = spx_pubkey, iv_signedBlocks = [\<lparr>ib_slot = Some 81952, ib_signingRoot = ZERO_ROOT\<rparr>],
       iv_signedAttestations = [\<lparr>ia_sourceEpoch = None, ia_targetEpoch = Some 3007, ia_signingRoot = replicate 32 9\<rparr>]\<rparr>]\<rparr>"

lemma utils_hex_laws: "ssz_fromHexString utils_hex (ssz_toHexString utils_hex b) = Some b"
  "ssz_toHexString utils_hex b \<noteq> []"
  by (rule utils.from_to, rule utils.to_nonempty)

theorem interchange_roundtrip_witness:
  "parseInterchange utils_hex (serializeInterchangeV5 utils_hex spx_data) (replicate 32 5) = Inr spx_data \<and>
   parseInterchange utils_hex (serializeInterchangeV5 utils_hex spx_data) ZERO_ROOT =
     Inl (InterchangeError (GENESIS_VALIDATOR_MISMATCH (replicate 32 5) ZERO_ROOT))"
proof -
  have s: "serializeInterchange utils_hex spx_data None ''5'' = Inr (serializeInterchangeV5 utils_hex spx_data)"
    by (simp add: serializeInterchange_def formatOf_def)
  have "plain_data spx_data"
    by (simp add: plain_data_def plain_validator_def plain_number_def roundDouble_def spx_data_def)
  note rt = interchange_roundtrip [OF utils_hex_laws s this]
  have "il_genesisValidatorsRoot spx_data = replicate 32 5" "ZERO_ROOT \<noteq> replicate 32 5"
    by code_simp+
  with rt [of "replicate 32 5"] rt [of ZERO_ROOT] show ?thesis by simp
qed

theorem importInterchange_refuses_witness:
  "importInterchange utils_hex (serializeInterchangeV5 utils_hex spx_data) ZERO_ROOT spx_db =
    (Inl (InterchangeError (GENESIS_VALIDATOR_MISMATCH (replicate 32 5) ZERO_ROOT)), spx_db)"
proof -
  have "parseInterchange utils_hex (serializeInterchangeV5 utils_hex spx_data) ZERO_ROOT =
     Inl (InterchangeError (GENESIS_VALIDATOR_MISMATCH (replicate 32 5) ZERO_ROOT))"
    by code_simp
  with importInterchange_refuses [of utils_hex "serializeInterchangeV5 utils_hex spx_data" ZERO_ROOT spx_db]
  show ?thesis by simp
qed

theorem migration_witness:
  "\<exists>ic d'. exportInterchange utils_hex spx_db ZERO_ROOT [spx_pubkey] (Some ''complete'') ''4'' = Inr ic \<and>
    importInterchange utils_hex ic ZERO_ROOT [] = (Inr (), d') \<and>
    exportAttestations d' spx_pubkey = [spx_att 1 2 0, spx_att 2 4 1]"
proof -
  obtain ic where ic: "exportInterchange utils_hex spx_db ZERO_ROOT [spx_pubkey] (Some ''complete'') ''4'' = Inr ic"
    by (simp add: exportInterchange_def serializeInterchange_def formatOf_def)
  with migration [OF utils_hex_laws spx_session _ _ ic] spx_pubkey_ok ic spx_export show ?thesis by auto
qed


end
