(* ===== verification/ForkConfig.thy ===== *)
theory ForkConfig
  imports Bytes "HOL-Library.Extended_Nat"
begin

text \<open>
  The fork schedule, the signature domains and the fork digests of a chain
  (\<open>packages/config/src/forkConfig\<close>, \<open>packages/config/src/genesisConfig\<close>). The epoch of a fork
  may be \<open>Infinity\<close>. The root of the SSZ container \<open>ForkData\<close> and \<open>toHexString\<close> of the SSZ library
  are a parameter.
\<close>

section \<open>The fork schedule\<close>

datatype fork_name = Phase0 | Altair | Bellatrix

record fork_info =
  fi_name :: fork_name
  fi_epoch :: enat
  fi_version :: bytes

record fork_settings =
  GENESIS_FORK_VERSION :: bytes
  ALTAIR_FORK_EPOCH :: enat
  ALTAIR_FORK_VERSION :: bytes
  BELLATRIX_FORK_EPOCH :: enat
  BELLATRIX_FORK_VERSION :: bytes

text \<open>\<open>forks\<close>, in the order of its keys, which is \<open>forksAscendingEpochOrder\<close>.\<close>

definition forks :: "fork_settings \<Rightarrow> fork_info list" where
  "forks c =
     [\<lparr>fi_name = Phase0, fi_epoch = enat GENESIS_EPOCH, fi_version = GENESIS_FORK_VERSION c\<rparr>,
      \<lparr>fi_name = Altair, fi_epoch = ALTAIR_FORK_EPOCH c, fi_version = ALTAIR_FORK_VERSION c\<rparr>,
      \<lparr>fi_name = Bellatrix, fi_epoch = BELLATRIX_FORK_EPOCH c, fi_version = BELLATRIX_FORK_VERSION c\<rparr>]"

definition forksDescendingEpochOrder :: "fork_settings \<Rightarrow> fork_info list" where
  "forksDescendingEpochOrder c = rev (forks c)"

fun activeFork :: "nat \<Rightarrow> fork_info \<Rightarrow> fork_info list \<Rightarrow> fork_info" where
  "activeFork e phase0 [] = phase0"
| "activeFork e phase0 (f # fs) = (if fi_epoch f \<le> enat e then f else activeFork e phase0 fs)"

definition getForkInfo :: "fork_settings \<Rightarrow> slot \<Rightarrow> fork_info" where
  "getForkInfo c s = activeFork (s div SLOTS_PER_EPOCH) (hd (forks c)) (forksDescendingEpochOrder c)"

definition getForkName :: "fork_settings \<Rightarrow> slot \<Rightarrow> fork_name" where
  "getForkName c s = fi_name (getForkInfo c s)"

definition getForkVersion :: "fork_settings \<Rightarrow> slot \<Rightarrow> bytes" where
  "getForkVersion c s = fi_version (getForkInfo c s)"

section \<open>Domains and digests\<close>

record config_lib =
  forkDataHashTreeRoot :: "bytes \<Rightarrow> root \<Rightarrow> root"
  sszToHexString :: "bytes \<Rightarrow> string"

definition computeForkDataRoot :: "config_lib \<Rightarrow> bytes \<Rightarrow> root \<Rightarrow> root" where
  "computeForkDataRoot lib currentVersion genesisValidatorsRoot =
     forkDataHashTreeRoot lib currentVersion genesisValidatorsRoot"

definition computeDomain :: "config_lib \<Rightarrow> bytes \<Rightarrow> bytes \<Rightarrow> root \<Rightarrow> bytes" where
  "computeDomain lib domainType forkVersion genesisValidatorRoot =
     (let forkDataRoot = computeForkDataRoot lib forkVersion genesisValidatorRoot
      in setBytes (take 28 forkDataRoot) 4 (setBytes domainType 0 (replicate 32 0)))"

definition computeForkDigest :: "config_lib \<Rightarrow> bytes \<Rightarrow> root \<Rightarrow> bytes" where
  "computeForkDigest lib currentVersion genesisValidatorsRoot =
     take 4 (computeForkDataRoot lib currentVersion genesisValidatorsRoot)"

definition strip0xPrefix :: "string \<Rightarrow> string" where
  "strip0xPrefix hex = (if take 2 hex = ''0x'' then drop 2 hex else hex)"

datatype hex_or_bytes = IsHex string | IsBytes bytes

fun toHexStringNoPrefix :: "config_lib \<Rightarrow> hex_or_bytes \<Rightarrow> string" where
  "toHexStringNoPrefix lib (IsHex hex) = strip0xPrefix hex"
| "toHexStringNoPrefix lib (IsBytes bs) = strip0xPrefix (sszToHexString lib bs)"

section \<open>The cached genesis\<close>

text \<open>
  The closure of \<open>createICachedGenesis\<close>. A \<open>Map\<close> with arrays as keys compares references; every domain
  type is a constant of the program, so a key stands for its value here.
\<close>

record cached_genesis =
  cg_config :: fork_settings
  cg_genesisValidatorsRoot :: root
  domainCache :: "(fork_name, (bytes, bytes) jsmap) jsmap"
  forkDigestByForkName :: "(fork_name, bytes) jsmap"
  forkDigestHexByForkName :: "(fork_name, string) jsmap"
  forkNameByForkDigest :: "(string, fork_name) jsmap"

definition addForkDigest :: "config_lib \<Rightarrow> fork_info \<Rightarrow> cached_genesis \<Rightarrow> cached_genesis" where
  "addForkDigest lib fork g =
     (let forkDigest = computeForkDigest lib (fi_version fork) (cg_genesisValidatorsRoot g);
          forkDigestHex = toHexStringNoPrefix lib (IsBytes forkDigest)
      in g\<lparr>forkNameByForkDigest := jm_set forkDigestHex (fi_name fork) (forkNameByForkDigest g),
           forkDigestByForkName := jm_set (fi_name fork) forkDigest (forkDigestByForkName g),
           forkDigestHexByForkName := jm_set (fi_name fork) forkDigestHex (forkDigestHexByForkName g)\<rparr>)"

definition createICachedGenesis :: "config_lib \<Rightarrow> fork_settings \<Rightarrow> root \<Rightarrow> cached_genesis" where
  "createICachedGenesis lib c genesisValidatorsRoot =
     fold (addForkDigest lib) (forks c)
       \<lparr>cg_config = c, cg_genesisValidatorsRoot = genesisValidatorsRoot, domainCache = [],
        forkDigestByForkName = [], forkDigestHexByForkName = [], forkNameByForkDigest = []\<rparr>"

definition getDomain :: "config_lib \<Rightarrow> bytes \<Rightarrow> slot \<Rightarrow> cached_genesis \<Rightarrow> bytes \<times> cached_genesis" where
  "getDomain lib domainType s g =
     (let forkInfo = getForkInfo (cg_config g) s;
          domainByType = (case jm_get (domainCache g) (fi_name forkInfo) of None \<Rightarrow> [] | Some m \<Rightarrow> m)
      in case jm_get domainByType domainType of
           Some domain \<Rightarrow> (domain, g)
         | None \<Rightarrow>
             (let domain = computeDomain lib domainType (fi_version forkInfo) (cg_genesisValidatorsRoot g)
              in (domain, g\<lparr>domainCache :=
                   jm_set (fi_name forkInfo) (jm_set domainType domain domainByType) (domainCache g)\<rparr>)))"

text \<open>\<open>None\<close> is \<open>null\<close> for the function named Option and an exception for the others.\<close>

definition forkDigest2ForkName :: "config_lib \<Rightarrow> cached_genesis \<Rightarrow> hex_or_bytes \<Rightarrow> fork_name option" where
  "forkDigest2ForkName lib g forkDigest = jm_get (forkNameByForkDigest g) (toHexStringNoPrefix lib forkDigest)"

definition forkDigest2ForkNameOption :: "config_lib \<Rightarrow> cached_genesis \<Rightarrow> hex_or_bytes \<Rightarrow> fork_name option" where
  "forkDigest2ForkNameOption lib g forkDigest = jm_get (forkNameByForkDigest g) (toHexStringNoPrefix lib forkDigest)"

definition forkName2ForkDigest :: "cached_genesis \<Rightarrow> fork_name \<Rightarrow> bytes option" where
  "forkName2ForkDigest g forkName = jm_get (forkDigestByForkName g) forkName"

definition forkName2ForkDigestHex :: "config_lib \<Rightarrow> cached_genesis \<Rightarrow> fork_name \<Rightarrow> string option" where
  "forkName2ForkDigestHex lib g forkName =
     (case jm_get (forkDigestHexByForkName g) forkName of
        None \<Rightarrow> None
      | Some hex \<Rightarrow> if hex = [] then None else Some (toHexStringNoPrefix lib (IsHex hex)))"

section \<open>The active fork\<close>

lemma length_computeDomain: "length d = 4 \<Longrightarrow> 28 \<le> length (computeForkDataRoot lib v r) \<Longrightarrow>
    computeDomain lib d v r = d @ take 28 (computeForkDataRoot lib v r)"
  by (simp add: computeDomain_def setBytes_def Let_def)

text \<open>With the schedule in order, the active fork is the latest one whose epoch has come.\<close>

lemma getForkInfo_active: "getForkInfo c s \<in> set (forks c) \<and>
    fi_epoch (getForkInfo c s) \<le> enat (s div SLOTS_PER_EPOCH)"
  by (auto simp: getForkInfo_def forksDescendingEpochOrder_def forks_def GENESIS_EPOCH_def zero_enat_def [symmetric])

lemma getForkInfo_latest:
  assumes "ALTAIR_FORK_EPOCH c \<le> BELLATRIX_FORK_EPOCH c" "f \<in> set (forks c)" "fi_epoch f \<le> enat (s div SLOTS_PER_EPOCH)"
  shows "fi_epoch f \<le> fi_epoch (getForkInfo c s)"
  using assms by (auto simp: getForkInfo_def forksDescendingEpochOrder_def forks_def GENESIS_EPOCH_def zero_enat_def [symmetric])

lemma forks_names: "f \<in> set (forks c) \<Longrightarrow> f' \<in> set (forks c) \<Longrightarrow> fi_name f = fi_name f' \<Longrightarrow> f = f'"
  by (auto simp: forks_def)

section \<open>Domains\<close>

text \<open>The cache holds nothing but what would be computed.\<close>

definition domains_ok :: "config_lib \<Rightarrow> cached_genesis \<Rightarrow> bool" where
  "domains_ok lib g \<longleftrightarrow> (\<forall>f \<in> set (forks (cg_config g)). \<forall>m d domain.
     jm_get (domainCache g) (fi_name f) = Some m \<longrightarrow> jm_get m d = Some domain \<longrightarrow>
     domain = computeDomain lib d (fi_version f) (cg_genesisValidatorsRoot g))"

lemma getDomain_value:
  assumes "domains_ok lib g"
  shows "fst (getDomain lib d s g) = computeDomain lib d (getForkVersion (cg_config g) s) (cg_genesisValidatorsRoot g)"
proof -
  have "domain = computeDomain lib d (fi_version (getForkInfo (cg_config g) s)) (cg_genesisValidatorsRoot g)"
    if "jm_get (domainCache g) (fi_name (getForkInfo (cg_config g) s)) = Some m" "jm_get m d = Some domain" for m domain
    using assms that getForkInfo_active by (simp add: domains_ok_def)
  then show ?thesis
    by (auto simp: getDomain_def Let_def getForkVersion_def split: option.splits)
qed

lemma getDomain_keeps:
  assumes "domains_ok lib g"
  shows "domains_ok lib (snd (getDomain lib d s g)) \<and> cg_config (snd (getDomain lib d s g)) = cg_config g \<and>
    cg_genesisValidatorsRoot (snd (getDomain lib d s g)) = cg_genesisValidatorsRoot g"
proof -
  let ?f = "getForkInfo (cg_config g) s"
  have "fi_version f = fi_version ?f" if "f \<in> set (forks (cg_config g))" "fi_name f = fi_name ?f" for f
    using forks_names that getForkInfo_active by metis
  with assms show ?thesis
    by (auto simp: getDomain_def Let_def domains_ok_def split: option.splits if_splits)
qed

definition getDomains :: "config_lib \<Rightarrow> (bytes \<times> slot) list \<Rightarrow> cached_genesis \<Rightarrow> cached_genesis" where
  "getDomains lib calls g = fold (\<lambda>(d, s) g. snd (getDomain lib d s g)) calls g"

lemma getDomains_keeps: "domains_ok lib g \<Longrightarrow> domains_ok lib (getDomains lib calls g) \<and>
    cg_config (getDomains lib calls g) = cg_config g \<and>
    cg_genesisValidatorsRoot (getDomains lib calls g) = cg_genesisValidatorsRoot g"
proof (induction calls arbitrary: g)
  case (Cons call calls)
  obtain d s where "call = (d, s)" by (cases call)
  with Cons getDomain_keeps [of lib g d s] show ?case
    by (simp add: getDomains_def)
qed (simp add: getDomains_def)

lemma createICachedGenesis_ok: "domains_ok lib (createICachedGenesis lib c r) \<and>
    cg_config (createICachedGenesis lib c r) = c \<and> cg_genesisValidatorsRoot (createICachedGenesis lib c r) = r"
  by (simp add: createICachedGenesis_def forks_def addForkDigest_def Let_def domains_ok_def)

text \<open>
  Whatever domains were asked for before, getDomain returns the domain computed from the version of the
  fork that is active at the slot, the latest of the schedule whose epoch has come; the four bytes of
  the domain type come first, so that domains of different types differ, and a domain of 4 + 28 bytes tells forks
  apart as far as 28 bytes of the root of their fork data do.
\<close>

theorem getDomain_active:
  assumes "ALTAIR_FORK_EPOCH c \<le> BELLATRIX_FORK_EPOCH c" "length d = 4"
    "\<And>v. length (forkDataHashTreeRoot lib v r) = 32"
  shows "\<exists>f \<in> set (forks c). fi_epoch f \<le> enat (s div SLOTS_PER_EPOCH) \<and>
    (\<forall>f' \<in> set (forks c). fi_epoch f' \<le> enat (s div SLOTS_PER_EPOCH) \<longrightarrow> fi_epoch f' \<le> fi_epoch f) \<and>
    fst (getDomain lib d s (getDomains lib calls (createICachedGenesis lib c r))) =
      d @ take 28 (forkDataHashTreeRoot lib (fi_version f) r)"
proof (intro bexI conjI ballI impI)
  let ?g = "getDomains lib calls (createICachedGenesis lib c r)"
  have "domains_ok lib ?g" "cg_config ?g = c" "cg_genesisValidatorsRoot ?g = r"
    using getDomains_keeps createICachedGenesis_ok by metis+
  then show "fst (getDomain lib d s ?g) = d @ take 28 (forkDataHashTreeRoot lib (fi_version (getForkInfo c s)) r)"
    using length_computeDomain [OF assms(2)] assms(3)
    by (simp add: getDomain_value getForkVersion_def computeForkDataRoot_def)
qed (use getForkInfo_active getForkInfo_latest [OF assms(1)] in \<open>blast+\<close>)

section \<open>Digests\<close>

definition digestHex :: "config_lib \<Rightarrow> root \<Rightarrow> fork_info \<Rightarrow> string" where
  "digestHex lib r f = toHexStringNoPrefix lib (IsBytes (computeForkDigest lib (fi_version f) r))"

lemma createICachedGenesis_maps:
  "jm_get (forkDigestByForkName (createICachedGenesis lib c r)) (fi_name f) =
     Some (computeForkDigest lib (fi_version f) r)"
  "jm_get (forkDigestHexByForkName (createICachedGenesis lib c r)) (fi_name f) = Some (digestHex lib r f)"
  if "f \<in> set (forks c)"
  using that by (auto simp: createICachedGenesis_def forks_def addForkDigest_def Let_def digestHex_def)

lemma createICachedGenesis_names:
  "jm_get (forkNameByForkDigest (createICachedGenesis lib c r)) hex =
     map_option fi_name (find (\<lambda>f. digestHex lib r f = hex) (forksDescendingEpochOrder c))"
  by (auto simp: createICachedGenesis_def forks_def forksDescendingEpochOrder_def addForkDigest_def Let_def digestHex_def)

lemma find_unique:
  assumes "\<And>y z. y \<in> set xs \<Longrightarrow> z \<in> set xs \<Longrightarrow> P y \<Longrightarrow> P z \<Longrightarrow> y = z"
  shows "find P xs = Some x \<longleftrightarrow> x \<in> set xs \<and> P x"
  using assms
proof (induction xs)
  case (Cons a xs)
  show ?case
  proof (cases "P a")
    case True
    with Cons.prems [of a x] show ?thesis by auto
  next
    case False
    with Cons show ?thesis by auto
  qed
qed simp

text \<open>
  When the digests of the forks are different as strings, name and digest convert into each other: the
  digest of a fork names that fork, in bytes, as a string with or without prefix, and a digest that
  names a fork is the digest of that fork; every fork has a digest.
\<close>

theorem forkDigest_roundtrip:
  assumes "distinct (map (digestHex lib r) (forks c))" "f \<in> set (forks c)"
    "digestHex lib r f \<noteq> []" "strip0xPrefix (digestHex lib r f) = digestHex lib r f"
  shows "(\<exists>digest hex. forkName2ForkDigest (createICachedGenesis lib c r) (fi_name f) = Some digest \<and>
      forkName2ForkDigestHex lib (createICachedGenesis lib c r) (fi_name f) = Some hex \<and>
      forkDigest2ForkName lib (createICachedGenesis lib c r) (IsBytes digest) = Some (fi_name f) \<and>
      forkDigest2ForkName lib (createICachedGenesis lib c r) (IsHex hex) = Some (fi_name f) \<and>
      forkDigest2ForkName lib (createICachedGenesis lib c r) (IsHex (''0x'' @ hex)) = Some (fi_name f)) \<and>
    (forkDigest2ForkNameOption lib (createICachedGenesis lib c r) x = Some (fi_name f) \<longrightarrow>
      toHexStringNoPrefix lib x = digestHex lib r f)"
proof -
  have "set (forksDescendingEpochOrder c) = set (forks c)"
    by (simp add: forksDescendingEpochOrder_def)
  with assms(1) have find: "find (\<lambda>g. digestHex lib r g = hex) (forksDescendingEpochOrder c) = Some g \<longleftrightarrow>
      g \<in> set (forks c) \<and> digestHex lib r g = hex" for g hex
    by (subst find_unique) (auto simp: distinct_map inj_on_def)
  let ?g = "createICachedGenesis lib c r" and ?digest = "computeForkDigest lib (fi_version f) r"
  have name: "forkDigest2ForkName lib ?g y = Some (fi_name f)" if "toHexStringNoPrefix lib y = digestHex lib r f" for y
    using find [of "digestHex lib r f" f] assms(2) that
    by (simp add: forkDigest2ForkName_def createICachedGenesis_names)
  have "forkName2ForkDigest ?g (fi_name f) = Some ?digest"
    "forkName2ForkDigestHex lib ?g (fi_name f) = Some (digestHex lib r f)"
    using assms(3,4) by (simp_all add: forkName2ForkDigest_def forkName2ForkDigestHex_def
      createICachedGenesis_maps [OF assms(2)])
  moreover have "forkDigest2ForkName lib ?g (IsBytes ?digest) = Some (fi_name f)"
    by (rule name) (simp only: digestHex_def)
  moreover have "forkDigest2ForkName lib ?g (IsHex (digestHex lib r f)) = Some (fi_name f)"
    "forkDigest2ForkName lib ?g (IsHex (''0x'' @ digestHex lib r f)) = Some (fi_name f)"
    using assms(4) by (simp_all add: name) (simp add: name strip0xPrefix_def)
  moreover have "toHexStringNoPrefix lib x = digestHex lib r f"
    if "forkDigest2ForkNameOption lib ?g x = Some (fi_name f)"
  proof -
    from that obtain h where h: "find (\<lambda>g. digestHex lib r g = toHexStringNoPrefix lib x) (forksDescendingEpochOrder c) = Some h"
      "fi_name h = fi_name f"
      by (auto simp: forkDigest2ForkNameOption_def createICachedGenesis_names)
    with find forks_names assms(2) show ?thesis
      by metis
  qed
  ultimately show ?thesis
    by blast
qed

end
