(* ===== verification/LightClientValidation.thy ===== *)
theory LightClientValidation
  imports ForkConfig
begin

text \<open>
  Data, utilities and update validation of the light client (\<open>packages/light-client/src\<close>:
  \<open>validation.ts\<close>, \<open>utils\<close>). Hashing, SSZ roots and BLS are a parameter.
\<close>

section \<open>Constants\<close>

definition SYNC_COMMITTEE_SIZE :: nat where
  "SYNC_COMMITTEE_SIZE = 512"

definition MIN_SYNC_COMMITTEE_PARTICIPANTS :: nat where
  "MIN_SYNC_COMMITTEE_PARTICIPANTS = 1"

definition FINALIZED_ROOT_DEPTH :: nat where
  "FINALIZED_ROOT_DEPTH = 6"

definition FINALIZED_ROOT_INDEX :: nat where
  "FINALIZED_ROOT_INDEX = 41"

definition NEXT_SYNC_COMMITTEE_DEPTH :: nat where
  "NEXT_SYNC_COMMITTEE_DEPTH = 5"

definition NEXT_SYNC_COMMITTEE_INDEX :: nat where
  "NEXT_SYNC_COMMITTEE_INDEX = 23"

definition DOMAIN_SYNC_COMMITTEE :: bytes where
  "DOMAIN_SYNC_COMMITTEE = [7, 0, 0, 0]"

definition ZERO_HASH :: root where
  "ZERO_HASH = replicate 32 0"

definition MAX_CLOCK_DISPARITY_SEC :: int where
  "MAX_CLOCK_DISPARITY_SEC = 12"

definition MAX_PERIODS_PER_REQUEST :: int where
  "MAX_PERIODS_PER_REQUEST = 32"

definition MAX_STORED_SYNC_COMMITTEES :: nat where
  "MAX_STORED_SYNC_COMMITTEES = 2"

definition MAX_STORED_PARTICIPATION :: nat where
  "MAX_STORED_PARTICIPATION = 3"

definition SAFETY_THRESHOLD_FACTOR :: nat where
  "SAFETY_THRESHOLD_FACTOR = 2"

definition CURRENT_SYNC_COMMITTEE_INDEX :: nat where
  "CURRENT_SYNC_COMMITTEE_INDEX = 22"

definition CURRENT_SYNC_COMMITTEE_DEPTH :: nat where
  "CURRENT_SYNC_COMMITTEE_DEPTH = 5"

section \<open>Data\<close>

record block_header =
  bh_slot :: slot
  bh_proposerIndex :: nat
  bh_parentRoot :: root
  bh_stateRoot :: root
  bh_bodyRoot :: root

record sync_committee =
  sc_pubkeys :: "bytes list"
  sc_aggregatePubkey :: bytes

record sync_aggregate =
  syncCommitteeBits :: "bool list"
  syncCommitteeSignature :: bytes

record root_checkpoint =
  rc_epoch :: epoch
  rc_root :: root

record light_client_update =
  attestedHeader :: block_header
  nextSyncCommittee :: sync_committee
  nextSyncCommitteeBranch :: "bytes list"
  finalizedHeader :: block_header
  finalityBranch :: "bytes list"
  syncAggregate :: sync_aggregate
  forkVersion :: bytes

record 'pk sync_committee_fast =
  pubkeys :: "'pk list"
  aggregatePubkey :: 'pk

record update_stats =
  us_isFinalized :: bool
  us_participation :: nat
  us_slot :: slot

text \<open>
  The external libraries, as a parameter: the roots of the SSZ library, the hash of the Merkle tree
  library and the BLS library. \<open>None\<close> is an exception. The configuration of the chain comes with them;
  its cache of domains, which does not change what \<open>getDomain\<close> returns, is not passed on.
\<close>

record 'pk lc_lib =
  headerRoot :: "block_header \<Rightarrow> root"
  syncCommitteeRoot :: "sync_committee \<Rightarrow> root"
  signingDataRoot :: "root \<Rightarrow> bytes \<Rightarrow> root"
  hash2 :: "bytes \<Rightarrow> bytes \<Rightarrow> bytes"
  lib_config :: config_lib
  lib_genesis :: cached_genesis
  pubkeyFromBytes :: "bytes \<Rightarrow> 'pk option"
  aggregatePubkeys :: "'pk list \<Rightarrow> 'pk option"
  verifySignature :: "bytes \<Rightarrow> 'pk \<Rightarrow> bytes \<Rightarrow> bool option"

datatype lc_error =
    SlotTooFarInFuture slot int
  | UpdateRollsBack
  | NoSyncCommitteeForPeriod nat
  | WrongBranchLength
  | BranchNotZeroed
  | MissingBranchNode
  | InvalidFinalityBranch
  | FinalityPeriodMismatch nat nat
  | InvalidSyncCommitteeBranch
  | NoPubkeyForBit nat
  | NotSufficientParticipants
  | BlsError
  | InvalidAggregateSignature
  | ParticipationTooLow nat nat
  | SnapshotHeaderMismatch
  | SnapshotCommitteeMismatch
  | ApiError

section \<open>Utilities\<close>

definition sumBits :: "bool list \<Rightarrow> nat" where
  "sumBits bits = fold (\<lambda>b sum. if b then sum + 1 else sum) bits 0"

definition isZeroHash :: "root \<Rightarrow> bool" where
  "isZeroHash r = list_all (\<lambda>b. b = 0) r"

definition assertZeroHashes :: "root list \<Rightarrow> nat \<Rightarrow> lc_error + unit" where
  "assertZeroHashes rootArray expectedLength =
     (if length rootArray \<noteq> expectedLength then Inl WrongBranchLength
      else if \<not> list_all isZeroHash rootArray then Inl BranchNotZeroed else Inr ())"

fun participantsFrom :: "nat \<Rightarrow> 'pk list \<Rightarrow> bool list \<Rightarrow> lc_error + 'pk list" where
  "participantsFrom i pks [] = Inr []"
| "participantsFrom i pks (b # bits) =
     (if b
      then (case nth_opt pks i of
              None \<Rightarrow> Inl (NoPubkeyForBit i)
            | Some pk \<Rightarrow> bind_res (participantsFrom (Suc i) pks bits) (\<lambda>rest. Inr (pk # rest)))
      else participantsFrom (Suc i) pks bits)"

definition getParticipantPubkeys :: "'pk list \<Rightarrow> bool list \<Rightarrow> lc_error + 'pk list" where
  "getParticipantPubkeys pks bits = participantsFrom 0 pks bits"

definition emptyHeader :: block_header where
  "emptyHeader = \<lparr>bh_slot = 0, bh_proposerIndex = 0, bh_parentRoot = replicate 32 0,
     bh_stateRoot = replicate 32 0, bh_bodyRoot = replicate 32 0\<rparr>"

definition isEmptyHeader :: "block_header \<Rightarrow> bool" where
  "isEmptyHeader header = (emptyHeader = header)"

fun deserializePubkeys :: "'pk lc_lib \<Rightarrow> bytes list \<Rightarrow> lc_error + 'pk list" where
  "deserializePubkeys lib [] = Inr []"
| "deserializePubkeys lib (b # bs) =
     (case pubkeyFromBytes lib b of
        None \<Rightarrow> Inl BlsError
      | Some pk \<Rightarrow> bind_res (deserializePubkeys lib bs) (\<lambda>pks. Inr (pk # pks)))"

definition deserializeSyncCommittee :: "'pk lc_lib \<Rightarrow> sync_committee \<Rightarrow> lc_error + 'pk sync_committee_fast" where
  "deserializeSyncCommittee lib sc =
     bind_res (deserializePubkeys lib (sc_pubkeys sc)) (\<lambda>pks.
       case pubkeyFromBytes lib (sc_aggregatePubkey sc) of
         None \<Rightarrow> Inl BlsError
       | Some agg \<Rightarrow> Inr \<lparr>pubkeys = pks, aggregatePubkey = agg\<rparr>)"

text \<open>\<open>Some\<close> of the new update statistics is better.\<close>

definition isBetterUpdate :: "update_stats \<Rightarrow> update_stats \<Rightarrow> bool" where
  "isBetterUpdate prev next =
     (if \<not> us_isFinalized prev \<and> us_isFinalized next \<and> us_participation next * 3 > SYNC_COMMITTEE_SIZE * 2 then True
      else if us_participation prev > us_participation next then False
      else if us_participation prev < us_participation next then True
      else us_slot prev > us_slot next)"

text \<open>\<open>pruneSetToMax\<close> deletes keys in insertion order; it returns how many.\<close>

fun pruneKeys :: "'k list \<Rightarrow> nat \<Rightarrow> ('k, 'v) jsmap \<Rightarrow> ('k, 'v) jsmap" where
  "pruneKeys [] n m = m"
| "pruneKeys (k # ks) n m =
     (let m' = jm_delete k m in if n - 1 = 0 then m' else pruneKeys ks (n - 1) m')"

definition pruneSetToMax :: "nat \<Rightarrow> ('k, 'v) jsmap \<Rightarrow> ('k, 'v) jsmap" where
  "pruneSetToMax maxItems m =
     (let itemsToDelete = jm_size m - maxItems
      in if itemsToDelete > 0 then pruneKeys (jm_keys m) itemsToDelete m else m)"

text \<open>\<open>Math.ceil\<close> of a quotient, then the chunks one by one.\<close>

definition ceilDiv :: "int \<Rightarrow> int \<Rightarrow> int" where
  "ceilDiv a b = - ((- a) div b)"

fun chunksFrom :: "nat \<Rightarrow> nat \<Rightarrow> int \<Rightarrow> int \<Rightarrow> int \<Rightarrow> (int \<times> int) list" where
  "chunksFrom 0 i a b n = []"
| "chunksFrom (Suc count) i a b n =
     (let lo = a + int i * n; hi = min (a + (int i + 1) * n - 1) b
      in if hi \<ge> b then [(lo, hi)] else (lo, hi) # chunksFrom count (Suc i) a b n)"

definition chunkifyInclusiveRange :: "int \<Rightarrow> int \<Rightarrow> int \<Rightarrow> (int \<times> int) list" where
  "chunkifyInclusiveRange a b itemsPerChunk =
     (let n = (if itemsPerChunk < 1 then 1 else itemsPerChunk);
          totalItems = b - a + 1;
          chunkCount = max (ceilDiv totalItems n) 1
      in chunksFrom (nat chunkCount) 0 a b n)"

text \<open>The clock: \<open>now\<close> is \<open>Date.now()\<close> in milliseconds, the genesis time is in seconds.\<close>

definition getCurrentSlot :: "nat \<Rightarrow> int \<Rightarrow> int \<Rightarrow> int" where
  "getCurrentSlot secondsPerSlot genesisTime now =
     \<lfloor>(of_int now / 1000 - of_int genesisTime) / (of_nat secondsPerSlot :: rat)\<rfloor>"

definition slotWithFutureTolerance :: "nat \<Rightarrow> int \<Rightarrow> int \<Rightarrow> int \<Rightarrow> int" where
  "slotWithFutureTolerance secondsPerSlot genesisTime toleranceSec now =
     getCurrentSlot secondsPerSlot (genesisTime - toleranceSec) now"

section \<open>Validation\<close>

definition siblingOnLeft :: "nat \<Rightarrow> nat \<Rightarrow> bool" where
  "siblingOnLeft index i = (index div 2 ^ i mod 2 \<noteq> 0)"

text \<open>The loop over the branch; a branch that is too short makes the hash throw.\<close>

fun branchRoot :: "'pk lc_lib \<Rightarrow> bytes list \<Rightarrow> nat \<Rightarrow> nat \<Rightarrow> nat \<Rightarrow> bytes \<Rightarrow> lc_error + bytes" where
  "branchRoot lib branch 0 i index v = Inr v"
| "branchRoot lib branch (Suc n) i index v =
     (case nth_opt branch i of
        None \<Rightarrow> Inl MissingBranchNode
      | Some p \<Rightarrow>
          branchRoot lib branch n (Suc i) index
            (if siblingOnLeft index i then hash2 lib p v else hash2 lib v p))"

definition isValidMerkleBranch :: "'pk lc_lib \<Rightarrow> bytes \<Rightarrow> bytes list \<Rightarrow> nat \<Rightarrow> nat \<Rightarrow> root \<Rightarrow> lc_error + bool" where
  "isValidMerkleBranch lib leaf branch depth index r =
     bind_res (branchRoot lib branch depth 0 index leaf) (\<lambda>v. Inr (v = r))"

definition activeHeader :: "light_client_update \<Rightarrow> block_header" where
  "activeHeader u = (if \<not> isEmptyHeader (finalizedHeader u) then finalizedHeader u else attestedHeader u)"

definition assertValidFinalityProof :: "'pk lc_lib \<Rightarrow> light_client_update \<Rightarrow> lc_error + unit" where
  "assertValidFinalityProof lib u =
     bind_res (isValidMerkleBranch lib (headerRoot lib (finalizedHeader u)) (finalityBranch u)
       FINALIZED_ROOT_DEPTH FINALIZED_ROOT_INDEX (bh_stateRoot (attestedHeader u))) (\<lambda>valid.
     if \<not> valid then Inl InvalidFinalityBranch
     else let updatePeriod = computeSyncPeriodAtSlot (bh_slot (attestedHeader u));
              updateFinalityPeriod = computeSyncPeriodAtSlot (bh_slot (finalizedHeader u))
          in if updateFinalityPeriod \<noteq> updatePeriod then Inl (FinalityPeriodMismatch updateFinalityPeriod updatePeriod)
             else Inr ())"

definition assertValidSyncCommitteeProof :: "'pk lc_lib \<Rightarrow> light_client_update \<Rightarrow> lc_error + unit" where
  "assertValidSyncCommitteeProof lib u =
     bind_res (isValidMerkleBranch lib (syncCommitteeRoot lib (nextSyncCommittee u)) (nextSyncCommitteeBranch u)
       NEXT_SYNC_COMMITTEE_DEPTH NEXT_SYNC_COMMITTEE_INDEX (bh_stateRoot (activeHeader u))) (\<lambda>valid.
     if \<not> valid then Inl InvalidSyncCommitteeBranch else Inr ())"

definition isValidBlsAggregate :: "'pk lc_lib \<Rightarrow> 'pk list \<Rightarrow> bytes \<Rightarrow> bytes \<Rightarrow> lc_error + bool" where
  "isValidBlsAggregate lib publicKeys message signature =
     (case aggregatePubkeys lib publicKeys of
        None \<Rightarrow> Inl BlsError
      | Some aggPubkey \<Rightarrow> (case verifySignature lib signature aggPubkey message of None \<Rightarrow> Inl BlsError | Some b \<Rightarrow> Inr b))"

definition assertValidSignedHeader :: "'pk lc_lib \<Rightarrow> ('pk, 'x) sync_committee_fast_scheme \<Rightarrow> sync_aggregate
    \<Rightarrow> root \<Rightarrow> slot \<Rightarrow> lc_error + unit" where
  "assertValidSignedHeader lib sc agg signedHeaderRoot signedHeaderSlot =
     bind_res (getParticipantPubkeys (pubkeys sc) (syncCommitteeBits agg)) (\<lambda>participantPubkeys.
     if length participantPubkeys < MIN_SYNC_COMMITTEE_PARTICIPANTS then Inl NotSufficientParticipants
     else
       bind_res (isValidBlsAggregate lib participantPubkeys
         (signingDataRoot lib signedHeaderRoot (fst (getDomain (lib_config lib) DOMAIN_SYNC_COMMITTEE signedHeaderSlot (lib_genesis lib))))
         (syncCommitteeSignature agg)) (\<lambda>valid.
       if \<not> valid then Inl InvalidAggregateSignature else Inr ()))"

definition assertValidLightClientUpdate :: "'pk lc_lib \<Rightarrow> ('pk, 'x) sync_committee_fast_scheme
    \<Rightarrow> light_client_update \<Rightarrow> lc_error + unit" where
  "assertValidLightClientUpdate lib sc u =
     bind_res (if \<not> isEmptyHeader (finalizedHeader u) then assertValidFinalityProof lib u
               else assertZeroHashes (finalityBranch u) FINALIZED_ROOT_DEPTH) (\<lambda>_.
     bind_res (assertValidSyncCommitteeProof lib u) (\<lambda>_.
       assertValidSignedHeader lib sc (syncAggregate u) (headerRoot lib (attestedHeader u)) (bh_slot (attestedHeader u))))"

end
