(* ===== verification/LightClient.thy ===== *)
theory LightClient
  imports LightClientValidation
begin

text \<open>
  The class \<open>Lightclient\<close> (\<open>packages/light-client/src/index.ts\<close>): its state, construction from a
  snapshot, header and sync committee updates, sync and the run loop. The time of a call is an argument.
\<close>

section \<open>State\<close>

record 'pk stored_committee = "'pk sync_committee_fast" +
  st_isFinalized :: bool
  st_participation :: nat
  st_slot :: slot

definition statsOf :: "'pk stored_committee \<Rightarrow> update_stats" where
  "statsOf sc = \<lparr>us_isFinalized = st_isFinalized sc, us_participation = st_participation sc, us_slot = st_slot sc\<rparr>"

record lc_head =
  head_participation :: nat
  head_header :: block_header
  head_blockRoot :: root

datatype lc_event = HeadEvent block_header | CommitteeEvent nat

text \<open>The state of the class; the events are those its emitter has sent.\<close>

record 'pk lightclient =
  syncCommitteeByPeriod :: "(nat, 'pk stored_committee) jsmap"
  maxParticipationByPeriod :: "(nat, nat) jsmap"
  lc_head :: lc_head
  lc_events :: "lc_event list"

record lc_config =
  lc_SECONDS_PER_SLOT :: nat
  lc_genesisTime :: int

record lc_snapshot =
  sn_header :: block_header
  sn_currentSyncCommittee :: sync_committee
  sn_currentSyncCommitteeBranch :: "bytes list"

type_synonym ('pk, 'a) lc_st = "('pk lightclient, lc_error, 'a) st"

section \<open>Construction\<close>

definition storeCommittee :: "'pk sync_committee_fast \<Rightarrow> update_stats \<Rightarrow> 'pk stored_committee" where
  "storeCommittee sc st = \<lparr>pubkeys = pubkeys sc, aggregatePubkey = aggregatePubkey sc,
     st_isFinalized = us_isFinalized st, st_participation = us_participation st, st_slot = us_slot st\<rparr>"

definition new_Lightclient :: "'pk lc_lib \<Rightarrow> lc_snapshot \<Rightarrow> lc_error + 'pk lightclient" where
  "new_Lightclient lib snapshot =
     (let periodCurr = computeSyncPeriodAtSlot (bh_slot (sn_header snapshot)) in
      bind_res (deserializeSyncCommittee lib (sn_currentSyncCommittee snapshot)) (\<lambda>sc.
        Inr \<lparr>syncCommitteeByPeriod = jm_set periodCurr (storeCommittee sc
               \<lparr>us_isFinalized = False, us_participation = 0,
                us_slot = periodCurr * EPOCHS_PER_SYNC_COMMITTEE_PERIOD * SLOTS_PER_EPOCH\<rparr>) [],
             maxParticipationByPeriod = [],
             lc_head = \<lparr>head_participation = 0, head_header = sn_header snapshot,
               head_blockRoot = headerRoot lib (sn_header snapshot)\<rparr>,
             lc_events = []\<rparr>))"

text \<open>The snapshot is the answer of the node to the request for the checkpoint root.\<close>

definition initializeFromCheckpointRoot :: "'pk lc_lib \<Rightarrow> root \<Rightarrow> lc_snapshot \<Rightarrow> lc_error + 'pk lightclient" where
  "initializeFromCheckpointRoot lib checkpointRoot snapshot =
     (if checkpointRoot \<noteq> headerRoot lib (sn_header snapshot) then Inl SnapshotHeaderMismatch
      else bind_res (isValidMerkleBranch lib (syncCommitteeRoot lib (sn_currentSyncCommittee snapshot))
             (sn_currentSyncCommitteeBranch snapshot) CURRENT_SYNC_COMMITTEE_DEPTH CURRENT_SYNC_COMMITTEE_INDEX
             (bh_stateRoot (sn_header snapshot))) (\<lambda>valid.
        if \<not> valid then Inl SnapshotCommitteeMismatch else new_Lightclient lib snapshot))"

section \<open>processHeaderUpdate\<close>

text \<open>The larger of the two participations seen in this period and the one before, 0 by default.\<close>

definition participationOf :: "nat \<Rightarrow> 'pk lightclient \<Rightarrow> nat" where
  "participationOf period s =
     max (case jm_get (maxParticipationByPeriod s) period of Some n \<Rightarrow> n | None \<Rightarrow> 0)
         (if period = 0 then 0
          else case jm_get (maxParticipationByPeriod s) (period - 1) of Some n \<Rightarrow> n | None \<Rightarrow> 0)"

definition registerParticipation :: "nat \<Rightarrow> nat \<Rightarrow> 'pk lightclient \<Rightarrow> 'pk lightclient" where
  "registerParticipation period participation s =
     (if participation > participationOf period s
      then s\<lparr>maxParticipationByPeriod := pruneSetToMax MAX_STORED_PARTICIPATION
               (jm_set period participation (maxParticipationByPeriod s))\<rparr>
      else s)"

definition updatesHead :: "block_header \<Rightarrow> nat \<Rightarrow> 'pk lightclient \<Rightarrow> bool" where
  "updatesHead header participation s \<longleftrightarrow>
     bh_slot header > bh_slot (head_header (lc_head s)) \<or>
     (bh_slot header = bh_slot (head_header (lc_head s)) \<and> participation > head_participation (lc_head s))"

definition updateLcHead :: "'pk lc_lib \<Rightarrow> block_header \<Rightarrow> nat \<Rightarrow> 'pk lightclient \<Rightarrow> 'pk lightclient" where
  "updateLcHead lib header participation s =
     (if updatesHead header participation s
      then s\<lparr>lc_head := \<lparr>head_participation = participation, head_header = header,
               head_blockRoot = headerRoot lib header\<rparr>,
             lc_events := lc_events s @ [HeadEvent header]\<rparr>
      else s)"

definition processHeaderUpdate :: "'pk lc_lib \<Rightarrow> lc_config \<Rightarrow> int \<Rightarrow> block_header \<Rightarrow> sync_aggregate \<Rightarrow> ('pk, unit) lc_st" where
  "processHeaderUpdate lib cfg now header agg s =
     (let maxSlot = slotWithFutureTolerance (lc_SECONDS_PER_SLOT cfg) (lc_genesisTime cfg) MAX_CLOCK_DISPARITY_SEC now;
          period = computeSyncPeriodAtSlot (bh_slot header);
          participation = sumBits (syncCommitteeBits agg);
          minSafeParticipation = participationOf period s div SAFETY_THRESHOLD_FACTOR in
      if int (bh_slot header) > maxSlot then (Inl (SlotTooFarInFuture (bh_slot header) maxSlot), s)
      else case jm_get (syncCommitteeByPeriod s) period of
        None \<Rightarrow> (Inl (NoSyncCommitteeForPeriod period), s)
      | Some sc \<Rightarrow>
          (case assertValidSignedHeader lib sc agg (headerRoot lib header) (bh_slot header) of
             Inl e \<Rightarrow> (Inl e, s)
           | Inr _ \<Rightarrow>
               if participation < minSafeParticipation
               then (Inl (ParticipationTooLow participation minSafeParticipation), s)
               else (Inr (), updateLcHead lib header participation (registerParticipation period participation s))))"

section \<open>processSyncCommitteeUpdate\<close>

text \<open>
  \<open>Math.min(-Infinity, ...keys)\<close>, where \<open>None\<close> is \<open>-Infinity\<close>: with it among the arguments it is the
  minimum.
\<close>

fun minNumber :: "nat option \<Rightarrow> nat option \<Rightarrow> nat option" where
  "minNumber (Some a) (Some b) = Some (min a b)"
| "minNumber _ _ = None"

definition minPeriod :: "nat list \<Rightarrow> nat option" where
  "minPeriod ks = fold (\<lambda>k m. minNumber m (Some k)) ks None"

definition belowMinPeriod :: "nat \<Rightarrow> nat option \<Rightarrow> bool" where
  "belowMinPeriod p m = (case m of None \<Rightarrow> False | Some k \<Rightarrow> p < k)"

definition processSyncCommitteeUpdate :: "'pk lc_lib \<Rightarrow> lc_config \<Rightarrow> int \<Rightarrow> light_client_update \<Rightarrow> ('pk, unit) lc_st" where
  "processSyncCommitteeUpdate lib cfg now u s =
     (let updateSlot = bh_slot (activeHeader u);
          maxSlot = slotWithFutureTolerance (lc_SECONDS_PER_SLOT cfg) (lc_genesisTime cfg) MAX_CLOCK_DISPARITY_SEC now;
          updatePeriod = computeSyncPeriodAtSlot updateSlot in
      if int updateSlot > maxSlot then (Inl (SlotTooFarInFuture updateSlot maxSlot), s)
      else if belowMinPeriod updatePeriod (minPeriod (jm_keys (syncCommitteeByPeriod s))) then (Inl UpdateRollsBack, s)
      else case jm_get (syncCommitteeByPeriod s) updatePeriod of
        None \<Rightarrow> (Inl (NoSyncCommitteeForPeriod updatePeriod), s)
      | Some sc \<Rightarrow>
          (case assertValidLightClientUpdate lib sc u of
             Inl e \<Rightarrow> (Inl e, s)
           | Inr _ \<Rightarrow>
               let nextPeriod = updatePeriod + 1;
                   new = \<lparr>us_isFinalized = \<not> isEmptyHeader (finalizedHeader u),
                          us_participation = sumBits (syncCommitteeBits (syncAggregate u)),
                          us_slot = updateSlot\<rparr> in
               if (case jm_get (syncCommitteeByPeriod s) nextPeriod of None \<Rightarrow> True
                   | Some existing \<Rightarrow> isBetterUpdate (statsOf existing) new)
               then let s1 = s\<lparr>lc_events := lc_events s @ [CommitteeEvent updatePeriod]\<rparr> in
                 (case deserializeSyncCommittee lib (nextSyncCommittee u) of
                    Inl e \<Rightarrow> (Inl e, s1)
                  | Inr sc' \<Rightarrow> (Inr (), s1\<lparr>syncCommitteeByPeriod := pruneSetToMax MAX_STORED_SYNC_COMMITTEES
                      (jm_set nextPeriod (storeCommittee sc' new) (syncCommitteeByPeriod s))\<rparr>))
               else (Inr (), s)))"

section \<open>sync and events\<close>

text \<open>
  The node answers a range of periods with a list of updates or fails; each update comes with the time
  at which it is processed.
\<close>

fun processUpdates :: "'pk lc_lib \<Rightarrow> lc_config \<Rightarrow> (int \<times> light_client_update) list \<Rightarrow> ('pk, unit) lc_st" where
  "processUpdates lib cfg [] = ret_st ()"
| "processUpdates lib cfg ((now, u) # us) =
     bind_st (processSyncCommitteeUpdate lib cfg now u) (\<lambda>_. processUpdates lib cfg us)"

fun syncRanges :: "'pk lc_lib \<Rightarrow> lc_config \<Rightarrow> (int \<Rightarrow> int \<Rightarrow> (int \<times> light_client_update) list option)
    \<Rightarrow> (int \<times> int) list \<Rightarrow> ('pk, unit) lc_st" where
  "syncRanges lib cfg api [] = ret_st ()"
| "syncRanges lib cfg api ((lo, hi) # rs) =
     (case api lo hi of
        None \<Rightarrow> throw_st ApiError
      | Some updates \<Rightarrow> bind_st (processUpdates lib cfg updates) (\<lambda>_. syncRanges lib cfg api rs))"

definition lc_sync :: "'pk lc_lib \<Rightarrow> lc_config \<Rightarrow> (int \<Rightarrow> int \<Rightarrow> (int \<times> light_client_update) list option)
    \<Rightarrow> int \<Rightarrow> int \<Rightarrow> ('pk, unit) lc_st" where
  "lc_sync lib cfg api fromPeriod toPeriod =
     syncRanges lib cfg api (chunkifyInclusiveRange fromPeriod toPeriod MAX_PERIODS_PER_REQUEST)"

datatype sse_event = LightclientHeaderUpdate block_header sync_aggregate | OtherEvent

text \<open>Errors are logged, so only the state is left.\<close>

fun onSSE :: "'pk lc_lib \<Rightarrow> lc_config \<Rightarrow> int \<Rightarrow> sse_event \<Rightarrow> 'pk lightclient \<Rightarrow> 'pk lightclient" where
  "onSSE lib cfg now (LightclientHeaderUpdate header agg) s = snd (processHeaderUpdate lib cfg now header agg s)"
| "onSSE lib cfg now OtherEvent s = s"

section \<open>The run loop\<close>

text \<open>Slots, epochs and periods of the clock are negative before genesis.\<close>

definition lc_currentSlot :: "lc_config \<Rightarrow> int \<Rightarrow> int" where
  "lc_currentSlot cfg now = getCurrentSlot (lc_SECONDS_PER_SLOT cfg) (lc_genesisTime cfg) now"

definition clockEpoch :: "int \<Rightarrow> int" where
  "clockEpoch currentSlot = currentSlot div int SLOTS_PER_EPOCH"

definition clockPeriod :: "int \<Rightarrow> int" where
  "clockPeriod currentEpoch = currentEpoch div int EPOCHS_PER_SYNC_COMMITTEE_PERIOD"

text \<open>JavaScript's remainder has the sign of the dividend.\<close>

definition jsRem :: "int \<Rightarrow> int \<Rightarrow> int" where
  "jsRem a b = (if a < 0 then - ((- a) mod b) else a mod b)"

definition timeUntilNextEpoch :: "nat \<Rightarrow> int \<Rightarrow> int \<Rightarrow> int" where
  "timeUntilNextEpoch secondsPerSlot genesisTime now =
     (let miliSecondsPerEpoch = int SLOTS_PER_EPOCH * int secondsPerSlot * 1000;
          msFromGenesis = now - genesisTime * 1000
      in if msFromGenesis \<ge> 0 then miliSecondsPerEpoch - jsRem msFromGenesis miliSecondsPerEpoch
         else \<bar>jsRem msFromGenesis miliSecondsPerEpoch\<bar>)"

definition LOOKAHEAD_EPOCHS_COMMITTEE_SYNC :: int where
  "LOOKAHEAD_EPOCHS_COMMITTEE_SYNC = min 8 (ceilDiv (int EPOCHS_PER_SYNC_COMMITTEE_PERIOD) 2)"

datatype run_status = Started | Syncing | Stopped

text \<open>The client with its status; \<open>rn_tracking\<close> while the subscription to head updates is open.\<close>

record 'pk runner =
  rn_client :: "'pk lightclient"
  rn_status :: run_status
  rn_tracking :: bool

definition lc_stop :: "'pk runner \<Rightarrow> 'pk runner" where
  "lc_stop s = (if rn_status s \<noteq> Started then s else s\<lparr>rn_status := Stopped, rn_tracking := False\<rparr>)"

text \<open>
  What one turn of the loop meets: the times at which it reads the clock, the answers of the node, and
  whether \<open>stop\<close> is called while it waits for the second sync.
\<close>

type_synonym update_api = "int \<Rightarrow> int \<Rightarrow> (int \<times> light_client_update) list option"

record loop_env =
  le_now :: int
  le_api :: update_api
  le_headUpdate :: "(int \<times> block_header \<times> sync_aggregate) option"
  le_lookaheadNow :: int
  le_lookaheadApi :: update_api
  le_stop :: bool
  le_sleepNow :: int

datatype loop_result = Retry | SleepFor int | Returned

text \<open>The first part: sync when the committee of the clock's period is missing. \<open>False\<close> is \<open>continue\<close>.\<close>

definition syncToClock :: "'pk lc_lib \<Rightarrow> lc_config \<Rightarrow> loop_env \<Rightarrow> 'pk runner \<Rightarrow> bool \<times> 'pk runner" where
  "syncToClock lib cfg env s =
     (let currentPeriod = clockPeriod (clockEpoch (lc_currentSlot cfg (le_now env)));
          client = rn_client s in
      if 0 \<le> currentPeriod \<and> jm_has (syncCommitteeByPeriod client) (nat currentPeriod) then (True, s)
      else
        let s1 = s\<lparr>rn_status := Syncing, rn_tracking := rn_status s \<noteq> Started \<and> rn_tracking s\<rparr>;
            headPeriod = int (computeSyncPeriodAtSlot (bh_slot (head_header (lc_head client)))) in
        (case lc_sync lib cfg (le_api env) headPeriod currentPeriod client of
           (Inl e, c) \<Rightarrow> (False, s1\<lparr>rn_client := c\<rparr>)
         | (Inr _, c) \<Rightarrow>
             (True, s1\<lparr>rn_client :=
               (case le_headUpdate env of
                  None \<Rightarrow> c
                | Some (now, header, agg) \<Rightarrow> snd (processHeaderUpdate lib cfg now header agg c))\<rparr>)))"

definition trackHead :: "'pk runner \<Rightarrow> 'pk runner" where
  "trackHead s = (if rn_status s \<noteq> Started then s\<lparr>rn_status := Started, rn_tracking := True\<rparr> else s)"

definition syncLookahead :: "'pk lc_lib \<Rightarrow> lc_config \<Rightarrow> loop_env \<Rightarrow> 'pk runner \<Rightarrow> 'pk runner" where
  "syncLookahead lib cfg env s =
     (let currentEpoch = clockEpoch (lc_currentSlot cfg (le_lookaheadNow env));
          epochsIntoPeriod = jsRem currentEpoch (int EPOCHS_PER_SYNC_COMMITTEE_PERIOD) in
      if int EPOCHS_PER_SYNC_COMMITTEE_PERIOD - epochsIntoPeriod \<le> LOOKAHEAD_EPOCHS_COMMITTEE_SYNC
      then let period = clockPeriod currentEpoch;
               s1 = s\<lparr>rn_client := snd (lc_sync lib cfg (le_lookaheadApi env) period period (rn_client s))\<rparr>
           in if le_stop env then lc_stop s1 else s1
      else s)"

text \<open>One turn of \<open>runLoop\<close>.\<close>

definition runLoopTurn :: "'pk lc_lib \<Rightarrow> lc_config \<Rightarrow> loop_env \<Rightarrow> 'pk runner \<Rightarrow> loop_result \<times> 'pk runner" where
  "runLoopTurn lib cfg env s =
     (case syncToClock lib cfg env s of
        (False, s1) \<Rightarrow> (Retry, s1)
      | (True, s1) \<Rightarrow>
          (let s2 = syncLookahead lib cfg env (trackHead s1)
           in if rn_status s2 \<noteq> Started then (Returned, s2)
              else (SleepFor (timeUntilNextEpoch (lc_SECONDS_PER_SLOT cfg) (lc_genesisTime cfg) (le_sleepNow env)), s2)))"

end
