(* ===== verification/LightClientSpec.thy ===== *)
theory LightClientSpec
  imports LightClient
begin

text \<open>
  Runs of the light client: the committees it holds, the chain of trust under what it believes, which
  header updates it takes, and the correctness of Merkle branches and of the ranges it asks for.
\<close>

section \<open>Runs of the light client\<close>

text \<open>Any updates arrive in any order at any time; calls that throw are steps as well.\<close>

inductive lc_step :: "'pk lc_lib \<Rightarrow> lc_config \<Rightarrow> 'pk lightclient \<Rightarrow> 'pk lightclient \<Rightarrow> bool"
  for lib :: "'pk lc_lib" and cfg :: lc_config where
  header: "processHeaderUpdate lib cfg now header agg s = (res, s') \<Longrightarrow> lc_step lib cfg s s'"
| committee: "processSyncCommitteeUpdate lib cfg now u s = (res, s') \<Longrightarrow> lc_step lib cfg s s'"

inductive lc_reach :: "'pk lc_lib \<Rightarrow> lc_config \<Rightarrow> lc_snapshot \<Rightarrow> 'pk lightclient \<Rightarrow> bool"
  for lib :: "'pk lc_lib" and cfg :: lc_config and sn :: lc_snapshot where
  init: "new_Lightclient lib sn = Inr s \<Longrightarrow> lc_reach lib cfg sn s"
| step: "lc_reach lib cfg sn s \<Longrightarrow> lc_step lib cfg s s' \<Longrightarrow> lc_reach lib cfg sn s'"

inductive_cases lc_stepE: "lc_step lib cfg s s'"

lemma lc_step_cases:
  assumes "lc_step lib cfg s s'"
  shows "(\<exists>now header agg res. processHeaderUpdate lib cfg now header agg s = (res, s')) \<or>
    (\<exists>now u res. processSyncCommitteeUpdate lib cfg now u s = (res, s'))"
  using assms by (elim lc_stepE) blast+

section \<open>Maps\<close>

lemma jm_keys_set: "jm_keys (jm_set k v m) = (if k \<in> set (jm_keys m) then jm_keys m else jm_keys m @ [k])"
  by (induction m) (auto simp: jm_keys_def jm_set_def)

lemma jm_get_keys: "jm_get m k \<noteq> None \<longleftrightarrow> k \<in> set (jm_keys m)"
  by (simp add: jm_get_def jm_keys_def map_of_eq_None_iff)

lemma pruneKeys_drop: "jm_ok m \<Longrightarrow> 0 < n \<Longrightarrow> n \<le> length m \<Longrightarrow> pruneKeys (jm_keys m) n m = drop n m"
proof (induction m arbitrary: n)
  case (Cons x m)
  obtain k v where x: "x = (k, v)" by (cases x)
  have "jm_delete k (x # m) = m"
    using Cons.prems(1) by (simp add: x jm_ok_def jm_delete_def delete_notin_dom)
  with Cons show ?case
    by (cases "n - 1 = 0") (auto simp: x jm_keys_def jm_ok_def Let_def drop_Cons')
qed simp

lemma pruneSetToMax_drop: "jm_ok m \<Longrightarrow> pruneSetToMax n m = drop (length m - n) m"
  by (auto simp: pruneSetToMax_def Let_def jm_size_def pruneKeys_drop)

lemma jm_keys_drop: "jm_keys (drop n m) = drop n (jm_keys m)"
  by (simp add: jm_keys_def drop_map)

lemma jm_get_drop: "jm_ok m \<Longrightarrow> jm_get (drop n m) k = Some v \<Longrightarrow> jm_get m k = Some v"
  by (auto simp: jm_ok_def jm_get_def dest: map_of_SomeD in_set_dropD)

section \<open>Stored periods\<close>

text \<open>The client holds the committee of one period, or of two that follow each other.\<close>

definition lc_periods :: "nat \<Rightarrow> 'pk lightclient \<Rightarrow> bool" where
  "lc_periods p s \<longleftrightarrow> jm_keys (syncCommitteeByPeriod s) = [p] \<or> jm_keys (syncCommitteeByPeriod s) = [p, Suc p]"

lemma lc_periods_ok: "lc_periods p s \<Longrightarrow> jm_ok (syncCommitteeByPeriod s)"
  by (auto simp: lc_periods_def jm_ok_def jm_keys_def)

lemma processHeaderUpdate_cases:
  assumes "processHeaderUpdate lib cfg now header agg s = (res, s')"
  shows "(\<exists>e. res = Inl e) \<and> s' = s \<or>
    (\<exists>sc. res = Inr () \<and> int (bh_slot header) \<le> slotWithFutureTolerance (lc_SECONDS_PER_SLOT cfg) (lc_genesisTime cfg) MAX_CLOCK_DISPARITY_SEC now \<and>
      jm_get (syncCommitteeByPeriod s) (computeSyncPeriodAtSlot (bh_slot header)) = Some sc \<and>
      assertValidSignedHeader lib sc agg (headerRoot lib header) (bh_slot header) = Inr () \<and>
      participationOf (computeSyncPeriodAtSlot (bh_slot header)) s div SAFETY_THRESHOLD_FACTOR \<le> sumBits (syncCommitteeBits agg) \<and>
      s' = updateLcHead lib header (sumBits (syncCommitteeBits agg))
        (registerParticipation (computeSyncPeriodAtSlot (bh_slot header)) (sumBits (syncCommitteeBits agg)) s))"
proof (cases "jm_get (syncCommitteeByPeriod s) (computeSyncPeriodAtSlot (bh_slot header))")
  case None
  with assms show ?thesis
    unfolding processHeaderUpdate_def Let_def by (auto split: if_splits)
next
  case (Some sc)
  show ?thesis
  proof (cases "assertValidSignedHeader lib sc agg (headerRoot lib header) (bh_slot header)")
    case (Inl e)
    have "(\<exists>e. res = Inl e) \<and> s' = s"
      using assms Some Inl unfolding processHeaderUpdate_def Let_def by (cases res) (simp_all split: if_splits)
    then show ?thesis by blast
  next
    case (Inr x)
    with assms Some show ?thesis
      unfolding processHeaderUpdate_def Let_def by (auto simp: not_less split: if_splits)
  qed
qed

lemma header_keeps: "syncCommitteeByPeriod (updateLcHead lib h n (registerParticipation p n s)) = syncCommitteeByPeriod s"
  by (simp add: updateLcHead_def registerParticipation_def)

lemma minPeriod_None: "minPeriod ks = None"
proof -
  have "fold (\<lambda>k m. minNumber m (Some k)) ks None = None"
    by (induction ks) simp_all
  then show ?thesis by (simp add: minPeriod_def)
qed

text \<open>What a committee update may do to the map.\<close>

lemma processSyncCommitteeUpdate_cases:
  assumes "processSyncCommitteeUpdate lib cfg now u s = (res, s')"
  shows "lc_head s' = lc_head s \<and> maxParticipationByPeriod s' = maxParticipationByPeriod s \<and>
    (syncCommitteeByPeriod s' = syncCommitteeByPeriod s \<or>
     (\<exists>sc sc' st. jm_get (syncCommitteeByPeriod s) (computeSyncPeriodAtSlot (bh_slot (activeHeader u))) = Some sc \<and>
       assertValidLightClientUpdate lib sc u = Inr () \<and>
       deserializeSyncCommittee lib (nextSyncCommittee u) = Inr sc' \<and>
       syncCommitteeByPeriod s' = pruneSetToMax MAX_STORED_SYNC_COMMITTEES
         (jm_set (Suc (computeSyncPeriodAtSlot (bh_slot (activeHeader u)))) (storeCommittee sc' st) (syncCommitteeByPeriod s))))"
proof (cases "jm_get (syncCommitteeByPeriod s) (computeSyncPeriodAtSlot (bh_slot (activeHeader u)))")
  case None
  with assms have "s' = s"
    unfolding processSyncCommitteeUpdate_def Let_def by (simp split: if_splits)
  then show ?thesis by simp
next
  case (Some sc)
  show ?thesis
  proof (cases "assertValidLightClientUpdate lib sc u")
    case (Inl e)
    with assms Some have "s' = s"
      unfolding processSyncCommitteeUpdate_def Let_def by (simp split: if_splits)
    then show ?thesis by simp
  next
    case (Inr x)
    show ?thesis
    proof (cases "deserializeSyncCommittee lib (nextSyncCommittee u)")
      case e: (Inl e)
      with assms Some Inr have "s' = s \<or> s' = s\<lparr>lc_events := lc_events s @ [CommitteeEvent (computeSyncPeriodAtSlot (bh_slot (activeHeader u)))]\<rparr>"
        unfolding processSyncCommitteeUpdate_def Let_def by (auto split: if_splits)
      then show ?thesis by auto
    next
      case d: (Inr sc')
      define m where "m st = pruneSetToMax MAX_STORED_SYNC_COMMITTEES
         (jm_set (Suc (computeSyncPeriodAtSlot (bh_slot (activeHeader u)))) (storeCommittee sc' st) (syncCommitteeByPeriod s))" for st
      have "s' = s \<or> (\<exists>st. s' = s\<lparr>lc_events := lc_events s @ [CommitteeEvent (computeSyncPeriodAtSlot (bh_slot (activeHeader u)))],
          syncCommitteeByPeriod := m st\<rparr>)"
        using assms Some Inr d unfolding processSyncCommitteeUpdate_def Let_def
        by (auto simp: m_def split: if_splits)
      then show ?thesis
        using Some Inr d by (auto simp: m_def [symmetric])
    qed
  qed
qed

lemma lc_step_periods:
  assumes "lc_periods p s" "lc_step lib cfg s s'"
  shows "lc_periods p s' \<or> lc_periods (Suc p) s'"
proof -
  let ?q = "\<lambda>u. computeSyncPeriodAtSlot (bh_slot (activeHeader u))" and ?m = "syncCommitteeByPeriod s"
  consider (same) "syncCommitteeByPeriod s' = ?m"
    | (new) u sc sc' st where "jm_get ?m (?q u) = Some sc" "syncCommitteeByPeriod s' =
        pruneSetToMax MAX_STORED_SYNC_COMMITTEES (jm_set (Suc (?q u)) (storeCommittee sc' st) ?m)"
    using lc_step_cases [OF assms(2)] processHeaderUpdate_cases processSyncCommitteeUpdate_cases header_keeps by metis
  then show ?thesis
  proof cases
    case same
    with assms(1) show ?thesis by (simp add: lc_periods_def)
  next
    case new
    let ?n = "jm_set (Suc (?q u)) (storeCommittee sc' st) ?m"
    have ok: "jm_ok ?n"
      by (rule jm_ok_set) (rule lc_periods_ok [OF assms(1)])
    have len: "length ?n = length (jm_keys ?n)"
      by (simp add: jm_keys_def)
    have "jm_keys (syncCommitteeByPeriod s') = (let ks = jm_keys ?n in drop (length ks - 2) ks)"
      using ok by (simp add: new(2) pruneSetToMax_drop jm_keys_drop len Let_def MAX_STORED_SYNC_COMMITTEES_def)
    moreover have "?q u \<in> set (jm_keys ?m)"
      using new(1) jm_get_keys [of ?m "?q u"] by simp
    ultimately show ?thesis
      using assms(1) by (auto simp: lc_periods_def jm_keys_set Let_def)
  qed
qed

lemma lc_reach_period: "lc_reach lib cfg sn s \<Longrightarrow> \<exists>p \<ge> computeSyncPeriodAtSlot (bh_slot (sn_header sn)). lc_periods p s"
proof (induction rule: lc_reach.induct)
  case (init s)
  then show ?case
    by (auto simp: new_Lightclient_def Let_def bind_res_Inr_iff lc_periods_def jm_keys_def jm_set_def)
next
  case (step s s')
  then show ?case
    using lc_step_periods by (metis le_Suc_eq)
qed

section \<open>The chain of trust\<close>

text \<open>
  A committee is trusted for a period if it is the one of the snapshot, or a valid update whose active
  header lies in the period before names it and is signed by a trusted committee of that period.
\<close>

inductive trusted :: "'pk lc_lib \<Rightarrow> lc_snapshot \<Rightarrow> nat \<Rightarrow> 'pk sync_committee_fast \<Rightarrow> bool"
  for lib :: "'pk lc_lib" and sn :: lc_snapshot where
  snapshot: "deserializeSyncCommittee lib (sn_currentSyncCommittee sn) = Inr sc \<Longrightarrow>
    trusted lib sn (computeSyncPeriodAtSlot (bh_slot (sn_header sn))) sc"
| update: "trusted lib sn p sc \<Longrightarrow> assertValidLightClientUpdate lib sc u = Inr () \<Longrightarrow>
    computeSyncPeriodAtSlot (bh_slot (activeHeader u)) = p \<Longrightarrow>
    deserializeSyncCommittee lib (nextSyncCommittee u) = Inr sc' \<Longrightarrow> trusted lib sn (Suc p) sc'"

abbreviation committeeOf :: "'pk stored_committee \<Rightarrow> 'pk sync_committee_fast" where
  "committeeOf sc \<equiv> sync_committee_fast.truncate sc"

lemma committeeOf_store [simp]: "committeeOf (storeCommittee sc st) = sc"
  by (cases sc) (simp add: storeCommittee_def sync_committee_fast.truncate_def)

lemma validate_truncate:
  "assertValidSignedHeader lib (committeeOf sc) agg r slot = assertValidSignedHeader lib sc agg r slot"
  "assertValidLightClientUpdate lib (committeeOf sc) u = assertValidLightClientUpdate lib sc u"
  by (simp_all add: assertValidLightClientUpdate_def assertValidSignedHeader_def sync_committee_fast.truncate_def)

text \<open>What the client believes rests on trusted committees.\<close>

definition lc_trust :: "'pk lc_lib \<Rightarrow> lc_snapshot \<Rightarrow> 'pk lightclient \<Rightarrow> bool" where
  "lc_trust lib sn s \<longleftrightarrow>
     (\<forall>p sc. jm_get (syncCommitteeByPeriod s) p = Some sc \<longrightarrow> trusted lib sn p (committeeOf sc)) \<and>
     head_blockRoot (lc_head s) = headerRoot lib (head_header (lc_head s)) \<and>
     (head_header (lc_head s) = sn_header sn \<or>
      (\<exists>sc agg. trusted lib sn (computeSyncPeriodAtSlot (bh_slot (head_header (lc_head s)))) sc \<and>
         assertValidSignedHeader lib sc agg (headerRoot lib (head_header (lc_head s))) (bh_slot (head_header (lc_head s))) = Inr () \<and>
         head_participation (lc_head s) = sumBits (syncCommitteeBits agg)))"

lemma lc_step_trust:
  assumes t: "lc_trust lib sn s" and p: "lc_periods p s" and st: "lc_step lib cfg s s'"
  shows "lc_trust lib sn s'"
proof -
  from lc_step_cases [OF st] show ?thesis
  proof (elim disjE exE)
    fix now header agg res assume "processHeaderUpdate lib cfg now header agg s = (res, s')"
    from processHeaderUpdate_cases [OF this] consider "s' = s"
      | sc where "jm_get (syncCommitteeByPeriod s) (computeSyncPeriodAtSlot (bh_slot header)) = Some sc"
          "assertValidSignedHeader lib sc agg (headerRoot lib header) (bh_slot header) = Inr ()"
          "s' = updateLcHead lib header (sumBits (syncCommitteeBits agg))
            (registerParticipation (computeSyncPeriodAtSlot (bh_slot header)) (sumBits (syncCommitteeBits agg)) s)"
      by blast
    then show ?thesis
    proof cases
      case 1
      with t show ?thesis by simp
    next
      case 2
      then have "trusted lib sn (computeSyncPeriodAtSlot (bh_slot header)) (committeeOf sc)"
        "assertValidSignedHeader lib (committeeOf sc) agg (headerRoot lib header) (bh_slot header) = Inr ()"
        using t by (auto simp: lc_trust_def validate_truncate)
      with t show ?thesis
        unfolding 2(3) lc_trust_def header_keeps
        by (auto simp: updateLcHead_def registerParticipation_def)
    qed
  next
    fix now u res assume "processSyncCommitteeUpdate lib cfg now u s = (res, s')"
    note c = processSyncCommitteeUpdate_cases [OF this]
    let ?q = "computeSyncPeriodAtSlot (bh_slot (activeHeader u))" and ?m = "syncCommitteeByPeriod s"
    from c consider "syncCommitteeByPeriod s' = ?m"
      | sc sc' st where "jm_get ?m ?q = Some sc" "assertValidLightClientUpdate lib sc u = Inr ()"
          "deserializeSyncCommittee lib (nextSyncCommittee u) = Inr sc'"
          "syncCommitteeByPeriod s' = pruneSetToMax MAX_STORED_SYNC_COMMITTEES (jm_set (Suc ?q) (storeCommittee sc' st) ?m)"
      by blast
    then show ?thesis
    proof cases
      case 1
      with t c show ?thesis by (simp add: lc_trust_def)
    next
      case 2
      have ok: "jm_ok (jm_set (Suc ?q) (storeCommittee sc' st) ?m)"
        by (rule jm_ok_set) (rule lc_periods_ok [OF p])
      have "trusted lib sn ?q (committeeOf sc)"
        using t 2(1) by (simp add: lc_trust_def)
      then have new: "trusted lib sn (Suc ?q) sc'"
        by (rule trusted.update) (use 2(2,3) in \<open>simp_all add: validate_truncate\<close>)
      have "trusted lib sn k (committeeOf c)" if "jm_get (syncCommitteeByPeriod s') k = Some c" for k c
      proof -
        have "jm_get (jm_set (Suc ?q) (storeCommittee sc' st) ?m) k = Some c"
          using that jm_get_drop [OF ok] by (simp add: 2(4) pruneSetToMax_drop [OF ok])
        with new t show ?thesis
          by (auto simp: lc_trust_def split: if_splits)
      qed
      with t c show ?thesis
        by (simp add: lc_trust_def)
    qed
  qed
qed

lemma lc_reach_trust: "lc_reach lib cfg sn s \<Longrightarrow> lc_trust lib sn s"
proof (induction rule: lc_reach.induct)
  case (init s)
  then obtain sc where sc: "deserializeSyncCommittee lib (sn_currentSyncCommittee sn) = Inr sc"
    by (auto simp: new_Lightclient_def Let_def bind_res_Inr_iff)
  from trusted.snapshot [OF this] show ?case
    using init sc by (auto simp: new_Lightclient_def Let_def lc_trust_def split: if_splits)
next
  case (step s s')
  then show ?case
    using lc_step_trust lc_reach_period by metis
qed

section \<open>Properties of runs\<close>

text \<open>
  C23. Whatever updates arrive in whatever order, every sync committee the light client holds is
  trusted for its period (the snapshot's, or named by a valid update of the period before that a
  trusted committee signed), and the head is the snapshot's header or a header signed by a trusted
  committee of its own period; the stored root is the root of the head.
\<close>

theorem lc_reach_trusted:
  assumes "lc_reach lib cfg sn s"
  shows "lc_trust lib sn s"
  using assms by (rule lc_reach_trust)

text \<open>
  The light client always holds the committee of one period or of two that follow each other, never
  of a period before the snapshot, and a call moves the window by at most one period forward and never
  back, although the check of processSyncCommitteeUpdate that is to prevent a rollback compares with
  minus infinity.
\<close>

theorem lc_reach_periods:
  assumes "lc_reach lib cfg sn s" "lc_step lib cfg s s'"
  shows "\<exists>p \<ge> computeSyncPeriodAtSlot (bh_slot (sn_header sn)).
    lc_periods p s \<and> (lc_periods p s' \<or> lc_periods (Suc p) s')"
  using lc_reach_period [OF assms(1)] lc_step_periods [OF _ assms(2)] by blast

lemma sumBits_Cons: "sumBits (b # bits) = (if b then Suc (sumBits bits) else sumBits bits)"
proof -
  have "fold (\<lambda>b sum. if b then sum + 1 else sum) bits (Suc m) = Suc (fold (\<lambda>b sum. if b then sum + 1 else sum) bits m)" for m
    by (induction bits arbitrary: m) auto
  from this [of 0] show ?thesis
    by (simp add: sumBits_def)
qed

lemma getParticipants_length: "participantsFrom i pks bits = Inr ps \<Longrightarrow> length ps = sumBits bits"
proof (induction bits arbitrary: i ps)
  case (Cons b bits)
  show ?case
  proof (cases b)
    case True
    with Cons.prems obtain rest where "participantsFrom (Suc i) pks bits = Inr rest" "length ps = Suc (length rest)"
      by (auto simp: bind_res_Inr_iff split: option.splits)
    with Cons.IH show ?thesis
      using True by (simp add: sumBits_Cons)
  next
    case False
    with Cons show ?thesis by (simp add: sumBits_Cons)
  qed
qed (simp add: sumBits_def)

lemma signed_participants:
  assumes "assertValidSignedHeader lib sc agg r slot = Inr ()"
  shows "1 \<le> sumBits (syncCommitteeBits agg)"
proof -
  obtain ps where "participantsFrom 0 (pubkeys sc) (syncCommitteeBits agg) = Inr ps" "1 \<le> length ps"
    using assms by (auto simp: assertValidSignedHeader_def getParticipantPubkeys_def bind_res_Inr_iff
      MIN_SYNC_COMMITTEE_PARTICIPANTS_def Suc_le_eq split: if_splits)
  with getParticipants_length show ?thesis by metis
qed

text \<open>
  C38. processHeaderUpdate accepts a header exactly when its slot is not in the future beyond the
  tolerance, the committee of its period is known and signed it with at least one participant, and the
  participation is at least half of the largest seen in this period and the one before. A refused header changes
  nothing. An accepted one becomes the head exactly when it is of a later slot, or of the same slot with
  more participants, so slot and participation of the head never decrease.
\<close>

theorem processHeaderUpdate_spec:
  assumes "processHeaderUpdate lib cfg now header agg s = (res, s')"
  shows "(res = Inr () \<longleftrightarrow>
      int (bh_slot header) \<le> slotWithFutureTolerance (lc_SECONDS_PER_SLOT cfg) (lc_genesisTime cfg) MAX_CLOCK_DISPARITY_SEC now \<and>
      (\<exists>sc. jm_get (syncCommitteeByPeriod s) (computeSyncPeriodAtSlot (bh_slot header)) = Some sc \<and>
        assertValidSignedHeader lib sc agg (headerRoot lib header) (bh_slot header) = Inr ()) \<and>
      participationOf (computeSyncPeriodAtSlot (bh_slot header)) s div 2 \<le> sumBits (syncCommitteeBits agg)) \<and>
    (res \<noteq> Inr () \<longrightarrow> s' = s) \<and>
    (res = Inr () \<longrightarrow> 1 \<le> sumBits (syncCommitteeBits agg)) \<and>
    (head_header (lc_head s'), head_participation (lc_head s')) =
      (if res = Inr () \<and> (bh_slot (head_header (lc_head s)) < bh_slot header \<or>
           bh_slot (head_header (lc_head s)) = bh_slot header \<and> head_participation (lc_head s) < sumBits (syncCommitteeBits agg))
       then (header, sumBits (syncCommitteeBits agg))
       else (head_header (lc_head s), head_participation (lc_head s)))"
proof -
  have acc: "res = Inr () \<longleftrightarrow>
      int (bh_slot header) \<le> slotWithFutureTolerance (lc_SECONDS_PER_SLOT cfg) (lc_genesisTime cfg) MAX_CLOCK_DISPARITY_SEC now \<and>
      (\<exists>sc. jm_get (syncCommitteeByPeriod s) (computeSyncPeriodAtSlot (bh_slot header)) = Some sc \<and>
        assertValidSignedHeader lib sc agg (headerRoot lib header) (bh_slot header) = Inr ()) \<and>
      participationOf (computeSyncPeriodAtSlot (bh_slot header)) s div 2 \<le> sumBits (syncCommitteeBits agg)"
    using assms unfolding processHeaderUpdate_def Let_def
    by (auto simp: SAFETY_THRESHOLD_FACTOR_def split: if_splits option.splits sum.splits)
  let ?part = "sumBits (syncCommitteeBits agg)" and ?p = "computeSyncPeriodAtSlot (bh_slot header)"
  from processHeaderUpdate_cases [OF assms] consider (refused) e where "res = Inl e" "s' = s"
    | (accepted) sc where "res = Inr ()" "jm_get (syncCommitteeByPeriod s) ?p = Some sc"
        "assertValidSignedHeader lib sc agg (headerRoot lib header) (bh_slot header) = Inr ()"
        "s' = updateLcHead lib header ?part (registerParticipation ?p ?part s)"
    by blast
  then show ?thesis
  proof cases
    case refused
    with acc show ?thesis by simp
  next
    case accepted
    have "lc_head (registerParticipation ?p ?part s) = lc_head s"
      by (simp add: registerParticipation_def)
    then have "(head_header (lc_head s'), head_participation (lc_head s')) =
        (if updatesHead header ?part s then (header, ?part) else (head_header (lc_head s), head_participation (lc_head s)))"
      by (simp add: accepted(4) updateLcHead_def updatesHead_def)
    with acc accepted(1) signed_participants [OF accepted(3)] show ?thesis
      by (simp add: updatesHead_def eq_commute [of "bh_slot header"])
  qed
qed

section \<open>Merkle branches\<close>

text \<open>A tree of the values that the branches speak of, its root, and the path to an index.\<close>

datatype mtree = MLeaf bytes | MNode mtree mtree

fun mroot :: "'pk lc_lib \<Rightarrow> mtree \<Rightarrow> bytes" where
  "mroot lib (MLeaf b) = b"
| "mroot lib (MNode l r) = hash2 lib (mroot lib l) (mroot lib r)"

fun reaches :: "nat \<Rightarrow> nat \<Rightarrow> mtree \<Rightarrow> bool" where
  "reaches 0 idx t = True"
| "reaches (Suc d) idx (MNode l r) = reaches d idx (if siblingOnLeft idx d then r else l)"
| "reaches (Suc d) idx (MLeaf b) = False"

fun valueAt :: "'pk lc_lib \<Rightarrow> nat \<Rightarrow> nat \<Rightarrow> mtree \<Rightarrow> bytes" where
  "valueAt lib (Suc d) idx (MNode l r) = valueAt lib d idx (if siblingOnLeft idx d then r else l)"
| "valueAt lib _ idx t = mroot lib t"

fun siblings :: "'pk lc_lib \<Rightarrow> nat \<Rightarrow> nat \<Rightarrow> mtree \<Rightarrow> bytes list" where
  "siblings lib (Suc d) idx (MNode l r) =
     (if siblingOnLeft idx d then siblings lib d idx r @ [mroot lib l] else siblings lib d idx l @ [mroot lib r])"
| "siblings lib _ idx t = []"

text \<open>The pairs that the loop hashes, and those that are hashed in the tree along the path.\<close>

fun hashedPairs :: "'pk lc_lib \<Rightarrow> bytes list \<Rightarrow> nat \<Rightarrow> nat \<Rightarrow> nat \<Rightarrow> bytes \<Rightarrow> (bytes \<times> bytes) list" where
  "hashedPairs lib branch 0 i idx v = []"
| "hashedPairs lib branch (Suc n) i idx v =
     (let pair = (if siblingOnLeft idx i then (branch ! i, v) else (v, branch ! i))
      in pair # hashedPairs lib branch n (Suc i) idx (hash2 lib (fst pair) (snd pair)))"

fun pathPairs :: "'pk lc_lib \<Rightarrow> nat \<Rightarrow> nat \<Rightarrow> mtree \<Rightarrow> (bytes \<times> bytes) list" where
  "pathPairs lib (Suc d) idx (MNode l r) =
     (mroot lib l, mroot lib r) # pathPairs lib d idx (if siblingOnLeft idx d then r else l)"
| "pathPairs lib _ idx t = []"

definition collision :: "'pk lc_lib \<Rightarrow> (bytes \<times> bytes) list \<Rightarrow> (bytes \<times> bytes) list \<Rightarrow> bool" where
  "collision lib xs ys \<longleftrightarrow>
     (\<exists>x \<in> set xs. \<exists>y \<in> set ys. x \<noteq> y \<and> hash2 lib (fst x) (snd x) = hash2 lib (fst y) (snd y))"

lemma collision_mono: "collision lib xs ys \<Longrightarrow> set xs \<subseteq> set xs' \<Longrightarrow> set ys \<subseteq> set ys' \<Longrightarrow> collision lib xs' ys'"
  unfolding collision_def by blast

lemma hashedPairs_snoc: "length xs = i + n \<Longrightarrow> branchRoot lib xs n i idx v = Inr w \<Longrightarrow>
    hashedPairs lib (xs @ [p]) (Suc n) i idx v =
      hashedPairs lib xs n i idx v @ [if siblingOnLeft idx (i + n) then (p, w) else (w, p)]"
proof (induction n arbitrary: i v)
  case 0
  then show ?case by (simp add: nth_append)
next
  case (Suc n)
  then have "nth_opt xs i = Some (xs ! i)" "(xs @ [p]) ! i = xs ! i"
    by (simp_all add: nth_append)
  with Suc.IH [of "Suc i"] Suc.prems show ?case
    by (simp only: hashedPairs.simps(2) [of lib "xs @ [p]" "Suc n"]) (auto simp: Let_def)
qed

lemma branchRoot_prefix: "i + n \<le> length xs \<Longrightarrow> branchRoot lib (xs @ ys) n i idx v = branchRoot lib xs n i idx v"
  by (induction n arbitrary: i v) (auto simp: nth_append)

lemma branchRoot_snoc: "length xs = i + n \<Longrightarrow> branchRoot lib (xs @ [p]) (Suc n) i idx v =
    bind_res (branchRoot lib xs n i idx v) (\<lambda>w. Inr (if siblingOnLeft idx (i + n) then hash2 lib p w else hash2 lib w p))"
proof (induction n arbitrary: i v)
  case 0
  then show ?case by (simp add: nth_append)
next
  case (Suc n)
  then have "nth_opt (xs @ [p]) i = Some (xs ! i)" "nth_opt xs i = Some (xs ! i)"
    by (simp_all add: nth_append)
  with Suc.IH [of "Suc i"] Suc.prems show ?case
    by (simp only: branchRoot.simps option.case) simp
qed

lemma siblings_length: "reaches d idx t \<Longrightarrow> length (siblings lib d idx t) = d"
  by (induction d idx t rule: reaches.induct) (auto split: if_splits)

lemma branchRoot_complete: "reaches d idx t \<Longrightarrow>
    branchRoot lib (siblings lib d idx t) d 0 idx (valueAt lib d idx t) = Inr (mroot lib t)"
proof (induction d idx t rule: reaches.induct)
  case (2 d idx l r)
  let ?child = "if siblingOnLeft idx d then r else l"
  have IH: "branchRoot lib (siblings lib d idx ?child) d 0 idx (valueAt lib d idx ?child) = Inr (mroot lib ?child)"
    using 2 by simp
  have "length (siblings lib d idx ?child) = 0 + d"
    using 2 siblings_length by fastforce
  from branchRoot_snoc [OF this, where lib = lib and p = "mroot lib (if siblingOnLeft idx d then l else r)" and idx = idx
    and v = "valueAt lib d idx ?child"] IH
  show ?case
    by (cases "siblingOnLeft idx d") (simp_all del: branchRoot.simps)
qed auto

lemma branchRoot_sound: "reaches d idx t \<Longrightarrow> length branch = d \<Longrightarrow>
    \<not> collision lib (hashedPairs lib branch d 0 idx leaf) (pathPairs lib d idx t) \<Longrightarrow>
    branchRoot lib branch d 0 idx leaf = Inr (mroot lib t) \<Longrightarrow> leaf = valueAt lib d idx t \<and> branch = siblings lib d idx t"
proof (induction d idx t arbitrary: branch rule: reaches.induct)
  case (2 d idx l r)
  let ?child = "if siblingOnLeft idx d then r else l"
  from 2(3) obtain xs p where xs: "branch = xs @ [p]" "length xs = 0 + d"
    by (auto simp: length_Suc_conv_rev)
  from 2(5) obtain w where w: "branchRoot lib xs d 0 idx leaf = Inr w"
    "(if siblingOnLeft idx d then hash2 lib p w else hash2 lib w p) = hash2 lib (mroot lib l) (mroot lib r)"
    using branchRoot_snoc [OF xs(2), of lib p idx leaf] xs(1)
    by (auto simp: bind_res_Inr_iff simp del: branchRoot.simps)
  let ?pair = "if siblingOnLeft idx d then (p, w) else (w, p)"
  have pairs: "hashedPairs lib branch (Suc d) 0 idx leaf = hashedPairs lib xs d 0 idx leaf @ [?pair]"
    using hashedPairs_snoc [OF xs(2) w(1), of p] by (simp add: xs(1) del: hashedPairs.simps)
  have "?pair = (mroot lib l, mroot lib r)"
    using 2(4) w(2) unfolding pairs by (auto simp: collision_def split: if_splits)
  then have e: "p = (if siblingOnLeft idx d then mroot lib l else mroot lib r)" "w = mroot lib ?child"
    by (auto split: if_splits)
  have "\<not> collision lib (hashedPairs lib xs d 0 idx leaf) (pathPairs lib d idx ?child)"
    using 2(4) unfolding pairs by (rule contrapos_nn) (erule collision_mono, auto)
  then have "leaf = valueAt lib d idx ?child \<and> xs = siblings lib d idx ?child"
    using 2(1) [of xs] 2(2) xs(2) w(1) e(2) by simp
  then show ?case by (simp add: xs(1) e(1))
qed auto

text \<open>
  C39. isValidMerkleBranch proves membership. For any tree with the given root and any index that
  reaches the given depth, the value at that index with the siblings on its path is a valid branch, and
  whenever another value or another branch of that length passes, a pair hashed by the loop and a
  pair of the tree on the path are different and have the same hash.
\<close>

theorem isValidMerkleBranch_sound:
  assumes "reaches d idx t" "length branch = d"
  shows "(isValidMerkleBranch lib leaf branch d idx (mroot lib t) = Inr True \<longrightarrow>
      leaf = valueAt lib d idx t \<and> branch = siblings lib d idx t \<or>
      collision lib (hashedPairs lib branch d 0 idx leaf) (pathPairs lib d idx t)) \<and>
    isValidMerkleBranch lib (valueAt lib d idx t) (siblings lib d idx t) d idx (mroot lib t) = Inr True"
  using branchRoot_sound [OF assms, of lib leaf] branchRoot_complete [OF assms(1), of lib]
  by (auto simp: isValidMerkleBranch_def bind_res_Inr_iff)

section \<open>Ranges\<close>

lemma ceilDiv_le: "1 \<le> n \<Longrightarrow> t \<le> ceilDiv t n * n"
proof -
  assume "1 \<le> n"
  then have "0 \<le> (- t) mod n" by simp
  moreover have "(- t) div n * n + (- t) mod n = - t"
    by (rule div_mult_mod_eq)
  ultimately have "t \<le> - ((- t) div n * n)" by linarith
  then show "t \<le> ceilDiv t n * n"
    by (simp add: ceilDiv_def)
qed

lemma chunksFrom_shift: "chunksFrom count (i + j) a b n = chunksFrom count i (a + int j * n) b n"
proof (induction count arbitrary: i)
  case (Suc count)
  show ?case
    using Suc.IH [of "Suc i"] by (simp add: Let_def algebra_simps)
qed simp

lemma chunksFrom_cover:
  assumes "1 \<le> n" "a \<le> b" "b - a + 1 \<le> int count * n"
  shows "concat (map (\<lambda>(x, y). [x..y]) (chunksFrom count 0 a b n)) = [a..b] \<and>
    (\<forall>(x, y) \<in> set (chunksFrom count 0 a b n). x \<le> y \<and> y - x < n)"
  using assms
proof (induction count arbitrary: a)
  case (Suc count)
  show ?case
  proof (cases "b \<le> a + n - 1")
    case True
    then have "min (a + n - 1) b = b" by simp
    with True Suc.prems show ?thesis
      by (simp add: Let_def)
  next
    case False
    have "b - (a + n) + 1 \<le> int count * n"
      using Suc.prems(3) by (simp add: algebra_simps)
    with Suc.IH [of "a + n"] False Suc.prems(1)
    have IH: "concat (map (\<lambda>(x, y). [x..y]) (chunksFrom count 0 (a + n) b n)) = [a + n..b]"
      "\<forall>(x, y) \<in> set (chunksFrom count 0 (a + n) b n). x \<le> y \<and> y - x < n"
      by simp_all
    have step: "chunksFrom (Suc count) 0 a b n = (a, a + n - 1) # chunksFrom count 0 (a + n) b n"
      using False chunksFrom_shift [of count 0 1 a b n] by (simp add: Let_def min_def)
    have "[a..a + n - 1] @ [a + n..b] = [a..b]"
      using upto_split2 [of a "a + n - 1" b] False Suc.prems(1) by simp
    with IH Suc.prems(1) show ?thesis
      unfolding step by simp
  qed
qed simp

text \<open>
  chunkifyInclusiveRange splits a range into chunks of at most the given size that are not empty
  and, one after the other, enumerate the range from first to last, nothing twice and nothing left out;
  a range that is empty gives one chunk with the same two ends.
\<close>

theorem chunkify_cover:
  "(a \<le> b \<longrightarrow> concat (map (\<lambda>(x, y). [x..y]) (chunkifyInclusiveRange a b n)) = [a..b] \<and>
     (\<forall>(x, y) \<in> set (chunkifyInclusiveRange a b n). x \<le> y \<and> y - x < max n 1)) \<and>
   (b < a \<longrightarrow> chunkifyInclusiveRange a b n = [(a, b)])"
proof -
  let ?n = "if n < 1 then 1 else n"
  let ?count = "nat (max (ceilDiv (b - a + 1) ?n) 1)"
  have "b - a + 1 \<le> ceilDiv (b - a + 1) ?n * ?n"
    by (rule ceilDiv_le) simp
  also have "\<dots> \<le> int ?count * ?n"
    by (rule mult_right_mono) auto
  finally have c: "b - a + 1 \<le> int ?count * ?n" .
  show ?thesis
  proof (intro conjI impI)
    assume "a \<le> b"
    with chunksFrom_cover [of ?n a b ?count] c
    show "concat (map (\<lambda>(x, y). [x..y]) (chunkifyInclusiveRange a b n)) = [a..b]"
      "\<forall>(x, y) \<in> set (chunkifyInclusiveRange a b n). x \<le> y \<and> y - x < max n 1"
      by (auto simp: chunkifyInclusiveRange_def Let_def max_def split: if_splits)
  next
    assume ba: "b < a"
    have "?count \<noteq> 0" by simp
    then obtain m where m: "?count = Suc m"
      using not0_implies_Suc by blast
    have "min (a + ?n - 1) b = b"
      using ba by simp
    then show "chunkifyInclusiveRange a b n = [(a, b)]"
      unfolding chunkifyInclusiveRange_def Let_def m by simp
  qed
qed

section \<open>The best update\<close>

text \<open>
  isBetterUpdate is not an order: between a non-finalized update with more participants and a
  finalized one with more than two thirds, each is better than the other, so which committee update is
  kept depends on which arrived last, and a finalized update is replaced by one that is not. Among
  updates of the same finality it prefers more participants, then the older slot.
\<close>

theorem isBetterUpdate_order:
  "(us_isFinalized p = us_isFinalized n \<longrightarrow>
     (isBetterUpdate p n \<longleftrightarrow> us_participation p < us_participation n \<or>
        us_participation p = us_participation n \<and> us_slot n < us_slot p)) \<and>
   (\<not> us_isFinalized p \<and> us_isFinalized n \<and> us_participation n < us_participation p \<and>
      2 * SYNC_COMMITTEE_SIZE < 3 * us_participation n \<longrightarrow> isBetterUpdate p n \<and> isBetterUpdate n p)"
  by (auto simp: isBetterUpdate_def)

end
