(* ===== verification/LightClientServer.thy ===== *)
theory LightClientServer
  imports LightClientSpec "HOL-Library.Monad_Syntax"
begin

text \<open>
  The light client server of the beacon node (\<open>packages/lodestar/src/chain/lightClient\<close>, the route
  handlers of \<open>packages/lodestar/src/api/impl/lightclient\<close>): what it keeps of imported blocks and
  the snapshots and updates it serves. Each repository of the database is its map of entries. A
  handler runs to its end before the next one starts. The SSZ library's proofs of a state tree and its roots of
  block bodies are a parameter; a map whose keys are the hexadecimal strings of roots has the roots
  as keys.
\<close>

section \<open>State trees and proofs\<close>

text \<open>A leaf has no children: reading one throws.\<close>

fun node_left :: "mtree \<Rightarrow> mtree option" where
  "node_left (MNode l r) = Some l"
| "node_left (MLeaf b) = None"

fun node_right :: "mtree \<Rightarrow> mtree option" where
  "node_right (MNode l r) = Some r"
| "node_right (MLeaf b) = None"

record sync_committee_witness =
  sw_witness :: "bytes list"
  sw_currentSyncCommitteeRoot :: root
  sw_nextSyncCommitteeRoot :: root

definition getSyncCommitteesWitness :: "'pk lc_lib \<Rightarrow> mtree \<Rightarrow> sync_committee_witness option" where
  "getSyncCommitteesWitness lib n1 = do {
     n3 \<leftarrow> node_right n1;
     n6 \<leftarrow> node_left n3;
     n13 \<leftarrow> node_right n6;
     n27 \<leftarrow> node_right n13;
     n54 \<leftarrow> node_left n27;
     n55 \<leftarrow> node_right n27;
     n26 \<leftarrow> node_left n13;
     n12 \<leftarrow> node_left n6;
     n7 \<leftarrow> node_right n3;
     n2 \<leftarrow> node_left n1;
     Some \<lparr>sw_witness = [mroot lib n26, mroot lib n12, mroot lib n7, mroot lib n2],
       sw_currentSyncCommitteeRoot = mroot lib n54, sw_nextSyncCommitteeRoot = mroot lib n55\<rparr>
   }"

definition getNextSyncCommitteeBranch :: "sync_committee_witness \<Rightarrow> bytes list" where
  "getNextSyncCommitteeBranch w = sw_currentSyncCommitteeRoot w # sw_witness w"

definition getCurrentSyncCommitteeBranch :: "sync_committee_witness \<Rightarrow> bytes list" where
  "getCurrentSyncCommitteeBranch w = sw_nextSyncCommitteeRoot w # sw_witness w"

definition FINALIZED_ROOT_GINDEX :: nat where
  "FINALIZED_ROOT_GINDEX = 105"

section \<open>Data\<close>

text \<open>The parts of a block and of the state after it that the server reads; \<open>'b\<close> is the block body.\<close>

record 'b lc_block =
  lb_slot :: slot
  lb_proposerIndex :: nat
  lb_parentRoot :: root
  lb_stateRoot :: root
  lb_body :: 'b
  lb_syncAggregate :: sync_aggregate

record post_state =
  ps_tree :: mtree
  ps_currentSyncCommittee :: sync_committee
  ps_nextSyncCommittee :: sync_committee
  ps_finalizedCheckpoint :: root_checkpoint

record parent_block =
  par_blockRoot :: root
  par_slot :: slot

record ('pk, 'b) lcs_lib =
  clientLib :: "'pk lc_lib"
  getSingleProof :: "mtree \<Rightarrow> nat \<Rightarrow> bytes list"
  bodyHashTreeRoot :: "fork_name \<Rightarrow> 'b \<Rightarrow> root"

text \<open>The field is present when \<open>isFinalized\<close> is true.\<close>

record finality_data =
  fd_finalityBranch :: "bytes list"
  fd_finalizedCheckpoint :: root_checkpoint

record sync_attested_data =
  sa_attestedHeader :: block_header
  sa_blockRoot :: root
  sa_finality :: "finality_data option"

record partial_update =
  pu_attestedHeader :: block_header
  pu_blockRoot :: root
  pu_finality :: "(finality_data \<times> block_header) option"
  pu_syncAggregate :: sync_aggregate

record header_update =
  hu_attestedHeader :: block_header
  hu_syncAggregate :: sync_aggregate

datatype lcs_error =
    AttestedDataNotAvailable
  | WitnessNotAvailable root
  | CurrentSyncCommitteeNotAvailable
  | NextSyncCommitteeNotAvailable
  | HeaderNotAvailable
  | NoPartialUpdate nat
  | NoLatestHeaderUpdate
  | LeafNodeHasNoChild

record lc_server =
  db_syncCommitteeWitness :: "(root, sync_committee_witness) jsmap"
  db_syncCommittee :: "(root, sync_committee) jsmap"
  db_checkpointHeader :: "(root, block_header) jsmap"
  db_bestPartialLightClientUpdate :: "(nat, partial_update) jsmap"
  knownSyncCommittee :: "(nat, root list) jsmap"
  storedCurrentSyncCommittee :: bool
  prevHeadData :: "(root, sync_attested_data) jsmap"
  checkpointHeaders :: "(root, block_header) jsmap"
  latestHeadUpdate :: "header_update option"
  lcs_emitted :: "header_update list"

definition new_LightClientServer :: lc_server where
  "new_LightClientServer = \<lparr>db_syncCommitteeWitness = [], db_syncCommittee = [], db_checkpointHeader = [],
     db_bestPartialLightClientUpdate = [], knownSyncCommittee = [], storedCurrentSyncCommittee = False,
     prevHeadData = [], checkpointHeaders = [], latestHeadUpdate = None, lcs_emitted = []\<rparr>"

type_synonym 'a lcs_st = "(lc_server, lcs_error, 'a) st"

definition MAX_CACHED_FINALIZED_HEADERS :: nat where
  "MAX_CACHED_FINALIZED_HEADERS = 3"

definition MAX_PREV_HEAD_DATA :: nat where
  "MAX_PREV_HEAD_DATA = 32"

section \<open>The best update of a period\<close>

definition isBetterPartialUpdate :: "partial_update \<Rightarrow> sync_aggregate \<Rightarrow> sync_attested_data \<Rightarrow> bool" where
  "isBetterPartialUpdate prevUpdate nextSyncAggregate nextSyncAttestedData =
     (let nextBitCount = sumBits (syncCommitteeBits nextSyncAggregate);
          prevBitCount = sumBits (syncCommitteeBits (pu_syncAggregate prevUpdate)) in
      if pu_finality prevUpdate = None \<and> sa_finality nextSyncAttestedData \<noteq> None \<and>
        nextBitCount * 3 > SYNC_COMMITTEE_SIZE * 2 then True
      else if prevBitCount > nextBitCount then False
      else if prevBitCount < nextBitCount then True
      else bh_slot (pu_attestedHeader prevUpdate) > bh_slot (sa_attestedHeader nextSyncAttestedData))"

definition getFinalizedHeader :: "root \<Rightarrow> lc_server \<Rightarrow> block_header option \<times> lc_server" where
  "getFinalizedHeader finalizedBlockRoot s =
     (case jm_get (checkpointHeaders s) finalizedBlockRoot of
        Some h \<Rightarrow> (Some h, s)
      | None \<Rightarrow>
          (case jm_get (db_checkpointHeader s) finalizedBlockRoot of
             None \<Rightarrow> (None, s)
           | Some h \<Rightarrow> (Some h, s\<lparr>checkpointHeaders :=
               pruneSetToMax MAX_CACHED_FINALIZED_HEADERS (jm_set finalizedBlockRoot h (checkpointHeaders s))\<rparr>)))"

definition newPartialUpdate :: "sync_aggregate \<Rightarrow> sync_attested_data \<Rightarrow> lc_server \<Rightarrow> partial_update \<times> lc_server" where
  "newPartialUpdate agg attestedData s =
     (case sa_finality attestedData of
        Some fd \<Rightarrow>
          (case getFinalizedHeader (rc_root (fd_finalizedCheckpoint fd)) s of
             (Some h, s1) \<Rightarrow> (\<lparr>pu_attestedHeader = sa_attestedHeader attestedData, pu_blockRoot = sa_blockRoot attestedData,
                pu_finality = Some (fd, h), pu_syncAggregate = agg\<rparr>, s1)
           | (None, s1) \<Rightarrow> (\<lparr>pu_attestedHeader = sa_attestedHeader attestedData, pu_blockRoot = sa_blockRoot attestedData,
                pu_finality = None, pu_syncAggregate = agg\<rparr>, s1))
      | None \<Rightarrow> (\<lparr>pu_attestedHeader = sa_attestedHeader attestedData, pu_blockRoot = sa_blockRoot attestedData,
          pu_finality = None, pu_syncAggregate = agg\<rparr>, s))"

definition maybeStoreNewBestPartialUpdate :: "sync_aggregate \<Rightarrow> sync_attested_data \<Rightarrow> lc_server \<Rightarrow> lc_server" where
  "maybeStoreNewBestPartialUpdate agg attestedData s =
     (let period = computeSyncPeriodAtSlot (bh_slot (sa_attestedHeader attestedData)) in
      if (case jm_get (db_bestPartialLightClientUpdate s) period of
            None \<Rightarrow> False | Some prev \<Rightarrow> \<not> isBetterPartialUpdate prev agg attestedData)
      then s
      else case newPartialUpdate agg attestedData s of (pu, s1) \<Rightarrow>
        s1\<lparr>db_bestPartialLightClientUpdate := jm_set period pu (db_bestPartialLightClientUpdate s1)\<rparr>)"

section \<open>Importing a block\<close>

definition onSyncAggregate :: "sync_aggregate \<Rightarrow> root \<Rightarrow> unit lcs_st" where
  "onSyncAggregate agg signedBlockRoot s =
     (case jm_get (prevHeadData s) signedBlockRoot of
        None \<Rightarrow> if jm_size (prevHeadData s) = 0 then (Inr (), s) else (Inl AttestedDataNotAvailable, s)
      | Some attestedData \<Rightarrow>
          (let headerUpdate = \<lparr>hu_attestedHeader = sa_attestedHeader attestedData, hu_syncAggregate = agg\<rparr>;
               s1 = s\<lparr>lcs_emitted := lcs_emitted s @ [headerUpdate]\<rparr>;
               s2 = (if (case latestHeadUpdate s1 of
                          None \<Rightarrow> True
                        | Some l \<Rightarrow> bh_slot (sa_attestedHeader attestedData) > bh_slot (hu_attestedHeader l))
                     then s1\<lparr>latestHeadUpdate := Some headerUpdate\<rparr> else s1)
           in (Inr (), maybeStoreNewBestPartialUpdate agg attestedData s2)))"

definition storeSyncCommittee :: "sync_committee \<Rightarrow> root \<Rightarrow> lc_server \<Rightarrow> lc_server" where
  "storeSyncCommittee sc r s =
     (if \<not> jm_has (db_syncCommittee s) r then s\<lparr>db_syncCommittee := jm_set r sc (db_syncCommittee s)\<rparr> else s)"

text \<open>The current committee is stored once per run, the next one once per dependent root.\<close>

definition storeFirstCommittees :: "post_state \<Rightarrow> sync_committee_witness \<Rightarrow> lc_server \<Rightarrow> lc_server" where
  "storeFirstCommittees ps w s =
     (if \<not> storedCurrentSyncCommittee s
      then (storeSyncCommittee (ps_nextSyncCommittee ps) (sw_nextSyncCommitteeRoot w)
             (storeSyncCommittee (ps_currentSyncCommittee ps) (sw_currentSyncCommitteeRoot w) s))
           \<lparr>storedCurrentSyncCommittee := True\<rparr>
      else s)"

definition storeNextCommittee :: "slot \<Rightarrow> post_state \<Rightarrow> sync_committee_witness \<Rightarrow> parent_block \<Rightarrow> lc_server \<Rightarrow> lc_server" where
  "storeNextCommittee blockSlot ps w parentBlock s =
     (let parentBlockPeriod = computeSyncPeriodAtSlot (par_slot parentBlock);
          period = computeSyncPeriodAtSlot blockSlot in
      if parentBlockPeriod < period
      then let dependantRoot = par_blockRoot parentBlock;
               periodDependantRoots = (case jm_get (knownSyncCommittee s) period of None \<Rightarrow> [] | Some rs \<Rightarrow> rs) in
        if dependantRoot \<notin> set periodDependantRoots
        then storeSyncCommittee (ps_nextSyncCommittee ps) (sw_nextSyncCommitteeRoot w)
          (s\<lparr>knownSyncCommittee := jm_set period (periodDependantRoots @ [dependantRoot]) (knownSyncCommittee s)\<rparr>)
        else s
      else s)"

definition blockHeader :: "('pk, 'b) lcs_lib \<Rightarrow> 'b lc_block \<Rightarrow> block_header" where
  "blockHeader lib block = \<lparr>bh_slot = lb_slot block, bh_proposerIndex = lb_proposerIndex block,
     bh_parentRoot = lb_parentRoot block, bh_stateRoot = lb_stateRoot block,
     bh_bodyRoot = bodyHashTreeRoot lib (getForkName (cg_config (lib_genesis (clientLib lib))) (lb_slot block)) (lb_body block)\<rparr>"

text \<open>The finality data of the state, if its finalized checkpoint is in the period of the block and not that of genesis.\<close>

definition finalityOf :: "('pk, 'b) lcs_lib \<Rightarrow> slot \<Rightarrow> post_state \<Rightarrow> finality_data option" where
  "finalityOf lib blockSlot ps =
     (let finalizedCheckpoint = ps_finalizedCheckpoint ps;
          finalizedCheckpointPeriod = computeSyncPeriodAtEpoch (rc_epoch finalizedCheckpoint) in
      if finalizedCheckpointPeriod = computeSyncPeriodAtSlot blockSlot \<and> rc_epoch finalizedCheckpoint \<noteq> 0 \<and>
        rc_root finalizedCheckpoint \<noteq> ZERO_HASH
      then Some \<lparr>fd_finalityBranch = getSingleProof lib (ps_tree ps) FINALIZED_ROOT_GINDEX,
                 fd_finalizedCheckpoint = finalizedCheckpoint\<rparr>
      else None)"

definition persistPostBlockImportData :: "('pk, 'b) lcs_lib \<Rightarrow> 'b lc_block \<Rightarrow> post_state \<Rightarrow> parent_block \<Rightarrow> unit lcs_st" where
  "persistPostBlockImportData lib block ps parentBlock s =
     (let header = blockHeader lib block;
          blockRoot = headerRoot (clientLib lib) header in
      case getSyncCommitteesWitness (clientLib lib) (ps_tree ps) of
        None \<Rightarrow> (Inl LeafNodeHasNoChild, s)
      | Some w \<Rightarrow>
          (let s1 = storeNextCommittee (lb_slot block) ps w parentBlock (storeFirstCommittees ps w s);
               s2 = s1\<lparr>db_syncCommitteeWitness := jm_set blockRoot w (db_syncCommitteeWitness s1),
                       db_checkpointHeader := jm_set blockRoot header (db_checkpointHeader s1)\<rparr>
           in (Inr (), s2\<lparr>prevHeadData := pruneSetToMax MAX_PREV_HEAD_DATA (jm_set blockRoot
                \<lparr>sa_attestedHeader = header, sa_blockRoot = blockRoot, sa_finality = finalityOf lib (lb_slot block) ps\<rparr>
                (prevHeadData s2))\<rparr>)))"

text \<open>Errors of both parts are logged.\<close>

definition onImportBlock :: "('pk, 'b) lcs_lib \<Rightarrow> 'b lc_block \<Rightarrow> post_state \<Rightarrow> parent_block \<Rightarrow> lc_server \<Rightarrow> lc_server" where
  "onImportBlock lib block ps parentBlock s =
     snd (persistPostBlockImportData lib block ps parentBlock
       (snd (onSyncAggregate (lb_syncAggregate block) (lb_parentRoot block) s)))"

definition pruneNonCheckpointData :: "root list \<Rightarrow> lc_server \<Rightarrow> lc_server" where
  "pruneNonCheckpointData nonCheckpointBlockRoots s =
     s\<lparr>db_syncCommitteeWitness := fold jm_delete nonCheckpointBlockRoots (db_syncCommitteeWitness s),
       db_checkpointHeader := fold jm_delete nonCheckpointBlockRoots (db_checkpointHeader s)\<rparr>"

section \<open>What is served\<close>

definition lcs_getSnapshot :: "root \<Rightarrow> lc_server \<Rightarrow> lcs_error + lc_snapshot" where
  "lcs_getSnapshot blockRoot s =
     (case jm_get (db_syncCommitteeWitness s) blockRoot of
        None \<Rightarrow> Inl (WitnessNotAvailable blockRoot)
      | Some w \<Rightarrow>
          (case jm_get (db_syncCommittee s) (sw_currentSyncCommitteeRoot w) of
             None \<Rightarrow> Inl CurrentSyncCommitteeNotAvailable
           | Some current \<Rightarrow>
               (case jm_get (db_syncCommittee s) (sw_nextSyncCommitteeRoot w) of
                  None \<Rightarrow> Inl NextSyncCommitteeNotAvailable
                | Some next \<Rightarrow>
                    (case jm_get (db_checkpointHeader s) blockRoot of
                       None \<Rightarrow> Inl HeaderNotAvailable
                     | Some header \<Rightarrow> Inr \<lparr>sn_header = header, sn_currentSyncCommittee = current,
                         sn_currentSyncCommitteeBranch = getCurrentSyncCommitteeBranch w\<rparr>))))"

definition lcs_getCommitteeUpdate :: "('pk, 'b) lcs_lib \<Rightarrow> nat \<Rightarrow> lc_server \<Rightarrow> lcs_error + light_client_update" where
  "lcs_getCommitteeUpdate lib period s =
     (case jm_get (db_bestPartialLightClientUpdate s) period of
        None \<Rightarrow> Inl (NoPartialUpdate period)
      | Some pu \<Rightarrow>
          (let witnessRoot = (case pu_finality pu of
               Some (fd, h) \<Rightarrow> rc_root (fd_finalizedCheckpoint fd) | None \<Rightarrow> pu_blockRoot pu) in
           case jm_get (db_syncCommitteeWitness s) witnessRoot of
             None \<Rightarrow> Inl (WitnessNotAvailable witnessRoot)
           | Some w \<Rightarrow>
               (case jm_get (db_syncCommittee s) (sw_nextSyncCommitteeRoot w) of
                  None \<Rightarrow> Inl NextSyncCommitteeNotAvailable
                | Some next \<Rightarrow> Inr
                    \<lparr>attestedHeader = pu_attestedHeader pu, nextSyncCommittee = next,
                     nextSyncCommitteeBranch = getNextSyncCommitteeBranch w,
                     finalizedHeader = (case pu_finality pu of Some (fd, h) \<Rightarrow> h | None \<Rightarrow> emptyHeader),
                     finalityBranch = (case pu_finality pu of
                       Some (fd, h) \<Rightarrow> fd_finalityBranch fd | None \<Rightarrow> replicate FINALIZED_ROOT_DEPTH ZERO_HASH),
                     syncAggregate = pu_syncAggregate pu,
                     forkVersion = getForkVersion (cg_config (lib_genesis (clientLib lib))) (bh_slot (pu_attestedHeader pu))\<rparr>)))"

definition lcs_getHeadUpdate :: "lc_server \<Rightarrow> lcs_error + header_update" where
  "lcs_getHeadUpdate s = (case latestHeadUpdate s of None \<Rightarrow> Inl NoLatestHeaderUpdate | Some u \<Rightarrow> Inr u)"

text \<open>The route: the updates of all periods of the range, or the first failure.\<close>

fun allUpdates :: "('pk, 'b) lcs_lib \<Rightarrow> nat list \<Rightarrow> lc_server \<Rightarrow> lcs_error + light_client_update list" where
  "allUpdates lib [] s = Inr []"
| "allUpdates lib (p # ps) s =
     bind_res (lcs_getCommitteeUpdate lib p s) (\<lambda>u. bind_res (allUpdates lib ps s) (\<lambda>us. Inr (u # us)))"

definition api_getCommitteeUpdates :: "('pk, 'b) lcs_lib \<Rightarrow> nat \<Rightarrow> nat \<Rightarrow> lc_server \<Rightarrow> lcs_error + light_client_update list" where
  "api_getCommitteeUpdates lib from to s = allUpdates lib [from..<Suc to] s"

end
