(* ===== verification/LightClientLoop.thy ===== *)
theory LightClientLoop
  imports LightClientSpec
begin

text \<open>
  The run loop of the light client: its turns are runs of the client, and when a sync that has been
  interrupted can never be taken up again.
\<close>

section \<open>Turns of the loop are runs\<close>

lemma processUpdates_steps: "(lc_step lib cfg)\<^sup>*\<^sup>* s (snd (processUpdates lib cfg us s))"
proof (induction us arbitrary: s)
  case (Cons x us)
  obtain now u where x: "x = (now, u)" by (cases x)
  obtain r s' where r: "processSyncCommitteeUpdate lib cfg now u s = (r, s')"
    by (cases "processSyncCommitteeUpdate lib cfg now u s")
  have "(lc_step lib cfg)\<^sup>*\<^sup>* s s'"
    using lc_step.committee [OF r] by blast
  with Cons.IH [of s'] r show ?case
    by (cases r) (auto simp: x)
qed simp

lemma syncRanges_steps: "(lc_step lib cfg)\<^sup>*\<^sup>* s (snd (syncRanges lib cfg api rs s))"
proof (induction rs arbitrary: s)
  case (Cons x rs)
  obtain lo hi where x: "x = (lo, hi)" by (cases x)
  show ?case
  proof (cases "api lo hi")
    case None
    then show ?thesis by (simp add: x)
  next
    case (Some us)
    show ?thesis
      unfolding x syncRanges.simps Some option.case
      by (rule rel_bind_st) (auto intro: processUpdates_steps Cons.IH elim: rtranclp_trans)
  qed
qed simp

lemma lc_sync_steps: "(lc_step lib cfg)\<^sup>*\<^sup>* s (snd (lc_sync lib cfg api lo hi s))"
  by (simp add: lc_sync_def syncRanges_steps)

lemma lc_reach_steps: "(lc_step lib cfg)\<^sup>*\<^sup>* s s' \<Longrightarrow> lc_reach lib cfg sn s \<Longrightarrow> lc_reach lib cfg sn s'"
  by (induction rule: rtranclp_induct) (auto intro: lc_reach.step)

lemma syncToClock_steps: "(lc_step lib cfg)\<^sup>*\<^sup>* (rn_client s) (rn_client (snd (syncToClock lib cfg env s)))"
proof -
  have h: "(lc_step lib cfg)\<^sup>*\<^sup>* c (case hu of None \<Rightarrow> c | Some (now, header, agg) \<Rightarrow>
      snd (processHeaderUpdate lib cfg now header agg c))" for c hu
    by (auto split: option.splits intro!: r_into_rtranclp lc_step.header surjective_pairing)
  obtain r c where c: "lc_sync lib cfg (le_api env) (int (computeSyncPeriodAtSlot (bh_slot (head_header (lc_head (rn_client s))))))
      (clockPeriod (clockEpoch (lc_currentSlot cfg (le_now env)))) (rn_client s) = (r, c)"
    by fastforce
  then have "(lc_step lib cfg)\<^sup>*\<^sup>* (rn_client s) c"
    using lc_sync_steps by (metis snd_conv)
  with c h [of c "le_headUpdate env"] show ?thesis
    by (cases r) (auto simp: syncToClock_def Let_def)
qed

lemma runLoopTurn_steps: "(lc_step lib cfg)\<^sup>*\<^sup>* (rn_client s) (rn_client (snd (runLoopTurn lib cfg env s)))"
proof -
  have l: "(lc_step lib cfg)\<^sup>*\<^sup>* (rn_client t) (rn_client (syncLookahead lib cfg env (trackHead t)))" for t
    by (auto simp: syncLookahead_def trackHead_def lc_stop_def Let_def intro: lc_sync_steps)
  obtain b s1 where 1: "syncToClock lib cfg env s = (b, s1)"
    by (cases "syncToClock lib cfg env s")
  have "(lc_step lib cfg)\<^sup>*\<^sup>* (rn_client s) (rn_client s1)"
    using syncToClock_steps 1 by (metis snd_conv)
  with l [of s1] show ?thesis
    by (cases b) (auto simp: runLoopTurn_def 1 Let_def)
qed

text \<open>Whatever the node answers, the loop keeps the client among the states that a run reaches.\<close>

lemma runLoopTurn_reach: "lc_reach lib cfg sn (rn_client s) \<Longrightarrow> lc_reach lib cfg sn (rn_client (snd (runLoopTurn lib cfg env s)))"
  by (rule lc_reach_steps [OF runLoopTurn_steps])

section \<open>An interrupted sync\<close>

lemma chunks_first: "\<exists>rs. chunkifyInclusiveRange a b n = (a, min (a + (if n < 1 then 1 else n) - 1) b) # rs"
proof -
  define count where "count = nat (max (ceilDiv (b - a + 1) (if n < 1 then 1 else n)) 1)"
  have "count \<noteq> 0" by (simp add: count_def)
  then obtain m where "count = Suc m"
    using not0_implies_Suc by blast
  moreover have "chunkifyInclusiveRange a b n = chunksFrom count 0 a b (if n < 1 then 1 else n)"
    by (simp add: chunkifyInclusiveRange_def Let_def count_def)
  ultimately show ?thesis
    by (simp add: Let_def)
qed

lemma update_no_committee:
  assumes "jm_get (syncCommitteeByPeriod s) (computeSyncPeriodAtSlot (bh_slot (activeHeader u))) = None"
  shows "\<exists>e. processSyncCommitteeUpdate lib cfg now u s = (Inl e, s)"
  using assms by (auto simp: processSyncCommitteeUpdate_def Let_def)

text \<open>Answers that start with an update of the first period asked for, or fail.\<close>

definition answers_range :: "update_api \<Rightarrow> bool" where
  "answers_range api \<longleftrightarrow> (\<forall>lo hi. case api lo hi of None \<Rightarrow> True
     | Some us \<Rightarrow> us \<noteq> [] \<and> int (computeSyncPeriodAtSlot (bh_slot (activeHeader (snd (hd us))))) = lo)"

lemma lc_sync_no_committee:
  assumes "answers_range api" "jm_get (syncCommitteeByPeriod s) p = None"
  shows "\<exists>e. lc_sync lib cfg api (int p) q s = (Inl e, s)"
proof -
  obtain hi rs where chunks: "chunkifyInclusiveRange (int p) q MAX_PERIODS_PER_REQUEST = (int p, hi) # rs"
    using chunks_first by blast
  show ?thesis
  proof (cases "api (int p) hi")
    case None
    then show ?thesis by (simp add: lc_sync_def chunks)
  next
    case (Some us)
    have "case api (int p) hi of None \<Rightarrow> True
     | Some us \<Rightarrow> us \<noteq> [] \<and> int (computeSyncPeriodAtSlot (bh_slot (activeHeader (snd (hd us))))) = int p"
      using assms(1) unfolding answers_range_def by (elim allE)
    then have us: "us \<noteq> []" "int (computeSyncPeriodAtSlot (bh_slot (activeHeader (snd (hd us))))) = int p"
      by (simp_all add: Some)
    then obtain now u us' where l: "us = (now, u) # us'"
      by (cases us) auto
    with us(2) assms(2) have "jm_get (syncCommitteeByPeriod s) (computeSyncPeriodAtSlot (bh_slot (activeHeader u))) = None"
      by simp
    from update_no_committee [OF this, of lib cfg now] obtain e
      where e: "processSyncCommitteeUpdate lib cfg now u s = (Inl e, s)" ..
    show ?thesis
      unfolding lc_sync_def chunks by (simp add: Some l bind_st_def e)
  qed
qed

text \<open>
  C26. A sync starts at the period of the head, but only the last two committees are kept. Once the
  committee of the head's period has been evicted and the one of the clock's period is not there,
  every turn of the loop fails and is retried, with the client as it was and head tracking off, as long as the
  node answers requests by the protocol (\<open>answers_range\<close>): to a request from a period on it fails or sends a
  non-empty list that starts with an update of exactly that period. The request always starts at the
  period of the head, so with such nodes the client never recovers; an empty answer, or one that starts with an
  update of another period, is not covered.
\<close>

theorem runLoop_stuck:
  assumes "jm_get (syncCommitteeByPeriod (rn_client s)) (computeSyncPeriodAtSlot (bh_slot (head_header (lc_head (rn_client s))))) = None"
    "\<And>env. env \<in> set envs \<Longrightarrow> answers_range (le_api env) \<and>
      (\<forall>p. int p = clockPeriod (clockEpoch (lc_currentSlot cfg (le_now env))) \<longrightarrow> jm_get (syncCommitteeByPeriod (rn_client s)) p = None)"
  shows "(\<forall>env \<in> set envs. \<forall>t. rn_client t = rn_client s \<longrightarrow>
      (\<exists>t'. runLoopTurn lib cfg env t = (Retry, t') \<and> rn_client t' = rn_client s \<and> rn_status t' = Syncing \<and>
        (rn_status t = Started \<longrightarrow> \<not> rn_tracking t'))) \<and>
    rn_client (fold (\<lambda>env t. snd (runLoopTurn lib cfg env t)) envs s) = rn_client s"
proof -
  have answers: "answers_range (le_api env)" if "env \<in> set envs" for env
    using assms(2) [OF that] by blast
  have turn: "\<exists>t'. runLoopTurn lib cfg env t = (Retry, t') \<and> rn_client t' = rn_client s \<and> rn_status t' = Syncing \<and>
        (rn_status t = Started \<longrightarrow> \<not> rn_tracking t')" if "env \<in> set envs" "rn_client t = rn_client s" for env t
  proof -
    let ?p = "clockPeriod (clockEpoch (lc_currentSlot cfg (le_now env)))"
    note env = answers [OF that(1)]
    have "\<not> (0 \<le> ?p \<and> jm_has (syncCommitteeByPeriod (rn_client t)) (nat ?p))"
      using assms(2) [OF that(1)] that(2) by (auto simp: jm_has_def)
    moreover obtain e where "lc_sync lib cfg (le_api env) (int (computeSyncPeriodAtSlot (bh_slot (head_header (lc_head (rn_client s))))))
        ?p (rn_client s) = (Inl e, rn_client s)"
      using lc_sync_no_committee [OF _ assms(1)] env by blast
    ultimately show ?thesis
      using that(2) by (simp add: runLoopTurn_def syncToClock_def Let_def)
  qed
  have "rn_client (fold (\<lambda>env t. snd (runLoopTurn lib cfg env t)) es t) = rn_client s"
    if "set es \<subseteq> set envs" "rn_client t = rn_client s" for es t
    using that
  proof (induction es arbitrary: t)
    case (Cons env es)
    then have env: "env \<in> set envs" by simp
    from turn [OF env Cons.prems(2)] have "rn_client (snd (runLoopTurn lib cfg env t)) = rn_client s"
      by auto
    with Cons show ?case by simp
  qed simp
  with turn show ?thesis
    by blast
qed

end
