(* ===== verification/LightClientServerSpec.thy ===== *)
theory LightClientServerSpec
  imports LightClientServer LightClientLoop
begin

text \<open>
  What the light client server serves is what the light client accepts: an invariant of its database
  along any imports and prunings, and the checks of the client on snapshots and updates.
\<close>

section \<open>Runs of the server\<close>

text \<open>
  An imported block with the state after it: the block's state root is the root of the state tree, whose
  fields 22, 23 and the root of field 20 (leaf 41) are the sync committees and the finalized root of the state,
  and the SSZ library proves leaf 41 by its siblings.
\<close>

definition import_ok :: "('pk, 'b) lcs_lib \<Rightarrow> 'b lc_block \<Rightarrow> post_state \<Rightarrow> bool" where
  "import_ok lib block ps \<longleftrightarrow>
     0 < lb_slot block \<and> mroot (clientLib lib) (ps_tree ps) = lb_stateRoot block \<and>
     reaches 5 22 (ps_tree ps) \<and>
     valueAt (clientLib lib) 5 22 (ps_tree ps) = syncCommitteeRoot (clientLib lib) (ps_currentSyncCommittee ps) \<and>
     reaches 5 23 (ps_tree ps) \<and>
     valueAt (clientLib lib) 5 23 (ps_tree ps) = syncCommitteeRoot (clientLib lib) (ps_nextSyncCommittee ps) \<and>
     reaches 6 41 (ps_tree ps) \<and>
     valueAt (clientLib lib) 6 41 (ps_tree ps) = rc_root (ps_finalizedCheckpoint ps) \<and>
     getSingleProof lib (ps_tree ps) FINALIZED_ROOT_GINDEX = siblings (clientLib lib) 6 41 (ps_tree ps)"

inductive lcs_reach :: "('pk, 'b) lcs_lib \<Rightarrow> lc_server \<Rightarrow> bool" for lib :: "('pk, 'b) lcs_lib" where
  start: "lcs_reach lib new_LightClientServer"
| import: "lcs_reach lib s \<Longrightarrow> import_ok lib block ps \<Longrightarrow> lcs_reach lib (onImportBlock lib block ps parentBlock s)"
| prune: "lcs_reach lib s \<Longrightarrow> lcs_reach lib (pruneNonCheckpointData roots s)"

section \<open>Branches of a witness\<close>

definition witness_ok :: "'pk lc_lib \<Rightarrow> block_header \<Rightarrow> sync_committee_witness \<Rightarrow> bool" where
  "witness_ok lib h w \<longleftrightarrow>
     isValidMerkleBranch lib (sw_currentSyncCommitteeRoot w) (getCurrentSyncCommitteeBranch w) 5 22 (bh_stateRoot h) = Inr True \<and>
     isValidMerkleBranch lib (sw_nextSyncCommitteeRoot w) (getNextSyncCommitteeBranch w) 5 23 (bh_stateRoot h) = Inr True"

lemma branch_valid: "reaches d idx t \<Longrightarrow>
    isValidMerkleBranch lib (valueAt lib d idx t) (siblings lib d idx t) d idx (mroot lib t) = Inr True"
  using branchRoot_complete [of d idx t lib] by (simp add: isValidMerkleBranch_def)

text \<open>The witness holds the values of fields 22 and 23 and, with either of them, the siblings of the other.\<close>

lemma getSyncCommitteesWitness_siblings:
  assumes "getSyncCommitteesWitness lib t = Some w"
  shows "sw_currentSyncCommitteeRoot w = valueAt lib 5 22 t \<and> getCurrentSyncCommitteeBranch w = siblings lib 5 22 t \<and>
    sw_nextSyncCommitteeRoot w = valueAt lib 5 23 t \<and> getNextSyncCommitteeBranch w = siblings lib 5 23 t \<and>
    reaches 5 22 t \<and> reaches 5 23 t"
proof -
  have val0: "valueAt lib 0 idx t = mroot lib t" for idx t
    by (cases t) simp_all
  have sib0: "siblings lib 0 idx t = []" for idx t
    by (cases t) simp_all
  have n: "node_left t = Some a \<longleftrightarrow> (\<exists>b. t = MNode a b)" "node_right t = Some b \<longleftrightarrow> (\<exists>a. t = MNode a b)" for t a b
    by (cases t; auto)+
  have bits: "siblingOnLeft i (Suc (Suc (Suc (Suc 0))))" "\<not> siblingOnLeft i (Suc (Suc (Suc 0)))"
    "siblingOnLeft i (Suc (Suc 0))" "siblingOnLeft i (Suc 0)" "siblingOnLeft i 0 \<longleftrightarrow> i = 23"
    if "i = 22 \<or> i = 23" for i
    using that by (auto simp: siblingOnLeft_def)
  have five: "5 = Suc (Suc (Suc (Suc (Suc 0))))"
    by simp
  obtain n2 n3 n6 n7 n12 n13 n26 n27 n54 n55 where t: "t = MNode n2 n3" "n3 = MNode n6 n7" "n6 = MNode n12 n13"
    "n13 = MNode n26 n27" "n27 = MNode n54 n55" and
    w: "w = \<lparr>sw_witness = [mroot lib n26, mroot lib n12, mroot lib n7, mroot lib n2],
       sw_currentSyncCommitteeRoot = mroot lib n54, sw_nextSyncCommitteeRoot = mroot lib n55\<rparr>"
    using assms unfolding getSyncCommitteesWitness_def Option.bind_eq_Some_conv n by auto
  have t: "t = MNode n2 (MNode (MNode n12 (MNode n26 (MNode n54 n55))) n7)"
    by (simp add: t)
  have "valueAt lib 5 i t = mroot lib (if i = 23 then n55 else n54) \<and>
      siblings lib 5 i t = [mroot lib (if i = 23 then n54 else n55), mroot lib n26, mroot lib n12, mroot lib n7, mroot lib n2] \<and>
      reaches 5 i t" if "i = 22 \<or> i = 23" for i
    unfolding t five using bits [OF that] by (simp add: val0 sib0)
  from this [of 22] this [of 23] show ?thesis
    by (simp add: w getCurrentSyncCommitteeBranch_def getNextSyncCommitteeBranch_def)
qed

section \<open>The invariant of the database\<close>

lemma pruneKeys_get: "jm_get (pruneKeys ks n m) k = Some v \<Longrightarrow> jm_get m k = Some v"
  by (induction ks n m rule: pruneKeys.induct) (auto simp: Let_def split: if_splits)

lemma pruneSetToMax_get: "jm_get (pruneSetToMax n m) k = Some v \<Longrightarrow> jm_get m k = Some v"
  by (auto simp: pruneSetToMax_def Let_def split: if_splits dest: pruneKeys_get)

lemma fold_delete_get: "jm_get (fold jm_delete ks m) k = (if k \<in> set ks then None else jm_get m k)"
  by (induction ks arbitrary: m) auto

definition header_at :: "'pk lc_lib \<Rightarrow> root \<Rightarrow> block_header \<Rightarrow> bool" where
  "header_at lib r h \<longleftrightarrow> headerRoot lib h = r \<and> 0 < bh_slot h"

definition finality_ok :: "'pk lc_lib \<Rightarrow> block_header \<Rightarrow> finality_data \<Rightarrow> bool" where
  "finality_ok lib a fd \<longleftrightarrow>
     isValidMerkleBranch lib (rc_root (fd_finalizedCheckpoint fd)) (fd_finalityBranch fd) 6 41 (bh_stateRoot a) = Inr True"

definition attested_ok :: "'pk lc_lib \<Rightarrow> sync_attested_data \<Rightarrow> bool" where
  "attested_ok lib d \<longleftrightarrow> sa_blockRoot d = headerRoot lib (sa_attestedHeader d) \<and> 0 < bh_slot (sa_attestedHeader d) \<and>
     (\<forall>fd. sa_finality d = Some fd \<longrightarrow> finality_ok lib (sa_attestedHeader d) fd)"

definition update_ok :: "'pk lc_lib \<Rightarrow> nat \<Rightarrow> partial_update \<Rightarrow> bool" where
  "update_ok lib p pu \<longleftrightarrow> computeSyncPeriodAtSlot (bh_slot (pu_attestedHeader pu)) = p \<and>
     pu_blockRoot pu = headerRoot lib (pu_attestedHeader pu) \<and>
     (\<forall>fd h. pu_finality pu = Some (fd, h) \<longrightarrow> finality_ok lib (pu_attestedHeader pu) fd \<and>
        header_at lib (rc_root (fd_finalizedCheckpoint fd)) h)"

definition serverDb_ok :: "'pk lc_lib \<Rightarrow> lc_server \<Rightarrow> bool" where
  "serverDb_ok lib s \<longleftrightarrow>
     (\<forall>r w. jm_get (db_syncCommitteeWitness s) r = Some w \<longrightarrow>
        (\<exists>h. jm_get (db_checkpointHeader s) r = Some h \<and> witness_ok lib h w)) \<and>
     (\<forall>r h. jm_get (db_checkpointHeader s) r = Some h \<longrightarrow> header_at lib r h) \<and>
     (\<forall>r sc. jm_get (db_syncCommittee s) r = Some sc \<longrightarrow> syncCommitteeRoot lib sc = r)"

definition lcs_inv :: "'pk lc_lib \<Rightarrow> lc_server \<Rightarrow> bool" where
  "lcs_inv lib s \<longleftrightarrow> serverDb_ok lib s \<and>
     (\<forall>r h. jm_get (checkpointHeaders s) r = Some h \<longrightarrow> header_at lib r h) \<and>
     (\<forall>r d. jm_get (prevHeadData s) r = Some d \<longrightarrow> attested_ok lib d) \<and>
     (\<forall>p pu. jm_get (db_bestPartialLightClientUpdate s) p = Some pu \<longrightarrow> update_ok lib p pu)"

section \<open>The invariant is kept\<close>

lemma getFinalizedHeader_inv:
  assumes "lcs_inv lib s" "getFinalizedHeader r s = (res, s')"
  shows "lcs_inv lib s' \<and> db_bestPartialLightClientUpdate s' = db_bestPartialLightClientUpdate s \<and>
    (\<forall>h. res = Some h \<longrightarrow> header_at lib r h)"
proof -
  have p: "header_at lib k h" if "jm_get (pruneSetToMax n (jm_set r x (checkpointHeaders s))) k = Some h"
    "jm_get (db_checkpointHeader s) r = Some x" for n x k h
    using pruneSetToMax_get [OF that(1)] that(2) assms(1) by (auto simp: lcs_inv_def serverDb_ok_def split: if_splits)
  show ?thesis
    using assms by (auto simp: getFinalizedHeader_def lcs_inv_def serverDb_ok_def split: option.splits dest: p [OF _ sym])
qed

lemma newPartialUpdate_inv:
  assumes "lcs_inv lib s" "attested_ok lib d" "newPartialUpdate agg d s = (pu, s')"
  shows "lcs_inv lib s' \<and> update_ok lib (computeSyncPeriodAtSlot (bh_slot (sa_attestedHeader d))) pu"
proof (cases "sa_finality d")
  case None
  with assms show ?thesis
    by (auto simp: newPartialUpdate_def attested_ok_def update_ok_def)
next
  case (Some fd)
  obtain res s1 where r: "getFinalizedHeader (rc_root (fd_finalizedCheckpoint fd)) s = (res, s1)"
    by fastforce
  from getFinalizedHeader_inv [OF assms(1) r] assms(2,3) Some r show ?thesis
    by (auto simp: newPartialUpdate_def attested_ok_def update_ok_def split: option.splits)
qed

lemma maybeStore_inv:
  assumes "lcs_inv lib s" "attested_ok lib d"
  shows "lcs_inv lib (maybeStoreNewBestPartialUpdate agg d s)"
proof -
  obtain pu s1 where n: "newPartialUpdate agg d s = (pu, s1)"
    by fastforce
  from newPartialUpdate_inv [OF assms n] have
    "lcs_inv lib (s1\<lparr>db_bestPartialLightClientUpdate := jm_set (computeSyncPeriodAtSlot (bh_slot (sa_attestedHeader d))) pu
      (db_bestPartialLightClientUpdate s1)\<rparr>)"
    by (auto simp: lcs_inv_def serverDb_ok_def)
  with assms(1) n show ?thesis
    by (simp add: maybeStoreNewBestPartialUpdate_def Let_def)
qed

lemma lcs_inv_head: "lcs_inv lib s \<Longrightarrow> lcs_inv lib (s\<lparr>lcs_emitted := es\<rparr>)"
  "lcs_inv lib s \<Longrightarrow> lcs_inv lib (s\<lparr>latestHeadUpdate := u\<rparr>)"
  by (auto simp: lcs_inv_def serverDb_ok_def)

lemma onSyncAggregate_inv:
  assumes "lcs_inv lib s"
  shows "lcs_inv lib (snd (onSyncAggregate agg r s))"
proof (cases "jm_get (prevHeadData s) r")
  case (Some d)
  with assms have "attested_ok lib d"
    by (simp add: lcs_inv_def)
  with assms Some show ?thesis
    by (auto simp: onSyncAggregate_def Let_def intro!: maybeStore_inv lcs_inv_head split: option.splits)
qed (use assms in \<open>simp add: onSyncAggregate_def\<close>)

lemma storeSyncCommittee_inv:
  "lcs_inv lib s \<Longrightarrow> syncCommitteeRoot lib sc = r \<Longrightarrow> lcs_inv lib (storeSyncCommittee sc r s)"
  by (auto simp: storeSyncCommittee_def lcs_inv_def serverDb_ok_def)

lemma storeCommittees_inv:
  assumes "lcs_inv lib s" "syncCommitteeRoot lib (ps_currentSyncCommittee ps) = sw_currentSyncCommitteeRoot w"
    "syncCommitteeRoot lib (ps_nextSyncCommittee ps) = sw_nextSyncCommitteeRoot w"
  shows "lcs_inv lib (storeNextCommittee slot ps w parent (storeFirstCommittees ps w s))"
proof -
  have keep: "lcs_inv lib t \<Longrightarrow> lcs_inv lib (t\<lparr>storedCurrentSyncCommittee := b\<rparr>)"
    "lcs_inv lib t \<Longrightarrow> lcs_inv lib (t\<lparr>knownSyncCommittee := m\<rparr>)" for t b m
    by (auto simp: lcs_inv_def serverDb_ok_def)
  have "lcs_inv lib (storeFirstCommittees ps w s)"
    using assms by (auto simp: storeFirstCommittees_def intro!: keep(1) storeSyncCommittee_inv)
  with assms(3) show ?thesis
    by (auto simp: storeNextCommittee_def Let_def intro!: storeSyncCommittee_inv keep(2) split: option.splits)
qed

lemma persist_inv:
  assumes inv: "lcs_inv (clientLib lib) s" and ok: "import_ok lib block ps"
  shows "lcs_inv (clientLib lib) (snd (persistPostBlockImportData lib block ps parent s))"
proof (cases "getSyncCommitteesWitness (clientLib lib) (ps_tree ps)")
  case None
  with inv show ?thesis
    by (simp add: persistPostBlockImportData_def Let_def)
next
  case (Some w)
  let ?L = "clientLib lib" and ?h = "blockHeader lib block"
  let ?s1 = "storeNextCommittee (lb_slot block) ps w parent (storeFirstCommittees ps w s)"
  let ?d = "\<lparr>sa_attestedHeader = ?h, sa_blockRoot = headerRoot ?L ?h, sa_finality = finalityOf lib (lb_slot block) ps\<rparr>"
  have h: "bh_slot ?h = lb_slot block" "bh_stateRoot ?h = mroot ?L (ps_tree ps)"
    using ok by (simp_all add: blockHeader_def import_ok_def)
  note w = getSyncCommitteesWitness_siblings [OF Some]
  have wok: "witness_ok ?L ?h w"
    using w branch_valid [of 5 22 "ps_tree ps" ?L] branch_valid [of 5 23 "ps_tree ps" ?L]
    by (simp add: witness_ok_def h)
  have s1: "lcs_inv ?L ?s1"
    using w ok by (intro storeCommittees_inv inv) (simp_all add: import_ok_def)
  have d: "attested_ok ?L ?d"
    using ok branch_valid [of 6 41 "ps_tree ps" ?L]
    by (auto simp: attested_ok_def h finality_ok_def finalityOf_def Let_def import_ok_def split: if_splits)
  have p: "attested_ok ?L x" if "jm_get (pruneSetToMax n (jm_set k ?d (prevHeadData ?s1))) r = Some x" for n k r x
    using pruneSetToMax_get [OF that] d s1 by (auto simp: lcs_inv_def split: if_splits)
  have "header_at ?L (headerRoot ?L ?h) ?h"
    using ok by (simp add: header_at_def h import_ok_def)
  with wok s1 show ?thesis
    by (auto simp: persistPostBlockImportData_def Some Let_def lcs_inv_def serverDb_ok_def dest: p)
qed

lemma lcs_reach_inv: "lcs_reach lib s \<Longrightarrow> lcs_inv (clientLib lib) s"
proof (induction rule: lcs_reach.induct)
  case start
  then show ?case
    by (simp add: lcs_inv_def serverDb_ok_def new_LightClientServer_def)
next
  case (import s block ps parentBlock)
  then show ?case
    by (simp add: onImportBlock_def persist_inv onSyncAggregate_inv)
next
  case (prune s roots)
  then show ?case
    by (auto simp: lcs_inv_def serverDb_ok_def pruneNonCheckpointData_def fold_delete_get)
qed

section \<open>What is served is accepted\<close>

lemma lcs_inv_db:
  assumes "lcs_inv lib s"
  shows "jm_get (db_syncCommitteeWitness s) r = Some w \<Longrightarrow> \<exists>h. jm_get (db_checkpointHeader s) r = Some h \<and> witness_ok lib h w"
    "jm_get (db_checkpointHeader s) r = Some h \<Longrightarrow> header_at lib r h"
    "jm_get (db_syncCommittee s) r = Some sc \<Longrightarrow> syncCommitteeRoot lib sc = r"
    "jm_get (db_bestPartialLightClientUpdate s) p = Some pu \<Longrightarrow> update_ok lib p pu"
  using assms by (simp_all add: lcs_inv_def serverDb_ok_def)

lemma header_at_nonempty: "header_at lib r h \<Longrightarrow> \<not> isEmptyHeader h"
  by (cases h) (auto simp: header_at_def isEmptyHeader_def emptyHeader_def)

text \<open>
  C25. Along any imports and prunings, every snapshot that getSnapshot serves for a block root passes the checks of
  initializeFromCheckpointRoot for that root: the header has this root and the branch of the current
  sync committee is valid, so the client starts from the snapshot.
\<close>

theorem lcs_snapshot_accepted:
  assumes "lcs_reach lib s" "lcs_getSnapshot r s = Inr sn"
  shows "initializeFromCheckpointRoot (clientLib lib) r sn = new_Lightclient (clientLib lib) sn \<and>
    headerRoot (clientLib lib) (sn_header sn) = r"
proof -
  note inv = lcs_reach_inv [OF assms(1)]
  from assms(2) obtain w sc h where w: "jm_get (db_syncCommitteeWitness s) r = Some w"
    "jm_get (db_syncCommittee s) (sw_currentSyncCommitteeRoot w) = Some sc" "jm_get (db_checkpointHeader s) r = Some h"
    "sn = \<lparr>sn_header = h, sn_currentSyncCommittee = sc, sn_currentSyncCommitteeBranch = getCurrentSyncCommitteeBranch w\<rparr>"
    by (auto simp: lcs_getSnapshot_def split: option.splits)
  then have "witness_ok (clientLib lib) h w" "headerRoot (clientLib lib) h = r"
    "syncCommitteeRoot (clientLib lib) sc = sw_currentSyncCommitteeRoot w"
    using lcs_inv_db(1,2) [OF inv, of r] lcs_inv_db(3) [OF inv] by (auto simp: header_at_def)
  then show ?thesis
    by (simp add: w(4) initializeFromCheckpointRoot_def witness_ok_def
      CURRENT_SYNC_COMMITTEE_DEPTH_def CURRENT_SYNC_COMMITTEE_INDEX_def)
qed

text \<open>A stored header with the root of this one that is another header.\<close>

definition headerCollision :: "'pk lc_lib \<Rightarrow> lc_server \<Rightarrow> block_header \<Rightarrow> bool" where
  "headerCollision lib s h \<longleftrightarrow> (\<exists>r h'. jm_get (db_checkpointHeader s) r = Some h' \<and> h' \<noteq> h \<and> headerRoot lib h' = headerRoot lib h)"

lemma lcs_update_cases:
  assumes "lcs_getCommitteeUpdate lib p s = Inr u"
  obtains (final) pu fd h w nsc where "jm_get (db_bestPartialLightClientUpdate s) p = Some pu"
      "pu_finality pu = Some (fd, h)" "jm_get (db_syncCommitteeWitness s) (rc_root (fd_finalizedCheckpoint fd)) = Some w"
      "jm_get (db_syncCommittee s) (sw_nextSyncCommitteeRoot w) = Some nsc"
      "attestedHeader u = pu_attestedHeader pu" "nextSyncCommittee u = nsc"
      "nextSyncCommitteeBranch u = getNextSyncCommitteeBranch w" "finalizedHeader u = h" "finalityBranch u = fd_finalityBranch fd"
  | (nonfinal) pu w nsc where "jm_get (db_bestPartialLightClientUpdate s) p = Some pu"
      "pu_finality pu = None" "jm_get (db_syncCommitteeWitness s) (pu_blockRoot pu) = Some w"
      "jm_get (db_syncCommittee s) (sw_nextSyncCommitteeRoot w) = Some nsc"
      "attestedHeader u = pu_attestedHeader pu" "nextSyncCommittee u = nsc"
      "nextSyncCommitteeBranch u = getNextSyncCommitteeBranch w" "finalizedHeader u = emptyHeader"
      "finalityBranch u = replicate FINALIZED_ROOT_DEPTH ZERO_HASH"
  using assms by (auto simp: lcs_getCommitteeUpdate_def Let_def split: option.splits prod.splits)

lemma lcs_update_committee:
  assumes inv: "lcs_inv L s" and w: "jm_get (db_syncCommitteeWitness s) r = Some w"
    and sc: "jm_get (db_syncCommittee s) (sw_nextSyncCommitteeRoot w) = Some (nextSyncCommittee u)"
    and b: "nextSyncCommitteeBranch u = getNextSyncCommitteeBranch w"
    and a: "headerRoot L (activeHeader u) = r" and c: "\<not> headerCollision L s (activeHeader u)"
  shows "assertValidSyncCommitteeProof L u = Inr ()"
proof -
  from lcs_inv_db(1) [OF inv w] obtain h where h: "jm_get (db_checkpointHeader s) r = Some h" "witness_ok L h w"
    by blast
  from lcs_inv_db(2) [OF inv h(1)] lcs_inv_db(3) [OF inv sc] have "headerRoot L h = r"
    "syncCommitteeRoot L (nextSyncCommittee u) = sw_nextSyncCommitteeRoot w"
    by (simp_all add: header_at_def)
  moreover from this h(1) a c have "h = activeHeader u"
    by (auto simp: headerCollision_def)
  moreover note h(2)
  ultimately show ?thesis
    by (simp add: assertValidSyncCommitteeProof_def witness_ok_def b NEXT_SYNC_COMMITTEE_DEPTH_def NEXT_SYNC_COMMITTEE_INDEX_def)
qed

text \<open>
  C24. Along any imports and prunings, unless another header with the same root as that of the update is stored, the update
  that getCommitteeUpdates serves for a period attests a header of that period and passes every check of
  assertValidLightClientUpdate but two: the signature, which is left to the client's committee, and
  for a finalized update that the finalized header lies in the same period. The server compares the
  period of the finalized epoch instead, so when the first slot of a period's epoch is empty and the
  epoch is finalized with a block of the period before, the client refuses what the server serves.
\<close>

theorem lcs_update_accepted:
  assumes "lcs_reach lib s" "lcs_getCommitteeUpdate lib p s = Inr u" "\<not> headerCollision (clientLib lib) s (activeHeader u)"
  shows "computeSyncPeriodAtSlot (bh_slot (attestedHeader u)) = p \<and>
    assertValidLightClientUpdate (clientLib lib) sc u =
      (if \<not> isEmptyHeader (finalizedHeader u) \<and> computeSyncPeriodAtSlot (bh_slot (finalizedHeader u)) \<noteq> p
       then Inl (FinalityPeriodMismatch (computeSyncPeriodAtSlot (bh_slot (finalizedHeader u))) p)
       else assertValidSignedHeader (clientLib lib) sc (syncAggregate u)
         (headerRoot (clientLib lib) (attestedHeader u)) (bh_slot (attestedHeader u)))"
  using assms(2)
proof (cases rule: lcs_update_cases)
  case (final pu fd h w nsc)
  note inv = lcs_reach_inv [OF assms(1)]
  with final have ok: "update_ok (clientLib lib) p pu" by (simp add: lcs_inv_db(4))
  with final have h: "headerRoot (clientLib lib) h = rc_root (fd_finalizedCheckpoint fd)" "\<not> isEmptyHeader h"
    and p: "computeSyncPeriodAtSlot (bh_slot (attestedHeader u)) = p" and f: "finality_ok (clientLib lib) (attestedHeader u) fd"
    using header_at_nonempty by (auto simp: update_ok_def header_at_def)
  have "assertValidSyncCommitteeProof (clientLib lib) u = Inr ()"
    using final h by (intro lcs_update_committee [OF inv _ _ _ _ assms(3)]) (simp_all add: activeHeader_def)
  with final h p f show ?thesis
    by (simp add: assertValidLightClientUpdate_def assertValidFinalityProof_def finality_ok_def Let_def
      FINALIZED_ROOT_DEPTH_def FINALIZED_ROOT_INDEX_def)
next
  case (nonfinal pu w nsc)
  note inv = lcs_reach_inv [OF assms(1)]
  with nonfinal have ok: "update_ok (clientLib lib) p pu" by (simp add: lcs_inv_db(4))
  with nonfinal have p: "computeSyncPeriodAtSlot (bh_slot (attestedHeader u)) = p"
    and r: "headerRoot (clientLib lib) (attestedHeader u) = pu_blockRoot pu"
    by (auto simp: update_ok_def)
  have e: "isEmptyHeader emptyHeader"
    by (simp add: isEmptyHeader_def)
  have "assertValidSyncCommitteeProof (clientLib lib) u = Inr ()"
    using nonfinal r e by (intro lcs_update_committee [OF inv _ _ _ _ assms(3)]) (simp_all add: activeHeader_def)
  moreover have "assertZeroHashes (finalityBranch u) FINALIZED_ROOT_DEPTH = Inr ()"
    by (simp add: nonfinal assertZeroHashes_def isZeroHash_def ZERO_HASH_def list_all_length)
  ultimately show ?thesis
    using nonfinal p e by (simp add: assertValidLightClientUpdate_def)
qed

text \<open>
  The better-than check looks at what is attested, before the finalized header is looked up. When the
  server does not have this header, a stored update with more participants is
  replaced by one that is not finalized either and has fewer, as long as those are more than two thirds.
\<close>

lemma lcs_worse_replaces:
  assumes "jm_get (db_bestPartialLightClientUpdate s) (computeSyncPeriodAtSlot (bh_slot (sa_attestedHeader d))) = Some prev"
    "pu_finality prev = None" "sa_finality d = Some fd"
    "2 * SYNC_COMMITTEE_SIZE < 3 * sumBits (syncCommitteeBits agg)"
    "jm_get (checkpointHeaders s) (rc_root (fd_finalizedCheckpoint fd)) = None"
    "jm_get (db_checkpointHeader s) (rc_root (fd_finalizedCheckpoint fd)) = None"
  shows "\<exists>pu. jm_get (db_bestPartialLightClientUpdate (maybeStoreNewBestPartialUpdate agg d s))
      (computeSyncPeriodAtSlot (bh_slot (sa_attestedHeader d))) = Some pu \<and>
    pu_finality pu = None \<and> pu_syncAggregate pu = agg"
  using assms by (simp add: maybeStoreNewBestPartialUpdate_def isBetterPartialUpdate_def newPartialUpdate_def
    getFinalizedHeader_def Let_def)

end
