(* ===== verification/LightClientExamples.thy ===== *)
theory LightClientExamples
  imports LightClientSpec JsText "HOL-Library.Code_Target_Nat"
begin

text \<open>
  A concrete light client, evaluated in the kernel, at which the properties of its runs are applied.
\<close>

section \<open>The libraries\<close>

text \<open>A schedule with an altair fork at epoch 2.\<close>

definition lcx_config_lib :: config_lib where
  "lcx_config_lib = \<lparr>forkDataHashTreeRoot = (\<lambda>v r. take 4 (v @ replicate 4 0) @ take 28 r), sszToHexString = toHexString\<rparr>"

definition lcx_forks :: fork_settings where
  "lcx_forks = \<lparr>GENESIS_FORK_VERSION = [0, 0, 0, 0], ALTAIR_FORK_EPOCH = 2, ALTAIR_FORK_VERSION = [1, 0, 0, 0],
     BELLATRIX_FORK_EPOCH = \<infinity>, BELLATRIX_FORK_VERSION = [2, 0, 0, 0]\<rparr>"

text \<open>
  A hash that has no collision on the values used, keys that are their bytes, a signature that is
  the keys of the signers followed by the message.
\<close>

definition lcx_lib :: "bytes lc_lib" where
  "lcx_lib = \<lparr>headerRoot = (\<lambda>h. word_of_nat (bh_slot h) # bh_stateRoot h), syncCommitteeRoot = (\<lambda>sc. 5 # sc_aggregatePubkey sc),
     signingDataRoot = (\<lambda>r d. r @ d), hash2 = (\<lambda>a b. word_of_nat (length a) # a @ b),
     lib_config = lcx_config_lib, lib_genesis = createICachedGenesis lcx_config_lib lcx_forks (replicate 32 1), pubkeyFromBytes = Some, aggregatePubkeys = (\<lambda>pks. Some (concat pks)),
     verifySignature = (\<lambda>sig pk msg. Some (sig = pk @ msg))\<rparr>"

definition lcx_cfg :: lc_config where
  "lcx_cfg = \<lparr>lc_SECONDS_PER_SLOT = 12, lc_genesisTime = 0\<rparr>"

definition lcx_committee :: "8 word \<Rightarrow> sync_committee" where
  "lcx_committee k = \<lparr>sc_pubkeys = [[k, 1], [k, 2], [k, 3]], sc_aggregatePubkey = [k]\<rparr>"

definition lcx_header :: "slot \<Rightarrow> bytes \<Rightarrow> block_header" where
  "lcx_header slot r = emptyHeader\<lparr>bh_slot := slot, bh_stateRoot := r\<rparr>"

definition lcx_branchRoot :: "nat \<Rightarrow> bytes \<Rightarrow> bytes" where
  "lcx_branchRoot index leaf = (case branchRoot lcx_lib (replicate 5 [9]) 5 0 index leaf of Inl _ \<Rightarrow> [] | Inr r \<Rightarrow> r)"

section \<open>A run\<close>

text \<open>The snapshot is of period 1 with committee 1; an update of period 1 names committee 2.\<close>

definition lcx_snapshot :: lc_snapshot where
  "lcx_snapshot = \<lparr>sn_header = lcx_header 8200 (lcx_branchRoot CURRENT_SYNC_COMMITTEE_INDEX (syncCommitteeRoot lcx_lib (lcx_committee 1))),
     sn_currentSyncCommittee = lcx_committee 1, sn_currentSyncCommitteeBranch = replicate 5 [9]\<rparr>"

definition lcx_aggregate :: "8 word \<Rightarrow> bool list \<Rightarrow> block_header \<Rightarrow> sync_aggregate" where
  "lcx_aggregate k bits h = \<lparr>syncCommitteeBits = bits,
     syncCommitteeSignature = (case getParticipantPubkeys (sc_pubkeys (lcx_committee k)) bits of Inl _ \<Rightarrow> [] | Inr pks \<Rightarrow> concat pks)
       @ headerRoot lcx_lib h @ fst (getDomain lcx_config_lib DOMAIN_SYNC_COMMITTEE (bh_slot h) (lib_genesis lcx_lib))\<rparr>"

definition lcx_update :: light_client_update where
  "lcx_update = (let h = lcx_header 8300 (lcx_branchRoot NEXT_SYNC_COMMITTEE_INDEX (syncCommitteeRoot lcx_lib (lcx_committee 2))) in
     \<lparr>attestedHeader = h, nextSyncCommittee = lcx_committee 2, nextSyncCommitteeBranch = replicate 5 [9],
      finalizedHeader = emptyHeader, finalityBranch = replicate 6 (replicate 32 0),
      syncAggregate = lcx_aggregate 1 [True, False, True] h, forkVersion = [0, 0, 0, 0]\<rparr>)"

definition lcx_now :: int where
  "lcx_now = 200000000"

definition lcx_s0 :: "bytes lightclient" where
  "lcx_s0 = (case initializeFromCheckpointRoot lcx_lib (headerRoot lcx_lib (sn_header lcx_snapshot)) lcx_snapshot of Inr s \<Rightarrow> s | Inl _ \<Rightarrow> undefined)"

definition lcx_s1 :: "bytes lightclient" where
  "lcx_s1 = snd (processSyncCommitteeUpdate lcx_lib lcx_cfg lcx_now lcx_update lcx_s0)"

text \<open>A header of period 2, signed by two of committee 2.\<close>

definition lcx_h2 :: block_header where
  "lcx_h2 = lcx_header 16384 [1]"

definition lcx_s2 :: "bytes lightclient" where
  "lcx_s2 = snd (processHeaderUpdate lcx_lib lcx_cfg lcx_now lcx_h2 (lcx_aggregate 2 [False, True, True] lcx_h2) lcx_s1)"

lemma lcx_s0: "new_Lightclient lcx_lib lcx_snapshot = Inr lcx_s0"
  "initializeFromCheckpointRoot lcx_lib (headerRoot lcx_lib (sn_header lcx_snapshot)) lcx_snapshot = Inr lcx_s0"
  by code_simp+

lemma lcx_s1: "processSyncCommitteeUpdate lcx_lib lcx_cfg lcx_now lcx_update lcx_s0 = (Inr (), lcx_s1)"
  by code_simp

lemma lcx_s2: "processHeaderUpdate lcx_lib lcx_cfg lcx_now lcx_h2 (lcx_aggregate 2 [False, True, True] lcx_h2) lcx_s1 = (Inr (), lcx_s2)"
  by code_simp

lemma lcx_s2_state: "jm_keys (syncCommitteeByPeriod lcx_s2) = [1, 2]" "head_participation (lc_head lcx_s2) = 2"
  "head_header (lc_head lcx_s2) = lcx_h2" "lc_events lcx_s2 = [CommitteeEvent 1, HeadEvent lcx_h2]"
proof -
  have "let s = lcx_s2 in jm_keys (syncCommitteeByPeriod s) = [1, 2] \<and> head_participation (lc_head s) = 2 \<and>
      head_header (lc_head s) = lcx_h2 \<and> lc_events s = [CommitteeEvent 1, HeadEvent lcx_h2]"
    by code_simp
  then show "jm_keys (syncCommitteeByPeriod lcx_s2) = [1, 2]" "head_participation (lc_head lcx_s2) = 2"
    "head_header (lc_head lcx_s2) = lcx_h2" "lc_events lcx_s2 = [CommitteeEvent 1, HeadEvent lcx_h2]"
    by (simp_all add: Let_def)
qed

lemma lcx_reach: "lc_reach lcx_lib lcx_cfg lcx_snapshot lcx_s1" "lc_reach lcx_lib lcx_cfg lcx_snapshot lcx_s2"
proof -
  show 1: "lc_reach lcx_lib lcx_cfg lcx_snapshot lcx_s1"
    by (rule lc_reach.step [OF lc_reach.init [OF lcx_s0(1)] lc_step.committee [OF lcx_s1]])
  show "lc_reach lcx_lib lcx_cfg lcx_snapshot lcx_s2"
    by (rule lc_reach.step [OF 1 lc_step.header [OF lcx_s2]])
qed

section \<open>Witnesses\<close>

theorem getDomain_active_witness:
  "\<exists>f \<in> set (forks lcx_forks). fi_epoch f \<le> enat (100 div SLOTS_PER_EPOCH) \<and>
    fst (getDomain lcx_config_lib [7, 0, 0, 0] 100 (getDomains lcx_config_lib [([7, 0, 0, 0], 3), ([1, 0, 0, 0], 90)]
      (createICachedGenesis lcx_config_lib lcx_forks (replicate 32 1)))) =
    [7, 0, 0, 0] @ take 28 (forkDataHashTreeRoot lcx_config_lib (fi_version f) (replicate 32 1))"
proof -
  have "ALTAIR_FORK_EPOCH lcx_forks \<le> BELLATRIX_FORK_EPOCH lcx_forks"
    "\<And>v. length (forkDataHashTreeRoot lcx_config_lib v (replicate 32 1)) = 32"
    by (simp_all add: lcx_forks_def lcx_config_lib_def min_def)
  from getDomain_active [OF this(1) _ this(2), of "[7, 0, 0, 0]" 100 "[([7, 0, 0, 0], 3), ([1, 0, 0, 0], 90)]"]
  show ?thesis
    by (elim impE meta_impE bexE) (simp, blast)
qed

theorem forkDigest_roundtrip_witness:
  "\<exists>digest. forkName2ForkDigest (createICachedGenesis lcx_config_lib lcx_forks (replicate 32 1)) Altair = Some digest \<and>
    forkDigest2ForkName lcx_config_lib (createICachedGenesis lcx_config_lib lcx_forks (replicate 32 1)) (IsBytes digest) = Some Altair"
proof -
  let ?f = "\<lparr>fi_name = Altair, fi_epoch = 2, fi_version = [1, 0, 0, 0]\<rparr>"
  have "distinct (map (digestHex lcx_config_lib (replicate 32 1)) (forks lcx_forks))"
    "digestHex lcx_config_lib (replicate 32 1) ?f \<noteq> []"
    "strip0xPrefix (digestHex lcx_config_lib (replicate 32 1) ?f) = digestHex lcx_config_lib (replicate 32 1) ?f"
    by code_simp+
  moreover have "?f \<in> set (forks lcx_forks)"
    by (simp add: forks_def lcx_forks_def)
  ultimately show ?thesis
    using forkDigest_roundtrip [of lcx_config_lib "replicate 32 1" lcx_forks ?f] by auto
qed

theorem lc_reach_trusted_witness:
  "head_header (lc_head lcx_s2) = lcx_h2 \<and> lc_trust lcx_lib lcx_snapshot lcx_s2"
  using lc_reach_trusted [OF lcx_reach(2)] lcx_s2_state by simp

theorem lc_reach_periods_witness:
  "\<exists>p \<ge> 1. lc_periods p lcx_s1 \<and> (lc_periods p lcx_s2 \<or> lc_periods (Suc p) lcx_s2)"
proof -
  have "computeSyncPeriodAtSlot (bh_slot (sn_header lcx_snapshot)) = 1"
    by code_simp
  with lc_reach_periods [OF lcx_reach(1) lc_step.header [OF lcx_s2]] show ?thesis
    by (simp only:)
qed

theorem processHeaderUpdate_spec_witness:
  "(head_header (lc_head lcx_s2), head_participation (lc_head lcx_s2)) = (lcx_h2, 2) \<and> 1 \<le> sumBits [False, True, True]"
proof -
  have "1 \<le> sumBits (syncCommitteeBits (lcx_aggregate 2 [False, True, True] lcx_h2))"
    using processHeaderUpdate_spec [OF lcx_s2] by blast
  with lcx_s2_state show ?thesis
    by (simp add: lcx_aggregate_def)
qed

definition lcx_tree :: mtree where
  "lcx_tree = MNode (MNode (MLeaf [1]) (MLeaf [2])) (MNode (MLeaf [3]) (MLeaf [4]))"

theorem isValidMerkleBranch_sound_witness:
  "isValidMerkleBranch lcx_lib [3] [[4], [2, 1, 1]] 2 2 (mroot lcx_lib lcx_tree) = Inr False \<and>
   isValidMerkleBranch lcx_lib [3] [[4], [1, 1, 2]] 2 2 (mroot lcx_lib lcx_tree) = Inr True"
proof -
  have "reaches 2 2 lcx_tree" "valueAt lcx_lib 2 2 lcx_tree = [3]" "siblings lcx_lib 2 2 lcx_tree = [[4], [1, 1, 2]]"
    by (simp_all add: lcx_tree_def lcx_lib_def siblingOnLeft_def eval_nat_numeral)
  moreover have "isValidMerkleBranch lcx_lib [3] [[4], [2, 1, 1]] 2 2 (mroot lcx_lib lcx_tree) = Inr False"
    by code_simp
  ultimately show ?thesis
    using isValidMerkleBranch_sound [of 2 2 lcx_tree "[[4], [1, 1, 2]]" lcx_lib "[3]"]
    by simp
qed

theorem chunkify_cover_witness:
  "chunkifyInclusiveRange 3 9 3 = [(3, 5), (6, 8), (9, 9)] \<and>
   concat (map (\<lambda>(x, y). [x..y]) (chunkifyInclusiveRange 3 9 3)) = [3..9]"
proof -
  have "chunkifyInclusiveRange 3 9 3 = [(3, 5), (6, 8), (9, 9)]"
    by code_simp
  with chunkify_cover [of 3 9 3] show ?thesis
    by simp
qed

definition lcx_stats :: "bool \<Rightarrow> nat \<Rightarrow> update_stats" where
  "lcx_stats fin n = \<lparr>us_isFinalized = fin, us_participation = n, us_slot = 9\<rparr>"

theorem isBetterUpdate_order_witness:
  "isBetterUpdate (lcx_stats False 500) (lcx_stats True 400) \<and> isBetterUpdate (lcx_stats True 400) (lcx_stats False 500)"
  using isBetterUpdate_order [of "lcx_stats False 500" "lcx_stats True 400"]
  by (simp add: lcx_stats_def SYNC_COMMITTEE_SIZE_def)

end
