(* ===== verification/LightClientServerExamples.thy ===== *)
theory LightClientServerExamples
  imports LightClientServerSpec LightClientExamples
begin

text \<open>
  A concrete server and client, evaluated in the kernel, at which the properties of the server and of
  the run loop are applied.
\<close>

section \<open>A server\<close>

text \<open>The libraries of the client example, with a hash of one byte.\<close>

definition lcx_lib1 :: "bytes lc_lib" where
  "lcx_lib1 = lcx_lib\<lparr>headerRoot := (\<lambda>h. [word_of_nat (bh_slot h)]), hash2 := (\<lambda>a b. [sum_list a + 3 * sum_list b + 1])\<rparr>"

definition lcx_sign :: "8 word \<Rightarrow> bool list \<Rightarrow> root \<Rightarrow> slot \<Rightarrow> sync_aggregate" where
  "lcx_sign k bits r slot = \<lparr>syncCommitteeBits = bits,
     syncCommitteeSignature = (case getParticipantPubkeys (sc_pubkeys (lcx_committee k)) bits of Inl _ \<Rightarrow> [] | Inr pks \<Rightarrow> concat pks)
       @ r @ fst (getDomain lcx_config_lib DOMAIN_SYNC_COMMITTEE slot (lib_genesis lcx_lib))\<rparr>"

text \<open>A state tree with leaf 41 the finalized root and leaves 22 and 23 the roots of the committees.\<close>

definition lcx_stateTree :: "root \<Rightarrow> root \<Rightarrow> root \<Rightarrow> mtree" where
  "lcx_stateTree fin cur nxt =
     MNode (MLeaf [2]) (MNode (MNode (MLeaf [12]) (MNode (MNode (MNode (MLeaf [104]) (MLeaf fin)) (MLeaf [53]))
       (MNode (MLeaf cur) (MLeaf nxt)))) (MLeaf [7]))"

fun lcx_proof :: "mtree \<Rightarrow> bytes list" where
  "lcx_proof (MNode n2 (MNode (MNode n12 (MNode (MNode (MNode n104 n105) n53) n27)) n7)) =
     map (mroot lcx_lib1) [n104, n53, n27, n12, n7, n2]"
| "lcx_proof t = []"

definition lcx_slib :: "(bytes, bytes) lcs_lib" where
  "lcx_slib = \<lparr>clientLib = lcx_lib1, getSingleProof = (\<lambda>t g. lcx_proof t), bodyHashTreeRoot = (\<lambda>f b. b)\<rparr>"

definition lcx_post :: "root_checkpoint \<Rightarrow> 8 word \<Rightarrow> post_state" where
  "lcx_post cp k = \<lparr>ps_tree = lcx_stateTree (rc_root cp) (syncCommitteeRoot lcx_lib1 (lcx_committee k)) (syncCommitteeRoot lcx_lib1 (lcx_committee (k + 1))),
     ps_currentSyncCommittee = lcx_committee k, ps_nextSyncCommittee = lcx_committee (k + 1), ps_finalizedCheckpoint = cp\<rparr>"

definition lcx_lcBlock :: "slot \<Rightarrow> root \<Rightarrow> post_state \<Rightarrow> sync_aggregate \<Rightarrow> bytes lc_block" where
  "lcx_lcBlock slot parent ps agg = \<lparr>lb_slot = slot, lb_proposerIndex = 3, lb_parentRoot = parent,
     lb_stateRoot = mroot lcx_lib1 (ps_tree ps), lb_body = [8], lb_syncAggregate = agg\<rparr>"

lemma lcx_import_ok: "0 < slot \<Longrightarrow> import_ok lcx_slib (lcx_lcBlock slot parent (lcx_post cp k) agg) (lcx_post cp k)"
proof -
  have bits: "siblingOnLeft 22 4" "\<not> siblingOnLeft 22 3" "siblingOnLeft 22 2" "siblingOnLeft 22 (Suc 0)" "\<not> siblingOnLeft 22 0"
    "siblingOnLeft 23 4" "\<not> siblingOnLeft 23 3" "siblingOnLeft 23 2" "siblingOnLeft 23 (Suc 0)" "siblingOnLeft 23 0"
    "siblingOnLeft 41 5" "\<not> siblingOnLeft 41 4" "siblingOnLeft 41 3" "\<not> siblingOnLeft 41 2" "\<not> siblingOnLeft 41 (Suc 0)" "siblingOnLeft 41 0"
    by (simp_all add: siblingOnLeft_def)
  then show "0 < slot \<Longrightarrow> import_ok lcx_slib (lcx_lcBlock slot parent (lcx_post cp k) agg) (lcx_post cp k)"
    by (simp add: import_ok_def lcx_slib_def lcx_lcBlock_def lcx_post_def lcx_stateTree_def numeral_eq_Suc)
qed

text \<open>
  Block A is the last of period 1. The first slots of period 2 are empty, so that the first checkpoint
  of period 2, which is finalized in block B, has block A as its root.
\<close>

definition lcx_genesisCheckpoint :: root_checkpoint where
  "lcx_genesisCheckpoint = \<lparr>rc_epoch = 0, rc_root = ZERO_HASH\<rparr>"

definition lcx_blockA :: "bytes lc_block" where
  "lcx_blockA = lcx_lcBlock 16383 [0] (lcx_post lcx_genesisCheckpoint 1) (lcx_sign 1 [] [0] 0)"

definition lcx_checkpointA :: root_checkpoint where
  "lcx_checkpointA = \<lparr>rc_epoch = 512, rc_root = [255]\<rparr>"

definition lcx_blockB :: "bytes lc_block" where
  "lcx_blockB = lcx_lcBlock 16500 [255] (lcx_post lcx_checkpointA 2) (lcx_sign 1 [True, True, True] [255] 16383)"

definition lcx_blockC :: "bytes lc_block" where
  "lcx_blockC = lcx_lcBlock 16501 [116] (lcx_post lcx_checkpointA 2) (lcx_sign 2 [True, True, False] [116] 16500)"

definition lcx_serverA :: lc_server where
  "lcx_serverA = onImportBlock lcx_slib lcx_blockA (lcx_post lcx_genesisCheckpoint 1) \<lparr>par_blockRoot = [0], par_slot = 16380\<rparr>
     new_LightClientServer"

definition lcx_serverB :: lc_server where
  "lcx_serverB = onImportBlock lcx_slib lcx_blockB (lcx_post lcx_checkpointA 2) \<lparr>par_blockRoot = [255], par_slot = 16383\<rparr> lcx_serverA"

definition lcx_server :: lc_server where
  "lcx_server = onImportBlock lcx_slib lcx_blockC (lcx_post lcx_checkpointA 2) \<lparr>par_blockRoot = [116], par_slot = 16500\<rparr> lcx_serverB"

lemma lcx_server_reach: "lcs_reach lcx_slib lcx_server"
  unfolding lcx_server_def lcx_serverB_def lcx_serverA_def
  by (intro lcs_reach.import lcs_reach.start) (simp_all add: lcx_blockA_def lcx_blockB_def lcx_blockC_def lcx_import_ok)

lemma lcx_roots: "headerRoot lcx_lib1 (blockHeader lcx_slib lcx_blockA) = [255]"
  "headerRoot lcx_lib1 (blockHeader lcx_slib lcx_blockB) = [116]"
  by code_simp+

lemma headerCollision_check:
  "list_all (\<lambda>(r, h'). h' = h \<or> headerRoot lib h' \<noteq> headerRoot lib h) (db_checkpointHeader s) \<Longrightarrow> \<not> headerCollision lib s h"
  by (auto simp: headerCollision_def list_all_iff jm_get_def dest: map_of_SomeD)

definition lcx_served :: "nat \<Rightarrow> light_client_update" where
  "lcx_served p = (case lcs_getCommitteeUpdate lcx_slib p lcx_server of Inr u \<Rightarrow> u | Inl _ \<Rightarrow> lcx_update)"

text \<open>The server is evaluated once, and everything that is needed of it is read off.\<close>

lemma lcx_evaluated: "let s = lcx_server; r1 = lcs_getCommitteeUpdate lcx_slib 1 s; r2 = lcs_getCommitteeUpdate lcx_slib 2 s;
      u1 = (case r1 of Inr u \<Rightarrow> u | Inl _ \<Rightarrow> lcx_update); u2 = (case r2 of Inr u \<Rightarrow> u | Inl _ \<Rightarrow> lcx_update);
      h = activeHeader u2; r = headerRoot lcx_lib1 h
    in \<not> isl r1 \<and> \<not> isl r2 \<and> isEmptyHeader (finalizedHeader u1) \<and> attestedHeader u1 = blockHeader lcx_slib lcx_blockA \<and>
      \<not> isEmptyHeader (finalizedHeader u2) \<and> computeSyncPeriodAtSlot (bh_slot (finalizedHeader u2)) = 1 \<and>
      attestedHeader u2 = blockHeader lcx_slib lcx_blockB \<and>
      list_all (\<lambda>(_, h'). h' = h \<or> headerRoot lcx_lib1 h' \<noteq> r) (db_checkpointHeader s) \<and>
      \<not> isl (lcs_getSnapshot [255] s)"
  by code_simp

lemma case_result: "\<not> isl r \<Longrightarrow> r = Inr (case r of Inr u \<Rightarrow> u | Inl _ \<Rightarrow> d)"
  by (cases r) auto

lemma lcx_served1: "lcs_getCommitteeUpdate lcx_slib 1 lcx_server = Inr (lcx_served 1)"
  "isEmptyHeader (finalizedHeader (lcx_served 1))"
  "attestedHeader (lcx_served 1) = blockHeader lcx_slib lcx_blockA"
  unfolding lcx_served_def using lcx_evaluated [unfolded Let_def] by (blast intro: case_result)+

lemma lcx_served2: "lcs_getCommitteeUpdate lcx_slib 2 lcx_server = Inr (lcx_served 2)"
  "\<not> isEmptyHeader (finalizedHeader (lcx_served 2))"
  "computeSyncPeriodAtSlot (bh_slot (finalizedHeader (lcx_served 2))) = 1"
  "attestedHeader (lcx_served 2) = blockHeader lcx_slib lcx_blockB"
  unfolding lcx_served_def using lcx_evaluated [unfolded Let_def] by (blast intro: case_result)+

lemma lcx_collision: "list_all (\<lambda>(r, h'). h' = activeHeader (lcx_served 2) \<or>
    headerRoot lcx_lib1 h' \<noteq> headerRoot lcx_lib1 (activeHeader (lcx_served 2))) (db_checkpointHeader lcx_server)"
  unfolding lcx_served_def using lcx_evaluated [unfolded Let_def] by blast

definition lcx_snapshotA :: lc_snapshot where
  "lcx_snapshotA = (case lcs_getSnapshot [255] lcx_server of Inr sn \<Rightarrow> sn | Inl _ \<Rightarrow> lcx_snapshot)"

lemma lcx_snapshotA: "lcs_getSnapshot [255] lcx_server = Inr lcx_snapshotA"
  unfolding lcx_snapshotA_def using lcx_evaluated [unfolded Let_def] by (blast intro: case_result)

theorem lcs_snapshot_accepted_witness:
  "initializeFromCheckpointRoot lcx_lib1 [255] lcx_snapshotA = new_Lightclient lcx_lib1 lcx_snapshotA"
  using lcs_snapshot_accepted [OF lcx_server_reach lcx_snapshotA] by (simp add: lcx_slib_def)

text \<open>The update served for period 2 is refused: its finalized header, block A, is of period 1.\<close>

theorem lcs_update_accepted_witness:
  "assertValidLightClientUpdate lcx_lib1 \<lparr>pubkeys = [[2, 1]], aggregatePubkey = [2]\<rparr> (lcx_served 2) = Inl (FinalityPeriodMismatch 1 2)"
  using lcs_update_accepted [OF lcx_server_reach lcx_served2(1), of "\<lparr>pubkeys = [[2, 1]], aggregatePubkey = [2]\<rparr>"]
    headerCollision_check [OF lcx_collision] lcx_served2(2,3)
  by (simp add: lcx_slib_def)

section \<open>A sync that never ends\<close>

text \<open>
  The clock is in period 4, the client of the snapshot in period 1. The first sync takes the updates of
  periods 1 and 2, and fails at the third one.
\<close>

definition lcx_runner :: "bytes runner" where
  "lcx_runner = \<lparr>rn_client = lcx_s0, rn_status = Stopped, rn_tracking = False\<rparr>"

definition lcx_update2 :: light_client_update where
  "lcx_update2 = (let h = lcx_header 16400 (lcx_branchRoot NEXT_SYNC_COMMITTEE_INDEX (syncCommitteeRoot lcx_lib (lcx_committee 3))) in
     \<lparr>attestedHeader = h, nextSyncCommittee = lcx_committee 3, nextSyncCommitteeBranch = replicate 5 [9],
      finalizedHeader = emptyHeader, finalityBranch = replicate 6 (replicate 32 0),
      syncAggregate = lcx_aggregate 2 [True, True, True] h, forkVersion = [0, 0, 0, 0]\<rparr>)"

definition lcx_env :: "light_client_update list \<Rightarrow> loop_env" where
  "lcx_env us = \<lparr>le_now = 400000000, le_api = (\<lambda>lo hi. if lo = 1 then Some (map (Pair 400000000) us) else None),
     le_headUpdate = None, le_lookaheadNow = 400001000, le_lookaheadApi = (\<lambda>lo hi. None), le_stop = False, le_sleepNow = 400001000\<rparr>"

definition lcx_interrupted :: "bytes runner" where
  "lcx_interrupted = snd (runLoopTurn lcx_lib lcx_cfg (lcx_env [lcx_update, lcx_update2, lcx_update]) lcx_runner)"

lemma lcx_interrupted_evaluated: "case runLoopTurn lcx_lib lcx_cfg (lcx_env [lcx_update, lcx_update2, lcx_update]) lcx_runner of
    (turn, r) \<Rightarrow> turn = Retry \<and> jm_keys (syncCommitteeByPeriod (rn_client r)) = [2, 3] \<and>
      computeSyncPeriodAtSlot (bh_slot (head_header (lc_head (rn_client r)))) = 1"
  by code_simp

lemma lcx_interrupted: "fst (runLoopTurn lcx_lib lcx_cfg (lcx_env [lcx_update, lcx_update2, lcx_update]) lcx_runner) = Retry"
  "jm_keys (syncCommitteeByPeriod (rn_client lcx_interrupted)) = [2, 3]"
  "computeSyncPeriodAtSlot (bh_slot (head_header (lc_head (rn_client lcx_interrupted)))) = 1"
  using lcx_interrupted_evaluated by (simp_all add: lcx_interrupted_def split: prod.splits)

lemma lcx_interrupted_missing: "jm_get (syncCommitteeByPeriod (rn_client lcx_interrupted)) 1 = None"
  "jm_get (syncCommitteeByPeriod (rn_client lcx_interrupted)) 4 = None"
  using lcx_interrupted(2) by (auto simp: jm_keys_def jm_get_def map_of_eq_None_iff simp flip: set_map)

theorem runLoop_stuck_witness:
  "\<exists>t. runLoopTurn lcx_lib lcx_cfg (lcx_env [lcx_update, lcx_update2]) lcx_interrupted = (Retry, t) \<and>
     rn_client t = rn_client lcx_interrupted"
proof -
  have p: "clockPeriod (clockEpoch (lc_currentSlot lcx_cfg (le_now (lcx_env [lcx_update, lcx_update2])))) = 4"
    "computeSyncPeriodAtSlot (bh_slot (activeHeader lcx_update)) = 1"
    by code_simp+
  have "answers_range (le_api (lcx_env [lcx_update, lcx_update2]))"
    by (simp add: answers_range_def lcx_env_def p)
  with runLoop_stuck [of lcx_interrupted "[lcx_env [lcx_update, lcx_update2]]" lcx_cfg lcx_lib] lcx_interrupted lcx_interrupted_missing p
  show ?thesis by auto
qed

end
