(* ===== verification/StateParams.thy ===== *)
theory StateParams
  imports LightClientValidation
begin

text \<open>
  The constants of the mainnet preset that the state transition reads
  (\<open>packages/params/src/presets/mainnet\<close>, \<open>packages/params/src/index.ts\<close>) and the fields of the chain
  configuration (\<open>packages/config/src/chainConfig\<close>). An epoch in a validator's record may be
  \<open>Infinity\<close>, hence an \<open>enat\<close>.
\<close>

section \<open>Phase 0\<close>

definition MAX_COMMITTEES_PER_SLOT :: nat where
  "MAX_COMMITTEES_PER_SLOT = 64"

definition TARGET_COMMITTEE_SIZE :: nat where
  "TARGET_COMMITTEE_SIZE = 128"

definition MAX_VALIDATORS_PER_COMMITTEE :: nat where
  "MAX_VALIDATORS_PER_COMMITTEE = 2048"

definition HYSTERESIS_QUOTIENT :: nat where
  "HYSTERESIS_QUOTIENT = 4"

definition HYSTERESIS_DOWNWARD_MULTIPLIER :: nat where
  "HYSTERESIS_DOWNWARD_MULTIPLIER = 1"

definition HYSTERESIS_UPWARD_MULTIPLIER :: nat where
  "HYSTERESIS_UPWARD_MULTIPLIER = 5"

definition MAX_EFFECTIVE_BALANCE :: nat where
  "MAX_EFFECTIVE_BALANCE = 32000000000"

definition EFFECTIVE_BALANCE_INCREMENT :: nat where
  "EFFECTIVE_BALANCE_INCREMENT = 1000000000"

definition MIN_ATTESTATION_INCLUSION_DELAY :: nat where
  "MIN_ATTESTATION_INCLUSION_DELAY = 1"

definition MIN_SEED_LOOKAHEAD :: nat where
  "MIN_SEED_LOOKAHEAD = 1"

definition EPOCHS_PER_ETH1_VOTING_PERIOD :: nat where
  "EPOCHS_PER_ETH1_VOTING_PERIOD = 64"

definition MIN_EPOCHS_TO_INACTIVITY_PENALTY :: nat where
  "MIN_EPOCHS_TO_INACTIVITY_PENALTY = 4"

definition EPOCHS_PER_HISTORICAL_VECTOR :: nat where
  "EPOCHS_PER_HISTORICAL_VECTOR = 65536"

definition EPOCHS_PER_SLASHINGS_VECTOR :: nat where
  "EPOCHS_PER_SLASHINGS_VECTOR = 8192"

definition BASE_REWARD_FACTOR :: nat where
  "BASE_REWARD_FACTOR = 64"

definition WHISTLEBLOWER_REWARD_QUOTIENT :: nat where
  "WHISTLEBLOWER_REWARD_QUOTIENT = 512"

definition PROPOSER_REWARD_QUOTIENT :: nat where
  "PROPOSER_REWARD_QUOTIENT = 8"

definition INACTIVITY_PENALTY_QUOTIENT :: nat where
  "INACTIVITY_PENALTY_QUOTIENT = 67108864"

definition MIN_SLASHING_PENALTY_QUOTIENT :: nat where
  "MIN_SLASHING_PENALTY_QUOTIENT = 128"

definition PROPORTIONAL_SLASHING_MULTIPLIER :: nat where
  "PROPORTIONAL_SLASHING_MULTIPLIER = 1"

definition MAX_DEPOSITS :: nat where
  "MAX_DEPOSITS = 16"

section \<open>Altair and bellatrix\<close>

definition INACTIVITY_PENALTY_QUOTIENT_ALTAIR :: nat where
  "INACTIVITY_PENALTY_QUOTIENT_ALTAIR = 50331648"

definition MIN_SLASHING_PENALTY_QUOTIENT_ALTAIR :: nat where
  "MIN_SLASHING_PENALTY_QUOTIENT_ALTAIR = 64"

definition PROPORTIONAL_SLASHING_MULTIPLIER_ALTAIR :: nat where
  "PROPORTIONAL_SLASHING_MULTIPLIER_ALTAIR = 2"

definition INACTIVITY_PENALTY_QUOTIENT_BELLATRIX :: nat where
  "INACTIVITY_PENALTY_QUOTIENT_BELLATRIX = 16777216"

definition MIN_SLASHING_PENALTY_QUOTIENT_BELLATRIX :: nat where
  "MIN_SLASHING_PENALTY_QUOTIENT_BELLATRIX = 32"

definition PROPORTIONAL_SLASHING_MULTIPLIER_BELLATRIX :: nat where
  "PROPORTIONAL_SLASHING_MULTIPLIER_BELLATRIX = 3"

section \<open>Constants\<close>

definition FAR_FUTURE_EPOCH :: enat where
  "FAR_FUTURE_EPOCH = \<infinity>"

definition BASE_REWARDS_PER_EPOCH :: nat where
  "BASE_REWARDS_PER_EPOCH = 4"

definition DEPOSIT_CONTRACT_TREE_DEPTH :: nat where
  "DEPOSIT_CONTRACT_TREE_DEPTH = 2 ^ 5"

definition JUSTIFICATION_BITS_LENGTH :: nat where
  "JUSTIFICATION_BITS_LENGTH = 4"

definition DOMAIN_BEACON_PROPOSER :: bytes where
  "DOMAIN_BEACON_PROPOSER = [0, 0, 0, 0]"

definition DOMAIN_BEACON_ATTESTER :: bytes where
  "DOMAIN_BEACON_ATTESTER = [1, 0, 0, 0]"

definition DOMAIN_RANDAO :: bytes where
  "DOMAIN_RANDAO = [2, 0, 0, 0]"

definition DOMAIN_DEPOSIT :: bytes where
  "DOMAIN_DEPOSIT = [3, 0, 0, 0]"

definition DOMAIN_VOLUNTARY_EXIT :: bytes where
  "DOMAIN_VOLUNTARY_EXIT = [4, 0, 0, 0]"

definition TIMELY_SOURCE_FLAG_INDEX :: nat where
  "TIMELY_SOURCE_FLAG_INDEX = 0"

definition TIMELY_TARGET_FLAG_INDEX :: nat where
  "TIMELY_TARGET_FLAG_INDEX = 1"

definition TIMELY_HEAD_FLAG_INDEX :: nat where
  "TIMELY_HEAD_FLAG_INDEX = 2"

definition TIMELY_SOURCE_WEIGHT :: nat where
  "TIMELY_SOURCE_WEIGHT = 14"

definition TIMELY_TARGET_WEIGHT :: nat where
  "TIMELY_TARGET_WEIGHT = 26"

definition TIMELY_HEAD_WEIGHT :: nat where
  "TIMELY_HEAD_WEIGHT = 14"

definition SYNC_REWARD_WEIGHT :: nat where
  "SYNC_REWARD_WEIGHT = 2"

definition PROPOSER_WEIGHT :: nat where
  "PROPOSER_WEIGHT = 8"

definition WEIGHT_DENOMINATOR :: nat where
  "WEIGHT_DENOMINATOR = 64"

definition PARTICIPATION_FLAG_WEIGHTS :: "nat list" where
  "PARTICIPATION_FLAG_WEIGHTS = [TIMELY_SOURCE_WEIGHT, TIMELY_TARGET_WEIGHT, TIMELY_HEAD_WEIGHT]"

definition TARGET_AGGREGATORS_PER_COMMITTEE :: nat where
  "TARGET_AGGREGATORS_PER_COMMITTEE = 16"

definition TARGET_AGGREGATORS_PER_SYNC_SUBCOMMITTEE :: nat where
  "TARGET_AGGREGATORS_PER_SYNC_SUBCOMMITTEE = 16"

definition SYNC_COMMITTEE_SUBNET_COUNT :: nat where
  "SYNC_COMMITTEE_SUBNET_COUNT = 4"

lemmas preset_defs = MAX_COMMITTEES_PER_SLOT_def TARGET_COMMITTEE_SIZE_def HYSTERESIS_QUOTIENT_def
  HYSTERESIS_DOWNWARD_MULTIPLIER_def HYSTERESIS_UPWARD_MULTIPLIER_def MAX_EFFECTIVE_BALANCE_def
  EFFECTIVE_BALANCE_INCREMENT_def

section \<open>The chain configuration\<close>

record state_config =
  sc_forks :: fork_settings
  MIN_PER_EPOCH_CHURN_LIMIT :: nat
  CHURN_LIMIT_QUOTIENT :: nat
  EJECTION_BALANCE :: nat
  MIN_VALIDATOR_WITHDRAWABILITY_DELAY :: nat
  SHARD_COMMITTEE_PERIOD :: nat
  INACTIVITY_SCORE_BIAS :: nat
  INACTIVITY_SCORE_RECOVERY_RATE :: nat
  sc_SECONDS_PER_SLOT :: nat

end
