(* ===== verification/StateMath.thy ===== *)
theory StateMath
  imports Main
begin

text \<open>
  Integer arithmetic (\<open>packages/utils/src/math.ts\<close>) and the attester flags
  (\<open>packages/beacon-state-transition/src/util/attesterStatus.ts\<close>). Both square roots run the same loop, on
  numbers and on \<open>BigInt\<close>.
\<close>

unbundle bit_operations_syntax

section \<open>Integers\<close>

definition bigIntMin :: "nat \<Rightarrow> nat \<Rightarrow> nat" where
  "bigIntMin a b = (if a < b then a else b)"

definition bigIntMax :: "nat \<Rightarrow> nat \<Rightarrow> nat" where
  "bigIntMax a b = (if a > b then a else b)"

definition intDiv :: "nat \<Rightarrow> nat \<Rightarrow> nat" where
  "intDiv dividend divisor = dividend div divisor"

text \<open>The loop, which is entered with \<open>y > 0\<close> only.\<close>

function sqrtLoop :: "nat \<Rightarrow> nat \<Rightarrow> nat \<Rightarrow> nat" where
  "sqrtLoop n x y = (if y < x then sqrtLoop n y (intDiv (y + intDiv n y) 2) else x)"
  by pat_completeness auto
termination
  by (relation "measure (\<lambda>(n, x, y). x)") auto

declare sqrtLoop.simps [simp del]

definition intSqrt :: "nat \<Rightarrow> nat" where
  "intSqrt n = sqrtLoop n n (intDiv (n + 1) 2)"

definition bigIntSqrt :: "nat \<Rightarrow> nat" where
  "bigIntSqrt n = sqrtLoop n n ((n + 1) div 2)"

lemma newton_upper: "k * k \<le> n \<Longrightarrow> 0 < x \<Longrightarrow> k \<le> (x + n div x) div 2" for k n x :: nat
proof -
  assume k: "k * k \<le> n" and x: "0 < x"
  have "(2 * k - x) * x \<le> k * k"
  proof (cases "x \<le> 2 * k")
    case True
    have "int k * int k - (2 * int k - int x) * int x = (int k - int x) * (int k - int x)"
      by (simp add: algebra_simps)
    also have "0 \<le> \<dots>" by simp
    finally have "(2 * int k - int x) * int x \<le> int k * int k" by simp
    moreover have "int (2 * k - x) = 2 * int k - int x"
      using True by (simp add: of_nat_diff)
    ultimately have "int ((2 * k - x) * x) \<le> int (k * k)" by simp
    then show ?thesis by (simp only: of_nat_le_iff)
  qed simp
  with k have "(2 * k - x) * x \<le> n" by simp
  with x have "2 * k - x \<le> n div x"
    by (simp add: less_eq_div_iff_mult_less_eq)
  then have "2 * k \<le> x + n div x" by simp
  then show ?thesis by simp
qed

lemma sqrtLoop_spec:
  assumes "0 < x" "0 < n" "y = (x + n div x) div 2" "\<And>k. k * k \<le> n \<Longrightarrow> k \<le> x"
  shows "sqrtLoop n x y * sqrtLoop n x y \<le> n \<and> (\<forall>k. k * k \<le> n \<longrightarrow> k \<le> sqrtLoop n x y)"
  using assms
proof (induction n x y rule: sqrtLoop.induct)
  case (1 n x y)
  show ?case
  proof (cases "y < x")
    case True
    have up: "k \<le> y" if "k * k \<le> n" for k
      using newton_upper [OF that 1(2)] 1(4) by simp
    from up [of 1] 1(3) have "0 < y" by simp
    from 1(1) [OF True this 1(3) _ up] True show ?thesis
      by (simp add: sqrtLoop.simps [of n x y] intDiv_def)
  next
    case False
    then have "x \<le> n div x" using 1(4) by linarith
    then have "x * x \<le> n"
      using 1(2) by (simp add: less_eq_div_iff_mult_less_eq)
    with False 1(5) show ?thesis
      by (simp add: sqrtLoop.simps [of n x y])
  qed
qed

lemma sqrtLoop_start:
  "sqrtLoop n n ((n + 1) div 2) * sqrtLoop n n ((n + 1) div 2) \<le> n \<and>
    (\<forall>k. k * k \<le> n \<longrightarrow> k \<le> sqrtLoop n n ((n + 1) div 2))"
proof (cases "n = 0")
  case False
  then have pos: "0 < n" by simp
  then have start: "(n + 1) div 2 = (n + n div n) div 2" by simp
  show ?thesis
    by (rule sqrtLoop_spec [OF pos pos start]) (rule le_trans [OF le_square])
next
  case True
  then show ?thesis
    by (simp add: sqrtLoop.simps [of 0])
qed

lemma intSqrt_bounds: "intSqrt n * intSqrt n \<le> n \<and> n < Suc (intSqrt n) * Suc (intSqrt n) \<and> bigIntSqrt n = intSqrt n"
proof -
  define s where "s = sqrtLoop n n ((n + 1) div 2)"
  have s: "s * s \<le> n" "\<forall>k. k * k \<le> n \<longrightarrow> k \<le> s"
    using sqrtLoop_start [of n] unfolding s_def [symmetric] by simp_all
  have "\<not> Suc s * Suc s \<le> n"
    using s(2) [rule_format, of "Suc s"] by auto
  moreover have "intSqrt n = s" "bigIntSqrt n = s"
    by (simp_all only: intSqrt_def bigIntSqrt_def intDiv_def s_def)
  ultimately show ?thesis
    using s(1) by (simp only: not_le)
qed

lemma bigIntSqrt_pos: "0 < n \<Longrightarrow> 0 < bigIntSqrt n"
  using intSqrt_bounds [of n] by (cases "bigIntSqrt n") auto

text \<open>
  The integer square roots of \<open>utils/math.ts\<close>, over numbers and over big integers, end on every input
  and return the largest number whose square is not above it; both loops give the same.
\<close>

theorem intSqrt_largest: "intSqrt n * intSqrt n \<le> n \<and> n < Suc (intSqrt n) * Suc (intSqrt n) \<and> bigIntSqrt n = intSqrt n"
  by (rule intSqrt_bounds)

section \<open>Attester flags\<close>

definition FLAG_PREV_SOURCE_ATTESTER :: nat where
  "FLAG_PREV_SOURCE_ATTESTER = push_bit 0 1"

definition FLAG_PREV_TARGET_ATTESTER :: nat where
  "FLAG_PREV_TARGET_ATTESTER = push_bit 1 1"

definition FLAG_PREV_HEAD_ATTESTER :: nat where
  "FLAG_PREV_HEAD_ATTESTER = push_bit 2 1"

definition FLAG_CURR_SOURCE_ATTESTER :: nat where
  "FLAG_CURR_SOURCE_ATTESTER = push_bit 3 1"

definition FLAG_CURR_TARGET_ATTESTER :: nat where
  "FLAG_CURR_TARGET_ATTESTER = push_bit 4 1"

definition FLAG_CURR_HEAD_ATTESTER :: nat where
  "FLAG_CURR_HEAD_ATTESTER = push_bit 5 1"

definition FLAG_UNSLASHED :: nat where
  "FLAG_UNSLASHED = push_bit 6 1"

definition FLAG_ELIGIBLE_ATTESTER :: nat where
  "FLAG_ELIGIBLE_ATTESTER = push_bit 7 1"

definition FLAG_PREV_SOURCE_ATTESTER_OR_UNSLASHED :: nat where
  "FLAG_PREV_SOURCE_ATTESTER_OR_UNSLASHED = FLAG_PREV_SOURCE_ATTESTER OR FLAG_UNSLASHED"

definition FLAG_PREV_TARGET_ATTESTER_OR_UNSLASHED :: nat where
  "FLAG_PREV_TARGET_ATTESTER_OR_UNSLASHED = FLAG_PREV_TARGET_ATTESTER OR FLAG_UNSLASHED"

definition FLAG_PREV_HEAD_ATTESTER_OR_UNSLASHED :: nat where
  "FLAG_PREV_HEAD_ATTESTER_OR_UNSLASHED = FLAG_PREV_HEAD_ATTESTER OR FLAG_UNSLASHED"

text \<open>\<open>proposerIndex\<close> is -1 when not included by any proposer.\<close>

record attester_status =
  as_flags :: nat
  as_proposerIndex :: int
  as_inclusionDelay :: nat
  as_active :: bool

definition createIAttesterStatus :: attester_status where
  "createIAttesterStatus = \<lparr>as_flags = 0, as_proposerIndex = -1, as_inclusionDelay = 0, as_active = False\<rparr>"

definition hasMarkers :: "nat \<Rightarrow> nat \<Rightarrow> bool" where
  "hasMarkers flags markers \<longleftrightarrow> flags AND markers = markers"

record attester_flags =
  prevSourceAttester :: bool
  prevTargetAttester :: bool
  prevHeadAttester :: bool
  currSourceAttester :: bool
  currTargetAttester :: bool
  currHeadAttester :: bool
  unslashed :: bool
  eligibleAttester :: bool

definition parseAttesterFlags :: "nat \<Rightarrow> attester_flags" where
  "parseAttesterFlags flags =
     \<lparr>prevSourceAttester = hasMarkers flags FLAG_PREV_SOURCE_ATTESTER,
      prevTargetAttester = hasMarkers flags FLAG_PREV_TARGET_ATTESTER,
      prevHeadAttester = hasMarkers flags FLAG_PREV_HEAD_ATTESTER,
      currSourceAttester = hasMarkers flags FLAG_CURR_SOURCE_ATTESTER,
      currTargetAttester = hasMarkers flags FLAG_CURR_TARGET_ATTESTER,
      currHeadAttester = hasMarkers flags FLAG_CURR_HEAD_ATTESTER,
      unslashed = hasMarkers flags FLAG_UNSLASHED,
      eligibleAttester = hasMarkers flags FLAG_ELIGIBLE_ATTESTER\<rparr>"

definition setFlag :: "bool \<Rightarrow> nat \<Rightarrow> nat \<Rightarrow> nat" where
  "setFlag b marker flag = (if b then flag OR marker else flag)"

definition toAttesterFlags :: "attester_flags \<Rightarrow> nat" where
  "toAttesterFlags f =
     setFlag (eligibleAttester f) FLAG_ELIGIBLE_ATTESTER
      (setFlag (unslashed f) FLAG_UNSLASHED
        (setFlag (currHeadAttester f) FLAG_CURR_HEAD_ATTESTER
          (setFlag (currTargetAttester f) FLAG_CURR_TARGET_ATTESTER
            (setFlag (currSourceAttester f) FLAG_CURR_SOURCE_ATTESTER
              (setFlag (prevHeadAttester f) FLAG_PREV_HEAD_ATTESTER
                (setFlag (prevTargetAttester f) FLAG_PREV_TARGET_ATTESTER
                  (setFlag (prevSourceAttester f) FLAG_PREV_SOURCE_ATTESTER 0)))))))"

named_theorems flag_defs \<open>the flags as powers of two\<close>

lemmas [flag_defs] = FLAG_PREV_SOURCE_ATTESTER_def FLAG_PREV_TARGET_ATTESTER_def FLAG_PREV_HEAD_ATTESTER_def
  FLAG_CURR_SOURCE_ATTESTER_def FLAG_CURR_TARGET_ATTESTER_def FLAG_CURR_HEAD_ATTESTER_def
  FLAG_UNSLASHED_def FLAG_ELIGIBLE_ATTESTER_def

text \<open>A marker of one bit is that bit; markers that are joined must all be there.\<close>

lemma bit_flag: "bit (push_bit k 1 :: nat) j \<longleftrightarrow> j = k"
  by (auto simp: bit_simps)

lemma hasMarkers_iff: "hasMarkers flags markers \<longleftrightarrow> (\<forall>j. bit markers j \<longrightarrow> bit flags j)"
  by (auto simp: hasMarkers_def bit_eq_iff bit_and_iff)

lemma hasMarkers_bit: "hasMarkers flags (push_bit k 1) \<longleftrightarrow> bit flags k"
  unfolding hasMarkers_iff bit_flag by blast

lemma hasMarkers_or: "hasMarkers flags (a OR b) \<longleftrightarrow> hasMarkers flags a \<and> hasMarkers flags b"
  unfolding hasMarkers_iff bit_or_iff by blast

lemma bit_setFlag: "bit (setFlag b (push_bit k 1) flag) j \<longleftrightarrow> b \<and> j = k \<or> bit flag j"
  unfolding setFlag_def by (cases b) (auto simp only: bit_or_iff bit_flag if_True if_False)

text \<open>
  Parsing the flags of a participation status gives back the flags that were written.
\<close>

theorem attesterFlags_roundtrip: "parseAttesterFlags (toAttesterFlags f) = f"
  unfolding parseAttesterFlags_def toAttesterFlags_def flag_defs hasMarkers_bit bit_setFlag by simp

end
