(* ===== verification/Shuffle.thy ===== *)
theory Shuffle
  imports Bytes
begin

unbundle bit_operations_syntax

text \<open>
  The swap-or-not shuffle (\<open>packages/beacon-state-transition/src/util/shuffle.ts\<close>): the optimised
  shuffling of a whole list, in place, and the shuffling of one index as in the specification
  (\<open>util/seed.ts\<close>). The hash function is a parameter.
\<close>

section \<open>Numbers of 32 bits\<close>

text \<open>The bit operators of JavaScript first convert to a signed number of 32 bits.\<close>

definition toInt32 :: "int \<Rightarrow> int" where
  "toInt32 x = signed_take_bit 31 x"

definition jsShr :: "int \<Rightarrow> nat \<Rightarrow> int" where
  "jsShr x k = drop_bit k (toInt32 x)"

definition jsAnd :: "int \<Rightarrow> int \<Rightarrow> int" where
  "jsAnd x m = toInt32 x AND m"

section \<open>The whole list\<close>

type_synonym hash = "bytes \<Rightarrow> bytes"

definition SHUFFLE_ROUND_COUNT :: nat where
  "SHUFFLE_ROUND_COUNT = 90"

datatype shuffle_error = LengthDoesNotFitUint32 | IndexTooBig nat nat | IndexCountTooBig nat

definition SHUFFLE_H_SEED_SIZE :: nat where
  "SHUFFLE_H_SEED_SIZE = 32"

definition SHUFFLE_H_PIVOT_VIEW_SIZE :: nat where
  "SHUFFLE_H_PIVOT_VIEW_SIZE = SHUFFLE_H_SEED_SIZE + 1"

definition SHUFFLE_H_TOTAL_SIZE :: nat where
  "SHUFFLE_H_TOTAL_SIZE = SHUFFLE_H_SEED_SIZE + 1 + 4"

definition setPositionUint32 :: "int \<Rightarrow> bytes \<Rightarrow> bytes" where
  "setPositionUint32 value buf =
     buf[SHUFFLE_H_PIVOT_VIEW_SIZE := word_of_int (jsAnd (jsShr value 0) 255),
         SHUFFLE_H_PIVOT_VIEW_SIZE + 1 := word_of_int (jsAnd (jsShr value 8) 255),
         SHUFFLE_H_PIVOT_VIEW_SIZE + 2 := word_of_int (jsAnd (jsShr value 16) 255),
         SHUFFLE_H_PIVOT_VIEW_SIZE + 3 := word_of_int (jsAnd (jsShr value 24) 255)]"

record 'a shuffle_state =
  sh_input :: "'a list"
  sh_buf :: bytes
  sh_source :: bytes
  sh_byteV :: "8 word"

text \<open>A read out of range is \<open>undefined\<close>, which the bit operators take for 0.\<close>

definition byteAt :: "bytes \<Rightarrow> int \<Rightarrow> 8 word" where
  "byteAt source i = (if i < 0 then 0 else case nth_opt source (nat i) of None \<Rightarrow> 0 | Some b \<Rightarrow> b)"

definition hashPosition :: "hash \<Rightarrow> int \<Rightarrow> 'a shuffle_state \<Rightarrow> 'a shuffle_state" where
  "hashPosition hash position s =
     (let buf = setPositionUint32 (jsShr position 8) (sh_buf s) in s\<lparr>sh_buf := buf, sh_source := hash buf\<rparr>)"

definition readByte :: "int \<Rightarrow> 'a shuffle_state \<Rightarrow> 'a shuffle_state" where
  "readByte position s = s\<lparr>sh_byteV := byteAt (sh_source s) (jsShr (jsAnd position 255) 3)\<rparr>"

definition swapPair :: "nat \<Rightarrow> nat \<Rightarrow> 'a list \<Rightarrow> 'a list" where
  "swapPair i j xs = xs[j := xs ! i, i := xs ! j]"

text \<open>The body of both inner loops, for the pair of \<open>i\<close> and \<open>j\<close>.\<close>

definition shuffleStep :: "hash \<Rightarrow> nat \<Rightarrow> nat \<Rightarrow> 'a shuffle_state \<Rightarrow> 'a shuffle_state" where
  "shuffleStep hash i j s =
     (let s1 = (if jsAnd (int j) 255 = 255 then hashPosition hash (int j) s else s);
          s2 = (if jsAnd (int j) 7 = 7 then readByte (int j) s1 else s1);
          bitV = jsAnd (jsShr (uint (sh_byteV s2)) (nat (jsAnd (int j) 7))) 1
      in if bitV = 1 then s2\<lparr>sh_input := swapPair i j (sh_input s2)\<rparr> else s2)"

text \<open>One round, of the outer loop.\<close>

definition shuffleRound :: "hash \<Rightarrow> nat \<Rightarrow> nat \<Rightarrow> 'a shuffle_state \<Rightarrow> 'a shuffle_state" where
  "shuffleRound hash listSize r s =
     (let s1 = s\<lparr>sh_buf := (sh_buf s)[SHUFFLE_H_SEED_SIZE := of_nat r]\<rparr>;
          h = hash (take SHUFFLE_H_PIVOT_VIEW_SIZE (sh_buf s1));
          pivot = bytesToIntLE (take 8 h) mod listSize;
          mirror = nat (jsShr (int pivot + 1) 1);
          s2 = readByte (int pivot) (hashPosition hash (int pivot) s1);
          s3 = fold (\<lambda>i s. shuffleStep hash i (pivot - i) s) [0..<mirror] s2;
          mirror' = nat (jsShr (int pivot + int listSize + 1) 1);
          end = listSize - 1;
          s4 = readByte (int end) (hashPosition hash (int end) s3)
      in fold (\<lambda>i s. shuffleStep hash i (end - i + pivot + 1) s) [pivot + 1..<mirror'] s4)"

definition innerShuffleList :: "hash \<Rightarrow> 'a list \<Rightarrow> bytes \<Rightarrow> bool \<Rightarrow> shuffle_error + 'a list" where
  "innerShuffleList hash input seed dir =
     (if length input \<le> 1 then Inr input
      else if SHUFFLE_ROUND_COUNT = 0 then Inr input
      else
        let listSize = length input mod 2 ^ 32 in
        if listSize \<noteq> length input then Inl LengthDoesNotFitUint32
        else
          let buf = setBytes (take SHUFFLE_H_SEED_SIZE seed) 0 (replicate SHUFFLE_H_TOTAL_SIZE 0);
              s = \<lparr>sh_input = input, sh_buf = buf, sh_source = seed, sh_byteV = 0\<rparr>;
              rounds = (if dir then [0..<SHUFFLE_ROUND_COUNT] else rev [0..<SHUFFLE_ROUND_COUNT])
          in Inr (sh_input (fold (shuffleRound hash listSize) rounds s)))"

definition shuffleList :: "hash \<Rightarrow> 'a list \<Rightarrow> bytes \<Rightarrow> shuffle_error + 'a list" where
  "shuffleList hash input seed = innerShuffleList hash input seed True"

definition unshuffleList :: "hash \<Rightarrow> 'a list \<Rightarrow> bytes \<Rightarrow> shuffle_error + 'a list" where
  "unshuffleList hash input seed = innerShuffleList hash input seed False"

section \<open>One index\<close>

definition shuffledIndexRound :: "hash \<Rightarrow> bytes \<Rightarrow> nat \<Rightarrow> nat \<Rightarrow> nat \<Rightarrow> nat" where
  "shuffledIndexRound hash seed indexCount i permuted =
     (let pivot = bytesToIntLE (take 8 (hash (seed @ intToBytesLE i 1))) mod indexCount;
          flip = (pivot + indexCount - permuted) mod indexCount;
          position = max permuted flip;
          source = hash (seed @ intToBytesLE i 1 @ intToBytesLE (position div 256) 4);
          byte = byteAt source (int (position mod 256 div 8));
          bitV = drop_bit (position mod 8) (unat byte) mod 2
      in if bitV \<noteq> 0 then flip else permuted)"

definition computeShuffledIndex :: "hash \<Rightarrow> nat \<Rightarrow> nat \<Rightarrow> bytes \<Rightarrow> shuffle_error + nat" where
  "computeShuffledIndex hash index indexCount seed =
     (if \<not> index < indexCount then Inl (IndexTooBig index indexCount)
      else if \<not> indexCount \<le> 2 ^ 40 then Inl (IndexCountTooBig indexCount)
      else Inr (fold (shuffledIndexRound hash seed indexCount) [0..<SHUFFLE_ROUND_COUNT] index))"

end
