(* ===== verification/StateTypes.thy ===== *)
theory StateTypes
  imports StateParams StateMath Shuffle
begin

text \<open>
  The beacon state with its epoch context (\<open>packages/beacon-state-transition/src/cache\<close>), the consensus
  types it holds (\<open>packages/types/src\<close>), and the utilities that read one part of it
  (\<open>packages/beacon-state-transition/src/util\<close>). The SSZ library stores a state as a Merkle tree; here it is
  the record of its values. Vectors of the state have a fixed length, to which every index is reduced.
\<close>

section \<open>Data\<close>

record validator =
  v_pubkey :: pubkey
  v_withdrawalCredentials :: bytes
  v_effectiveBalance :: nat
  v_slashed :: bool
  v_activationEligibilityEpoch :: enat
  v_activationEpoch :: enat
  v_exitEpoch :: enat
  v_withdrawableEpoch :: enat

record attestation_data =
  ad_slot :: slot
  ad_index :: nat
  ad_beaconBlockRoot :: root
  ad_source :: root_checkpoint
  ad_target :: root_checkpoint

record attestation =
  at_aggregationBits :: "bool list"
  at_data :: attestation_data
  at_signature :: bytes

record indexed_att =
  ix_attestingIndices :: "nat list"
  ix_data :: attestation_data
  ix_signature :: bytes

record pending_attestation =
  pn_aggregationBits :: "bool list"
  pn_data :: attestation_data
  pn_inclusionDelay :: nat
  pn_proposerIndex :: int

record eth1_data =
  e1_depositRoot :: root
  e1_depositCount :: nat
  e1_blockHash :: root

record fork_data =
  fd_previousVersion :: bytes
  fd_currentVersion :: bytes
  fd_epoch :: epoch

record epoch_shuffling =
  es_epoch :: epoch
  es_activeIndices :: "nat list"
  es_shuffling :: "nat list"
  es_committees :: "nat list list list"
  es_committeesPerSlot :: nat

record sync_committee_cache =
  validatorIndices :: "nat list"
  validatorIndexMap :: "(nat, nat list) jsmap"

text \<open>
  The effective balances by increment are a \<open>Uint8Array\<close>; a proposer is -1 when none was found. The
  sync committee caches are \<open>None\<close> where the code puts \<open>SyncCommitteeCacheEmpty\<close>. The
  deserialized public keys of \<open>index2pubkey\<close> are kept as the bytes they come from.
\<close>

record epoch_ctx =
  ec_pubkey2index :: "(pubkey, nat) jsmap"
  ec_index2pubkey :: "pubkey list"
  ec_proposers :: "int list"
  ec_previousShuffling :: epoch_shuffling
  ec_currentShuffling :: epoch_shuffling
  ec_nextShuffling :: epoch_shuffling
  ec_effectiveBalanceIncrements :: bytes
  ec_syncParticipantReward :: nat
  ec_syncProposerReward :: nat
  ec_baseRewardPerIncrement :: nat
  ec_totalActiveBalanceIncrements :: nat
  ec_churnLimit :: nat
  ec_exitQueueEpoch :: epoch
  ec_exitQueueChurn :: nat
  ec_currentSyncCommitteeIndexed :: "sync_committee_cache option"
  ec_nextSyncCommitteeIndexed :: "sync_committee_cache option"
  ec_epoch :: epoch
  ec_syncPeriod :: nat

text \<open>
  The payloads of the execution layer (\<open>packages/types/src/bellatrix/types.ts\<close>): a block carries the transactions,
  the state their root.
\<close>

record payload_fields =
  xp_parentHash :: root
  xp_feeRecipient :: bytes
  xp_stateRoot :: bytes
  xp_receiptsRoot :: bytes
  xp_logsBloom :: bytes
  xp_prevRandao :: bytes
  xp_blockNumber :: nat
  xp_gasLimit :: nat
  xp_gasUsed :: nat
  xp_timestamp :: nat
  xp_extraData :: bytes
  xp_baseFeePerGas :: nat
  xp_blockHash :: bytes

record st_payload = payload_fields +
  xp_transactions :: "bytes list"

record payload_header = payload_fields +
  xp_transactionsRoot :: root

record tree_state =
  ts_genesisTime :: nat
  ts_slot :: slot
  ts_fork :: fork_data
  ts_latestBlockHeader :: block_header
  ts_blockRoots :: "root list"
  ts_stateRoots :: "root list"
  ts_historicalRoots :: "root list"
  ts_eth1Data :: eth1_data
  ts_eth1DataVotes :: "eth1_data list"
  ts_eth1DepositIndex :: nat
  ts_validators :: "validator list"
  ts_balances :: "nat list"
  ts_randaoMixes :: "bytes list"
  ts_slashings :: "nat list"
  ts_previousEpochAttestations :: "pending_attestation list"
  ts_currentEpochAttestations :: "pending_attestation list"
  ts_previousEpochParticipation :: "nat list"
  ts_currentEpochParticipation :: "nat list"
  ts_justificationBits :: "bool list"
  ts_previousJustifiedCheckpoint :: root_checkpoint
  ts_currentJustifiedCheckpoint :: root_checkpoint
  ts_finalizedCheckpoint :: root_checkpoint
  ts_inactivityScores :: "nat list"
  ts_currentSyncCommittee :: sync_committee
  ts_nextSyncCommittee :: sync_committee
  ts_latestExecutionPayloadHeader :: payload_header

text \<open>
  \<open>CachedBeaconState\<close>: the state and its epoch context. Among the errors, \<open>Undefined\<close> is the access to a
  property of \<open>undefined\<close>, \<open>LibraryError\<close> an exception of a library, and \<open>DoesNotEnd\<close> stands for a loop
  that has not ended within the fuel given.
\<close>

record cached_state = tree_state +
  epochCtx :: epoch_ctx

datatype st_error =
    ShuffleError shuffle_error
  | ValidatorIndicesEmpty
  | InvalidOffsets nat nat
  | CommitteeIndexOutOfRange nat nat
  | ProposerOfOtherEpoch epoch epoch
  | EpochOutOfRange epoch epoch
  | AssignmentTooFarAhead epoch epoch
  | NoSyncCommitteeForEpoch epoch
  | EmptySyncCommitteeCache
  | UnknownSyncCommitteePubkey pubkey
  | PubkeysOutOfSync nat nat
  | TotalActiveTooLarge
  | BlockRootNotPast slot slot
  | BlockRootTooOld slot slot
  | Undefined
  | LibraryError
  | DoesNotEnd
  | BlockSlotMismatch slot slot
  | BlockNotNewer slot slot
  | WrongProposer nat int
  | ParentRootMismatch
  | ProposerSlashed
  | InvalidRandao
  | SlotsDoNotMatch slot slot
  | ProposersDoNotMatch nat nat
  | HeadersEqual
  | ProposerNotSlashable
  | InvalidHeaderSignature nat
  | NotSlashable
  | InvalidIndexedAttestation nat
  | NoneSlashed
  | CommitteeIndexTooLarge nat nat
  | TargetEpochNotRecent epoch epoch
  | TargetEpochMismatch epoch epoch
  | AttestationNotInWindow slot slot
  | AggregationBitsLength nat nat
  | SourceNotJustified
  | InvalidAttestation
  | InvalidAttestationSignature
  | InvalidVoluntaryExit
  | WrongDepositCount nat int
  | InvalidDepositProof
  | InvalidSyncAggregate
  | EmptySyncSignatureNotInfinity
  | PayloadParentHash bytes bytes
  | PayloadRandao bytes bytes
  | PayloadTimestamp nat nat slot
  | InvalidPayload
  | DecisionEpochTooLow epoch epoch
  | DecisionEpochTooHigh epoch epoch
  | SlotTooOld slot slot
  | InvalidBlockSignature
  | StateRootMismatch

section \<open>Validators\<close>

definition isActiveValidator :: "validator \<Rightarrow> epoch \<Rightarrow> bool" where
  "isActiveValidator v e \<longleftrightarrow> v_activationEpoch v \<le> enat e \<and> enat e < v_exitEpoch v"

definition isSlashableValidator :: "validator \<Rightarrow> epoch \<Rightarrow> bool" where
  "isSlashableValidator v e \<longleftrightarrow>
     \<not> v_slashed v \<and> v_activationEpoch v \<le> enat e \<and> enat e < v_withdrawableEpoch v"

fun activeFrom :: "nat \<Rightarrow> validator list \<Rightarrow> epoch \<Rightarrow> nat list" where
  "activeFrom index [] e = []"
| "activeFrom index (v # vs) e =
     (if isActiveValidator v e then index # activeFrom (index + 1) vs e else activeFrom (index + 1) vs e)"

definition getActiveValidatorIndices :: "'a tree_state_scheme \<Rightarrow> epoch \<Rightarrow> nat list" where
  "getActiveValidatorIndices state e = activeFrom 0 (ts_validators state) e"

definition getChurnLimit :: "state_config \<Rightarrow> nat \<Rightarrow> nat" where
  "getChurnLimit config activeValidatorCount =
     max (MIN_PER_EPOCH_CHURN_LIMIT config) (intDiv activeValidatorCount (CHURN_LIMIT_QUOTIENT config))"

section \<open>Balances\<close>

text \<open>A validator that is not there has no effective balance to read.\<close>

definition getTotalBalance :: "'a tree_state_scheme \<Rightarrow> nat list \<Rightarrow> st_error + nat" where
  "getTotalBalance state indices =
     (if \<exists>i \<in> set indices. length (ts_validators state) \<le> i then Inl Undefined
      else Inr (bigIntMax EFFECTIVE_BALANCE_INCREMENT
        (fold (\<lambda>i total. total + v_effectiveBalance (ts_validators state ! i)) indices 0)))"

fun zeroInactive :: "nat \<Rightarrow> nat list \<Rightarrow> bytes \<Rightarrow> bytes" where
  "zeroInactive i active [] = []"
| "zeroInactive i [] (b # bs) = 0 # zeroInactive (i + 1) [] bs"
| "zeroInactive i (a # active) (b # bs) =
     (if i = a then b # zeroInactive (i + 1) active bs else 0 # zeroInactive (i + 1) (a # active) bs)"

definition getEffectiveBalanceIncrementsZeroInactive :: "cached_state \<Rightarrow> bytes" where
  "getEffectiveBalanceIncrementsZeroInactive s =
     zeroInactive 0 (es_activeIndices (ec_currentShuffling (epochCtx s)))
       (take (length (ts_validators s)) (ec_effectiveBalanceIncrements (epochCtx s)))"

definition getEffectiveBalanceIncrementsWithLen :: "nat \<Rightarrow> bytes" where
  "getEffectiveBalanceIncrementsWithLen validatorCount = replicate (1024 * ((validatorCount + 1023) div 1024)) 0"

section \<open>Rewards\<close>

definition computeSyncParticipantReward :: "nat \<Rightarrow> nat" where
  "computeSyncParticipantReward totalActiveBalanceIncrements =
     (let totalActiveBalance = totalActiveBalanceIncrements * EFFECTIVE_BALANCE_INCREMENT;
          baseRewardPerIncrement = (EFFECTIVE_BALANCE_INCREMENT * BASE_REWARD_FACTOR) div bigIntSqrt totalActiveBalance;
          totalBaseRewards = baseRewardPerIncrement * totalActiveBalanceIncrements;
          maxParticipantRewards = totalBaseRewards * SYNC_REWARD_WEIGHT div WEIGHT_DENOMINATOR div SLOTS_PER_EPOCH
      in maxParticipantRewards div SYNC_COMMITTEE_SIZE)"

definition computeBaseRewardPerIncrement :: "nat \<Rightarrow> nat" where
  "computeBaseRewardPerIncrement totalActiveStakeByIncrement =
     (EFFECTIVE_BALANCE_INCREMENT * BASE_REWARD_FACTOR) div
       bigIntSqrt (totalActiveStakeByIncrement * EFFECTIVE_BALANCE_INCREMENT)"

section \<open>Finality and block roots\<close>

definition getFinalityDelay :: "cached_state \<Rightarrow> int" where
  "getFinalityDelay s =
     int (es_epoch (ec_previousShuffling (epochCtx s))) - int (rc_epoch (ts_finalizedCheckpoint s))"

definition isInInactivityLeak :: "cached_state \<Rightarrow> bool" where
  "isInInactivityLeak s \<longleftrightarrow> getFinalityDelay s > int MIN_EPOCHS_TO_INACTIVITY_PENALTY"

definition st_getBlockRootAtSlot :: "'a tree_state_scheme \<Rightarrow> slot \<Rightarrow> st_error + root" where
  "st_getBlockRootAtSlot state slt =
     (if slt \<ge> ts_slot state then Inl (BlockRootNotPast (ts_slot state) slt)
      else if int slt < int (ts_slot state) - int SLOTS_PER_HISTORICAL_ROOT then Inl (BlockRootTooOld (ts_slot state) slt)
      else Inr (ts_blockRoots state ! (slt mod SLOTS_PER_HISTORICAL_ROOT)))"

definition st_getBlockRoot :: "'a tree_state_scheme \<Rightarrow> epoch \<Rightarrow> st_error + root" where
  "st_getBlockRoot state e = st_getBlockRootAtSlot state (computeStartSlotAtEpoch e)"

section \<open>Attestations\<close>

definition isSlashableAttestationData :: "attestation_data \<Rightarrow> attestation_data \<Rightarrow> bool" where
  "isSlashableAttestationData data1 data2 \<longleftrightarrow>
     data1 \<noteq> data2 \<and> rc_epoch (ad_target data1) = rc_epoch (ad_target data2) \<or>
     rc_epoch (ad_source data1) < rc_epoch (ad_source data2) \<and>
       rc_epoch (ad_target data2) < rc_epoch (ad_target data1)"

definition isValidAttestationSlot :: "slot \<Rightarrow> slot \<Rightarrow> bool" where
  "isValidAttestationSlot attestationSlot currentSlot \<longleftrightarrow>
     attestationSlot + MIN_ATTESTATION_INCLUSION_DELAY \<le> currentSlot \<and>
     currentSlot \<le> attestationSlot + SLOTS_PER_EPOCH"

text \<open>The non-aggregated branch of \<open>zipIndexes\<close>: a bit that is missing is not set.\<close>

fun zipIndexes :: "nat list \<Rightarrow> bool list \<Rightarrow> nat list \<times> nat list" where
  "zipIndexes [] bits = ([], [])"
| "zipIndexes (i # is) bits =
     (let (attesting, unattesting) = zipIndexes is (tl bits)
      in if bits \<noteq> [] \<and> hd bits then (i # attesting, unattesting) else (attesting, i # unattesting))"

definition zipIndexesCommitteeBits :: "nat list \<Rightarrow> bool list \<Rightarrow> nat list" where
  "zipIndexesCommitteeBits indexes bits = fst (zipIndexes indexes bits)"

section \<open>Aggregators\<close>

definition isSelectionProofValid :: "hash \<Rightarrow> bytes \<Rightarrow> nat \<Rightarrow> bool" where
  "isSelectionProofValid hash sig m \<longleftrightarrow> bytesToIntLE (take 8 (hash sig)) mod m = 0"

definition isSyncCommitteeAggregator :: "hash \<Rightarrow> bytes \<Rightarrow> bool" where
  "isSyncCommitteeAggregator hash selectionProof =
     isSelectionProofValid hash selectionProof
       (max 1 (intDiv (intDiv SYNC_COMMITTEE_SIZE SYNC_COMMITTEE_SUBNET_COUNT) TARGET_AGGREGATORS_PER_SYNC_SUBCOMMITTEE))"

definition isAggregatorFromCommitteeLength :: "hash \<Rightarrow> nat \<Rightarrow> bytes \<Rightarrow> bool" where
  "isAggregatorFromCommitteeLength hash committeeLength slotSignature =
     isSelectionProofValid hash slotSignature (max 1 (intDiv committeeLength TARGET_AGGREGATORS_PER_COMMITTEE))"

end
