(* ===== verification/EpochShuffling.thy ===== *)
theory EpochShuffling
  imports StateTypes
begin

text \<open>
  Seeds, proposers, sync committees and the shuffling of an epoch into committees
  (\<open>packages/beacon-state-transition/src/util/seed.ts\<close>, \<open>epochShuffling.ts\<close>). The hash function is a
  parameter.
\<close>

section \<open>Seeds\<close>

definition getRandaoMix :: "'a tree_state_scheme \<Rightarrow> epoch \<Rightarrow> bytes" where
  "getRandaoMix state e = ts_randaoMixes state ! (e mod EPOCHS_PER_HISTORICAL_VECTOR)"

definition getSeed :: "hash \<Rightarrow> 'a tree_state_scheme \<Rightarrow> epoch \<Rightarrow> bytes \<Rightarrow> bytes" where
  "getSeed hash state e domainType =
     (let mix = getRandaoMix state (e + EPOCHS_PER_HISTORICAL_VECTOR - MIN_SEED_LOOKAHEAD - 1)
      in hash (domainType @ intToBytesLE e 8 @ mix))"

section \<open>Sampling by effective balance\<close>

definition MAX_RANDOM_BYTE :: nat where
  "MAX_RANDOM_BYTE = 2 ^ 8 - 1"

definition MAX_EFFECTIVE_BALANCE_INCREMENT :: nat where
  "MAX_EFFECTIVE_BALANCE_INCREMENT = MAX_EFFECTIVE_BALANCE div EFFECTIVE_BALANCE_INCREMENT"

definition randByte :: "hash \<Rightarrow> bytes \<Rightarrow> nat \<Rightarrow> 8 word option" where
  "randByte hash seed i = nth_opt (hash (seed @ intToBytesLE (i div 32) 8)) (i mod 32)"

text \<open>A read out of range is \<open>undefined\<close>, and a comparison with it is false.\<close>

definition acceptCandidate :: "hash \<Rightarrow> bytes \<Rightarrow> bytes \<Rightarrow> nat \<Rightarrow> nat \<Rightarrow> bool" where
  "acceptCandidate hash effectiveBalanceIncrements seed i candidateIndex =
     (case (nth_opt effectiveBalanceIncrements candidateIndex, randByte hash seed i) of
        (Some effectiveBalanceIncrement, Some r) \<Rightarrow>
          unat effectiveBalanceIncrement * MAX_RANDOM_BYTE \<ge> MAX_EFFECTIVE_BALANCE_INCREMENT * unat r
      | _ \<Rightarrow> False)"

definition candidateAt :: "hash \<Rightarrow> nat list \<Rightarrow> bytes \<Rightarrow> nat \<Rightarrow> st_error + nat" where
  "candidateAt hash indices seed i =
     (case computeShuffledIndex hash (i mod length indices) (length indices) seed of
        Inl e \<Rightarrow> Inl (ShuffleError e)
      | Inr k \<Rightarrow> Inr (indices ! k))"

text \<open>The loop: \<open>k\<close> rounds are left before \<open>i\<close> reaches the number of indices.\<close>

fun proposerLoop :: "hash \<Rightarrow> bytes \<Rightarrow> nat list \<Rightarrow> bytes \<Rightarrow> nat \<Rightarrow> nat \<Rightarrow> st_error + int" where
  "proposerLoop hash effectiveBalanceIncrements indices seed i 0 = Inr (- 1)"
| "proposerLoop hash effectiveBalanceIncrements indices seed i (Suc k) =
     bind_res (candidateAt hash indices seed i) (\<lambda>candidateIndex.
       if acceptCandidate hash effectiveBalanceIncrements seed i candidateIndex then Inr (int candidateIndex)
       else proposerLoop hash effectiveBalanceIncrements indices seed (i + 1) k)"

definition computeProposerIndex :: "hash \<Rightarrow> bytes \<Rightarrow> nat list \<Rightarrow> bytes \<Rightarrow> st_error + int" where
  "computeProposerIndex hash effectiveBalanceIncrements indices seed =
     (if \<not> length indices > 0 then Inl ValidatorIndicesEmpty
      else proposerLoop hash effectiveBalanceIncrements indices seed 0 (length indices))"

fun proposersFrom :: "hash \<Rightarrow> bytes \<Rightarrow> nat list \<Rightarrow> bytes \<Rightarrow> slot list \<Rightarrow> st_error + int list" where
  "proposersFrom hash effectiveBalanceIncrements indices epochSeed [] = Inr []"
| "proposersFrom hash effectiveBalanceIncrements indices epochSeed (s # ss) =
     bind_res (computeProposerIndex hash effectiveBalanceIncrements indices (hash (epochSeed @ intToBytesLE s 8)))
       (\<lambda>proposer. bind_res (proposersFrom hash effectiveBalanceIncrements indices epochSeed ss)
         (\<lambda>proposers. Inr (proposer # proposers)))"

definition computeProposers :: "hash \<Rightarrow> 'a tree_state_scheme \<Rightarrow> epoch_shuffling \<Rightarrow> bytes \<Rightarrow> st_error + int list" where
  "computeProposers hash state shuffling effectiveBalanceIncrements =
     (let epochSeed = getSeed hash state (es_epoch shuffling) DOMAIN_BEACON_PROPOSER;
          startSlot = computeStartSlotAtEpoch (es_epoch shuffling)
      in proposersFrom hash effectiveBalanceIncrements (es_activeIndices shuffling) epochSeed
           [startSlot..<startSlot + SLOTS_PER_EPOCH])"

text \<open>
  The sampling of a sync committee goes on until the committee is full; \<open>None\<close> is a loop that has not ended
  when the fuel is used up. Without active validators \<open>i % 0\<close> is not a number and the assertion of
  \<open>computeShuffledIndex\<close> fails.
\<close>

fun syncCommitteeLoop :: "hash \<Rightarrow> bytes \<Rightarrow> nat list \<Rightarrow> bytes \<Rightarrow> nat \<Rightarrow> nat \<Rightarrow> nat list \<Rightarrow> (st_error + nat list) option" where
  "syncCommitteeLoop hash effectiveBalanceIncrements indices seed 0 i acc =
     (if length acc < SYNC_COMMITTEE_SIZE then None else Some (Inr acc))"
| "syncCommitteeLoop hash effectiveBalanceIncrements indices seed (Suc fuel) i acc =
     (if length acc < SYNC_COMMITTEE_SIZE then
        case candidateAt hash indices seed i of
          Inl e \<Rightarrow> Some (Inl e)
        | Inr candidateIndex \<Rightarrow>
            syncCommitteeLoop hash effectiveBalanceIncrements indices seed fuel (i + 1)
              (if acceptCandidate hash effectiveBalanceIncrements seed i candidateIndex
               then acc @ [candidateIndex] else acc)
      else Some (Inr acc))"

definition getNextSyncCommitteeIndices ::
    "hash \<Rightarrow> nat \<Rightarrow> 'a tree_state_scheme \<Rightarrow> nat list \<Rightarrow> bytes \<Rightarrow> (st_error + nat list) option" where
  "getNextSyncCommitteeIndices hash fuel state activeValidatorIndices effectiveBalanceIncrements =
     (let e = computeEpochAtSlot (ts_slot state) + 1;
          seed = getSeed hash state e DOMAIN_SYNC_COMMITTEE
      in syncCommitteeLoop hash effectiveBalanceIncrements activeValidatorIndices seed fuel 0 [])"

section \<open>Committees\<close>

definition computeCommitteeCount :: "nat \<Rightarrow> nat" where
  "computeCommitteeCount activeValidatorCount =
     (let validatorsPerSlot = intDiv activeValidatorCount SLOTS_PER_EPOCH;
          committeesPerSlot = intDiv validatorsPerSlot TARGET_COMMITTEE_SIZE
      in max 1 (min MAX_COMMITTEES_PER_SLOT committeesPerSlot))"

text \<open>The offsets of the committee of a number; an inner and an outer loop run over the numbers of an epoch.\<close>

definition committeeSlice :: "nat list \<Rightarrow> nat \<Rightarrow> nat \<Rightarrow> st_error + nat list" where
  "committeeSlice shuffling committeeCount index =
     (let startOffset = length shuffling * index div committeeCount;
          endOffset = length shuffling * (index + 1) div committeeCount
      in if \<not> startOffset \<le> endOffset then Inl (InvalidOffsets startOffset endOffset)
         else Inr (take (endOffset - startOffset) (drop startOffset shuffling)))"

definition computeEpochShuffling :: "hash \<Rightarrow> 'a tree_state_scheme \<Rightarrow> nat list \<Rightarrow> epoch \<Rightarrow> st_error + epoch_shuffling" where
  "computeEpochShuffling hash state activeIndices e =
     (let seed = getSeed hash state e DOMAIN_BEACON_ATTESTER
      in case unshuffleList hash activeIndices seed of
           Inl err \<Rightarrow> Inl (ShuffleError err)
         | Inr shuffling \<Rightarrow>
             (let committeesPerSlot = computeCommitteeCount (length activeIndices);
                  committeeCount = committeesPerSlot * SLOTS_PER_EPOCH
              in bind_res
                   (map_res (\<lambda>slot.
                      map_res (\<lambda>committeeIndex.
                          committeeSlice shuffling committeeCount (slot * committeesPerSlot + committeeIndex))
                        [0..<committeesPerSlot])
                      [0..<SLOTS_PER_EPOCH])
                   (\<lambda>committees. Inr \<lparr>es_epoch = e, es_activeIndices = activeIndices, es_shuffling = shuffling,
                      es_committees = committees, es_committeesPerSlot = committeesPerSlot\<rparr>)))"

end
