(* ===== verification/EpochContext.thy ===== *)
theory EpochContext
  imports EpochShuffling
begin

text \<open>
  The epoch context (\<open>packages/beacon-state-transition/src/cache/epochContext.ts\<close>) with the caches of sync
  committees and public keys (\<open>syncCommitteeCache.ts\<close>, \<open>pubkeyCache.ts\<close>): what is computed once
  per epoch, and the counters of the exit queue. Keys of the public key map, hex strings in the code, stand for
  their bytes.
\<close>

section \<open>Public keys and sync committees\<close>

text \<open>The loop over the validators that the two caches do not have yet.\<close>

fun addPubkeys :: "nat \<Rightarrow> validator list \<Rightarrow> (pubkey, nat) jsmap \<Rightarrow> pubkey list \<Rightarrow> (pubkey, nat) jsmap \<times> pubkey list" where
  "addPubkeys i [] pubkey2index index2pubkey = (pubkey2index, index2pubkey)"
| "addPubkeys i (v # vs) pubkey2index index2pubkey =
     addPubkeys (i + 1) vs (jm_set (v_pubkey v) i pubkey2index) (index2pubkey @ [v_pubkey v])"

definition syncPubkeys :: "validator list \<Rightarrow> (pubkey, nat) jsmap \<Rightarrow> pubkey list \<Rightarrow>
    st_error + (pubkey, nat) jsmap \<times> pubkey list" where
  "syncPubkeys validators pubkey2index index2pubkey =
     (if jm_size pubkey2index \<noteq> length index2pubkey
      then Inl (PubkeysOutOfSync (jm_size pubkey2index) (length index2pubkey))
      else Inr (addPubkeys (jm_size pubkey2index) (drop (jm_size pubkey2index) validators) pubkey2index index2pubkey))"

fun syncCommitteeMapFrom :: "nat \<Rightarrow> nat list \<Rightarrow> (nat, nat list) jsmap \<Rightarrow> (nat, nat list) jsmap" where
  "syncCommitteeMapFrom i [] m = m"
| "syncCommitteeMapFrom i (validatorIndex # rest) m =
     (let indexes = (case jm_get m validatorIndex of None \<Rightarrow> [] | Some is \<Rightarrow> is);
          m1 = (if jm_get m validatorIndex = None then jm_set validatorIndex [] m else m);
          m2 = (if i \<in> set indexes then m1 else jm_set validatorIndex (indexes @ [i]) m1)
      in syncCommitteeMapFrom (i + 1) rest m2)"

definition computeSyncComitteeMap :: "nat list \<Rightarrow> (nat, nat list) jsmap" where
  "computeSyncComitteeMap syncCommitteeIndexes = syncCommitteeMapFrom 0 syncCommitteeIndexes []"

definition getSyncCommitteeCache :: "nat list \<Rightarrow> sync_committee_cache" where
  "getSyncCommitteeCache indices =
     \<lparr>validatorIndices = indices, validatorIndexMap = computeSyncComitteeMap indices\<rparr>"

definition computeSyncCommitteeIndices :: "sync_committee \<Rightarrow> (pubkey, nat) jsmap \<Rightarrow> st_error + nat list" where
  "computeSyncCommitteeIndices syncCommittee pubkey2index =
     map_res (\<lambda>pubkey. case jm_get pubkey2index pubkey of
        None \<Rightarrow> Inl (UnknownSyncCommitteePubkey pubkey) | Some i \<Rightarrow> Inr i) (sc_pubkeys syncCommittee)"

definition computeSyncCommitteeCache :: "sync_committee \<Rightarrow> (pubkey, nat) jsmap \<Rightarrow> st_error + sync_committee_cache" where
  "computeSyncCommitteeCache syncCommittee pubkey2index =
     bind_res (computeSyncCommitteeIndices syncCommittee pubkey2index) (\<lambda>is. Inr (getSyncCommitteeCache is))"

section \<open>Creation\<close>

record ctx_opts =
  co_pubkey2index :: "(pubkey, nat) jsmap"
  co_index2pubkey :: "pubkey list"
  co_skipSyncPubkeys :: bool
  co_skipSyncCommitteeCache :: bool

text \<open>What the loop over the validators collects.\<close>

record registry_scan =
  rs_effectiveBalanceIncrements :: bytes
  rs_previousActive :: "nat list"
  rs_currentActive :: "nat list"
  rs_nextActive :: "nat list"
  rs_total :: nat
  rs_exitQueueEpoch :: epoch
  rs_exitQueueChurn :: nat

definition queueExit :: "enat \<Rightarrow> epoch \<times> nat \<Rightarrow> epoch \<times> nat" where
  "queueExit exitEpoch queue =
     (case exitEpoch of
        \<infinity> \<Rightarrow> queue
      | enat e \<Rightarrow> if e > fst queue then (e, 1) else if e = fst queue then (fst queue, snd queue + 1) else queue)"

definition scanValidator :: "epoch \<Rightarrow> epoch \<Rightarrow> epoch \<Rightarrow> nat \<times> validator \<Rightarrow> registry_scan \<Rightarrow> registry_scan" where
  "scanValidator previousEpoch currentEpoch followingEpoch iv s =
     (let (i, v) = iv;
          increment = of_nat (v_effectiveBalance v div EFFECTIVE_BALANCE_INCREMENT);
          (e, churn) = queueExit (v_exitEpoch v) (rs_exitQueueEpoch s, rs_exitQueueChurn s)
      in s\<lparr>rs_effectiveBalanceIncrements := (rs_effectiveBalanceIncrements s)[i := increment],
           rs_previousActive := (if isActiveValidator v previousEpoch then rs_previousActive s @ [i] else rs_previousActive s),
           rs_currentActive := (if isActiveValidator v currentEpoch then rs_currentActive s @ [i] else rs_currentActive s),
           rs_total := (if isActiveValidator v currentEpoch then rs_total s + unat increment else rs_total s),
           rs_nextActive := (if isActiveValidator v followingEpoch then rs_nextActive s @ [i] else rs_nextActive s),
           rs_exitQueueEpoch := e, rs_exitQueueChurn := churn\<rparr>)"

definition scanRegistry :: "epoch \<Rightarrow> epoch \<Rightarrow> epoch \<Rightarrow> validator list \<Rightarrow> registry_scan" where
  "scanRegistry previousEpoch currentEpoch followingEpoch vs =
     fold (scanValidator previousEpoch currentEpoch followingEpoch) (List.enumerate 0 vs)
       \<lparr>rs_effectiveBalanceIncrements = getEffectiveBalanceIncrementsWithLen (length vs), rs_previousActive = [],
        rs_currentActive = [], rs_nextActive = [], rs_total = 0,
        rs_exitQueueEpoch = computeActivationExitEpoch currentEpoch, rs_exitQueueChurn = 0\<rparr>"

definition computeSyncProposerReward :: "nat \<Rightarrow> nat" where
  "computeSyncProposerReward syncParticipantReward =
     syncParticipantReward * PROPOSER_WEIGHT div (WEIGHT_DENOMINATOR - PROPOSER_WEIGHT)"

definition boundedTotal :: "nat \<Rightarrow> st_error + nat" where
  "boundedTotal n =
     (if n < 1 then Inr 1 else if n \<ge> MAX_SAFE_INTEGER then Inl TotalActiveTooLarge else Inr n)"

definition createFromState :: "hash \<Rightarrow> state_config \<Rightarrow> 'a tree_state_scheme \<Rightarrow> ctx_opts \<Rightarrow> st_error + epoch_ctx" where
  "createFromState hash config state opts =
     bind_res (if co_skipSyncPubkeys opts then Inr (co_pubkey2index opts, co_index2pubkey opts)
        else syncPubkeys (ts_validators state) (co_pubkey2index opts) (co_index2pubkey opts))
     (\<lambda>(pubkey2index, index2pubkey).
       let currentEpoch = computeEpochAtSlot (ts_slot state);
           isGenesis = (currentEpoch = GENESIS_EPOCH);
           previousEpoch = (if isGenesis then GENESIS_EPOCH else currentEpoch - 1);
           followingEpoch = currentEpoch + 1;
           s = scanRegistry previousEpoch currentEpoch followingEpoch (ts_validators state)
       in bind_res (boundedTotal (rs_total s)) (\<lambda>totalIncrements.
          bind_res (computeEpochShuffling hash state (rs_currentActive s) currentEpoch) (\<lambda>currentShuffling.
          bind_res (if isGenesis then Inr currentShuffling
             else computeEpochShuffling hash state (rs_previousActive s) previousEpoch) (\<lambda>previousShuffling.
          bind_res (computeEpochShuffling hash state (rs_nextActive s) followingEpoch) (\<lambda>nextShuffling.
          bind_res (if ts_validators state = [] then Inr []
             else computeProposers hash state currentShuffling (rs_effectiveBalanceIncrements s)) (\<lambda>proposers.
          let afterAltairFork = (enat currentEpoch \<ge> ALTAIR_FORK_EPOCH (sc_forks config));
              withCommittees = (afterAltairFork \<and> \<not> co_skipSyncCommitteeCache opts)
          in
          bind_res (if withCommittees then bind_res (computeSyncCommitteeCache (ts_currentSyncCommittee state) pubkey2index)
             (\<lambda>c. Inr (Some c)) else Inr None) (\<lambda>currentSyncCommitteeIndexed.
          bind_res (if withCommittees then bind_res (computeSyncCommitteeCache (ts_nextSyncCommittee state) pubkey2index)
             (\<lambda>c. Inr (Some c)) else Inr None) (\<lambda>nextSyncCommitteeIndexed.
          let syncParticipantReward = computeSyncParticipantReward totalIncrements;
              churnLimit = getChurnLimit config (length (es_activeIndices currentShuffling));
              (exitQueueEpoch, exitQueueChurn) =
                (if rs_exitQueueChurn s \<ge> churnLimit then (rs_exitQueueEpoch s + 1, 0)
                 else (rs_exitQueueEpoch s, rs_exitQueueChurn s))
          in Inr
            \<lparr>ec_pubkey2index = pubkey2index, ec_index2pubkey = index2pubkey, ec_proposers = proposers,
             ec_previousShuffling = previousShuffling, ec_currentShuffling = currentShuffling,
             ec_nextShuffling = nextShuffling,
             ec_effectiveBalanceIncrements = rs_effectiveBalanceIncrements s,
             ec_syncParticipantReward = syncParticipantReward,
             ec_syncProposerReward = computeSyncProposerReward syncParticipantReward,
             ec_baseRewardPerIncrement = computeBaseRewardPerIncrement totalIncrements,
             ec_totalActiveBalanceIncrements = totalIncrements,
             ec_churnLimit = churnLimit, ec_exitQueueEpoch = exitQueueEpoch, ec_exitQueueChurn = exitQueueChurn,
             ec_currentSyncCommitteeIndexed = currentSyncCommitteeIndexed,
             ec_nextSyncCommitteeIndexed = nextSyncCommitteeIndexed,
             ec_epoch = currentEpoch, ec_syncPeriod = computeSyncPeriodAtEpoch currentEpoch\<rparr>))))))))"

section \<open>The end of an epoch\<close>

definition ctx_afterProcessEpoch :: "hash \<Rightarrow> state_config \<Rightarrow> 'a tree_state_scheme \<Rightarrow> nat list \<Rightarrow> nat \<Rightarrow> epoch_ctx \<Rightarrow>
    st_error + epoch_ctx" where
  "ctx_afterProcessEpoch hash config state nextEpochShufflingActiveValidatorIndices nextEpochTotalActiveBalanceByIncrement c =
     (let c1 = c\<lparr>ec_previousShuffling := ec_currentShuffling c, ec_currentShuffling := ec_nextShuffling c\<rparr>;
          currEpoch = es_epoch (ec_currentShuffling c1);
          followingEpoch = currEpoch + 1
      in bind_res (computeEpochShuffling hash state nextEpochShufflingActiveValidatorIndices followingEpoch) (\<lambda>nextShuffling.
         bind_res (computeProposers hash state (ec_currentShuffling c1) (ec_effectiveBalanceIncrements c1)) (\<lambda>proposers.
         let churnLimit = getChurnLimit config (length (es_activeIndices (ec_currentShuffling c1)));
             exitQueueEpoch = computeActivationExitEpoch currEpoch;
             c2 = c1\<lparr>ec_nextShuffling := nextShuffling, ec_proposers := proposers, ec_churnLimit := churnLimit\<rparr>;
             c3 = (if exitQueueEpoch > ec_exitQueueEpoch c2
                   then c2\<lparr>ec_exitQueueEpoch := exitQueueEpoch, ec_exitQueueChurn := 0\<rparr> else c2);
             c4 = c3\<lparr>ec_totalActiveBalanceIncrements := nextEpochTotalActiveBalanceByIncrement\<rparr>;
             syncParticipantReward = computeSyncParticipantReward nextEpochTotalActiveBalanceByIncrement;
             c5 = (if enat currEpoch \<ge> ALTAIR_FORK_EPOCH (sc_forks config)
                   then c4\<lparr>ec_syncParticipantReward := syncParticipantReward,
                     ec_syncProposerReward := computeSyncProposerReward syncParticipantReward,
                     ec_baseRewardPerIncrement := computeBaseRewardPerIncrement nextEpochTotalActiveBalanceByIncrement\<rparr>
                   else c4);
             e = computeEpochAtSlot (ts_slot state)
         in Inr (c5\<lparr>ec_epoch := e, ec_syncPeriod := computeSyncPeriodAtEpoch e\<rparr>))))"

section \<open>Reads\<close>

definition getShufflingAtEpoch :: "epoch_ctx \<Rightarrow> epoch \<Rightarrow> st_error + epoch_shuffling" where
  "getShufflingAtEpoch c e =
     (if e = es_epoch (ec_previousShuffling c) then Inr (ec_previousShuffling c)
      else if e = es_epoch (ec_currentShuffling c) then Inr (ec_currentShuffling c)
      else if e = es_epoch (ec_nextShuffling c) then Inr (ec_nextShuffling c)
      else Inl (EpochOutOfRange e (es_epoch (ec_currentShuffling c))))"

definition getShufflingAtSlot :: "epoch_ctx \<Rightarrow> slot \<Rightarrow> st_error + epoch_shuffling" where
  "getShufflingAtSlot c s = getShufflingAtEpoch c (computeEpochAtSlot s)"

definition getBeaconCommittee :: "epoch_ctx \<Rightarrow> slot \<Rightarrow> nat \<Rightarrow> st_error + nat list" where
  "getBeaconCommittee c s index =
     bind_res (getShufflingAtSlot c s) (\<lambda>shuffling.
       case nth_opt (es_committees shuffling) (s mod SLOTS_PER_EPOCH) of
         None \<Rightarrow> Inl Undefined
       | Some slotCommittees \<Rightarrow>
           (if index \<ge> length slotCommittees then Inl (CommitteeIndexOutOfRange index (length slotCommittees))
            else Inr (slotCommittees ! index)))"

definition getCommitteeCountPerSlot :: "epoch_ctx \<Rightarrow> epoch \<Rightarrow> st_error + nat" where
  "getCommitteeCountPerSlot c e = bind_res (getShufflingAtEpoch c e) (\<lambda>s. Inr (es_committeesPerSlot s))"

text \<open>Without proposers, for a state without validators, the read is \<open>undefined\<close>.\<close>

definition getBeaconProposer :: "epoch_ctx \<Rightarrow> slot \<Rightarrow> st_error + int" where
  "getBeaconProposer c s =
     (let e = computeEpochAtSlot s
      in if e \<noteq> es_epoch (ec_currentShuffling c) then Inl (ProposerOfOtherEpoch e (es_epoch (ec_currentShuffling c)))
         else case nth_opt (ec_proposers c) (s mod SLOTS_PER_EPOCH) of None \<Rightarrow> Inl Undefined | Some p \<Rightarrow> Inr p)"

definition getAttestingIndices :: "epoch_ctx \<Rightarrow> attestation_data \<Rightarrow> bool list \<Rightarrow> st_error + nat list" where
  "getAttestingIndices c data bits =
     bind_res (getBeaconCommittee c (ad_slot data) (ad_index data)) (\<lambda>committeeIndices.
       Inr (zipIndexesCommitteeBits committeeIndices bits))"

definition getIndexedAttestation :: "epoch_ctx \<Rightarrow> attestation \<Rightarrow> st_error + indexed_att" where
  "getIndexedAttestation c att =
     bind_res (getBeaconCommittee c (ad_slot (at_data att)) (ad_index (at_data att))) (\<lambda>committeeIndices.
       let attestingIndices = zipIndexesCommitteeBits committeeIndices (at_aggregationBits att)
       in Inr \<lparr>ix_attestingIndices = sort attestingIndices, ix_data = at_data att, ix_signature = at_signature att\<rparr>)"

record attester_duty =
  du_validatorIndex :: nat
  du_committeeIndex :: nat
  du_committeeLength :: nat
  du_committeesAtSlot :: nat
  du_validatorCommitteeIndex :: nat
  du_slot :: slot

definition committeeDuties :: "nat list \<Rightarrow> slot \<Rightarrow> nat \<Rightarrow> nat \<Rightarrow> nat list \<Rightarrow>
    (nat, attester_duty) jsmap \<Rightarrow> (nat, attester_duty) jsmap" where
  "committeeDuties requested s committeesAtSlot i committee duties =
     fold (\<lambda>(j, v) ds. if v \<in> set requested
         then jm_set v \<lparr>du_validatorIndex = v, du_committeeIndex = i, du_committeeLength = length committee,
           du_committeesAtSlot = committeesAtSlot, du_validatorCommitteeIndex = j, du_slot = s\<rparr> ds
         else ds)
       (List.enumerate 0 committee) duties"

definition getCommitteeAssignments :: "epoch_ctx \<Rightarrow> epoch \<Rightarrow> nat list \<Rightarrow> st_error + (nat, attester_duty) jsmap" where
  "getCommitteeAssignments c e requestedValidatorIndices =
     bind_res (getShufflingAtEpoch c e) (\<lambda>shuffling.
       fold_res (\<lambda>epochSlot duties.
           case nth_opt (es_committees shuffling) epochSlot of
             None \<Rightarrow> Inl Undefined
           | Some slotCommittees \<Rightarrow>
               Inr (fold (\<lambda>(i, committee). committeeDuties requestedValidatorIndices (e * SLOTS_PER_EPOCH + epochSlot)
                 (length slotCommittees) i committee) (List.enumerate 0 slotCommittees) duties))
         [0..<SLOTS_PER_EPOCH] [])"

record committee_assignment =
  ca_validators :: "nat list"
  ca_committeeIndex :: nat
  ca_slot :: slot

text \<open>The first committee of the epoch with the validator; \<open>None\<close> is \<open>null\<close>.\<close>

fun findAssignment :: "epoch_ctx \<Rightarrow> nat \<Rightarrow> (slot \<times> nat) list \<Rightarrow> st_error + committee_assignment option" where
  "findAssignment c validatorIndex [] = Inr None"
| "findAssignment c validatorIndex ((s, i) # rest) =
     bind_res (getBeaconCommittee c s i) (\<lambda>committee.
       if validatorIndex \<in> set committee
       then Inr (Some \<lparr>ca_validators = committee, ca_committeeIndex = i, ca_slot = s\<rparr>)
       else findAssignment c validatorIndex rest)"

definition getCommitteeAssignment :: "epoch_ctx \<Rightarrow> epoch \<Rightarrow> nat \<Rightarrow> st_error + committee_assignment option" where
  "getCommitteeAssignment c e validatorIndex =
     (if e > es_epoch (ec_currentShuffling c) + 1 then Inl (AssignmentTooFarAhead e (es_epoch (ec_currentShuffling c)))
      else
        let epochStartSlot = computeStartSlotAtEpoch e
        in bind_res (getCommitteeCountPerSlot c e) (\<lambda>committeeCountPerSlot.
             findAssignment c validatorIndex
               (concat (map (\<lambda>s. map (\<lambda>i. (s, i)) [0..<committeeCountPerSlot])
                 [epochStartSlot..<epochStartSlot + SLOTS_PER_EPOCH]))))"

definition isAggregator :: "hash \<Rightarrow> epoch_ctx \<Rightarrow> slot \<Rightarrow> nat \<Rightarrow> bytes \<Rightarrow> st_error + bool" where
  "isAggregator hash c s index slotSignature =
     bind_res (getBeaconCommittee c s index) (\<lambda>committee.
       Inr (isAggregatorFromCommitteeLength hash (length committee) slotSignature))"

definition getIndexedSyncCommitteeAtEpoch :: "epoch_ctx \<Rightarrow> epoch \<Rightarrow> st_error + sync_committee_cache option" where
  "getIndexedSyncCommitteeAtEpoch c e =
     (if computeSyncPeriodAtEpoch e = ec_syncPeriod c then Inr (ec_currentSyncCommitteeIndexed c)
      else if computeSyncPeriodAtEpoch e = ec_syncPeriod c + 1 then Inr (ec_nextSyncCommitteeIndexed c)
      else Inl (NoSyncCommitteeForEpoch e))"

definition getIndexedSyncCommittee :: "epoch_ctx \<Rightarrow> slot \<Rightarrow> st_error + sync_committee_cache option" where
  "getIndexedSyncCommittee c s = getIndexedSyncCommitteeAtEpoch c (computeEpochAtSlot (s + 1))"

section \<open>Updates\<close>

text \<open>Assigning to an array beyond its end leaves a hole, which the one caller does not make.\<close>

definition addPubkey :: "nat \<Rightarrow> pubkey \<Rightarrow> epoch_ctx \<Rightarrow> epoch_ctx" where
  "addPubkey index pubkey c =
     c\<lparr>ec_pubkey2index := jm_set pubkey index (ec_pubkey2index c),
       ec_index2pubkey := (if index < length (ec_index2pubkey c) then (ec_index2pubkey c)[index := pubkey]
         else ec_index2pubkey c @ [pubkey])\<rparr>"

definition effectiveBalanceIncrementsSet :: "nat \<Rightarrow> nat \<Rightarrow> epoch_ctx \<Rightarrow> epoch_ctx" where
  "effectiveBalanceIncrementsSet index effectiveBalance c =
     (let old = ec_effectiveBalanceIncrements c;
          increments = (if index \<ge> length old then setBytes old 0 (getEffectiveBalanceIncrementsWithLen (index + 1)) else old)
      in c\<lparr>ec_effectiveBalanceIncrements := increments[index := of_nat (effectiveBalance div EFFECTIVE_BALANCE_INCREMENT)]\<rparr>)"

definition rotateSyncCommitteeIndexed :: "nat list \<Rightarrow> epoch_ctx \<Rightarrow> epoch_ctx" where
  "rotateSyncCommitteeIndexed nextSyncCommitteeIndices c =
     c\<lparr>ec_currentSyncCommitteeIndexed := ec_nextSyncCommitteeIndexed c,
       ec_nextSyncCommitteeIndexed := Some (getSyncCommitteeCache nextSyncCommitteeIndices)\<rparr>"

end
