(* ===== verification/ValidatorRegistry.thy ===== *)
theory ValidatorRegistry
  imports EpochContext
begin

text \<open>
  Operations on single validators that blocks and epochs share: balances, the queue of exits and
  slashing (\<open>packages/beacon-state-transition/src/util/balance.ts\<close>,
  \<open>allForks/block/initiateValidatorExit.ts\<close>, \<open>slashValidator.ts\<close>). A method throws away the whole
  transition when it throws, so the error carries no state.
\<close>

section \<open>Blocks\<close>

record voluntary_exit =
  ve_epoch :: epoch
  ve_validatorIndex :: nat

record signed_voluntary_exit =
  sv_message :: voluntary_exit
  sv_signature :: bytes

record signed_header =
  sg_message :: block_header
  sg_signature :: bytes

record proposer_slashing =
  psl_signedHeader1 :: signed_header
  psl_signedHeader2 :: signed_header

record attester_slashing =
  asl_attestation1 :: indexed_att
  asl_attestation2 :: indexed_att

record deposit_data =
  dd_pubkey :: pubkey
  dd_withdrawalCredentials :: bytes
  dd_amount :: nat
  dd_signature :: bytes

record deposit =
  dp_proof :: "bytes list"
  dp_data :: deposit_data

text \<open>The sync aggregate is there from altair on, the payload from bellatrix on; the rest of the body is not read.\<close>

record block_body =
  bo_randaoReveal :: bytes
  bo_eth1Data :: eth1_data
  bo_proposerSlashings :: "proposer_slashing list"
  bo_attesterSlashings :: "attester_slashing list"
  bo_attestations :: "attestation list"
  bo_deposits :: "deposit list"
  bo_voluntaryExits :: "signed_voluntary_exit list"
  bo_syncAggregate :: sync_aggregate
  bo_executionPayload :: st_payload
  bo_rest :: string

record st_block =
  bl_slot :: slot
  bl_proposerIndex :: nat
  bl_parentRoot :: root
  bl_stateRoot :: root
  bl_body :: block_body

record signed_block =
  sb_message :: st_block
  sb_signature :: bytes

section \<open>Signature sets\<close>

text \<open>
  \<open>ISignatureSet\<close> of \<open>util/signatureSets.ts\<close>: keys, signing root and signature. A key that \<open>index2pubkey\<close>
  does not have is \<open>undefined\<close>.
\<close>

datatype signature_set =
    SingleSignature "pubkey option" root bytes
  | AggregateSignature "pubkey option list" root bytes

section \<open>Libraries\<close>

text \<open>
  What is not part of the repository: the hash functions, \<open>buffer-xor\<close>, the roots and the balance list of the SSZ library,
  the BLS library (\<open>None\<close> is an exception; the check of a deposit catches it). Keys and signatures
  are kept as bytes; a deserialization with validation may throw.
\<close>

record st_lib =
  sl_hash :: hash
  sl_digest64 :: "bytes \<Rightarrow> bytes"
  sl_xor :: "bytes \<Rightarrow> bytes \<Rightarrow> bytes"
  sl_addDelta :: "nat \<Rightarrow> int \<Rightarrow> nat"
  sl_config :: config_lib
  sl_genesis :: cached_genesis
  sl_signingDataRoot :: "root \<Rightarrow> bytes \<Rightarrow> root"
  sl_headerRoot :: "block_header \<Rightarrow> root"
  sl_epochRoot :: "epoch \<Rightarrow> root"
  sl_exitRoot :: "voluntary_exit \<Rightarrow> root"
  sl_attestationDataRoot :: "attestation_data \<Rightarrow> root"
  sl_depositMessageRoot :: "pubkey \<Rightarrow> bytes \<Rightarrow> nat \<Rightarrow> root"
  sl_depositDataRoot :: "deposit_data \<Rightarrow> root"
  sl_blockRoot :: "fork_name \<Rightarrow> st_block \<Rightarrow> root"
  sl_bodyRoot :: "fork_name \<Rightarrow> block_body \<Rightarrow> root"
  sl_stateRoot :: "fork_name \<Rightarrow> tree_state \<Rightarrow> root"
  sl_historicalBatchRoot :: "root list \<Rightarrow> root list \<Rightarrow> root"
  sl_rootRoot :: "root \<Rightarrow> root"
  sl_eth1DataRoot :: "eth1_data \<Rightarrow> root"
  sl_transactionsRoot :: "bytes list \<Rightarrow> root"
  sl_publicKeyFromBytes :: "bytes \<Rightarrow> pubkey option"
  sl_signatureFromBytes :: "bytes \<Rightarrow> bytes option"
  sl_verify :: "bytes \<Rightarrow> pubkey option \<Rightarrow> root \<Rightarrow> bool option"
  sl_verifyAggregate :: "bytes \<Rightarrow> pubkey option list \<Rightarrow> root \<Rightarrow> bool option"
  sl_aggregatePublicKeys :: "pubkey list \<Rightarrow> bytes option"

text \<open>What the comments of \<open>balance.ts\<close> rely on: a delta is added, and an underflow gives 0.\<close>

definition saturating :: "st_lib \<Rightarrow> bool" where
  "saturating lib \<longleftrightarrow> (\<forall>b d. sl_addDelta lib b d = nat (int b + d))"

section \<open>Balances\<close>

text \<open>\<open>BalanceList.applyDelta\<close>; an index of the proposer may be -1. The library throws out of range.\<close>

definition applyDelta :: "st_lib \<Rightarrow> int \<Rightarrow> int \<Rightarrow> cached_state \<Rightarrow> st_error + cached_state" where
  "applyDelta lib index delta s =
     (if 0 \<le> index \<and> nat index < length (ts_balances s)
      then Inr (s\<lparr>ts_balances := (ts_balances s)[nat index := sl_addDelta lib (ts_balances s ! nat index) delta]\<rparr>)
      else Inl LibraryError)"

definition increaseBalance :: "st_lib \<Rightarrow> int \<Rightarrow> nat \<Rightarrow> cached_state \<Rightarrow> st_error + cached_state" where
  "increaseBalance lib index delta s = applyDelta lib index (int delta) s"

definition decreaseBalance :: "st_lib \<Rightarrow> int \<Rightarrow> nat \<Rightarrow> cached_state \<Rightarrow> st_error + cached_state" where
  "decreaseBalance lib index delta s = applyDelta lib index (- int delta) s"

section \<open>Exits\<close>

definition getValidator :: "nat \<Rightarrow> 'a tree_state_scheme \<Rightarrow> st_error + validator" where
  "getValidator i s = (case nth_opt (ts_validators s) i of None \<Rightarrow> Inl Undefined | Some v \<Rightarrow> Inr v)"

definition setValidator :: "nat \<Rightarrow> validator \<Rightarrow> cached_state \<Rightarrow> cached_state" where
  "setValidator i v s = s\<lparr>ts_validators := (ts_validators s)[i := v]\<rparr>"

text \<open>The counters of the queue after one more exit.\<close>

definition nextInQueue :: "epoch_ctx \<Rightarrow> epoch_ctx" where
  "nextInQueue c =
     (if ec_exitQueueChurn c \<ge> ec_churnLimit c
      then c\<lparr>ec_exitQueueEpoch := ec_exitQueueEpoch c + 1, ec_exitQueueChurn := 1\<rparr>
      else c\<lparr>ec_exitQueueChurn := ec_exitQueueChurn c + 1\<rparr>)"

definition initiateValidatorExit :: "state_config \<Rightarrow> nat \<Rightarrow> cached_state \<Rightarrow> st_error + cached_state" where
  "initiateValidatorExit config i s =
     bind_res (getValidator i s) (\<lambda>v.
       if v_exitEpoch v \<noteq> FAR_FUTURE_EPOCH then Inr s
       else
         let c = nextInQueue (epochCtx s)
         in Inr (setValidator i (v\<lparr>v_exitEpoch := enat (ec_exitQueueEpoch c),
              v_withdrawableEpoch := enat (ec_exitQueueEpoch c + MIN_VALIDATOR_WITHDRAWABILITY_DELAY config)\<rparr>)
              (s\<lparr>epochCtx := c\<rparr>)))"

section \<open>Slashing\<close>

definition minSlashingPenaltyQuotient :: "fork_name \<Rightarrow> nat" where
  "minSlashingPenaltyQuotient fork =
     (if fork = Phase0 then MIN_SLASHING_PENALTY_QUOTIENT
      else if fork = Altair then MIN_SLASHING_PENALTY_QUOTIENT_ALTAIR
      else MIN_SLASHING_PENALTY_QUOTIENT_BELLATRIX)"

definition slashValidatorAllForks :: "st_lib \<Rightarrow> state_config \<Rightarrow> fork_name \<Rightarrow> nat \<Rightarrow> nat option \<Rightarrow> cached_state \<Rightarrow>
    st_error + cached_state" where
  "slashValidatorAllForks lib config fork slashedIndex whistleblowerIndex s =
     (let e = es_epoch (ec_currentShuffling (epochCtx s))
      in bind_res (initiateValidatorExit config slashedIndex s) (\<lambda>s1.
         bind_res (getValidator slashedIndex s1) (\<lambda>v.
         let s2 = setValidator slashedIndex
               (v\<lparr>v_slashed := True,
                  v_withdrawableEpoch := max (v_withdrawableEpoch v) (enat (e + EPOCHS_PER_SLASHINGS_VECTOR))\<rparr>) s1;
             effectiveBalance = v_effectiveBalance v;
             k = e mod EPOCHS_PER_SLASHINGS_VECTOR;
             s3 = s2\<lparr>ts_slashings := (ts_slashings s2)[k := ts_slashings s2 ! k + effectiveBalance]\<rparr>
         in bind_res (decreaseBalance lib (int slashedIndex) (effectiveBalance div minSlashingPenaltyQuotient fork) s3) (\<lambda>s4.
            let whistleblowerReward = effectiveBalance div WHISTLEBLOWER_REWARD_QUOTIENT;
                proposerReward = (if fork = Phase0 then whistleblowerReward div PROPOSER_REWARD_QUOTIENT
                  else whistleblowerReward * PROPOSER_WEIGHT div WEIGHT_DENOMINATOR)
            in bind_res (getBeaconProposer (epochCtx s4) (ts_slot s4)) (\<lambda>proposerIndex.
               case whistleblowerIndex of
                 None \<Rightarrow> increaseBalance lib proposerIndex whistleblowerReward s4
               | Some w \<Rightarrow>
                   bind_res (increaseBalance lib proposerIndex proposerReward s4)
                     (increaseBalance lib (int w) (whistleblowerReward - proposerReward)))))))"

end
