(* ===== verification/EpochProcess.thy ===== *)
theory EpochProcess
  imports ValidatorRegistry
begin

unbundle bit_operations_syntax

text \<open>
  What an epoch transition computes before it starts
  (\<open>packages/beacon-state-transition/src/cache/epochProcess.ts\<close>,
  \<open>phase0/epoch/processPendingAttestations.ts\<close>): one pass over the validators collects who is
  slashed, activated or ejected, the participation of each, and the stakes behind the votes.
\<close>

section \<open>Data\<close>

record epoch_process =
  pr_prevEpoch :: epoch
  pr_currentEpoch :: epoch
  pr_totalActiveStakeByIncrement :: nat
  pr_baseRewardPerIncrement :: nat
  pr_sourceStakeByIncrement :: nat
  pr_targetStakeByIncrement :: nat
  pr_headStakeByIncrement :: nat
  pr_currTargetStakeByIncrement :: nat
  pr_indicesToSlash :: "nat list"
  pr_indicesEligibleForActivationQueue :: "nat list"
  pr_indicesEligibleForActivation :: "nat list"
  pr_indicesToEject :: "nat list"
  pr_statuses :: "attester_status list"
  pr_balances :: "nat list option"
  pr_nextEpochShufflingActiveValidatorIndices :: "nat list"
  pr_nextEpochTotalActiveBalanceByIncrement :: nat
  pr_isActiveNextEpoch :: "bool list"

section \<open>The pass over the validators\<close>

text \<open>The indices that a loop over the validators pushes under a condition, in increasing order.\<close>

definition indicesWhere :: "(validator \<Rightarrow> bool) \<Rightarrow> validator list \<Rightarrow> nat list" where
  "indicesWhere P vs = filter (\<lambda>i. P (vs ! i)) [0..<length vs]"

definition toSlash :: "epoch \<Rightarrow> validator \<Rightarrow> bool" where
  "toSlash slashingsEpoch v \<longleftrightarrow> v_slashed v \<and> enat slashingsEpoch = v_withdrawableEpoch v"

definition eligibleForQueue :: "validator \<Rightarrow> bool" where
  "eligibleForQueue v \<longleftrightarrow>
     v_activationEligibilityEpoch v = FAR_FUTURE_EPOCH \<and> v_effectiveBalance v = MAX_EFFECTIVE_BALANCE"

definition eligibleForActivation :: "epoch \<Rightarrow> validator \<Rightarrow> bool" where
  "eligibleForActivation currentEpoch v \<longleftrightarrow> \<not> eligibleForQueue v \<and>
     v_activationEpoch v = FAR_FUTURE_EPOCH \<and> v_activationEligibilityEpoch v \<le> enat currentEpoch"

definition toEject :: "state_config \<Rightarrow> epoch \<Rightarrow> validator \<Rightarrow> bool" where
  "toEject config currentEpoch v \<longleftrightarrow> \<not> eligibleForQueue v \<and> \<not> eligibleForActivation currentEpoch v \<and>
     isActiveValidator v currentEpoch \<and> v_exitEpoch v = FAR_FUTURE_EPOCH \<and> v_effectiveBalance v \<le> EJECTION_BALANCE config"

definition initialStatus :: "epoch \<Rightarrow> epoch \<Rightarrow> validator \<Rightarrow> attester_status" where
  "initialStatus prevEpoch currentEpoch v =
     (let status = createIAttesterStatus;
          flags1 = (if v_slashed v then as_flags status else as_flags status OR FLAG_UNSLASHED);
          flags2 = (if isActiveValidator v prevEpoch \<or> v_slashed v \<and> enat (prevEpoch + 1) < v_withdrawableEpoch v
            then flags1 OR FLAG_ELIGIBLE_ATTESTER else flags1)
      in status\<lparr>as_flags := flags2, as_active := isActiveValidator v currentEpoch\<rparr>)"

definition incrementsOf :: "validator \<Rightarrow> nat" where
  "incrementsOf v = v_effectiveBalance v div EFFECTIVE_BALANCE_INCREMENT"

section \<open>Participation\<close>

text \<open>Phase 0: the participants of a pending attestation get flags, and the first inclusion is kept.\<close>

definition recordInclusion :: "nat \<Rightarrow> int \<Rightarrow> attester_status \<Rightarrow> attester_status" where
  "recordInclusion inclusionDelay proposerIndex status =
     (if as_proposerIndex status = -1 \<or> as_inclusionDelay status > inclusionDelay
      then status\<lparr>as_proposerIndex := proposerIndex, as_inclusionDelay := inclusionDelay\<rparr> else status)"

definition addFlags :: "nat \<Rightarrow> attester_status \<Rightarrow> attester_status" where
  "addFlags flags status = status\<lparr>as_flags := as_flags status OR flags\<rparr>"

definition updateStatus :: "(attester_status \<Rightarrow> attester_status) \<Rightarrow> nat \<Rightarrow> attester_status list \<Rightarrow>
    st_error + attester_status list" where
  "updateStatus f p statuses =
     (case nth_opt statuses p of None \<Rightarrow> Inl Undefined | Some status \<Rightarrow> Inr (statuses[p := f status]))"

definition statusProcessAttestation :: "cached_state \<Rightarrow> epoch \<Rightarrow> root \<Rightarrow> nat \<Rightarrow> nat \<Rightarrow> nat \<Rightarrow> pending_attestation \<Rightarrow>
    attester_status list \<Rightarrow> st_error + attester_status list" where
  "statusProcessAttestation s e actualTargetBlockRoot sourceFlag targetFlag headFlag att statuses =
     (let attSlot = ad_slot (pn_data att);
          attVotedTargetRoot = (rc_root (ad_target (pn_data att)) = actualTargetBlockRoot)
      in bind_res (if attSlot < ts_slot s then bind_res (st_getBlockRootAtSlot s attSlot)
             (\<lambda>r. Inr (ad_beaconBlockRoot (pn_data att) = r)) else Inr False) (\<lambda>attVotedHeadRoot.
         bind_res (getBeaconCommittee (epochCtx s) attSlot (ad_index (pn_data att))) (\<lambda>committee.
         let participants = zipIndexesCommitteeBits committee (pn_aggregationBits att);
             flags = (if attVotedTargetRoot
               then if attVotedHeadRoot then sourceFlag OR targetFlag OR headFlag else sourceFlag OR targetFlag
               else sourceFlag)
         in bind_res (if e = es_epoch (ec_previousShuffling (epochCtx s))
              then fold_res (updateStatus (recordInclusion (pn_inclusionDelay att) (pn_proposerIndex att))) participants statuses
              else Inr statuses)
            (fold_res (updateStatus (addFlags flags)) participants))))"

definition statusProcessEpoch :: "cached_state \<Rightarrow> pending_attestation list \<Rightarrow> epoch \<Rightarrow> nat \<Rightarrow> nat \<Rightarrow> nat \<Rightarrow>
    attester_status list \<Rightarrow> st_error + attester_status list" where
  "statusProcessEpoch s attestations e sourceFlag targetFlag headFlag statuses =
     (if length attestations = 0 then Inr statuses
      else bind_res (st_getBlockRootAtSlot s (computeStartSlotAtEpoch e)) (\<lambda>actualTargetBlockRoot.
        fold_res (statusProcessAttestation s e actualTargetBlockRoot sourceFlag targetFlag headFlag) attestations statuses))"

text \<open>Altair: the flags of the state, for the validators that were active; one entry per validator.\<close>

definition participationFlags :: "nat list \<Rightarrow> bool list \<Rightarrow> nat \<Rightarrow> attester_status list \<Rightarrow> st_error + attester_status list" where
  "participationFlags participation active shift statuses =
     (if length statuses < length participation then Inl Undefined
      else Inr (map (\<lambda>i. let status = statuses ! i in
          if i < length participation \<and> active ! i then addFlags (push_bit shift (participation ! i)) status else status)
        [0..<length statuses]))"

definition stakeOf :: "nat \<Rightarrow> attester_status list \<Rightarrow> validator list \<Rightarrow> nat" where
  "stakeOf markers statuses vs =
     sum_list (map (\<lambda>i. if hasMarkers (as_flags (statuses ! i)) markers then incrementsOf (vs ! i) else 0) [0..<length statuses])"

section \<open>The whole preparation\<close>

definition epochStatuses :: "state_config \<Rightarrow> cached_state \<Rightarrow> st_error + attester_status list" where
  "epochStatuses config s =
     (let vs = ts_validators s;
          currentEpoch = es_epoch (ec_currentShuffling (epochCtx s));
          prevEpoch = es_epoch (ec_previousShuffling (epochCtx s));
          statuses = map (initialStatus prevEpoch currentEpoch) vs
      in if getForkName (sc_forks config) (ts_slot s) = Phase0
         then bind_res (statusProcessEpoch s (ts_previousEpochAttestations s) prevEpoch
                FLAG_PREV_SOURCE_ATTESTER FLAG_PREV_TARGET_ATTESTER FLAG_PREV_HEAD_ATTESTER statuses)
              (statusProcessEpoch s (ts_currentEpochAttestations s) currentEpoch
                FLAG_CURR_SOURCE_ATTESTER FLAG_CURR_TARGET_ATTESTER FLAG_CURR_HEAD_ATTESTER)
         else bind_res (participationFlags (ts_previousEpochParticipation s)
                (map (\<lambda>v. isActiveValidator v prevEpoch) vs) 0 statuses)
              (participationFlags (ts_currentEpochParticipation s) (map (\<lambda>v. isActiveValidator v currentEpoch) vs) 3))"

definition beforeProcessEpoch :: "state_config \<Rightarrow> cached_state \<Rightarrow> st_error + epoch_process" where
  "beforeProcessEpoch config s =
     (let vs = ts_validators s;
          currentEpoch = es_epoch (ec_currentShuffling (epochCtx s));
          prevEpoch = es_epoch (ec_previousShuffling (epochCtx s));
          slashingsEpoch = currentEpoch + intDiv EPOCHS_PER_SLASHINGS_VECTOR 2;
          activeStake = sum_list (map incrementsOf (filter (\<lambda>v. isActiveValidator v currentEpoch) vs))
      in bind_res (boundedTotal activeStake) (\<lambda>totalActiveStakeByIncrement.
         bind_res (epochStatuses config s) (\<lambda>statuses.
         Inr
          \<lparr>pr_prevEpoch = prevEpoch, pr_currentEpoch = currentEpoch,
           pr_totalActiveStakeByIncrement = totalActiveStakeByIncrement,
           pr_baseRewardPerIncrement = computeBaseRewardPerIncrement totalActiveStakeByIncrement,
           pr_sourceStakeByIncrement = max 1 (stakeOf FLAG_PREV_SOURCE_ATTESTER_OR_UNSLASHED statuses vs),
           pr_targetStakeByIncrement = max 1 (stakeOf FLAG_PREV_TARGET_ATTESTER_OR_UNSLASHED statuses vs),
           pr_headStakeByIncrement = max 1 (stakeOf FLAG_PREV_HEAD_ATTESTER_OR_UNSLASHED statuses vs),
           pr_currTargetStakeByIncrement = max 1 (stakeOf (FLAG_CURR_TARGET_ATTESTER OR FLAG_UNSLASHED) statuses vs),
           pr_indicesToSlash = indicesWhere (toSlash slashingsEpoch) vs,
           pr_indicesEligibleForActivationQueue = indicesWhere eligibleForQueue vs,
           pr_indicesEligibleForActivation =
             sort_key (\<lambda>i. v_activationEligibilityEpoch (vs ! i)) (indicesWhere (eligibleForActivation currentEpoch) vs),
           pr_indicesToEject = indicesWhere (toEject config currentEpoch) vs,
           pr_statuses = statuses, pr_balances = None,
           pr_nextEpochShufflingActiveValidatorIndices = indicesWhere (\<lambda>v. isActiveValidator v (currentEpoch + 2)) vs,
           pr_nextEpochTotalActiveBalanceByIncrement = 0,
           pr_isActiveNextEpoch = map (\<lambda>v. isActiveValidator v (currentEpoch + 1)) vs\<rparr>)))"

end
