(* ===== verification/EpochTransition.thy ===== *)
theory EpochTransition
  imports EpochProcess
begin

text \<open>
  The steps of an epoch transition (\<open>packages/beacon-state-transition/src/allForks/epoch\<close>,
  \<open>phase0/epoch\<close>, \<open>altair/epoch\<close>), over the pair of what was computed before the epoch and the state.
\<close>

type_synonym epoch_state = "epoch_process \<times> cached_state"

section \<open>Finality\<close>

text \<open>The loop that moves the bits up, and the first one cleared.\<close>

definition shiftBits :: "bool list \<Rightarrow> bool list" where
  "shiftBits bits = (case bits of [] \<Rightarrow> [] | b # bs \<Rightarrow> False # butlast bits)"

definition reachesSupermajority :: "nat \<Rightarrow> nat \<Rightarrow> bool" where
  "reachesSupermajority stake totalStake \<longleftrightarrow> stake * 3 \<ge> totalStake * 2"

definition justifyEpoch :: "bool \<Rightarrow> epoch \<Rightarrow> nat \<Rightarrow> cached_state \<Rightarrow> st_error + cached_state" where
  "justifyEpoch reached e k s =
     (if reached then bind_res (st_getBlockRoot s e) (\<lambda>r. Inr
        (s\<lparr>ts_currentJustifiedCheckpoint := \<lparr>rc_epoch = e, rc_root = r\<rparr>,
           ts_justificationBits := (ts_justificationBits s)[k := True]\<rparr>))
      else Inr s)"

definition finalizeWhen :: "bool \<Rightarrow> root_checkpoint \<Rightarrow> cached_state \<Rightarrow> cached_state" where
  "finalizeWhen b checkpoint s = (if b then s\<lparr>ts_finalizedCheckpoint := checkpoint\<rparr> else s)"

definition processJustificationAndFinalization :: "epoch_state \<Rightarrow> st_error + epoch_state" where
  "processJustificationAndFinalization ps =
     (let (p, s) = ps;
          previousEpoch = pr_prevEpoch p;
          currentEpoch = pr_currentEpoch p
      in if currentEpoch \<le> GENESIS_EPOCH + 1 then Inr (p, s)
         else
           let oldPrevious = ts_previousJustifiedCheckpoint s;
               oldCurrent = ts_currentJustifiedCheckpoint s;
               s1 = s\<lparr>ts_previousJustifiedCheckpoint := oldCurrent, ts_justificationBits := shiftBits (ts_justificationBits s)\<rparr>
           in bind_res (justifyEpoch (reachesSupermajority (pr_targetStakeByIncrement p) (pr_totalActiveStakeByIncrement p))
                previousEpoch 1 s1) (\<lambda>s2.
              bind_res (justifyEpoch (reachesSupermajority (pr_currTargetStakeByIncrement p) (pr_totalActiveStakeByIncrement p))
                currentEpoch 0 s2) (\<lambda>s3.
              let bits = ts_justificationBits s3;
                  s4 = finalizeWhen (bits ! 1 \<and> bits ! 2 \<and> bits ! 3 \<and> rc_epoch oldPrevious + 3 = currentEpoch) oldPrevious s3;
                  s5 = finalizeWhen (bits ! 1 \<and> bits ! 2 \<and> rc_epoch oldPrevious + 2 = currentEpoch) oldPrevious s4;
                  s6 = finalizeWhen (bits ! 0 \<and> bits ! 1 \<and> bits ! 2 \<and> rc_epoch oldCurrent + 2 = currentEpoch) oldCurrent s5;
                  s7 = finalizeWhen (bits ! 0 \<and> bits ! 1 \<and> rc_epoch oldCurrent + 1 = currentEpoch) oldCurrent s6
              in Inr (p, s7))))"

section \<open>Rewards and penalties\<close>

definition processInactivityScore :: "state_config \<Rightarrow> bool \<Rightarrow> attester_status \<Rightarrow> nat \<Rightarrow> nat" where
  "processInactivityScore config inActivityLeak status inactivityScore =
     (if hasMarkers (as_flags status) FLAG_ELIGIBLE_ATTESTER then
        let score1 = (if hasMarkers (as_flags status) FLAG_PREV_TARGET_ATTESTER_OR_UNSLASHED
              then inactivityScore - min 1 inactivityScore
              else inactivityScore + INACTIVITY_SCORE_BIAS config)
        in if \<not> inActivityLeak then score1 - min (INACTIVITY_SCORE_RECOVERY_RATE config) score1 else score1
      else inactivityScore)"

definition processInactivityUpdates :: "state_config \<Rightarrow> epoch_state \<Rightarrow> st_error + epoch_state" where
  "processInactivityUpdates config ps =
     (let (p, s) = ps
      in if es_epoch (ec_currentShuffling (epochCtx s)) = GENESIS_EPOCH then Inr (p, s)
         else if length (pr_statuses p) < length (ts_inactivityScores s) then Inl Undefined
         else Inr (p, s\<lparr>ts_inactivityScores :=
           map2 (processInactivityScore config (isInInactivityLeak s)) (pr_statuses p) (ts_inactivityScores s)\<rparr>))"

text \<open>
  The rewards and penalties of a validator in altair. The code keeps the items that depend on the
  effective balance in a map; here they are computed each time.
\<close>

record reward_item =
  ri_baseReward :: nat
  ri_timelySourceReward :: nat
  ri_timelySourcePenalty :: nat
  ri_timelyTargetReward :: nat
  ri_timelyTargetPenalty :: nat
  ri_timelyHeadReward :: nat

definition rewardPenaltyItem :: "epoch_process \<Rightarrow> nat \<Rightarrow> reward_item" where
  "rewardPenaltyItem p effectiveBalanceIncrement =
     (let baseReward = effectiveBalanceIncrement * pr_baseRewardPerIncrement p;
          activeIncrements = pr_totalActiveStakeByIncrement p;
          tsWeigh = PARTICIPATION_FLAG_WEIGHTS ! TIMELY_SOURCE_FLAG_INDEX;
          ttWeigh = PARTICIPATION_FLAG_WEIGHTS ! TIMELY_TARGET_FLAG_INDEX;
          thWeigh = PARTICIPATION_FLAG_WEIGHTS ! TIMELY_HEAD_FLAG_INDEX
      in \<lparr>ri_baseReward = baseReward,
          ri_timelySourceReward = baseReward * tsWeigh * pr_sourceStakeByIncrement p div (activeIncrements * WEIGHT_DENOMINATOR),
          ri_timelySourcePenalty = baseReward * tsWeigh div WEIGHT_DENOMINATOR,
          ri_timelyTargetReward = baseReward * ttWeigh * pr_targetStakeByIncrement p div (activeIncrements * WEIGHT_DENOMINATOR),
          ri_timelyTargetPenalty = baseReward * ttWeigh div WEIGHT_DENOMINATOR,
          ri_timelyHeadReward = baseReward * thWeigh * pr_headStakeByIncrement p div (activeIncrements * WEIGHT_DENOMINATOR)\<rparr>)"

text \<open>Reward and penalty of one validator.\<close>

definition altairDelta :: "epoch_process \<Rightarrow> bool \<Rightarrow> nat \<Rightarrow> attester_status \<Rightarrow> nat \<Rightarrow> nat \<Rightarrow> nat \<times> nat" where
  "altairDelta p inLeak penaltyDenominator status effectiveBalanceIncrement inactivityScore =
     (if \<not> hasMarkers (as_flags status) FLAG_ELIGIBLE_ATTESTER then (0, 0)
      else
        let item = rewardPenaltyItem p effectiveBalanceIncrement;
            timelySource = hasMarkers (as_flags status) FLAG_PREV_SOURCE_ATTESTER_OR_UNSLASHED;
            timelyTarget = hasMarkers (as_flags status) FLAG_PREV_TARGET_ATTESTER_OR_UNSLASHED;
            timelyHead = hasMarkers (as_flags status) FLAG_PREV_HEAD_ATTESTER_OR_UNSLASHED;
            reward = (if timelySource \<and> \<not> inLeak then ri_timelySourceReward item else 0) +
              (if timelyTarget \<and> \<not> inLeak then ri_timelyTargetReward item else 0) +
              (if timelyHead \<and> \<not> inLeak then ri_timelyHeadReward item else 0);
            penalty = (if timelySource then 0 else ri_timelySourcePenalty item) +
              (if timelyTarget then 0 else ri_timelyTargetPenalty item) +
              (if timelyTarget then 0 else
                 effectiveBalanceIncrement * EFFECTIVE_BALANCE_INCREMENT * inactivityScore div penaltyDenominator)
        in (reward, penalty))"

text \<open>There is an increment and a score for every status.\<close>

definition getRewardsAndPenalties :: "state_config \<Rightarrow> epoch_process \<Rightarrow> cached_state \<Rightarrow> (nat \<times> nat) list" where
  "getRewardsAndPenalties config p s =
     (let fork = getForkName (sc_forks config) (ts_slot s);
          inactivityPenalityMultiplier =
            (if fork = Altair then INACTIVITY_PENALTY_QUOTIENT_ALTAIR else INACTIVITY_PENALTY_QUOTIENT_BELLATRIX);
          penaltyDenominator = INACTIVITY_SCORE_BIAS config * inactivityPenalityMultiplier
      in map (\<lambda>i. altairDelta p (isInInactivityLeak s) penaltyDenominator (pr_statuses p ! i)
             (unat (ec_effectiveBalanceIncrements (epochCtx s) ! i)) (ts_inactivityScores s ! i))
           [0..<length (pr_statuses p)])"

text \<open>
  Phase 0, where a reward may go to the proposer that included the attestation. A vote that counts has a
  delay of at least one slot and a proposer among the validators; without a proposer the index is -1, which is
  no entry of the array.
\<close>

record phase0_item =
  pi_baseReward :: nat
  pi_proposerReward :: nat
  pi_maxAttesterReward :: nat
  pi_sourceCheckpointReward :: nat
  pi_targetCheckpointReward :: nat
  pi_headReward :: nat
  pi_basePenalty :: nat
  pi_finalityDelayPenalty :: nat

definition phase0Item :: "epoch_process \<Rightarrow> int \<Rightarrow> nat \<Rightarrow> phase0_item" where
  "phase0Item p finalityDelay effectiveBalanceIncrement =
     (let effectiveBalance = effectiveBalanceIncrement * EFFECTIVE_BALANCE_INCREMENT;
          totalBalance = pr_totalActiveStakeByIncrement p;
          balanceSqRoot = bigIntSqrt (totalBalance * EFFECTIVE_BALANCE_INCREMENT);
          leak = (finalityDelay > int MIN_EPOCHS_TO_INACTIVITY_PENALTY);
          baseReward = effectiveBalance * BASE_REWARD_FACTOR div balanceSqRoot div BASE_REWARDS_PER_EPOCH;
          proposerReward = baseReward div PROPOSER_REWARD_QUOTIENT
      in \<lparr>pi_baseReward = baseReward, pi_proposerReward = proposerReward,
          pi_maxAttesterReward = baseReward - proposerReward,
          pi_sourceCheckpointReward = (if leak then baseReward else baseReward * pr_sourceStakeByIncrement p div totalBalance),
          pi_targetCheckpointReward = (if leak then baseReward else baseReward * pr_targetStakeByIncrement p div totalBalance),
          pi_headReward = (if leak then baseReward else baseReward * pr_headStakeByIncrement p div totalBalance),
          pi_basePenalty = baseReward * BASE_REWARDS_PER_EPOCH - proposerReward,
          pi_finalityDelayPenalty = effectiveBalance * nat finalityDelay div INACTIVITY_PENALTY_QUOTIENT\<rparr>)"

definition addAt :: "int \<Rightarrow> nat \<Rightarrow> nat list \<Rightarrow> nat list" where
  "addAt i x xs = (if 0 \<le> i \<and> nat i < length xs then xs[nat i := xs ! nat i + x] else xs)"

definition phase0Step :: "epoch_process \<Rightarrow> int \<Rightarrow> bytes \<Rightarrow> nat \<Rightarrow> nat list \<times> nat list \<Rightarrow> nat list \<times> nat list" where
  "phase0Step p finalityDelay effectiveBalanceIncrements i rp =
     (let (rewards, penalties) = rp;
          item = phase0Item p finalityDelay (unat (effectiveBalanceIncrements ! i));
          leak = (finalityDelay > int MIN_EPOCHS_TO_INACTIVITY_PENALTY);
          status = pr_statuses p ! i;
          prevSource = hasMarkers (as_flags status) FLAG_PREV_SOURCE_ATTESTER_OR_UNSLASHED;
          prevTarget = hasMarkers (as_flags status) FLAG_PREV_TARGET_ATTESTER_OR_UNSLASHED;
          prevHead = hasMarkers (as_flags status) FLAG_PREV_HEAD_ATTESTER_OR_UNSLASHED;
          rewards1 = (if prevSource
            then addAt (int i) (pi_maxAttesterReward item div as_inclusionDelay status)
                   (addAt (as_proposerIndex status) (pi_proposerReward item) rewards)
            else rewards)
      in if hasMarkers (as_flags status) FLAG_ELIGIBLE_ATTESTER then
           (addAt (int i) ((if prevSource then pi_sourceCheckpointReward item else 0) +
                (if prevTarget then pi_targetCheckpointReward item else 0) +
                (if prevHead then pi_headReward item else 0)) rewards1,
            addAt (int i) ((if prevSource then 0 else pi_baseReward item) +
                (if prevTarget then 0 else pi_baseReward item) + (if prevHead then 0 else pi_baseReward item) +
                (if leak then pi_basePenalty item + (if prevTarget then 0 else pi_finalityDelayPenalty item) else 0)) penalties)
         else (rewards1, penalties))"

definition getAttestationDeltas :: "epoch_process \<Rightarrow> cached_state \<Rightarrow> (nat \<times> nat) list" where
  "getAttestationDeltas p s =
     (let validatorCount = length (pr_statuses p);
          finalityDelay = int (pr_prevEpoch p) - int (rc_epoch (ts_finalizedCheckpoint s));
          (rewards, penalties) = fold (phase0Step p finalityDelay (ec_effectiveBalanceIncrements (epochCtx s)))
            [0..<validatorCount] (replicate validatorCount 0, replicate validatorCount 0)
      in zip rewards penalties)"

text \<open>\<open>BalanceList.updateAll\<close> of all deltas; there is one for every balance.\<close>

definition processRewardsAndPenaltiesAllForks :: "st_lib \<Rightarrow> state_config \<Rightarrow> fork_name \<Rightarrow> epoch_state \<Rightarrow> epoch_state" where
  "processRewardsAndPenaltiesAllForks lib config fork ps =
     (let (p, s) = ps
      in if pr_currentEpoch p = GENESIS_EPOCH then (p, s)
         else
           let rewardsAndPenalties = (if fork = Phase0 then getAttestationDeltas p s else getRewardsAndPenalties config p s);
               deltas = map (\<lambda>(reward, penalty). int reward - int penalty) rewardsAndPenalties;
               balances = map2 (sl_addDelta lib) (ts_balances s) deltas
           in (p\<lparr>pr_balances := Some balances\<rparr>, s\<lparr>ts_balances := balances\<rparr>))"

section \<open>The registry\<close>

definition setEligibility :: "nat \<Rightarrow> cached_state \<Rightarrow> st_error + cached_state" where
  "setEligibility i s =
     bind_res (getValidator i s) (\<lambda>v.
       Inr (setValidator i (v\<lparr>v_activationEligibilityEpoch :=
         enat (es_epoch (ec_currentShuffling (epochCtx s)) + 1)\<rparr>) s))"

text \<open>The loop over the validators to activate, with its early exit.\<close>

fun activateLoop :: "epoch \<Rightarrow> epoch \<Rightarrow> nat list \<Rightarrow> cached_state \<Rightarrow> st_error + cached_state" where
  "activateLoop currentEpoch finalityEpoch [] s = Inr s"
| "activateLoop currentEpoch finalityEpoch (i # is) s =
     bind_res (getValidator i s) (\<lambda>v.
       if v_activationEligibilityEpoch v > enat finalityEpoch then Inr s
       else activateLoop currentEpoch finalityEpoch is
         (setValidator i (v\<lparr>v_activationEpoch := enat (computeActivationExitEpoch currentEpoch)\<rparr>) s))"

definition processRegistryUpdates :: "state_config \<Rightarrow> epoch_state \<Rightarrow> st_error + epoch_state" where
  "processRegistryUpdates config ps =
     (let (p, s) = ps
      in bind_res (fold_res (initiateValidatorExit config) (pr_indicesToEject p) s) (\<lambda>s1.
         bind_res (fold_res setEligibility (pr_indicesEligibleForActivationQueue p) s1) (\<lambda>s2.
         bind_res (activateLoop (pr_currentEpoch p) (rc_epoch (ts_finalizedCheckpoint s2))
             (take (ec_churnLimit (epochCtx s2)) (pr_indicesEligibleForActivation p)) s2) (\<lambda>s3.
         Inr (p, s3)))))"

section \<open>Slashings\<close>

definition proportionalSlashingMultiplier :: "fork_name \<Rightarrow> nat" where
  "proportionalSlashingMultiplier fork =
     (if fork = Phase0 then PROPORTIONAL_SLASHING_MULTIPLIER
      else if fork = Altair then PROPORTIONAL_SLASHING_MULTIPLIER_ALTAIR
      else PROPORTIONAL_SLASHING_MULTIPLIER_BELLATRIX)"

definition slashingPenalty :: "nat \<Rightarrow> nat \<Rightarrow> nat \<Rightarrow> nat" where
  "slashingPenalty adjustedTotalSlashingBalance totalBalance effectiveBalanceIncrement =
     effectiveBalanceIncrement * adjustedTotalSlashingBalance div totalBalance * EFFECTIVE_BALANCE_INCREMENT"

definition processSlashingsAllForks :: "st_lib \<Rightarrow> fork_name \<Rightarrow> epoch_state \<Rightarrow> st_error + epoch_state" where
  "processSlashingsAllForks lib fork ps =
     (let (p, s) = ps
      in if length (pr_indicesToSlash p) = 0 then Inr (p, s)
         else
           let totalBalance = pr_totalActiveStakeByIncrement p * EFFECTIVE_BALANCE_INCREMENT;
               totalSlashings = sum_list (ts_slashings s);
               adjustedTotalSlashingBalance = bigIntMin (totalSlashings * proportionalSlashingMultiplier fork) totalBalance
           in bind_res (fold_res (\<lambda>i s.
                  case nth_opt (ec_effectiveBalanceIncrements (epochCtx s)) i of
                    None \<Rightarrow> Inl Undefined
                  | Some effectiveBalanceIncrement \<Rightarrow> decreaseBalance lib (int i)
                      (slashingPenalty adjustedTotalSlashingBalance totalBalance (unat effectiveBalanceIncrement)) s)
                (pr_indicesToSlash p) s) (\<lambda>s1. Inr (p, s1)))"

section \<open>Final updates\<close>

definition processEth1DataReset :: "epoch_state \<Rightarrow> epoch_state" where
  "processEth1DataReset ps =
     (let (p, s) = ps
      in if (pr_currentEpoch p + 1) mod EPOCHS_PER_ETH1_VOTING_PERIOD = 0 then (p, s\<lparr>ts_eth1DataVotes := []\<rparr>) else (p, s))"

definition DOWNWARD_THRESHOLD :: nat where
  "DOWNWARD_THRESHOLD = EFFECTIVE_BALANCE_INCREMENT div HYSTERESIS_QUOTIENT * HYSTERESIS_DOWNWARD_MULTIPLIER"

definition UPWARD_THRESHOLD :: nat where
  "UPWARD_THRESHOLD = EFFECTIVE_BALANCE_INCREMENT div HYSTERESIS_QUOTIENT * HYSTERESIS_UPWARD_MULTIPLIER"

text \<open>The new effective balance, when it changes.\<close>

definition newEffectiveBalance :: "nat \<Rightarrow> nat \<Rightarrow> nat option" where
  "newEffectiveBalance balance effectiveBalance =
     (if effectiveBalance > balance + DOWNWARD_THRESHOLD \<or>
         effectiveBalance < MAX_EFFECTIVE_BALANCE \<and> int effectiveBalance < int balance - int UPWARD_THRESHOLD
      then Some (min (balance - balance mod EFFECTIVE_BALANCE_INCREMENT) MAX_EFFECTIVE_BALANCE) else None)"

definition updateEffectiveBalance :: "nat \<times> nat \<Rightarrow> epoch_state \<Rightarrow> epoch_state" where
  "updateEffectiveBalance ib ps =
     (let (i, balance) = ib;
          (p, s) = ps;
          increments = ec_effectiveBalanceIncrements (epochCtx s);
          increment = unat (increments ! i);
          (increment', s') =
            (case newEffectiveBalance balance (increment * EFFECTIVE_BALANCE_INCREMENT) of
               None \<Rightarrow> (increment, s)
             | Some effectiveBalance \<Rightarrow>
                 (effectiveBalance div EFFECTIVE_BALANCE_INCREMENT,
                  (setValidator i ((ts_validators s ! i)\<lparr>v_effectiveBalance := effectiveBalance\<rparr>) s)
                    \<lparr>epochCtx := (epochCtx s)\<lparr>ec_effectiveBalanceIncrements :=
                       increments[i := of_nat (effectiveBalance div EFFECTIVE_BALANCE_INCREMENT)]\<rparr>\<rparr>))
      in (if pr_isActiveNextEpoch p ! i
          then p\<lparr>pr_nextEpochTotalActiveBalanceByIncrement := pr_nextEpochTotalActiveBalanceByIncrement p + increment'\<rparr>
          else p, s'))"

text \<open>One balance, one validator and one entry of \<open>isActiveNextEpoch\<close> belong to every index.\<close>

definition processEffectiveBalanceUpdates :: "epoch_state \<Rightarrow> epoch_state" where
  "processEffectiveBalanceUpdates ps =
     (let (p, s) = ps;
          balances = (case pr_balances p of None \<Rightarrow> ts_balances s | Some balances \<Rightarrow> balances)
      in fold updateEffectiveBalance (List.enumerate 0 balances)
           (p\<lparr>pr_balances := Some balances, pr_nextEpochTotalActiveBalanceByIncrement := 0\<rparr>, s))"

definition processSlashingsReset :: "epoch_state \<Rightarrow> epoch_state" where
  "processSlashingsReset ps =
     (let (p, s) = ps
      in (p, s\<lparr>ts_slashings := (ts_slashings s)[(pr_currentEpoch p + 1) mod EPOCHS_PER_SLASHINGS_VECTOR := 0]\<rparr>))"

definition processRandaoMixesReset :: "epoch_state \<Rightarrow> epoch_state" where
  "processRandaoMixesReset ps =
     (let (p, s) = ps
      in (p, s\<lparr>ts_randaoMixes := (ts_randaoMixes s)[(pr_currentEpoch p + 1) mod EPOCHS_PER_HISTORICAL_VECTOR :=
           getRandaoMix s (pr_currentEpoch p)]\<rparr>))"

definition processHistoricalRootsUpdate :: "st_lib \<Rightarrow> epoch_state \<Rightarrow> epoch_state" where
  "processHistoricalRootsUpdate lib ps =
     (let (p, s) = ps
      in if (pr_currentEpoch p + 1) mod intDiv SLOTS_PER_HISTORICAL_ROOT SLOTS_PER_EPOCH = 0
         then (p, s\<lparr>ts_historicalRoots := ts_historicalRoots s @ [sl_historicalBatchRoot lib (ts_blockRoots s) (ts_stateRoots s)]\<rparr>)
         else (p, s))"

definition processParticipationRecordUpdates :: "cached_state \<Rightarrow> cached_state" where
  "processParticipationRecordUpdates s =
     s\<lparr>ts_previousEpochAttestations := ts_currentEpochAttestations s, ts_currentEpochAttestations := []\<rparr>"

definition processParticipationFlagUpdates :: "cached_state \<Rightarrow> cached_state" where
  "processParticipationFlagUpdates s =
     s\<lparr>ts_previousEpochParticipation := ts_currentEpochParticipation s,
       ts_currentEpochParticipation := replicate (length (ts_validators s)) 0\<rparr>"

definition processSyncCommitteeUpdates :: "st_lib \<Rightarrow> nat \<Rightarrow> cached_state \<Rightarrow> st_error + cached_state" where
  "processSyncCommitteeUpdates lib fuel s =
     (if (ec_epoch (epochCtx s) + 1) mod EPOCHS_PER_SYNC_COMMITTEE_PERIOD = 0 then
        case getNextSyncCommitteeIndices (sl_hash lib) fuel s (es_activeIndices (ec_nextShuffling (epochCtx s)))
            (ec_effectiveBalanceIncrements (epochCtx s)) of
          None \<Rightarrow> Inl DoesNotEnd
        | Some r \<Rightarrow> bind_res r (\<lambda>nextSyncCommitteeIndices.
            bind_res (map_res (\<lambda>i. bind_res (getValidator i s) (\<lambda>v. Inr (v_pubkey v))) nextSyncCommitteeIndices)
              (\<lambda>nextSyncCommitteePubkeys.
            case sl_aggregatePublicKeys lib nextSyncCommitteePubkeys of
              None \<Rightarrow> Inl LibraryError
            | Some aggregate \<Rightarrow> Inr
                (s\<lparr>ts_currentSyncCommittee := ts_nextSyncCommittee s,
                   ts_nextSyncCommittee := \<lparr>sc_pubkeys = nextSyncCommitteePubkeys, sc_aggregatePubkey = aggregate\<rparr>,
                   epochCtx := rotateSyncCommitteeIndexed nextSyncCommitteeIndices (epochCtx s)\<rparr>)))
      else Inr s)"

section \<open>The transition of each fork\<close>

definition finalUpdates :: "st_lib \<Rightarrow> epoch_state \<Rightarrow> epoch_state" where
  "finalUpdates lib ps =
     processHistoricalRootsUpdate lib (processRandaoMixesReset (processSlashingsReset
       (processEffectiveBalanceUpdates (processEth1DataReset ps))))"

definition processEpochPhase0 :: "st_lib \<Rightarrow> state_config \<Rightarrow> epoch_state \<Rightarrow> st_error + epoch_state" where
  "processEpochPhase0 lib config ps =
     bind_res (processJustificationAndFinalization ps) (\<lambda>ps1.
     bind_res (processRegistryUpdates config (processRewardsAndPenaltiesAllForks lib config Phase0 ps1)) (\<lambda>ps2.
     bind_res (processSlashingsAllForks lib Phase0 ps2) (\<lambda>ps3.
     let (p, s) = finalUpdates lib ps3
     in Inr (p, processParticipationRecordUpdates s))))"

text \<open>Also the transition of bellatrix.\<close>

definition processEpochAltair :: "st_lib \<Rightarrow> state_config \<Rightarrow> nat \<Rightarrow> epoch_state \<Rightarrow> st_error + epoch_state" where
  "processEpochAltair lib config fuel ps =
     bind_res (processJustificationAndFinalization ps) (\<lambda>ps1.
     bind_res (processInactivityUpdates config ps1) (\<lambda>ps2.
     bind_res (processRegistryUpdates config (processRewardsAndPenaltiesAllForks lib config Altair ps2)) (\<lambda>ps3.
     bind_res (processSlashingsAllForks lib Altair ps3) (\<lambda>ps4.
     let (p, s) = finalUpdates lib ps4
     in bind_res (processSyncCommitteeUpdates lib fuel (processParticipationFlagUpdates s)) (\<lambda>s1. Inr (p, s1))))))"

end
