(* ===== verification/ShuffleSpec.thy ===== *)
theory ShuffleSpec
  imports Shuffle "HOL-Library.Multiset"
begin

unbundle bit_operations_syntax

text \<open>
  The optimised shuffle of a list is the shuffle of its positions one by one, and the two directions
  of it undo each other. The arithmetic of 32 bits is exact for lists of fewer than $2^{30}$ elements
  (the registry limit is $2^{40}$, the registry in use is below $2^{21}$).
\<close>


section \<open>Arithmetic of 32 bits\<close>

lemma toInt32_id: "0 \<le> x \<Longrightarrow> x < 2 ^ 31 \<Longrightarrow> toInt32 x = x"
  by (simp add: toInt32_def signed_take_bit_int_eq_self)

lemma jsShr_nat: "n < 2 ^ 31 \<Longrightarrow> jsShr (int n) k = int (n div 2 ^ k)"
  by (simp add: jsShr_def toInt32_id drop_bit_eq_div zdiv_int)

lemma jsAnd_mask: "n < 2 ^ 31 \<Longrightarrow> jsAnd (int n) (2 ^ k - 1) = int (n mod 2 ^ k)"
  by (simp add: jsAnd_def toInt32_id flip: take_bit_eq_mask mask_eq_exp_minus_1) (simp add: take_bit_eq_mod zmod_int)

lemma jsAnd_nat: "n < 2 ^ 31 \<Longrightarrow> jsAnd (int n) 255 = int (n mod 256)"
  "n < 2 ^ 31 \<Longrightarrow> jsAnd (int n) 7 = int (n mod 8)"
  "n < 2 ^ 31 \<Longrightarrow> jsAnd (int n) 1 = int (n mod 2)"
  using jsAnd_mask [of n 8] jsAnd_mask [of n 3] jsAnd_mask [of n 1] by simp_all

lemma intToBytesLE_4: "intToBytesLE v 4 = map (\<lambda>k. of_nat (v div 2 ^ k)) [0, 8, 16, 24]"
proof -
  have four: "(4 :: nat) = Suc (Suc (Suc (Suc 0)))" by simp
  show ?thesis
    unfolding intToBytesLE_def four intToBytesBE.simps by simp
qed

lemma setPosition:
  assumes "v < 2 ^ 31" "length pre = 33" "length suf = 4"
  shows "setPositionUint32 (int v) (pre @ suf) = pre @ intToBytesLE v 4"
proof -
  have "length suf = Suc (Suc (Suc (Suc 0)))"
    using assms(3) by simp
  then obtain a b c d where suf: "suf = [a, b, c, d]"
    by (auto simp: length_Suc_conv)
  have byte: "word_of_int (jsAnd (jsShr (int v) k) 255) = (of_nat (v div 2 ^ k) :: 8 word)" for k
  proof -
    have "v div 2 ^ k < 2 ^ 31"
      using assms(1) div_le_dividend le_less_trans by blast
    then have "jsAnd (jsShr (int v) k) 255 = int (v div 2 ^ k mod 256)"
      using jsAnd_nat(1) [of "v div 2 ^ k"] by (simp only: jsShr_nat [OF assms(1)])
    then have "word_of_int (jsAnd (jsShr (int v) k) 255) = (of_nat (v div 2 ^ k mod 256) :: 8 word)"
      by simp
    also have "\<dots> = of_nat (v div 2 ^ k)"
      by (simp add: word_unat_eq_iff unat_of_nat)
    finally show ?thesis .
  qed
  show ?thesis
    unfolding setPositionUint32_def byte intToBytesLE_4 suf SHUFFLE_H_PIVOT_VIEW_SIZE_def SHUFFLE_H_SEED_SIZE_def
    using assms(2) by (simp add: list_update_append)
qed

section \<open>Pairs swapped one after the other\<close>

lemma nth_swapPair: "i < length xs \<Longrightarrow> j < length xs \<Longrightarrow>
    swapPair i j xs ! k = (if k = i then xs ! j else if k = j then xs ! i else xs ! k)"
  by (auto simp: swapPair_def nth_list_update)

lemma length_swapPair [simp]: "length (swapPair i j xs) = length xs"
  by (simp add: swapPair_def)

text \<open>Every pair of \<open>k\<close> and \<open>c - k\<close> is swapped if the bit of the larger one is set.\<close>

definition mirrored :: "(nat \<Rightarrow> bool) \<Rightarrow> nat \<Rightarrow> nat \<Rightarrow> nat" where
  "mirrored B c k = (if B (max k (c - k)) then c - k else k)"

definition swapPairs :: "(nat \<Rightarrow> bool) \<Rightarrow> nat \<Rightarrow> nat \<Rightarrow> 'a list \<Rightarrow> 'a list" where
  "swapPairs B c i xs = (if B (c - i) then swapPair i (c - i) xs else xs)"

lemma fold_swapPairs:
  assumes "a \<le> m" "2 * m \<le> Suc c" "c - a < length xs"
  shows "length (fold (swapPairs B c) [a..<m] xs) = length xs \<and>
    (\<forall>k < length xs. fold (swapPairs B c) [a..<m] xs ! k =
      (if a \<le> k \<and> k < m \<or> c < k + m \<and> k + a \<le> c then xs ! mirrored B c k else xs ! k))"
  using assms(1,2)
proof (induction m rule: dec_induct)
  case base
  then show ?case by auto
next
  case (step m)
  let ?ys = "fold (swapPairs B c) [a..<m] xs"
  have IH: "length ?ys = length xs" "k < length xs \<Longrightarrow> ?ys ! k =
      (if a \<le> k \<and> k < m \<or> c < k + m \<and> k + a \<le> c then xs ! mirrored B c k else xs ! k)" for k
    using step by auto
  have in_range: "m < length xs" "c - m < length xs" "m < c - m"
    using step assms(3) by auto
  have fold: "fold (swapPairs B c) [a..<Suc m] xs = swapPairs B c m ?ys"
    using step.hyps(1) by simp
  have untouched: "?ys ! m = xs ! m" "?ys ! (c - m) = xs ! (c - m)"
    using IH(2) [of m] IH(2) [of "c - m"] in_range step.hyps by auto
  show ?case
  proof (intro conjI allI impI)
    show "length (fold (swapPairs B c) [a..<Suc m] xs) = length xs"
      unfolding fold by (simp add: swapPairs_def IH)
    fix k assume k: "k < length xs"
    have new: "swapPairs B c m ?ys ! k =
        (if B (c - m) \<and> k = m then xs ! (c - m) else if B (c - m) \<and> k = c - m then xs ! m else ?ys ! k)"
      using in_range IH(1) untouched by (auto simp: swapPairs_def nth_swapPair)
    have "m \<noteq> c - m" "max m (c - m) = c - m" "max (c - m) (c - (c - m)) = c - m" "c - (c - m) = m"
      using in_range by auto
    then show "fold (swapPairs B c) [a..<Suc m] xs ! k =
      (if a \<le> k \<and> k < Suc m \<or> c < k + Suc m \<and> k + a \<le> c then xs ! mirrored B c k else xs ! k)"
      unfolding fold new using IH(2) [OF k] step.hyps in_range
      by (cases "k = m"; cases "k = c - m") (auto simp: mirrored_def)
  qed
qed


section \<open>The cached hash and byte\<close>

definition shuffleSource :: "hash \<Rightarrow> bytes \<Rightarrow> nat \<Rightarrow> bytes" where
  "shuffleSource hash pre j = hash (pre @ intToBytesLE (j div 256) 4)"

definition shuffleBit :: "hash \<Rightarrow> bytes \<Rightarrow> nat \<Rightarrow> bool" where
  "shuffleBit hash pre j \<longleftrightarrow>
     drop_bit (j mod 8) (unat (byteAt (shuffleSource hash pre j) (int (j mod 256 div 8)))) mod 2 \<noteq> 0"

definition cached :: "hash \<Rightarrow> bytes \<Rightarrow> 'a shuffle_state \<Rightarrow> nat \<Rightarrow> bool" where
  "cached hash pre s j \<longleftrightarrow> length pre = 33 \<and> (\<exists>suf. sh_buf s = pre @ suf \<and> length suf = 4) \<and>
     (j mod 256 \<noteq> 255 \<longrightarrow> sh_source s = shuffleSource hash pre j) \<and>
     (j mod 8 \<noteq> 7 \<longrightarrow> sh_byteV s = byteAt (shuffleSource hash pre j) (int (j mod 256 div 8)))"

lemma hashPosition_eq:
  assumes "v < 2 ^ 31" "sh_buf s = pre @ suf" "length pre = 33" "length suf = 4"
  shows "hashPosition hash (int v) s =
    s\<lparr>sh_buf := pre @ intToBytesLE (v div 256) 4, sh_source := shuffleSource hash pre v\<rparr>"
proof -
  have "v div 256 < 2 ^ 31" using assms(1) by simp
  from setPosition [OF this assms(3,4)] jsShr_nat [OF assms(1), of 8] show ?thesis
    by (simp add: hashPosition_def Let_def shuffleSource_def assms(2))
qed

lemma readByte_eq: "v < 2 ^ 31 \<Longrightarrow>
    readByte (int v) s = s\<lparr>sh_byteV := byteAt (sh_source s) (int (v mod 256 div 8))\<rparr>"
  using jsAnd_nat(1) [of v] jsShr_nat [of "v mod 256" 3] by (simp add: readByte_def)

lemma length_intToBytesLE [simp]: "length (intToBytesLE v k) = k"
  by (simp add: intToBytesLE_def)

text \<open>A hash and a byte read before the loop are those of its first position.\<close>

lemma cached_start:
  assumes "v < 2 ^ 31" "sh_buf s = pre @ suf" "length pre = 33" "length suf = 4"
  shows "cached hash pre (readByte (int v) (hashPosition hash (int v) s)) v"
    "sh_input (readByte (int v) (hashPosition hash (int v) s)) = sh_input s"
  using assms by (simp_all add: hashPosition_eq readByte_eq cached_def)

lemma Suc_div_same: "i mod m \<noteq> m - 1 \<Longrightarrow> Suc i div m = i div m"
  by (cases "m = 0") (auto simp: div_Suc mod_Suc)

lemma mod_256_div_8: "i mod 256 div 8 = i div 8 mod 32" for i :: nat
  using mod_mult2_eq [of i 8 32] by simp

text \<open>They stay those of the position while it goes down.\<close>

lemma cached_pred:
  assumes "length pre = 33" "sh_buf s = pre @ suf" "length suf = 4"
    and "sh_source s = shuffleSource hash pre j"
    and "sh_byteV s = byteAt (shuffleSource hash pre j) (int (j mod 256 div 8))"
  shows "cached hash pre s (j - 1)"
proof (cases j)
  case 0
  with assms show ?thesis by (auto simp: cached_def)
next
  case (Suc i)
  have source: "shuffleSource hash pre i = shuffleSource hash pre j" if "i mod 256 \<noteq> 255"
    using Suc_div_same [of i 256] that Suc by (simp add: shuffleSource_def)
  have byte: "i mod 256 \<noteq> 255 \<and> i mod 256 div 8 = j mod 256 div 8" if "i mod 8 \<noteq> 7"
  proof -
    have "i mod 256 mod 8 = i mod 8" by (simp add: mod_mod_cancel)
    then have "i mod 256 \<noteq> 255" using that by auto
    then show ?thesis
      using Suc_div_same [of i 8] that Suc by (simp add: mod_256_div_8)
  qed
  show ?thesis
    using assms Suc source byte by (auto simp: cached_def)
qed

lemma shuffleStep_eq:
  assumes "cached hash pre s j" "j < 2 ^ 31"
  shows "cached hash pre (shuffleStep hash i j s) (j - 1)"
    "sh_input (shuffleStep hash i j s) =
       (if shuffleBit hash pre j then swapPair i j (sh_input s) else sh_input s)"
proof -
  from assms(1) obtain suf where pre: "length pre = 33" "sh_buf s = pre @ suf" "length suf = 4"
    by (auto simp: cached_def)
  define s1 where "s1 = (if jsAnd (int j) 255 = 255 then hashPosition hash (int j) s else s)"
  define s2 where "s2 = (if jsAnd (int j) 7 = 7 then readByte (int j) s1 else s1)"
  define b where "b = byteAt (shuffleSource hash pre j) (int (j mod 256 div 8))"
  obtain suf1 where s1: "sh_buf s1 = pre @ suf1" "length suf1 = 4" "sh_source s1 = shuffleSource hash pre j"
      "sh_byteV s1 = sh_byteV s" "sh_input s1 = sh_input s"
    using assms pre jsAnd_nat(1) [OF assms(2)]
    by (cases "j mod 256 = 255") (auto simp: s1_def hashPosition_eq cached_def)
  have s2: "sh_buf s2 = pre @ suf1" "sh_source s2 = shuffleSource hash pre j" "sh_byteV s2 = b"
      "sh_input s2 = sh_input s"
    using s1 assms jsAnd_nat(2) [OF assms(2)]
    by (cases "j mod 8 = 7"; auto simp: s2_def readByte_eq cached_def b_def)+
  have "unat b < 2 ^ LENGTH(8)"
    by (rule unsigned_less)
  then have "unat b < 2 ^ 31"
    by simp
  moreover have "unat b div 2 ^ (j mod 8) < 2 ^ 31"
    using calculation div_le_dividend le_less_trans by blast
  ultimately have "jsAnd (jsShr (uint b) (j mod 8)) 1 = int (unat b div 2 ^ (j mod 8) mod 2)"
    using jsShr_nat [of "unat b" "j mod 8"] jsAnd_nat(3) [of "unat b div 2 ^ (j mod 8)"] by simp
  then have bit: "jsAnd (jsShr (uint (sh_byteV s2)) (nat (jsAnd (int j) 7))) 1 = 1 \<longleftrightarrow> shuffleBit hash pre j"
    using s2(3) jsAnd_nat(2) [OF assms(2)] by (auto simp: shuffleBit_def b_def drop_bit_eq_div)
  have step: "shuffleStep hash i j s = (if shuffleBit hash pre j then s2\<lparr>sh_input := swapPair i j (sh_input s2)\<rparr> else s2)"
    unfolding shuffleStep_def Let_def s1_def [symmetric] s2_def [symmetric] bit ..
  have "cached hash pre s2 (j - 1)"
    using cached_pred [OF pre(1) s2(1) s1(2) s2(2)] s2(3) by (simp add: b_def)
  then show "cached hash pre (shuffleStep hash i j s) (j - 1)"
    unfolding step by (simp add: cached_def)
  show "sh_input (shuffleStep hash i j s) =
       (if shuffleBit hash pre j then swapPair i j (sh_input s) else sh_input s)"
    unfolding step using s2(4) by simp
qed

lemma shuffleLoop_eq:
  assumes "a \<le> m" "cached hash pre s (c - a)" "c < 2 ^ 31"
  shows "cached hash pre (fold (\<lambda>i. shuffleStep hash i (c - i)) [a..<m] s) (c - m) \<and>
    sh_input (fold (\<lambda>i. shuffleStep hash i (c - i)) [a..<m] s) =
      fold (swapPairs (shuffleBit hash pre) c) [a..<m] (sh_input s)"
  using assms(1)
proof (induction m rule: dec_induct)
  case base
  with assms(2) show ?case by simp
next
  case (step m)
  from step.IH have "cached hash pre (fold (\<lambda>i. shuffleStep hash i (c - i)) [a..<m] s) (c - m)" ..
  note shuffleStep_eq [OF this, of m]
  moreover have "c - m < 2 ^ 31" using assms(3) by simp
  ultimately show ?case
    using step by (simp add: swapPairs_def)
qed


section \<open>A round\<close>

lemma shuffledIndexRound_eq:
  assumes "r < 256" "0 < n"
  shows "shuffledIndexRound hash seed n r k =
    (let flip = (bytesToIntLE (take 8 (hash (seed @ [of_nat r]))) mod n + n - k) mod n
     in if shuffleBit hash (seed @ [of_nat r]) (max k flip) then flip else k)"
proof -
  have "intToBytesLE r 1 = [of_nat r]"
    by (simp add: intToBytesLE_def)
  then show ?thesis
    by (simp add: shuffledIndexRound_def shuffleBit_def shuffleSource_def Let_def)
qed

lemma shuffleRound_eq:
  assumes r: "r < 256" and n: "length (sh_input s) = n" "0 < n" "n < 2 ^ 30"
    and buf: "sh_buf s = seed @ b # suf" "length seed = 32" "length suf = 4"
  shows "(\<exists>b' suf'. sh_buf (shuffleRound hash n r s) = seed @ b' # suf' \<and> length suf' = 4) \<and>
    sh_input (shuffleRound hash n r s) =
      map (\<lambda>k. sh_input s ! shuffledIndexRound hash seed n r k) [0..<n]"
proof -
  define xs where "xs = sh_input s"
  define pre where "pre = seed @ [of_nat r]"
  define p where "p = bytesToIntLE (take 8 (hash pre)) mod n"
  define s1 where "s1 = s\<lparr>sh_buf := pre @ suf\<rparr>"
  define s2 where "s2 = readByte (int p) (hashPosition hash (int p) s1)"
  define s3 where "s3 = fold (\<lambda>i. shuffleStep hash i (p - i)) [0..<(p + 1) div 2] s2"
  define s4 where "s4 = readByte (int (n - 1)) (hashPosition hash (int (n - 1)) s3)"
  define s5 where "s5 = fold (\<lambda>i. shuffleStep hash i (n + p - i)) [p + 1..<(n + p + 1) div 2] s4"
  define B where "B = shuffleBit hash pre"
  have pre: "length pre = 33"
    by (simp add: pre_def buf)
  have p: "p < n" using n by (simp add: p_def)
  have small: "p + 1 < 2 ^ 31" "p + n + 1 < 2 ^ 31" "p < 2 ^ 31" "n - 1 < 2 ^ 31" "n + p < 2 ^ 31"
    using p n by simp_all
  have s1: "sh_buf s1 = pre @ suf" "sh_input s1 = xs"
    by (simp_all add: s1_def xs_def)
  have loop2: "fold (\<lambda>i. shuffleStep hash i (n - 1 - i + p + 1)) [p + 1..<(p + n + 1) div 2] s4 = s5"
    unfolding s5_def
  proof (rule fold_cong)
    show "[p + 1..<(p + n + 1) div 2] = [p + 1..<(n + p + 1) div 2]"
      by (simp add: add.commute)
    fix i assume "i \<in> set [p + 1..<(p + n + 1) div 2]"
    with p have "n - 1 - i + p + 1 = n + p - i" by auto
    then show "shuffleStep hash i (n - 1 - i + p + 1) = shuffleStep hash i (n + p - i)"
      by (simp only:)
  qed simp
  have mirrors: "nat (jsShr (int p + 1) 1) = (p + 1) div 2" "nat (jsShr (int p + int n + 1) 1) = (p + n + 1) div 2"
    using jsShr_nat [OF small(1), of 1] jsShr_nat [OF small(2), of 1]
    by (simp_all add: ac_simps numeral_2_eq_2)
  have s5: "shuffleRound hash n r s = s5"
    unfolding shuffleRound_def Let_def SHUFFLE_H_PIVOT_VIEW_SIZE_def SHUFFLE_H_SEED_SIZE_def
    using buf pre mirrors loop2
    by (simp add: list_update_append pre_def p_def s1_def s2_def s3_def s4_def)
  have c2: "cached hash pre s2 p" "sh_input s2 = xs"
    using cached_start [OF small(3) s1(1) pre buf(3)] s1(2) by (simp_all add: s2_def)
  have c3: "cached hash pre s3 (p - (p + 1) div 2)" "sh_input s3 = fold (swapPairs B p) [0..<(p + 1) div 2] xs"
    using shuffleLoop_eq [of 0 "(p + 1) div 2" hash pre s2 p] c2 small by (simp_all add: s3_def B_def)
  then obtain suf3 where s3: "sh_buf s3 = pre @ suf3" "length suf3 = 4"
    by (auto simp: cached_def)
  have c4: "cached hash pre s4 (n + p - (p + 1))" "sh_input s4 = sh_input s3"
    using cached_start [OF small(4) s3(1) pre s3(2)] by (simp_all add: s4_def)
  have le: "p + 1 \<le> (n + p + 1) div 2" using p by simp
  have c5: "cached hash pre s5 (n + p - (n + p + 1) div 2)"
      "sh_input s5 = fold (swapPairs B (n + p)) [p + 1..<(n + p + 1) div 2] (sh_input s3)"
    using shuffleLoop_eq [OF le c4(1) small(5)] c4(2) by (simp_all add: s5_def B_def)
  have len: "length xs = n" using n by (simp add: xs_def)
  have swap3: "length (sh_input s3) = n" "\<And>k. k < n \<Longrightarrow> sh_input s3 ! k = (if k < (p + 1) div 2 \<or> p < k + (p + 1) div 2 \<and> k \<le> p then xs ! mirrored B p k else xs ! k)"
    using fold_swapPairs [of 0 "(p + 1) div 2" p xs B] p len by (simp_all add: c3)
  have swap5: "length (sh_input s5) = n" "\<And>k. k < n \<Longrightarrow> sh_input s5 ! k =
      (if p + 1 \<le> k \<and> k < (n + p + 1) div 2 \<or> n + p < k + (n + p + 1) div 2 \<and> k + (p + 1) \<le> n + p
       then sh_input s3 ! mirrored B (n + p) k else sh_input s3 ! k)"
    using fold_swapPairs [of "p + 1" "(n + p + 1) div 2" "n + p" "sh_input s3" B] p swap3(1) le by (simp_all add: c5)
  have "sh_input s5 ! k = xs ! shuffledIndexRound hash seed n r k" if k: "k < n" for k
  proof (cases "k \<le> p")
    case True
    then have flip: "(p + n - k) mod n = p - k"
      using p by (metis Nat.add_diff_assoc2 mod_add_self2 mod_less less_imp_diff_less)
    then have sigma: "shuffledIndexRound hash seed n r k = mirrored B p k"
      using r n by (simp add: shuffledIndexRound_eq pre_def p_def B_def mirrored_def Let_def)
    from True p have "\<not> n + p < k + (n + p + 1) div 2" by linarith
    then have "sh_input s5 ! k = sh_input s3 ! k"
      using True swap5(2) [OF k] by simp
    moreover have "mirrored B p k = k" if "\<not> (k < (p + 1) div 2 \<or> p < k + (p + 1) div 2 \<and> k \<le> p)"
    proof -
      from that True have "p - k = k" by presburger
      then show ?thesis by (simp add: mirrored_def)
    qed
    ultimately show ?thesis
      using sigma swap3(2) [OF k] by auto
  next
    case False
    then have flip: "(p + n - k) mod n = n + p - k"
      using p k by simp
    then have sigma: "shuffledIndexRound hash seed n r k = mirrored B (n + p) k"
      using r n by (simp add: shuffledIndexRound_eq pre_def p_def B_def mirrored_def Let_def)
    have other: "sh_input s3 ! j = xs ! j" if "p < j" "j < n" for j
      using that swap3(2) [of j] by auto
    have "p < mirrored B (n + p) k" "mirrored B (n + p) k < n"
      using False k by (auto simp: mirrored_def)
    note mirror = other [OF this]
    define C where "C \<longleftrightarrow> p + 1 \<le> k \<and> k < (n + p + 1) div 2 \<or>
      n + p < k + (n + p + 1) div 2 \<and> k + (p + 1) \<le> n + p"
    have fixed: "mirrored B (n + p) k = k" if "\<not> C"
    proof -
      have "n + p \<le> 2 * ((n + p + 1) div 2)" by linarith
      moreover from that False k have "(n + p + 1) div 2 \<le> k" "k + (n + p + 1) div 2 \<le> n + p"
        by (auto simp: C_def)
      ultimately have "n + p - k = k" by linarith
      then show ?thesis by (simp add: mirrored_def)
    qed
    have "sh_input s5 ! k = (if C then sh_input s3 ! mirrored B (n + p) k else sh_input s3 ! k)"
      unfolding C_def by (rule swap5(2) [OF k])
    then show ?thesis
      unfolding sigma using mirror fixed by (cases C) simp_all
  qed
  then have "sh_input s5 = map (\<lambda>k. xs ! shuffledIndexRound hash seed n r k) [0..<n]"
    using swap5(1) by (intro nth_equalityI) simp_all
  moreover obtain suf5 where "sh_buf s5 = seed @ of_nat r # suf5" "length suf5 = 4"
    using c5(1) by (auto simp: cached_def pre_def)
  ultimately show ?thesis
    unfolding s5 xs_def by blast
qed


section \<open>The rounds\<close>

lemma shuffledIndexRound_less: "k < n \<Longrightarrow> shuffledIndexRound hash seed n r k < n"
  by (simp add: shuffledIndexRound_def Let_def)

text \<open>A round is its own inverse.\<close>

lemma shuffledIndexRound_twice:
  assumes k: "k < n"
  shows "shuffledIndexRound hash seed n r (shuffledIndexRound hash seed n r k) = k"
proof -
  define p where "p = bytesToIntLE (take 8 (hash (seed @ intToBytesLE r 1))) mod n"
  have p: "p < n" using k by (simp add: p_def)
  have flip: "(p + n - (p + n - k) mod n) mod n = k"
  proof (cases "k \<le> p")
    case True
    with p k have "(p + n - k) mod n = p - k"
      by (metis Nat.add_diff_assoc2 mod_add_self2 mod_less less_imp_diff_less)
    with True k show ?thesis by simp
  next
    case False
    with p k show ?thesis by simp
  qed
  define B where "B j \<longleftrightarrow> drop_bit (j mod 8) (unat (byteAt (hash (seed @ intToBytesLE r 1 @ intToBytesLE (j div 256) 4))
    (int (j mod 256 div 8)))) mod 2 \<noteq> 0" for j
  have round: "shuffledIndexRound hash seed n r j =
      (if B (max j ((p + n - j) mod n)) then (p + n - j) mod n else j)" for j
    unfolding shuffledIndexRound_def Let_def p_def [symmetric] B_def [symmetric] by simp
  show ?thesis
  proof (cases "B (max k ((p + n - k) mod n))")
    case True
    then have "shuffledIndexRound hash seed n r k = (p + n - k) mod n"
      by (simp add: round)
    with True show ?thesis
      by (simp add: round [of "(p + n - k) mod n"] flip max.commute [of _ k])
  qed (simp add: round)
qed

definition shuffledIndex :: "hash \<Rightarrow> bytes \<Rightarrow> nat \<Rightarrow> nat list \<Rightarrow> nat \<Rightarrow> nat" where
  "shuffledIndex hash seed n rs = fold (shuffledIndexRound hash seed n) rs"

lemma shuffledIndex_less: "k < n \<Longrightarrow> shuffledIndex hash seed n rs k < n"
  by (induction rs arbitrary: k) (simp_all add: shuffledIndex_def shuffledIndexRound_less)

lemma shuffledIndex_rev: "k < n \<Longrightarrow> shuffledIndex hash seed n (rev rs) (shuffledIndex hash seed n rs k) = k"
proof (induction rs arbitrary: k)
  case (Cons r rs)
  then show ?case
    using Cons.IH [of "shuffledIndexRound hash seed n r k"]
    by (simp add: shuffledIndex_def shuffledIndexRound_less shuffledIndexRound_twice)
qed (simp add: shuffledIndex_def)

lemma shuffleRounds_eq:
  assumes "length (sh_input s) = n" "0 < n" "n < 2 ^ 30" "length seed = 32"
    and "sh_buf s = seed @ b # suf" "length suf = 4" "\<forall>r \<in> set rs. r < 256"
  shows "sh_input (fold (shuffleRound hash n) rs s) =
    map (\<lambda>k. sh_input s ! shuffledIndex hash seed n (rev rs) k) [0..<n]"
  using assms(1,5-7)
proof (induction rs arbitrary: s b suf)
  case Nil
  then show ?case
    using map_nth [of "sh_input s"] by (simp add: shuffledIndex_def)
next
  case (Cons r rs)
  from Cons.prems(4) have "r < 256" by simp
  from shuffleRound_eq [OF this Cons.prems(1) assms(2,3) Cons.prems(2) assms(4) Cons.prems(3), of hash]
  obtain b' suf' where round: "sh_buf (shuffleRound hash n r s) = seed @ b' # suf'" "length suf' = 4"
    "sh_input (shuffleRound hash n r s) = map (\<lambda>k. sh_input s ! shuffledIndexRound hash seed n r k) [0..<n]"
    by blast
  show ?case
    using Cons.IH [OF _ round(1,2)] Cons.prems(4) round(3)
    by (simp add: shuffledIndex_def shuffledIndex_less [unfolded shuffledIndex_def])
qed

lemma innerShuffleList_eq:
  assumes "length seed = 32" "length xs < 2 ^ 30"
  shows "innerShuffleList hash xs seed dir = Inr (map (\<lambda>k. xs ! shuffledIndex hash seed (length xs)
    (if dir then rev [0..<SHUFFLE_ROUND_COUNT] else [0..<SHUFFLE_ROUND_COUNT]) k) [0..<length xs])"
proof (cases "length xs \<le> 1")
  case True
  have "map (\<lambda>k. xs ! shuffledIndex hash seed (length xs) rs k) [0..<length xs] = xs" for rs
  proof (rule nth_equalityI)
    fix k assume "k < length (map (\<lambda>k. xs ! shuffledIndex hash seed (length xs) rs k) [0..<length xs])"
    then have k: "k < length xs" by simp
    with shuffledIndex_less [OF k, of hash seed rs] True have "shuffledIndex hash seed (length xs) rs k = k"
      by linarith
    with k show "map (\<lambda>k. xs ! shuffledIndex hash seed (length xs) rs k) [0..<length xs] ! k = xs ! k"
      by simp
  qed simp
  with True show ?thesis
    by (simp add: innerShuffleList_def)
next
  case False
  define s where "s = \<lparr>sh_input = xs, sh_buf = setBytes (take SHUFFLE_H_SEED_SIZE seed) 0 (replicate SHUFFLE_H_TOTAL_SIZE 0), sh_source = seed, sh_byteV = 0\<rparr>"
  have buf: "sh_buf s = seed @ 0 # replicate 4 0"
    by (simp add: s_def setBytes_def SHUFFLE_H_SEED_SIZE_def SHUFFLE_H_TOTAL_SIZE_def assms(1) numeral_eq_Suc)
  have input: "sh_input s = xs" by (simp add: s_def)
  have "length xs mod 2 ^ 32 = length xs"
    using assms(2) by simp
  then have "innerShuffleList hash xs seed dir = Inr (sh_input (fold (shuffleRound hash (length xs))
      (if dir then [0..<SHUFFLE_ROUND_COUNT] else rev [0..<SHUFFLE_ROUND_COUNT]) s))"
    using False by (simp add: innerShuffleList_def Let_def s_def SHUFFLE_ROUND_COUNT_def)
  also have "\<dots> = Inr (map (\<lambda>k. xs ! shuffledIndex hash seed (length xs)
    (if dir then rev [0..<SHUFFLE_ROUND_COUNT] else [0..<SHUFFLE_ROUND_COUNT]) k) [0..<length xs])"
    using shuffleRounds_eq [OF _ _ assms(2,1) buf, of
        "if dir then [0..<SHUFFLE_ROUND_COUNT] else rev [0..<SHUFFLE_ROUND_COUNT]" hash] False
    by (cases "xs = []"; cases dir) (simp_all add: input SHUFFLE_ROUND_COUNT_def)
  finally show ?thesis .
qed

lemma computeShuffledIndex_eq:
  "k < n \<Longrightarrow> n \<le> 2 ^ 40 \<Longrightarrow> computeShuffledIndex hash k n seed = Inr (shuffledIndex hash seed n [0..<SHUFFLE_ROUND_COUNT] k)"
  by (simp add: computeShuffledIndex_def shuffledIndex_def)

section \<open>Properties\<close>

text \<open>
  C27. The optimised \<open>unshuffleList\<close>, which swaps pairs in place and hashes once for 256 positions, puts at
  every position the element that \<open>computeShuffledIndex\<close> of the specification names for it.
\<close>

theorem unshuffleList_index:
  assumes "length seed = 32" "length xs < 2 ^ 30"
  shows "\<exists>ys. unshuffleList hash xs seed = Inr ys \<and> length ys = length xs \<and>
    (\<forall>k < length xs. \<exists>j < length xs. computeShuffledIndex hash k (length xs) seed = Inr j \<and> ys ! k = xs ! j)"
  using innerShuffleList_eq [OF assms, of hash False] assms(2)
  by (auto simp: unshuffleList_def computeShuffledIndex_eq shuffledIndex_less)

text \<open>The rounds permute the positions.\<close>

lemma mset_shuffledIndex: "mset (map (\<lambda>k. xs ! shuffledIndex hash seed (length xs) rs k) [0..<length xs]) = mset xs"
proof -
  let ?f = "shuffledIndex hash seed (length xs) rs"
  have "inj_on ?f (set [0..<length xs])"
    by (rule inj_on_inverseI [of _ "shuffledIndex hash seed (length xs) (rev rs)"]) (simp add: shuffledIndex_rev)
  moreover have "?f ` set [0..<length xs] \<subseteq> set [0..<length xs]"
    by (auto simp: shuffledIndex_less)
  ultimately have "?f ` set [0..<length xs] = set [0..<length xs]"
    by (simp add: endo_inj_surj)
  moreover have "distinct (map ?f [0..<length xs])"
    using \<open>inj_on ?f (set [0..<length xs])\<close> by (simp add: distinct_map)
  ultimately have "mset (map ?f [0..<length xs]) = mset [0..<length xs]"
    by (intro set_eq_iff_mset_eq_distinct [THEN iffD1]) (simp_all only: distinct_upt set_map)
  then have "image_mset ((!) xs) (mset (map ?f [0..<length xs])) = image_mset ((!) xs) (mset [0..<length xs])"
    by simp
  then have "mset (map ((!) xs) (map ?f [0..<length xs])) = mset (map ((!) xs) [0..<length xs])"
    by (simp only: mset_map)
  then show ?thesis
    by (simp only: map_nth map_map comp_def)
qed

lemma unshuffle_inverse:
  assumes "length seed = 32" "length xs < 2 ^ 30"
  shows "\<exists>ys. unshuffleList hash xs seed = Inr ys \<and> mset ys = mset xs \<and> shuffleList hash ys seed = Inr xs"
proof -
  let ?rs = "[0..<SHUFFLE_ROUND_COUNT]"
  let ?f = "shuffledIndex hash seed (length xs)"
  let ?ys = "map (\<lambda>k. xs ! ?f ?rs k) [0..<length xs]"
  have "shuffleList hash ?ys seed = Inr (map (\<lambda>k. ?ys ! ?f (rev ?rs) k) [0..<length xs])"
    using innerShuffleList_eq [OF assms(1), of ?ys hash True] assms(2) by (simp add: shuffleList_def)
  also have "map (\<lambda>k. ?ys ! ?f (rev ?rs) k) [0..<length xs] = xs"
  proof (rule nth_equalityI)
    fix k assume "k < length (map (\<lambda>k. ?ys ! ?f (rev ?rs) k) [0..<length xs])"
    then have k: "k < length xs" by simp
    then show "map (\<lambda>k. ?ys ! ?f (rev ?rs) k) [0..<length xs] ! k = xs ! k"
      using shuffledIndex_less [OF k] shuffledIndex_rev [OF k, of hash seed "rev ?rs"] by simp
  qed simp
  finally show ?thesis
    using innerShuffleList_eq [OF assms, of hash False] mset_shuffledIndex by (auto simp: unshuffleList_def)
qed

text \<open>
  \<open>shuffleList\<close> takes back what \<open>unshuffleList\<close> did, and the list in between is a permutation.
\<close>

theorem shuffleList_unshuffleList:
  assumes "length seed = 32" "length xs < 2 ^ 30"
  shows "\<exists>ys. unshuffleList hash xs seed = Inr ys \<and> mset ys = mset xs \<and> shuffleList hash ys seed = Inr xs"
  using assms by (rule unshuffle_inverse)

end
