(* ===== verification/EpochShufflingSpec.thy ===== *)
theory EpochShufflingSpec
  imports EpochShuffling ShuffleSpec
begin

text \<open>
  The committees of an epoch are a partition of its active validators of even sizes; a proposer is an active
  validator; the sampling of a sync committee ends. The hash function is only asked for 32 bytes.
\<close>

section \<open>Parts of a list\<close>

definition committeePart :: "(nat \<Rightarrow> nat) \<Rightarrow> 'a list \<Rightarrow> nat \<Rightarrow> 'a list" where
  "committeePart off xs k = take (off (Suc k) - off k) (drop (off k) xs)"

lemma concat_slices:
  assumes "off 0 = 0" "\<And>k. off k \<le> off (Suc k)"
  shows "concat (map (committeePart off xs) [0..<m]) = take (off m) xs"
proof (induction m)
  case 0
  with assms(1) show ?case by simp
next
  case (Suc m)
  have "take (off m) xs @ take (off (Suc m) - off m) (drop (off m) xs) = take (off (Suc m)) xs"
    using take_add [of "off m" "off (Suc m) - off m" xs] assms(2) [of m] by simp
  with Suc show ?case by (simp add: committeePart_def)
qed

lemma concat_map_upt:
  "concat (map (\<lambda>s. map (\<lambda>c. g (s * w + c)) [0..<w]) [0..<m]) = map g [0..<m * w]"
proof (induction m)
  case (Suc m)
  have "[0..<Suc m * w] = [0..<m * w + w]"
    by (simp add: add.commute)
  also have "\<dots> = [0..<m * w] @ [m * w..<m * w + w]"
    by (rule upt_add_eq_append) simp
  also have "[m * w..<m * w + w] = map (\<lambda>c. m * w + c) [0..<w]"
    using map_add_upt [of "m * w" w] by (simp add: add.commute)
  finally have "[0..<Suc m * w] = [0..<m * w] @ map (\<lambda>c. m * w + c) [0..<w]" .
  with Suc show ?case by (simp add: comp_def)
qed simp

definition committeeOffset :: "nat \<Rightarrow> nat \<Rightarrow> nat \<Rightarrow> nat" where
  "committeeOffset n c k = n * k div c"

lemma committeeOffset_step: "committeeOffset n c k \<le> committeeOffset n c (Suc k)"
  by (simp add: committeeOffset_def div_le_mono)

lemma committeeSlice_eq: "committeeSlice xs c k = Inr (committeePart (committeeOffset (length xs) c) xs k)"
  using committeeOffset_step [of "length xs" c k] by (simp add: committeeSlice_def committeePart_def committeeOffset_def Let_def)

lemma committeeOffset_diff:
  assumes "0 < c"
  shows "n div c \<le> committeeOffset n c (Suc k) - committeeOffset n c k"
    "committeeOffset n c (Suc k) - committeeOffset n c k \<le> (n + c - 1) div c"
proof -
  have "n * k div c + n div c \<le> (n * k + n) div c"
    using div_add1_eq [of "n * k" n c] by linarith
  then show "n div c \<le> committeeOffset n c (Suc k) - committeeOffset n c k"
    by (simp add: committeeOffset_def add.commute)
  have "n \<le> (n + c - 1) div c * c"
  proof -
    have "n + c - 1 < Suc ((n + c - 1) div c) * c"
      using assms dividend_less_div_times [of c "n + c - 1"] by (simp add: add.commute)
    with assms show ?thesis by simp
  qed
  then have "(n * k + n) div c \<le> (n * k + (n + c - 1) div c * c) div c"
    by (intro div_le_mono) simp
  with assms show "committeeOffset n c (Suc k) - committeeOffset n c k \<le> (n + c - 1) div c"
    by (simp add: committeeOffset_def add.commute)
qed

section \<open>The shuffling of an epoch\<close>

lemma computeCommitteeCount_bounds: "1 \<le> computeCommitteeCount n" "computeCommitteeCount n \<le> MAX_COMMITTEES_PER_SLOT"
  by (simp_all add: computeCommitteeCount_def Let_def MAX_COMMITTEES_PER_SLOT_def)

lemma computeEpochShuffling_eq:
  assumes "\<forall>x. length (hash x) = 32" "length active < 2 ^ 30"
  obtains ys where "unshuffleList hash active (getSeed hash state e DOMAIN_BEACON_ATTESTER) = Inr ys"
    "mset ys = mset active" "length ys = length active"
    "computeEpochShuffling hash state active e = Inr
      \<lparr>es_epoch = e, es_activeIndices = active, es_shuffling = ys,
       es_committees = map (\<lambda>slot. map (\<lambda>i. committeePart
          (committeeOffset (length active) (computeCommitteeCount (length active) * SLOTS_PER_EPOCH)) ys
          (slot * computeCommitteeCount (length active) + i)) [0..<computeCommitteeCount (length active)])
         [0..<SLOTS_PER_EPOCH],
       es_committeesPerSlot = computeCommitteeCount (length active)\<rparr>"
proof -
  have seed: "length (getSeed hash state e DOMAIN_BEACON_ATTESTER) = 32"
    using assms(1) by (simp add: getSeed_def Let_def)
  from unshuffle_inverse [OF seed assms(2), of hash] obtain ys where
    ys: "unshuffleList hash active (getSeed hash state e DOMAIN_BEACON_ATTESTER) = Inr ys" "mset ys = mset active"
    by blast
  have len: "length ys = length active"
    using ys(2) by (metis size_mset)
  let ?cps = "computeCommitteeCount (length active)"
  have inner: "map_res (\<lambda>i. committeeSlice ys (?cps * SLOTS_PER_EPOCH) (slot * ?cps + i)) [0..<?cps] =
      Inr (map (\<lambda>i. committeePart (committeeOffset (length active) (?cps * SLOTS_PER_EPOCH)) ys (slot * ?cps + i)) [0..<?cps])"
    for slot
    by (intro map_res_Inr) (simp add: committeeSlice_eq len)
  have outer: "map_res (\<lambda>slot. map_res (\<lambda>i. committeeSlice ys (?cps * SLOTS_PER_EPOCH) (slot * ?cps + i)) [0..<?cps])
      [0..<SLOTS_PER_EPOCH] = Inr (map (\<lambda>slot. map (\<lambda>i. committeePart
        (committeeOffset (length active) (?cps * SLOTS_PER_EPOCH)) ys (slot * ?cps + i)) [0..<?cps]) [0..<SLOTS_PER_EPOCH])"
    by (intro map_res_Inr inner)
  show thesis
    by (rule that [OF ys len]) (simp add: computeEpochShuffling_def Let_def ys(1) outer)
qed

text \<open>
  C28. The shuffling of an epoch assigns every active validator to exactly one committee: read in order, the
  committees are the shuffled active validators, the same number of committees at each of the 32 slots.
\<close>

theorem epochShuffling_partition:
  assumes "\<forall>x. length (hash x) = 32" "length active < 2 ^ 30"
  shows "\<exists>es. computeEpochShuffling hash state active e = Inr es \<and> es_epoch es = e \<and> es_activeIndices es = active \<and>
    concat (concat (es_committees es)) = es_shuffling es \<and> mset (es_shuffling es) = mset active \<and>
    length (es_committees es) = SLOTS_PER_EPOCH \<and>
    (\<forall>slotCommittees \<in> set (es_committees es). length slotCommittees = es_committeesPerSlot es) \<and>
    1 \<le> es_committeesPerSlot es \<and> es_committeesPerSlot es \<le> MAX_COMMITTEES_PER_SLOT"
proof -
  let ?n = "length active" let ?cps = "computeCommitteeCount ?n"
  from computeEpochShuffling_eq [OF assms, of state e] obtain ys where ys: "mset ys = mset active" "length ys = ?n"
    and eq: "computeEpochShuffling hash state active e = Inr
      \<lparr>es_epoch = e, es_activeIndices = active, es_shuffling = ys,
       es_committees = map (\<lambda>slot. map (\<lambda>i. committeePart (committeeOffset ?n (?cps * SLOTS_PER_EPOCH)) ys
          (slot * ?cps + i)) [0..<?cps]) [0..<SLOTS_PER_EPOCH], es_committeesPerSlot = ?cps\<rparr>"
    by metis
  let ?off = "committeeOffset ?n (?cps * SLOTS_PER_EPOCH)"
  have pos: "0 < ?cps * SLOTS_PER_EPOCH"
    using computeCommitteeCount_bounds(1) [of ?n] by (simp add: SLOTS_PER_EPOCH_def)
  have "concat (map (\<lambda>slot. map (\<lambda>i. committeePart ?off ys (slot * ?cps + i)) [0..<?cps]) [0..<SLOTS_PER_EPOCH]) =
      map (committeePart ?off ys) [0..<SLOTS_PER_EPOCH * ?cps]"
    by (rule concat_map_upt)
  moreover have "concat (map (committeePart ?off ys) [0..<SLOTS_PER_EPOCH * ?cps]) = take (?off (SLOTS_PER_EPOCH * ?cps)) ys"
    by (rule concat_slices) (simp_all add: committeeOffset_step committeeOffset_def [of _ _ 0])
  moreover have "?off (SLOTS_PER_EPOCH * ?cps) = ?n"
    using pos by (simp add: committeeOffset_def mult.commute)
  ultimately have "concat (concat (map (\<lambda>slot. map (\<lambda>i. committeePart ?off ys (slot * ?cps + i)) [0..<?cps]) [0..<SLOTS_PER_EPOCH])) = ys"
    using ys(2) by simp
  then show ?thesis
    using eq ys(1) computeCommitteeCount_bounds [of ?n] by auto
qed

text \<open>Sizes.\<close>

lemma committees_many: "SLOTS_PER_EPOCH * TARGET_COMMITTEE_SIZE \<le> n \<Longrightarrow>
    TARGET_COMMITTEE_SIZE \<le> n div (computeCommitteeCount n * SLOTS_PER_EPOCH)"
proof -
  assume n: "SLOTS_PER_EPOCH * TARGET_COMMITTEE_SIZE \<le> n"
  have "computeCommitteeCount n \<le> n div SLOTS_PER_EPOCH div TARGET_COMMITTEE_SIZE"
    using n by (simp add: computeCommitteeCount_def Let_def intDiv_def SLOTS_PER_EPOCH_def TARGET_COMMITTEE_SIZE_def div_mult2_eq [symmetric])
  then have "computeCommitteeCount n * (SLOTS_PER_EPOCH * TARGET_COMMITTEE_SIZE) \<le> n"
    by (simp add: SLOTS_PER_EPOCH_def TARGET_COMMITTEE_SIZE_def div_mult2_eq [symmetric])
  then show ?thesis
    using computeCommitteeCount_bounds(1) [of n]
    by (simp add: less_eq_div_iff_mult_less_eq SLOTS_PER_EPOCH_def TARGET_COMMITTEE_SIZE_def)
qed

lemma committees_few: "n \<le> MAX_COMMITTEES_PER_SLOT * SLOTS_PER_EPOCH * MAX_VALIDATORS_PER_COMMITTEE \<Longrightarrow>
    n \<le> MAX_VALIDATORS_PER_COMMITTEE * (computeCommitteeCount n * SLOTS_PER_EPOCH)"
  by (auto simp: computeCommitteeCount_def Let_def intDiv_def SLOTS_PER_EPOCH_def TARGET_COMMITTEE_SIZE_def
      MAX_COMMITTEES_PER_SLOT_def MAX_VALIDATORS_PER_COMMITTEE_def div_mult2_eq [symmetric] max_def min_def)

text \<open>
  The committees of an epoch differ by at most one validator in size; with enough validators each has at
  least the target size, and none has more than the maximum that a bit list of votes can hold.
\<close>

theorem committee_sizes:
  assumes "\<forall>x. length (hash x) = 32" "length active < 2 ^ 30"
    and "computeEpochShuffling hash state active e = Inr es"
    and "slotCommittees \<in> set (es_committees es)" "committee \<in> set slotCommittees"
  shows "length active div (es_committeesPerSlot es * SLOTS_PER_EPOCH) \<le> length committee \<and>
    length committee \<le> (length active + es_committeesPerSlot es * SLOTS_PER_EPOCH - 1) div (es_committeesPerSlot es * SLOTS_PER_EPOCH) \<and>
    (SLOTS_PER_EPOCH * TARGET_COMMITTEE_SIZE \<le> length active \<longrightarrow> TARGET_COMMITTEE_SIZE \<le> length committee) \<and>
    (length active \<le> MAX_COMMITTEES_PER_SLOT * SLOTS_PER_EPOCH * MAX_VALIDATORS_PER_COMMITTEE \<longrightarrow>
      length committee \<le> MAX_VALIDATORS_PER_COMMITTEE)"
proof -
  let ?n = "length active" let ?cps = "computeCommitteeCount ?n" let ?c = "?cps * SLOTS_PER_EPOCH"
  from computeEpochShuffling_eq [OF assms(1,2), of state e] obtain ys where len: "length ys = ?n"
    and eq: "computeEpochShuffling hash state active e = Inr
      \<lparr>es_epoch = e, es_activeIndices = active, es_shuffling = ys,
       es_committees = map (\<lambda>slot. map (\<lambda>i. committeePart (committeeOffset ?n ?c) ys
          (slot * ?cps + i)) [0..<?cps]) [0..<SLOTS_PER_EPOCH], es_committeesPerSlot = ?cps\<rparr>"
    by metis
  have pos: "0 < ?c"
    using computeCommitteeCount_bounds(1) [of ?n] by (simp add: SLOTS_PER_EPOCH_def)
  from assms(3-5) eq obtain slot i where i: "slot < SLOTS_PER_EPOCH" "i < ?cps"
    "committee = committeePart (committeeOffset ?n ?c) ys (slot * ?cps + i)" and cps: "es_committeesPerSlot es = ?cps"
    by auto
  let ?k = "slot * ?cps + i"
  have "Suc ?k \<le> ?c"
    using i mult_le_mono1 [of "Suc slot" SLOTS_PER_EPOCH ?cps] by (simp add: mult.commute)
  then have "committeeOffset ?n ?c (Suc ?k) \<le> ?n"
    using pos div_le_mono [OF mult_le_mono2 [of "Suc ?k" ?c ?n], of ?c] by (simp add: committeeOffset_def)
  then have size: "length committee = committeeOffset ?n ?c (Suc ?k) - committeeOffset ?n ?c ?k"
    using len i(3) by (simp add: committeePart_def)
  have upper: "length committee \<le> (?n + ?c - 1) div ?c"
    unfolding size by (rule committeeOffset_diff(2) [OF pos])
  have "length committee \<le> MAX_VALIDATORS_PER_COMMITTEE"
    if "?n \<le> MAX_COMMITTEES_PER_SLOT * SLOTS_PER_EPOCH * MAX_VALIDATORS_PER_COMMITTEE"
  proof -
    have "(?n + ?c - 1) div ?c \<le> (MAX_VALIDATORS_PER_COMMITTEE * ?c + (?c - 1)) div ?c"
      using committees_few [OF that] pos by (intro div_le_mono) simp
    also have "\<dots> = MAX_VALIDATORS_PER_COMMITTEE + (?c - 1) div ?c"
      using pos by (intro div_mult_self3) simp
    also have "(?c - 1) div ?c = 0"
      using pos by (intro div_less) simp
    finally show ?thesis using upper by simp
  qed
  then show ?thesis
    using upper committeeOffset_diff(1) [OF pos, of ?n ?k] committees_many [of ?n] unfolding cps size by auto
qed


section \<open>Sampling\<close>

lemma candidateAt_eq:
  assumes "indices \<noteq> []" "length indices \<le> 2 ^ 40"
  shows "candidateAt hash indices seed i = Inr (indices ! shuffledIndex hash seed (length indices)
    [0..<SHUFFLE_ROUND_COUNT] (i mod length indices))"
  using assms by (simp add: candidateAt_def computeShuffledIndex_eq)

lemma candidateAt_mem:
  assumes "indices \<noteq> []" "candidateAt hash indices seed i = Inr v"
  shows "v \<in> set indices"
proof -
  from assms(2) obtain k where k: "computeShuffledIndex hash (i mod length indices) (length indices) seed = Inr k"
      "v = indices ! k"
    by (auto simp: candidateAt_def split: sum.splits)
  then have "k = shuffledIndex hash seed (length indices) [0..<SHUFFLE_ROUND_COUNT] (i mod length indices)"
    by (auto simp: computeShuffledIndex_def shuffledIndex_def split: if_splits)
  with k(2) assms(1) show ?thesis
    by (simp add: shuffledIndex_less)
qed

text \<open>Every index is a candidate of some round.\<close>

lemma candidateAt_onto:
  assumes "v \<in> set indices" "length indices \<le> 2 ^ 40"
  obtains k where "k < length indices"
    "\<And>i. i mod length indices = k \<Longrightarrow> candidateAt hash indices seed i = Inr v"
proof -
  from assms(1) obtain j where j: "j < length indices" "indices ! j = v"
    by (auto simp: in_set_conv_nth)
  define k where "k = shuffledIndex hash seed (length indices) (rev [0..<SHUFFLE_ROUND_COUNT]) j"
  have "shuffledIndex hash seed (length indices) [0..<SHUFFLE_ROUND_COUNT] k = j"
    using shuffledIndex_rev [OF j(1), of hash seed "rev [0..<SHUFFLE_ROUND_COUNT]"] by (simp add: k_def)
  moreover have "k < length indices"
    unfolding k_def by (rule shuffledIndex_less [OF j(1)])
  moreover have "indices \<noteq> []" using j(1) by auto
  ultimately show thesis
    using that [of k] candidateAt_eq [of indices hash seed] assms(2) j(2) by simp
qed

text \<open>A validator of maximal effective balance is accepted whatever the random byte is.\<close>

lemma acceptCandidate_max:
  assumes "v < length increments" "MAX_EFFECTIVE_BALANCE_INCREMENT \<le> unat (increments ! v)" "\<forall>x. length (hash x) = 32"
  shows "acceptCandidate hash increments seed i v"
proof -
  obtain r where r: "randByte hash seed i = Some r"
    using assms(3) by (simp add: randByte_def)
  have "unat r < 2 ^ LENGTH(8)"
    by (rule unsigned_less)
  then have "unat r \<le> MAX_RANDOM_BYTE"
    by (simp add: MAX_RANDOM_BYTE_def)
  then show ?thesis
    using assms(1) mult_le_mono [OF assms(2)] r by (simp add: acceptCandidate_def)
qed

lemma proposerLoop_eq:
  assumes "indices \<noteq> []" "length indices \<le> 2 ^ 40"
  shows "proposerLoop hash increments indices seed i k =
    (case filter (\<lambda>j. acceptCandidate hash increments seed j (projr (candidateAt hash indices seed j))) [i..<i + k] of
       [] \<Rightarrow> Inr (- 1) | j # js \<Rightarrow> Inr (int (projr (candidateAt hash indices seed j))))"
proof (induction k arbitrary: i)
  case (Suc k)
  have "[i..<i + Suc k] = i # [Suc i..<Suc i + k]"
    by (simp add: upt_rec)
  with Suc [of "Suc i"] show ?case
    by (simp add: candidateAt_eq [OF assms])
qed simp

text \<open>
  C40. The choice of a proposer always returns, with one of the given validators or -1; when one of them has
  the maximum effective balance it is not -1, the answer of a loop that gave up.
\<close>

theorem computeProposerIndex_spec:
  assumes "indices \<noteq> []" "length indices \<le> 2 ^ 40" "\<forall>x. length (hash x) = 32"
  shows "\<exists>p. computeProposerIndex hash increments indices seed = Inr p \<and> (p = - 1 \<or> p \<in> int ` set indices) \<and>
    ((\<exists>v \<in> set indices. v < length increments \<and> MAX_EFFECTIVE_BALANCE_INCREMENT \<le> unat (increments ! v)) \<longrightarrow> p \<noteq> - 1)"
proof -
  let ?c = "\<lambda>j. projr (candidateAt hash indices seed j)"
  let ?ok = "\<lambda>j. acceptCandidate hash increments seed j (?c j)"
  have loop: "computeProposerIndex hash increments indices seed =
      (case filter ?ok [0..<length indices] of [] \<Rightarrow> Inr (- 1) | j # js \<Rightarrow> Inr (int (?c j)))"
    using proposerLoop_eq [OF assms(1,2), of hash increments seed 0 "length indices"] assms(1)
    by (simp add: computeProposerIndex_def)
  have mem: "?c j \<in> set indices" for j
    using candidateAt_mem [OF assms(1), of hash seed j] candidateAt_eq [OF assms(1,2), of hash seed j] by simp
  have found: "filter ?ok [0..<length indices] \<noteq> []"
    if v: "v \<in> set indices" "v < length increments" "MAX_EFFECTIVE_BALANCE_INCREMENT \<le> unat (increments ! v)" for v
  proof -
    obtain k where k: "k < length indices" "\<And>i. i mod length indices = k \<Longrightarrow> candidateAt hash indices seed i = Inr v"
      by (rule candidateAt_onto [OF v(1) assms(2), of hash seed]) blast
    then have "?ok k"
      using acceptCandidate_max [OF v(2,3) assms(3)] by simp
    with k(1) show ?thesis
      by (auto simp: filter_empty_conv)
  qed
  show ?thesis
  proof (cases "filter ?ok [0..<length indices]")
    case Nil
    with loop found show ?thesis by (intro exI [of _ "- 1"]) auto
  next
    case (Cons j js)
    with loop mem [of j] show ?thesis by (intro exI [of _ "int (?c j)"]) auto
  qed
qed

section \<open>The sampling of a sync committee ends\<close>

lemma syncCommitteeLoop_more:
  "syncCommitteeLoop hash increments indices seed fuel i acc = Some r \<Longrightarrow> fuel \<le> fuel' \<Longrightarrow>
    syncCommitteeLoop hash increments indices seed fuel' i acc = Some r"
proof (induction fuel arbitrary: fuel' i acc)
  case 0
  then show ?case
    by (cases fuel') (auto split: if_splits)
next
  case (Suc fuel)
  then show ?case
    by (cases fuel') (auto split: if_splits sum.splits)
qed

lemma syncCommitteeLoop_ends:
  assumes "indices \<noteq> []" "length indices \<le> 2 ^ 40"
    and accepts: "\<And>j. j mod length indices = k \<Longrightarrow>
      acceptCandidate hash increments seed j (projr (candidateAt hash indices seed j))"
    and "SYNC_COMMITTEE_SIZE \<le> length acc + card {j. i \<le> j \<and> j < i + fuel \<and> j mod length indices = k}"
    and "length acc \<le> SYNC_COMMITTEE_SIZE" "set acc \<subseteq> set indices"
  shows "\<exists>is. syncCommitteeLoop hash increments indices seed fuel i acc = Some (Inr is) \<and>
    length is = SYNC_COMMITTEE_SIZE \<and> set is \<subseteq> set indices"
  using assms(4-6)
proof (induction fuel arbitrary: i acc)
  case 0
  have none: "{j. i \<le> j \<and> j < i + 0 \<and> j mod length indices = k} = {}" by auto
  from 0 show ?case unfolding none by simp
next
  case (Suc fuel)
  let ?J = "\<lambda>i fuel. {j. i \<le> j \<and> j < i + fuel \<and> j mod length indices = k}"
  define c where "c = projr (candidateAt hash indices seed i)"
  have c: "candidateAt hash indices seed i = Inr c"
    by (simp add: c_def candidateAt_eq [OF assms(1,2)])
  have "c \<in> set indices"
    by (rule candidateAt_mem [OF assms(1) c])
  show ?case
  proof (cases "length acc < SYNC_COMMITTEE_SIZE")
    case True
    define acc' where "acc' = (if acceptCandidate hash increments seed i c then acc @ [c] else acc)"
    have "?J i (Suc fuel) \<subseteq> (if i mod length indices = k then {i} else {}) \<union> ?J (i + 1) fuel"
      by (auto simp: Suc_le_eq) (metis le_neq_implies_less)
    then have "card (?J i (Suc fuel)) \<le> card ((if i mod length indices = k then {i} else {}) \<union> ?J (i + 1) fuel)"
      by (intro card_mono) auto
    also have "\<dots> \<le> card (if i mod length indices = k then {i} else {}) + card (?J (i + 1) fuel)"
      by (rule card_Un_le)
    finally have "SYNC_COMMITTEE_SIZE \<le> length acc' + card (?J (i + 1) fuel)"
      using Suc.prems(1) accepts [of i] by (auto simp: acc'_def c_def split: if_splits)
    moreover have "length acc' \<le> SYNC_COMMITTEE_SIZE" "set acc' \<subseteq> set indices"
      using True Suc.prems(3) \<open>c \<in> set indices\<close> by (auto simp: acc'_def)
    ultimately obtain "is" where "syncCommitteeLoop hash increments indices seed fuel (i + 1) acc' = Some (Inr is)"
        "length is = SYNC_COMMITTEE_SIZE" "set is \<subseteq> set indices"
      using Suc.IH [of acc' "i + 1"] by blast
    then show ?thesis
      using True c by (simp add: acc'_def)
  next
    case False
    with Suc.prems show ?thesis by simp
  qed
qed

text \<open>
  C32. The sampling of a sync committee ends when some active validator has the maximum effective balance, after
  at most 512 rounds over the active validators, with 512 of them.
\<close>

theorem syncCommittee_terminates:
  assumes "v \<in> set active" "length active \<le> 2 ^ 40" "\<forall>x. length (hash x) = 32"
    and "v < length increments" "MAX_EFFECTIVE_BALANCE_INCREMENT \<le> unat (increments ! v)"
  shows "\<exists>is. length is = SYNC_COMMITTEE_SIZE \<and> set is \<subseteq> set active \<and>
    (\<forall>fuel \<ge> SYNC_COMMITTEE_SIZE * length active.
      getNextSyncCommitteeIndices hash fuel state active increments = Some (Inr is))"
proof -
  let ?n = "length active"
  define seed where "seed = getSeed hash state (computeEpochAtSlot (ts_slot state) + 1) DOMAIN_SYNC_COMMITTEE"
  have ne: "active \<noteq> []" using assms(1) by auto
  obtain k where k: "k < ?n" "\<And>i. i mod ?n = k \<Longrightarrow> candidateAt hash active seed i = Inr v"
    by (rule candidateAt_onto [OF assms(1,2), of hash seed]) blast
  let ?J = "{j. 0 \<le> j \<and> j < 0 + SYNC_COMMITTEE_SIZE * ?n \<and> j mod ?n = k}"
  have "(\<lambda>t. t * ?n + k) ` {..<SYNC_COMMITTEE_SIZE} \<subseteq> ?J"
  proof (rule image_subsetI)
    fix t assume "t \<in> {..<SYNC_COMMITTEE_SIZE}"
    then have "Suc t * ?n \<le> SYNC_COMMITTEE_SIZE * ?n"
      by (intro mult_le_mono1) simp
    with k(1) show "t * ?n + k \<in> ?J" by simp
  qed
  then have "card ((\<lambda>t. t * ?n + k) ` {..<SYNC_COMMITTEE_SIZE}) \<le> card ?J"
    by (intro card_mono) auto
  moreover have "inj_on (\<lambda>t. t * ?n + k) {..<SYNC_COMMITTEE_SIZE}"
    using k(1) by (auto simp: inj_on_def)
  ultimately have "SYNC_COMMITTEE_SIZE \<le> length ([] :: nat list) + card ?J"
    by (simp add: card_image)
  from syncCommitteeLoop_ends [OF ne assms(2) _ this, of hash increments seed]
  obtain "is" where "is": "syncCommitteeLoop hash increments active seed (SYNC_COMMITTEE_SIZE * ?n) 0 [] = Some (Inr is)"
      "length is = SYNC_COMMITTEE_SIZE" "set is \<subseteq> set active"
    using k(2) acceptCandidate_max [OF assms(4,5,3)] by auto
  have "syncCommitteeLoop hash increments active seed fuel 0 [] = Some (Inr is)" if "SYNC_COMMITTEE_SIZE * ?n \<le> fuel" for fuel
    by (rule syncCommitteeLoop_more [OF "is"(1) that])
  with "is"(2,3) show ?thesis
    by (auto simp: getNextSyncCommitteeIndices_def Let_def seed_def)
qed

end
