(* ===== verification/RegistrySpec.thy ===== *)
theory RegistrySpec
  imports ValidatorRegistry EpochShufflingSpec
begin

text \<open>
  The queue of exits. The specification recomputes it for every exit: the last exit epoch handed out,
  and how many validators have it. The context keeps both as counters. The lemmas relate the two: what the
  creation of a context establishes, what an exit and the end of an epoch keep, and where they part.
\<close>

section \<open>The queue of the specification\<close>

definition exitEpochs :: "validator list \<Rightarrow> nat list" where
  "exitEpochs vs = map the_enat (filter (\<lambda>e. e \<noteq> FAR_FUTURE_EPOCH) (map v_exitEpoch vs))"

definition specQueueEpoch :: "epoch \<Rightarrow> validator list \<Rightarrow> epoch" where
  "specQueueEpoch currentEpoch vs = fold max (exitEpochs vs) (computeActivationExitEpoch currentEpoch)"

definition specQueueChurn :: "epoch \<Rightarrow> validator list \<Rightarrow> nat" where
  "specQueueChurn currentEpoch vs = count_list (exitEpochs vs) (specQueueEpoch currentEpoch vs)"

text \<open>The exit epoch that \<open>initiate_validator_exit\<close> gives to the next validator.\<close>

definition specExitEpoch :: "epoch \<Rightarrow> nat \<Rightarrow> validator list \<Rightarrow> epoch" where
  "specExitEpoch currentEpoch churnLimit vs =
     (if specQueueChurn currentEpoch vs \<ge> churnLimit then specQueueEpoch currentEpoch vs + 1
      else specQueueEpoch currentEpoch vs)"

text \<open>The counters are those of the specification, or stand at the beginning of the epoch after a full one.\<close>

definition queueExact :: "epoch \<Rightarrow> epoch_ctx \<Rightarrow> validator list \<Rightarrow> bool" where
  "queueExact currentEpoch c vs \<longleftrightarrow>
     ec_exitQueueEpoch c = specQueueEpoch currentEpoch vs \<and> ec_exitQueueChurn c = specQueueChurn currentEpoch vs"

definition queueSkipped :: "epoch \<Rightarrow> epoch_ctx \<Rightarrow> validator list \<Rightarrow> bool" where
  "queueSkipped currentEpoch c vs \<longleftrightarrow>
     ec_exitQueueEpoch c = specQueueEpoch currentEpoch vs + 1 \<and> ec_exitQueueChurn c = 0 \<and>
     specQueueChurn currentEpoch vs \<ge> ec_churnLimit c"

definition queueOk :: "epoch \<Rightarrow> epoch_ctx \<Rightarrow> validator list \<Rightarrow> bool" where
  "queueOk currentEpoch c vs \<longleftrightarrow> queueExact currentEpoch c vs \<or> queueSkipped currentEpoch c vs"

lemma fold_max_ge: "a \<le> fold max es a \<and> (\<forall>e \<in> set es. e \<le> fold max es a)" for a :: nat
proof (induction es arbitrary: a)
  case (Cons e es)
  from Cons.IH [of "max e a"] show ?case by auto
qed simp

lemma specQueueEpoch_ge: "computeActivationExitEpoch cur \<le> specQueueEpoch cur vs"
  "e \<in> set (exitEpochs vs) \<Longrightarrow> e \<le> specQueueEpoch cur vs"
  using fold_max_ge [of "computeActivationExitEpoch cur" "exitEpochs vs"] by (auto simp: specQueueEpoch_def)

lemma fold_max_eq: "fold max es (a :: nat) = Max (insert a (set es))"
  using Max.set_eq_fold [of a es] by simp

lemma fold_max_mset: "mset es = mset es' \<Longrightarrow> fold max es (a :: nat) = fold max es' a"
  by (drule mset_eq_setD) (simp only: fold_max_eq)

lemma fold_max_start: "fold max es (max e a) = max e (fold max es (a :: nat))"
proof (induction es arbitrary: a)
  case (Cons x es)
  from Cons.IH [of "max x a"] show ?case
    by (simp only: fold_simps max.left_commute [of e x])
qed simp

lemma count_list_mset: "count_list es e = count (mset es) e"
  by (induction es) auto

text \<open>One more exit.\<close>

lemma exitEpochs_update:
  assumes "i < length vs" "v_exitEpoch (vs ! i) = FAR_FUTURE_EPOCH" "v_exitEpoch v = enat e"
  shows "mset (exitEpochs (vs[i := v])) = add_mset e (mset (exitEpochs vs))"
proof -
  have "vs = take i vs @ vs ! i # drop (Suc i) vs"
    using assms(1) by (simp add: id_take_nth_drop)
  moreover have "vs[i := v] = take i vs @ v # drop (Suc i) vs"
    using assms(1) by (simp add: upd_conv_take_nth_drop)
  moreover have "exitEpochs (take i vs @ w # drop (Suc i) vs) =
      exitEpochs (take i vs) @ exitEpochs [w] @ exitEpochs (drop (Suc i) vs)" for w
    by (simp add: exitEpochs_def)
  ultimately have "mset (exitEpochs vs) = mset (exitEpochs (take i vs)) + mset (exitEpochs [vs ! i]) + mset (exitEpochs (drop (Suc i) vs))"
    "mset (exitEpochs (vs[i := v])) = mset (exitEpochs (take i vs)) + mset (exitEpochs [v]) + mset (exitEpochs (drop (Suc i) vs))"
    by (metis mset_append add.assoc)+
  with assms(2,3) show ?thesis
    by (simp add: exitEpochs_def FAR_FUTURE_EPOCH_def)
qed

lemma specQueue_update:
  assumes "i < length vs" "v_exitEpoch (vs ! i) = FAR_FUTURE_EPOCH" "v_exitEpoch v = enat e"
    and "specQueueEpoch cur vs \<le> e"
  shows "specQueueEpoch cur (vs[i := v]) = e" "specQueueChurn cur (vs[i := v]) = Suc (count_list (exitEpochs vs) e)"
proof -
  have es: "mset (exitEpochs (vs[i := v])) = mset (e # exitEpochs vs)"
    using exitEpochs_update [OF assms(1-3)] by simp
  have "fold max (e # exitEpochs vs) (computeActivationExitEpoch cur) = max e (specQueueEpoch cur vs)"
    by (simp add: specQueueEpoch_def fold_max_start)
  then show "specQueueEpoch cur (vs[i := v]) = e"
    using assms(4) fold_max_mset [OF es] by (simp add: specQueueEpoch_def [of _ "vs[i := v]"])
  then show "specQueueChurn cur (vs[i := v]) = Suc (count_list (exitEpochs vs) e)"
    using es by (simp add: specQueueChurn_def count_list_mset)
qed

lemma count_beyond: "count_list (exitEpochs vs) (Suc (specQueueEpoch cur vs)) = 0"
  using specQueueEpoch_ge(2) [of "Suc (specQueueEpoch cur vs)" vs cur] by (auto simp: count_list_0_iff)

lemma nextInQueue_churnLimit [simp]: "ec_churnLimit (nextInQueue c) = ec_churnLimit c"
  by (simp add: nextInQueue_def)

lemma nextInQueue_spec:
  assumes "queueOk cur c vs" "0 < ec_churnLimit c"
  shows "ec_exitQueueEpoch (nextInQueue c) = specExitEpoch cur (ec_churnLimit c) vs \<and>
    ec_exitQueueChurn (nextInQueue c) = Suc (count_list (exitEpochs vs) (specExitEpoch cur (ec_churnLimit c) vs)) \<and>
    ec_exitQueueChurn (nextInQueue c) \<le> ec_churnLimit c"
  using assms count_beyond [of vs cur]
  by (auto simp: queueOk_def queueExact_def queueSkipped_def nextInQueue_def specExitEpoch_def specQueueChurn_def)

lemma exit_step:
  assumes "queueOk cur (epochCtx s) (ts_validators s)" "0 < ec_churnLimit (epochCtx s)"
    and "i < length (ts_validators s)" "v_exitEpoch (ts_validators s ! i) = FAR_FUTURE_EPOCH"
  shows "\<exists>t. initiateValidatorExit config i s = Inr t \<and>
    (let e = specExitEpoch cur (ec_churnLimit (epochCtx s)) (ts_validators s) in
      ts_validators t = (ts_validators s)[i := (ts_validators s ! i)\<lparr>v_exitEpoch := enat e,
        v_withdrawableEpoch := enat (e + MIN_VALIDATOR_WITHDRAWABILITY_DELAY config)\<rparr>] \<and>
      count_list (exitEpochs (ts_validators t)) e \<le> ec_churnLimit (epochCtx s) \<and>
      queueOk cur (epochCtx t) (ts_validators t))"
proof -
  let ?vs = "ts_validators s" let ?c = "nextInQueue (epochCtx s)"
  let ?e = "specExitEpoch cur (ec_churnLimit (epochCtx s)) ?vs"
  let ?v = "(?vs ! i)\<lparr>v_exitEpoch := enat ?e, v_withdrawableEpoch := enat (?e + MIN_VALIDATOR_WITHDRAWABILITY_DELAY config)\<rparr>"
  let ?t = "setValidator i ?v (s\<lparr>epochCtx := ?c\<rparr>)"
  note next_spec = nextInQueue_spec [OF assms(1,2)]
  have t: "initiateValidatorExit config i s = Inr ?t"
    using assms(3,4) next_spec by (simp add: initiateValidatorExit_def getValidator_def Let_def)
  have "specQueueEpoch cur ?vs \<le> ?e"
    by (simp add: specExitEpoch_def)
  from specQueue_update [OF assms(3,4) _ this, of ?v]
  have new: "specQueueEpoch cur (?vs[i := ?v]) = ?e" "specQueueChurn cur (?vs[i := ?v]) = Suc (count_list (exitEpochs ?vs) ?e)"
    by simp_all
  have "queueExact cur ?c (?vs[i := ?v])"
    using next_spec new by (simp add: queueExact_def)
  moreover have "count_list (exitEpochs (?vs[i := ?v])) ?e \<le> ec_churnLimit (epochCtx s)"
    using next_spec new by (simp add: specQueueChurn_def)
  ultimately show ?thesis
    using t by (auto simp: setValidator_def queueOk_def Let_def)
qed

text \<open>
  C30. When the counters of the context stand for the exit queue, \<open>initiateValidatorExit\<close> gives the exit
  epoch that the specification computes from all validators, keeps the epoch's exits within the churn limit,
  and leaves counters that stand for the new queue.
\<close>

theorem exit_refines:
  assumes "queueOk cur (epochCtx s) (ts_validators s)" "0 < ec_churnLimit (epochCtx s)"
    and "i < length (ts_validators s)" "v_exitEpoch (ts_validators s ! i) = FAR_FUTURE_EPOCH"
  shows "\<exists>t. initiateValidatorExit config i s = Inr t \<and>
    (let e = specExitEpoch cur (ec_churnLimit (epochCtx s)) (ts_validators s) in
      ts_validators t = (ts_validators s)[i := (ts_validators s ! i)\<lparr>v_exitEpoch := enat e,
        v_withdrawableEpoch := enat (e + MIN_VALIDATOR_WITHDRAWABILITY_DELAY config)\<rparr>] \<and>
      count_list (exitEpochs (ts_validators t)) e \<le> ec_churnLimit (epochCtx s) \<and>
      queueOk cur (epochCtx t) (ts_validators t))"
  using assms by (rule exit_step)

section \<open>The queue of a new context\<close>

lemma queueExit_fold:
  "fold queueExit xs (a, n) = (fold max (map the_enat (filter (\<lambda>e. e \<noteq> FAR_FUTURE_EPOCH) xs)) a,
     (let es = map the_enat (filter (\<lambda>e. e \<noteq> FAR_FUTURE_EPOCH) xs) in
       (if fold max es a = a then n else 0) + count_list es (fold max es a)))"
proof (induction xs arbitrary: a n)
  case (Cons x xs)
  let ?es = "map the_enat (filter (\<lambda>e. e \<noteq> FAR_FUTURE_EPOCH) xs)"
  show ?case
  proof (cases x)
    case (enat e)
    have x: "queueExit x (a, n) = (if a < e then (e, 1) else if e = a then (a, n + 1) else (a, n))"
      by (simp add: queueExit_def enat)
    have es: "map the_enat (filter (\<lambda>e. e \<noteq> FAR_FUTURE_EPOCH) (x # xs)) = e # ?es"
      by (simp add: enat FAR_FUTURE_EPOCH_def)
    have ge: "max e a \<le> fold max ?es (max e a)"
      using fold_max_ge [of "max e a" ?es] by simp
    consider "a < e" | "e = a" | "e < a" by linarith
    then show ?thesis
    proof cases
      case 1
      with ge show ?thesis
        unfolding es by (simp add: x Cons.IH Let_def max_absorb1)
    next
      case 2
      with ge show ?thesis
        unfolding es by (simp add: x Cons.IH Let_def)
    next
      case 3
      with ge show ?thesis
        unfolding es by (auto simp: x Cons.IH Let_def max_absorb2)
    qed
  next
    case infinity
    have x: "queueExit x (a, n) = (a, n)"
      by (simp add: queueExit_def infinity)
    have es: "map the_enat (filter (\<lambda>e. e \<noteq> FAR_FUTURE_EPOCH) (x # xs)) = ?es"
      by (simp add: infinity FAR_FUTURE_EPOCH_def)
    show ?thesis
      unfolding es by (simp add: x Cons.IH)
  qed
qed (simp add: Let_def)

lemma scan_queue:
  "(rs_exitQueueEpoch (fold (scanValidator p c f) ivs s), rs_exitQueueChurn (fold (scanValidator p c f) ivs s)) =
    fold queueExit (map (\<lambda>iv. v_exitEpoch (snd iv)) ivs) (rs_exitQueueEpoch s, rs_exitQueueChurn s)"
proof (induction ivs arbitrary: s)
  case (Cons iv ivs)
  have "(rs_exitQueueEpoch (scanValidator p c f iv s), rs_exitQueueChurn (scanValidator p c f iv s)) =
      queueExit (v_exitEpoch (snd iv)) (rs_exitQueueEpoch s, rs_exitQueueChurn s)"
    by (simp add: scanValidator_def Let_def split: prod.splits)
  with Cons [of "scanValidator p c f iv s"] show ?case by simp
qed simp

lemma scanRegistry_queue:
  "rs_exitQueueEpoch (scanRegistry p c f vs) = specQueueEpoch c vs"
  "rs_exitQueueChurn (scanRegistry p c f vs) = specQueueChurn c vs"
proof -
  have "map (\<lambda>iv. v_exitEpoch (snd iv)) (List.enumerate 0 vs) = map v_exitEpoch vs"
    by (metis (no_types, lifting) comp_def map_eq_conv map_map map_snd_enumerate)
  then have "(rs_exitQueueEpoch (scanRegistry p c f vs), rs_exitQueueChurn (scanRegistry p c f vs)) =
      (specQueueEpoch c vs, specQueueChurn c vs)"
    unfolding scanRegistry_def scan_queue
    by (simp add: queueExit_fold specQueueChurn_def specQueueEpoch_def exitEpochs_def Let_def)
  then show "rs_exitQueueEpoch (scanRegistry p c f vs) = specQueueEpoch c vs"
    "rs_exitQueueChurn (scanRegistry p c f vs) = specQueueChurn c vs"
    by simp_all
qed


section \<open>A new context\<close>

lemma scan_active:
  "rs_previousActive (fold (scanValidator p c f) (List.enumerate n vs) s) = rs_previousActive s @ activeFrom n vs p"
  "rs_currentActive (fold (scanValidator p c f) (List.enumerate n vs) s) = rs_currentActive s @ activeFrom n vs c"
  "rs_nextActive (fold (scanValidator p c f) (List.enumerate n vs) s) = rs_nextActive s @ activeFrom n vs f"
  by (induction vs arbitrary: n s) (simp_all add: scanValidator_def Let_def split: prod.splits)

definition incrementOf :: "validator \<Rightarrow> 8 word" where
  "incrementOf v = of_nat (v_effectiveBalance v div EFFECTIVE_BALANCE_INCREMENT)"

lemma scan_total:
  "rs_total (fold (scanValidator p c f) (List.enumerate n vs) s) =
    rs_total s + sum_list (map (\<lambda>v. unat (incrementOf v)) (filter (\<lambda>v. isActiveValidator v c) vs))"
  by (induction vs arbitrary: n s) (simp_all add: scanValidator_def Let_def incrementOf_def split: prod.splits)

lemma scan_increments:
  "n + length vs \<le> length (rs_effectiveBalanceIncrements s) \<Longrightarrow>
    length (rs_effectiveBalanceIncrements (fold (scanValidator p c f) (List.enumerate n vs) s)) =
      length (rs_effectiveBalanceIncrements s) \<and>
    (\<forall>k < length (rs_effectiveBalanceIncrements s).
      rs_effectiveBalanceIncrements (fold (scanValidator p c f) (List.enumerate n vs) s) ! k =
        (if n \<le> k \<and> k < n + length vs then incrementOf (vs ! (k - n)) else rs_effectiveBalanceIncrements s ! k))"
proof (induction vs arbitrary: n s)
  case (Cons v vs)
  let ?s = "scanValidator p c f (n, v) s"
  have s: "rs_effectiveBalanceIncrements ?s = (rs_effectiveBalanceIncrements s)[n := incrementOf v]"
    by (simp add: scanValidator_def Let_def incrementOf_def split: prod.splits)
  with Cons.IH [of "Suc n" ?s] Cons.prems show ?case
    by (auto simp: nth_list_update nth_Cons')
qed auto

lemma length_incrementsWithLen: "n \<le> length (getEffectiveBalanceIncrementsWithLen n)"
proof -
  have "n \<le> 1024 * ((n + 1023) div 1024)"
    using div_mult_mod_eq [of "n + 1023" 1024] mod_less_divisor [of 1024 "n + 1023"] by linarith
  then show ?thesis
    by (simp add: getEffectiveBalanceIncrementsWithLen_def)
qed

lemma scanRegistry_spec:
  "rs_previousActive (scanRegistry p c f vs) = activeFrom 0 vs p"
  "rs_currentActive (scanRegistry p c f vs) = activeFrom 0 vs c"
  "rs_nextActive (scanRegistry p c f vs) = activeFrom 0 vs f"
  "rs_total (scanRegistry p c f vs) = sum_list (map (\<lambda>v. unat (incrementOf v)) (filter (\<lambda>v. isActiveValidator v c) vs))"
  "length vs \<le> length (rs_effectiveBalanceIncrements (scanRegistry p c f vs))"
  "i < length vs \<Longrightarrow> rs_effectiveBalanceIncrements (scanRegistry p c f vs) ! i = incrementOf (vs ! i)"
proof -
  let ?s = "\<lparr>rs_effectiveBalanceIncrements = getEffectiveBalanceIncrementsWithLen (length vs), rs_previousActive = [],
        rs_currentActive = [], rs_nextActive = [], rs_total = 0,
        rs_exitQueueEpoch = computeActivationExitEpoch c, rs_exitQueueChurn = 0\<rparr>"
  have "0 + length vs \<le> length (rs_effectiveBalanceIncrements ?s)"
    using length_incrementsWithLen [of "length vs"] by simp
  note incs = scan_increments [OF this, of p c f]
  show "rs_previousActive (scanRegistry p c f vs) = activeFrom 0 vs p"
    "rs_currentActive (scanRegistry p c f vs) = activeFrom 0 vs c"
    "rs_nextActive (scanRegistry p c f vs) = activeFrom 0 vs f"
    "rs_total (scanRegistry p c f vs) = sum_list (map (\<lambda>v. unat (incrementOf v)) (filter (\<lambda>v. isActiveValidator v c) vs))"
    by (simp_all add: scanRegistry_def scan_active scan_total)
  show "length vs \<le> length (rs_effectiveBalanceIncrements (scanRegistry p c f vs))"
    using incs length_incrementsWithLen [of "length vs"] by (simp add: scanRegistry_def)
  show "i < length vs \<Longrightarrow> rs_effectiveBalanceIncrements (scanRegistry p c f vs) ! i = incrementOf (vs ! i)"
    using incs length_incrementsWithLen [of "length vs"] by (simp add: scanRegistry_def)
qed

lemma computeEpochShuffling_inputs: "computeEpochShuffling hash state active e = Inr es \<Longrightarrow>
    es_epoch es = e \<and> es_activeIndices es = active"
  by (auto simp: computeEpochShuffling_def Let_def bind_res_Inr_iff split: sum.splits)

lemma bind_res_InrE: "bind_res x f = Inr c \<Longrightarrow> (\<And>a. x = Inr a \<Longrightarrow> f a = Inr c \<Longrightarrow> P) \<Longrightarrow> P"
  by (auto simp: bind_res_Inr_iff)

text \<open>The parts of a created context, before they are read as those of the specification.\<close>

lemma createFromState_parts:
  assumes "createFromState hash config state opts = Inr c"
    and "cur = computeEpochAtSlot (ts_slot state)" "prev = (if cur = GENESIS_EPOCH then GENESIS_EPOCH else cur - 1)"
    and "s = scanRegistry prev cur (cur + 1) (ts_validators state)"
  shows "boundedTotal (rs_total s) = Inr (ec_totalActiveBalanceIncrements c) \<and>
    computeEpochShuffling hash state (rs_currentActive s) cur = Inr (ec_currentShuffling c) \<and>
    (if cur = GENESIS_EPOCH then Inr (ec_currentShuffling c) else computeEpochShuffling hash state (rs_previousActive s) prev) =
      Inr (ec_previousShuffling c) \<and>
    computeEpochShuffling hash state (rs_nextActive s) (cur + 1) = Inr (ec_nextShuffling c) \<and>
    ec_churnLimit c = getChurnLimit config (length (es_activeIndices (ec_currentShuffling c))) \<and>
    ec_effectiveBalanceIncrements c = rs_effectiveBalanceIncrements s \<and>
    (ec_exitQueueEpoch c, ec_exitQueueChurn c) =
      (if rs_exitQueueChurn s \<ge> ec_churnLimit c then (rs_exitQueueEpoch s + 1, 0) else (rs_exitQueueEpoch s, rs_exitQueueChurn s))"
  using assms(1)
  unfolding createFromState_def Let_def case_prod_unfold assms(2) [symmetric] assms(3) [symmetric] assms(4) [symmetric]
  apply (elim bind_res_InrE)
  apply (drule sum.inject(2) [THEN iffD1])
  apply hypsubst
  apply (simp only: epoch_ctx.simps prod.collapse)
  done

text \<open>
  A context created from a state has the shufflings of the previous, current and next epoch, over the
  validators active in each, the churn limit of the specification, the total active stake in increments, the
  effective balance of every validator by increment, and counters of the exit queue that give the next exit the
  epoch of the specification.
\<close>

theorem createFromState_spec:
  assumes "createFromState hash config state opts = Inr c"
  shows "let cur = computeEpochAtSlot (ts_slot state); vs = ts_validators state in
    es_epoch (ec_currentShuffling c) = cur \<and> es_activeIndices (ec_currentShuffling c) = getActiveValidatorIndices state cur \<and>
    es_epoch (ec_nextShuffling c) = cur + 1 \<and> es_activeIndices (ec_nextShuffling c) = getActiveValidatorIndices state (cur + 1) \<and>
    es_epoch (ec_previousShuffling c) = getPreviousEpoch (ts_slot state) \<and>
    es_activeIndices (ec_previousShuffling c) = getActiveValidatorIndices state (getPreviousEpoch (ts_slot state)) \<and>
    ec_churnLimit c = getChurnLimit config (length (getActiveValidatorIndices state cur)) \<and>
    ec_totalActiveBalanceIncrements c = max 1 (sum_list (map (\<lambda>v. unat (incrementOf v)) (filter (\<lambda>v. isActiveValidator v cur) vs))) \<and>
    (\<forall>i < length vs. i < length (ec_effectiveBalanceIncrements c) \<and> ec_effectiveBalanceIncrements c ! i = incrementOf (vs ! i)) \<and>
    queueOk cur c vs"
proof -
  define cur where "cur = computeEpochAtSlot (ts_slot state)"
  let ?vs = "ts_validators state"
  let ?prev = "if cur = GENESIS_EPOCH then GENESIS_EPOCH else cur - 1"
  define s where "s = scanRegistry ?prev cur (cur + 1) ?vs"
  note scan = scanRegistry_spec [where p = ?prev and c = cur and f = "cur + 1" and vs = ?vs, folded s_def]
    scanRegistry_queue [where p = ?prev and c = cur and f = "cur + 1" and vs = ?vs, folded s_def]
  have prev: "getPreviousEpoch (ts_slot state) = ?prev"
    by (simp add: getPreviousEpoch_def getCurrentEpoch_def cur_def)
  note parts = createFromState_parts [OF assms cur_def refl s_def]
  then have fields: "computeEpochShuffling hash state (rs_currentActive s) cur = Inr (ec_currentShuffling c)"
    "(if cur = GENESIS_EPOCH then Inr (ec_currentShuffling c) else computeEpochShuffling hash state (rs_previousActive s) ?prev) =
      Inr (ec_previousShuffling c)"
    "computeEpochShuffling hash state (rs_nextActive s) (cur + 1) = Inr (ec_nextShuffling c)"
    "boundedTotal (rs_total s) = Inr (ec_totalActiveBalanceIncrements c)"
    "ec_churnLimit c = getChurnLimit config (length (es_activeIndices (ec_currentShuffling c)))"
    "ec_effectiveBalanceIncrements c = rs_effectiveBalanceIncrements s"
    "(ec_exitQueueEpoch c, ec_exitQueueChurn c) =
      (if rs_exitQueueChurn s \<ge> ec_churnLimit c then (rs_exitQueueEpoch s + 1, 0) else (rs_exitQueueEpoch s, rs_exitQueueChurn s))"
    by simp_all
  have "queueOk cur c ?vs"
    using fields(7) by (auto simp: queueOk_def queueExact_def queueSkipped_def scan split: if_splits)
  moreover have "ec_totalActiveBalanceIncrements c = max 1 (rs_total s)"
    using fields(4) by (auto simp: boundedTotal_def split: if_splits)
  ultimately show ?thesis
    unfolding Let_def cur_def [symmetric] prev
    using computeEpochShuffling_inputs [OF fields(1)] computeEpochShuffling_inputs [OF fields(3)] fields(2,5,6)
      computeEpochShuffling_inputs [of hash state "rs_previousActive s" ?prev "ec_previousShuffling c"] scan
    by (auto simp: getActiveValidatorIndices_def split: if_splits)
qed

section \<open>A context for every state\<close>

lemma computeProposers_ok:
  assumes "es_activeIndices es \<noteq> []" "length (es_activeIndices es) \<le> 2 ^ 40"
  shows "\<exists>ps. computeProposers hash state es increments = Inr ps"
proof -
  have one: "\<exists>p. computeProposerIndex hash increments (es_activeIndices es) seed = Inr p" for seed
    using proposerLoop_eq [OF assms, of hash increments seed 0 "length (es_activeIndices es)"] assms(1)
    by (auto simp: computeProposerIndex_def split: list.splits)
  have "\<exists>ps. proposersFrom hash increments (es_activeIndices es) seed ss = Inr ps" for seed ss
  proof (induction ss)
    case (Cons s ss)
    with one [of "hash (seed @ intToBytesLE s 8)"] show ?case by auto
  qed simp
  then show ?thesis
    by (simp add: computeProposers_def Let_def)
qed

lemma length_activeFrom: "length (activeFrom i vs e) \<le> length vs"
  by (induction vs arbitrary: i) (auto intro: le_SucI)

lemma sum_increments: "sum_list (map (\<lambda>v. unat (incrementOf v)) vs) \<le> 255 * length vs"
proof (induction vs)
  case (Cons v vs)
  have "unat (incrementOf v) \<le> 255"
    using unsigned_less [of "incrementOf v", where 'a = nat] by simp
  with Cons show ?case by simp
qed simp

lemma createFromState_ok:
  assumes "\<forall>x. length (hash x) = 32" "length (ts_validators state) < 2 ^ 30"
    and "getActiveValidatorIndices state (computeEpochAtSlot (ts_slot state)) \<noteq> []"
    and "co_skipSyncCommitteeCache opts" "jm_size (co_pubkey2index opts) = length (co_index2pubkey opts)"
  shows "\<exists>c. createFromState hash config state opts = Inr c"
proof -
  define cur where "cur = computeEpochAtSlot (ts_slot state)"
  let ?vs = "ts_validators state"
  let ?prev = "if cur = GENESIS_EPOCH then GENESIS_EPOCH else cur - 1"
  define s where "s = scanRegistry ?prev cur (cur + 1) ?vs"
  note scan = scanRegistry_spec [where p = ?prev and c = cur and f = "cur + 1" and vs = ?vs, folded s_def]
  have "rs_total s < MAX_SAFE_INTEGER"
  proof -
    have "rs_total s \<le> 255 * length (filter (\<lambda>v. isActiveValidator v cur) ?vs)"
      unfolding scan(4) by (rule sum_increments)
    also have "\<dots> \<le> 255 * length ?vs"
      by simp
    finally show ?thesis
      using assms(2) by (simp add: MAX_SAFE_INTEGER_def)
  qed
  then obtain total where total: "boundedTotal (rs_total s) = Inr total"
    by (cases "rs_total s = 0") (auto simp: boundedTotal_def)
  have shuffling: "\<exists>es. computeEpochShuffling hash state (activeFrom 0 ?vs e') e = Inr es" for e e'
    using computeEpochShuffling_eq [OF assms(1), of "activeFrom 0 ?vs e'" state e] length_activeFrom [of 0 ?vs e'] assms(2)
    by (meson le_less_trans)
  obtain es where es: "computeEpochShuffling hash state (rs_currentActive s) cur = Inr es"
    using shuffling by (auto simp: scan)
  have active: "es_activeIndices es \<noteq> []" "length (es_activeIndices es) \<le> 2 ^ 40"
    using computeEpochShuffling_inputs [OF es] assms(2,3) length_activeFrom [of 0 ?vs cur]
    by (auto simp: scan cur_def getActiveValidatorIndices_def)
  obtain es1 where es1: "(if cur = GENESIS_EPOCH then Inr es else computeEpochShuffling hash state (rs_previousActive s) ?prev) = Inr es1"
    using shuffling by (cases "cur = GENESIS_EPOCH") (auto simp: scan)
  obtain es2 where es2: "computeEpochShuffling hash state (rs_nextActive s) (cur + 1) = Inr es2"
    using shuffling by (auto simp: scan)
  obtain ps where ps: "(if ?vs = [] then Inr [] else computeProposers hash state es (rs_effectiveBalanceIncrements s)) = Inr ps"
    using computeProposers_ok [OF active, of hash state "rs_effectiveBalanceIncrements s"] by (cases "?vs = []") auto
  obtain pk where pk: "(if co_skipSyncPubkeys opts then Inr (co_pubkey2index opts, co_index2pubkey opts)
        else syncPubkeys ?vs (co_pubkey2index opts) (co_index2pubkey opts)) = Inr pk"
    using assms(5) by (cases "co_skipSyncPubkeys opts") (auto simp: syncPubkeys_def)
  show ?thesis
    unfolding createFromState_def Let_def case_prod_unfold cur_def [symmetric] s_def [symmetric]
    using total es es1 es2 ps pk assms(4) by (simp only: bind_res.simps simp_thms if_False) blast
qed

text \<open>
  A context can be created from every state with at least one active validator and fewer than 2^30
  validators, whatever their balances, once the key caches agree: no shuffling, choice of a proposer or total of
  stakes throws.
\<close>

theorem createFromState_total:
  assumes "\<forall>x. length (hash x) = 32" "length (ts_validators state) < 2 ^ 30"
    and "getActiveValidatorIndices state (computeEpochAtSlot (ts_slot state)) \<noteq> []"
    and "co_skipSyncCommitteeCache opts" "jm_size (co_pubkey2index opts) = length (co_index2pubkey opts)"
  shows "\<exists>c. createFromState hash config state opts = Inr c"
  using assms by (rule createFromState_ok)

end
