(* ===== verification/EpochTransitionSpec.thy ===== *)
theory EpochTransitionSpec
  imports EpochTransition RegistrySpec
begin

text \<open>
  What the steps of an epoch transition guarantee: finality moves forward, effective balances follow
  the balances with hysteresis, the registry is updated as the specification says, penalties are bounded.
\<close>

section \<open>Finality\<close>

text \<open>The order of the checkpoints, when the last epoch processed was \<open>e\<close>.\<close>

definition checkpointsOk :: "epoch \<Rightarrow> 'a tree_state_scheme \<Rightarrow> bool" where
  "checkpointsOk e s \<longleftrightarrow> rc_epoch (ts_finalizedCheckpoint s) \<le> rc_epoch (ts_previousJustifiedCheckpoint s) \<and>
     rc_epoch (ts_previousJustifiedCheckpoint s) \<le> rc_epoch (ts_currentJustifiedCheckpoint s) \<and>
     rc_epoch (ts_currentJustifiedCheckpoint s) \<le> e"

lemma justifyEpoch_Inr:
  "justifyEpoch reached e k s = Inr t \<longleftrightarrow>
    (if reached then \<exists>r. st_getBlockRoot s e = Inr r \<and>
       t = s\<lparr>ts_currentJustifiedCheckpoint := \<lparr>rc_epoch = e, rc_root = r\<rparr>,
             ts_justificationBits := (ts_justificationBits s)[k := True]\<rparr>
     else t = s)"
  by (auto simp: justifyEpoch_def bind_res_Inr_iff)

lemma getBlockRoot_cong [simp]:
  "st_getBlockRoot (s\<lparr>ts_previousJustifiedCheckpoint := c\<rparr>) e = st_getBlockRoot s e"
  "st_getBlockRoot (s\<lparr>ts_currentJustifiedCheckpoint := c\<rparr>) e = st_getBlockRoot s e"
  "st_getBlockRoot (s\<lparr>ts_justificationBits := b\<rparr>) e = st_getBlockRoot s e"
  by (simp_all add: st_getBlockRoot_def st_getBlockRootAtSlot_def)

lemma finalizeWhen_fields [simp]:
  "ts_finalizedCheckpoint (finalizeWhen b c s) = (if b then c else ts_finalizedCheckpoint s)"
  "ts_previousJustifiedCheckpoint (finalizeWhen b c s) = ts_previousJustifiedCheckpoint s"
  "ts_currentJustifiedCheckpoint (finalizeWhen b c s) = ts_currentJustifiedCheckpoint s"
  by (simp_all add: finalizeWhen_def)

lemma finality_step:
  assumes "checkpointsOk (pr_prevEpoch p) s" "pr_prevEpoch p \<le> pr_currentEpoch p"
    and "processJustificationAndFinalization (p, s) = Inr (p', s')"
  shows "p' = p \<and> checkpointsOk (pr_currentEpoch p) s' \<and>
    rc_epoch (ts_finalizedCheckpoint s) \<le> rc_epoch (ts_finalizedCheckpoint s') \<and>
    rc_epoch (ts_currentJustifiedCheckpoint s) \<le> rc_epoch (ts_currentJustifiedCheckpoint s') \<and>
    (ts_finalizedCheckpoint s' = ts_finalizedCheckpoint s \<or>
     ts_finalizedCheckpoint s' = ts_previousJustifiedCheckpoint s \<or>
     ts_finalizedCheckpoint s' = ts_currentJustifiedCheckpoint s) \<and>
    (ts_currentJustifiedCheckpoint s' = ts_currentJustifiedCheckpoint s \<or>
     rc_epoch (ts_currentJustifiedCheckpoint s') = pr_prevEpoch p \<and>
       st_getBlockRoot s (pr_prevEpoch p) = Inr (rc_root (ts_currentJustifiedCheckpoint s')) \<and>
       reachesSupermajority (pr_targetStakeByIncrement p) (pr_totalActiveStakeByIncrement p) \<or>
     rc_epoch (ts_currentJustifiedCheckpoint s') = pr_currentEpoch p \<and>
       st_getBlockRoot s (pr_currentEpoch p) = Inr (rc_root (ts_currentJustifiedCheckpoint s')) \<and>
       reachesSupermajority (pr_currTargetStakeByIncrement p) (pr_totalActiveStakeByIncrement p))"
proof (cases "pr_currentEpoch p \<le> GENESIS_EPOCH + 1")
  case True
  with assms show ?thesis
    by (auto simp: processJustificationAndFinalization_def checkpointsOk_def)
next
  case False
  let ?s1 = "s\<lparr>ts_previousJustifiedCheckpoint := ts_currentJustifiedCheckpoint s, ts_justificationBits := shiftBits (ts_justificationBits s)\<rparr>"
  from False assms(3) obtain s2 s3 where
    s2: "justifyEpoch (reachesSupermajority (pr_targetStakeByIncrement p) (pr_totalActiveStakeByIncrement p)) (pr_prevEpoch p) 1 ?s1 = Inr s2"
    and s3: "justifyEpoch (reachesSupermajority (pr_currTargetStakeByIncrement p) (pr_totalActiveStakeByIncrement p)) (pr_currentEpoch p) 0 s2 = Inr s3"
    and fields: "p' = p" "ts_previousJustifiedCheckpoint s' = ts_previousJustifiedCheckpoint s3"
      "ts_currentJustifiedCheckpoint s' = ts_currentJustifiedCheckpoint s3"
      "ts_finalizedCheckpoint s' = ts_finalizedCheckpoint s3 \<or> ts_finalizedCheckpoint s' = ts_previousJustifiedCheckpoint s \<or>
       ts_finalizedCheckpoint s' = ts_currentJustifiedCheckpoint s"
    by (auto simp: processJustificationAndFinalization_def Let_def bind_res_Inr_iff)
  have fin: "ts_finalizedCheckpoint s3 = ts_finalizedCheckpoint s" "ts_previousJustifiedCheckpoint s3 = ts_currentJustifiedCheckpoint s"
    using s2 s3 by (auto simp: justifyEpoch_Inr split: if_splits)
  have cur: "ts_currentJustifiedCheckpoint s3 = ts_currentJustifiedCheckpoint s \<or>
      rc_epoch (ts_currentJustifiedCheckpoint s3) = pr_prevEpoch p \<and>
        st_getBlockRoot s (pr_prevEpoch p) = Inr (rc_root (ts_currentJustifiedCheckpoint s3)) \<and>
        reachesSupermajority (pr_targetStakeByIncrement p) (pr_totalActiveStakeByIncrement p) \<or>
      rc_epoch (ts_currentJustifiedCheckpoint s3) = pr_currentEpoch p \<and>
        st_getBlockRoot s (pr_currentEpoch p) = Inr (rc_root (ts_currentJustifiedCheckpoint s3)) \<and>
        reachesSupermajority (pr_currTargetStakeByIncrement p) (pr_totalActiveStakeByIncrement p)"
    using s2 s3 by (auto simp: justifyEpoch_Inr split: if_splits)
  have mono: "rc_epoch (ts_currentJustifiedCheckpoint s) \<le> rc_epoch (ts_currentJustifiedCheckpoint s3)"
    "rc_epoch (ts_currentJustifiedCheckpoint s3) \<le> pr_currentEpoch p"
    using cur assms(1,2) by (auto simp: checkpointsOk_def)
  have "checkpointsOk (pr_currentEpoch p) s'"
    using fields fin mono assms(1) by (auto simp: checkpointsOk_def)
  then show ?thesis
    using fields fin mono cur assms(1) by (auto simp: checkpointsOk_def)
qed

text \<open>
  C31. When the checkpoints of the state are in order, with none beyond the previous epoch, the justification
  step keeps the order, moves neither the justified nor the finalized epoch back, finalizes nothing but a
  checkpoint that was justified before, and justifies only the block root of the previous or current epoch
  whose target votes have two thirds of the active stake.
\<close>

theorem finality_monotone:
  assumes "checkpointsOk (pr_prevEpoch p) s" "pr_prevEpoch p \<le> pr_currentEpoch p"
    and "processJustificationAndFinalization (p, s) = Inr (p', s')"
  shows "p' = p \<and> checkpointsOk (pr_currentEpoch p) s' \<and>
    rc_epoch (ts_finalizedCheckpoint s) \<le> rc_epoch (ts_finalizedCheckpoint s') \<and>
    rc_epoch (ts_currentJustifiedCheckpoint s) \<le> rc_epoch (ts_currentJustifiedCheckpoint s') \<and>
    (ts_finalizedCheckpoint s' = ts_finalizedCheckpoint s \<or>
     ts_finalizedCheckpoint s' = ts_previousJustifiedCheckpoint s \<or>
     ts_finalizedCheckpoint s' = ts_currentJustifiedCheckpoint s) \<and>
    (ts_currentJustifiedCheckpoint s' = ts_currentJustifiedCheckpoint s \<or>
     rc_epoch (ts_currentJustifiedCheckpoint s') = pr_prevEpoch p \<and>
       st_getBlockRoot s (pr_prevEpoch p) = Inr (rc_root (ts_currentJustifiedCheckpoint s')) \<and>
       reachesSupermajority (pr_targetStakeByIncrement p) (pr_totalActiveStakeByIncrement p) \<or>
     rc_epoch (ts_currentJustifiedCheckpoint s') = pr_currentEpoch p \<and>
       st_getBlockRoot s (pr_currentEpoch p) = Inr (rc_root (ts_currentJustifiedCheckpoint s')) \<and>
       reachesSupermajority (pr_currTargetStakeByIncrement p) (pr_totalActiveStakeByIncrement p))"
  using assms by (rule finality_step)

section \<open>Effective balances\<close>

text \<open>Every validator has a balance, and its effective balance is cached by increment.\<close>

definition balancesOk :: "cached_state \<Rightarrow> bool" where
  "balancesOk s \<longleftrightarrow> length (ts_balances s) = length (ts_validators s) \<and>
     length (ts_validators s) \<le> length (ec_effectiveBalanceIncrements (epochCtx s)) \<and>
     (\<forall>i < length (ts_validators s).
        v_effectiveBalance (ts_validators s ! i) =
          unat (ec_effectiveBalanceIncrements (epochCtx s) ! i) * EFFECTIVE_BALANCE_INCREMENT \<and>
        v_effectiveBalance (ts_validators s ! i) \<le> MAX_EFFECTIVE_BALANCE)"

definition nextEffectiveBalance :: "nat \<Rightarrow> nat \<Rightarrow> nat" where
  "nextEffectiveBalance balance effectiveBalance =
     (case newEffectiveBalance balance effectiveBalance of None \<Rightarrow> effectiveBalance | Some e \<Rightarrow> e)"

lemma nextEffectiveBalance_bounds:
  assumes "e mod EFFECTIVE_BALANCE_INCREMENT = 0" "e \<le> MAX_EFFECTIVE_BALANCE"
  shows "nextEffectiveBalance b e \<le> MAX_EFFECTIVE_BALANCE"
    "nextEffectiveBalance b e mod EFFECTIVE_BALANCE_INCREMENT = 0"
    "nextEffectiveBalance b e \<le> b + DOWNWARD_THRESHOLD"
    "b \<le> nextEffectiveBalance b e + UPWARD_THRESHOLD \<or> nextEffectiveBalance b e = MAX_EFFECTIVE_BALANCE"
  using assms mod_less_divisor [of EFFECTIVE_BALANCE_INCREMENT b]
  by (auto simp: nextEffectiveBalance_def newEffectiveBalance_def min_def DOWNWARD_THRESHOLD_def UPWARD_THRESHOLD_def
      preset_defs minus_mod_eq_mult_div split: if_splits)

lemma increment_pos [simp]: "0 < EFFECTIVE_BALANCE_INCREMENT"
  by (simp add: EFFECTIVE_BALANCE_INCREMENT_def)

lemma updateEffectiveBalance_eq:
  assumes "i < length (ts_validators s)" "i < length (ec_effectiveBalanceIncrements (epochCtx s))"
    and "inc = unat (ec_effectiveBalanceIncrements (epochCtx s) ! i)"
    and "v_effectiveBalance (ts_validators s ! i) = inc * EFFECTIVE_BALANCE_INCREMENT"
    and "e' = nextEffectiveBalance b (inc * EFFECTIVE_BALANCE_INCREMENT)"
  shows "updateEffectiveBalance (i, b) (p, s) =
    (p\<lparr>pr_nextEpochTotalActiveBalanceByIncrement := pr_nextEpochTotalActiveBalanceByIncrement p +
       (if pr_isActiveNextEpoch p ! i then e' div EFFECTIVE_BALANCE_INCREMENT else 0)\<rparr>,
     s\<lparr>ts_validators := (ts_validators s)[i := (ts_validators s ! i)\<lparr>v_effectiveBalance := e'\<rparr>],
       epochCtx := (epochCtx s)\<lparr>ec_effectiveBalanceIncrements :=
         (ec_effectiveBalanceIncrements (epochCtx s))[i := of_nat (e' div EFFECTIVE_BALANCE_INCREMENT)]\<rparr>\<rparr>)"
proof (cases "newEffectiveBalance b (inc * EFFECTIVE_BALANCE_INCREMENT)")
  case None
  then have e': "e' = inc * EFFECTIVE_BALANCE_INCREMENT"
    by (simp add: assms(5) nextEffectiveBalance_def)
  have inc: "e' div EFFECTIVE_BALANCE_INCREMENT = inc"
    by (simp add: e')
  have "(ts_validators s ! i)\<lparr>v_effectiveBalance := e'\<rparr> = ts_validators s ! i"
    using assms(4) by (simp add: e')
  then have vs: "(ts_validators s)[i := (ts_validators s ! i)\<lparr>v_effectiveBalance := e'\<rparr>] = ts_validators s"
    by simp
  have "(of_nat inc :: 8 word) = ec_effectiveBalanceIncrements (epochCtx s) ! i"
    by (simp add: assms(3))
  then have incs: "(ec_effectiveBalanceIncrements (epochCtx s))[i := of_nat inc] = ec_effectiveBalanceIncrements (epochCtx s)"
    by simp
  show ?thesis
    unfolding vs inc incs by (simp add: updateEffectiveBalance_def None assms(3) [symmetric])
next
  case (Some e)
  then have "e' = e"
    by (simp add: assms(5) nextEffectiveBalance_def)
  with Some show ?thesis
    by (simp add: updateEffectiveBalance_def assms(3) [symmetric] setValidator_def)
qed


lemma byte_of_increments: "e \<le> MAX_EFFECTIVE_BALANCE \<Longrightarrow> e mod EFFECTIVE_BALANCE_INCREMENT = 0 \<Longrightarrow>
    unat (of_nat (e div EFFECTIVE_BALANCE_INCREMENT) :: 8 word) * EFFECTIVE_BALANCE_INCREMENT = e"
proof -
  assume e: "e \<le> MAX_EFFECTIVE_BALANCE" "e mod EFFECTIVE_BALANCE_INCREMENT = 0"
  have "e div EFFECTIVE_BALANCE_INCREMENT \<le> MAX_EFFECTIVE_BALANCE div EFFECTIVE_BALANCE_INCREMENT"
    by (rule div_le_mono [OF e(1)])
  then have "e div EFFECTIVE_BALANCE_INCREMENT < 256"
    by (simp add: MAX_EFFECTIVE_BALANCE_def EFFECTIVE_BALANCE_INCREMENT_def)
  with e(2) show ?thesis
    by (simp add: unat_byte) (metis add.right_neutral div_mult_mod_eq)
qed

lemma balancesOk_mod: "balancesOk s \<Longrightarrow> i < length (ts_validators s) \<Longrightarrow>
    v_effectiveBalance (ts_validators s ! i) mod EFFECTIVE_BALANCE_INCREMENT = 0 \<and>
    v_effectiveBalance (ts_validators s ! i) \<le> MAX_EFFECTIVE_BALANCE"
  by (auto simp: balancesOk_def)

lemma balancesOk_update:
  assumes "balancesOk s" "i < length (ts_validators s)" "e \<le> MAX_EFFECTIVE_BALANCE" "e mod EFFECTIVE_BALANCE_INCREMENT = 0"
  shows "balancesOk (s\<lparr>ts_validators := (ts_validators s)[i := (ts_validators s ! i)\<lparr>v_effectiveBalance := e\<rparr>],
       epochCtx := (epochCtx s)\<lparr>ec_effectiveBalanceIncrements :=
         (ec_effectiveBalanceIncrements (epochCtx s))[i := of_nat (e div EFFECTIVE_BALANCE_INCREMENT)]\<rparr>\<rparr>)"
  using assms byte_of_increments [OF assms(3,4)] by (auto simp: balancesOk_def nth_list_update)

definition nextBalanceAt :: "nat list \<Rightarrow> cached_state \<Rightarrow> nat \<Rightarrow> nat" where
  "nextBalanceAt balances s i = nextEffectiveBalance (balances ! i) (v_effectiveBalance (ts_validators s ! i))"

text \<open>The turns for the first \<open>m\<close> validators.\<close>

lemma effectiveBalances_prefix:
  assumes "balancesOk s" "length balances = length (ts_validators s)" "m \<le> length balances"
    and "pr_nextEpochTotalActiveBalanceByIncrement p = 0"
  shows "\<exists>p' s'. fold updateEffectiveBalance (List.enumerate 0 (take m balances)) (p, s) = (p', s') \<and>
    balancesOk s' \<and> ts_validators s' = map (\<lambda>i. if i < m
      then (ts_validators s ! i)\<lparr>v_effectiveBalance := nextBalanceAt balances s i\<rparr> else ts_validators s ! i)
        [0..<length (ts_validators s)] \<and>
    p' = p\<lparr>pr_nextEpochTotalActiveBalanceByIncrement := sum_list (map (\<lambda>i. if pr_isActiveNextEpoch p ! i
      then nextBalanceAt balances s i div EFFECTIVE_BALANCE_INCREMENT else 0) [0..<m])\<rparr>"
  using assms(3)
proof (induction m)
  case 0
  have "map (\<lambda>i. ts_validators s ! i) [0..<length (ts_validators s)] = ts_validators s"
    by (rule map_nth)
  with assms(1,4) show ?case by simp
next
  case (Suc m)
  let ?vs = "ts_validators s"
  have m: "m < length ?vs" using Suc.prems assms(2) by simp
  from Suc obtain p' s' where fold: "fold updateEffectiveBalance (List.enumerate 0 (take m balances)) (p, s) = (p', s')"
    and ok: "balancesOk s'" and vs: "ts_validators s' = map (\<lambda>i. if i < m
      then (?vs ! i)\<lparr>v_effectiveBalance := nextBalanceAt balances s i\<rparr> else ?vs ! i) [0..<length ?vs]"
    and p': "p' = p\<lparr>pr_nextEpochTotalActiveBalanceByIncrement := sum_list (map (\<lambda>i. if pr_isActiveNextEpoch p ! i
      then nextBalanceAt balances s i div EFFECTIVE_BALANCE_INCREMENT else 0) [0..<m])\<rparr>"
    by auto
  have at_m: "ts_validators s' ! m = ?vs ! m" "m < length (ts_validators s')"
    using m by (simp_all add: vs)
  define inc where "inc = unat (ec_effectiveBalanceIncrements (epochCtx s') ! m)"
  define e' where "e' = nextBalanceAt balances s m"
  have inc: "v_effectiveBalance (?vs ! m) = inc * EFFECTIVE_BALANCE_INCREMENT" "m < length (ec_effectiveBalanceIncrements (epochCtx s'))"
    using ok at_m by (auto simp: balancesOk_def inc_def)
  have e': "e' = nextEffectiveBalance (balances ! m) (inc * EFFECTIVE_BALANCE_INCREMENT)"
    by (simp add: e'_def nextBalanceAt_def inc(1))
  have bounds: "e' \<le> MAX_EFFECTIVE_BALANCE" "e' mod EFFECTIVE_BALANCE_INCREMENT = 0"
    using balancesOk_mod [OF assms(1) m] unfolding e'_def nextBalanceAt_def
    by (auto intro: nextEffectiveBalance_bounds)
  let ?s = "s'\<lparr>ts_validators := (ts_validators s')[m := (ts_validators s' ! m)\<lparr>v_effectiveBalance := e'\<rparr>],
       epochCtx := (epochCtx s')\<lparr>ec_effectiveBalanceIncrements :=
         (ec_effectiveBalanceIncrements (epochCtx s'))[m := of_nat (e' div EFFECTIVE_BALANCE_INCREMENT)]\<rparr>\<rparr>"
  have "List.enumerate 0 (take (Suc m) balances) = List.enumerate 0 (take m balances) @ [(m, balances ! m)]"
    using m assms(2) by (simp add: take_Suc_conv_app_nth enumerate_append_eq)
  then have "fold updateEffectiveBalance (List.enumerate 0 (take (Suc m) balances)) (p, s) =
      updateEffectiveBalance (m, balances ! m) (p', s')"
    by (simp add: fold)
  also have "\<dots> = (p'\<lparr>pr_nextEpochTotalActiveBalanceByIncrement := pr_nextEpochTotalActiveBalanceByIncrement p' +
       (if pr_isActiveNextEpoch p' ! m then e' div EFFECTIVE_BALANCE_INCREMENT else 0)\<rparr>, ?s)"
    by (rule updateEffectiveBalance_eq [OF at_m(2) inc(2) inc_def _ e']) (simp add: at_m inc)
  finally have fold': "fold updateEffectiveBalance (List.enumerate 0 (take (Suc m) balances)) (p, s) =
      (p'\<lparr>pr_nextEpochTotalActiveBalanceByIncrement := pr_nextEpochTotalActiveBalanceByIncrement p' +
       (if pr_isActiveNextEpoch p' ! m then e' div EFFECTIVE_BALANCE_INCREMENT else 0)\<rparr>, ?s)" .
  have "balancesOk ?s"
    by (rule balancesOk_update [OF ok at_m(2) bounds])
  moreover have "ts_validators ?s = map (\<lambda>i. if i < Suc m
      then (?vs ! i)\<lparr>v_effectiveBalance := nextBalanceAt balances s i\<rparr> else ?vs ! i) [0..<length ?vs]"
    using m by (intro nth_equalityI) (auto simp: vs at_m e'_def nth_list_update less_Suc_eq)
  moreover have "p'\<lparr>pr_nextEpochTotalActiveBalanceByIncrement := pr_nextEpochTotalActiveBalanceByIncrement p' +
       (if pr_isActiveNextEpoch p' ! m then e' div EFFECTIVE_BALANCE_INCREMENT else 0)\<rparr> =
     p\<lparr>pr_nextEpochTotalActiveBalanceByIncrement := sum_list (map (\<lambda>i. if pr_isActiveNextEpoch p ! i
      then nextBalanceAt balances s i div EFFECTIVE_BALANCE_INCREMENT else 0) [0..<Suc m])\<rparr>"
    by (simp add: p' e'_def)
  ultimately show ?case
    using fold' by blast
qed

text \<open>
  After the update of the effective balances each is within the thresholds of hysteresis of its balance
  or at the maximum, it changed only to the balance rounded down, the increments cached in the context agree
  with it, and the stake handed to the next epoch is the sum over the validators active there.
\<close>

theorem effectiveBalance_hysteresis:
  assumes "balancesOk s" "balances = (case pr_balances p of None \<Rightarrow> ts_balances s | Some bs \<Rightarrow> bs)"
    and "length balances = length (ts_validators s)"
  shows "\<exists>p' s'. processEffectiveBalanceUpdates (p, s) = (p', s') \<and> balancesOk s' \<and>
    length (ts_validators s') = length (ts_validators s) \<and>
    (\<forall>i < length (ts_validators s). let e = v_effectiveBalance (ts_validators s' ! i) in
       ts_validators s' ! i = (ts_validators s ! i)\<lparr>v_effectiveBalance := e\<rparr> \<and>
       e \<le> balances ! i + DOWNWARD_THRESHOLD \<and>
       (balances ! i \<le> e + UPWARD_THRESHOLD \<or> e = MAX_EFFECTIVE_BALANCE) \<and>
       (e = v_effectiveBalance (ts_validators s ! i) \<or>
        e = min (balances ! i - balances ! i mod EFFECTIVE_BALANCE_INCREMENT) MAX_EFFECTIVE_BALANCE)) \<and>
    pr_nextEpochTotalActiveBalanceByIncrement p' = sum_list (map (\<lambda>i. if pr_isActiveNextEpoch p ! i
       then v_effectiveBalance (ts_validators s' ! i) div EFFECTIVE_BALANCE_INCREMENT else 0) [0..<length (ts_validators s)])"
proof -
  let ?vs = "ts_validators s"
  let ?p = "p\<lparr>pr_balances := Some balances, pr_nextEpochTotalActiveBalanceByIncrement := 0\<rparr>"
  from effectiveBalances_prefix [OF assms(1,3) le_refl, of ?p] obtain p' s' where
    fold: "fold updateEffectiveBalance (List.enumerate 0 balances) (?p, s) = (p', s')" and ok: "balancesOk s'"
    and vs: "ts_validators s' = map (\<lambda>i. if i < length balances
      then (?vs ! i)\<lparr>v_effectiveBalance := nextBalanceAt balances s i\<rparr> else ?vs ! i) [0..<length ?vs]"
    and p': "p' = ?p\<lparr>pr_nextEpochTotalActiveBalanceByIncrement := sum_list (map (\<lambda>i. if pr_isActiveNextEpoch ?p ! i
      then nextBalanceAt balances s i div EFFECTIVE_BALANCE_INCREMENT else 0) [0..<length balances])\<rparr>"
    by auto
  have at_i: "ts_validators s' ! i = (?vs ! i)\<lparr>v_effectiveBalance := nextBalanceAt balances s i\<rparr>" if "i < length ?vs" for i
    using that assms(3) by (simp add: vs)
  have changed: "nextBalanceAt balances s i = v_effectiveBalance (?vs ! i) \<or>
      nextBalanceAt balances s i = min (balances ! i - balances ! i mod EFFECTIVE_BALANCE_INCREMENT) MAX_EFFECTIVE_BALANCE" for i
    by (auto simp: nextBalanceAt_def nextEffectiveBalance_def newEffectiveBalance_def)
  have "processEffectiveBalanceUpdates (p, s) = (p', s')"
    using fold by (simp add: processEffectiveBalanceUpdates_def Let_def assms(2))
  moreover have "length (ts_validators s') = length ?vs"
    by (simp add: vs)
  moreover have "sum_list (map (\<lambda>i. if pr_isActiveNextEpoch p ! i
      then nextBalanceAt balances s i div EFFECTIVE_BALANCE_INCREMENT else 0) [0..<length balances]) =
    sum_list (map (\<lambda>i. if pr_isActiveNextEpoch p ! i
       then v_effectiveBalance (ts_validators s' ! i) div EFFECTIVE_BALANCE_INCREMENT else 0) [0..<length ?vs])"
    using assms(3) by (intro arg_cong [of _ _ sum_list] map_cong) (auto simp: at_i)
  then have "pr_nextEpochTotalActiveBalanceByIncrement p' = sum_list (map (\<lambda>i. if pr_isActiveNextEpoch p ! i
       then v_effectiveBalance (ts_validators s' ! i) div EFFECTIVE_BALANCE_INCREMENT else 0) [0..<length ?vs])"
    by (simp add: p')
  moreover have "let e = v_effectiveBalance (ts_validators s' ! i) in
       ts_validators s' ! i = (?vs ! i)\<lparr>v_effectiveBalance := e\<rparr> \<and>
       e \<le> balances ! i + DOWNWARD_THRESHOLD \<and>
       (balances ! i \<le> e + UPWARD_THRESHOLD \<or> e = MAX_EFFECTIVE_BALANCE) \<and>
       (e = v_effectiveBalance (?vs ! i) \<or>
        e = min (balances ! i - balances ! i mod EFFECTIVE_BALANCE_INCREMENT) MAX_EFFECTIVE_BALANCE)"
    if i: "i < length ?vs" for i
  proof -
    have "v_effectiveBalance (ts_validators s' ! i) = nextBalanceAt balances s i"
      by (simp add: at_i [OF i])
    moreover note changed [of i]
    moreover have "nextBalanceAt balances s i \<le> balances ! i + DOWNWARD_THRESHOLD"
      "balances ! i \<le> nextBalanceAt balances s i + UPWARD_THRESHOLD \<or> nextBalanceAt balances s i = MAX_EFFECTIVE_BALANCE"
      using nextEffectiveBalance_bounds(3,4) balancesOk_mod [OF assms(1) i] by (auto simp: nextBalanceAt_def)
    ultimately show ?thesis
      using at_i [OF i] by (simp only: Let_def)
  qed
  ultimately show ?thesis
    using ok by (intro exI [of _ p'] exI [of _ s']) (simp add: vs)
qed

end
