(* ===== verification/RegistryUpdateSpec.thy ===== *)
theory RegistryUpdateSpec
  imports EpochTransitionSpec
begin

text \<open>
  \<open>processRegistryUpdates\<close> works on lists of indices that were collected before the epoch transition and on
  the counters of the exit queue. The specification walks the registry, recomputes the queue for every
  ejection and sorts the activation queue once finality is known. Both give the same validators.
\<close>

section \<open>The specification\<close>

definition specInitiateExit :: "state_config \<Rightarrow> epoch \<Rightarrow> nat \<Rightarrow> nat \<Rightarrow> validator list \<Rightarrow> validator list" where
  "specInitiateExit config cur limit i vs =
     (if v_exitEpoch (vs ! i) \<noteq> FAR_FUTURE_EPOCH then vs
      else let e = specExitEpoch cur limit vs
        in vs[i := (vs ! i)\<lparr>v_exitEpoch := enat e,
             v_withdrawableEpoch := enat (e + MIN_VALIDATOR_WITHDRAWABILITY_DELAY config)\<rparr>])"

definition specRegistryStep :: "state_config \<Rightarrow> epoch \<Rightarrow> nat \<Rightarrow> nat \<Rightarrow> validator list \<Rightarrow> validator list" where
  "specRegistryStep config cur limit i vs =
     (let vs1 = (if eligibleForQueue (vs ! i)
            then vs[i := (vs ! i)\<lparr>v_activationEligibilityEpoch := enat (cur + 1)\<rparr>] else vs)
      in if isActiveValidator (vs1 ! i) cur \<and> v_effectiveBalance (vs1 ! i) \<le> EJECTION_BALANCE config
         then specInitiateExit config cur limit i vs1 else vs1)"

definition specActivationQueue :: "epoch \<Rightarrow> validator list \<Rightarrow> nat list" where
  "specActivationQueue finalized vs =
     sort_key (\<lambda>i. v_activationEligibilityEpoch (vs ! i))
       (indicesWhere (\<lambda>v. v_activationEligibilityEpoch v \<le> enat finalized \<and> v_activationEpoch v = FAR_FUTURE_EPOCH) vs)"

definition activateAt :: "epoch \<Rightarrow> nat \<Rightarrow> validator list \<Rightarrow> validator list" where
  "activateAt cur i vs = vs[i := (vs ! i)\<lparr>v_activationEpoch := enat (computeActivationExitEpoch cur)\<rparr>]"

definition specRegistryUpdates :: "state_config \<Rightarrow> epoch \<Rightarrow> nat \<Rightarrow> epoch \<Rightarrow> validator list \<Rightarrow> validator list" where
  "specRegistryUpdates config cur limit finalized vs =
     (let vs1 = fold (specRegistryStep config cur limit) [0..<length vs] vs
      in fold (activateAt cur) (take limit (specActivationQueue finalized vs1)) vs1)"

section \<open>Ejections\<close>

lemma length_specInitiateExit [simp]: "length (specInitiateExit config cur limit i vs) = length vs"
  by (simp add: specInitiateExit_def Let_def)

lemma ejections:
  assumes "queueOk cur (epochCtx s) (ts_validators s)" "0 < ec_churnLimit (epochCtx s)"
    and "\<forall>i \<in> set is. i < length (ts_validators s)"
  shows "\<exists>t. fold_res (initiateValidatorExit config) is s = Inr t \<and>
    ts_validators t = fold (specInitiateExit config cur (ec_churnLimit (epochCtx s))) is (ts_validators s) \<and>
    ec_churnLimit (epochCtx t) = ec_churnLimit (epochCtx s) \<and>
    ec_currentShuffling (epochCtx t) = ec_currentShuffling (epochCtx s) \<and>
    ts_finalizedCheckpoint t = ts_finalizedCheckpoint s \<and> queueOk cur (epochCtx t) (ts_validators t)"
  using assms
proof (induction "is" arbitrary: s)
  case (Cons i "is")
  have i: "i < length (ts_validators s)" using Cons.prems(3) by simp
  obtain u where u: "initiateValidatorExit config i s = Inr u"
    "ts_validators u = specInitiateExit config cur (ec_churnLimit (epochCtx s)) i (ts_validators s)"
    "queueOk cur (epochCtx u) (ts_validators u)" "ec_churnLimit (epochCtx u) = ec_churnLimit (epochCtx s)"
    "ec_currentShuffling (epochCtx u) = ec_currentShuffling (epochCtx s)"
    "ts_finalizedCheckpoint u = ts_finalizedCheckpoint s"
  proof (cases "v_exitEpoch (ts_validators s ! i) = FAR_FUTURE_EPOCH")
    case True
    from exit_step [OF Cons.prems(1,2) i True, of config] obtain t where
      "initiateValidatorExit config i s = Inr t"
      "ts_validators t = specInitiateExit config cur (ec_churnLimit (epochCtx s)) i (ts_validators s)"
      "queueOk cur (epochCtx t) (ts_validators t)"
      using True by (auto simp: specInitiateExit_def Let_def)
    moreover from this(1) i True have "ec_churnLimit (epochCtx t) = ec_churnLimit (epochCtx s)"
      "ec_currentShuffling (epochCtx t) = ec_currentShuffling (epochCtx s)"
      "ts_finalizedCheckpoint t = ts_finalizedCheckpoint s"
      by (auto simp: initiateValidatorExit_def getValidator_def setValidator_def Let_def nextInQueue_def)
    ultimately show thesis using that by blast
  next
    case False
    with i Cons.prems(1) show thesis
      by (intro that [of s]) (simp_all add: initiateValidatorExit_def getValidator_def specInitiateExit_def)
  qed
  have "\<forall>j \<in> set is. j < length (ts_validators u)"
    using Cons.prems(3) by (simp add: u(2))
  from Cons.IH [OF u(3) _ this] Cons.prems(2) u show ?case by simp
qed simp

section \<open>Eligibility\<close>

text \<open>The eligibility epochs set for the first \<open>m\<close> validators of \<open>vs\<close>.\<close>

definition withEligibility :: "epoch \<Rightarrow> validator list \<Rightarrow> nat \<Rightarrow> validator list \<Rightarrow> validator list" where
  "withEligibility cur vs m ws =
     map (\<lambda>i. if i < m \<and> eligibleForQueue (vs ! i)
        then (ws ! i)\<lparr>v_activationEligibilityEpoch := enat (cur + 1)\<rparr> else ws ! i) [0..<length ws]"

lemma length_withEligibility [simp]: "length (withEligibility cur vs m ws) = length ws"
  by (simp add: withEligibility_def)

lemma nth_withEligibility: "i < length ws \<Longrightarrow> withEligibility cur vs m ws ! i =
    (if i < m \<and> eligibleForQueue (vs ! i) then (ws ! i)\<lparr>v_activationEligibilityEpoch := enat (cur + 1)\<rparr> else ws ! i)"
  by (simp add: withEligibility_def)

lemma withEligibility_0 [simp]: "withEligibility cur vs 0 ws = ws"
  by (intro nth_equalityI) (simp_all add: nth_withEligibility)

lemma withEligibility_Suc:
  assumes "m < length ws"
  shows "withEligibility cur vs (Suc m) ws =
    (if eligibleForQueue (vs ! m)
     then (withEligibility cur vs m ws)[m := (ws ! m)\<lparr>v_activationEligibilityEpoch := enat (cur + 1)\<rparr>]
     else withEligibility cur vs m ws)"
  using assms by (intro nth_equalityI) (auto simp: nth_withEligibility nth_list_update less_Suc_eq)

lemma map_exit_withEligibility: "map v_exitEpoch (withEligibility cur vs m ws) = map v_exitEpoch ws"
  by (intro nth_equalityI) (simp_all add: nth_withEligibility)

lemma specExitEpoch_withEligibility:
  "specExitEpoch cur limit (withEligibility cur vs m ws) = specExitEpoch cur limit ws"
  by (simp add: specExitEpoch_def specQueueEpoch_def specQueueChurn_def exitEpochs_def map_exit_withEligibility)

lemma withEligibility_update:
  assumes "m < length ws" "\<not> eligibleForQueue (vs ! m)"
  shows "(withEligibility cur vs m ws)[m := v] = withEligibility cur vs (Suc m) (ws[m := v])"
  using assms by (intro nth_equalityI) (auto simp: nth_withEligibility nth_list_update less_Suc_eq)

text \<open>The loop over the collected indices.\<close>

lemma eligibility_loop:
  assumes "cur = es_epoch (ec_currentShuffling (epochCtx s))" "m \<le> length (ts_validators s)"
  shows "fold_res setEligibility (filter (\<lambda>i. eligibleForQueue (vs ! i)) [0..<m]) s =
    Inr (s\<lparr>ts_validators := withEligibility cur vs m (ts_validators s)\<rparr>)"
  using assms(2)
proof (induction m)
  case (Suc m)
  then have m: "m < length (ts_validators s)" by simp
  have at_m: "withEligibility cur vs m (ts_validators s) ! m = ts_validators s ! m"
    using m by (simp add: nth_withEligibility)
  show ?case
  proof (cases "eligibleForQueue (vs ! m)")
    case True
    with Suc m show ?thesis
      by (simp add: fold_res_append setEligibility_def getValidator_def setValidator_def at_m assms(1) [symmetric] withEligibility_Suc)
  next
    case False
    with Suc m show ?thesis
      by (simp add: withEligibility_Suc)
  qed
qed simp

section \<open>The walk of the specification\<close>

lemma not_active_far: "v_activationEpoch v = FAR_FUTURE_EPOCH \<Longrightarrow> \<not> isActiveValidator v e"
  by (simp add: isActiveValidator_def FAR_FUTURE_EPOCH_def)

lemma toEject_iff:
  assumes "EJECTION_BALANCE config < MAX_EFFECTIVE_BALANCE"
  shows "toEject config cur v \<longleftrightarrow>
    isActiveValidator v cur \<and> v_effectiveBalance v \<le> EJECTION_BALANCE config \<and> v_exitEpoch v = FAR_FUTURE_EPOCH"
  using assms not_active_far [of v cur]
  by (auto simp: toEject_def eligibleForQueue_def eligibleForActivation_def)

lemma fold_exit_length [simp]: "length (fold (specInitiateExit config cur limit) is vs) = length vs"
  by (induction "is" arbitrary: vs) simp_all

lemma fold_exit_other: "j \<notin> set is \<Longrightarrow> fold (specInitiateExit config cur limit) is vs ! j = vs ! j"
proof (induction "is" arbitrary: vs)
  case (Cons i "is")
  then show ?case
    by (simp add: specInitiateExit_def Let_def)
qed simp

lemma spec_walk:
  assumes "EJECTION_BALANCE config < MAX_EFFECTIVE_BALANCE" "m \<le> length vs"
  shows "fold (specRegistryStep config cur limit) [0..<m] vs =
    withEligibility cur vs m (fold (specInitiateExit config cur limit) (filter (\<lambda>i. toEject config cur (vs ! i)) [0..<m]) vs)"
  using assms(2)
proof (induction m)
  case (Suc m)
  then have m: "m < length vs" by simp
  define es where "es = fold (specInitiateExit config cur limit) (filter (\<lambda>i. toEject config cur (vs ! i)) [0..<m]) vs"
  let ?ws = "withEligibility cur vs m es"
  have len: "length es = length vs" by (simp add: es_def)
  have at_m: "es ! m = vs ! m" "?ws ! m = vs ! m"
    using m len by (simp_all add: es_def fold_exit_other nth_withEligibility)
  have walk: "fold (specRegistryStep config cur limit) [0..<Suc m] vs = specRegistryStep config cur limit m ?ws"
    using Suc by (simp add: es_def)
  have exits: "fold (specInitiateExit config cur limit) (filter (\<lambda>i. toEject config cur (vs ! i)) [0..<Suc m]) vs =
      (if toEject config cur (vs ! m) then specInitiateExit config cur limit m es else es)"
    by (simp add: es_def)
  show ?case
  proof (cases "eligibleForQueue (vs ! m)")
    case True
    then have "\<not> v_effectiveBalance (vs ! m) \<le> EJECTION_BALANCE config"
      using assms(1) by (simp add: eligibleForQueue_def)
    with True m len show ?thesis
      unfolding walk exits
      by (simp add: specRegistryStep_def at_m toEject_iff [OF assms(1)] withEligibility_Suc Let_def)
  next
    case False
    show ?thesis
    proof (cases "toEject config cur (vs ! m)")
      case True
      then have "specRegistryStep config cur limit m ?ws = specInitiateExit config cur limit m ?ws"
        using False by (simp add: specRegistryStep_def at_m toEject_iff [OF assms(1)])
      also have "\<dots> = withEligibility cur vs (Suc m) (specInitiateExit config cur limit m es)"
        using True False m len
        by (simp add: specInitiateExit_def at_m toEject_iff [OF assms(1)] specExitEpoch_withEligibility Let_def withEligibility_update)
      finally show ?thesis
        unfolding walk exits using True by simp
    next
      case no: False
      have "specRegistryStep config cur limit m ?ws = ?ws"
        using False no by (auto simp: specRegistryStep_def at_m toEject_iff [OF assms(1)] specInitiateExit_def Let_def)
      then show ?thesis
        unfolding walk exits using False no m len by (simp add: withEligibility_Suc)
    qed
  qed
qed simp

section \<open>Activations\<close>

lemma sort_key_cong': "(\<And>x. x \<in> set xs \<Longrightarrow> f x = g x) \<Longrightarrow> sort_key f xs = sort_key g xs"
proof (induction xs)
  case (Cons x xs)
  have "insort_key f x ys = insort_key g x ys" if "set ys \<subseteq> set xs" for ys
    using that Cons.prems by (induction ys) auto
  with Cons show ?case by simp
qed simp

lemma takeWhile_take: "takeWhile P (take k xs) = take k (takeWhile P xs)"
proof (induction xs arbitrary: k)
  case (Cons x xs)
  then show ?case by (cases k) simp_all
qed simp

lemma takeWhile_sorted:
  "sorted (map f xs) \<Longrightarrow> takeWhile (\<lambda>x. f x \<le> (b :: 'b :: linorder)) xs = filter (\<lambda>x. f x \<le> b) xs"
proof (induction xs)
  case (Cons x xs)
  have "filter (\<lambda>x. f x \<le> b) xs = []" if "\<not> f x \<le> b"
    using that Cons.prems by (auto simp: filter_empty_conv)
  with Cons show ?case by simp
qed simp

lemma eligibility_activateAt: "v_activationEligibilityEpoch (activateAt cur i vs ! j) = v_activationEligibilityEpoch (vs ! j)"
  by (cases "i < length vs"; cases "i = j") (simp_all add: activateAt_def list_update_beyond)

lemma activateLoop_eq:
  assumes "\<forall>i \<in> set is. i < length (ts_validators s)"
  shows "activateLoop cur finality is s = Inr (s\<lparr>ts_validators :=
    fold (activateAt cur) (takeWhile (\<lambda>i. v_activationEligibilityEpoch (ts_validators s ! i) \<le> enat finality) is) (ts_validators s)\<rparr>)"
  using assms
proof (induction "is" arbitrary: s)
  case (Cons i "is")
  let ?s = "s\<lparr>ts_validators := activateAt cur i (ts_validators s)\<rparr>"
  have len: "\<forall>j \<in> set is. j < length (ts_validators ?s)"
    using Cons.prems by (simp add: activateAt_def)
  from Cons.prems have "getValidator i s = Inr (ts_validators s ! i)"
    by (simp add: getValidator_def)
  then show ?case
    using Cons.IH [OF len] by (simp add: setValidator_def activateAt_def [symmetric] eligibility_activateAt)
qed simp

lemma activation_queue:
  assumes "finality \<le> cur" "length ws = length vs"
    and "\<And>i. i < length vs \<Longrightarrow> v_activationEpoch (ws ! i) = v_activationEpoch (vs ! i) \<and>
      v_activationEligibilityEpoch (ws ! i) = (if eligibleForQueue (vs ! i) then enat (cur + 1) else v_activationEligibilityEpoch (vs ! i))"
  shows "takeWhile (\<lambda>i. v_activationEligibilityEpoch (ws ! i) \<le> enat finality)
      (sort_key (\<lambda>i. v_activationEligibilityEpoch (vs ! i)) (indicesWhere (eligibleForActivation cur) vs)) =
    specActivationQueue finality ws"
proof -
  let ?f = "\<lambda>i. v_activationEligibilityEpoch (ws ! i)" and ?g = "\<lambda>i. v_activationEligibilityEpoch (vs ! i)"
  let ?is = "indicesWhere (eligibleForActivation cur) vs"
  have eq: "?g i = ?f i" if "i \<in> set ?is" for i
    using that assms(3) by (auto simp: indicesWhere_def eligibleForActivation_def)
  have "takeWhile (\<lambda>i. ?f i \<le> enat finality) (sort_key ?g ?is) = takeWhile (\<lambda>i. ?f i \<le> enat finality) (sort_key ?f ?is)"
    by (simp only: sort_key_cong' [OF eq])
  also have "\<dots> = filter (\<lambda>i. ?f i \<le> enat finality) (sort_key ?f ?is)"
    by (intro takeWhile_sorted sorted_sort_key)
  also have "\<dots> = sort_key ?f (filter (\<lambda>i. ?f i \<le> enat finality) ?is)"
    by (rule filter_sort)
  also have "filter (\<lambda>i. ?f i \<le> enat finality) ?is =
      indicesWhere (\<lambda>v. v_activationEligibilityEpoch v \<le> enat finality \<and> v_activationEpoch v = FAR_FUTURE_EPOCH) ws"
  proof -
    have "?f i \<le> enat finality \<and> eligibleForActivation cur (vs ! i) \<longleftrightarrow>
        ?f i \<le> enat finality \<and> v_activationEpoch (ws ! i) = FAR_FUTURE_EPOCH" if "i < length vs" for i
    proof -
      have "?f i \<le> enat cur" if "?f i \<le> enat finality"
        using that assms(1) by (meson enat_ord_simps(1) order_trans)
      moreover have "\<not> enat (cur + 1) \<le> enat finality"
        using assms(1) by simp
      ultimately show ?thesis
        using assms(3) [OF that] by (auto simp: eligibleForActivation_def)
    qed
    then have "filter (\<lambda>i. ?f i \<le> enat finality \<and> eligibleForActivation cur (vs ! i)) [0..<length vs] =
        filter (\<lambda>i. ?f i \<le> enat finality \<and> v_activationEpoch (ws ! i) = FAR_FUTURE_EPOCH) [0..<length vs]"
      by (intro filter_cong) simp_all
    then show ?thesis
      by (simp add: indicesWhere_def assms(2) conj_commute)
  qed
  finally show ?thesis
    by (simp add: specActivationQueue_def)
qed

section \<open>The refinement\<close>

lemma registryUpdates_step:
  assumes "queueOk cur (epochCtx s) (ts_validators s)" "0 < ec_churnLimit (epochCtx s)"
    and "cur = es_epoch (ec_currentShuffling (epochCtx s))" "pr_currentEpoch p = cur"
    and "rc_epoch (ts_finalizedCheckpoint s) \<le> cur" "EJECTION_BALANCE config < MAX_EFFECTIVE_BALANCE"
    and "pr_indicesToEject p = indicesWhere (toEject config cur) (ts_validators s)"
    and "pr_indicesEligibleForActivationQueue p = indicesWhere eligibleForQueue (ts_validators s)"
    and "pr_indicesEligibleForActivation p = sort_key (\<lambda>i. v_activationEligibilityEpoch (ts_validators s ! i))
      (indicesWhere (eligibleForActivation cur) (ts_validators s))"
  shows "\<exists>t. processRegistryUpdates config (p, s) = Inr (p, t) \<and>
    ts_validators t = specRegistryUpdates config cur (ec_churnLimit (epochCtx s)) (rc_epoch (ts_finalizedCheckpoint s)) (ts_validators s)"
proof -
  let ?vs = "ts_validators s" let ?limit = "ec_churnLimit (epochCtx s)"
  let ?fin = "rc_epoch (ts_finalizedCheckpoint s)"
  let ?exits = "fold (specInitiateExit config cur ?limit) (indicesWhere (toEject config cur) ?vs) ?vs"
  define ws where "ws = withEligibility cur ?vs (length ?vs) ?exits"
  have "\<forall>i \<in> set (indicesWhere (toEject config cur) ?vs). i < length ?vs"
    by (simp add: indicesWhere_def)
  from ejections [OF assms(1,2) this, of config] obtain s1 where
    s1: "fold_res (initiateValidatorExit config) (indicesWhere (toEject config cur) ?vs) s = Inr s1"
      "ts_validators s1 = ?exits" "ec_churnLimit (epochCtx s1) = ?limit"
      "ec_currentShuffling (epochCtx s1) = ec_currentShuffling (epochCtx s)"
      "ts_finalizedCheckpoint s1 = ts_finalizedCheckpoint s"
    by blast
  define s2 where "s2 = s1\<lparr>ts_validators := ws\<rparr>"
  have s2: "fold_res setEligibility (indicesWhere eligibleForQueue ?vs) s1 = Inr s2"
    using eligibility_loop [of cur s1 "length ?vs" ?vs] s1 assms(3) by (simp add: indicesWhere_def s2_def ws_def)
  have walk: "fold (specRegistryStep config cur ?limit) [0..<length ?vs] ?vs = ws"
    using spec_walk [OF assms(6) le_refl, of cur ?limit ?vs] by (simp add: ws_def indicesWhere_def)
  have fields: "v_activationEpoch (?exits ! i) = v_activationEpoch (?vs ! i) \<and>
      v_activationEligibilityEpoch (?exits ! i) = v_activationEligibilityEpoch (?vs ! i)" if "i < length ?vs" for i
  proof -
    have "v_activationEpoch (fold (specInitiateExit config cur ?limit) is us ! i) = v_activationEpoch (us ! i) \<and>
      v_activationEligibilityEpoch (fold (specInitiateExit config cur ?limit) is us ! i) = v_activationEligibilityEpoch (us ! i)"
      if "i < length us" for us "is"
      using that
    proof (induction "is" arbitrary: us)
      case (Cons j "is")
      have "v_activationEpoch (specInitiateExit config cur ?limit j us ! i) = v_activationEpoch (us ! i) \<and>
        v_activationEligibilityEpoch (specInitiateExit config cur ?limit j us ! i) = v_activationEligibilityEpoch (us ! i)"
        using Cons.prems by (cases "i = j") (simp_all add: specInitiateExit_def Let_def)
      with Cons.IH [of "specInitiateExit config cur ?limit j us"] Cons.prems show ?case by simp
    qed simp
    from this [OF that] show ?thesis .
  qed
  have queue: "takeWhile (\<lambda>i. v_activationEligibilityEpoch (ws ! i) \<le> enat ?fin) (pr_indicesEligibleForActivation p) =
      specActivationQueue ?fin ws"
    unfolding assms(9) by (rule activation_queue [OF assms(5)]) (simp_all add: ws_def nth_withEligibility fields)
  have "\<forall>i \<in> set (take ?limit (pr_indicesEligibleForActivation p)). i < length (ts_validators s2)"
    using set_take_subset by (fastforce simp: assms(9) indicesWhere_def s2_def ws_def)
  from activateLoop_eq [OF this, of cur ?fin]
  have "activateLoop cur ?fin (take ?limit (pr_indicesEligibleForActivation p)) s2 =
      Inr (s2\<lparr>ts_validators := fold (activateAt cur) (take ?limit (specActivationQueue ?fin ws)) ws\<rparr>)"
    by (simp add: s2_def takeWhile_take queue)
  then show ?thesis
    using s1 s2 walk assms(4,7,8)
    by (simp add: processRegistryUpdates_def specRegistryUpdates_def s2_def)
qed

text \<open>The steps before it leave the validators and the context alone.\<close>

lemma justifyEpoch_frame:
  "justifyEpoch reached e k s = Inr t \<Longrightarrow> ts_validators t = ts_validators s \<and> epochCtx t = epochCtx s"
  by (auto simp: justifyEpoch_Inr split: if_splits)

lemma finalizeWhen_frame [simp]:
  "ts_validators (finalizeWhen b c s) = ts_validators s" "epochCtx (finalizeWhen b c s) = epochCtx s"
  by (simp_all add: finalizeWhen_def)

lemma justification_frame:
  assumes "processJustificationAndFinalization (p, s) = Inr (p', s')"
  shows "p' = p \<and> ts_validators s' = ts_validators s \<and> epochCtx s' = epochCtx s"
proof (cases "pr_currentEpoch p \<le> GENESIS_EPOCH + 1")
  case True
  with assms show ?thesis
    by (simp add: processJustificationAndFinalization_def)
next
  case False
  let ?s1 = "s\<lparr>ts_previousJustifiedCheckpoint := ts_currentJustifiedCheckpoint s, ts_justificationBits := shiftBits (ts_justificationBits s)\<rparr>"
  from False assms obtain s2 s3 where
    s2: "justifyEpoch (reachesSupermajority (pr_targetStakeByIncrement p) (pr_totalActiveStakeByIncrement p)) (pr_prevEpoch p) 1 ?s1 = Inr s2"
    and s3: "justifyEpoch (reachesSupermajority (pr_currTargetStakeByIncrement p) (pr_totalActiveStakeByIncrement p)) (pr_currentEpoch p) 0 s2 = Inr s3"
    and s': "p' = p" "ts_validators s' = ts_validators s3" "epochCtx s' = epochCtx s3"
    by (auto simp: processJustificationAndFinalization_def Let_def bind_res_Inr_iff)
  show ?thesis
    using justifyEpoch_frame [OF s2] justifyEpoch_frame [OF s3] s' by simp
qed

lemma inactivity_frame:
  assumes "processInactivityUpdates config (p, s) = Inr (p', s')"
  shows "p' = p \<and> ts_validators s' = ts_validators s \<and> epochCtx s' = epochCtx s \<and>
    ts_finalizedCheckpoint s' = ts_finalizedCheckpoint s"
  using assms by (auto simp: processInactivityUpdates_def split: if_splits)

lemma rewards_frame:
  "\<exists>bs. processRewardsAndPenaltiesAllForks lib config fork (p, s) =
     (if pr_currentEpoch p = GENESIS_EPOCH then (p, s) else (p\<lparr>pr_balances := Some bs\<rparr>, s\<lparr>ts_balances := bs\<rparr>))"
  by (auto simp: processRewardsAndPenaltiesAllForks_def Let_def)

text \<open>
  C29. In an epoch transition of either kind, the registry update on the indices collected beforehand and the
  counters of the exit queue succeeds and gives the registry of the specification, which walks all validators, looks
  for the end of the exit queue at every ejection and orders the activation queue by the finalized epoch that
  this transition has just set. Hypotheses: before the transition the cached counters stand for the exit queue of the
  registry (\<open>queueOk\<close>, which reachable states can violate), the churn limit is positive, the checkpoints are in order
  and none is later than the previous epoch, which is not after the current one, and the ejection balance of the
  configuration is below the maximum effective balance.
\<close>

theorem processRegistryUpdates_refines:
  assumes "beforeProcessEpoch config s = Inr p" "processJustificationAndFinalization (p, s) = Inr (p1, s1)"
    and "fork = Phase0 \<and> (p2, s2) = (p1, s1) \<or> processInactivityUpdates config (p1, s1) = Inr (p2, s2)"
    and "queueOk (pr_currentEpoch p) (epochCtx s) (ts_validators s)" "0 < ec_churnLimit (epochCtx s)"
    and "checkpointsOk (pr_prevEpoch p) s" "pr_prevEpoch p \<le> pr_currentEpoch p"
    and "EJECTION_BALANCE config < MAX_EFFECTIVE_BALANCE"
  shows "\<exists>p3 s3. processRegistryUpdates config (processRewardsAndPenaltiesAllForks lib config fork (p2, s2)) = Inr (p3, s3) \<and>
    ts_validators s3 = specRegistryUpdates config (pr_currentEpoch p) (ec_churnLimit (epochCtx s))
      (rc_epoch (ts_finalizedCheckpoint s1)) (ts_validators s)"
proof -
  note frame1 = justification_frame [OF assms(2)]
  have frame2: "p2 = p1 \<and> ts_validators s2 = ts_validators s1 \<and> epochCtx s2 = epochCtx s1 \<and>
      ts_finalizedCheckpoint s2 = ts_finalizedCheckpoint s1"
    using assms(3) inactivity_frame [of config p1 s1 p2 s2] by auto
  from rewards_frame [of lib config fork p2 s2] obtain q t where
    rewards: "processRewardsAndPenaltiesAllForks lib config fork (p2, s2) = (q, t)"
    and q: "pr_currentEpoch q = pr_currentEpoch p2" "pr_indicesToEject q = pr_indicesToEject p2"
      "pr_indicesEligibleForActivationQueue q = pr_indicesEligibleForActivationQueue p2"
      "pr_indicesEligibleForActivation q = pr_indicesEligibleForActivation p2"
    and t: "ts_validators t = ts_validators s2" "epochCtx t = epochCtx s2" "ts_finalizedCheckpoint t = ts_finalizedCheckpoint s2"
    by (cases "pr_currentEpoch p2 = GENESIS_EPOCH") auto
  have lists: "pr_currentEpoch p = es_epoch (ec_currentShuffling (epochCtx s))"
    "pr_indicesToEject p = indicesWhere (toEject config (pr_currentEpoch p)) (ts_validators s)"
    "pr_indicesEligibleForActivationQueue p = indicesWhere eligibleForQueue (ts_validators s)"
    "pr_indicesEligibleForActivation p = sort_key (\<lambda>i. v_activationEligibilityEpoch (ts_validators s ! i))
      (indicesWhere (eligibleForActivation (pr_currentEpoch p)) (ts_validators s))"
    using assms(1) by (auto simp: beforeProcessEpoch_def Let_def bind_res_Inr_iff)
  have "rc_epoch (ts_finalizedCheckpoint s1) \<le> pr_currentEpoch p"
    using finality_step [OF assms(6,7,2)] by (auto simp: checkpointsOk_def)
  then have "\<exists>u. processRegistryUpdates config (q, t) = Inr (q, u) \<and>
      ts_validators u = specRegistryUpdates config (pr_currentEpoch p) (ec_churnLimit (epochCtx t))
        (rc_epoch (ts_finalizedCheckpoint t)) (ts_validators t)"
    using assms(4,5,8) frame1 frame2 q t lists
    by (intro registryUpdates_step) simp_all
  then show ?thesis
    using frame1 frame2 t by (metis rewards)
qed

end
