(* ===== verification/EpochExamples.thy ===== *)
theory EpochExamples
  imports RegistryUpdateSpec ShuffleSpec "HOL-Library.Code_Target_Nat"
begin

unbundle bit_operations_syntax

text \<open>
  A concrete beacon state with its context and libraries, at which the properties of shuffling and of epoch
  transitions are applied.
\<close>

section \<open>The libraries\<close>

definition ex_hash :: hash where
  "ex_hash x = replicate 32 (of_nat (length x))"

definition ex_forks :: fork_settings where
  "ex_forks = \<lparr>GENESIS_FORK_VERSION = [0, 0, 0, 0], ALTAIR_FORK_EPOCH = 2, ALTAIR_FORK_VERSION = [1, 0, 0, 0],
     BELLATRIX_FORK_EPOCH = \<infinity>, BELLATRIX_FORK_VERSION = [2, 0, 0, 0]\<rparr>"

definition ex_config :: state_config where
  "ex_config = \<lparr>sc_forks = ex_forks, MIN_PER_EPOCH_CHURN_LIMIT = 4, CHURN_LIMIT_QUOTIENT = 65536,
     EJECTION_BALANCE = 16000000000, MIN_VALIDATOR_WITHDRAWABILITY_DELAY = 256, SHARD_COMMITTEE_PERIOD = 256,
     INACTIVITY_SCORE_BIAS = 4, INACTIVITY_SCORE_RECOVERY_RATE = 16, sc_SECONDS_PER_SLOT = 12\<rparr>"

definition ex_config_lib :: config_lib where
  "ex_config_lib = \<lparr>forkDataHashTreeRoot = (\<lambda>v r. take 4 (v @ replicate 4 0) @ take 28 r), sszToHexString = (\<lambda>bs. map (\<lambda>b. CHR ''0'') bs)\<rparr>"

text \<open>Roots are short texts of bytes, and a signature is the key with the message.\<close>

definition ex_lib :: st_lib where
  "ex_lib = \<lparr>sl_hash = ex_hash, sl_digest64 = (\<lambda>bs. of_nat (length bs) # bs), sl_xor = map2 (XOR),
     sl_addDelta = (\<lambda>b d. nat (int b + d)),
     sl_config = ex_config_lib, sl_genesis = createICachedGenesis ex_config_lib ex_forks (replicate 32 1),
     sl_signingDataRoot = (\<lambda>r d. r @ d), sl_headerRoot = (\<lambda>h. of_nat (bh_slot h) # bh_stateRoot h @ bh_bodyRoot h),
     sl_epochRoot = (\<lambda>e. [of_nat e]), sl_exitRoot = (\<lambda>e. [of_nat (ve_epoch e), of_nat (ve_validatorIndex e)]),
     sl_attestationDataRoot = (\<lambda>d. of_nat (ad_slot d) # of_nat (ad_index d) # ad_beaconBlockRoot d),
     sl_depositMessageRoot = (\<lambda>k c a. of_nat a # k @ c), sl_depositDataRoot = (\<lambda>d. of_nat (dd_amount d) # dd_pubkey d),
     sl_blockRoot = (\<lambda>f b. of_nat (bl_slot b) # bl_parentRoot b), sl_bodyRoot = (\<lambda>f b. bo_randaoReveal b),
     sl_stateRoot = (\<lambda>f s. [of_nat (ts_slot s)]), sl_historicalBatchRoot = (\<lambda>b s. [3]), sl_rootRoot = (\<lambda>r. r), sl_eth1DataRoot = (\<lambda>d. of_nat (e1_depositCount d) # e1_depositRoot d @ e1_blockHash d),
     sl_transactionsRoot = concat,
     sl_publicKeyFromBytes = (\<lambda>pk. Some pk), sl_signatureFromBytes = (\<lambda>sig. if sig = [] then None else Some sig),
     sl_verify = (\<lambda>sig pk m. map_option (\<lambda>k. sig = k @ m) pk),
     sl_verifyAggregate = (\<lambda>sig pks m. if None \<in> set pks then None else Some (sig = concat (map the pks) @ m)),
     sl_aggregatePublicKeys = (\<lambda>pks. Some (concat pks))\<rparr>"

section \<open>The state\<close>

definition ex_validator :: "8 word \<Rightarrow> nat \<Rightarrow> enat \<Rightarrow> enat \<Rightarrow> enat \<Rightarrow> validator" where
  "ex_validator k b eligible active exit =
     \<lparr>v_pubkey = [k], v_withdrawalCredentials = [], v_effectiveBalance = b, v_slashed = False,
      v_activationEligibilityEpoch = eligible, v_activationEpoch = active, v_exitEpoch = exit, v_withdrawableEpoch = exit\<rparr>"

text \<open>Two active validators, one to be ejected, one that waits in the activation queue, and one that joins it.\<close>

definition ex_validators :: "validator list" where
  "ex_validators = [ex_validator 1 32000000000 0 0 \<infinity>, ex_validator 2 32000000000 0 0 \<infinity>,
     ex_validator 3 16000000000 0 0 \<infinity>, ex_validator 4 32000000000 1 \<infinity> \<infinity>, ex_validator 5 32000000000 \<infinity> \<infinity> \<infinity>]"

definition ex_shuffling :: "epoch \<Rightarrow> epoch_shuffling" where
  "ex_shuffling e = \<lparr>es_epoch = e, es_activeIndices = [0, 1, 2], es_shuffling = [2, 0, 1],
     es_committees = replicate 10 [[]] @ [[[2]]] @ replicate 10 [[]] @ [[[0]]] @ replicate 9 [[]] @ [[[1]]], es_committeesPerSlot = 1\<rparr>"

definition ex_ctx :: epoch_ctx where
  "ex_ctx = \<lparr>ec_pubkey2index = [([1], 0), ([2], 1), ([3], 2), ([4], 3), ([5], 4)], ec_index2pubkey = [[1], [2], [3], [4], [5]],
     ec_proposers = replicate 32 0, ec_previousShuffling = ex_shuffling 2, ec_currentShuffling = ex_shuffling 3,
     ec_nextShuffling = ex_shuffling 4, ec_effectiveBalanceIncrements = [32, 32, 16, 32, 32], ec_syncParticipantReward = 0,
     ec_syncProposerReward = 0, ec_baseRewardPerIncrement = 10, ec_totalActiveBalanceIncrements = 80, ec_churnLimit = 4,
     ec_exitQueueEpoch = 8, ec_exitQueueChurn = 0, ec_currentSyncCommitteeIndexed = None, ec_nextSyncCommitteeIndexed = None,
     ec_epoch = 3, ec_syncPeriod = 0\<rparr>"

definition ex_checkpoint :: "epoch \<Rightarrow> root_checkpoint" where
  "ex_checkpoint e = \<lparr>rc_epoch = e, rc_root = [of_nat e]\<rparr>"

definition ex_committee :: sync_committee where
  "ex_committee = \<lparr>sc_pubkeys = replicate 512 [1], sc_aggregatePubkey = [1]\<rparr>"

definition ex_payload_header :: payload_header where
  "ex_payload_header = \<lparr>xp_parentHash = [1], xp_feeRecipient = [], xp_stateRoot = [], xp_receiptsRoot = [], xp_logsBloom = [],
     xp_prevRandao = [], xp_blockNumber = 0, xp_gasLimit = 0, xp_gasUsed = 0, xp_timestamp = 0, xp_extraData = [],
     xp_baseFeePerGas = 0, xp_blockHash = [2], xp_transactionsRoot = []\<rparr>"

text \<open>The last slot of epoch 3; validators 0 and 1 voted for source, target and head.\<close>

definition ex_state :: cached_state where
  "ex_state = \<lparr>ts_genesisTime = 0, ts_slot = 127,
     ts_fork = \<lparr>fd_previousVersion = [0, 0, 0, 0], fd_currentVersion = [1, 0, 0, 0], fd_epoch = 2\<rparr>,
     ts_latestBlockHeader = \<lparr>bh_slot = 126, bh_proposerIndex = 0, bh_parentRoot = [9], bh_stateRoot = [8], bh_bodyRoot = [7]\<rparr>,
     ts_blockRoots = replicate SLOTS_PER_HISTORICAL_ROOT [6], ts_stateRoots = replicate SLOTS_PER_HISTORICAL_ROOT [5],
     ts_historicalRoots = [], ts_eth1Data = \<lparr>e1_depositRoot = [4], e1_depositCount = 5, e1_blockHash = [3]\<rparr>,
     ts_eth1DataVotes = [], ts_eth1DepositIndex = 5, ts_validators = ex_validators,
     ts_balances = [31700000000, 32500000000, 16000000000, 32000000000, 32000000000],
     ts_randaoMixes = replicate EPOCHS_PER_HISTORICAL_VECTOR (replicate 32 0),
     ts_slashings = replicate EPOCHS_PER_SLASHINGS_VECTOR 0, ts_previousEpochAttestations = [],
     ts_currentEpochAttestations = [], ts_previousEpochParticipation = [7, 7, 0, 0, 0],
     ts_currentEpochParticipation = [7, 7, 0, 0, 0], ts_justificationBits = [True, True, True, False],
     ts_previousJustifiedCheckpoint = ex_checkpoint 1, ts_currentJustifiedCheckpoint = ex_checkpoint 2,
     ts_finalizedCheckpoint = ex_checkpoint 1, ts_inactivityScores = [0, 0, 4, 0, 0],
     ts_currentSyncCommittee = ex_committee, ts_nextSyncCommittee = ex_committee,
     ts_latestExecutionPayloadHeader = ex_payload_header, epochCtx = ex_ctx\<rparr>"

text \<open>The fields, so that the long vectors need not be written out.\<close>

lemma ex_state_fields [simp]:
  "ts_slot ex_state = 127" "ts_validators ex_state = ex_validators" "epochCtx ex_state = ex_ctx"
  "ts_balances ex_state = [31700000000, 32500000000, 16000000000, 32000000000, 32000000000]"
  "ts_previousEpochParticipation ex_state = [7, 7, 0, 0, 0]" "ts_currentEpochParticipation ex_state = [7, 7, 0, 0, 0]"
  "ts_justificationBits ex_state = [True, True, True, False]" "ts_inactivityScores ex_state = [0, 0, 4, 0, 0]"
  "ts_previousJustifiedCheckpoint ex_state = ex_checkpoint 1" "ts_currentJustifiedCheckpoint ex_state = ex_checkpoint 2"
  "ts_finalizedCheckpoint ex_state = ex_checkpoint 1" "ts_eth1DepositIndex ex_state = 5"
  "ts_eth1Data ex_state = \<lparr>e1_depositRoot = [4], e1_depositCount = 5, e1_blockHash = [3]\<rparr>" "ts_eth1DataVotes ex_state = []"
  by (simp_all add: ex_state_def)

lemma ex_state_roots: "e \<le> 3 \<Longrightarrow> st_getBlockRoot ex_state e = Inr [6]"
  by (auto simp: st_getBlockRoot_def st_getBlockRootAtSlot_def ex_state_def computeStartSlotAtEpoch_def SLOTS_PER_EPOCH_def
      SLOTS_PER_HISTORICAL_ROOT_def)

section \<open>The preparation of the epoch transition\<close>

lemma ex_statuses: "epochStatuses ex_config ex_state = Inr (map (\<lambda>(f, a). \<lparr>as_flags = f, as_proposerIndex = -1,
    as_inclusionDelay = 0, as_active = a\<rparr>) [(255, True), (255, True), (192, True), (64, False), (64, False)])"
proof -
  have "getForkName (sc_forks ex_config) 127 = Altair"
    by code_simp
  moreover have "(let vs = ex_validators; statuses = map (initialStatus 2 3) vs in
      bind_res (participationFlags [7, 7, 0, 0, 0] (map (\<lambda>v. isActiveValidator v 2) vs) 0 statuses)
        (participationFlags [7, 7, 0, 0, 0] (map (\<lambda>v. isActiveValidator v 3) vs) 3)) =
    Inr (map (\<lambda>(f, a). \<lparr>as_flags = f, as_proposerIndex = -1,
      as_inclusionDelay = 0, as_active = a\<rparr>) [(255, True), (255, True), (192, True), (64, False), (64, False)])"
    by code_simp
  ultimately show ?thesis
    by (simp add: epochStatuses_def ex_ctx_def ex_shuffling_def Let_def)
qed

definition ex_process :: epoch_process where
  "ex_process = (case beforeProcessEpoch ex_config ex_state of Inr p \<Rightarrow> p | Inl _ \<Rightarrow> undefined)"

lemma ex_total: "boundedTotal (sum_list (map incrementsOf (filter (\<lambda>v. isActiveValidator v 3) ex_validators))) = Inr 80"
  by code_simp

lemma ex_process: "beforeProcessEpoch ex_config ex_state = Inr ex_process"
  by (simp add: ex_process_def beforeProcessEpoch_def ex_statuses ex_ctx_def ex_shuffling_def Let_def ex_total)

lemma ex_process_fields [simp]:
  "pr_prevEpoch ex_process = 2" "pr_currentEpoch ex_process = 3" "pr_totalActiveStakeByIncrement ex_process = 80"
  "pr_targetStakeByIncrement ex_process = 64" "pr_currTargetStakeByIncrement ex_process = 64" "pr_balances ex_process = None"
proof -
  let ?st = "map (\<lambda>(f, a). \<lparr>as_flags = f, as_proposerIndex = -1, as_inclusionDelay = 0, as_active = a\<rparr>)
    [(255, True), (255, True), (192, True), (64, False), (64, False)]"
  have stakes: "stakeOf FLAG_PREV_TARGET_ATTESTER_OR_UNSLASHED ?st ex_validators = 64"
    "stakeOf (FLAG_CURR_TARGET_ATTESTER OR FLAG_UNSLASHED) ?st ex_validators = 64"
    by code_simp+
  show "pr_prevEpoch ex_process = 2" "pr_currentEpoch ex_process = 3" "pr_totalActiveStakeByIncrement ex_process = 80"
    "pr_targetStakeByIncrement ex_process = 64" "pr_currTargetStakeByIncrement ex_process = 64" "pr_balances ex_process = None"
    using stakes
    by (simp_all add: ex_process_def beforeProcessEpoch_def ex_statuses ex_ctx_def ex_shuffling_def Let_def ex_total)
qed

text \<open>Epoch 2 and epoch 3 are justified again, and epoch 2 is finalized.\<close>

lemma ex_justified: "\<exists>s. processJustificationAndFinalization (ex_process, ex_state) = Inr (ex_process, s)"
  by (simp add: processJustificationAndFinalization_def Let_def justifyEpoch_def reachesSupermajority_def GENESIS_EPOCH_def
      ex_state_roots)

lemma ex_queue: "queueOk 3 ex_ctx ex_validators" "0 < ec_churnLimit ex_ctx"
proof -
  have "specQueueEpoch 3 ex_validators = 8 \<and> specQueueChurn 3 ex_validators = 0"
    by code_simp
  then show "queueOk 3 ex_ctx ex_validators" "0 < ec_churnLimit ex_ctx"
    by (simp_all add: queueOk_def queueExact_def ex_ctx_def)
qed

section \<open>Witnesses\<close>

theorem unshuffleList_index_witness: "\<exists>ys. unshuffleList ex_hash [4, 5, 6 :: nat] (replicate 32 1) = Inr ys \<and> length ys = 3"
  using unshuffleList_index [of "replicate 32 1" "[4, 5, 6 :: nat]" ex_hash] by auto

theorem shuffleList_unshuffleList_witness:
  "\<exists>ys. unshuffleList ex_hash [4, 5, 6 :: nat] (replicate 32 1) = Inr ys \<and> mset ys = {#4, 5, 6#} \<and>
    shuffleList ex_hash ys (replicate 32 1) = Inr [4, 5, 6]"
  using shuffleList_unshuffleList [of "replicate 32 1" "[4, 5, 6 :: nat]" ex_hash] by simp

theorem epochShuffling_partition_witness:
  "\<exists>es. computeEpochShuffling ex_hash ex_state [0, 1, 2] 5 = Inr es \<and> mset (concat (concat (es_committees es))) = {#0, 1, 2#}"
  using epochShuffling_partition [of ex_hash "[0, 1, 2]" ex_state 5] by (auto simp: ex_hash_def)

theorem committee_sizes_witness:
  "\<exists>es c. computeEpochShuffling ex_hash ex_state [0, 1, 2] 5 = Inr es \<and> c \<in> set (es_committees es ! 0) \<and>
     length c \<le> MAX_VALIDATORS_PER_COMMITTEE"
proof -
  have hash: "\<forall>x. length (ex_hash x) = 32" by (simp add: ex_hash_def)
  obtain es where es: "computeEpochShuffling ex_hash ex_state [0, 1, 2] 5 = Inr es" "es_committees es \<noteq> []"
      "hd (es_committees es) \<noteq> []"
    by (rule computeEpochShuffling_eq [of ex_hash "[0, 1, 2]" ex_state 5])
      (auto simp: ex_hash_def hd_map SLOTS_PER_EPOCH_def computeCommitteeCount_def Let_def)
  then have "es_committees es ! 0 \<in> set (es_committees es)" "hd (es_committees es ! 0) \<in> set (es_committees es ! 0)"
    by (auto simp: hd_conv_nth)
  from committee_sizes [OF hash _ es(1) this] es(1) this show ?thesis
    by (auto simp: MAX_COMMITTEES_PER_SLOT_def SLOTS_PER_EPOCH_def MAX_VALIDATORS_PER_COMMITTEE_def)
qed

theorem computeProposerIndex_witness:
  "\<exists>p. computeProposerIndex ex_hash [32, 16, 32] [0, 1, 2] (replicate 32 1) = Inr p \<and> p \<in> {0, 1, 2}"
  using computeProposerIndex_spec [of "[0, 1, 2]" ex_hash "[32, 16, 32]" "replicate 32 1"]
  by (auto simp: ex_hash_def MAX_EFFECTIVE_BALANCE_INCREMENT_def MAX_EFFECTIVE_BALANCE_def EFFECTIVE_BALANCE_INCREMENT_def)

theorem syncCommittee_terminates_witness:
  "\<exists>is. length is = 512 \<and> getNextSyncCommitteeIndices ex_hash 2000 ex_state [0, 1, 2] [32, 16, 32] = Some (Inr is)"
  using syncCommittee_terminates [of 0 "[0, 1, 2]" ex_hash "[32, 16, 32]" ex_state]
  by (auto simp: ex_hash_def MAX_EFFECTIVE_BALANCE_INCREMENT_def MAX_EFFECTIVE_BALANCE_def EFFECTIVE_BALANCE_INCREMENT_def
      SYNC_COMMITTEE_SIZE_def)

definition ex_opts :: ctx_opts where
  "ex_opts = \<lparr>co_pubkey2index = [], co_index2pubkey = [], co_skipSyncPubkeys = False, co_skipSyncCommitteeCache = True\<rparr>"

lemma ex_active: "getActiveValidatorIndices ex_state 3 = [0, 1, 2]"
proof -
  have "activeFrom 0 ex_validators 3 = [0, 1, 2]"
    by code_simp
  then show ?thesis
    by (simp add: getActiveValidatorIndices_def)
qed

theorem createFromState_total_witness: "\<exists>c. createFromState ex_hash ex_config ex_state ex_opts = Inr c"
  using createFromState_total [of ex_hash ex_state ex_opts ex_config]
  by (simp add: ex_hash_def ex_active ex_opts_def jm_size_def computeEpochAtSlot_def SLOTS_PER_EPOCH_def ex_validators_def)

theorem createFromState_spec_witness:
  "\<exists>c. createFromState ex_hash ex_config ex_state ex_opts = Inr c \<and> queueOk 3 c ex_validators \<and>
     es_activeIndices (ec_currentShuffling c) = [0, 1, 2]"
proof -
  obtain c where c: "createFromState ex_hash ex_config ex_state ex_opts = Inr c"
    using createFromState_ok [of ex_hash ex_state ex_opts ex_config]
    by (auto simp: ex_hash_def ex_active ex_opts_def jm_size_def computeEpochAtSlot_def SLOTS_PER_EPOCH_def ex_validators_def)
  with createFromState_spec [OF c] show ?thesis
    by (auto simp: Let_def ex_active computeEpochAtSlot_def SLOTS_PER_EPOCH_def)
qed

theorem exit_refines_witness:
  "\<exists>t. initiateValidatorExit ex_config 0 ex_state = Inr t \<and> queueOk 3 (epochCtx t) (ts_validators t)"
  using exit_refines [of 3 ex_state 0 ex_config] ex_queue
  by (auto simp: ex_validators_def ex_validator_def FAR_FUTURE_EPOCH_def Let_def)

theorem finality_monotone_witness:
  "\<exists>s. processJustificationAndFinalization (ex_process, ex_state) = Inr (ex_process, s) \<and> checkpointsOk 3 s"
  using finality_monotone [of ex_process ex_state] ex_justified
  by (auto simp: checkpointsOk_def ex_checkpoint_def)

theorem effectiveBalance_hysteresis_witness:
  "\<exists>p s. processEffectiveBalanceUpdates (ex_process, ex_state) = (p, s) \<and> balancesOk s"
proof -
  have "list_all2 (\<lambda>v w. v_effectiveBalance v = unat w * EFFECTIVE_BALANCE_INCREMENT \<and> v_effectiveBalance v \<le> MAX_EFFECTIVE_BALANCE)
      ex_validators (ec_effectiveBalanceIncrements ex_ctx)"
    by code_simp
  moreover have "length ex_validators = 5"
    by (simp add: ex_validators_def)
  ultimately have "balancesOk ex_state"
    by (auto simp: balancesOk_def list_all2_conv_all_nth)
  then show ?thesis
    using effectiveBalance_hysteresis [of ex_state "ts_balances ex_state" ex_process] by (auto simp: ex_validators_def)
qed

theorem processRegistryUpdates_witness:
  "\<exists>p1 s1 p3 s3. processJustificationAndFinalization (ex_process, ex_state) = Inr (p1, s1) \<and>
    processRegistryUpdates ex_config (processRewardsAndPenaltiesAllForks ex_lib ex_config Phase0 (p1, s1)) = Inr (p3, s3) \<and>
    ts_validators s3 = specRegistryUpdates ex_config 3 4 (rc_epoch (ts_finalizedCheckpoint s1)) ex_validators"
proof -
  from ex_justified obtain s1 where s1: "processJustificationAndFinalization (ex_process, ex_state) = Inr (ex_process, s1)" by blast
  moreover have "checkpointsOk (pr_prevEpoch ex_process) ex_state" "EJECTION_BALANCE ex_config < MAX_EFFECTIVE_BALANCE"
      "ec_churnLimit ex_ctx = 4"
    by (simp_all add: checkpointsOk_def ex_checkpoint_def ex_config_def MAX_EFFECTIVE_BALANCE_def ex_ctx_def)
  ultimately show ?thesis
    using processRegistryUpdates_refines [OF ex_process s1, of Phase0 ex_process s1 ex_lib] ex_queue by auto
qed

end
