(* ===== verification/SignatureSets.thy ===== *)
theory SignatureSets
  imports ValidatorRegistry
begin

text \<open>
  The signatures of a block (\<open>packages/beacon-state-transition/src/allForks/signatureSets\<close>,
  \<open>altair/block/processSyncCommittee.ts\<close>, \<open>util/signatureSets.ts\<close>, \<open>util/signingRoot.ts\<close>): for each of them
  the keys, the root that is signed and the signature, which the BLS library verifies.
\<close>

section \<open>Verification\<close>

definition computeSigningRoot :: "st_lib \<Rightarrow> ('a \<Rightarrow> root) \<Rightarrow> 'a \<Rightarrow> bytes \<Rightarrow> root" where
  "computeSigningRoot lib hashTreeRoot sszObject domain = sl_signingDataRoot lib (hashTreeRoot sszObject) domain"

definition fromLibrary :: "'a option \<Rightarrow> st_error + 'a" where
  "fromLibrary r = (case r of None \<Rightarrow> Inl LibraryError | Some x \<Rightarrow> Inr x)"

definition verifySignatureSet :: "st_lib \<Rightarrow> signature_set \<Rightarrow> st_error + bool" where
  "verifySignatureSet lib signatureSet =
     (case signatureSet of
        SingleSignature pubkey signingRoot signature \<Rightarrow>
          bind_res (fromLibrary (sl_signatureFromBytes lib signature)) (\<lambda>sig.
            fromLibrary (sl_verify lib sig pubkey signingRoot))
      | AggregateSignature keys signingRoot signature \<Rightarrow>
          bind_res (fromLibrary (sl_signatureFromBytes lib signature)) (\<lambda>sig.
            fromLibrary (sl_verifyAggregate lib sig keys signingRoot)))"

text \<open>\<open>state.config.getDomain\<close>; the cache of the configuration does not change its value.\<close>

definition stateDomain :: "st_lib \<Rightarrow> bytes \<Rightarrow> slot \<Rightarrow> bytes" where
  "stateDomain lib domainType s = fst (getDomain (sl_config lib) domainType s (sl_genesis lib))"

definition pubkeyAt :: "cached_state \<Rightarrow> nat \<Rightarrow> pubkey option" where
  "pubkeyAt s i = nth_opt (ec_index2pubkey (epochCtx s)) i"

section \<open>The proposer\<close>

definition getProposerSignatureSet :: "st_lib \<Rightarrow> state_config \<Rightarrow> cached_state \<Rightarrow> signed_block \<Rightarrow> signature_set" where
  "getProposerSignatureSet lib config s signedBlock =
     (let block = sb_message signedBlock;
          domain = stateDomain lib DOMAIN_BEACON_PROPOSER (bl_slot block)
      in SingleSignature (pubkeyAt s (bl_proposerIndex block))
           (computeSigningRoot lib (sl_blockRoot lib (getForkName (sc_forks config) (bl_slot block))) block domain)
           (sb_signature signedBlock))"

definition verifyProposerSignature :: "st_lib \<Rightarrow> state_config \<Rightarrow> cached_state \<Rightarrow> signed_block \<Rightarrow> st_error + bool" where
  "verifyProposerSignature lib config s signedBlock =
     verifySignatureSet lib (getProposerSignatureSet lib config s signedBlock)"

definition getRandaoRevealSignatureSet :: "st_lib \<Rightarrow> cached_state \<Rightarrow> st_block \<Rightarrow> signature_set" where
  "getRandaoRevealSignatureSet lib s block =
     (let e = computeEpochAtSlot (bl_slot block);
          domain = stateDomain lib DOMAIN_RANDAO (bl_slot block)
      in SingleSignature (pubkeyAt s (bl_proposerIndex block))
           (computeSigningRoot lib (sl_epochRoot lib) e domain) (bo_randaoReveal (bl_body block)))"

definition verifyRandaoSignature :: "st_lib \<Rightarrow> cached_state \<Rightarrow> st_block \<Rightarrow> st_error + bool" where
  "verifyRandaoSignature lib s block = verifySignatureSet lib (getRandaoRevealSignatureSet lib s block)"

section \<open>Slashings\<close>

definition getProposerSlashingSignatureSets :: "st_lib \<Rightarrow> cached_state \<Rightarrow> proposer_slashing \<Rightarrow> signature_set list" where
  "getProposerSlashingSignatureSets lib s proposerSlashing =
     (let pubkey = pubkeyAt s (bh_proposerIndex (sg_message (psl_signedHeader1 proposerSlashing)))
      in map (\<lambda>signedHeader.
           let domain = stateDomain lib DOMAIN_BEACON_PROPOSER (bh_slot (sg_message signedHeader))
           in SingleSignature pubkey (computeSigningRoot lib (sl_headerRoot lib) (sg_message signedHeader) domain)
                (sg_signature signedHeader))
         [psl_signedHeader1 proposerSlashing, psl_signedHeader2 proposerSlashing])"

definition getProposerSlashingsSignatureSets :: "st_lib \<Rightarrow> cached_state \<Rightarrow> signed_block \<Rightarrow> signature_set list" where
  "getProposerSlashingsSignatureSets lib s signedBlock =
     concat (map (getProposerSlashingSignatureSets lib s) (bo_proposerSlashings (bl_body (sb_message signedBlock))))"

text \<open>The attestation gives its data and its signature; the indices are those of the caller.\<close>

definition getAttestationWithIndicesSignatureSet :: "st_lib \<Rightarrow> cached_state \<Rightarrow> attestation_data \<Rightarrow> bytes \<Rightarrow> nat list \<Rightarrow>
    signature_set" where
  "getAttestationWithIndicesSignatureSet lib s data signature indices =
     (let domain = stateDomain lib DOMAIN_BEACON_ATTESTER (computeStartSlotAtEpoch (rc_epoch (ad_target data)))
      in AggregateSignature (map (pubkeyAt s) indices)
           (computeSigningRoot lib (sl_attestationDataRoot lib) data domain) signature)"

definition getIndexedAttestationSignatureSet :: "st_lib \<Rightarrow> cached_state \<Rightarrow> indexed_att \<Rightarrow> nat list option \<Rightarrow> signature_set" where
  "getIndexedAttestationSignatureSet lib s indexedAttestation indices =
     getAttestationWithIndicesSignatureSet lib s (ix_data indexedAttestation) (ix_signature indexedAttestation)
       (case indices of Some is \<Rightarrow> is | None \<Rightarrow> ix_attestingIndices indexedAttestation)"

definition verifyIndexedAttestationSignature :: "st_lib \<Rightarrow> cached_state \<Rightarrow> indexed_att \<Rightarrow> nat list option \<Rightarrow> st_error + bool" where
  "verifyIndexedAttestationSignature lib s indexedAttestation indices =
     verifySignatureSet lib (getIndexedAttestationSignatureSet lib s indexedAttestation indices)"

definition getAttestationsSignatureSets :: "st_lib \<Rightarrow> cached_state \<Rightarrow> signed_block \<Rightarrow> st_error + signature_set list" where
  "getAttestationsSignatureSets lib s signedBlock =
     map_res (\<lambda>att. bind_res (getIndexedAttestation (epochCtx s) att) (\<lambda>indexed.
         Inr (getIndexedAttestationSignatureSet lib s indexed None)))
       (bo_attestations (bl_body (sb_message signedBlock)))"

definition getAttesterSlashingSignatureSets :: "st_lib \<Rightarrow> cached_state \<Rightarrow> attester_slashing \<Rightarrow> signature_set list" where
  "getAttesterSlashingSignatureSets lib s attesterSlashing =
     map (\<lambda>att. getIndexedAttestationSignatureSet lib s att None)
       [asl_attestation1 attesterSlashing, asl_attestation2 attesterSlashing]"

definition getAttesterSlashingsSignatureSets :: "st_lib \<Rightarrow> cached_state \<Rightarrow> signed_block \<Rightarrow> signature_set list" where
  "getAttesterSlashingsSignatureSets lib s signedBlock =
     concat (map (getAttesterSlashingSignatureSets lib s) (bo_attesterSlashings (bl_body (sb_message signedBlock))))"

section \<open>Voluntary exits\<close>

definition getVoluntaryExitSignatureSet :: "st_lib \<Rightarrow> cached_state \<Rightarrow> signed_voluntary_exit \<Rightarrow> signature_set" where
  "getVoluntaryExitSignatureSet lib s signedVoluntaryExit =
     (let voluntaryExit = sv_message signedVoluntaryExit;
          domain = stateDomain lib DOMAIN_VOLUNTARY_EXIT (computeStartSlotAtEpoch (ve_epoch voluntaryExit))
      in SingleSignature (pubkeyAt s (ve_validatorIndex voluntaryExit))
           (computeSigningRoot lib (sl_exitRoot lib) voluntaryExit domain) (sv_signature signedVoluntaryExit))"

definition verifyVoluntaryExitSignature :: "st_lib \<Rightarrow> cached_state \<Rightarrow> signed_voluntary_exit \<Rightarrow> st_error + bool" where
  "verifyVoluntaryExitSignature lib s signedVoluntaryExit =
     verifySignatureSet lib (getVoluntaryExitSignatureSet lib s signedVoluntaryExit)"

definition getVoluntaryExitsSignatureSets :: "st_lib \<Rightarrow> cached_state \<Rightarrow> signed_block \<Rightarrow> signature_set list" where
  "getVoluntaryExitsSignatureSets lib s signedBlock =
     map (getVoluntaryExitSignatureSet lib s) (bo_voluntaryExits (bl_body (sb_message signedBlock)))"

section \<open>Sync committees\<close>

definition G2_POINT_AT_INFINITY :: bytes where
  "G2_POINT_AT_INFINITY = 192 # replicate 95 0"

text \<open>Reading the committee of \<open>SyncCommitteeCacheEmpty\<close> throws.\<close>

definition currentCommittee :: "cached_state \<Rightarrow> st_error + nat list" where
  "currentCommittee s =
     (case ec_currentSyncCommitteeIndexed (epochCtx s) of
        None \<Rightarrow> Inl EmptySyncCommitteeCache
      | Some c \<Rightarrow> Inr (validatorIndices c))"

definition zipAllIndexesSyncCommitteeBits :: "nat list \<Rightarrow> bool list \<Rightarrow> nat list \<times> nat list" where
  "zipAllIndexesSyncCommitteeBits indexes bits = zipIndexes indexes bits"

definition zipIndexesSyncCommitteeBits :: "nat list \<Rightarrow> bool list \<Rightarrow> nat list" where
  "zipIndexesSyncCommitteeBits indexes bits = fst (zipIndexes indexes bits)"

definition getParticipantIndices :: "cached_state \<Rightarrow> sync_aggregate \<Rightarrow> st_error + nat list" where
  "getParticipantIndices s aggregate =
     bind_res (currentCommittee s) (\<lambda>committeeIndices.
       Inr (zipIndexesSyncCommitteeBits committeeIndices (syncCommitteeBits aggregate)))"

definition getParticipantInfo :: "cached_state \<Rightarrow> sync_aggregate \<Rightarrow> st_error + nat list \<times> nat list" where
  "getParticipantInfo s aggregate =
     bind_res (currentCommittee s) (\<lambda>committeeIndices.
       Inr (zipAllIndexesSyncCommitteeBits committeeIndices (syncCommitteeBits aggregate)))"

definition getSyncCommitteeSignatureSet :: "st_lib \<Rightarrow> cached_state \<Rightarrow> st_block \<Rightarrow> nat list option \<Rightarrow>
    st_error + signature_set option" where
  "getSyncCommitteeSignatureSet lib s block participantIndices =
     (let aggregate = bo_syncAggregate (bl_body block);
          signature = syncCommitteeSignature aggregate;
          previousSlot = max (bl_slot block) 1 - 1
      in bind_res (st_getBlockRootAtSlot s previousSlot) (\<lambda>rootSigned.
         bind_res (case participantIndices of Some is \<Rightarrow> Inr is | None \<Rightarrow> getParticipantIndices s aggregate) (\<lambda>indices.
         if indices = [] then
           if signature = G2_POINT_AT_INFINITY then Inr None else Inl EmptySyncSignatureNotInfinity
         else
           let domain = stateDomain lib DOMAIN_SYNC_COMMITTEE previousSlot
           in Inr (Some (AggregateSignature (map (pubkeyAt s) indices)
                (computeSigningRoot lib (sl_rootRoot lib) rootSigned domain) signature)))))"

section \<open>All signatures of a block\<close>

definition getAllBlockSignatureSetsExceptProposer :: "st_lib \<Rightarrow> state_config \<Rightarrow> cached_state \<Rightarrow> signed_block \<Rightarrow>
    st_error + signature_set list" where
  "getAllBlockSignatureSetsExceptProposer lib config s signedBlock =
     bind_res (getAttestationsSignatureSets lib s signedBlock) (\<lambda>attestationSets.
     let signatureSets = [getRandaoRevealSignatureSet lib s (sb_message signedBlock)] @
           getProposerSlashingsSignatureSets lib s signedBlock @ getAttesterSlashingsSignatureSets lib s signedBlock @
           attestationSets @ getVoluntaryExitsSignatureSets lib s signedBlock
     in if enat (computeEpochAtSlot (bl_slot (sb_message signedBlock))) \<ge> ALTAIR_FORK_EPOCH (sc_forks config)
        then bind_res (getSyncCommitteeSignatureSet lib s (sb_message signedBlock) None) (\<lambda>syncSet.
          Inr (case syncSet of None \<Rightarrow> signatureSets | Some syncSignature \<Rightarrow> signatureSets @ [syncSignature]))
        else Inr signatureSets)"

definition getAllBlockSignatureSets :: "st_lib \<Rightarrow> state_config \<Rightarrow> cached_state \<Rightarrow> signed_block \<Rightarrow>
    st_error + signature_set list" where
  "getAllBlockSignatureSets lib config s signedBlock =
     bind_res (getAllBlockSignatureSetsExceptProposer lib config s signedBlock) (\<lambda>sets.
       Inr (getProposerSignatureSet lib config s signedBlock # sets))"

end
