(* ===== verification/BlockOperations.thy ===== *)
theory BlockOperations
  imports SignatureSets
begin

text \<open>
  The steps of a block that all forks share (\<open>packages/beacon-state-transition/src/allForks/block\<close>) and the
  execution payload of bellatrix (\<open>bellatrix/block/processExecutionPayload.ts\<close>, \<open>bellatrix/utils.ts\<close>).
\<close>

section \<open>The header\<close>

definition processBlockHeader :: "st_lib \<Rightarrow> state_config \<Rightarrow> cached_state \<Rightarrow> st_block \<Rightarrow> st_error + cached_state" where
  "processBlockHeader lib config s block =
     (let slt = ts_slot s
      in if bl_slot block \<noteq> slt then Inl (BlockSlotMismatch (bl_slot block) slt)
         else if \<not> bl_slot block > bh_slot (ts_latestBlockHeader s)
           then Inl (BlockNotNewer (bl_slot block) (bh_slot (ts_latestBlockHeader s)))
         else bind_res (getBeaconProposer (epochCtx s) slt) (\<lambda>proposerIndex.
           if int (bl_proposerIndex block) \<noteq> proposerIndex then Inl (WrongProposer (bl_proposerIndex block) proposerIndex)
           else if bl_parentRoot block \<noteq> sl_headerRoot lib (ts_latestBlockHeader s) then Inl ParentRootMismatch
           else
             let s1 = s\<lparr>ts_latestBlockHeader :=
                   \<lparr>bh_slot = slt, bh_proposerIndex = bl_proposerIndex block, bh_parentRoot = bl_parentRoot block,
                    bh_stateRoot = ZERO_HASH,
                    bh_bodyRoot = sl_bodyRoot lib (getForkName (sc_forks config) slt) (bl_body block)\<rparr>\<rparr>
             in bind_res (getValidator (bl_proposerIndex block) s1) (\<lambda>proposer.
                  if v_slashed proposer then Inl ProposerSlashed else Inr s1)))"

section \<open>Randao\<close>

definition processRandao :: "st_lib \<Rightarrow> cached_state \<Rightarrow> st_block \<Rightarrow> bool \<Rightarrow> st_error + cached_state" where
  "processRandao lib s block verifySig =
     (let e = es_epoch (ec_currentShuffling (epochCtx s));
          randaoReveal = bo_randaoReveal (bl_body block)
      in bind_res (if verifySig then verifyRandaoSignature lib s block else Inr True) (\<lambda>valid.
         if \<not> valid then Inl InvalidRandao
         else Inr (s\<lparr>ts_randaoMixes := (ts_randaoMixes s)[e mod EPOCHS_PER_HISTORICAL_VECTOR :=
             sl_xor lib (getRandaoMix s e) (sl_hash lib randaoReveal)]\<rparr>)))"

section \<open>Votes for eth1 data\<close>

definition SLOTS_PER_ETH1_VOTING_PERIOD :: nat where
  "SLOTS_PER_ETH1_VOTING_PERIOD = EPOCHS_PER_ETH1_VOTING_PERIOD * SLOTS_PER_EPOCH"

text \<open>Votes are compared by the roots of their trees.\<close>

definition isEqualEth1DataView :: "st_lib \<Rightarrow> eth1_data \<Rightarrow> eth1_data \<Rightarrow> bool" where
  "isEqualEth1DataView lib eth1DataA eth1DataB \<longleftrightarrow> sl_eth1DataRoot lib eth1DataA = sl_eth1DataRoot lib eth1DataB"

definition becomesNewEth1Data :: "st_lib \<Rightarrow> 'a tree_state_scheme \<Rightarrow> eth1_data \<Rightarrow> bool" where
  "becomesNewEth1Data lib s newEth1Data =
     (if (length (ts_eth1DataVotes s) + 1) * 2 \<le> SLOTS_PER_ETH1_VOTING_PERIOD then False
      else if ts_eth1Data s = newEth1Data then False
      else
        let sameVotesCount = fold (\<lambda>vote n. if isEqualEth1DataView lib vote newEth1Data then n + 1 else n)
              (ts_eth1DataVotes s) (0 :: nat)
        in (sameVotesCount + 1) * 2 > SLOTS_PER_ETH1_VOTING_PERIOD)"

definition processEth1Data :: "st_lib \<Rightarrow> cached_state \<Rightarrow> block_body \<Rightarrow> cached_state" where
  "processEth1Data lib s body =
     (let s1 = (if becomesNewEth1Data lib s (bo_eth1Data body) then s\<lparr>ts_eth1Data := bo_eth1Data body\<rparr> else s)
      in s1\<lparr>ts_eth1DataVotes := ts_eth1DataVotes s1 @ [bo_eth1Data body]\<rparr>)"

section \<open>Proposer slashings\<close>

fun verifyHeaderSignatures :: "st_lib \<Rightarrow> nat \<Rightarrow> signature_set list \<Rightarrow> st_error + unit" where
  "verifyHeaderSignatures lib i [] = Inr ()"
| "verifyHeaderSignatures lib i (signatureSet # rest) =
     bind_res (verifySignatureSet lib signatureSet) (\<lambda>valid.
       if \<not> valid then Inl (InvalidHeaderSignature (i + 1)) else verifyHeaderSignatures lib (i + 1) rest)"

definition assertValidProposerSlashing :: "st_lib \<Rightarrow> cached_state \<Rightarrow> proposer_slashing \<Rightarrow> bool \<Rightarrow> st_error + unit" where
  "assertValidProposerSlashing lib s proposerSlashing verifySignatures =
     (let header1 = sg_message (psl_signedHeader1 proposerSlashing);
          header2 = sg_message (psl_signedHeader2 proposerSlashing)
      in if bh_slot header1 \<noteq> bh_slot header2 then Inl (SlotsDoNotMatch (bh_slot header1) (bh_slot header2))
         else if bh_proposerIndex header1 \<noteq> bh_proposerIndex header2
           then Inl (ProposersDoNotMatch (bh_proposerIndex header1) (bh_proposerIndex header2))
         else if header1 = header2 then Inl HeadersEqual
         else bind_res (getValidator (bh_proposerIndex header1) s) (\<lambda>proposer.
           if \<not> isSlashableValidator proposer (es_epoch (ec_currentShuffling (epochCtx s))) then Inl ProposerNotSlashable
           else if verifySignatures
             then verifyHeaderSignatures lib 0 (getProposerSlashingSignatureSets lib s proposerSlashing)
             else Inr ()))"

definition processProposerSlashing :: "st_lib \<Rightarrow> state_config \<Rightarrow> fork_name \<Rightarrow> bool \<Rightarrow> proposer_slashing \<Rightarrow> cached_state \<Rightarrow>
    st_error + cached_state" where
  "processProposerSlashing lib config fork verifySignatures proposerSlashing s =
     bind_res (assertValidProposerSlashing lib s proposerSlashing verifySignatures) (\<lambda>_.
       slashValidatorAllForks lib config fork
         (bh_proposerIndex (sg_message (psl_signedHeader1 proposerSlashing))) None s)"

section \<open>Attester slashings\<close>

text \<open>The loop with \<open>prev\<close>, which starts at -1.\<close>

fun increasingFrom :: "int \<Rightarrow> nat list \<Rightarrow> bool" where
  "increasingFrom prev [] = True"
| "increasingFrom prev (index # rest) = (if int index \<le> prev then False else increasingFrom (int index) rest)"

definition isValidIndexedAttestation :: "st_lib \<Rightarrow> cached_state \<Rightarrow> indexed_att \<Rightarrow> bool \<Rightarrow> st_error + bool" where
  "isValidIndexedAttestation lib s indexedAttestation verifySig =
     (let indices = ix_attestingIndices indexedAttestation
      in if \<not> (length indices > 0 \<and> length indices \<le> MAX_VALIDATORS_PER_COMMITTEE) then Inr False
         else if \<not> increasingFrom (- 1) indices then Inr False
         else if indices ! (length indices - 1) \<ge> length (ts_validators s) then Inr False
         else if \<not> verifySig then Inr True
         else verifyIndexedAttestationSignature lib s indexedAttestation (Some indices))"

definition getAttesterSlashableIndices :: "attester_slashing \<Rightarrow> nat list" where
  "getAttesterSlashableIndices attesterSlashing =
     filter (\<lambda>index. index \<in> set (ix_attestingIndices (asl_attestation1 attesterSlashing)))
       (ix_attestingIndices (asl_attestation2 attesterSlashing))"

definition assertValidAttesterSlashing :: "st_lib \<Rightarrow> cached_state \<Rightarrow> attester_slashing \<Rightarrow> bool \<Rightarrow> st_error + unit" where
  "assertValidAttesterSlashing lib s attesterSlashing verifySignatures =
     (let attestation1 = asl_attestation1 attesterSlashing;
          attestation2 = asl_attestation2 attesterSlashing
      in if \<not> isSlashableAttestationData (ix_data attestation1) (ix_data attestation2) then Inl NotSlashable
         else bind_res (isValidIndexedAttestation lib s attestation1 verifySignatures) (\<lambda>valid1.
           if \<not> valid1 then Inl (InvalidIndexedAttestation 1)
           else bind_res (isValidIndexedAttestation lib s attestation2 verifySignatures) (\<lambda>valid2.
             if \<not> valid2 then Inl (InvalidIndexedAttestation 2) else Inr ())))"

text \<open>
  One turn of the loop over the indices, with \<open>slashedAny\<close>. The code reads the validator from a view taken
  before the loop; no index comes twice, and a slashing writes only the validator of its index.
\<close>

definition slashIfSlashable :: "st_lib \<Rightarrow> state_config \<Rightarrow> fork_name \<Rightarrow> nat \<Rightarrow> cached_state \<times> bool \<Rightarrow>
    st_error + cached_state \<times> bool" where
  "slashIfSlashable lib config fork index acc =
     (let (s, slashedAny) = acc
      in bind_res (getValidator index s) (\<lambda>v.
           if isSlashableValidator v (es_epoch (ec_currentShuffling (epochCtx s)))
           then bind_res (slashValidatorAllForks lib config fork index None s) (\<lambda>t. Inr (t, True))
           else Inr (s, slashedAny)))"

definition processAttesterSlashing :: "st_lib \<Rightarrow> state_config \<Rightarrow> fork_name \<Rightarrow> bool \<Rightarrow> attester_slashing \<Rightarrow> cached_state \<Rightarrow>
    st_error + cached_state" where
  "processAttesterSlashing lib config fork verifySignatures attesterSlashing s =
     bind_res (assertValidAttesterSlashing lib s attesterSlashing verifySignatures) (\<lambda>_.
     bind_res (fold_res (slashIfSlashable lib config fork) (sort (getAttesterSlashableIndices attesterSlashing)) (s, False))
       (\<lambda>(t, slashedAny). if \<not> slashedAny then Inl NoneSlashed else Inr t))"

section \<open>Voluntary exits\<close>

definition isValidVoluntaryExit :: "st_lib \<Rightarrow> state_config \<Rightarrow> cached_state \<Rightarrow> signed_voluntary_exit \<Rightarrow> bool \<Rightarrow>
    st_error + bool" where
  "isValidVoluntaryExit lib config s signedVoluntaryExit verifySig =
     (let voluntaryExit = sv_message signedVoluntaryExit;
          currentEpoch = es_epoch (ec_currentShuffling (epochCtx s))
      in bind_res (getValidator (ve_validatorIndex voluntaryExit) s) (\<lambda>v.
           if \<not> isActiveValidator v currentEpoch then Inr False
           else if v_exitEpoch v \<noteq> FAR_FUTURE_EPOCH then Inr False
           else if \<not> currentEpoch \<ge> ve_epoch voluntaryExit then Inr False
           else if \<not> enat currentEpoch \<ge> v_activationEpoch v + enat (SHARD_COMMITTEE_PERIOD config) then Inr False
           else if \<not> verifySig then Inr True
           else verifyVoluntaryExitSignature lib s signedVoluntaryExit))"

definition processVoluntaryExit :: "st_lib \<Rightarrow> state_config \<Rightarrow> bool \<Rightarrow> signed_voluntary_exit \<Rightarrow> cached_state \<Rightarrow>
    st_error + cached_state" where
  "processVoluntaryExit lib config verifySig signedVoluntaryExit s =
     bind_res (isValidVoluntaryExit lib config s signedVoluntaryExit verifySig) (\<lambda>valid.
       if \<not> valid then Inl InvalidVoluntaryExit
       else initiateValidatorExit config (ve_validatorIndex (sv_message signedVoluntaryExit)) s)"

section \<open>Deposits\<close>

text \<open>The loop of \<open>verifyMerkleBranch\<close>: \<open>n\<close> levels are left. A branch that is too short makes the concatenation throw.\<close>

fun merkleValue :: "st_lib \<Rightarrow> bytes list \<Rightarrow> nat \<Rightarrow> nat \<Rightarrow> nat \<Rightarrow> bytes \<Rightarrow> st_error + bytes" where
  "merkleValue lib branch 0 i index v = Inr v"
| "merkleValue lib branch (Suc n) i index v =
     bind_res (fromLibrary (nth_opt branch i)) (\<lambda>p.
       merkleValue lib branch n (i + 1) index (sl_digest64 lib (if siblingOnLeft index i then p @ v else v @ p)))"

definition verifyMerkleBranch :: "st_lib \<Rightarrow> bytes \<Rightarrow> bytes list \<Rightarrow> nat \<Rightarrow> nat \<Rightarrow> root \<Rightarrow> st_error + bool" where
  "verifyMerkleBranch lib leaf branch depth index r =
     bind_res (merkleValue lib branch depth 0 index leaf) (\<lambda>v. Inr (v = r))"

text \<open>The signature of a deposit; the block that catches every exception of the library.\<close>

definition validDepositSignature :: "st_lib \<Rightarrow> state_config \<Rightarrow> deposit_data \<Rightarrow> bool" where
  "validDepositSignature lib config data =
     (let domain = computeDomain (sl_config lib) DOMAIN_DEPOSIT (GENESIS_FORK_VERSION (sc_forks config)) ZERO_HASH;
          signingRoot = computeSigningRoot lib (\<lambda>d. sl_depositMessageRoot lib (dd_pubkey d) (dd_withdrawalCredentials d) (dd_amount d))
            data domain
      in case (sl_publicKeyFromBytes lib (dd_pubkey data), sl_signatureFromBytes lib (dd_signature data)) of
           (Some publicKey, Some sig) \<Rightarrow> sl_verify lib sig (Some publicKey) signingRoot = Some True
         | _ \<Rightarrow> False)"

definition depositedValidator :: "deposit_data \<Rightarrow> validator" where
  "depositedValidator data =
     \<lparr>v_pubkey = dd_pubkey data, v_withdrawalCredentials = dd_withdrawalCredentials data,
      v_effectiveBalance = min (dd_amount data - dd_amount data mod EFFECTIVE_BALANCE_INCREMENT) MAX_EFFECTIVE_BALANCE,
      v_slashed = False, v_activationEligibilityEpoch = FAR_FUTURE_EPOCH, v_activationEpoch = FAR_FUTURE_EPOCH,
      v_exitEpoch = FAR_FUTURE_EPOCH, v_withdrawableEpoch = FAR_FUTURE_EPOCH\<rparr>"

definition addValidator :: "fork_name \<Rightarrow> deposit_data \<Rightarrow> cached_state \<Rightarrow> cached_state" where
  "addValidator fork data s =
     (let v = depositedValidator data;
          validatorIndex = length (ts_validators s);
          s1 = s\<lparr>ts_validators := ts_validators s @ [v], ts_balances := ts_balances s @ [dd_amount data],
            epochCtx := addPubkey validatorIndex (dd_pubkey data)
              (effectiveBalanceIncrementsSet validatorIndex (v_effectiveBalance v) (epochCtx s)),
            ts_previousEpochParticipation := ts_previousEpochParticipation s @ [0],
            ts_currentEpochParticipation := ts_currentEpochParticipation s @ [0]\<rparr>
      in if fork \<noteq> Phase0 then s1\<lparr>ts_inactivityScores := ts_inactivityScores s1 @ [0]\<rparr> else s1)"

definition processDeposit :: "st_lib \<Rightarrow> state_config \<Rightarrow> fork_name \<Rightarrow> deposit \<Rightarrow> cached_state \<Rightarrow> st_error + cached_state" where
  "processDeposit lib config fork dep s =
     bind_res (verifyMerkleBranch lib (sl_depositDataRoot lib (dp_data dep)) (dp_proof dep)
         (DEPOSIT_CONTRACT_TREE_DEPTH + 1) (ts_eth1DepositIndex s) (e1_depositRoot (ts_eth1Data s))) (\<lambda>valid.
       if \<not> valid then Inl InvalidDepositProof
       else
         let s1 = s\<lparr>ts_eth1DepositIndex := ts_eth1DepositIndex s + 1\<rparr>;
             data = dp_data dep;
             known = (case jm_get (ec_pubkey2index (epochCtx s1)) (dd_pubkey data) of
               None \<Rightarrow> None
             | Some cachedIndex \<Rightarrow>
                 if cachedIndex > MAX_SAFE_INTEGER \<or> cachedIndex \<ge> length (ts_validators s1) then None else Some cachedIndex)
         in case known of
              None \<Rightarrow> Inr (if validDepositSignature lib config data then addValidator fork data s1 else s1)
            | Some cachedIndex \<Rightarrow> increaseBalance lib (int cachedIndex) (dd_amount data) s1)"

section \<open>The execution payload\<close>

text \<open>The default values of the SSZ types.\<close>

definition defaultPayloadHeader :: payload_header where
  "defaultPayloadHeader = \<lparr>xp_parentHash = replicate 32 0, xp_feeRecipient = replicate 20 0, xp_stateRoot = replicate 32 0,
     xp_receiptsRoot = replicate 32 0, xp_logsBloom = replicate 256 0, xp_prevRandao = replicate 32 0, xp_blockNumber = 0,
     xp_gasLimit = 0, xp_gasUsed = 0, xp_timestamp = 0, xp_extraData = [], xp_baseFeePerGas = 0,
     xp_blockHash = replicate 32 0, xp_transactionsRoot = replicate 32 0\<rparr>"

definition defaultPayload :: st_payload where
  "defaultPayload = \<lparr>xp_parentHash = replicate 32 0, xp_feeRecipient = replicate 20 0, xp_stateRoot = replicate 32 0,
     xp_receiptsRoot = replicate 32 0, xp_logsBloom = replicate 256 0, xp_prevRandao = replicate 32 0, xp_blockNumber = 0,
     xp_gasLimit = 0, xp_gasUsed = 0, xp_timestamp = 0, xp_extraData = [], xp_baseFeePerGas = 0,
     xp_blockHash = replicate 32 0, xp_transactions = []\<rparr>"

definition st_isMergeTransitionComplete :: "'a tree_state_scheme \<Rightarrow> bool" where
  "st_isMergeTransitionComplete s \<longleftrightarrow> ts_latestExecutionPayloadHeader s \<noteq> defaultPayloadHeader"

definition st_isExecutionEnabled :: "'a tree_state_scheme \<Rightarrow> block_body \<Rightarrow> bool" where
  "st_isExecutionEnabled s body \<longleftrightarrow> st_isMergeTransitionComplete s \<or> bo_executionPayload body \<noteq> defaultPayload"

definition st_isMergeTransitionBlock :: "'a tree_state_scheme \<Rightarrow> block_body \<Rightarrow> bool" where
  "st_isMergeTransitionBlock s body \<longleftrightarrow> \<not> st_isMergeTransitionComplete s \<and> bo_executionPayload body \<noteq> defaultPayload"

definition payloadHeader :: "st_lib \<Rightarrow> st_payload \<Rightarrow> payload_header" where
  "payloadHeader lib payload = \<lparr>xp_parentHash = xp_parentHash payload, xp_feeRecipient = xp_feeRecipient payload,
     xp_stateRoot = xp_stateRoot payload, xp_receiptsRoot = xp_receiptsRoot payload, xp_logsBloom = xp_logsBloom payload,
     xp_prevRandao = xp_prevRandao payload, xp_blockNumber = xp_blockNumber payload, xp_gasLimit = xp_gasLimit payload,
     xp_gasUsed = xp_gasUsed payload, xp_timestamp = xp_timestamp payload, xp_extraData = xp_extraData payload,
     xp_baseFeePerGas = xp_baseFeePerGas payload, xp_blockHash = xp_blockHash payload,
     xp_transactionsRoot = sl_transactionsRoot lib (xp_transactions payload)\<rparr>"

text \<open>\<open>executionEngine\<close> is \<open>None\<close> when the engine is asked after the block has been processed.\<close>

definition processExecutionPayload :: "st_lib \<Rightarrow> state_config \<Rightarrow> cached_state \<Rightarrow> st_payload \<Rightarrow>
    (st_payload \<Rightarrow> bool) option \<Rightarrow> st_error + cached_state" where
  "processExecutionPayload lib config s payload executionEngine =
     (let latest = ts_latestExecutionPayloadHeader s;
          expectedRandom = getRandaoMix s (es_epoch (ec_currentShuffling (epochCtx s)))
      in if st_isMergeTransitionComplete s \<and> xp_parentHash payload \<noteq> xp_blockHash latest
           then Inl (PayloadParentHash (xp_parentHash payload) (xp_blockHash latest))
         else if xp_prevRandao payload \<noteq> expectedRandom then Inl (PayloadRandao (xp_prevRandao payload) expectedRandom)
         else if xp_timestamp payload \<noteq> ts_genesisTime s + ts_slot s * sc_SECONDS_PER_SLOT config
           then Inl (PayloadTimestamp (xp_timestamp payload) (ts_genesisTime s) (ts_slot s))
         else if (case executionEngine of None \<Rightarrow> False | Some notifyNewPayload \<Rightarrow> \<not> notifyNewPayload payload)
           then Inl InvalidPayload
         else Inr (s\<lparr>ts_latestExecutionPayloadHeader := payloadHeader lib payload\<rparr>))"

end
