(* ===== verification/BlockAttestations.thy ===== *)
theory BlockAttestations
  imports BlockOperations
begin

unbundle bit_operations_syntax

text \<open>
  The votes of a block: the attestations of phase 0, which wait for the end of the epoch
  (\<open>packages/beacon-state-transition/src/phase0/block/processAttestation.ts\<close>), those of altair, which set flags of
  participation and reward the proposer (\<open>altair/block/processAttestation.ts\<close>), and the sync aggregate
  (\<open>altair/block/processSyncCommittee.ts\<close>).
\<close>

section \<open>Phase 0\<close>

definition validateAttestation :: "cached_state \<Rightarrow> attestation \<Rightarrow> st_error + unit" where
  "validateAttestation s att =
     (let slt = ts_slot s;
          data = at_data att;
          computedEpoch = computeEpochAtSlot (ad_slot data);
          currentEpoch = es_epoch (ec_currentShuffling (epochCtx s));
          targetEpoch = rc_epoch (ad_target data)
      in bind_res (getCommitteeCountPerSlot (epochCtx s) computedEpoch) (\<lambda>committeeCount.
         if \<not> ad_index data < committeeCount then Inl (CommitteeIndexTooLarge (ad_index data) committeeCount)
         else if \<not> (targetEpoch = es_epoch (ec_previousShuffling (epochCtx s)) \<or> targetEpoch = currentEpoch)
           then Inl (TargetEpochNotRecent targetEpoch currentEpoch)
         else if \<not> targetEpoch = computedEpoch then Inl (TargetEpochMismatch targetEpoch computedEpoch)
         else if \<not> (ad_slot data + MIN_ATTESTATION_INCLUSION_DELAY \<le> slt \<and> slt \<le> ad_slot data + SLOTS_PER_EPOCH)
           then Inl (AttestationNotInWindow (ad_slot data) slt)
         else bind_res (getBeaconCommittee (epochCtx s) (ad_slot data) (ad_index data)) (\<lambda>committee.
           if length (at_aggregationBits att) \<noteq> length committee
           then Inl (AggregationBitsLength (length (at_aggregationBits att)) (length committee))
           else Inr ())))"

definition processAttestation :: "st_lib \<Rightarrow> bool \<Rightarrow> attestation \<Rightarrow> cached_state \<Rightarrow> st_error + cached_state" where
  "processAttestation lib verifySig att s =
     (let data = at_data att
      in bind_res (validateAttestation s att) (\<lambda>_.
         bind_res (getBeaconProposer (epochCtx s) (ts_slot s)) (\<lambda>proposerIndex.
         let pendingAttestation = \<lparr>pn_aggregationBits = at_aggregationBits att, pn_data = data,
               pn_inclusionDelay = ts_slot s - ad_slot data, pn_proposerIndex = proposerIndex\<rparr>
         in bind_res
             (if rc_epoch (ad_target data) = es_epoch (ec_currentShuffling (epochCtx s)) then
                if ad_source data \<noteq> ts_currentJustifiedCheckpoint s then Inl SourceNotJustified
                else Inr (s\<lparr>ts_currentEpochAttestations := ts_currentEpochAttestations s @ [pendingAttestation]\<rparr>)
              else
                if ad_source data \<noteq> ts_previousJustifiedCheckpoint s then Inl SourceNotJustified
                else Inr (s\<lparr>ts_previousEpochAttestations := ts_previousEpochAttestations s @ [pendingAttestation]\<rparr>))
             (\<lambda>s1. bind_res (getIndexedAttestation (epochCtx s1) att) (\<lambda>indexed.
                   bind_res (isValidIndexedAttestation lib s1 indexed verifySig) (\<lambda>valid.
                   if \<not> valid then Inl InvalidAttestation else Inr s1))))))"

section \<open>Block roots\<close>

text \<open>The class \<open>RootCache\<close>; the state it holds is the argument of its methods.\<close>

record root_cache =
  rca_currentJustifiedCheckpoint :: root_checkpoint
  rca_previousJustifiedCheckpoint :: root_checkpoint
  rca_blockRootEpochCache :: "(epoch, root) jsmap"
  rca_blockRootSlotCache :: "(slot, root) jsmap"

definition newRootCache :: "cached_state \<Rightarrow> root_cache" where
  "newRootCache s = \<lparr>rca_currentJustifiedCheckpoint = ts_currentJustifiedCheckpoint s,
     rca_previousJustifiedCheckpoint = ts_previousJustifiedCheckpoint s,
     rca_blockRootEpochCache = [], rca_blockRootSlotCache = []\<rparr>"

definition rca_getBlockRoot :: "cached_state \<Rightarrow> epoch \<Rightarrow> root_cache \<Rightarrow> st_error + root \<times> root_cache" where
  "rca_getBlockRoot s e cache =
     (case jm_get (rca_blockRootEpochCache cache) e of
        Some r \<Rightarrow> Inr (r, cache)
      | None \<Rightarrow> bind_res (st_getBlockRoot s e) (\<lambda>r.
          Inr (r, cache\<lparr>rca_blockRootEpochCache := jm_set e r (rca_blockRootEpochCache cache)\<rparr>)))"

definition rca_getBlockRootAtSlot :: "cached_state \<Rightarrow> slot \<Rightarrow> root_cache \<Rightarrow> st_error + root \<times> root_cache" where
  "rca_getBlockRootAtSlot s slt cache =
     (case jm_get (rca_blockRootSlotCache cache) slt of
        Some r \<Rightarrow> Inr (r, cache)
      | None \<Rightarrow> bind_res (st_getBlockRootAtSlot s slt) (\<lambda>r.
          Inr (r, cache\<lparr>rca_blockRootSlotCache := jm_set slt r (rca_blockRootSlotCache cache)\<rparr>)))"

section \<open>Flags of participation\<close>

definition PROPOSER_REWARD_DOMINATOR :: nat where
  "PROPOSER_REWARD_DOMINATOR = (WEIGHT_DENOMINATOR - PROPOSER_WEIGHT) * WEIGHT_DENOMINATOR div PROPOSER_WEIGHT"

definition TIMELY_SOURCE :: nat where
  "TIMELY_SOURCE = push_bit TIMELY_SOURCE_FLAG_INDEX 1"

definition TIMELY_TARGET :: nat where
  "TIMELY_TARGET = push_bit TIMELY_TARGET_FLAG_INDEX 1"

definition TIMELY_HEAD :: nat where
  "TIMELY_HEAD = push_bit TIMELY_HEAD_FLAG_INDEX 1"

definition getAttestationParticipationStatus :: "cached_state \<Rightarrow> attestation_data \<Rightarrow> nat \<Rightarrow> root_cache \<Rightarrow>
    st_error + nat \<times> root_cache" where
  "getAttestationParticipationStatus s data inclusionDelay cache =
     (let justifiedCheckpoint =
            (if rc_epoch (ad_target data) = es_epoch (ec_currentShuffling (epochCtx s))
             then rca_currentJustifiedCheckpoint cache else rca_previousJustifiedCheckpoint cache);
          isMatchingSource = (ad_source data = justifiedCheckpoint)
      in if \<not> isMatchingSource then Inl SourceNotJustified
         else bind_res (rca_getBlockRoot s (rc_epoch (ad_target data)) cache) (\<lambda>(targetRoot, cache1).
           let isMatchingTarget = (rc_root (ad_target data) = targetRoot)
           in bind_res
                (if isMatchingTarget
                 then bind_res (rca_getBlockRootAtSlot s (ad_slot data) cache1) (\<lambda>(headRoot, cache2).
                   Inr (ad_beaconBlockRoot data = headRoot, cache2))
                 else Inr (False, cache1)) (\<lambda>(isMatchingHead, cache2).
              let flags1 = (if isMatchingSource \<and> inclusionDelay \<le> intSqrt SLOTS_PER_EPOCH then 0 OR TIMELY_SOURCE else 0);
                  flags2 = (if isMatchingTarget \<and> inclusionDelay \<le> SLOTS_PER_EPOCH then flags1 OR TIMELY_TARGET else flags1);
                  flags3 = (if isMatchingHead \<and> inclusionDelay = MIN_ATTESTATION_INCLUSION_DELAY
                    then flags2 OR TIMELY_HEAD else flags2)
              in Inr (flags3, cache2))))"

text \<open>The weight of the flags that are new; JavaScript's \<open>~\<close> gives a negative number.\<close>

definition newFlagsWeight :: "nat \<Rightarrow> nat \<Rightarrow> nat" where
  "newFlagsWeight flags flagsAttestation =
     (let flagsNewSet = NOT (int flags) AND int flagsAttestation
      in (if flagsNewSet AND int TIMELY_SOURCE = int TIMELY_SOURCE then TIMELY_SOURCE_WEIGHT else 0) +
         (if flagsNewSet AND int TIMELY_TARGET = int TIMELY_TARGET then TIMELY_TARGET_WEIGHT else 0) +
         (if flagsNewSet AND int TIMELY_HEAD = int TIMELY_HEAD then TIMELY_HEAD_WEIGHT else 0))"

section \<open>Altair\<close>

text \<open>
  What the loop over the attestations collects: the flags to write for each epoch, and the reward of the
  proposer. An attester is a validator, which has flags and an increment.
\<close>

record att_batch =
  ab_rootCache :: root_cache
  ab_proposerReward :: nat
  ab_previousEpochStatuses :: "(nat, nat) jsmap"
  ab_currentEpochStatuses :: "(nat, nat) jsmap"

definition statusOf :: "(nat, nat) jsmap \<Rightarrow> nat list \<Rightarrow> nat \<Rightarrow> nat" where
  "statusOf epochStatuses epochParticipation index =
     (case jm_get epochStatuses index of Some flags \<Rightarrow> flags | None \<Rightarrow> epochParticipation ! index)"

definition attestIndex :: "bytes \<Rightarrow> nat list \<Rightarrow> nat \<Rightarrow> nat \<Rightarrow> (nat, nat) jsmap \<times> nat \<Rightarrow> (nat, nat) jsmap \<times> nat" where
  "attestIndex effectiveBalanceIncrements epochParticipation flagsAttestation index acc =
     (let (epochStatuses, totalBalanceIncrementsWithWeight) = acc;
          flags = statusOf epochStatuses epochParticipation index;
          newFlags = flagsAttestation OR flags;
          totalWeight = newFlagsWeight flags flagsAttestation
      in (jm_set index newFlags epochStatuses,
          if totalWeight > 0
          then totalBalanceIncrementsWithWeight + unat (effectiveBalanceIncrements ! index) * totalWeight
          else totalBalanceIncrementsWithWeight))"

definition attestInBatch :: "st_lib \<Rightarrow> cached_state \<Rightarrow> bool \<Rightarrow> attestation \<Rightarrow> att_batch \<Rightarrow> st_error + att_batch" where
  "attestInBatch lib s verifySig att batch =
     (let data = at_data att;
          current = (rc_epoch (ad_target data) = es_epoch (ec_currentShuffling (epochCtx s)))
      in bind_res (validateAttestation s att) (\<lambda>_.
         bind_res (getAttestingIndices (epochCtx s) data (at_aggregationBits att)) (\<lambda>attestingIndices.
         bind_res (if verifySig
             then verifySignatureSet lib (getAttestationWithIndicesSignatureSet lib s data (at_signature att) attestingIndices)
             else Inr True) (\<lambda>valid.
         if \<not> valid then Inl InvalidAttestationSignature
         else bind_res (getAttestationParticipationStatus s data (ts_slot s - ad_slot data) (ab_rootCache batch))
           (\<lambda>(flagsAttestation, cache).
             let (epochStatuses, totalIncrements) =
                   fold (attestIndex (ec_effectiveBalanceIncrements (epochCtx s))
                       (if current then ts_currentEpochParticipation s else ts_previousEpochParticipation s) flagsAttestation)
                     attestingIndices
                     (if current then ab_currentEpochStatuses batch else ab_previousEpochStatuses batch, 0);
                 proposerRewardNumerator = totalIncrements * ec_baseRewardPerIncrement (epochCtx s);
                 batch1 = batch\<lparr>ab_rootCache := cache,
                   ab_proposerReward := ab_proposerReward batch + proposerRewardNumerator div PROPOSER_REWARD_DOMINATOR\<rparr>
             in Inr (if current then batch1\<lparr>ab_currentEpochStatuses := epochStatuses\<rparr>
                  else batch1\<lparr>ab_previousEpochStatuses := epochStatuses\<rparr>))))))"

text \<open>
  The flags are written into a transient copy that replaces the list, when there are many, or one by one. Writing
  out of range throws.
\<close>

definition setStatus :: "nat \<times> nat \<Rightarrow> nat list \<Rightarrow> st_error + nat list" where
  "setStatus entry participation =
     (let (index, flags) = entry
      in if index < length participation then Inr (participation[index := flags]) else Inl LibraryError)"

definition updateEpochParticipants :: "(nat, nat) jsmap \<Rightarrow> nat list \<Rightarrow> nat \<Rightarrow> st_error + nat list" where
  "updateEpochParticipants epochStatuses epochParticipation numActiveValidators =
     (if jm_size epochStatuses * (2 * SLOTS_PER_EPOCH) \<ge> numActiveValidators
      then let transientVector = epochParticipation in fold_res setStatus epochStatuses transientVector
      else fold_res setStatus epochStatuses epochParticipation)"

definition processAttestations :: "st_lib \<Rightarrow> bool \<Rightarrow> attestation list \<Rightarrow> cached_state \<Rightarrow> st_error + cached_state" where
  "processAttestations lib verifySig attestations s =
     bind_res (fold_res (attestInBatch lib s verifySig) attestations
         \<lparr>ab_rootCache = newRootCache s, ab_proposerReward = 0, ab_previousEpochStatuses = [], ab_currentEpochStatuses = []\<rparr>)
       (\<lambda>batch.
     bind_res (updateEpochParticipants (ab_previousEpochStatuses batch) (ts_previousEpochParticipation s)
         (length (es_activeIndices (ec_previousShuffling (epochCtx s))))) (\<lambda>previous.
     bind_res (updateEpochParticipants (ab_currentEpochStatuses batch) (ts_currentEpochParticipation s)
         (length (es_activeIndices (ec_currentShuffling (epochCtx s))))) (\<lambda>current.
     bind_res (getBeaconProposer (epochCtx s) (ts_slot s)) (\<lambda>proposerIndex.
       increaseBalance lib proposerIndex (ab_proposerReward batch)
         (s\<lparr>ts_previousEpochParticipation := previous, ts_currentEpochParticipation := current\<rparr>)))))"

section \<open>The sync aggregate\<close>

definition accumulateDelta :: "int \<Rightarrow> int \<Rightarrow> (int, int) jsmap \<Rightarrow> (int, int) jsmap" where
  "accumulateDelta index delta deltaByIndex =
     (case jm_get deltaByIndex index of
        None \<Rightarrow> jm_set index delta deltaByIndex
      | Some existingDelta \<Rightarrow> jm_set index (delta + existingDelta) deltaByIndex)"

text \<open>\<open>BalanceList.applyDeltaInBatch\<close>.\<close>

definition applyDeltaInBatch :: "st_lib \<Rightarrow> (int, int) jsmap \<Rightarrow> cached_state \<Rightarrow> st_error + cached_state" where
  "applyDeltaInBatch lib deltaByIndex = fold_res (\<lambda>(index, delta). applyDelta lib index delta) deltaByIndex"

definition syncDeltas :: "nat \<Rightarrow> nat \<Rightarrow> int \<Rightarrow> nat list \<Rightarrow> nat list \<Rightarrow> (int, int) jsmap" where
  "syncDeltas participantReward proposerReward proposerIndex participants unparticipants =
     fold (\<lambda>i. accumulateDelta (int i) (- int participantReward)) unparticipants
       (accumulateDelta proposerIndex (int (proposerReward * length participants))
         (fold (\<lambda>i. accumulateDelta (int i) (int participantReward)) participants []))"

definition processSyncAggregate :: "st_lib \<Rightarrow> cached_state \<Rightarrow> st_block \<Rightarrow> bool \<Rightarrow> st_error + cached_state" where
  "processSyncAggregate lib s block verifySigs =
     bind_res (getParticipantInfo s (bo_syncAggregate (bl_body block))) (\<lambda>(participantIndices, unparticipantIndices).
     bind_res (if verifySigs
         then bind_res (getSyncCommitteeSignatureSet lib s block (Some participantIndices)) (\<lambda>signatureSet.
           case signatureSet of None \<Rightarrow> Inr True | Some sigSet \<Rightarrow> verifySignatureSet lib sigSet)
         else Inr True) (\<lambda>valid.
     if \<not> valid then Inl InvalidSyncAggregate
     else bind_res (getBeaconProposer (epochCtx s) (ts_slot s)) (\<lambda>proposerIndex.
       applyDeltaInBatch lib (syncDeltas (ec_syncParticipantReward (epochCtx s)) (ec_syncProposerReward (epochCtx s))
         proposerIndex participantIndices unparticipantIndices) s)))"

end
