(* ===== verification/StateTransition.thy ===== *)
theory StateTransition
  imports BlockAttestations EpochTransition
begin

unbundle bit_operations_syntax

text \<open>
  The state transition (\<open>packages/beacon-state-transition/src/allForks/stateTransition.ts\<close>, \<open>allForks/slot\<close>): the
  operations of a block fork by fork (\<open>phase0/block\<close>, \<open>altair/block\<close>, \<open>bellatrix/block\<close>), the passing of slots with the
  transition of epochs, and the upgrades of the state (\<open>altair/upgradeState.ts\<close>, \<open>bellatrix/upgradeState.ts\<close>).
\<close>

section \<open>Blocks\<close>

definition checkDepositCount :: "cached_state \<Rightarrow> block_body \<Rightarrow> st_error + unit" where
  "checkDepositCount s body =
     (let maxDeposits = min (int MAX_DEPOSITS) (int (e1_depositCount (ts_eth1Data s)) - int (ts_eth1DepositIndex s))
      in if int (length (bo_deposits body)) \<noteq> maxDeposits then Inl (WrongDepositCount (length (bo_deposits body)) maxDeposits)
         else Inr ())"

definition processOperationsPhase0 :: "st_lib \<Rightarrow> state_config \<Rightarrow> cached_state \<Rightarrow> block_body \<Rightarrow> bool \<Rightarrow>
    st_error + cached_state" where
  "processOperationsPhase0 lib config s body verifySigs =
     bind_res (checkDepositCount s body) (\<lambda>_.
     bind_res (fold_res (processProposerSlashing lib config Phase0 verifySigs) (bo_proposerSlashings body) s) (\<lambda>s1.
     bind_res (fold_res (processAttesterSlashing lib config Phase0 verifySigs) (bo_attesterSlashings body) s1) (\<lambda>s2.
     bind_res (fold_res (processAttestation lib verifySigs) (bo_attestations body) s2) (\<lambda>s3.
     bind_res (fold_res (processDeposit lib config Phase0) (bo_deposits body) s3)
       (fold_res (processVoluntaryExit lib config verifySigs) (bo_voluntaryExits body))))))"

text \<open>Altair and bellatrix differ in the fork of the slashings; deposits are those of altair in both.\<close>

definition processOperationsAltair :: "st_lib \<Rightarrow> state_config \<Rightarrow> fork_name \<Rightarrow> cached_state \<Rightarrow> block_body \<Rightarrow> bool \<Rightarrow>
    st_error + cached_state" where
  "processOperationsAltair lib config fork s body verifySigs =
     bind_res (checkDepositCount s body) (\<lambda>_.
     bind_res (fold_res (processProposerSlashing lib config fork verifySigs) (bo_proposerSlashings body) s) (\<lambda>s1.
     bind_res (fold_res (processAttesterSlashing lib config fork verifySigs) (bo_attesterSlashings body) s1) (\<lambda>s2.
     bind_res (processAttestations lib verifySigs (bo_attestations body) s2) (\<lambda>s3.
     bind_res (fold_res (processDeposit lib config Altair) (bo_deposits body) s3)
       (fold_res (processVoluntaryExit lib config verifySigs) (bo_voluntaryExits body))))))"

definition processBlockPhase0 :: "st_lib \<Rightarrow> state_config \<Rightarrow> cached_state \<Rightarrow> st_block \<Rightarrow> bool \<Rightarrow> st_error + cached_state" where
  "processBlockPhase0 lib config s block verifySigs =
     bind_res (processBlockHeader lib config s block) (\<lambda>s1.
     bind_res (processRandao lib s1 block verifySigs) (\<lambda>s2.
       processOperationsPhase0 lib config (processEth1Data lib s2 (bl_body block)) (bl_body block) verifySigs))"

definition processBlockAltair :: "st_lib \<Rightarrow> state_config \<Rightarrow> cached_state \<Rightarrow> st_block \<Rightarrow> bool \<Rightarrow> st_error + cached_state" where
  "processBlockAltair lib config s block verifySigs =
     bind_res (processBlockHeader lib config s block) (\<lambda>s1.
     bind_res (processRandao lib s1 block verifySigs) (\<lambda>s2.
     bind_res (processOperationsAltair lib config Altair (processEth1Data lib s2 (bl_body block)) (bl_body block) verifySigs)
       (\<lambda>s3. processSyncAggregate lib s3 block verifySigs)))"

definition processBlockBellatrix :: "st_lib \<Rightarrow> state_config \<Rightarrow> cached_state \<Rightarrow> st_block \<Rightarrow> bool \<Rightarrow>
    (st_payload \<Rightarrow> bool) option \<Rightarrow> st_error + cached_state" where
  "processBlockBellatrix lib config s block verifySigs executionEngine =
     bind_res (processBlockHeader lib config s block) (\<lambda>s1.
     bind_res (if st_isExecutionEnabled s1 (bl_body block)
         then processExecutionPayload lib config s1 (bo_executionPayload (bl_body block)) executionEngine else Inr s1) (\<lambda>s2.
     bind_res (processRandao lib s2 block verifySigs) (\<lambda>s3.
     bind_res (processOperationsAltair lib config Bellatrix (processEth1Data lib s3 (bl_body block)) (bl_body block) verifySigs)
       (\<lambda>s4. processSyncAggregate lib s4 block verifySigs))))"

text \<open>\<open>processBlockByFork\<close> is called without an execution engine.\<close>

definition processBlock :: "st_lib \<Rightarrow> state_config \<Rightarrow> cached_state \<Rightarrow> st_block \<Rightarrow> bool \<Rightarrow> st_error + cached_state" where
  "processBlock lib config s block verifySigs =
     (case getForkName (sc_forks config) (bl_slot block) of
        Phase0 \<Rightarrow> processBlockPhase0 lib config s block verifySigs
      | Altair \<Rightarrow> processBlockAltair lib config s block verifySigs
      | Bellatrix \<Rightarrow> processBlockBellatrix lib config s block verifySigs None)"

section \<open>Upgrades\<close>

definition emptyCtxOpts :: ctx_opts where
  "emptyCtxOpts = \<lparr>co_pubkey2index = [], co_index2pubkey = [], co_skipSyncPubkeys = False, co_skipSyncCommitteeCache = False\<rparr>"

text \<open>The caches of participation and scores are those of the state, and those of a phase 0 state are zeroed.\<close>

definition createCachedBeaconState :: "hash \<Rightarrow> state_config \<Rightarrow> tree_state \<Rightarrow> ctx_opts \<Rightarrow> st_error + cached_state" where
  "createCachedBeaconState hash config state opts =
     (let forkName = getForkName (sc_forks config) (ts_slot state)
      in bind_res (createFromState hash config state opts) (\<lambda>ctx.
         let s = tree_state.extend state (cached_state.fields ctx)
         in Inr (if forkName = Phase0
              then s\<lparr>ts_previousEpochParticipation := replicate (length (ts_validators s)) 0,
                ts_currentEpochParticipation := replicate (length (ts_validators s)) 0, ts_inactivityScores := []\<rparr>
              else s)))"

definition getNextSyncCommittee :: "st_lib \<Rightarrow> nat \<Rightarrow> 'a tree_state_scheme \<Rightarrow> nat list \<Rightarrow> bytes \<Rightarrow> st_error + sync_committee" where
  "getNextSyncCommittee lib fuel state activeValidatorIndices effectiveBalanceIncrements =
     (case getNextSyncCommitteeIndices (sl_hash lib) fuel state activeValidatorIndices effectiveBalanceIncrements of
        None \<Rightarrow> Inl DoesNotEnd
      | Some r \<Rightarrow> bind_res r (\<lambda>indices.
          bind_res (map_res (\<lambda>i. bind_res (getValidator i state) (\<lambda>v. Inr (v_pubkey v))) indices) (\<lambda>keys.
          bind_res (fromLibrary (sl_aggregatePublicKeys lib keys)) (\<lambda>aggregate.
            Inr \<lparr>sc_pubkeys = keys, sc_aggregatePubkey = aggregate\<rparr>))))"

text \<open>The participation of altair takes the place of the pending attestations in the tree.\<close>

definition upgradeTreeToAltair :: "st_lib \<Rightarrow> state_config \<Rightarrow> nat \<Rightarrow> cached_state \<Rightarrow> st_error + tree_state" where
  "upgradeTreeToAltair lib config fuel s =
     (let nextEpochActiveIndices = es_activeIndices (ec_nextShuffling (epochCtx s));
          validatorCount = length (ts_validators s)
      in bind_res (getNextSyncCommittee lib fuel s nextEpochActiveIndices (ec_effectiveBalanceIncrements (epochCtx s)))
           (\<lambda>syncCommittee.
         Inr ((tree_state.truncate s)
           \<lparr>ts_fork := \<lparr>fd_previousVersion = fd_currentVersion (ts_fork s),
               fd_currentVersion = ALTAIR_FORK_VERSION (sc_forks config),
               fd_epoch = es_epoch (ec_currentShuffling (epochCtx s))\<rparr>,
             ts_previousEpochAttestations := [], ts_currentEpochAttestations := [],
             ts_previousEpochParticipation := replicate validatorCount 0,
             ts_currentEpochParticipation := replicate validatorCount 0,
             ts_inactivityScores := replicate validatorCount 0,
             ts_currentSyncCommittee := syncCommittee, ts_nextSyncCommittee := syncCommittee\<rparr>)))"

definition mergeFlags :: "nat \<Rightarrow> nat \<Rightarrow> nat list \<Rightarrow> st_error + nat list" where
  "mergeFlags flagsAttestation index participation =
     setStatus (index, participation ! index OR flagsAttestation) participation"

definition translateAttestation :: "cached_state \<Rightarrow> pending_attestation \<Rightarrow> nat list \<times> root_cache \<Rightarrow>
    st_error + nat list \<times> root_cache" where
  "translateAttestation s att acc =
     (let (participation, cache) = acc
      in bind_res (getAttestationParticipationStatus s (pn_data att) (pn_inclusionDelay att) cache) (\<lambda>(flagsAttestation, cache1).
         bind_res (getAttestingIndices (epochCtx s) (pn_data att) (pn_aggregationBits att)) (\<lambda>attestingIndices.
         bind_res (fold_res (mergeFlags flagsAttestation) attestingIndices participation) (\<lambda>participation1.
           Inr (participation1, cache1)))))"

definition translateParticipation :: "cached_state \<Rightarrow> pending_attestation list \<Rightarrow> st_error + cached_state" where
  "translateParticipation s pendingAttestations =
     bind_res (fold_res (translateAttestation s) pendingAttestations (ts_previousEpochParticipation s, newRootCache s))
       (\<lambda>(participation, _). Inr (s\<lparr>ts_previousEpochParticipation := participation\<rparr>))"

definition upgradeToAltair :: "st_lib \<Rightarrow> state_config \<Rightarrow> nat \<Rightarrow> cached_state \<Rightarrow> st_error + cached_state" where
  "upgradeToAltair lib config fuel s =
     bind_res (upgradeTreeToAltair lib config fuel s) (\<lambda>postTree.
     bind_res (createCachedBeaconState (sl_hash lib) config postTree emptyCtxOpts) (\<lambda>postState.
       translateParticipation postState (ts_previousEpochAttestations s)))"

definition upgradeTreeToBellatrix :: "state_config \<Rightarrow> cached_state \<Rightarrow> tree_state" where
  "upgradeTreeToBellatrix config s =
     (tree_state.truncate s)
       \<lparr>ts_fork := \<lparr>fd_previousVersion = fd_currentVersion (ts_fork s),
           fd_currentVersion = BELLATRIX_FORK_VERSION (sc_forks config),
           fd_epoch = es_epoch (ec_currentShuffling (epochCtx s))\<rparr>,
         ts_latestExecutionPayloadHeader := defaultPayloadHeader\<rparr>"

definition upgradeToBellatrix :: "st_lib \<Rightarrow> state_config \<Rightarrow> cached_state \<Rightarrow> st_error + cached_state" where
  "upgradeToBellatrix lib config s =
     createCachedBeaconState (sl_hash lib) config (upgradeTreeToBellatrix config s) emptyCtxOpts"

section \<open>Slots\<close>

definition processSlot :: "st_lib \<Rightarrow> state_config \<Rightarrow> cached_state \<Rightarrow> cached_state" where
  "processSlot lib config s =
     (let fork = getForkName (sc_forks config) (ts_slot s);
          previousStateRoot = sl_stateRoot lib fork (tree_state.truncate s);
          k = ts_slot s mod SLOTS_PER_HISTORICAL_ROOT;
          s1 = s\<lparr>ts_stateRoots := (ts_stateRoots s)[k := previousStateRoot]\<rparr>;
          s2 = (if bh_stateRoot (ts_latestBlockHeader s1) = ZERO_HASH
            then s1\<lparr>ts_latestBlockHeader := (ts_latestBlockHeader s1)\<lparr>bh_stateRoot := previousStateRoot\<rparr>\<rparr> else s1);
          previousBlockRoot = sl_headerRoot lib (ts_latestBlockHeader s2)
      in s2\<lparr>ts_blockRoots := (ts_blockRoots s2)[k := previousBlockRoot]\<rparr>)"

definition processEpochByFork :: "st_lib \<Rightarrow> state_config \<Rightarrow> nat \<Rightarrow> fork_name \<Rightarrow> epoch_state \<Rightarrow> st_error + epoch_state" where
  "processEpochByFork lib config fuel fork ps =
     (case fork of
        Phase0 \<Rightarrow> processEpochPhase0 lib config ps
      | Altair \<Rightarrow> processEpochAltair lib config fuel ps
      | Bellatrix \<Rightarrow> processEpochAltair lib config fuel ps)"

text \<open>The end of an epoch, with the step to the first slot of the next one.\<close>

definition epochBoundary :: "st_lib \<Rightarrow> state_config \<Rightarrow> nat \<Rightarrow> cached_state \<Rightarrow> st_error + cached_state" where
  "epochBoundary lib config fuel s =
     (let fork = getForkName (sc_forks config) (ts_slot s)
      in bind_res (beforeProcessEpoch config s) (\<lambda>p.
         bind_res (processEpochByFork lib config fuel fork (p, s)) (\<lambda>(p1, s1).
         let s2 = s1\<lparr>ts_slot := ts_slot s1 + 1\<rparr>
         in bind_res (ctx_afterProcessEpoch (sl_hash lib) config s2 (pr_nextEpochShufflingActiveValidatorIndices p1)
               (pr_nextEpochTotalActiveBalanceByIncrement p1) (epochCtx s2)) (\<lambda>ctx.
           Inr (s2\<lparr>epochCtx := ctx\<rparr>)))))"

definition upgradeAt :: "st_lib \<Rightarrow> state_config \<Rightarrow> nat \<Rightarrow> cached_state \<Rightarrow> st_error + cached_state" where
  "upgradeAt lib config fuel s =
     (let stateEpoch = computeEpochAtSlot (ts_slot s)
      in bind_res (if enat stateEpoch = ALTAIR_FORK_EPOCH (sc_forks config) then upgradeToAltair lib config fuel s else Inr s)
         (\<lambda>s1. if enat stateEpoch = BELLATRIX_FORK_EPOCH (sc_forks config) then upgradeToBellatrix lib config s1 else Inr s1))"

definition slotStep :: "st_lib \<Rightarrow> state_config \<Rightarrow> nat \<Rightarrow> cached_state \<Rightarrow> st_error + cached_state" where
  "slotStep lib config fuel s =
     (let s1 = processSlot lib config s
      in if (ts_slot s1 + 1) mod SLOTS_PER_EPOCH = 0
         then bind_res (epochBoundary lib config fuel s1) (upgradeAt lib config fuel)
         else Inr (s1\<lparr>ts_slot := ts_slot s1 + 1\<rparr>))"

text \<open>
  The loop over the slots, with a bound on its turns; \<open>None\<close> is a loop that has not ended. \<open>processSlots\<close> gives it as
  many turns as there are slots to pass.
\<close>

fun slotsLoop :: "st_lib \<Rightarrow> state_config \<Rightarrow> nat \<Rightarrow> slot \<Rightarrow> nat \<Rightarrow> cached_state \<Rightarrow> (st_error + cached_state) option" where
  "slotsLoop lib config fuel slt 0 s = (if ts_slot s < slt then None else Some (Inr s))"
| "slotsLoop lib config fuel slt (Suc turns) s =
     (if ts_slot s < slt then
        case slotStep lib config fuel s of
          Inl e \<Rightarrow> Some (Inl e)
        | Inr t \<Rightarrow> slotsLoop lib config fuel slt turns t
      else Some (Inr s))"

definition processSlots :: "st_lib \<Rightarrow> state_config \<Rightarrow> nat \<Rightarrow> cached_state \<Rightarrow> slot \<Rightarrow> st_error + cached_state" where
  "processSlots lib config fuel s slt =
     (if ts_slot s > slt then Inl (SlotTooOld slt (ts_slot s))
      else case slotsLoop lib config fuel slt (slt - ts_slot s) s of None \<Rightarrow> Inl DoesNotEnd | Some r \<Rightarrow> r)"

section \<open>The state transition\<close>

definition stateTransition :: "st_lib \<Rightarrow> state_config \<Rightarrow> nat \<Rightarrow> cached_state \<Rightarrow> signed_block \<Rightarrow> bool \<Rightarrow> bool \<Rightarrow> bool \<Rightarrow>
    st_error + cached_state" where
  "stateTransition lib config fuel s signedBlock verifyStateRoot verifyProposer verifySigs =
     (let block = sb_message signedBlock
      in bind_res (processSlots lib config fuel s (bl_slot block)) (\<lambda>postState.
         bind_res (if verifyProposer then verifyProposerSignature lib config postState signedBlock else Inr True) (\<lambda>valid.
         if \<not> valid then Inl InvalidBlockSignature
         else bind_res (processBlock lib config postState block verifySigs) (\<lambda>postState1.
           if verifyStateRoot \<and>
              bl_stateRoot block \<noteq> sl_stateRoot lib (getForkName (sc_forks config) (ts_slot postState1)) (tree_state.truncate postState1)
           then Inl StateRootMismatch else Inr postState1))))"

section \<open>What decides a shuffling\<close>

text \<open>\<open>util/shufflingDecisionRoot.ts\<close>; \<open>None\<close> is \<open>null\<close>.\<close>

definition decisionRootAt :: "cached_state \<Rightarrow> slot \<Rightarrow> st_error + root option" where
  "decisionRootAt s decisionSlot =
     (if ts_slot s = decisionSlot then Inr None
      else bind_res (st_getBlockRootAtSlot s decisionSlot) (\<lambda>r. Inr (Some r)))"

definition proposerShufflingDecisionSlot :: "cached_state \<Rightarrow> slot" where
  "proposerShufflingDecisionSlot s = computeStartSlotAtEpoch (es_epoch (ec_currentShuffling (epochCtx s))) - 1"

definition proposerShufflingDecisionRoot :: "cached_state \<Rightarrow> st_error + root option" where
  "proposerShufflingDecisionRoot s = decisionRootAt s (proposerShufflingDecisionSlot s)"

definition attesterShufflingDecisionEpoch :: "cached_state \<Rightarrow> epoch \<Rightarrow> st_error + epoch" where
  "attesterShufflingDecisionEpoch s requestedEpoch =
     (let currentEpoch = es_epoch (ec_currentShuffling (epochCtx s));
          previousEpoch = es_epoch (ec_previousShuffling (epochCtx s))
      in if requestedEpoch = currentEpoch + 1 then Inr currentEpoch
         else if requestedEpoch = currentEpoch then Inr previousEpoch
         else if int requestedEpoch = int currentEpoch - 1 then Inr (previousEpoch - 1)
         else if requestedEpoch < currentEpoch then Inl (DecisionEpochTooLow currentEpoch requestedEpoch)
         else Inl (DecisionEpochTooHigh currentEpoch requestedEpoch))"

definition attesterShufflingDecisionSlot :: "cached_state \<Rightarrow> epoch \<Rightarrow> st_error + slot" where
  "attesterShufflingDecisionSlot s requestedEpoch =
     bind_res (attesterShufflingDecisionEpoch s requestedEpoch) (\<lambda>e. Inr (computeStartSlotAtEpoch e - 1))"

definition attesterShufflingDecisionRoot :: "cached_state \<Rightarrow> epoch \<Rightarrow> st_error + root option" where
  "attesterShufflingDecisionRoot s requestedEpoch =
     bind_res (attesterShufflingDecisionSlot s requestedEpoch) (decisionRootAt s)"

end
