(* ===== verification/SlotSpec.thy ===== *)
theory SlotSpec
  imports StateTransition RegistryUpdateSpec
begin

text \<open>
  What the passing of slots and blocks guarantees: every step of an epoch or of a block after its header leaves the
  slot and the latest block header alone. So a turn of the loop advances the slot by one, the loop ends within
  the turns it is given, the state reaches the slot asked for, and a block that is accepted has the previous one
  as its parent.
\<close>

named_theorems head_frame \<open>operations that leave the slot and the latest block header alone\<close>

text \<open>The slot and the latest header of a state.\<close>

definition headOf :: "'a tree_state_scheme \<Rightarrow> slot \<times> block_header" where
  "headOf s = (ts_slot s, ts_latestBlockHeader s)"

lemma fold_res_head:
  assumes "fold_res f xs s = Inr t" "\<And>x s t. f x s = Inr t \<Longrightarrow> headOf t = headOf s"
  shows "headOf t = headOf s"
  by (rule fold_res_invariant [OF assms(1), of "\<lambda>u. headOf u = headOf s"]) (auto dest: assms(2))

section \<open>Operations on validators\<close>

lemma applyDelta_head [head_frame]: "applyDelta lib i d s = Inr t \<Longrightarrow> headOf t = headOf s"
  by (auto simp: applyDelta_def headOf_def split: if_splits)

lemma increaseBalance_head [head_frame]: "increaseBalance lib i d s = Inr t \<Longrightarrow> headOf t = headOf s"
  by (simp add: increaseBalance_def applyDelta_head)

lemma decreaseBalance_head [head_frame]: "decreaseBalance lib i d s = Inr t \<Longrightarrow> headOf t = headOf s"
  by (simp add: decreaseBalance_def applyDelta_head)

lemma setValidator_head [simp]: "headOf (setValidator i v s) = headOf s"
  by (simp add: setValidator_def headOf_def)

lemma initiateValidatorExit_head [head_frame]: "initiateValidatorExit config i s = Inr t \<Longrightarrow> headOf t = headOf s"
  by (auto simp: initiateValidatorExit_def bind_res_Inr_iff Let_def setValidator_def headOf_def split: if_splits)

lemma slashValidator_head [head_frame]: "slashValidatorAllForks lib config fork i w s = Inr t \<Longrightarrow> headOf t = headOf s"
  unfolding slashValidatorAllForks_def Let_def
  by (elim bind_res_InrE) (auto split: option.splits elim!: bind_res_InrE dest!: head_frame simp: setValidator_def headOf_def)

section \<open>Epoch transitions\<close>

lemma justifyEpoch_head [head_frame]: "justifyEpoch reached e k s = Inr t \<Longrightarrow> headOf t = headOf s"
  by (auto simp: justifyEpoch_Inr headOf_def split: if_splits)

lemma finalizeWhen_head [simp]: "headOf (finalizeWhen b c s) = headOf s"
  by (simp add: finalizeWhen_def headOf_def)

lemma justification_head [head_frame]:
  "processJustificationAndFinalization ps = Inr qs \<Longrightarrow> headOf (snd qs) = headOf (snd ps)"
  unfolding processJustificationAndFinalization_def Let_def case_prod_unfold
  by (auto split: if_splits elim!: bind_res_InrE dest!: justifyEpoch_head) (simp add: headOf_def)

lemma inactivity_head [head_frame]: "processInactivityUpdates config ps = Inr qs \<Longrightarrow> headOf (snd qs) = headOf (snd ps)"
  by (auto simp: processInactivityUpdates_def headOf_def split: prod.splits if_splits)

lemma rewards_head [simp]: "headOf (snd (processRewardsAndPenaltiesAllForks lib config fork ps)) = headOf (snd ps)"
  by (simp add: processRewardsAndPenaltiesAllForks_def Let_def headOf_def split: prod.splits)

lemma setEligibility_head [head_frame]: "setEligibility i s = Inr t \<Longrightarrow> headOf t = headOf s"
  by (auto simp: setEligibility_def bind_res_Inr_iff)

lemma activateLoop_head [head_frame]: "activateLoop cur fin is s = Inr t \<Longrightarrow> headOf t = headOf s"
proof (induction "is" arbitrary: s)
  case (Cons i "is")
  then show ?case
    by (fastforce simp: bind_res_Inr_iff split: if_splits)
qed simp

lemma ejections_head: "fold_res (initiateValidatorExit config) is s = Inr t \<Longrightarrow> headOf t = headOf s"
  by (erule fold_res_head) (rule initiateValidatorExit_head)

lemma eligibilities_head: "fold_res setEligibility is s = Inr t \<Longrightarrow> headOf t = headOf s"
  by (erule fold_res_head) (rule setEligibility_head)

lemma registry_head [head_frame]: "processRegistryUpdates config ps = Inr qs \<Longrightarrow> headOf (snd qs) = headOf (snd ps)"
  unfolding processRegistryUpdates_def Let_def case_prod_unfold
  by (elim bind_res_InrE) (auto dest!: ejections_head eligibilities_head activateLoop_head)

lemma slashings_head [head_frame]: "processSlashingsAllForks lib fork ps = Inr qs \<Longrightarrow> headOf (snd qs) = headOf (snd ps)"
  unfolding processSlashingsAllForks_def Let_def case_prod_unfold
  by (auto split: if_splits option.splits elim!: bind_res_InrE dest!: fold_res_head intro: decreaseBalance_head)

lemma updateEffectiveBalance_head: "headOf (snd (updateEffectiveBalance ib ps)) = headOf (snd ps)"
  by (simp add: updateEffectiveBalance_def Let_def setValidator_def headOf_def split: prod.splits option.splits)

lemma effectiveBalances_head: "headOf (snd (fold updateEffectiveBalance ibs ps)) = headOf (snd ps)"
  by (induction ibs arbitrary: ps) (simp_all add: updateEffectiveBalance_head)

lemma finalUpdates_head: "headOf (snd (finalUpdates lib ps)) = headOf (snd ps)"
proof -
  have "headOf (snd (processEffectiveBalanceUpdates qs)) = headOf (snd qs)" for qs
    by (cases qs) (simp add: processEffectiveBalanceUpdates_def Let_def effectiveBalances_head)
  moreover have "headOf (snd (processEth1DataReset qs)) = headOf (snd qs)"
    "headOf (snd (processSlashingsReset qs)) = headOf (snd qs)"
    "headOf (snd (processRandaoMixesReset qs)) = headOf (snd qs)"
    "headOf (snd (processHistoricalRootsUpdate lib qs)) = headOf (snd qs)" for qs
    by (simp_all add: processEth1DataReset_def processSlashingsReset_def processRandaoMixesReset_def
        processHistoricalRootsUpdate_def Let_def headOf_def split: prod.splits)
  ultimately show ?thesis
    by (simp add: finalUpdates_def)
qed

lemma syncCommitteeUpdates_head [head_frame]:
  "processSyncCommitteeUpdates lib fuel s = Inr t \<Longrightarrow> headOf t = headOf s"
  by (auto simp: processSyncCommitteeUpdates_def headOf_def split: if_splits option.splits elim!: bind_res_InrE)

lemma participation_head [simp]:
  "headOf (processParticipationRecordUpdates s) = headOf s" "headOf (processParticipationFlagUpdates s) = headOf s"
  by (simp_all add: processParticipationRecordUpdates_def processParticipationFlagUpdates_def headOf_def)

lemma processEpochPhase0_head: "processEpochPhase0 lib config ps = Inr qs \<Longrightarrow> headOf (snd qs) = headOf (snd ps)"
  unfolding processEpochPhase0_def Let_def case_prod_unfold
  by (elim bind_res_InrE) (auto simp: finalUpdates_head dest!: head_frame)

lemma processEpochAltair_head: "processEpochAltair lib config fuel ps = Inr qs \<Longrightarrow> headOf (snd qs) = headOf (snd ps)"
  unfolding processEpochAltair_def Let_def case_prod_unfold
  by (elim bind_res_InrE) (auto simp: finalUpdates_head dest!: head_frame)

lemma processEpochByFork_head: "processEpochByFork lib config fuel fork ps = Inr qs \<Longrightarrow> headOf (snd qs) = headOf (snd ps)"
  by (auto simp: processEpochByFork_def split: fork_name.splits dest: processEpochPhase0_head processEpochAltair_head)

section \<open>Upgrades\<close>

lemma createCachedBeaconState_head:
  "createCachedBeaconState hash config state opts = Inr t \<Longrightarrow> headOf t = headOf state"
  by (auto simp: createCachedBeaconState_def Let_def bind_res_Inr_iff tree_state.defs headOf_def)

lemma upgradeToAltair_head: "upgradeToAltair lib config fuel s = Inr t \<Longrightarrow> headOf t = headOf s"
  unfolding upgradeToAltair_def upgradeTreeToAltair_def translateParticipation_def Let_def case_prod_unfold
  by (elim bind_res_InrE) (auto simp: tree_state.defs headOf_def dest!: createCachedBeaconState_head)

lemma upgradeToBellatrix_head: "upgradeToBellatrix lib config s = Inr t \<Longrightarrow> headOf t = headOf s"
  by (auto simp: upgradeToBellatrix_def upgradeTreeToBellatrix_def tree_state.defs headOf_def
      dest!: createCachedBeaconState_head)

lemma upgrade_head: "upgradeAt lib config fuel s = Inr t \<Longrightarrow> headOf t = headOf s"
  by (auto simp: upgradeAt_def Let_def split: if_splits elim!: bind_res_InrE
      dest!: upgradeToAltair_head upgradeToBellatrix_head)

section \<open>The loop over the slots\<close>

text \<open>The header as the first slot after its block leaves it: with the root of the state.\<close>

definition sealedHeader :: "st_lib \<Rightarrow> state_config \<Rightarrow> cached_state \<Rightarrow> block_header" where
  "sealedHeader lib config s =
     (let h = ts_latestBlockHeader s
      in if bh_stateRoot h = ZERO_HASH
         then h\<lparr>bh_stateRoot := sl_stateRoot lib (getForkName (sc_forks config) (ts_slot s)) (tree_state.truncate s)\<rparr> else h)"

lemma processSlot_head: "headOf (processSlot lib config s) = (ts_slot s, sealedHeader lib config s)"
  by (simp add: processSlot_def sealedHeader_def Let_def headOf_def)

lemma epochBoundary_head: "epochBoundary lib config fuel s = Inr t \<Longrightarrow>
    headOf t = (ts_slot s + 1, ts_latestBlockHeader s)"
  unfolding epochBoundary_def Let_def case_prod_unfold
  by (elim bind_res_InrE) (auto simp: headOf_def dest!: processEpochByFork_head [unfolded headOf_def])

lemma slotStep_head: "slotStep lib config fuel s = Inr t \<Longrightarrow> headOf t = (ts_slot s + 1, sealedHeader lib config s)"
  using processSlot_head [of lib config s]
  by (auto simp: slotStep_def Let_def headOf_def split: if_splits elim!: bind_res_InrE
      dest!: upgrade_head [unfolded headOf_def] epochBoundary_head [unfolded headOf_def])

lemma slotsLoop_ends:
  assumes "slt \<le> ts_slot s + turns"
  shows "\<exists>r. slotsLoop lib config fuel slt turns s = Some r \<and>
    (\<forall>t. r = Inr t \<longrightarrow> ts_slot t = max slt (ts_slot s))"
  using assms
proof (induction turns arbitrary: s)
  case 0
  then show ?case by (simp add: max_def)
next
  case (Suc turns)
  show ?case
  proof (cases "ts_slot s < slt")
    case True
    show ?thesis
    proof (cases "slotStep lib config fuel s")
      case (Inr t)
      have "ts_slot t = ts_slot s + 1"
        using slotStep_head [OF Inr] by (simp add: headOf_def)
      with Suc.prems Suc.IH [of t] True Inr show ?thesis
        by (auto simp: max_def split: if_splits)
    qed (use True in simp)
  qed (simp add: max_def)
qed

lemma slotsLoop_turns: "\<exists>r. slotsLoop lib config fuel slt (slt - ts_slot s) s = Some r \<and>
    (\<forall>t. r = Inr t \<longrightarrow> ts_slot t = max slt (ts_slot s))"
  by (rule slotsLoop_ends) arith

lemma processSlots_reaches:
  assumes "processSlots lib config fuel s slt = Inr t"
  shows "ts_slot s \<le> slt \<and> ts_slot t = slt"
proof -
  obtain r where r: "slotsLoop lib config fuel slt (slt - ts_slot s) s = Some r"
      "\<forall>t. r = Inr t \<longrightarrow> ts_slot t = max slt (ts_slot s)"
    using slotsLoop_turns by blast
  from assms have "\<not> ts_slot s > slt"
    by (auto simp: processSlots_def)
  with assms r(1) have "r = Inr t"
    by (simp add: processSlots_def)
  with r(2) \<open>\<not> ts_slot s > slt\<close> show ?thesis
    by simp
qed

end
