(* ===== verification/BlockChainSpec.thy ===== *)
theory BlockChainSpec
  imports SlotSpec
begin

text \<open>
  How blocks follow each other: no operation of a block touches the slot or the header that the block has set, and the
  next block is accepted only when its parent root is the root of that header, completed by the root of the state.
\<close>

section \<open>Operations of a block\<close>

lemma processRandao_head [head_frame]: "processRandao lib s block v = Inr t \<Longrightarrow> headOf t = headOf s"
  by (auto simp: processRandao_def Let_def headOf_def split: if_splits elim!: bind_res_InrE)

lemma processEth1Data_head [simp]: "headOf (processEth1Data lib s body) = headOf s"
  by (simp add: processEth1Data_def Let_def headOf_def)

lemma processProposerSlashing_head [head_frame]:
  "processProposerSlashing lib config fork v op s = Inr t \<Longrightarrow> headOf t = headOf s"
  by (auto simp: processProposerSlashing_def elim!: bind_res_InrE dest!: slashValidator_head)

lemma slashIfSlashable_head: "slashIfSlashable lib config fork i acc = Inr acc' \<Longrightarrow> headOf (fst acc') = headOf (fst acc)"
  by (auto simp: slashIfSlashable_def split: prod.splits if_splits elim!: bind_res_InrE dest!: slashValidator_head)

lemma slashings_loop_head:
  assumes "fold_res (slashIfSlashable lib config fork) is acc = Inr acc'"
  shows "headOf (fst acc') = headOf (fst acc)"
  by (rule fold_res_invariant [OF assms, of "\<lambda>a. headOf (fst a) = headOf (fst acc)"]) (auto dest: slashIfSlashable_head)

lemma processAttesterSlashing_head [head_frame]:
  "processAttesterSlashing lib config fork v op s = Inr t \<Longrightarrow> headOf t = headOf s"
  by (auto simp: processAttesterSlashing_def split: if_splits prod.splits elim!: bind_res_InrE dest!: slashings_loop_head)

lemma processAttestation_head [head_frame]: "processAttestation lib v att s = Inr t \<Longrightarrow> headOf t = headOf s"
  by (auto simp: processAttestation_def Let_def headOf_def split: if_splits elim!: bind_res_InrE)

lemma processAttestations_head [head_frame]: "processAttestations lib v atts s = Inr t \<Longrightarrow> headOf t = headOf s"
  by (auto simp: processAttestations_def headOf_def elim!: bind_res_InrE dest!: increaseBalance_head [unfolded headOf_def])

lemma processDeposit_head [head_frame]: "processDeposit lib config fork dep s = Inr t \<Longrightarrow> headOf t = headOf s"
  by (auto simp: processDeposit_def addValidator_def Let_def headOf_def split: if_splits option.splits elim!: bind_res_InrE
      dest!: increaseBalance_head [unfolded headOf_def])

lemma processVoluntaryExit_head [head_frame]: "processVoluntaryExit lib config v op s = Inr t \<Longrightarrow> headOf t = headOf s"
  by (auto simp: processVoluntaryExit_def split: if_splits elim!: bind_res_InrE dest!: initiateValidatorExit_head)

lemma processSyncAggregate_head [head_frame]: "processSyncAggregate lib s block v = Inr t \<Longrightarrow> headOf t = headOf s"
  by (auto simp: processSyncAggregate_def applyDeltaInBatch_def split: if_splits elim!: bind_res_InrE dest!: fold_res_head
      intro: applyDelta_head)

lemma processExecutionPayload_head [head_frame]:
  "processExecutionPayload lib config s payload engine = Inr t \<Longrightarrow> headOf t = headOf s"
  by (auto simp: processExecutionPayload_def Let_def headOf_def split: if_splits option.splits)

text \<open>The loops over the operations of one kind.\<close>

lemma operation_loops_head [head_frame]:
  "fold_res (processProposerSlashing lib config fork v) ops1 s = Inr t \<Longrightarrow> headOf t = headOf s"
  "fold_res (processAttesterSlashing lib config fork v) ops2 s = Inr t \<Longrightarrow> headOf t = headOf s"
  "fold_res (processAttestation lib v) ops3 s = Inr t \<Longrightarrow> headOf t = headOf s"
  "fold_res (processDeposit lib config fork) ops4 s = Inr t \<Longrightarrow> headOf t = headOf s"
  "fold_res (processVoluntaryExit lib config v) ops5 s = Inr t \<Longrightarrow> headOf t = headOf s"
  by (erule fold_res_head, erule processProposerSlashing_head processAttesterSlashing_head processAttestation_head
      processDeposit_head processVoluntaryExit_head)+

lemma processOperations_head [head_frame]:
  "processOperationsPhase0 lib config s body v = Inr t \<Longrightarrow> headOf t = headOf s"
  "processOperationsAltair lib config fork s body v = Inr t \<Longrightarrow> headOf t = headOf s"
  unfolding processOperationsPhase0_def processOperationsAltair_def
  by (auto elim!: bind_res_InrE dest!: head_frame)

section \<open>The header of a block\<close>

definition headerOfBlock :: "st_lib \<Rightarrow> state_config \<Rightarrow> st_block \<Rightarrow> block_header" where
  "headerOfBlock lib config block =
     \<lparr>bh_slot = bl_slot block, bh_proposerIndex = bl_proposerIndex block, bh_parentRoot = bl_parentRoot block,
      bh_stateRoot = ZERO_HASH, bh_bodyRoot = sl_bodyRoot lib (getForkName (sc_forks config) (bl_slot block)) (bl_body block)\<rparr>"

lemma processBlockHeader_Inr:
  "processBlockHeader lib config s block = Inr t \<longleftrightarrow>
     bl_slot block = ts_slot s \<and> bh_slot (ts_latestBlockHeader s) < bl_slot block \<and>
     getBeaconProposer (epochCtx s) (ts_slot s) = Inr (int (bl_proposerIndex block)) \<and>
     bl_parentRoot block = sl_headerRoot lib (ts_latestBlockHeader s) \<and>
     bl_proposerIndex block < length (ts_validators s) \<and> \<not> v_slashed (ts_validators s ! bl_proposerIndex block) \<and>
     t = s\<lparr>ts_latestBlockHeader := headerOfBlock lib config block\<rparr>"
  by (auto simp: processBlockHeader_def Let_def bind_res_Inr_iff getValidator_def headerOfBlock_def
      nth_opt_def split: if_splits)

lemma processBlock_head:
  assumes "processBlock lib config s block v = Inr t"
  shows "headOf t = (ts_slot s, headerOfBlock lib config block) \<and> bl_slot block = ts_slot s \<and>
    bl_parentRoot block = sl_headerRoot lib (ts_latestBlockHeader s)"
proof -
  have step: "headOf u = (ts_slot s, headerOfBlock lib config block)"
    if "processBlockHeader lib config s block = Inr s1" "headOf u = headOf s1" for s1 u
    using that by (auto simp: processBlockHeader_Inr headOf_def)
  have "\<exists>s1. processBlockHeader lib config s block = Inr s1 \<and> headOf t = headOf s1"
    using assms unfolding processBlock_def processBlockPhase0_def processBlockAltair_def processBlockBellatrix_def
    by (auto split: fork_name.splits if_splits elim!: bind_res_InrE dest!: head_frame)
  then obtain s1 where "processBlockHeader lib config s block = Inr s1" "headOf t = headOf s1" by blast
  with step [OF this] show ?thesis
    by (simp add: processBlockHeader_Inr)
qed

section \<open>Chains of blocks\<close>

lemma sealedHeader_sealed: "bh_stateRoot h \<noteq> ZERO_HASH \<Longrightarrow> ts_latestBlockHeader s = h \<Longrightarrow> sealedHeader lib config s = h"
  by (simp add: sealedHeader_def Let_def)

lemma slotsLoop_header:
  assumes "slotsLoop lib config fuel slt turns s = Some (Inr t)" "bh_stateRoot (ts_latestBlockHeader s) \<noteq> ZERO_HASH"
  shows "ts_latestBlockHeader t = ts_latestBlockHeader s"
  using assms
proof (induction turns arbitrary: s)
  case (Suc turns)
  show ?case
  proof (cases "ts_slot s < slt")
    case True
    with Suc.prems(1) obtain u where u: "slotStep lib config fuel s = Inr u" "slotsLoop lib config fuel slt turns u = Some (Inr t)"
      by (auto split: sum.splits)
    from slotStep_head [OF u(1)] have "ts_latestBlockHeader u = ts_latestBlockHeader s"
      using sealedHeader_sealed [OF Suc.prems(2) refl] by (simp add: headOf_def)
    with Suc.IH [OF u(2)] Suc.prems(2) show ?thesis by simp
  qed (use Suc.prems(1) in simp)
qed (auto split: if_splits)

lemma processSlots_header:
  assumes "processSlots lib config fuel s slt = Inr t" "ts_slot s < slt" "bh_stateRoot (sealedHeader lib config s) \<noteq> ZERO_HASH"
  shows "ts_latestBlockHeader t = sealedHeader lib config s"
proof -
  obtain n where n: "slt - ts_slot s = Suc n"
    using assms(2) by (cases "slt - ts_slot s") auto
  have "slotsLoop lib config fuel slt (Suc n) s = Some (Inr t)"
    using assms(1,2) n slotsLoop_turns [of lib config fuel slt s] by (auto simp: processSlots_def)
  then obtain u where u: "slotStep lib config fuel s = Inr u" "slotsLoop lib config fuel slt n u = Some (Inr t)"
    using assms(2) by (auto split: sum.splits)
  from slotStep_head [OF u(1)] have "ts_latestBlockHeader u = sealedHeader lib config s"
    by (simp add: headOf_def)
  with slotsLoop_header [OF u(2)] assms(3) show ?thesis by simp
qed

lemma stateTransition_parts:
  assumes "stateTransition lib config fuel s sb vr vp vs = Inr t"
  obtains u where "processSlots lib config fuel s (bl_slot (sb_message sb)) = Inr u"
    "processBlock lib config u (sb_message sb) vs = Inr t"
    "vr \<longrightarrow> bl_stateRoot (sb_message sb) =
       sl_stateRoot lib (getForkName (sc_forks config) (ts_slot t)) (tree_state.truncate t)"
  using assms unfolding stateTransition_def Let_def
  by (elim bind_res_InrE) (auto split: if_splits elim!: bind_res_InrE)

lemma stateTransition_result:
  assumes "stateTransition lib config fuel s sb vr vp vs = Inr t"
  shows "ts_slot t = bl_slot (sb_message sb) \<and> ts_latestBlockHeader t = headerOfBlock lib config (sb_message sb) \<and>
    (vr \<longrightarrow> bl_stateRoot (sb_message sb) =
       sl_stateRoot lib (getForkName (sc_forks config) (bl_slot (sb_message sb))) (tree_state.truncate t))"
proof -
  obtain u where u: "processSlots lib config fuel s (bl_slot (sb_message sb)) = Inr u"
    "processBlock lib config u (sb_message sb) vs = Inr t"
    "vr \<longrightarrow> bl_stateRoot (sb_message sb) =
       sl_stateRoot lib (getForkName (sc_forks config) (ts_slot t)) (tree_state.truncate t)"
    by (rule stateTransition_parts [OF assms])
  from processBlock_head [OF u(2)] u(3) show ?thesis
    by (auto simp: headOf_def)
qed

lemma next_block_parent:
  assumes first: "stateTransition lib config fuel s sb True vp1 vs1 = Inr t"
    and second: "stateTransition lib config fuel t sb' vr vp2 vs2 = Inr t'"
    and root: "bl_stateRoot (sb_message sb) \<noteq> ZERO_HASH"
  shows "bl_slot (sb_message sb) < bl_slot (sb_message sb') \<and>
    bl_parentRoot (sb_message sb') =
      sl_headerRoot lib ((headerOfBlock lib config (sb_message sb))\<lparr>bh_stateRoot := bl_stateRoot (sb_message sb)\<rparr>)"
proof -
  note t = stateTransition_result [OF first]
  obtain u where u: "processSlots lib config fuel t (bl_slot (sb_message sb')) = Inr u"
    "processBlock lib config u (sb_message sb') vs2 = Inr t'"
    by (rule stateTransition_parts [OF second])
  have seal: "sealedHeader lib config t = (headerOfBlock lib config (sb_message sb))\<lparr>bh_stateRoot := bl_stateRoot (sb_message sb)\<rparr>"
    using t by (simp add: sealedHeader_def headerOfBlock_def)
  from u(2) obtain u1 where "processBlockHeader lib config u (sb_message sb') = Inr u1"
    unfolding processBlock_def processBlockPhase0_def processBlockAltair_def processBlockBellatrix_def
    by (auto split: fork_name.splits elim!: bind_res_InrE)
  then have h: "bh_slot (ts_latestBlockHeader u) < bl_slot (sb_message sb')"
      "bl_parentRoot (sb_message sb') = sl_headerRoot lib (ts_latestBlockHeader u)"
    by (auto simp: processBlockHeader_Inr)
  have "ts_slot t \<le> bl_slot (sb_message sb')"
    using processSlots_reaches [OF u(1)] by simp
  moreover have "ts_slot t \<noteq> bl_slot (sb_message sb')"
  proof
    assume same: "ts_slot t = bl_slot (sb_message sb')"
    with u(1) have "u = t" by (simp add: processSlots_def)
    with h(1) t same show False by (simp add: headerOfBlock_def)
  qed
  ultimately have less: "ts_slot t < bl_slot (sb_message sb')" by simp
  from processSlots_header [OF u(1) this] root have "ts_latestBlockHeader u = sealedHeader lib config t"
    by (simp add: seal headerOfBlock_def)
  with h(2) less t show ?thesis by (simp add: seal)
qed

section \<open>Properties\<close>

text \<open>
  C8. The loop of \<open>processSlots\<close> ends within as many turns as there are slots to pass; a slot that is behind the
  state is refused, and a state that is returned has exactly the slot asked for, through all epoch
  transitions and fork upgrades in between.
\<close>

theorem processSlots_ends:
  "slotsLoop lib config fuel slt (slt - ts_slot s) s \<noteq> None \<and>
   (slt < ts_slot s \<longrightarrow> processSlots lib config fuel s slt = Inl (SlotTooOld slt (ts_slot s))) \<and>
   (\<forall>t. processSlots lib config fuel s slt = Inr t \<longrightarrow> ts_slot s \<le> slt \<and> ts_slot t = slt)"
proof (intro conjI allI impI)
  obtain r where "slotsLoop lib config fuel slt (slt - ts_slot s) s = Some r"
    using slotsLoop_turns by blast
  then show "slotsLoop lib config fuel slt (slt - ts_slot s) s \<noteq> None"
    by simp
  show "slt < ts_slot s \<Longrightarrow> processSlots lib config fuel s slt = Inl (SlotTooOld slt (ts_slot s))"
    by (simp add: processSlots_def)
qed (simp_all add: processSlots_reaches)

text \<open>
  C7. Accepted blocks form a chain. When a state transition with a checked state root has accepted a block, a
  later block is accepted on the resulting state only if it has a later slot and its parent root is the root of the
  first block's header, which has the state root that the first block claims.
\<close>

theorem stateTransition_chain:
  assumes "stateTransition lib config fuel s sb True vp1 vs1 = Inr t"
    and "stateTransition lib config fuel t sb' vr vp2 vs2 = Inr t'"
    and "bl_stateRoot (sb_message sb) \<noteq> ZERO_HASH"
  shows "bl_slot (sb_message sb) < bl_slot (sb_message sb') \<and>
    bl_parentRoot (sb_message sb') =
      sl_headerRoot lib ((headerOfBlock lib config (sb_message sb))\<lparr>bh_stateRoot := bl_stateRoot (sb_message sb)\<rparr>)"
  using assms by (rule next_block_parent)

end
