(* ===== verification/OperationSpec.thy ===== *)
theory OperationSpec
  imports BlockAttestations EpochTransitionSpec RegistrySpec
begin

text \<open>
  The invariant of a beacon state between the operations of a block: the registry, the balances, the participation and the
  caches of the context agree. The lemmas show that exits, slashings, deposits and votes keep it.
\<close>

section \<open>The invariant\<close>

text \<open>The caches of public keys know the validators of the state; they may know others, of another chain.\<close>

definition pubkeysOk :: "epoch_ctx \<Rightarrow> validator list \<Rightarrow> bool" where
  "pubkeysOk c vs \<longleftrightarrow> length vs \<le> length (ec_index2pubkey c) \<and>
     (\<forall>i < length vs. ec_index2pubkey c ! i = v_pubkey (vs ! i) \<and> jm_get (ec_pubkey2index c) (v_pubkey (vs ! i)) = Some i)"

text \<open>\<open>k\<close> more validators have an index among the safe integers.\<close>

definition currentEpochOf :: "cached_state \<Rightarrow> epoch" where
  "currentEpochOf s = es_epoch (ec_currentShuffling (epochCtx s))"

definition stateOk :: "fork_name \<Rightarrow> nat \<Rightarrow> cached_state \<Rightarrow> bool" where
  "stateOk fork k s \<longleftrightarrow> balancesOk s \<and> pubkeysOk (epochCtx s) (ts_validators s) \<and>
     queueOk (currentEpochOf s) (epochCtx s) (ts_validators s) \<and> 0 < ec_churnLimit (epochCtx s) \<and>
     length (ts_validators s) + k \<le> MAX_SAFE_INTEGER \<and>
     length (ts_previousEpochParticipation s) = length (ts_validators s) \<and>
     length (ts_currentEpochParticipation s) = length (ts_validators s) \<and>
     (fork \<noteq> Phase0 \<longrightarrow> length (ts_inactivityScores s) = length (ts_validators s))"

named_theorems state_ok \<open>operations that keep the invariant\<close>

lemma fold_res_ok:
  assumes "fold_res f xs s = Inr t" "stateOk fork k s" "\<And>x s t. f x s = Inr t \<Longrightarrow> stateOk fork k s \<Longrightarrow> stateOk fork k t"
  shows "stateOk fork k t"
  by (rule fold_res_invariant [where P = "stateOk fork k", OF assms(1,2)]) (blast dest: assms(3))

section \<open>Balances\<close>

lemma applyDelta_Inr: "applyDelta lib i d s = Inr t \<longleftrightarrow> 0 \<le> i \<and> nat i < length (ts_balances s) \<and>
    t = s\<lparr>ts_balances := (ts_balances s)[nat i := sl_addDelta lib (ts_balances s ! nat i) d]\<rparr>"
  by (auto simp: applyDelta_def)

lemma stateOk_balances [simp]: "length bs = length (ts_balances s) \<Longrightarrow> stateOk fork k (s\<lparr>ts_balances := bs\<rparr>) = stateOk fork k s"
  by (simp add: stateOk_def balancesOk_def currentEpochOf_def)

lemma balance_ok [state_ok]:
  "applyDelta lib i d s = Inr t \<Longrightarrow> stateOk fork k s \<Longrightarrow> stateOk fork k t"
  "increaseBalance lib i n s = Inr t \<Longrightarrow> stateOk fork k s \<Longrightarrow> stateOk fork k t"
  "decreaseBalance lib i n s = Inr t \<Longrightarrow> stateOk fork k s \<Longrightarrow> stateOk fork k t"
  by (auto simp: applyDelta_Inr increaseBalance_def decreaseBalance_def)

section \<open>Exits\<close>

lemma queueOk_cong: "map v_exitEpoch vs = map v_exitEpoch vs' \<Longrightarrow> queueOk cur c vs = queueOk cur c vs'"
  by (simp add: queueOk_def queueExact_def queueSkipped_def specQueueEpoch_def specQueueChurn_def exitEpochs_def)

text \<open>A validator that keeps its key, its effective balance and its exit.\<close>

lemma stateOk_validator:
  assumes "stateOk fork k s" "i < length (ts_validators s)" "v_pubkey v = v_pubkey (ts_validators s ! i)"
    "v_effectiveBalance v = v_effectiveBalance (ts_validators s ! i)" "v_exitEpoch v = v_exitEpoch (ts_validators s ! i)"
  shows "stateOk fork k (setValidator i v s)"
proof -
  have "map v_exitEpoch ((ts_validators s)[i := v]) = map v_exitEpoch (ts_validators s)"
    using assms(2,5) by (simp add: map_update list_update_same_conv)
  from queueOk_cong [OF this] assms show ?thesis
    by (auto simp: stateOk_def setValidator_def balancesOk_def pubkeysOk_def currentEpochOf_def nth_list_update)
qed

text \<open>What an exit does: the validator and the counters of the queue.\<close>

definition exitedValidator :: "state_config \<Rightarrow> epoch \<Rightarrow> validator \<Rightarrow> validator" where
  "exitedValidator config e v =
     v\<lparr>v_exitEpoch := enat e, v_withdrawableEpoch := enat (e + MIN_VALIDATOR_WITHDRAWABILITY_DELAY config)\<rparr>"

lemma initiateValidatorExit_Inr: "initiateValidatorExit config i s = Inr t \<longleftrightarrow> i < length (ts_validators s) \<and>
    t = (if v_exitEpoch (ts_validators s ! i) \<noteq> FAR_FUTURE_EPOCH then s
      else setValidator i (exitedValidator config (ec_exitQueueEpoch (nextInQueue (epochCtx s))) (ts_validators s ! i))
        (s\<lparr>epochCtx := nextInQueue (epochCtx s)\<rparr>))"
  by (auto simp: initiateValidatorExit_def getValidator_def nth_opt_def Let_def exitedValidator_def)

lemma nextInQueue_fields [simp]:
  "ec_pubkey2index (nextInQueue c) = ec_pubkey2index c" "ec_index2pubkey (nextInQueue c) = ec_index2pubkey c"
  "ec_effectiveBalanceIncrements (nextInQueue c) = ec_effectiveBalanceIncrements c"
  "ec_currentShuffling (nextInQueue c) = ec_currentShuffling c" "ec_proposers (nextInQueue c) = ec_proposers c"
  by (simp_all add: nextInQueue_def)

lemma exit_ok [state_ok]:
  assumes "initiateValidatorExit config i s = Inr t" "stateOk fork k s"
  shows "stateOk fork k t"
proof (cases "v_exitEpoch (ts_validators s ! i) = FAR_FUTURE_EPOCH")
  case True
  have i: "i < length (ts_validators s)"
    using assms(1) by (simp add: initiateValidatorExit_Inr)
  have "queueOk (currentEpochOf s) (epochCtx s) (ts_validators s)" "0 < ec_churnLimit (epochCtx s)"
    using assms(2) by (simp_all add: stateOk_def)
  from exit_step [OF this i True, of config] assms(1)
  have "queueOk (currentEpochOf s) (epochCtx t) (ts_validators t)"
    by (auto simp: Let_def)
  with assms i True show ?thesis
    by (auto simp: initiateValidatorExit_Inr stateOk_def setValidator_def balancesOk_def pubkeysOk_def currentEpochOf_def
        exitedValidator_def nth_list_update)
qed (use assms in \<open>simp add: initiateValidatorExit_Inr\<close>)

section \<open>Slashings\<close>

definition slashedValidator :: "epoch \<Rightarrow> validator \<Rightarrow> validator" where
  "slashedValidator e v =
     v\<lparr>v_slashed := True, v_withdrawableEpoch := max (v_withdrawableEpoch v) (enat (e + EPOCHS_PER_SLASHINGS_VECTOR))\<rparr>"

text \<open>The rewards of a slashing move balances only.\<close>

lemma rewards_balances:
  assumes "bind_res (getBeaconProposer c n) (\<lambda>p. case w of None \<Rightarrow> increaseBalance lib p a s
    | Some j \<Rightarrow> bind_res (increaseBalance lib p b s) (increaseBalance lib (int j) d)) = Inr t"
  shows "\<exists>bs. length bs = length (ts_balances s) \<and> t = s\<lparr>ts_balances := bs\<rparr>"
proof (cases w)
  case None
  with assms show ?thesis
    by (auto simp: bind_res_Inr_iff increaseBalance_def applyDelta_Inr intro!: exI [of _ "ts_balances t"])
next
  case (Some j)
  with assms show ?thesis
    by (auto simp: bind_res_Inr_iff increaseBalance_def applyDelta_Inr intro!: exI [of _ "ts_balances t"])
qed

text \<open>A slashing exits the validator, marks it, counts its balance, and moves balances.\<close>

lemma slashValidator_parts:
  assumes "slashValidatorAllForks lib config fork i w s = Inr t"
  obtains s1 bs where "initiateValidatorExit config i s = Inr s1" "i < length (ts_validators s)"
    "t = (setValidator i (slashedValidator (currentEpochOf s) (ts_validators s1 ! i)) s1)
      \<lparr>ts_slashings := (ts_slashings s1)[currentEpochOf s mod EPOCHS_PER_SLASHINGS_VECTOR :=
         ts_slashings s1 ! (currentEpochOf s mod EPOCHS_PER_SLASHINGS_VECTOR) + v_effectiveBalance (ts_validators s1 ! i)],
       ts_balances := bs\<rparr>" "length bs = length (ts_balances s)"
  using assms unfolding slashValidatorAllForks_def Let_def
  apply -
  apply (erule bind_res_InrE, erule bind_res_InrE, erule bind_res_InrE, drule rewards_balances)
  subgoal premises prems for s1 v s4
  proof -
    obtain bs where bs: "length bs = length (ts_balances s4)" "t = s4\<lparr>ts_balances := bs\<rparr>"
      using prems(5) by blast
    have "i < length (ts_validators s)" "ts_balances s1 = ts_balances s"
      using prems(2) by (auto simp: initiateValidatorExit_Inr setValidator_def)
    moreover have "v = ts_validators s1 ! i"
      using prems(3) by (simp add: getValidator_def nth_opt_def split: if_splits)
    ultimately show ?thesis
      using prems(4) bs by (intro prems(1) [OF prems(2), of bs])
        (auto simp: decreaseBalance_def applyDelta_Inr setValidator_def slashedValidator_def currentEpochOf_def)
  qed
  done

lemma stateOk_slashings [simp]: "stateOk fork k (s\<lparr>ts_slashings := xs\<rparr>) = stateOk fork k s"
  by (simp add: stateOk_def balancesOk_def currentEpochOf_def)

lemma slash_ok [state_ok]:
  assumes "slashValidatorAllForks lib config fork i w s = Inr t" "stateOk fork' k s"
  shows "stateOk fork' k t"
proof -
  obtain s1 bs where s1: "initiateValidatorExit config i s = Inr s1" "i < length (ts_validators s)"
    and t: "t = (setValidator i (slashedValidator (currentEpochOf s) (ts_validators s1 ! i)) s1)
      \<lparr>ts_slashings := (ts_slashings s1)[currentEpochOf s mod EPOCHS_PER_SLASHINGS_VECTOR :=
         ts_slashings s1 ! (currentEpochOf s mod EPOCHS_PER_SLASHINGS_VECTOR) + v_effectiveBalance (ts_validators s1 ! i)],
       ts_balances := bs\<rparr>" and bs: "length bs = length (ts_balances s)"
    by (rule slashValidator_parts [OF assms(1)])
  have len: "ts_balances s1 = ts_balances s" "length (ts_validators s1) = length (ts_validators s)"
    using s1 by (auto simp: initiateValidatorExit_Inr setValidator_def)
  have "stateOk fork' k (setValidator i (slashedValidator (currentEpochOf s) (ts_validators s1 ! i)) s1)"
    using s1(2) len(2) by (intro stateOk_validator exit_ok [OF s1(1) assms(2)]) (simp_all add: slashedValidator_def)
  with bs len(1) show ?thesis
    by (simp add: t setValidator_def)
qed


lemma processProposerSlashing_ok [state_ok]:
  "processProposerSlashing lib config fork' v op s = Inr t \<Longrightarrow> stateOk fork k s \<Longrightarrow> stateOk fork k t"
  by (auto simp: processProposerSlashing_def elim!: bind_res_InrE intro: slash_ok)

lemma slashIfSlashable_ok: "slashIfSlashable lib config fork' i acc = Inr acc' \<Longrightarrow> stateOk fork k (fst acc) \<Longrightarrow>
    stateOk fork k (fst acc')"
  unfolding slashIfSlashable_def Let_def case_prod_unfold
  by (erule bind_res_InrE) (auto split: if_splits elim!: bind_res_InrE elim: slash_ok)

lemma slashings_loop_ok:
  assumes "fold_res (slashIfSlashable lib config fork') is acc = Inr acc'" "stateOk fork k (fst acc)"
  shows "stateOk fork k (fst acc')"
  by (rule fold_res_invariant [where P = "\<lambda>a. stateOk fork k (fst a)", OF assms]) (blast dest: slashIfSlashable_ok)

lemma processAttesterSlashing_ok [state_ok]:
  "processAttesterSlashing lib config fork' v op s = Inr t \<Longrightarrow> stateOk fork k s \<Longrightarrow> stateOk fork k t"
  by (fastforce simp: processAttesterSlashing_def split: if_splits prod.splits elim!: bind_res_InrE dest: slashings_loop_ok)

lemma processVoluntaryExit_ok [state_ok]:
  "processVoluntaryExit lib config v op s = Inr t \<Longrightarrow> stateOk fork k s \<Longrightarrow> stateOk fork k t"
  by (auto simp: processVoluntaryExit_def split: if_splits elim!: bind_res_InrE intro: exit_ok)

section \<open>Votes\<close>

text \<open>Parts of the state that the invariant does not look at.\<close>

lemma stateOk_updates [simp]:
  "stateOk fork k (s\<lparr>ts_latestBlockHeader := h\<rparr>) = stateOk fork k s"
  "stateOk fork k (s\<lparr>ts_randaoMixes := m\<rparr>) = stateOk fork k s"
  "stateOk fork k (s\<lparr>ts_eth1Data := e\<rparr>) = stateOk fork k s"
  "stateOk fork k (s\<lparr>ts_eth1DataVotes := ev\<rparr>) = stateOk fork k s"
  "stateOk fork k (s\<lparr>ts_eth1DepositIndex := n\<rparr>) = stateOk fork k s"
  "stateOk fork k (s\<lparr>ts_currentEpochAttestations := a\<rparr>) = stateOk fork k s"
  "stateOk fork k (s\<lparr>ts_previousEpochAttestations := a\<rparr>) = stateOk fork k s"
  "stateOk fork k (s\<lparr>ts_latestExecutionPayloadHeader := x\<rparr>) = stateOk fork k s"
  by (simp_all add: stateOk_def balancesOk_def currentEpochOf_def)

lemma processAttestation_ok [state_ok]:
  "processAttestation lib v att s = Inr t \<Longrightarrow> stateOk fork k s \<Longrightarrow> stateOk fork k t"
  by (auto simp: processAttestation_def Let_def split: if_splits elim!: bind_res_InrE)

lemma length_setStatus: "fold_res setStatus es xs = Inr ys \<Longrightarrow> length ys = length xs"
  by (erule fold_res_invariant) (auto simp: setStatus_def split: prod.splits if_splits)

lemma length_updateEpochParticipants: "updateEpochParticipants st xs n = Inr ys \<Longrightarrow> length ys = length xs"
  by (auto simp: updateEpochParticipants_def split: if_splits dest: length_setStatus)

lemma stateOk_participation: "stateOk fork k s \<Longrightarrow> length previous = length (ts_previousEpochParticipation s) \<Longrightarrow>
    length current = length (ts_currentEpochParticipation s) \<Longrightarrow>
    stateOk fork k (s\<lparr>ts_previousEpochParticipation := previous, ts_currentEpochParticipation := current\<rparr>)"
  by (auto simp: stateOk_def balancesOk_def currentEpochOf_def)

lemma processAttestations_ok [state_ok]:
  assumes "processAttestations lib v atts s = Inr t" "stateOk fork k s"
  shows "stateOk fork k t"
proof -
  from assms(1) obtain previous current p r where
    "length previous = length (ts_previousEpochParticipation s)" "length current = length (ts_currentEpochParticipation s)"
    "increaseBalance lib p r (s\<lparr>ts_previousEpochParticipation := previous, ts_currentEpochParticipation := current\<rparr>) = Inr t"
    unfolding processAttestations_def by (auto elim!: bind_res_InrE dest!: length_updateEpochParticipants)
  with stateOk_participation [OF assms(2)] balance_ok(2) show ?thesis by blast
qed

lemma processSyncAggregate_ok [state_ok]:
  "processSyncAggregate lib s block v = Inr t \<Longrightarrow> stateOk fork k s \<Longrightarrow> stateOk fork k t"
  by (auto simp: processSyncAggregate_def applyDeltaInBatch_def split: if_splits elim!: bind_res_InrE fold_res_ok
      intro: balance_ok(1))

section \<open>Header, randao, votes for eth1 data, payload\<close>

lemma processBlockHeader_ok [state_ok]:
  "processBlockHeader lib config s block = Inr t \<Longrightarrow> stateOk fork k s \<Longrightarrow> stateOk fork k t"
  by (auto simp: processBlockHeader_def Let_def split: if_splits elim!: bind_res_InrE)

lemma processRandao_ok [state_ok]: "processRandao lib s block v = Inr t \<Longrightarrow> stateOk fork k s \<Longrightarrow> stateOk fork k t"
  by (auto simp: processRandao_def Let_def split: if_splits elim!: bind_res_InrE)

lemma processEth1Data_ok [simp]: "stateOk fork k (processEth1Data lib s body) = stateOk fork k s"
  by (simp add: processEth1Data_def Let_def)

lemma processExecutionPayload_ok [state_ok]:
  "processExecutionPayload lib config s payload engine = Inr t \<Longrightarrow> stateOk fork k s \<Longrightarrow> stateOk fork k t"
  by (auto simp: processExecutionPayload_def Let_def split: if_splits option.splits)


section \<open>Deposits\<close>

lemma depositedValidator_fields [simp]:
  "v_pubkey (depositedValidator data) = dd_pubkey data" "v_exitEpoch (depositedValidator data) = FAR_FUTURE_EPOCH"
  "v_slashed (depositedValidator data) = False"
  by (simp_all add: depositedValidator_def)

lemma deposited_balance: "v_effectiveBalance (depositedValidator data) \<le> MAX_EFFECTIVE_BALANCE"
  "v_effectiveBalance (depositedValidator data) mod EFFECTIVE_BALANCE_INCREMENT = 0"
proof -
  have "(a - a mod EFFECTIVE_BALANCE_INCREMENT) mod EFFECTIVE_BALANCE_INCREMENT = 0" for a :: nat
    by (simp add: minus_mod_eq_mult_div)
  then show "v_effectiveBalance (depositedValidator data) mod EFFECTIVE_BALANCE_INCREMENT = 0"
    by (simp add: depositedValidator_def min_def MAX_EFFECTIVE_BALANCE_def EFFECTIVE_BALANCE_INCREMENT_def)
qed (simp add: depositedValidator_def)

text \<open>A byte for the new validator, after a longer array has been made when there was none.\<close>

lemma incrementsSet:
  assumes "n \<le> length (ec_effectiveBalanceIncrements c)"
  shows "n < length (ec_effectiveBalanceIncrements (effectiveBalanceIncrementsSet n e c)) \<and>
    ec_effectiveBalanceIncrements (effectiveBalanceIncrementsSet n e c) ! n = of_nat (e div EFFECTIVE_BALANCE_INCREMENT) \<and>
    (\<forall>i < n. ec_effectiveBalanceIncrements (effectiveBalanceIncrementsSet n e c) ! i = ec_effectiveBalanceIncrements c ! i)"
  using assms length_incrementsWithLen [of "Suc n"]
  by (auto simp: effectiveBalanceIncrementsSet_def Let_def setBytes_def nth_append min_def)

lemma effectiveBalanceIncrementsSet_fields [simp]:
  "ec_pubkey2index (effectiveBalanceIncrementsSet n e c) = ec_pubkey2index c"
  "ec_index2pubkey (effectiveBalanceIncrementsSet n e c) = ec_index2pubkey c"
  "ec_currentShuffling (effectiveBalanceIncrementsSet n e c) = ec_currentShuffling c"
  "ec_churnLimit (effectiveBalanceIncrementsSet n e c) = ec_churnLimit c"
  "ec_exitQueueEpoch (effectiveBalanceIncrementsSet n e c) = ec_exitQueueEpoch c"
  "ec_exitQueueChurn (effectiveBalanceIncrementsSet n e c) = ec_exitQueueChurn c"
  "ec_proposers (effectiveBalanceIncrementsSet n e c) = ec_proposers c"
  by (simp_all add: effectiveBalanceIncrementsSet_def Let_def)

lemma addPubkey_fields [simp]:
  "ec_currentShuffling (addPubkey n k c) = ec_currentShuffling c" "ec_churnLimit (addPubkey n k c) = ec_churnLimit c"
  "ec_exitQueueEpoch (addPubkey n k c) = ec_exitQueueEpoch c" "ec_exitQueueChurn (addPubkey n k c) = ec_exitQueueChurn c"
  "ec_effectiveBalanceIncrements (addPubkey n k c) = ec_effectiveBalanceIncrements c"
  "ec_proposers (addPubkey n k c) = ec_proposers c"
  by (simp_all add: addPubkey_def)

lemma pubkeysOk_add:
  assumes "pubkeysOk c vs" "\<forall>i < length vs. v_pubkey (vs ! i) \<noteq> v_pubkey v"
  shows "pubkeysOk (addPubkey (length vs) (v_pubkey v) c) (vs @ [v])"
  using assms
  by (auto simp: pubkeysOk_def addPubkey_def nth_append nth_list_update less_Suc_eq)

lemma queueOk_add: "v_exitEpoch v = FAR_FUTURE_EPOCH \<Longrightarrow> queueOk cur c (vs @ [v]) = queueOk cur c vs"
  by (simp add: queueOk_def queueExact_def queueSkipped_def specQueueEpoch_def specQueueChurn_def exitEpochs_def)

lemma queueOk_ctx: "ec_exitQueueEpoch c' = ec_exitQueueEpoch c \<Longrightarrow> ec_exitQueueChurn c' = ec_exitQueueChurn c \<Longrightarrow>
    ec_churnLimit c' = ec_churnLimit c \<Longrightarrow> queueOk cur c' vs = queueOk cur c vs"
  by (simp add: queueOk_def queueExact_def queueSkipped_def)

lemma balancesOk_add:
  assumes "balancesOk s" "v_effectiveBalance v \<le> MAX_EFFECTIVE_BALANCE" "v_effectiveBalance v mod EFFECTIVE_BALANCE_INCREMENT = 0"
    and "ec_effectiveBalanceIncrements c = ec_effectiveBalanceIncrements
      (effectiveBalanceIncrementsSet (length (ts_validators s)) (v_effectiveBalance v) (epochCtx s))"
    and "ts_validators t = ts_validators s @ [v]" "length (ts_balances t) = Suc (length (ts_balances s))" "epochCtx t = c"
  shows "balancesOk t"
proof -
  have "length (ts_validators s) \<le> length (ec_effectiveBalanceIncrements (epochCtx s))"
    using assms(1) by (simp add: balancesOk_def)
  note incs = incrementsSet [OF this, of "v_effectiveBalance v"]
  have "unat (of_nat (v_effectiveBalance v div EFFECTIVE_BALANCE_INCREMENT) :: 8 word) * EFFECTIVE_BALANCE_INCREMENT = v_effectiveBalance v"
    using byte_of_increments [OF assms(2,3)] by simp
  with incs assms show ?thesis
    by (auto simp: balancesOk_def nth_append less_Suc_eq)
qed

lemma addValidator_ok:
  assumes "stateOk fork (Suc k) s" "\<forall>i < length (ts_validators s). v_pubkey (ts_validators s ! i) \<noteq> dd_pubkey data"
    and "fork' = Phase0 \<longleftrightarrow> fork = Phase0"
  shows "stateOk fork k (addValidator fork' data s)"
proof -
  let ?t = "addValidator fork' data s"
  have t: "ts_validators ?t = ts_validators s @ [depositedValidator data]" "length (ts_balances ?t) = Suc (length (ts_balances s))"
    "epochCtx ?t = addPubkey (length (ts_validators s)) (dd_pubkey data)
      (effectiveBalanceIncrementsSet (length (ts_validators s)) (v_effectiveBalance (depositedValidator data)) (epochCtx s))"
    by (simp_all add: addValidator_def Let_def)
  have b: "balancesOk ?t"
    using assms(1) by (intro balancesOk_add [OF _ deposited_balance _ t]) (simp_all add: stateOk_def)
  have "pubkeysOk (effectiveBalanceIncrementsSet (length (ts_validators s)) (v_effectiveBalance (depositedValidator data)) (epochCtx s))
      (ts_validators s)"
    using assms(1) by (simp add: stateOk_def pubkeysOk_def)
  from pubkeysOk_add [OF this, of "depositedValidator data"] assms(2) have p: "pubkeysOk (epochCtx ?t) (ts_validators ?t)"
    by (simp add: t)
  have "queueOk (currentEpochOf ?t) (epochCtx ?t) (ts_validators ?t)"
    using assms(1) queueOk_ctx [of "epochCtx ?t" "epochCtx s"] by (simp add: t queueOk_add stateOk_def currentEpochOf_def)
  with b p assms(1,3) show ?thesis
    by (auto simp: stateOk_def t) (simp_all add: addValidator_def Let_def)
qed

lemma known_key:
  assumes "pubkeysOk c vs" "length vs \<le> MAX_SAFE_INTEGER" "i < length vs" "v_pubkey (vs ! i) = pk"
  shows "jm_get (ec_pubkey2index c) pk = Some i \<and> i \<le> MAX_SAFE_INTEGER"
  using assms by (auto simp: pubkeysOk_def)

lemma processDeposit_ok:
  assumes "processDeposit lib config fork' dep s = Inr t" "stateOk fork (Suc k) s" "fork' = Phase0 \<longleftrightarrow> fork = Phase0"
  shows "stateOk fork k t"
proof -
  let ?s1 = "s\<lparr>ts_eth1DepositIndex := ts_eth1DepositIndex s + 1\<rparr>"
  have less: "stateOk fork (Suc k) u \<Longrightarrow> stateOk fork k u" for u
    by (simp add: stateOk_def)
  have s1: "stateOk fork (Suc k) ?s1"
    using assms(2) by simp
  consider (top) i where "increaseBalance lib (int i) (dd_amount (dp_data dep)) ?s1 = Inr t"
    | (skip) "t = ?s1"
    | (new) "t = addValidator fork' (dp_data dep) ?s1"
      "\<forall>i. jm_get (ec_pubkey2index (epochCtx s)) (dd_pubkey (dp_data dep)) = Some i \<longrightarrow>
        MAX_SAFE_INTEGER < i \<or> length (ts_validators s) \<le> i"
    using assms(1) unfolding processDeposit_def Let_def
    by (auto elim!: bind_res_InrE split: if_splits option.splits)
  then show ?thesis
  proof cases
    case top
    with s1 show ?thesis by (blast intro: less balance_ok(2))
  next
    case new
    have "\<forall>i < length (ts_validators s). v_pubkey (ts_validators s ! i) \<noteq> dd_pubkey (dp_data dep)"
      using new(2) known_key [of "epochCtx s" "ts_validators s"] s1 by (fastforce simp: stateOk_def)
    with new(1) addValidator_ok [OF s1 _ assms(3)] show ?thesis by simp
  qed (use s1 less in simp)
qed

lemma processDeposits_ok:
  assumes "fold_res (processDeposit lib config fork') deps s = Inr t" "stateOk fork (length deps + k) s"
    "fork' = Phase0 \<longleftrightarrow> fork = Phase0"
  shows "stateOk fork k t"
  using assms
proof (induction deps arbitrary: s)
  case (Cons dep deps)
  then obtain u where u: "processDeposit lib config fork' dep s = Inr u" "fold_res (processDeposit lib config fork') deps u = Inr t"
    by (auto simp: bind_res_Inr_iff)
  from processDeposit_ok [OF u(1) _ Cons.prems(3), of "length deps + k"] Cons.prems(2) Cons.IH [OF u(2)] Cons.prems(3)
  show ?case by simp
qed simp

end
