(* ===== verification/BlockInvariant.thy ===== *)
theory BlockInvariant
  imports OperationSpec StateTransition
begin

text \<open>
  A block keeps the invariant: the loops over its operations, the operations of each fork, and the block as a whole.
\<close>

lemma stateOk_room: "stateOk fork k s \<Longrightarrow> j \<le> k \<Longrightarrow> stateOk fork j s"
  by (simp add: stateOk_def)

lemma checkDepositCount_Inr: "checkDepositCount s body = Inr u \<Longrightarrow> length (bo_deposits body) \<le> MAX_DEPOSITS"
  by (auto simp: checkDepositCount_def Let_def split: if_splits)

lemma proposerSlashings_ok [state_ok]:
  "fold_res (processProposerSlashing lib config fork' v) ops s = Inr t \<Longrightarrow> stateOk fork k s \<Longrightarrow> stateOk fork k t"
  by (erule fold_res_ok) (assumption | rule processProposerSlashing_ok)+

lemma attesterSlashings_ok [state_ok]:
  "fold_res (processAttesterSlashing lib config fork' v) ops s = Inr t \<Longrightarrow> stateOk fork k s \<Longrightarrow> stateOk fork k t"
  by (erule fold_res_ok) (assumption | rule processAttesterSlashing_ok)+

lemma pendingAttestations_ok [state_ok]:
  "fold_res (processAttestation lib v) ops s = Inr t \<Longrightarrow> stateOk fork k s \<Longrightarrow> stateOk fork k t"
  by (erule fold_res_ok) (assumption | rule processAttestation_ok)+

lemma voluntaryExits_ok [state_ok]:
  "fold_res (processVoluntaryExit lib config v) ops s = Inr t \<Longrightarrow> stateOk fork k s \<Longrightarrow> stateOk fork k t"
  by (erule fold_res_ok) (assumption | rule processVoluntaryExit_ok)+

lemma operationsPhase0_ok:
  assumes "processOperationsPhase0 lib config s body v = Inr t" "stateOk Phase0 MAX_DEPOSITS s"
  shows "stateOk Phase0 0 t"
proof -
  from assms(1) obtain u s1 s2 s3 s4 where steps: "checkDepositCount s body = Inr u"
    "fold_res (processProposerSlashing lib config Phase0 v) (bo_proposerSlashings body) s = Inr s1"
    "fold_res (processAttesterSlashing lib config Phase0 v) (bo_attesterSlashings body) s1 = Inr s2"
    "fold_res (processAttestation lib v) (bo_attestations body) s2 = Inr s3"
    "fold_res (processDeposit lib config Phase0) (bo_deposits body) s3 = Inr s4"
    "fold_res (processVoluntaryExit lib config v) (bo_voluntaryExits body) s4 = Inr t"
    unfolding processOperationsPhase0_def by (auto elim!: bind_res_InrE)
  have "stateOk Phase0 (length (bo_deposits body) + 0) s"
    using stateOk_room [OF assms(2)] checkDepositCount_Inr [OF steps(1)] by simp
  from pendingAttestations_ok [OF steps(4) attesterSlashings_ok [OF steps(3) proposerSlashings_ok [OF steps(2) this]]]
  have "stateOk Phase0 0 s4"
    by (rule processDeposits_ok [OF steps(5)]) simp
  with steps(6) show ?thesis
    by (rule voluntaryExits_ok)
qed

lemma operationsAltair_ok:
  assumes "processOperationsAltair lib config fork s body v = Inr t" "stateOk fork MAX_DEPOSITS s" "fork \<noteq> Phase0"
  shows "stateOk fork 0 t"
proof -
  from assms(1) obtain u s1 s2 s3 s4 where steps: "checkDepositCount s body = Inr u"
    "fold_res (processProposerSlashing lib config fork v) (bo_proposerSlashings body) s = Inr s1"
    "fold_res (processAttesterSlashing lib config fork v) (bo_attesterSlashings body) s1 = Inr s2"
    "processAttestations lib v (bo_attestations body) s2 = Inr s3"
    "fold_res (processDeposit lib config Altair) (bo_deposits body) s3 = Inr s4"
    "fold_res (processVoluntaryExit lib config v) (bo_voluntaryExits body) s4 = Inr t"
    unfolding processOperationsAltair_def by (auto elim!: bind_res_InrE)
  have "stateOk fork (length (bo_deposits body) + 0) s"
    using stateOk_room [OF assms(2)] checkDepositCount_Inr [OF steps(1)] by simp
  from processAttestations_ok [OF steps(4) attesterSlashings_ok [OF steps(3) proposerSlashings_ok [OF steps(2) this]]]
  have "stateOk fork 0 s4"
    by (rule processDeposits_ok [OF steps(5)]) (simp add: assms(3))
  with steps(6) show ?thesis
    by (rule voluntaryExits_ok)
qed

lemma afterHeader_ok:
  assumes "processRandao lib s block v = Inr s1"
    "processOperationsAltair lib config fork (processEth1Data lib s1 (bl_body block)) (bl_body block) v = Inr s2"
    "processSyncAggregate lib s2 block v = Inr t" "stateOk fork MAX_DEPOSITS s" "fork \<noteq> Phase0"
  shows "stateOk fork 0 t"
proof -
  have "stateOk fork MAX_DEPOSITS (processEth1Data lib s1 (bl_body block))"
    using processRandao_ok [OF assms(1,4)] by simp
  from operationsAltair_ok [OF assms(2) this assms(5)] show ?thesis
    by (rule processSyncAggregate_ok [OF assms(3)])
qed

text \<open>
  C6. A block keeps the invariant of the state, whatever it contains: every validator has one balance, its
  effective balance, at most the maximum and a multiple of the increment, is the cached one, the caches of public keys
  find every validator, so that no key is registered twice, participation and scores have one entry per validator, and
  the counters of the exit queue stand for the queue of the specification.
\<close>

theorem processBlock_keeps:
  assumes "processBlock lib config s block v = Inr t"
    and "stateOk (getForkName (sc_forks config) (bl_slot block)) MAX_DEPOSITS s"
  shows "stateOk (getForkName (sc_forks config) (bl_slot block)) 0 t"
proof (cases "getForkName (sc_forks config) (bl_slot block)")
  case Phase0
  with assms show ?thesis
    by (auto simp: processBlock_def processBlockPhase0_def elim!: bind_res_InrE operationsPhase0_ok dest: state_ok)
next
  case Altair
  with assms obtain s1 s2 s3 where steps: "processBlockHeader lib config s block = Inr s1"
    "processRandao lib s1 block v = Inr s2"
    "processOperationsAltair lib config Altair (processEth1Data lib s2 (bl_body block)) (bl_body block) v = Inr s3"
    "processSyncAggregate lib s3 block v = Inr t"
    by (auto simp: processBlock_def processBlockAltair_def elim!: bind_res_InrE)
  from assms(2) Altair have "stateOk Altair MAX_DEPOSITS s1"
    by (auto intro: processBlockHeader_ok [OF steps(1)])
  from afterHeader_ok [OF steps(2-4) this] Altair show ?thesis by simp
next
  case Bellatrix
  with assms obtain s1 s2 s3 s4 where steps: "processBlockHeader lib config s block = Inr s1"
    "(if st_isExecutionEnabled s1 (bl_body block)
       then processExecutionPayload lib config s1 (bo_executionPayload (bl_body block)) None else Inr s1) = Inr s2"
    "processRandao lib s2 block v = Inr s3"
    "processOperationsAltair lib config Bellatrix (processEth1Data lib s3 (bl_body block)) (bl_body block) v = Inr s4"
    "processSyncAggregate lib s4 block v = Inr t"
    by (auto simp: processBlock_def processBlockBellatrix_def elim!: bind_res_InrE)
  from assms(2) have "stateOk Bellatrix MAX_DEPOSITS s2"
    using steps(1,2) Bellatrix by (auto dest: processBlockHeader_ok processExecutionPayload_ok split: if_splits)
  from afterHeader_ok [OF steps(3-5) this] Bellatrix show ?thesis by simp
qed

end
