(* ===== verification/OperationProps.thy ===== *)
theory OperationProps
  imports OperationSpec
begin

text \<open>
  What the single operations of a block do: which indexed attestations and voluntary exits are accepted, whom an attester
  slashing slashes, what a deposit adds, and when a vote changes the eth1 data.
\<close>

section \<open>Indexed attestations\<close>

lemma increasingFrom_iff: "increasingFrom p xs \<longleftrightarrow> sorted_wrt (<) xs \<and> (\<forall>x \<in> set xs. p < int x)"
  by (induction p xs rule: increasingFrom.induct) force+

lemma last_is_largest:
  fixes x :: nat
  assumes "sorted_wrt (<) xs" "x \<in> set xs"
  shows "x \<le> xs ! (length xs - 1)"
proof -
  obtain k where k: "k < length xs" "x = xs ! k"
    using assms(2) by (auto simp: in_set_conv_nth)
  consider "k = length xs - 1" | "k < length xs - 1"
    using k by linarith
  then show ?thesis
  proof cases
    case 2
    moreover from k have "length xs - 1 < length xs" by linarith
    ultimately show ?thesis
      using sorted_wrt_nth_less [OF assms(1) 2] k(2) by (simp add: less_imp_le)
  qed (simp add: k)
qed

lemma bounded_by_last:
  fixes n :: nat
  assumes "sorted_wrt (<) xs" "xs \<noteq> []"
  shows "xs ! (length xs - 1) < n \<longleftrightarrow> (\<forall>x \<in> set xs. x < n)"
proof
  assume "xs ! (length xs - 1) < n"
  then show "\<forall>x \<in> set xs. x < n"
    using last_is_largest [OF assms(1)] by (meson le_less_trans)
qed (use assms(2) in simp)

lemma validIndexed:
  "isValidIndexedAttestation lib s ia False = Inr (ix_attestingIndices ia \<noteq> [] \<and>
     length (ix_attestingIndices ia) \<le> MAX_VALIDATORS_PER_COMMITTEE \<and> sorted_wrt (<) (ix_attestingIndices ia) \<and>
     (\<forall>i \<in> set (ix_attestingIndices ia). i < length (ts_validators s)))"
proof (cases "sorted_wrt (<) (ix_attestingIndices ia) \<and> ix_attestingIndices ia \<noteq> []")
  case True
  then show ?thesis
    using bounded_by_last [of "ix_attestingIndices ia" "length (ts_validators s)"]
    by (auto simp: isValidIndexedAttestation_def Let_def increasingFrom_iff not_le)
next
  case False
  then show ?thesis
    by (auto simp: isValidIndexedAttestation_def Let_def increasingFrom_iff)
qed

lemma validIndexed_signed: "isValidIndexedAttestation lib s ia v = Inr True \<Longrightarrow> isValidIndexedAttestation lib s ia False = Inr True"
  by (auto simp: isValidIndexedAttestation_def Let_def split: if_splits)

section \<open>Voluntary exits\<close>

definition exitAllowed :: "state_config \<Rightarrow> cached_state \<Rightarrow> voluntary_exit \<Rightarrow> bool" where
  "exitAllowed config s e \<longleftrightarrow> ve_validatorIndex e < length (ts_validators s) \<and>
     (let v = ts_validators s ! ve_validatorIndex e in
        isActiveValidator v (currentEpochOf s) \<and> v_exitEpoch v = FAR_FUTURE_EPOCH \<and> ve_epoch e \<le> currentEpochOf s \<and>
        v_activationEpoch v + enat (SHARD_COMMITTEE_PERIOD config) \<le> enat (currentEpochOf s))"

lemma voluntaryExit_accepted:
  "isValidVoluntaryExit lib config s op v = Inr True \<longleftrightarrow> exitAllowed config s (sv_message op) \<and>
     (v \<longrightarrow> verifyVoluntaryExitSignature lib s op = Inr True)"
  by (auto simp: isValidVoluntaryExit_def exitAllowed_def Let_def bind_res_Inr_iff getValidator_def nth_opt_def currentEpochOf_def
      split: if_splits)

lemma voluntaryExit_step:
  assumes "stateOk fork k s"
  shows "(\<exists>t. processVoluntaryExit lib config v op s = Inr t) \<longleftrightarrow>
      exitAllowed config s (sv_message op) \<and> (v \<longrightarrow> verifyVoluntaryExitSignature lib s op = Inr True)"
    and "processVoluntaryExit lib config v op s = Inr t \<Longrightarrow>
      let i = ve_validatorIndex (sv_message op);
          e = specExitEpoch (currentEpochOf s) (ec_churnLimit (epochCtx s)) (ts_validators s)
      in ts_validators t = (ts_validators s)[i := exitedValidator config e (ts_validators s ! i)] \<and>
         count_list (exitEpochs (ts_validators t)) e \<le> ec_churnLimit (epochCtx s)"
proof -
  have run: "processVoluntaryExit lib config v op s = Inr t \<longleftrightarrow> isValidVoluntaryExit lib config s op v = Inr True \<and>
      initiateValidatorExit config (ve_validatorIndex (sv_message op)) s = Inr t" for t
    by (auto simp: processVoluntaryExit_def bind_res_Inr_iff split: if_splits)
  show "(\<exists>t. processVoluntaryExit lib config v op s = Inr t) \<longleftrightarrow>
      exitAllowed config s (sv_message op) \<and> (v \<longrightarrow> verifyVoluntaryExitSignature lib s op = Inr True)"
    by (auto simp: run voluntaryExit_accepted initiateValidatorExit_Inr exitAllowed_def)
  assume t: "processVoluntaryExit lib config v op s = Inr t"
  then have allowed: "exitAllowed config s (sv_message op)"
    by (simp add: run voluntaryExit_accepted)
  have queue: "queueOk (currentEpochOf s) (epochCtx s) (ts_validators s)" "0 < ec_churnLimit (epochCtx s)"
    using assms by (simp_all add: stateOk_def)
  show "let i = ve_validatorIndex (sv_message op);
          e = specExitEpoch (currentEpochOf s) (ec_churnLimit (epochCtx s)) (ts_validators s)
      in ts_validators t = (ts_validators s)[i := exitedValidator config e (ts_validators s ! i)] \<and>
         count_list (exitEpochs (ts_validators t)) e \<le> ec_churnLimit (epochCtx s)"
    using exit_step [OF queue, of "ve_validatorIndex (sv_message op)" config] allowed t
    by (auto simp: run exitAllowed_def exitedValidator_def Let_def)
qed

section \<open>Attester slashings\<close>

text \<open>What a slashing leaves in the registry.\<close>

lemma slashValidator_registry:
  assumes "slashValidatorAllForks lib config fork i w s = Inr t"
  shows "length (ts_validators t) = length (ts_validators s) \<and> i < length (ts_validators s) \<and>
    currentEpochOf t = currentEpochOf s \<and> (\<forall>j. j \<noteq> i \<longrightarrow> ts_validators t ! j = ts_validators s ! j) \<and>
    (let v = ts_validators t ! i in v_slashed v \<and> v_exitEpoch v \<noteq> FAR_FUTURE_EPOCH \<and>
       enat (currentEpochOf s + EPOCHS_PER_SLASHINGS_VECTOR) \<le> v_withdrawableEpoch v) \<and>
    ts_slashings t = (ts_slashings s)[currentEpochOf s mod EPOCHS_PER_SLASHINGS_VECTOR :=
      ts_slashings s ! (currentEpochOf s mod EPOCHS_PER_SLASHINGS_VECTOR) + v_effectiveBalance (ts_validators s ! i)]"
proof -
  obtain s1 bs where s1: "initiateValidatorExit config i s = Inr s1" "i < length (ts_validators s)"
    and t: "t = (setValidator i (slashedValidator (currentEpochOf s) (ts_validators s1 ! i)) s1)
      \<lparr>ts_slashings := (ts_slashings s1)[currentEpochOf s mod EPOCHS_PER_SLASHINGS_VECTOR :=
         ts_slashings s1 ! (currentEpochOf s mod EPOCHS_PER_SLASHINGS_VECTOR) + v_effectiveBalance (ts_validators s1 ! i)],
       ts_balances := bs\<rparr>" and bs: "length bs = length (ts_balances s)"
    by (rule slashValidator_parts [OF assms(1)])
  show ?thesis
    using s1 by (auto simp: t initiateValidatorExit_Inr setValidator_def slashedValidator_def exitedValidator_def
        currentEpochOf_def Let_def FAR_FUTURE_EPOCH_def)
qed

text \<open>The registry after the validators of a set have been slashed.\<close>

definition slashedExactly :: "nat set \<Rightarrow> cached_state \<Rightarrow> cached_state \<Rightarrow> bool" where
  "slashedExactly A s t \<longleftrightarrow> length (ts_validators t) = length (ts_validators s) \<and> currentEpochOf t = currentEpochOf s \<and>
     (\<forall>i < length (ts_validators s).
        if i \<in> A then v_slashed (ts_validators t ! i) \<and> v_exitEpoch (ts_validators t ! i) \<noteq> FAR_FUTURE_EPOCH \<and>
          enat (currentEpochOf s + EPOCHS_PER_SLASHINGS_VECTOR) \<le> v_withdrawableEpoch (ts_validators t ! i)
        else ts_validators t ! i = ts_validators s ! i) \<and>
     ts_slashings t = (ts_slashings s)[currentEpochOf s mod EPOCHS_PER_SLASHINGS_VECTOR :=
       ts_slashings s ! (currentEpochOf s mod EPOCHS_PER_SLASHINGS_VECTOR) + (\<Sum>i\<in>A. v_effectiveBalance (ts_validators s ! i))]"

lemma slashedExactly_insert:
  assumes "slashedExactly A s t" "slashValidatorAllForks lib config fork i w t = Inr u" "i \<notin> A" "finite A"
    and "length (ts_slashings s) = EPOCHS_PER_SLASHINGS_VECTOR"
  shows "slashedExactly (insert i A) s u"
proof -
  note step = slashValidator_registry [OF assms(2)]
  have "currentEpochOf s mod EPOCHS_PER_SLASHINGS_VECTOR < length (ts_slashings s)"
    by (simp add: assms(5) EPOCHS_PER_SLASHINGS_VECTOR_def)
  moreover have "ts_validators t ! i = ts_validators s ! i"
    using step assms(1,3) by (auto simp: slashedExactly_def)
  ultimately have "ts_slashings u = (ts_slashings s)[currentEpochOf s mod EPOCHS_PER_SLASHINGS_VECTOR :=
      ts_slashings s ! (currentEpochOf s mod EPOCHS_PER_SLASHINGS_VECTOR) +
        (\<Sum>i\<in>insert i A. v_effectiveBalance (ts_validators s ! i))]"
    using step assms(1,3,4) by (simp add: slashedExactly_def Let_def ac_simps)
  with step assms(1,3) show ?thesis
    by (auto simp: slashedExactly_def Let_def)
qed

lemma slashIfSlashable_step: "i < length (ts_validators t) \<Longrightarrow> slashIfSlashable lib config fork i (t, b) =
    (if isSlashableValidator (ts_validators t ! i) (currentEpochOf t)
     then bind_res (slashValidatorAllForks lib config fork i None t) (\<lambda>u. Inr (u, True)) else Inr (t, b))"
  by (simp add: slashIfSlashable_def getValidator_def currentEpochOf_def)

lemma slashLoop_exact:
  assumes "fold_res (slashIfSlashable lib config fork) is (t, b) = Inr (u, c)" "distinct is" "finite A" "set is \<inter> A = {}"
    and "slashedExactly A s t" "length (ts_slashings s) = EPOCHS_PER_SLASHINGS_VECTOR" "\<forall>i \<in> set is. i < length (ts_validators s)"
  shows "slashedExactly (A \<union> {i \<in> set is. isSlashableValidator (ts_validators s ! i) (currentEpochOf s)}) s u \<and>
    (c \<longleftrightarrow> b \<or> (\<exists>i \<in> set is. isSlashableValidator (ts_validators s ! i) (currentEpochOf s)))"
  using assms(1-5,7)
proof (induction "is" arbitrary: t b A)
  case (Cons i "is")
  have same: "ts_validators t ! i = ts_validators s ! i" "currentEpochOf t = currentEpochOf s" "i < length (ts_validators t)"
    using Cons.prems(4-6) by (auto simp: slashedExactly_def)
  show ?case
  proof (cases "isSlashableValidator (ts_validators s ! i) (currentEpochOf s)")
    case True
    with Cons.prems(1) same obtain t1 where t1: "slashValidatorAllForks lib config fork i None t = Inr t1"
      "fold_res (slashIfSlashable lib config fork) is (t1, True) = Inr (u, c)"
      by (auto simp: slashIfSlashable_step bind_res_Inr_iff)
    have "slashedExactly (insert i A) s t1"
      using Cons.prems(3,4) by (intro slashedExactly_insert [OF Cons.prems(5) t1(1)]) (auto simp: assms(6))
    from Cons.IH [OF t1(2) _ _ _ this] Cons.prems True
    have "slashedExactly (insert i A \<union> {i \<in> set is. isSlashableValidator (ts_validators s ! i) (currentEpochOf s)}) s u \<and> c"
      by auto
    moreover have "insert i A \<union> {i \<in> set is. isSlashableValidator (ts_validators s ! i) (currentEpochOf s)} =
        A \<union> {j \<in> set (i # is). isSlashableValidator (ts_validators s ! j) (currentEpochOf s)}"
      using True by auto
    ultimately show ?thesis using True by simp
  next
    case False
    with Cons.prems(1) same have "fold_res (slashIfSlashable lib config fork) is (t, b) = Inr (u, c)"
      by (auto simp: slashIfSlashable_step bind_res_Inr_iff)
    from Cons.IH [OF this _ _ _ Cons.prems(5)] Cons.prems False
    have "slashedExactly (A \<union> {i \<in> set is. isSlashableValidator (ts_validators s ! i) (currentEpochOf s)}) s u \<and>
      (c \<longleftrightarrow> b \<or> (\<exists>i \<in> set is. isSlashableValidator (ts_validators s ! i) (currentEpochOf s)))"
      by auto
    moreover have "{i \<in> set is. isSlashableValidator (ts_validators s ! i) (currentEpochOf s)} =
        {j \<in> set (i # is). isSlashableValidator (ts_validators s ! j) (currentEpochOf s)}"
      using False by auto
    ultimately show ?thesis using False by simp
  qed
qed simp


lemma attesterSlashing_step:
  assumes "processAttesterSlashing lib config fork v op s = Inr t" "length (ts_slashings s) = EPOCHS_PER_SLASHINGS_VECTOR"
  defines "A \<equiv> {i \<in> set (ix_attestingIndices (asl_attestation1 op)) \<inter> set (ix_attestingIndices (asl_attestation2 op)).
    isSlashableValidator (ts_validators s ! i) (currentEpochOf s)}"
  shows "isSlashableAttestationData (ix_data (asl_attestation1 op)) (ix_data (asl_attestation2 op)) \<and>
    A \<noteq> {} \<and> slashedExactly A s t"
proof -
  let ?is = "sort (getAttesterSlashableIndices op)"
  from assms(1) obtain c where valid: "assertValidAttesterSlashing lib s op v = Inr ()"
    and loop: "fold_res (slashIfSlashable lib config fork) ?is (s, False) = Inr (t, c)" and c
    unfolding processAttesterSlashing_def by (auto elim!: bind_res_InrE split: if_splits prod.splits)
  from valid have data: "isSlashableAttestationData (ix_data (asl_attestation1 op)) (ix_data (asl_attestation2 op))"
    and "isValidIndexedAttestation lib s (asl_attestation2 op) v = Inr True"
    by (auto simp: assertValidAttesterSlashing_def Let_def bind_res_Inr_iff split: if_splits)
  then have indices: "sorted_wrt (<) (ix_attestingIndices (asl_attestation2 op))"
      "\<forall>i \<in> set (ix_attestingIndices (asl_attestation2 op)). i < length (ts_validators s)"
    using validIndexed_signed by (auto simp: validIndexed)
  have set: "set ?is = set (ix_attestingIndices (asl_attestation1 op)) \<inter> set (ix_attestingIndices (asl_attestation2 op))"
    by (auto simp: getAttesterSlashableIndices_def)
  have "distinct ?is"
    using indices(1) by (simp add: getAttesterSlashableIndices_def strict_sorted_iff)
  moreover have "slashedExactly {} s s"
    by (simp add: slashedExactly_def)
  moreover have "\<forall>i \<in> set ?is. i < length (ts_validators s)"
    using indices(2) by (simp only: set) blast
  ultimately have "slashedExactly ({} \<union> {i \<in> set ?is. isSlashableValidator (ts_validators s ! i) (currentEpochOf s)}) s t \<and>
      (c \<longleftrightarrow> False \<or> (\<exists>i \<in> set ?is. isSlashableValidator (ts_validators s ! i) (currentEpochOf s)))"
    by (intro slashLoop_exact [OF loop]) (simp_all add: assms(2))
  moreover have "{i \<in> set ?is. isSlashableValidator (ts_validators s ! i) (currentEpochOf s)} = A"
    by (simp only: set A_def)
  ultimately show ?thesis
    using data \<open>c\<close> by auto
qed

section \<open>Deposits\<close>

definition knownAs :: "cached_state \<Rightarrow> pubkey \<Rightarrow> nat \<Rightarrow> bool" where
  "knownAs s pk i \<longleftrightarrow> i < length (ts_validators s) \<and> v_pubkey (ts_validators s ! i) = pk"

text \<open>
  The whole state after a deposit. The deposit index advances; a deposit of a registered key tops up, one of a new key
  adds a validator, with its entries in the parallel lists and its key and balance in the caches, when it is signed.
\<close>

definition specDeposit :: "st_lib \<Rightarrow> state_config \<Rightarrow> fork_name \<Rightarrow> deposit_data \<Rightarrow> cached_state \<Rightarrow> cached_state \<Rightarrow> bool" where
  "specDeposit lib config fork data s t \<longleftrightarrow>
     (\<forall>i. knownAs s (dd_pubkey data) i \<longrightarrow>
        t = s\<lparr>ts_eth1DepositIndex := ts_eth1DepositIndex s + 1,
          ts_balances := (ts_balances s)[i := ts_balances s ! i + dd_amount data]\<rparr>) \<and>
     ((\<forall>i. \<not> knownAs s (dd_pubkey data) i) \<longrightarrow>
        t = (if validDepositSignature lib config data
          then s\<lparr>ts_eth1DepositIndex := ts_eth1DepositIndex s + 1,
            ts_validators := ts_validators s @ [depositedValidator data], ts_balances := ts_balances s @ [dd_amount data],
            ts_previousEpochParticipation := ts_previousEpochParticipation s @ [0],
            ts_currentEpochParticipation := ts_currentEpochParticipation s @ [0],
            ts_inactivityScores := ts_inactivityScores s @ (if fork = Phase0 then [] else [0]),
            epochCtx := addPubkey (length (ts_validators s)) (dd_pubkey data)
              (effectiveBalanceIncrementsSet (length (ts_validators s)) (v_effectiveBalance (depositedValidator data))
                (epochCtx s))\<rparr>
          else s\<lparr>ts_eth1DepositIndex := ts_eth1DepositIndex s + 1\<rparr>))"

lemma stateOk_known: "stateOk fork k s \<Longrightarrow> knownAs s pk i \<Longrightarrow>
    jm_get (ec_pubkey2index (epochCtx s)) pk = Some i \<and> i \<le> MAX_SAFE_INTEGER \<and> i < length (ts_balances s)"
  using known_key [of "epochCtx s" "ts_validators s" i pk] by (simp add: stateOk_def knownAs_def balancesOk_def)

lemma deposit_step:
  assumes ok: "stateOk fork k s" and sat: "saturating lib"
    and stale: "\<forall>i. jm_get (ec_pubkey2index (epochCtx s)) (dd_pubkey (dp_data dep)) = Some i \<longrightarrow>
      i < length (ts_validators s) \<longrightarrow> knownAs s (dd_pubkey (dp_data dep)) i"
    and proof_ok: "verifyMerkleBranch lib (sl_depositDataRoot lib (dp_data dep)) (dp_proof dep)
      (DEPOSIT_CONTRACT_TREE_DEPTH + 1) (ts_eth1DepositIndex s) (e1_depositRoot (ts_eth1Data s)) = Inr True"
  shows "\<exists>t. processDeposit lib config fork' dep s = Inr t \<and> specDeposit lib config fork' (dp_data dep) s t"
proof (cases "\<exists>i. knownAs s (dd_pubkey (dp_data dep)) i")
  case True
  then obtain i where i: "knownAs s (dd_pubkey (dp_data dep)) i" by blast
  note cached = stateOk_known [OF ok i]
  have unique: "knownAs s (dd_pubkey (dp_data dep)) j \<Longrightarrow> j = i" for j
    using stateOk_known [OF ok, of _ j] cached by fastforce
  have "sl_addDelta lib (ts_balances s ! i) (int (dd_amount (dp_data dep))) = ts_balances s ! i + dd_amount (dp_data dep)"
    using sat by (simp add: saturating_def nat_add_distrib)
  with cached i proof_ok have "processDeposit lib config fork' dep s = Inr (s\<lparr>ts_eth1DepositIndex := ts_eth1DepositIndex s + 1,
      ts_balances := (ts_balances s)[i := ts_balances s ! i + dd_amount (dp_data dep)]\<rparr>)"
    by (simp add: processDeposit_def Let_def knownAs_def increaseBalance_def applyDelta_def)
  moreover have "specDeposit lib config fork' (dp_data dep) s (s\<lparr>ts_eth1DepositIndex := ts_eth1DepositIndex s + 1,
      ts_balances := (ts_balances s)[i := ts_balances s ! i + dd_amount (dp_data dep)]\<rparr>)"
    using i by (auto simp: specDeposit_def dest: unique)
  ultimately show ?thesis by blast
next
  case False
  with stale have "jm_get (ec_pubkey2index (epochCtx s)) (dd_pubkey (dp_data dep)) = None \<or>
      (\<exists>j. jm_get (ec_pubkey2index (epochCtx s)) (dd_pubkey (dp_data dep)) = Some j \<and> length (ts_validators s) \<le> j)"
    using not_le by (cases "jm_get (ec_pubkey2index (epochCtx s)) (dd_pubkey (dp_data dep))") blast+
  with False proof_ok show ?thesis
    by (auto simp: processDeposit_def Let_def specDeposit_def addValidator_def)
qed

section \<open>Votes for eth1 data\<close>

lemma fold_count: "fold (\<lambda>v n. if P v then n + 1 else n) vs (n :: nat) = n + length (filter P vs)"
  by (induction vs arbitrary: n) auto

text \<open>The votes for some data in the list of votes, with the one of the block.\<close>

definition votesFor :: "eth1_data \<Rightarrow> eth1_data list \<Rightarrow> nat" where
  "votesFor e votes = count_list (votes @ [e]) e"

lemma eth1_majority:
  assumes "\<forall>vote \<in> set (ts_eth1DataVotes s). sl_eth1DataRoot lib vote = sl_eth1DataRoot lib e \<longrightarrow> vote = e"
  shows "becomesNewEth1Data lib s e \<longleftrightarrow> ts_eth1Data s \<noteq> e \<and> votesFor e (ts_eth1DataVotes s) * 2 > SLOTS_PER_ETH1_VOTING_PERIOD"
proof -
  have eq: "filter (\<lambda>vote. isEqualEth1DataView lib vote e) (ts_eth1DataVotes s) = filter ((=) e) (ts_eth1DataVotes s)"
    using assms by (intro filter_cong) (auto simp: isEqualEth1DataView_def)
  have le: "length (filter ((=) e) (ts_eth1DataVotes s)) \<le> length (ts_eth1DataVotes s)"
    by simp
  then have "(length (ts_eth1DataVotes s) + 1) * 2 \<le> SLOTS_PER_ETH1_VOTING_PERIOD \<Longrightarrow>
      \<not> (length (filter ((=) e) (ts_eth1DataVotes s)) + 1) * 2 > SLOTS_PER_ETH1_VOTING_PERIOD"
    by arith
  then show ?thesis
    unfolding becomesNewEth1Data_def Let_def fold_count eq votesFor_def
    by (auto simp: count_list_eq_length_filter)
qed


section \<open>Properties\<close>

text \<open>
  C9. An attester slashing that is accepted proves a double or a surround vote, and slashes exactly the validators that
  signed both attestations and are slashable, at least one: each of them is marked, has an exit epoch and stays until the
  end of the slashings vector, its effective balance is added to the slashings of the epoch, and no other
  validator changes.
\<close>

theorem attesterSlashing_slashes:
  assumes "processAttesterSlashing lib config fork v op s = Inr t" "length (ts_slashings s) = EPOCHS_PER_SLASHINGS_VECTOR"
  shows "isSlashableAttestationData (ix_data (asl_attestation1 op)) (ix_data (asl_attestation2 op)) \<and>
    (let A = {i \<in> set (ix_attestingIndices (asl_attestation1 op)) \<inter> set (ix_attestingIndices (asl_attestation2 op)).
       isSlashableValidator (ts_validators s ! i) (currentEpochOf s)}
     in A \<noteq> {} \<and> slashedExactly A s t)"
  using attesterSlashing_step [OF assms] by (simp add: Let_def)

text \<open>
  C11. In a state that satisfies the invariant of the cached state, in which the cached counters stand for the exit
  queue of the registry (\<open>queueOk\<close>; reachable states can violate it, then the exit epoch is another one), a voluntary
  exit is accepted exactly when the validator exists, is active, has not initiated an exit, the epoch of the message has
  come, it has been active for the committee period, and, when signatures are checked, the check of the code succeeds,
  whose domain is not the one of the specification. The validator then gets the exit epoch that the
  specification computes from the whole registry, within the churn limit, and no other validator changes.
\<close>

theorem voluntaryExit_refines:
  assumes "stateOk fork k s"
  shows "((\<exists>t. processVoluntaryExit lib config v op s = Inr t) \<longleftrightarrow>
      exitAllowed config s (sv_message op) \<and> (v \<longrightarrow> verifyVoluntaryExitSignature lib s op = Inr True)) \<and>
    (\<forall>t. processVoluntaryExit lib config v op s = Inr t \<longrightarrow>
      (let i = ve_validatorIndex (sv_message op);
          e = specExitEpoch (currentEpochOf s) (ec_churnLimit (epochCtx s)) (ts_validators s)
       in ts_validators t = (ts_validators s)[i := exitedValidator config e (ts_validators s ! i)] \<and>
          count_list (exitEpochs (ts_validators t)) e \<le> ec_churnLimit (epochCtx s)))"
  using voluntaryExit_step [OF assms] by blast

text \<open>
  C10. In a state that satisfies the invariant of the cached state, a deposit with a valid proof advances the deposit
  index; when its key is registered the balance of that validator grows by the amount, and otherwise a validator with the
  rounded and capped balance is added, with its entries in the parallel lists and caches, if the deposit is signed; every
  other part of the state stays as it was. Hypothesis: the cache of public keys, which all states share, does not know the
  key at an index that another validator of this state has, which the code does not ensure.
\<close>

theorem processDeposit_refines:
  assumes "stateOk fork k s" "saturating lib"
    and "\<forall>i. jm_get (ec_pubkey2index (epochCtx s)) (dd_pubkey (dp_data dep)) = Some i \<longrightarrow>
      i < length (ts_validators s) \<longrightarrow> knownAs s (dd_pubkey (dp_data dep)) i"
    and "verifyMerkleBranch lib (sl_depositDataRoot lib (dp_data dep)) (dp_proof dep)
      (DEPOSIT_CONTRACT_TREE_DEPTH + 1) (ts_eth1DepositIndex s) (e1_depositRoot (ts_eth1Data s)) = Inr True"
  shows "\<exists>t. processDeposit lib config fork' dep s = Inr t \<and> specDeposit lib config fork' (dp_data dep) s t"
  using assms by (rule deposit_step)

text \<open>
  The eth1 data of the state changes exactly when, counting the vote of the block, strictly more than half of the
  slots of the voting period voted for it; the short cuts of the code make no difference. The roots of
  the votes must tell them from the new one.
\<close>

theorem processEth1Data_majority:
  assumes "\<forall>vote \<in> set (ts_eth1DataVotes s). sl_eth1DataRoot lib vote = sl_eth1DataRoot lib (bo_eth1Data body) \<longrightarrow> vote = bo_eth1Data body"
  shows "let t = processEth1Data lib s body in
    ts_eth1DataVotes t = ts_eth1DataVotes s @ [bo_eth1Data body] \<and>
    ts_eth1Data t = (if count_list (ts_eth1DataVotes t) (bo_eth1Data body) * 2 > EPOCHS_PER_ETH1_VOTING_PERIOD * SLOTS_PER_EPOCH
      then bo_eth1Data body else ts_eth1Data s)"
  using eth1_majority [OF assms] by (auto simp: processEth1Data_def Let_def votesFor_def SLOTS_PER_ETH1_VOTING_PERIOD_def)

end
