(* ===== verification/AttestationSpec.thy ===== *)
theory AttestationSpec
  imports OperationSpec
begin

unbundle bit_operations_syntax

text \<open>
  The attestations of altair against the specification. The specification handles one attestation after the other,
  writes every flag into the state and pays the proposer each time. The code reads block roots through a cache,
  collects the flags of all attestations in two maps, and pays once. The lemmas relate the two turn by turn.
\<close>

section \<open>The specification\<close>

text \<open>\<open>get_attestation_participation_flag_indices\<close>\<close>

definition flagList :: "bool \<Rightarrow> bool \<Rightarrow> bool \<Rightarrow> nat list" where
  "flagList timelySource timelyTarget timelyHead =
     (if timelySource then [TIMELY_SOURCE_FLAG_INDEX] else []) @ (if timelyTarget then [TIMELY_TARGET_FLAG_INDEX] else []) @
     (if timelyHead then [TIMELY_HEAD_FLAG_INDEX] else [])"

definition specFlagIndices :: "cached_state \<Rightarrow> attestation_data \<Rightarrow> nat \<Rightarrow> st_error + nat list" where
  "specFlagIndices s data inclusionDelay =
     (let justifiedCheckpoint =
            (if rc_epoch (ad_target data) = currentEpochOf s then ts_currentJustifiedCheckpoint s
             else ts_previousJustifiedCheckpoint s)
      in if ad_source data \<noteq> justifiedCheckpoint then Inl SourceNotJustified
         else bind_res (st_getBlockRoot s (rc_epoch (ad_target data))) (\<lambda>targetRoot.
           let matchingTarget = (rc_root (ad_target data) = targetRoot)
           in bind_res (if matchingTarget
               then bind_res (st_getBlockRootAtSlot s (ad_slot data)) (\<lambda>r. Inr (ad_beaconBlockRoot data = r)) else Inr False)
             (\<lambda>matchingHead. Inr (flagList (inclusionDelay \<le> intSqrt SLOTS_PER_EPOCH)
               (matchingTarget \<and> inclusionDelay \<le> SLOTS_PER_EPOCH)
               (matchingHead \<and> inclusionDelay = MIN_ATTESTATION_INCLUSION_DELAY)))))"

definition specBaseReward :: "cached_state \<Rightarrow> nat \<Rightarrow> nat" where
  "specBaseReward s index =
     v_effectiveBalance (ts_validators s ! index) div EFFECTIVE_BALANCE_INCREMENT * ec_baseRewardPerIncrement (epochCtx s)"

definition specSetFlag :: "cached_state \<Rightarrow> nat list \<Rightarrow> nat \<Rightarrow> nat \<Rightarrow> nat list \<times> nat \<Rightarrow> nat list \<times> nat" where
  "specSetFlag s flagIndices index k acc =
     (let (participation, numerator) = acc
      in if k \<in> set flagIndices \<and> \<not> bit (participation ! index) k
         then (participation[index := set_bit k (participation ! index)],
               numerator + specBaseReward s index * PARTICIPATION_FLAG_WEIGHTS ! k)
         else (participation, numerator))"

definition specAttestIndex :: "cached_state \<Rightarrow> nat list \<Rightarrow> nat \<Rightarrow> nat list \<times> nat \<Rightarrow> nat list \<times> nat" where
  "specAttestIndex s flagIndices index acc =
     fold (specSetFlag s flagIndices index) [0..<length PARTICIPATION_FLAG_WEIGHTS] acc"

definition specProposerDenominator :: nat where
  "specProposerDenominator = (WEIGHT_DENOMINATOR - PROPOSER_WEIGHT) * WEIGHT_DENOMINATOR div PROPOSER_WEIGHT"

text \<open>The attesters: no validator twice. The order in which a Python set is iterated is not fixed; here the committee's.\<close>

definition specAttestingIndices :: "nat list \<Rightarrow> bool list \<Rightarrow> nat list" where
  "specAttestingIndices committee bits = remdups (map fst (filter snd (zip committee bits)))"

text \<open>
  \<open>is_valid_indexed_attestation\<close> of the attesters in ascending order: there is one, and, when signatures are verified,
  their keys have signed the data. The signing root is the one of the code.
\<close>

definition specValidIndexed :: "st_lib \<Rightarrow> bool \<Rightarrow> attestation \<Rightarrow> cached_state \<Rightarrow> nat list \<Rightarrow> bool" where
  "specValidIndexed lib v att s attesters \<longleftrightarrow> attesters \<noteq> [] \<and>
     (v \<longrightarrow> verifySignatureSet lib
       (getAttestationWithIndicesSignatureSet lib s (at_data att) (at_signature att) (sort attesters)) = Inr True)"

definition accepted :: "'e + 'a \<Rightarrow> 'a option" where
  "accepted r = (case r of Inl e \<Rightarrow> None | Inr x \<Rightarrow> Some x)"

lemma accepted_simps [simp]: "accepted (Inl e) = None" "accepted (Inr x) = Some x"
  by (simp_all add: accepted_def)

text \<open>
  \<open>process_attestation\<close>; \<open>None\<close> is a failed assertion. Committees, proposer and base reward are those of the context.
  First the assertions on the data, which give the committee.
\<close>

definition specCommittee :: "attestation \<Rightarrow> cached_state \<Rightarrow> nat list option" where
  "specCommittee att s =
     (let data = at_data att; target = rc_epoch (ad_target data)
      in if \<not> (target = es_epoch (ec_previousShuffling (epochCtx s)) \<or> target = currentEpochOf s) then None
         else if target \<noteq> computeEpochAtSlot (ad_slot data) then None
         else if \<not> (ad_slot data + MIN_ATTESTATION_INCLUSION_DELAY \<le> ts_slot s \<and>
                     ts_slot s \<le> ad_slot data + SLOTS_PER_EPOCH) then None
         else Option.bind (accepted (getCommitteeCountPerSlot (epochCtx s) target)) (\<lambda>committeeCount.
         if \<not> ad_index data < committeeCount then None
         else Option.bind (accepted (getBeaconCommittee (epochCtx s) (ad_slot data) (ad_index data))) (\<lambda>committee.
         if length (at_aggregationBits att) \<noteq> length committee then None else Some committee)))"

definition specProcessAttestation :: "st_lib \<Rightarrow> bool \<Rightarrow> attestation \<Rightarrow> cached_state \<Rightarrow> cached_state option" where
  "specProcessAttestation lib v att s =
     (let data = at_data att;
          current = (rc_epoch (ad_target data) = currentEpochOf s)
      in Option.bind (specCommittee att s) (\<lambda>committee.
         Option.bind (accepted (specFlagIndices s data (ts_slot s - ad_slot data))) (\<lambda>flagIndices.
         let attesters = specAttestingIndices committee (at_aggregationBits att)
         in if \<not> specValidIndexed lib v att s attesters then None
            else let (participation, numerator) = fold (specAttestIndex s flagIndices) attesters
                   (if current then ts_currentEpochParticipation s else ts_previousEpochParticipation s, 0);
                 s1 = (if current then s\<lparr>ts_currentEpochParticipation := participation\<rparr>
                   else s\<lparr>ts_previousEpochParticipation := participation\<rparr>)
            in Option.bind (accepted (getBeaconProposer (epochCtx s) (ts_slot s))) (\<lambda>proposer.
              accepted (increaseBalance lib proposer (numerator div specProposerDenominator) s1)))))"

primrec specProcessAttestations :: "st_lib \<Rightarrow> bool \<Rightarrow> attestation list \<Rightarrow> cached_state \<Rightarrow> cached_state option" where
  "specProcessAttestations lib v [] s = Some s"
| "specProcessAttestations lib v (att # atts) s =
     Option.bind (specProcessAttestation lib v att s) (specProcessAttestations lib v atts)"

section \<open>One attestation after the other\<close>

text \<open>In between: the checks and errors of the code, with the flags and payments of the specification.\<close>

definition checkedIndices :: "st_lib \<Rightarrow> bool \<Rightarrow> attestation \<Rightarrow> cached_state \<Rightarrow> st_error + nat list" where
  "checkedIndices lib v att s =
     bind_res (validateAttestation s att) (\<lambda>_.
     bind_res (getAttestingIndices (epochCtx s) (at_data att) (at_aggregationBits att)) (\<lambda>attestingIndices.
     bind_res (if v
         then verifySignatureSet lib (getAttestationWithIndicesSignatureSet lib s (at_data att) (at_signature att) attestingIndices)
         else Inr True) (\<lambda>valid.
     if \<not> valid then Inl InvalidAttestationSignature else Inr attestingIndices)))"

definition sequentialAttestation :: "st_lib \<Rightarrow> bool \<Rightarrow> attestation \<Rightarrow> cached_state \<Rightarrow> st_error + cached_state" where
  "sequentialAttestation lib v att s =
     (let data = at_data att;
          current = (rc_epoch (ad_target data) = currentEpochOf s)
      in bind_res (checkedIndices lib v att s) (\<lambda>attestingIndices.
         bind_res (specFlagIndices s data (ts_slot s - ad_slot data)) (\<lambda>flagIndices.
         let (participation, numerator) = fold (specAttestIndex s flagIndices) attestingIndices
               (if current then ts_currentEpochParticipation s else ts_previousEpochParticipation s, 0);
             s1 = (if current then s\<lparr>ts_currentEpochParticipation := participation\<rparr>
               else s\<lparr>ts_previousEpochParticipation := participation\<rparr>)
         in bind_res (getBeaconProposer (epochCtx s) (ts_slot s)) (\<lambda>proposer.
              increaseBalance lib proposer (numerator div specProposerDenominator) s1))))"

text \<open>A turn of the code, with the same checks.\<close>

lemma attestInBatch_eq: "attestInBatch lib s v att batch =
    bind_res (checkedIndices lib v att s) (\<lambda>attestingIndices.
    bind_res (getAttestationParticipationStatus s (at_data att) (ts_slot s - ad_slot (at_data att)) (ab_rootCache batch))
      (\<lambda>(flagsAttestation, cache).
        let current = (rc_epoch (ad_target (at_data att)) = currentEpochOf s);
            (epochStatuses, totalIncrements) =
              fold (attestIndex (ec_effectiveBalanceIncrements (epochCtx s))
                  (if current then ts_currentEpochParticipation s else ts_previousEpochParticipation s) flagsAttestation)
                attestingIndices
                (if current then ab_currentEpochStatuses batch else ab_previousEpochStatuses batch, 0);
            batch1 = batch\<lparr>ab_rootCache := cache, ab_proposerReward := ab_proposerReward batch +
              totalIncrements * ec_baseRewardPerIncrement (epochCtx s) div PROPOSER_REWARD_DOMINATOR\<rparr>
        in Inr (if current then batch1\<lparr>ab_currentEpochStatuses := epochStatuses\<rparr>
             else batch1\<lparr>ab_previousEpochStatuses := epochStatuses\<rparr>)))"
proof -
  have assoc: "bind_res (bind_res m f) g = bind_res m (\<lambda>x. bind_res (f x) g)" for m :: "st_error + 'a"
      and f :: "'a \<Rightarrow> st_error + 'b" and g :: "'b \<Rightarrow> st_error + 'c"
    by (cases m) auto
  have cond: "bind_res (if \<not> b then Inl e else Inr x) g = (if \<not> b then Inl e else g x)" for b and e :: st_error
      and x :: "nat list" and g :: "nat list \<Rightarrow> st_error + att_batch"
    by simp
  show ?thesis
    by (simp only: attestInBatch_def checkedIndices_def Let_def currentEpochOf_def assoc cond)
qed

section \<open>Flags\<close>

definition flagsOf :: "nat list \<Rightarrow> nat" where
  "flagsOf flagIndices = fold (\<lambda>k flags. set_bit k flags) flagIndices 0"

lemma bit_flagsOf_from: "bit (fold (\<lambda>k flags. set_bit k flags) ks f) n \<longleftrightarrow> n \<in> set ks \<or> bit f n" for f :: nat
  by (induction ks arbitrary: f) (auto simp: bit_simps)

lemma bit_flagsOf [simp]: "bit (flagsOf ks) n \<longleftrightarrow> n \<in> set ks"
  by (simp add: flagsOf_def bit_flagsOf_from)

lemma and_single: "x AND 2 ^ k = 2 ^ k \<longleftrightarrow> bit x k" for x :: int
proof
  assume "x AND 2 ^ k = 2 ^ k"
  then have "bit (x AND 2 ^ k) k = bit (2 ^ k :: int) k" by simp
  then show "bit x k" by (simp add: bit_simps)
next
  assume "bit x k"
  then show "x AND 2 ^ k = 2 ^ k" by (intro bit_eqI) (auto simp: bit_simps)
qed

lemma newFlagsWeight_eq: "newFlagsWeight f g =
    (if bit g 0 \<and> \<not> bit f 0 then TIMELY_SOURCE_WEIGHT else 0) +
    (if bit g 1 \<and> \<not> bit f 1 then TIMELY_TARGET_WEIGHT else 0) +
    (if bit g 2 \<and> \<not> bit f 2 then TIMELY_HEAD_WEIGHT else 0)"
proof -
  have "(NOT (int f) AND int g) AND int (push_bit k 1) = int (push_bit k 1) \<longleftrightarrow> bit g k \<and> \<not> bit f k" for k
    using and_single [of "NOT (int f) AND int g" k] by (simp add: push_bit_eq_mult bit_simps conj_commute)
  then show ?thesis
    by (simp only: newFlagsWeight_def Let_def TIMELY_SOURCE_def TIMELY_TARGET_def TIMELY_HEAD_def
        TIMELY_SOURCE_FLAG_INDEX_def TIMELY_TARGET_FLAG_INDEX_def TIMELY_HEAD_FLAG_INDEX_def)
qed

text \<open>One validator: the flags of the specification, one by one, are those of the code, all at once.\<close>

lemma specAttestIndex_eq:
  assumes "index < length participation" "set ks \<subseteq> {0, 1, 2}"
  shows "specAttestIndex s ks index (participation, numerator) =
    (participation[index := flagsOf ks OR participation ! index],
     numerator + specBaseReward s index * newFlagsWeight (participation ! index) (flagsOf ks))"
proof -
  let ?f = "participation ! index"
  have step: "specSetFlag s ks index k (participation[index := g], n) =
      (participation[index := (if k \<in> set ks then set_bit k g else g)],
       n + specBaseReward s index * (if k \<in> set ks \<and> \<not> bit g k then PARTICIPATION_FLAG_WEIGHTS ! k else 0))" for k g n
  proof -
    have "bit g k \<Longrightarrow> set_bit k g = g"
      by (rule bit_eqI) (auto simp: bit_simps)
    then show ?thesis
      using assms(1) by (simp add: specSetFlag_def)
  qed
  define g1 where "g1 = (if 0 \<in> set ks then set_bit 0 ?f else ?f)"
  define g2 where "g2 = (if 1 \<in> set ks then set_bit 1 g1 else g1)"
  define g3 where "g3 = (if 2 \<in> set ks then set_bit 2 g2 else g2)"
  define w where "w k g = (if k \<in> set ks \<and> \<not> bit g k then PARTICIPATION_FLAG_WEIGHTS ! k else 0)"
    for k and g :: nat
  have "specSetFlag s ks index 0 (participation, numerator) = (participation[index := g1], numerator + specBaseReward s index * w 0 ?f)"
    using step [of 0 ?f numerator] by (simp add: g1_def w_def)
  moreover have "specSetFlag s ks index 1 (participation[index := g1], n) = (participation[index := g2], n + specBaseReward s index * w 1 g1)" for n
    using step [of 1 g1 n] by (simp add: g2_def w_def)
  moreover have "specSetFlag s ks index 2 (participation[index := g2], n) = (participation[index := g3], n + specBaseReward s index * w 2 g2)" for n
    using step [of 2 g2 n] by (simp add: g3_def w_def)
  moreover have "[0..<length PARTICIPATION_FLAG_WEIGHTS] = [0, 1, 2]"
    by (simp add: PARTICIPATION_FLAG_WEIGHTS_def upt_rec)
  ultimately have fold3: "specAttestIndex s ks index (participation, numerator) =
      (participation[index := g3], numerator + specBaseReward s index * w 0 ?f + specBaseReward s index * w 1 g1 +
        specBaseReward s index * w 2 g2)"
    by (simp only: specAttestIndex_def fold_simps)
  have "g3 = flagsOf ks OR ?f"
    using assms(2) by (intro bit_eqI) (auto simp: g1_def g2_def g3_def bit_simps)
  moreover have "bit g1 1 = bit ?f 1" "bit g2 2 = bit ?f 2"
    by (auto simp: g1_def g2_def bit_simps)
  then have "w 0 ?f + w 1 g1 + w 2 g2 = newFlagsWeight ?f (flagsOf ks)"
    by (simp add: w_def newFlagsWeight_eq PARTICIPATION_FLAG_WEIGHTS_def)
  ultimately show ?thesis
    using fold3 by (simp add: algebra_simps flip: distrib_left)
qed


section \<open>The maps of flags\<close>

text \<open>The participation that the specification has written, where the code has collected entries.\<close>

definition writtenFlags :: "nat list \<Rightarrow> (nat, nat) jsmap \<Rightarrow> nat list \<Rightarrow> bool" where
  "writtenFlags p0 st participation \<longleftrightarrow> length participation = length p0 \<and>
     (\<forall>i < length p0. participation ! i = statusOf st p0 i) \<and> jm_ok st \<and> (\<forall>i. jm_has st i \<longrightarrow> i < length p0)"

lemma writtenFlags_Nil: "writtenFlags p0 [] p0"
  by (simp add: writtenFlags_def statusOf_def jm_has_def)

lemma writtenFlags_set: "writtenFlags p0 st participation \<Longrightarrow> i < length p0 \<Longrightarrow>
    writtenFlags p0 (jm_set i f st) (participation[i := f])"
  by (auto simp: writtenFlags_def statusOf_def jm_has_def nth_list_update)

lemma setStatus_all:
  assumes "jm_ok st" "\<forall>i. jm_has st i \<longrightarrow> i < length p0"
  shows "\<exists>ys. fold_res setStatus st p0 = Inr ys \<and> length ys = length p0 \<and> (\<forall>i < length p0. ys ! i = statusOf st p0 i)"
  using assms
proof (induction st arbitrary: p0)
  case (Cons e st)
  obtain k f where e: "e = (k, f)" by (cases e)
  have k: "k < length p0" "jm_get st k = None"
    using Cons.prems by (auto simp: e jm_has_def jm_get_def jm_ok_def map_of_eq_None_iff)
  have "jm_has st i \<Longrightarrow> i < length (p0[k := f])" for i
    using Cons.prems(2) by (auto simp: e jm_has_def jm_get_def split: if_splits)
  with Cons.IH [of "p0[k := f]"] Cons.prems(1) obtain ys where
    ys: "fold_res setStatus st (p0[k := f]) = Inr ys" "length ys = length p0"
    "\<forall>i < length p0. ys ! i = statusOf st (p0[k := f]) i"
    by (auto simp: jm_ok_def)
  have "fold_res setStatus (e # st) p0 = Inr ys"
    using k(1) ys(1) by (simp add: e setStatus_def [of "(k, f)"])
  moreover have "i < length p0 \<Longrightarrow> statusOf (e # st) p0 i = statusOf st (p0[k := f]) i" for i
    using k by (auto simp: e statusOf_def jm_get_def nth_list_update split: option.splits)
  ultimately show ?case
    using ys by auto
qed (auto simp: statusOf_def)

lemma updateEpochParticipants_eq:
  assumes "writtenFlags p0 st participation"
  shows "updateEpochParticipants st p0 n = Inr participation"
proof -
  obtain ys where ys: "fold_res setStatus st p0 = Inr ys" "length ys = length p0" "\<forall>i < length p0. ys ! i = statusOf st p0 i"
    using setStatus_all [of st p0] assms by (auto simp: writtenFlags_def)
  then have "ys = participation"
    using assms by (auto simp: writtenFlags_def intro: nth_equalityI)
  with ys(1) show ?thesis
    by (simp add: updateEpochParticipants_def)
qed

lemma attest_loop:
  assumes "\<forall>i \<in> set is. i < length p0 \<and> specBaseReward s i = unat (incs ! i) * b" "set ks \<subseteq> {0, 1, 2}"
    and "writtenFlags p0 st participation"
    and "fold (attestIndex incs p0 (flagsOf ks)) is (st, sofar) = (st', sofar')"
  shows "\<exists>participation'. fold (specAttestIndex s ks) is (participation, sofar * b) = (participation', sofar' * b) \<and>
    writtenFlags p0 st' participation'"
  using assms(1,3,4)
proof (induction "is" arbitrary: st participation sofar)
  case (Cons i "is")
  let ?f = "statusOf st p0 i"
  let ?sofar = "sofar + unat (incs ! i) * newFlagsWeight ?f (flagsOf ks)"
  have i: "i < length participation" "participation ! i = ?f" "i < length p0"
    using Cons.prems(1,2) by (auto simp: writtenFlags_def)
  have "attestIndex incs p0 (flagsOf ks) i (st, sofar) = (jm_set i (flagsOf ks OR ?f) st, ?sofar)"
    by (simp add: attestIndex_def Let_def)
  with Cons.prems(3) have rest: "fold (attestIndex incs p0 (flagsOf ks)) is (jm_set i (flagsOf ks OR ?f) st, ?sofar) = (st', sofar')"
    by simp
  have "specAttestIndex s ks i (participation, sofar * b) = (participation[i := flagsOf ks OR ?f], ?sofar * b)"
    using specAttestIndex_eq [OF i(1) assms(2), of s "sofar * b"] i(2) Cons.prems(1) by (simp add: algebra_simps)
  with Cons.IH [OF _ writtenFlags_set [OF Cons.prems(2) i(3)] rest] Cons.prems(1) show ?case
    by simp
qed auto

section \<open>The cache of block roots\<close>

definition cacheOk :: "cached_state \<Rightarrow> root_cache \<Rightarrow> bool" where
  "cacheOk s cache \<longleftrightarrow> rca_currentJustifiedCheckpoint cache = ts_currentJustifiedCheckpoint s \<and>
     rca_previousJustifiedCheckpoint cache = ts_previousJustifiedCheckpoint s \<and>
     (\<forall>e r. jm_get (rca_blockRootEpochCache cache) e = Some r \<longrightarrow> st_getBlockRoot s e = Inr r) \<and>
     (\<forall>n r. jm_get (rca_blockRootSlotCache cache) n = Some r \<longrightarrow> st_getBlockRootAtSlot s n = Inr r)"

lemma cacheOk_new: "cacheOk s (newRootCache s)"
  by (simp add: cacheOk_def newRootCache_def)

lemma cache_epoch:
  assumes "cacheOk s cache"
  obtains (err) e where "st_getBlockRoot s n = Inl e" "rca_getBlockRoot s n cache = Inl e"
  | (found) r cache' where "st_getBlockRoot s n = Inr r" "rca_getBlockRoot s n cache = Inr (r, cache')" "cacheOk s cache'"
  using assms
  by (cases "jm_get (rca_blockRootEpochCache cache) n"; cases "st_getBlockRoot s n")
    (auto simp: rca_getBlockRoot_def cacheOk_def split: if_splits)

lemma cache_slot:
  assumes "cacheOk s cache"
  obtains (err) e where "st_getBlockRootAtSlot s n = Inl e" "rca_getBlockRootAtSlot s n cache = Inl e"
  | (found) r cache' where "st_getBlockRootAtSlot s n = Inr r" "rca_getBlockRootAtSlot s n cache = Inr (r, cache')" "cacheOk s cache'"
  using assms
  by (cases "jm_get (rca_blockRootSlotCache cache) n"; cases "st_getBlockRootAtSlot s n")
    (auto simp: rca_getBlockRootAtSlot_def cacheOk_def split: if_splits)

lemma flagsOf_eq: "flagsOf (flagList a b c) =
  (let flags1 = (if a then 0 OR TIMELY_SOURCE else 0);
       flags2 = (if b then flags1 OR TIMELY_TARGET else flags1)
   in if c then flags2 OR TIMELY_HEAD else flags2)"
  by (cases a; cases b; cases c; simp add: flagList_def flagsOf_def set_bit_eq_or push_bit_eq_mult TIMELY_SOURCE_def TIMELY_TARGET_def
      TIMELY_HEAD_def TIMELY_SOURCE_FLAG_INDEX_def TIMELY_TARGET_FLAG_INDEX_def TIMELY_HEAD_FLAG_INDEX_def)


lemma participationStatus_eq:
  assumes "cacheOk s cache"
  obtains (err) e where "specFlagIndices s data d = Inl e" "getAttestationParticipationStatus s data d cache = Inl e"
  | (flags) ks cache' where "specFlagIndices s data d = Inr ks" "set ks \<subseteq> {0, 1, 2}"
      "getAttestationParticipationStatus s data d cache = Inr (flagsOf ks, cache')" "cacheOk s cache'"
proof -
  let ?justified = "if rc_epoch (ad_target data) = currentEpochOf s then ts_currentJustifiedCheckpoint s
    else ts_previousJustifiedCheckpoint s"
  have justified: "(if rc_epoch (ad_target data) = es_epoch (ec_currentShuffling (epochCtx s))
      then rca_currentJustifiedCheckpoint cache else rca_previousJustifiedCheckpoint cache) = ?justified"
    using assms by (simp add: cacheOk_def currentEpochOf_def)
  have flagSet: "set (flagList a b c) \<subseteq> {0, 1, 2}" for a b c
    by (auto simp: flagList_def TIMELY_SOURCE_FLAG_INDEX_def TIMELY_TARGET_FLAG_INDEX_def TIMELY_HEAD_FLAG_INDEX_def)
  show ?thesis
  proof (cases "ad_source data = ?justified")
    case False
    then show ?thesis
      by (intro err) (simp_all add: specFlagIndices_def getAttestationParticipationStatus_def justified Let_def)
  next
    case True
    note source = True
    from assms show ?thesis
    proof (cases rule: cache_epoch [where n = "rc_epoch (ad_target data)"])
      case (err e)
      with True show ?thesis
        by (intro that(1) [of e]) (simp_all add: specFlagIndices_def getAttestationParticipationStatus_def justified Let_def)
    next
      case (found r cache1)
      show ?thesis
      proof (cases "rc_root (ad_target data) = r")
        case False
        with True found show ?thesis
          by (intro that(2) [of "flagList (d \<le> intSqrt SLOTS_PER_EPOCH) False False", OF _ flagSet _ found(3)])
            (simp_all add: specFlagIndices_def getAttestationParticipationStatus_def justified Let_def flagsOf_eq)
      next
        case same: True
        from found(3) show ?thesis
        proof (cases rule: cache_slot [where n = "ad_slot data"])
          case (err e)
          with source found same show ?thesis
            by (intro that(1) [of e]) (simp_all add: specFlagIndices_def getAttestationParticipationStatus_def justified Let_def)
        next
          case (found h cache2)
          with source \<open>st_getBlockRoot s _ = Inr r\<close> \<open>rca_getBlockRoot s _ cache = _\<close> same show ?thesis
            by (intro that(2) [of "flagList (d \<le> intSqrt SLOTS_PER_EPOCH) (d \<le> SLOTS_PER_EPOCH)
                (ad_beaconBlockRoot data = h \<and> d = MIN_ATTESTATION_INCLUSION_DELAY)", OF _ flagSet _ found(3)])
              (simp_all add: specFlagIndices_def getAttestationParticipationStatus_def justified Let_def flagsOf_eq)
        qed
      qed
    qed
  qed
qed

section \<open>The batch\<close>

text \<open>The members of the committees of the three epochs are different validators.\<close>

definition committeesOk :: "cached_state \<Rightarrow> bool" where
  "committeesOk s \<longleftrightarrow> (\<forall>slt idx c. getBeaconCommittee (epochCtx s) slt idx = Inr c \<longrightarrow>
     distinct c \<and> (\<forall>i \<in> set c. i < length (ts_validators s)))"

lemma zipIndexes_subset: "set (fst (zipIndexes is bits)) \<subseteq> set is"
  by (induction "is" bits rule: zipIndexes.induct) (auto simp: Let_def split: prod.splits if_splits)

lemma attestingIndices_bound:
  assumes "committeesOk s" "getAttestingIndices (epochCtx s) data bits = Inr is" "i \<in> set is"
  shows "i < length (ts_validators s)"
proof -
  from assms(2) obtain c where "getBeaconCommittee (epochCtx s) (ad_slot data) (ad_index data) = Inr c"
    "is = fst (zipIndexes c bits)"
    by (auto simp: getAttestingIndices_def zipIndexesCommitteeBits_def bind_res_Inr_iff)
  with assms(1,3) zipIndexes_subset [of c bits] show ?thesis
    by (auto simp: committeesOk_def)
qed

text \<open>The state of the specification that stands for a batch: flags written and the proposer paid.\<close>

definition batchState :: "nat \<Rightarrow> cached_state \<Rightarrow> nat list \<Rightarrow> nat list \<Rightarrow> nat \<Rightarrow> cached_state" where
  "batchState proposer s previous current reward =
     s\<lparr>ts_previousEpochParticipation := previous, ts_currentEpochParticipation := current,
       ts_balances := (ts_balances s)[proposer := ts_balances s ! proposer + reward]\<rparr>"

definition batchRel :: "nat \<Rightarrow> cached_state \<Rightarrow> att_batch \<Rightarrow> cached_state \<Rightarrow> bool" where
  "batchRel proposer s batch u \<longleftrightarrow> cacheOk s (ab_rootCache batch) \<and>
     (\<exists>previous current. u = batchState proposer s previous current (ab_proposerReward batch) \<and>
       writtenFlags (ts_previousEpochParticipation s) (ab_previousEpochStatuses batch) previous \<and>
       writtenFlags (ts_currentEpochParticipation s) (ab_currentEpochStatuses batch) current)"

text \<open>What an attestation reads is the same in both states.\<close>

lemma batchState_reads [simp]:
  "validateAttestation (batchState p s P C r) att = validateAttestation s att"
  "epochCtx (batchState p s P C r) = epochCtx s"
  "ts_slot (batchState p s P C r) = ts_slot s"
  "currentEpochOf (batchState p s P C r) = currentEpochOf s"
  "checkedIndices lib v att (batchState p s P C r) = checkedIndices lib v att s"
  "specFlagIndices (batchState p s P C r) data d = specFlagIndices s data d"
  "specBaseReward (batchState p s P C r) = specBaseReward s"
  "specAttestIndex (batchState p s P C r) = specAttestIndex s"
proof -
  show base: "specBaseReward (batchState p s P C r) = specBaseReward s"
    by (intro ext) (simp add: specBaseReward_def batchState_def)
  have flag: "specSetFlag (batchState p s P C r) = specSetFlag s"
    by (intro ext) (simp only: specSetFlag_def base)
  show "specAttestIndex (batchState p s P C r) = specAttestIndex s"
    by (intro ext) (simp add: specAttestIndex_def flag)
  have key: "pubkeyAt (batchState p s P C r) = pubkeyAt s"
    by (intro ext) (simp add: pubkeyAt_def batchState_def)
  have sets: "getAttestationWithIndicesSignatureSet lib (batchState p s P C r) data sig is =
     getAttestationWithIndicesSignatureSet lib s data sig is" for data sig "is"
    by (simp add: getAttestationWithIndicesSignatureSet_def key)
  show ctx: "epochCtx (batchState p s P C r) = epochCtx s" and slt: "ts_slot (batchState p s P C r) = ts_slot s"
    by (simp_all add: batchState_def)
  show valid: "validateAttestation (batchState p s P C r) att = validateAttestation s att"
    by (simp only: validateAttestation_def ctx slt)
  show "checkedIndices lib v att (batchState p s P C r) = checkedIndices lib v att s"
    by (simp only: checkedIndices_def valid ctx sets)
qed (simp_all add: batchState_def specFlagIndices_def st_getBlockRoot_def st_getBlockRootAtSlot_def currentEpochOf_def Let_def)

lemma balance_step:
  assumes "saturating lib" "proposer < length (ts_balances s)"
  shows "increaseBalance lib (int proposer) n (batchState proposer s P C r) = Inr (batchState proposer s P C (r + n))"
proof -
  have "sl_addDelta lib (ts_balances s ! proposer + r) (int n) = ts_balances s ! proposer + (r + n)"
    using assms(1) by (simp add: saturating_def nat_add_distrib)
  with assms(2) show ?thesis
    by (simp add: increaseBalance_def applyDelta_def batchState_def)
qed

lemma attest_step:
  assumes ok: "stateOk fork k s" "committeesOk s" "saturating lib"
    and proposer: "getBeaconProposer (epochCtx s) (ts_slot s) = Inr (int proposer)" "proposer < length (ts_validators s)"
    and rel: "batchRel proposer s batch u"
  shows "case attestInBatch lib s v att batch of
      Inl e \<Rightarrow> sequentialAttestation lib v att u = Inl e
    | Inr batch' \<Rightarrow> \<exists>u'. sequentialAttestation lib v att u = Inr u' \<and> batchRel proposer s batch' u'"
proof -
  let ?data = "at_data att"
  let ?current = "rc_epoch (ad_target ?data) = currentEpochOf s"
  let ?p0 = "if ?current then ts_currentEpochParticipation s else ts_previousEpochParticipation s"
  let ?st = "if ?current then ab_currentEpochStatuses batch else ab_previousEpochStatuses batch"
  let ?incs = "ec_effectiveBalanceIncrements (epochCtx s)" let ?b = "ec_baseRewardPerIncrement (epochCtx s)"
  from rel obtain P C where u: "u = batchState proposer s P C (ab_proposerReward batch)"
    and cache: "cacheOk s (ab_rootCache batch)"
    and P: "writtenFlags (ts_previousEpochParticipation s) (ab_previousEpochStatuses batch) P"
    and C: "writtenFlags (ts_currentEpochParticipation s) (ab_currentEpochStatuses batch) C"
    by (auto simp: batchRel_def)
  let ?part = "if ?current then C else P"
  have part: "writtenFlags ?p0 ?st ?part" using P C by simp
  have balances: "proposer < length (ts_balances s)"
    using ok(1) proposer(2) by (simp add: stateOk_def balancesOk_def)
  show ?thesis
  proof (cases "checkedIndices lib v att s")
    case (Inl e)
    then show ?thesis by (simp add: attestInBatch_eq sequentialAttestation_def u Let_def)
  next
    case indices: (Inr "is")
    then have "getAttestingIndices (epochCtx s) ?data (at_aggregationBits att) = Inr is"
      by (auto simp: checkedIndices_def bind_res_Inr_iff split: if_splits)
    note bound = attestingIndices_bound [OF ok(2) this]
    from cache show ?thesis
    proof (cases rule: participationStatus_eq [where data = ?data and d = "ts_slot s - ad_slot ?data"])
      case (err e)
      with indices show ?thesis
        by (simp add: attestInBatch_eq sequentialAttestation_def u Let_def)
    next
      case (flags ks cache')
      obtain st' sofar where run: "fold (attestIndex ?incs ?p0 (flagsOf ks)) is (?st, 0) = (st', sofar)"
        by (metis surj_pair)
      have "\<forall>i \<in> set is. i < length ?p0 \<and> specBaseReward s i = unat (?incs ! i) * ?b"
        using bound ok(1) by (auto simp: stateOk_def balancesOk_def specBaseReward_def)
      from attest_loop [OF this flags(2) part run] obtain part' where
        part': "fold (specAttestIndex s ks) is (?part, 0) = (part', sofar * ?b)" "writtenFlags ?p0 st' part'"
        by auto
      let ?reward = "sofar * ?b div PROPOSER_REWARD_DOMINATOR"
      let ?u' = "batchState proposer s (if ?current then P else part') (if ?current then part' else C)
        (ab_proposerReward batch + ?reward)"
      let ?batch1 = "batch\<lparr>ab_rootCache := cache', ab_proposerReward := ab_proposerReward batch + ?reward\<rparr>"
      let ?batch' = "if ?current then ?batch1\<lparr>ab_currentEpochStatuses := st'\<rparr> else ?batch1\<lparr>ab_previousEpochStatuses := st'\<rparr>"
      have written: "(if ?current then u\<lparr>ts_currentEpochParticipation := part'\<rparr> else u\<lparr>ts_previousEpochParticipation := part'\<rparr>) =
          batchState proposer s (if ?current then P else part') (if ?current then part' else C) (ab_proposerReward batch)"
        by (simp add: u batchState_def)
      have lists: "(if ?current then ts_currentEpochParticipation u else ts_previousEpochParticipation u) = ?part"
        by (simp add: u batchState_def)
      have "sequentialAttestation lib v att u = increaseBalance lib (int proposer) ?reward
          (if ?current then u\<lparr>ts_currentEpochParticipation := part'\<rparr> else u\<lparr>ts_previousEpochParticipation := part'\<rparr>)"
        unfolding sequentialAttestation_def Let_def
        by (simp only: u batchState_reads indices bind_res.simps flags lists [unfolded u] part' prod.case proposer(1)
            specProposerDenominator_def PROPOSER_REWARD_DOMINATOR_def)
      then have "sequentialAttestation lib v att u = Inr ?u'"
        by (simp only: written balance_step [OF ok(3) balances])
      moreover have "attestInBatch lib s v att batch = Inr ?batch'"
        by (simp only: attestInBatch_eq Let_def indices bind_res.simps flags prod.case run)
      moreover have "batchRel proposer s ?batch' ?u'"
        unfolding batchRel_def using flags(4) P C part'(2)
        by (intro conjI exI [of _ "if ?current then P else part'"] exI [of _ "if ?current then part' else C"]) auto
      ultimately show ?thesis by simp
    qed
  qed
qed

lemma batch_loop:
  assumes "stateOk fork k s" "committeesOk s" "saturating lib"
    and "getBeaconProposer (epochCtx s) (ts_slot s) = Inr (int proposer)" "proposer < length (ts_validators s)"
    and "batchRel proposer s batch u"
  shows "case fold_res (attestInBatch lib s v) atts batch of
      Inl e \<Rightarrow> fold_res (sequentialAttestation lib v) atts u = Inl e
    | Inr batch' \<Rightarrow> \<exists>u'. fold_res (sequentialAttestation lib v) atts u = Inr u' \<and> batchRel proposer s batch' u'"
  using assms(6)
proof (induction atts arbitrary: batch u)
  case (Cons att atts)
  show ?case
  proof (cases "attestInBatch lib s v att batch")
    case (Inl e)
    with attest_step [OF assms(1-5) Cons.prems, of v att] show ?thesis by simp
  next
    case (Inr batch1)
    with attest_step [OF assms(1-5) Cons.prems, of v att] obtain u1 where
      u1: "sequentialAttestation lib v att u = Inr u1" "batchRel proposer s batch1 u1" by auto
    have "fold_res (sequentialAttestation lib v) (att # atts) u = fold_res (sequentialAttestation lib v) atts u1"
      "fold_res (attestInBatch lib s v) (att # atts) batch = fold_res (attestInBatch lib s v) atts batch1"
      using u1(1) Inr by simp_all
    with Cons.IH [OF u1(2)] show ?thesis by (simp only:)
  qed
qed simp

lemma attestations_sequential:
  assumes "stateOk fork k s" "committeesOk s" "saturating lib"
    and "getBeaconProposer (epochCtx s) (ts_slot s) = Inr (int proposer)" "proposer < length (ts_validators s)"
  shows "processAttestations lib v atts s = fold_res (sequentialAttestation lib v) atts s"
proof -
  let ?start = "\<lparr>ab_rootCache = newRootCache s, ab_proposerReward = 0, ab_previousEpochStatuses = [], ab_currentEpochStatuses = []\<rparr>"
  have balances: "proposer < length (ts_balances s)"
    using assms(1,5) by (simp add: stateOk_def balancesOk_def)
  have "s = batchState proposer s (ts_previousEpochParticipation s) (ts_currentEpochParticipation s) 0"
    by (simp add: batchState_def)
  then have "batchRel proposer s ?start s"
    unfolding batchRel_def att_batch.simps
    by (intro conjI cacheOk_new exI [of _ "ts_previousEpochParticipation s"] exI [of _ "ts_currentEpochParticipation s"]
      writtenFlags_Nil)
  note loop = batch_loop [OF assms this, of v atts]
  show ?thesis
  proof (cases "fold_res (attestInBatch lib s v) atts ?start")
    case (Inl e)
    with loop show ?thesis by (simp add: processAttestations_def)
  next
    case (Inr batch)
    with loop obtain P C where spec: "fold_res (sequentialAttestation lib v) atts s =
        Inr (batchState proposer s P C (ab_proposerReward batch))"
      and flags: "writtenFlags (ts_previousEpochParticipation s) (ab_previousEpochStatuses batch) P"
        "writtenFlags (ts_currentEpochParticipation s) (ab_currentEpochStatuses batch) C"
      by (auto simp: batchRel_def)
    have "s\<lparr>ts_previousEpochParticipation := P, ts_currentEpochParticipation := C\<rparr> = batchState proposer s P C 0"
      by (simp add: batchState_def)
    with Inr spec balance_step [OF assms(3) balances, of "ab_proposerReward batch" P C 0] show ?thesis
      by (simp add: processAttestations_def updateEpochParticipants_eq [OF flags(1)] updateEpochParticipants_eq [OF flags(2)] assms(4))
  qed
qed

section \<open>The checks\<close>

text \<open>
  What is relied on of the BLS library: the keys of an aggregate may come in any order, and an aggregate of no key is
  not verified.
\<close>

definition lawfulAggregate :: "st_lib \<Rightarrow> bool" where
  "lawfulAggregate lib \<longleftrightarrow> (\<forall>sig keys keys' r. mset keys = mset keys' \<longrightarrow>
       sl_verifyAggregate lib sig keys r = sl_verifyAggregate lib sig keys' r) \<and>
     (\<forall>sig r. sl_verifyAggregate lib sig [] r \<noteq> Some True)"

lemma zipIndexes_attesters: "length bits = length committee \<Longrightarrow>
    zipIndexesCommitteeBits committee bits = map fst (filter snd (zip committee bits))"
proof (induction committee arbitrary: bits)
  case (Cons c committee)
  then obtain b bs where "bits = b # bs" by (cases bits) auto
  with Cons.IH [of bs] Cons.prems show ?case
    by (simp add: zipIndexesCommitteeBits_def Let_def split_def)
qed (simp add: zipIndexesCommitteeBits_def)

lemma distinct_attesters: "distinct committee \<Longrightarrow> distinct (map fst (filter snd (zip committee bits)))"
proof (induction committee arbitrary: bits)
  case (Cons c committee)
  then show ?case
    by (cases bits) (auto dest: set_zip_leftD)
qed simp

lemma some_attester: "length bits = length committee \<Longrightarrow> True \<in> set bits \<Longrightarrow>
    map fst (filter snd (zip committee bits)) \<noteq> []"
proof (induction committee arbitrary: bits)
  case (Cons c committee)
  then show ?case by (cases bits) auto
qed simp

lemma verifyAggregate_sort:
  assumes "lawfulAggregate lib"
  shows "verifySignatureSet lib (getAttestationWithIndicesSignatureSet lib s data sig (sort is)) =
    verifySignatureSet lib (getAttestationWithIndicesSignatureSet lib s data sig is)"
proof -
  have "mset (map (pubkeyAt s) (sort is)) = mset (map (pubkeyAt s) is)"
    by (simp only: mset_map mset_sort)
  with assms have "sl_verifyAggregate lib g (map (pubkeyAt s) (sort is)) r = sl_verifyAggregate lib g (map (pubkeyAt s) is) r"
      for g r
    unfolding lawfulAggregate_def by blast
  then show ?thesis
    by (simp add: getAttestationWithIndicesSignatureSet_def verifySignatureSet_def Let_def)
qed

lemma verifyAggregate_empty:
  assumes "lawfulAggregate lib"
  shows "verifySignatureSet lib (getAttestationWithIndicesSignatureSet lib s data sig []) \<noteq> Inr True"
proof -
  have "sl_verifyAggregate lib g [] r \<noteq> Some True" for g r
    using assms unfolding lawfulAggregate_def by blast
  then have "fromLibrary (sl_verifyAggregate lib g [] r) \<noteq> Inr True" for g r
    by (auto simp: fromLibrary_def split: option.split)
  then show ?thesis
    by (auto simp: getAttestationWithIndicesSignatureSet_def verifySignatureSet_def Let_def bind_res_Inr_iff)
qed

text \<open>The check of the code and that of the specification, when there are attesters or signatures are verified.\<close>

lemma checkedIndices_accepted:
  assumes "committeesOk s" "v \<Longrightarrow> lawfulAggregate lib" "\<not> v \<Longrightarrow> True \<in> set (at_aggregationBits att)"
    "validateAttestation s att = Inr ()" "getBeaconCommittee (epochCtx s) (ad_slot (at_data att)) (ad_index (at_data att)) = Inr c"
    "length (at_aggregationBits att) = length c"
  shows "accepted (checkedIndices lib v att s) =
    (if specValidIndexed lib v att s (specAttestingIndices c (at_aggregationBits att))
     then Some (specAttestingIndices c (at_aggregationBits att)) else None)"
proof -
  let ?is = "map fst (filter snd (zip c (at_aggregationBits att)))"
  have "distinct c"
    using assms(1,5) by (simp add: committeesOk_def)
  then have a: "specAttestingIndices c (at_aggregationBits att) = ?is"
    using distinct_attesters by (simp add: specAttestingIndices_def distinct_remdups_id del: distinct_map)
  have g: "getAttestingIndices (epochCtx s) (at_data att) (at_aggregationBits att) = Inr ?is"
    using zipIndexes_attesters [OF assms(6)] by (simp add: getAttestingIndices_def assms(5))
  show ?thesis
  proof (cases v)
    case False
    with some_attester [OF assms(6)] assms(3) have "?is \<noteq> []" by blast
    with False show ?thesis
      by (simp add: checkedIndices_def assms(4) g a specValidIndexed_def)
  next
    case True
    note lawful = assms(2) [OF True]
    show ?thesis
    proof (cases "verifySignatureSet lib (getAttestationWithIndicesSignatureSet lib s (at_data att) (at_signature att) ?is)")
      case (Inl e)
      with True show ?thesis
        by (simp add: checkedIndices_def assms(4) g a specValidIndexed_def verifyAggregate_sort [OF lawful])
    next
      case (Inr b)
      with verifyAggregate_empty [OF lawful, of s "at_data att" "at_signature att"] have "b \<Longrightarrow> ?is \<noteq> []"
        by auto
      with Inr True show ?thesis
        by (cases b) (auto simp: checkedIndices_def assms(4) g a specValidIndexed_def verifyAggregate_sort [OF lawful])
    qed
  qed
qed


lemma accepted_Some [simp]: "accepted r = Some x \<longleftrightarrow> r = Inr x"
  by (cases r) simp_all

lemma specCommittee_valid:
  assumes "validateAttestation s att = Inr u"
  shows "\<exists>c. specCommittee att s = Some c \<and>
    getBeaconCommittee (epochCtx s) (ad_slot (at_data att)) (ad_index (at_data att)) = Inr c \<and>
    length (at_aggregationBits att) = length c"
proof -
  let ?data = "at_data att"
  from assms obtain count c where ok: "getCommitteeCountPerSlot (epochCtx s) (computeEpochAtSlot (ad_slot ?data)) = Inr count"
    "ad_index ?data < count" "rc_epoch (ad_target ?data) = es_epoch (ec_previousShuffling (epochCtx s)) \<or>
      rc_epoch (ad_target ?data) = currentEpochOf s"
    "rc_epoch (ad_target ?data) = computeEpochAtSlot (ad_slot ?data)"
    "ad_slot ?data + MIN_ATTESTATION_INCLUSION_DELAY \<le> ts_slot s" "ts_slot s \<le> ad_slot ?data + SLOTS_PER_EPOCH"
    "getBeaconCommittee (epochCtx s) (ad_slot ?data) (ad_index ?data) = Inr c" "length (at_aggregationBits att) = length c"
    by (auto simp: validateAttestation_def Let_def currentEpochOf_def bind_res_Inr_iff split: if_splits)
  then show ?thesis
    unfolding specCommittee_def Let_def by simp
qed

lemma specCommittee_refused:
  assumes "validateAttestation s att = Inl e"
  shows "specCommittee att s = None"
proof (rule ccontr)
  let ?data = "at_data att"
  assume "specCommittee att s \<noteq> None"
  then obtain count c where ok: "getCommitteeCountPerSlot (epochCtx s) (rc_epoch (ad_target ?data)) = Inr count"
    "ad_index ?data < count" "rc_epoch (ad_target ?data) = es_epoch (ec_previousShuffling (epochCtx s)) \<or>
      rc_epoch (ad_target ?data) = currentEpochOf s"
    "computeEpochAtSlot (ad_slot ?data) = rc_epoch (ad_target ?data)"
    "ad_slot ?data + MIN_ATTESTATION_INCLUSION_DELAY \<le> ts_slot s" "ts_slot s \<le> ad_slot ?data + SLOTS_PER_EPOCH"
    "getBeaconCommittee (epochCtx s) (ad_slot ?data) (ad_index ?data) = Inr c" "length (at_aggregationBits att) = length c"
  proof -
    assume some: "specCommittee att s \<noteq> None"
    then have t: "rc_epoch (ad_target ?data) = es_epoch (ec_previousShuffling (epochCtx s)) \<or>
        rc_epoch (ad_target ?data) = currentEpochOf s"
      "computeEpochAtSlot (ad_slot ?data) = rc_epoch (ad_target ?data)"
      "ad_slot ?data + MIN_ATTESTATION_INCLUSION_DELAY \<le> ts_slot s \<and> ts_slot s \<le> ad_slot ?data + SLOTS_PER_EPOCH"
      unfolding specCommittee_def Let_def by metis+
    from some t(1,3) have "\<exists>count c. getCommitteeCountPerSlot (epochCtx s) (rc_epoch (ad_target ?data)) = Inr count \<and>
        ad_index ?data < count \<and> getBeaconCommittee (epochCtx s) (ad_slot ?data) (ad_index ?data) = Inr c \<and>
        length (at_aggregationBits att) = length c"
      unfolding specCommittee_def Let_def t(2) by (auto simp: bind_eq_Some_conv split: if_splits)
    with t that show ?thesis by blast
  qed
  have "validateAttestation s att = Inr ()"
    using ok(3) unfolding validateAttestation_def Let_def currentEpochOf_def ok(4)
    by (simp add: ok(1,2,5,6,7,8))
  with assms show False by simp
qed

lemma accepted_bind: "accepted (bind_res m f) = Option.bind (accepted m) (\<lambda>x. accepted (f x))"
  by (cases m) simp_all

lemma sequential_accepted:
  assumes "committeesOk s" "v \<Longrightarrow> lawfulAggregate lib" "\<not> v \<Longrightarrow> True \<in> set (at_aggregationBits att)"
  shows "accepted (sequentialAttestation lib v att s) = specProcessAttestation lib v att s"
proof (cases "validateAttestation s att")
  case (Inl e)
  then show ?thesis
    by (simp add: sequentialAttestation_def checkedIndices_def specProcessAttestation_def specCommittee_refused [OF Inl] Let_def)
next
  case valid: (Inr u)
  let ?data = "at_data att"
  from specCommittee_valid [OF valid] obtain c where c: "specCommittee att s = Some c"
    "getBeaconCommittee (epochCtx s) (ad_slot ?data) (ad_index ?data) = Inr c" "length (at_aggregationBits att) = length c"
    by blast
  let ?is = "specAttestingIndices c (at_aggregationBits att)"
  have checks: "accepted (checkedIndices lib v att s) = (if specValidIndexed lib v att s ?is then Some ?is else None)"
    by (rule checkedIndices_accepted [OF assms _ c(2,3)]) (use valid in simp_all)
  show ?thesis
  proof (cases "accepted (specFlagIndices s ?data (ts_slot s - ad_slot ?data))")
    case None
    with checks c(1) show ?thesis
      by (simp add: sequentialAttestation_def specProcessAttestation_def Let_def accepted_bind)
  next
    case (Some ks)
    with checks c(1) show ?thesis
      by (simp add: sequentialAttestation_def specProcessAttestation_def Let_def accepted_bind split_def)
  qed
qed

lemma sequential_frame:
  assumes "sequentialAttestation lib v att s = Inr s'" "committeesOk s"
  shows "committeesOk s'"
  using assms by (auto simp: sequentialAttestation_def committeesOk_def Let_def bind_res_Inr_iff increaseBalance_def
    applyDelta_def split_def split: if_splits)

lemma sequential_all_accepted:
  assumes "committeesOk s" "v \<Longrightarrow> lawfulAggregate lib" "\<And>att. att \<in> set atts \<Longrightarrow> \<not> v \<Longrightarrow> True \<in> set (at_aggregationBits att)"
  shows "accepted (fold_res (sequentialAttestation lib v) atts s) = specProcessAttestations lib v atts s"
  using assms
proof (induction atts arbitrary: s)
  case (Cons att atts)
  have one: "accepted (sequentialAttestation lib v att s) = specProcessAttestation lib v att s"
    by (rule sequential_accepted [OF Cons.prems(1,2)]) (use Cons.prems(3) in auto)
  show ?case
  proof (cases "sequentialAttestation lib v att s")
    case (Inl e)
    with one show ?thesis by simp
  next
    case (Inr s')
    with one Cons.IH [OF sequential_frame [OF Inr Cons.prems(1)] Cons.prems(2)] Cons.prems(3) show ?thesis
      by (simp flip: one)
  qed
qed simp

section \<open>Properties\<close>

text \<open>
  C5. Processing the attestations of an altair block in one batch, with a cache of block roots, the flags collected in
  maps and a single payment of the proposer, succeeds exactly when process_attestation of the specification succeeds on
  them one after the other, and gives the same state. The specification reads committees, proposer and base reward from
  the epoch context, and the signing root is the code's. Hypotheses: the state satisfies the invariant of the cached
  state, committees hold different validators, the balance list saturates at zero, the proposer is a validator; when
  signatures are verified, the BLS library ignores the order of the keys of an aggregate and refuses one without keys;
  when they are not, every attestation has a bit set (the code accepts one that has none, the specification does not).
\<close>

theorem processAttestations_sequential:
  assumes "stateOk fork k s" "committeesOk s" "saturating lib"
    and "getBeaconProposer (epochCtx s) (ts_slot s) = Inr (int proposer)" "proposer < length (ts_validators s)"
    and "v \<Longrightarrow> lawfulAggregate lib" "\<And>att. att \<in> set atts \<Longrightarrow> \<not> v \<Longrightarrow> True \<in> set (at_aggregationBits att)"
  shows "accepted (processAttestations lib v atts s) = specProcessAttestations lib v atts s"
proof -
  have "processAttestations lib v atts s = fold_res (sequentialAttestation lib v) atts s"
    by (rule attestations_sequential [OF assms(1-5)])
  then show ?thesis
    using sequential_all_accepted [OF assms(2,6,7)] by simp
qed

end
