(* ===== verification/SyncAggregateSpec.thy ===== *)
theory SyncAggregateSpec
  imports BlockAttestations RegistrySpec
begin

text \<open>
  The sync aggregate: the deltas of a block are added up by validator, a validator may sit in the committee several
  times and may be the proposer, and each balance changes once.
\<close>

section \<open>Sums by validator\<close>

definition deltaOf :: "(int, int) jsmap \<Rightarrow> int \<Rightarrow> int" where
  "deltaOf m i = (case jm_get m i of None \<Rightarrow> 0 | Some d \<Rightarrow> d)"

lemma deltaOf_Nil [simp]: "deltaOf [] i = 0"
  by (simp add: deltaOf_def)

lemma deltaOf_accumulate [simp]: "deltaOf (accumulateDelta k d m) i = deltaOf m i + (if i = k then d else 0)"
  by (auto simp: deltaOf_def accumulateDelta_def split: option.splits)

lemma accumulate_ok [simp]: "jm_ok m \<Longrightarrow> jm_ok (accumulateDelta k d m)"
  by (simp add: accumulateDelta_def split: option.splits)

lemma deltaOf_fold: "deltaOf (fold (\<lambda>i. accumulateDelta (int i) d) is m) (int j) = deltaOf m (int j) + d * int (count_list is j)"
  by (induction "is" arbitrary: m) (simp_all add: algebra_simps)

lemma fold_accumulate_ok [simp]: "jm_ok m \<Longrightarrow> jm_ok (fold (\<lambda>i. accumulateDelta (int i) d) is m)"
  by (induction "is" arbitrary: m) simp_all

text \<open>What a validator earns or loses by the aggregate\<close>

definition syncDelta :: "epoch_ctx \<Rightarrow> nat list \<Rightarrow> nat list \<Rightarrow> int \<Rightarrow> nat \<Rightarrow> int" where
  "syncDelta ctx participants absent proposerIndex i =
     int (ec_syncParticipantReward ctx) * int (count_list participants i) +
     (if int i = proposerIndex then int (ec_syncProposerReward ctx * length participants) else 0) -
     int (ec_syncParticipantReward ctx) * int (count_list absent i)"

lemma syncDeltas_sum: "deltaOf (syncDeltas (ec_syncParticipantReward ctx) (ec_syncProposerReward ctx) p participants absent) (int i) =
    syncDelta ctx participants absent p i"
  by (simp add: syncDeltas_def syncDelta_def deltaOf_fold)

section \<open>One update of each balance\<close>

lemma applyDelta_at:
  assumes "saturating lib" "applyDelta lib k d s = Inr t"
  shows "\<exists>b. t = s\<lparr>ts_balances := b\<rparr> \<and> length b = length (ts_balances s) \<and>
    (\<forall>i < length (ts_balances s). b ! i = (if int i = k then nat (int (ts_balances s ! i) + d) else ts_balances s ! i))"
  using assms by (auto simp: applyDelta_def saturating_def nth_list_update split: if_splits)

lemma applyDeltaInBatch_Inr:
  assumes "saturating lib" "jm_ok m" "applyDeltaInBatch lib m s = Inr t"
  shows "\<exists>b. t = s\<lparr>ts_balances := b\<rparr> \<and> length b = length (ts_balances s) \<and>
    (\<forall>i < length (ts_balances s). b ! i = nat (int (ts_balances s ! i) + deltaOf m (int i)))"
  using assms(2,3)
proof (induction m arbitrary: s)
  case Nil
  then show ?case by (intro exI [of _ "ts_balances s"]) (simp add: applyDeltaInBatch_def)
next
  case (Cons e m)
  obtain k d where e: "e = (k, d)" by (cases e)
  from Cons.prems(2) obtain u where u: "applyDelta lib k d s = Inr u" "applyDeltaInBatch lib m u = Inr t"
    by (auto simp: applyDeltaInBatch_def e elim: bind_res_InrE split: sum.splits)
  have fresh: "jm_get m k = None"
    using Cons.prems(1) by (auto simp: e jm_ok_def jm_get_def map_of_eq_None_iff)
  have sums: "deltaOf (e # m) i = (if i = k then d else deltaOf m i)" for i
    by (simp add: e deltaOf_def jm_get_def)
  have "deltaOf m k = 0"
    using fresh by (simp add: deltaOf_def)
  moreover obtain b where b: "u = s\<lparr>ts_balances := b\<rparr>" "length b = length (ts_balances s)"
    "\<forall>i < length (ts_balances s). b ! i = (if int i = k then nat (int (ts_balances s ! i) + d) else ts_balances s ! i)"
    using applyDelta_at [OF assms(1) u(1)] by blast
  moreover obtain b' where "t = u\<lparr>ts_balances := b'\<rparr>" "length b' = length (ts_balances u)"
    "\<forall>i < length (ts_balances u). b' ! i = nat (int (ts_balances u ! i) + deltaOf m (int i))"
    using Cons.IH [OF _ u(2)] Cons.prems(1) by (auto simp: jm_ok_def)
  ultimately show ?case
    by (intro exI [of _ b']) (auto simp: sums)
qed

section \<open>Seats\<close>

text \<open>The members of the committee at the seats whose bit is set, or is not; a seat past the end of the bits has none.\<close>

definition seats :: "nat list \<Rightarrow> bool list \<Rightarrow> bool \<Rightarrow> nat list" where
  "seats committee bits b =
     map ((!) committee) (filter (\<lambda>k. (k < length bits \<and> bits ! k) = b) [0..<length committee])"

lemma seats_Cons: "seats (c # committee) bits b =
    (if (bits \<noteq> [] \<and> hd bits) = b then [c] else []) @ seats committee (tl bits) b"
proof -
  have upt: "[0..<Suc (length committee)] = 0 # map Suc [0..<length committee]"
    by (simp add: map_Suc_upt upt_conv_Cons del: upt_Suc)
  have shift: "(Suc k < length bits \<and> bits ! Suc k) = (k < length (tl bits) \<and> tl bits ! k)" for k
    by (cases bits) simp_all
  show ?thesis
    by (cases bits) (simp_all add: seats_def upt filter_map comp_def shift del: upt_Suc)
qed

lemma zipIndexes_seats: "zipIndexes committee bits = (seats committee bits True, seats committee bits False)"
proof (induction committee arbitrary: bits)
  case (Cons c committee)
  then show ?case
    by (simp add: seats_Cons)
qed (simp add: seats_def)

lemma participantInfo_seats: "getParticipantInfo s aggregate =
    map_sum id (\<lambda>committee. (seats committee (syncCommitteeBits aggregate) True, seats committee (syncCommitteeBits aggregate) False))
      (currentCommittee s)"
  by (cases "currentCommittee s") (simp_all add: getParticipantInfo_def zipAllIndexesSyncCommitteeBits_def zipIndexes_seats)

section \<open>Properties\<close>

text \<open>
  C12. A sync aggregate that is accepted changes the balances only: each validator earns the participant reward for every
  seat of the current committee that it holds and whose bit is set, the proposer earns its reward for every bit set, each
  seat whose bit is not set costs its validator the participant reward, and a balance stops at zero, whatever the
  order of the members.
\<close>

theorem syncAggregate_balances:
  assumes "saturating lib" "processSyncAggregate lib s block v = Inr t"
  shows "\<exists>committee p. currentCommittee s = Inr committee \<and>
    getBeaconProposer (epochCtx s) (ts_slot s) = Inr p \<and>
    t = s\<lparr>ts_balances := ts_balances t\<rparr> \<and> length (ts_balances t) = length (ts_balances s) \<and>
    (let bits = syncCommitteeBits (bo_syncAggregate (bl_body block)) in \<forall>i < length (ts_balances s).
      ts_balances t ! i = nat (int (ts_balances s ! i) +
        syncDelta (epochCtx s) (seats committee bits True) (seats committee bits False) p i))"
proof -
  let ?bits = "syncCommitteeBits (bo_syncAggregate (bl_body block))"
  from assms(2) obtain participants absent p where steps: "getParticipantInfo s (bo_syncAggregate (bl_body block)) = Inr (participants, absent)"
    "getBeaconProposer (epochCtx s) (ts_slot s) = Inr p"
    "applyDeltaInBatch lib (syncDeltas (ec_syncParticipantReward (epochCtx s)) (ec_syncProposerReward (epochCtx s)) p participants absent) s = Inr t"
    unfolding processSyncAggregate_def by (elim bind_res_InrE) (auto split: if_splits prod.splits elim!: bind_res_InrE)
  then obtain committee where c: "currentCommittee s = Inr committee" "participants = seats committee ?bits True"
      "absent = seats committee ?bits False"
    by (cases "currentCommittee s") (simp_all add: participantInfo_seats)
  have "jm_ok (syncDeltas (ec_syncParticipantReward (epochCtx s)) (ec_syncProposerReward (epochCtx s)) p participants absent)"
    by (simp add: syncDeltas_def)
  from applyDeltaInBatch_Inr [OF assms(1) this steps(3)] steps(2) c(1) show ?thesis
    by (auto simp: syncDeltas_sum Let_def simp flip: c(2,3))
qed

end
