(* ===== verification/BlockExamples.thy ===== *)
theory BlockExamples
  imports EpochExamples BlockChainSpec BlockInvariant OperationProps AttestationSpec SyncAggregateSpec
begin

text \<open>
  A chain of two blocks, and operations, at which the properties of block processing are applied. The long vectors of
  the state stay folded.
\<close>

section \<open>The state\<close>

definition bx_config :: state_config where
  "bx_config = ex_config\<lparr>sc_forks := ex_forks\<lparr>ALTAIR_FORK_EPOCH := \<infinity>\<rparr>\<rparr>"

lemma bx_fork [simp]: "getForkName (sc_forks bx_config) n = Phase0"
  by (simp add: bx_config_def getForkName_def getForkInfo_def ex_forks_def
      forksDescendingEpochOrder_def forks_def GENESIS_EPOCH_def zero_enat_def [symmetric])

text \<open>A slot in the middle of epoch 3, after the block of the slot before\<close>

definition bx_state :: cached_state where
  "bx_state = ex_state\<lparr>ts_slot := 100, ts_latestBlockHeader := \<lparr>bh_slot = 100, bh_proposerIndex = 0, bh_parentRoot = [9],
     bh_stateRoot = [8], bh_bodyRoot = [7]\<rparr>\<rparr>"

definition bx_body :: block_body where
  "bx_body = \<lparr>bo_randaoReveal = [1], bo_eth1Data = \<lparr>e1_depositRoot = [4], e1_depositCount = 5, e1_blockHash = [3]\<rparr>,
     bo_proposerSlashings = [], bo_attesterSlashings = [], bo_attestations = [], bo_deposits = [], bo_voluntaryExits = [],
     bo_syncAggregate = \<lparr>syncCommitteeBits = [], syncCommitteeSignature = []\<rparr>, bo_executionPayload = defaultPayload, bo_rest = []\<rparr>"

definition bx_block :: "slot \<Rightarrow> root \<Rightarrow> signed_block" where
  "bx_block n parent = \<lparr>sb_message = \<lparr>bl_slot = n, bl_proposerIndex = 0, bl_parentRoot = parent, bl_stateRoot = [of_nat n],
     bl_body = bx_body\<rparr>, sb_signature = []\<rparr>"

section \<open>A block on a state\<close>

text \<open>A state on which the block of slot \<open>n\<close> of epoch 3 is accepted\<close>

definition bx_ready :: "slot \<Rightarrow> cached_state \<Rightarrow> bool" where
  "bx_ready n s \<longleftrightarrow> ts_slot s = n \<and> epochCtx s = ex_ctx \<and> ts_validators s = ex_validators \<and>
     bh_slot (ts_latestBlockHeader s) < n \<and> ts_eth1Data s = bo_eth1Data bx_body \<and> ts_eth1DepositIndex s = 5"

lemma bx_processBlock:
  assumes "bx_ready n s" "n \<in> {96..127}" "parent = sl_headerRoot ex_lib (ts_latestBlockHeader s)"
  shows "\<exists>t. processBlock ex_lib bx_config s (sb_message (bx_block n parent)) False = Inr t \<and> ts_slot t = n \<and>
    epochCtx t = ex_ctx \<and> ts_validators t = ex_validators \<and> ts_eth1Data t = bo_eth1Data bx_body \<and> ts_eth1DepositIndex t = 5"
proof -
  have "n div 32 = 3"
    using assms(2) by auto
  then have "getBeaconProposer ex_ctx n = Inr 0"
    by (simp add: getBeaconProposer_def ex_ctx_def ex_shuffling_def computeEpochAtSlot_def SLOTS_PER_EPOCH_def nth_opt_def)
  then show ?thesis
    using assms(1,3)
    by (simp add: bx_ready_def bx_block_def processBlock_def processBlockPhase0_def processBlockHeader_def Let_def
        getValidator_def ex_validators_def ex_validator_def processRandao_def processOperationsPhase0_def checkDepositCount_def
        processEth1Data_def becomesNewEth1Data_def bx_body_def)
qed

text \<open>The passing of one slot, and a block of it\<close>

lemma processSlot_fields:
  "ts_slot (processSlot lib config s) = ts_slot s" "epochCtx (processSlot lib config s) = epochCtx s"
  "ts_validators (processSlot lib config s) = ts_validators s" "ts_eth1Data (processSlot lib config s) = ts_eth1Data s"
  "ts_eth1DepositIndex (processSlot lib config s) = ts_eth1DepositIndex s"
  "ts_latestBlockHeader (processSlot lib config s) = sealedHeader lib config s"
  by (simp_all add: processSlot_def sealedHeader_def Let_def)

lemma bx_slots:
  assumes "ts_slot s = n" "n \<in> {96..126}"
  shows "processSlots lib config fuel s (Suc n) = Inr ((processSlot lib config s)\<lparr>ts_slot := Suc n\<rparr>)"
proof -
  have "(Suc n) mod 32 \<noteq> 0"
    using assms(2) by (simp add: mod_Suc) presburger
  then have "slotStep lib config fuel s = Inr ((processSlot lib config s)\<lparr>ts_slot := Suc n\<rparr>)"
    using assms(1) by (simp add: slotStep_def Let_def processSlot_fields SLOTS_PER_EPOCH_def)
  then show ?thesis
    using assms(1) by (simp add: processSlots_def)
qed

lemma bx_transition:
  assumes "bx_ready (Suc n) (s\<lparr>ts_slot := Suc n\<rparr>)" "ts_slot s = n" "n \<in> {96..126}"
    "parent = sl_headerRoot ex_lib (sealedHeader ex_lib bx_config s)"
  shows "\<exists>t. stateTransition ex_lib bx_config fuel s (bx_block (Suc n) parent) True False False = Inr t \<and>
    bx_ready (Suc (Suc n)) (t\<lparr>ts_slot := Suc (Suc n)\<rparr>) \<and> ts_slot t = Suc n"
proof -
  let ?u = "(processSlot ex_lib bx_config s)\<lparr>ts_slot := Suc n\<rparr>"
  have slots: "processSlots ex_lib bx_config fuel s (Suc n) = Inr ?u"
    by (rule bx_slots [OF assms(2,3)])
  have u: "bx_ready (Suc n) ?u" "ts_latestBlockHeader ?u = sealedHeader ex_lib bx_config s"
    using assms(1) by (simp_all add: bx_ready_def processSlot_fields) (simp add: sealedHeader_def Let_def)
  with assms(3,4) obtain t where t: "processBlock ex_lib bx_config ?u (sb_message (bx_block (Suc n) parent)) False = Inr t"
    "ts_slot t = Suc n" "epochCtx t = ex_ctx" "ts_validators t = ex_validators" "ts_eth1Data t = bo_eth1Data bx_body"
    "ts_eth1DepositIndex t = 5"
    using bx_processBlock [of "Suc n" ?u parent] by auto
  moreover have "stateTransition ex_lib bx_config fuel s (bx_block (Suc n) parent) True False False = Inr t"
    using slots t(1,2) by (simp add: stateTransition_def Let_def bx_block_def ex_lib_def tree_state.defs)
  ultimately show ?thesis
    using stateTransition_result [of ex_lib bx_config fuel s "bx_block (Suc n) parent" True False False t]
    by (auto simp: bx_ready_def headerOfBlock_def bx_block_def)
qed

section \<open>The chain\<close>

theorem processSlots_ends_witness: "\<exists>t. processSlots ex_lib bx_config 0 bx_state 101 = Inr t \<and> ts_slot t = 101 \<and>
    processSlots ex_lib bx_config 0 bx_state 99 = Inl (SlotTooOld 99 100)"
proof -
  have slot: "ts_slot bx_state = 100"
    by (simp add: bx_state_def)
  obtain t where t: "processSlots ex_lib bx_config 0 bx_state 101 = Inr t"
    using bx_slots [OF slot, of ex_lib bx_config 0] by auto
  have "99 < ts_slot bx_state"
    by (simp add: slot)
  note old = processSlots_ends [of ex_lib bx_config 0 99 bx_state, THEN conjunct2, THEN conjunct1, rule_format, OF this]
  note reached = processSlots_ends [of ex_lib bx_config 0 101 bx_state, THEN conjunct2, THEN conjunct2, rule_format, OF t]
  show ?thesis
    by (intro exI [of _ t] conjI t reached [THEN conjunct2] old [unfolded slot])
qed

lemma bx_start: "bx_ready 101 (bx_state\<lparr>ts_slot := 101\<rparr>)"
  by (simp add: bx_ready_def bx_state_def bx_body_def)

text \<open>The root of the block of slot 101 is that of its header, with the root of the state after it.\<close>

definition bx_parent :: root where
  "bx_parent = sl_headerRoot ex_lib ((headerOfBlock ex_lib bx_config (sb_message (bx_block 101 [100, 8, 7])))\<lparr>bh_stateRoot := [101]\<rparr>)"

theorem stateTransition_chain_witness:
  "\<exists>t t'. stateTransition ex_lib bx_config 0 bx_state (bx_block 101 [100, 8, 7]) True False False = Inr t \<and>
    stateTransition ex_lib bx_config 0 t (bx_block 102 bx_parent) True False False = Inr t' \<and>
    bl_parentRoot (sb_message (bx_block 102 bx_parent)) = bx_parent"
proof -
  have zero: "ZERO_HASH \<noteq> [of_nat n]" for n :: nat
    by (auto simp: ZERO_HASH_def dest: arg_cong [of _ _ length])
  have "sealedHeader ex_lib bx_config bx_state = ts_latestBlockHeader bx_state"
    using zero [of 8] by (simp add: sealedHeader_def Let_def bx_state_def)
  then have "[100, 8, 7] = sl_headerRoot ex_lib (sealedHeader ex_lib bx_config bx_state)"
    by (simp add: bx_state_def ex_lib_def)
  from bx_transition [OF _ _ _ this, of 100 0] bx_start obtain t where
    t: "stateTransition ex_lib bx_config 0 bx_state (bx_block 101 [100, 8, 7]) True False False = Inr t"
      "bx_ready 102 (t\<lparr>ts_slot := 102\<rparr>)" "ts_slot t = 101"
    by (auto simp: bx_state_def)
  have "ts_latestBlockHeader t = headerOfBlock ex_lib bx_config (sb_message (bx_block 101 [100, 8, 7]))"
    using stateTransition_result [OF t(1)] by simp
  then have "bx_parent = sl_headerRoot ex_lib (sealedHeader ex_lib bx_config t)"
    using t(3) by (simp add: bx_parent_def sealedHeader_def Let_def headerOfBlock_def ex_lib_def tree_state.defs)
  from bx_transition [OF _ _ _ this, of 101 0] t obtain t' where
    t': "stateTransition ex_lib bx_config 0 t (bx_block 102 bx_parent) True False False = Inr t'"
    by auto
  have "bl_stateRoot (sb_message (bx_block 101 [100, 8, 7])) \<noteq> ZERO_HASH"
    using zero [of 101] by (simp add: bx_block_def)
  from stateTransition_chain [OF t(1) t' this] t(1) t' show ?thesis
    by (auto simp: bx_parent_def bx_block_def)
qed

section \<open>The invariant\<close>

lemma ex_stateOk:
  assumes k: "k \<le> 1000" and same: "ts_validators s = ex_validators" "epochCtx s = ex_ctx" "ts_balances s = ts_balances ex_state"
    "ts_previousEpochParticipation s = [7, 7, 0, 0, 0]" "ts_currentEpochParticipation s = [7, 7, 0, 0, 0]"
    "ts_inactivityScores s = [0, 0, 4, 0, 0]"
  shows "stateOk fork k s"
proof -
  have "list_all2 (\<lambda>v w. v_effectiveBalance v = unat w * EFFECTIVE_BALANCE_INCREMENT \<and> v_effectiveBalance v \<le> MAX_EFFECTIVE_BALANCE)
      ex_validators (ec_effectiveBalanceIncrements ex_ctx)"
    by code_simp
  moreover have "list_all2 (\<lambda>i v. ec_index2pubkey ex_ctx ! i = v_pubkey v \<and> jm_get (ec_pubkey2index ex_ctx) (v_pubkey v) = Some i)
      [0, 1, 2, 3, 4] ex_validators"
    by code_simp
  then have "pubkeysOk ex_ctx ex_validators"
    by (auto simp: pubkeysOk_def ex_validators_def ex_ctx_def list_all2_conv_all_nth nth_Cons split: nat.splits)
  ultimately show ?thesis
    using k ex_queue
    by (auto simp: same stateOk_def balancesOk_def list_all2_conv_all_nth currentEpochOf_def MAX_SAFE_INTEGER_def)
      (simp_all add: ex_ctx_def ex_shuffling_def ex_validators_def)
qed

text \<open>The block of slot 101, on the state of that slot\<close>

theorem processBlock_keeps_witness:
  "\<exists>t. processBlock ex_lib bx_config (bx_state\<lparr>ts_slot := 101\<rparr>) (sb_message (bx_block 101 [100, 8, 7])) False = Inr t \<and>
    stateOk Phase0 0 t"
proof -
  have "[100, 8, 7] = sl_headerRoot ex_lib (ts_latestBlockHeader (bx_state\<lparr>ts_slot := 101\<rparr>))"
    by (simp add: bx_state_def ex_lib_def)
  from bx_processBlock [OF bx_start _ this] obtain t where
    "processBlock ex_lib bx_config (bx_state\<lparr>ts_slot := 101\<rparr>) (sb_message (bx_block 101 [100, 8, 7])) False = Inr t"
    by auto
  moreover have "stateOk Phase0 MAX_DEPOSITS (bx_state\<lparr>ts_slot := 101\<rparr>)"
    by (rule ex_stateOk) (simp_all add: bx_state_def MAX_DEPOSITS_def)
  ultimately show ?thesis
    using processBlock_keeps [of ex_lib bx_config "bx_state\<lparr>ts_slot := 101\<rparr>" "sb_message (bx_block 101 [100, 8, 7])" False]
    by auto
qed

section \<open>Operations\<close>

text \<open>A double vote of validator 2\<close>

definition bx_data :: "root \<Rightarrow> attestation_data" where
  "bx_data r = \<lparr>ad_slot = 106, ad_index = 0, ad_beaconBlockRoot = r, ad_source = ex_checkpoint 2,
     ad_target = \<lparr>rc_epoch = 3, rc_root = [6]\<rparr>\<rparr>"

definition bx_slashing :: attester_slashing where
  "bx_slashing = \<lparr>asl_attestation1 = \<lparr>ix_attestingIndices = [2], ix_data = bx_data [6], ix_signature = []\<rparr>,
     asl_attestation2 = \<lparr>ix_attestingIndices = [2], ix_data = bx_data [7], ix_signature = []\<rparr>\<rparr>"

lemma ex_slashed: "\<exists>t. slashValidatorAllForks ex_lib ex_config Altair 2 None ex_state = Inr t"
proof -
  obtain s1 where s1: "initiateValidatorExit ex_config 2 ex_state = Inr s1"
    by (auto simp: initiateValidatorExit_Inr ex_validators_def)
  then have "length (ts_validators s1) = 5" "length (ts_balances s1) = 5" "getBeaconProposer (epochCtx s1) (ts_slot s1) = Inr 0"
    by (auto simp: initiateValidatorExit_Inr ex_validators_def setValidator_def getBeaconProposer_def ex_ctx_def ex_shuffling_def
        computeEpochAtSlot_def SLOTS_PER_EPOCH_def nth_opt_def nextInQueue_def Let_def split: if_splits)
  with s1 show ?thesis
    by (simp add: slashValidatorAllForks_def Let_def getValidator_def nth_opt_def setValidator_def decreaseBalance_def
        increaseBalance_def applyDelta_def)
qed

theorem attesterSlashing_slashes_witness:
  "\<exists>t. processAttesterSlashing ex_lib ex_config Altair False bx_slashing ex_state = Inr t \<and> v_slashed (ts_validators t ! 2)"
proof -
  have "\<exists>t. processAttesterSlashing ex_lib ex_config Altair False bx_slashing ex_state = Inr t"
    using ex_slashed
    by (auto simp: processAttesterSlashing_def assertValidAttesterSlashing_def Let_def bx_slashing_def bx_data_def ex_checkpoint_def
        isSlashableAttestationData_def validIndexed MAX_VALIDATORS_PER_COMMITTEE_def getAttesterSlashableIndices_def
        slashIfSlashable_def getValidator_def nth_opt_def isSlashableValidator_def ex_validators_def ex_validator_def ex_ctx_def
        ex_shuffling_def)
  then obtain t where t: "processAttesterSlashing ex_lib ex_config Altair False bx_slashing ex_state = Inr t" ..
  have "length (ts_slashings ex_state) = EPOCHS_PER_SLASHINGS_VECTOR"
    by (simp add: ex_state_def)
  from attesterSlashing_slashes [OF t this] obtain A where A: "A = {i \<in> set (ix_attestingIndices (asl_attestation1 bx_slashing)) \<inter>
      set (ix_attestingIndices (asl_attestation2 bx_slashing)). isSlashableValidator (ts_validators ex_state ! i) (currentEpochOf ex_state)}"
    "slashedExactly A ex_state t"
    by (simp only: Let_def)
  then have "2 \<in> A" "2 < length (ts_validators ex_state)"
    by (simp_all add: bx_slashing_def ex_validators_def ex_validator_def isSlashableValidator_def currentEpochOf_def ex_ctx_def
        ex_shuffling_def)
  with A(2) have "v_slashed (ts_validators t ! 2)"
    unfolding slashedExactly_def by metis
  with t show ?thesis by blast
qed

definition bx_exit_config :: state_config where
  "bx_exit_config = ex_config\<lparr>SHARD_COMMITTEE_PERIOD := 2\<rparr>"

definition bx_exit :: signed_voluntary_exit where
  "bx_exit = \<lparr>sv_message = \<lparr>ve_epoch = 3, ve_validatorIndex = 1\<rparr>, sv_signature = []\<rparr>"

theorem voluntaryExit_refines_witness:
  "\<exists>t. processVoluntaryExit ex_lib bx_exit_config False bx_exit ex_state = Inr t \<and>
    ts_validators t = ex_validators[1 := exitedValidator bx_exit_config (specExitEpoch 3 4 ex_validators) (ex_validators ! 1)]"
proof -
  have "exitAllowed bx_exit_config ex_state (sv_message bx_exit)"
    by (simp add: exitAllowed_def bx_exit_def ex_validators_def ex_validator_def isActiveValidator_def currentEpochOf_def ex_ctx_def
        ex_shuffling_def bx_exit_config_def FAR_FUTURE_EPOCH_def)
  moreover have "currentEpochOf ex_state = 3" "ec_churnLimit ex_ctx = 4"
    by (simp_all add: currentEpochOf_def ex_ctx_def ex_shuffling_def)
  ultimately show ?thesis
    using voluntaryExit_refines [OF ex_stateOk [of 0 ex_state Altair], of ex_lib bx_exit_config False bx_exit]
    by (auto simp: Let_def bx_exit_def)
qed

text \<open>A deposit of a new key, with a hash of the Merkle tree that gives the root of the deposits\<close>

definition bx_lib :: st_lib where
  "bx_lib = ex_lib\<lparr>sl_digest64 := (\<lambda>_. [4])\<rparr>"

definition bx_deposit :: deposit where
  "bx_deposit = \<lparr>dp_proof = replicate 33 [], dp_data = \<lparr>dd_pubkey = [9], dd_withdrawalCredentials = [], dd_amount = 32000000000,
     dd_signature = []\<rparr>\<rparr>"

lemma bx_merkle: "i + n \<le> length branch \<Longrightarrow> merkleValue bx_lib branch n i index v = Inr (if n = 0 then v else [4])"
  by (induction n arbitrary: i v) (simp_all add: nth_opt_def fromLibrary_def bx_lib_def)

theorem processDeposit_refines_witness:
  "\<exists>t. processDeposit bx_lib ex_config Altair bx_deposit ex_state = Inr t \<and>
    specDeposit bx_lib ex_config Altair (dp_data bx_deposit) ex_state t"
proof -
  have proof_ok: "verifyMerkleBranch bx_lib (sl_depositDataRoot bx_lib (dp_data bx_deposit)) (dp_proof bx_deposit)
      (DEPOSIT_CONTRACT_TREE_DEPTH + 1) (ts_eth1DepositIndex ex_state) (e1_depositRoot (ts_eth1Data ex_state)) = Inr True"
    by (simp add: verifyMerkleBranch_def bx_merkle bx_deposit_def DEPOSIT_CONTRACT_TREE_DEPTH_def)
  have "stateOk Altair 1 ex_state"
    by (rule ex_stateOk) simp_all
  moreover have "saturating bx_lib"
    by (simp add: saturating_def bx_lib_def ex_lib_def)
  moreover have "jm_get (ec_pubkey2index (epochCtx ex_state)) (dd_pubkey (dp_data bx_deposit)) = None"
    by (simp add: ex_ctx_def bx_deposit_def jm_get_def)
  ultimately show ?thesis
    using processDeposit_refines [OF _ _ _ proof_ok, of Altair 1 ex_config Altair] by simp
qed

text \<open>Half of the period has voted already.\<close>

definition bx_eth1 :: eth1_data where
  "bx_eth1 = \<lparr>e1_depositRoot = [7], e1_depositCount = 6, e1_blockHash = [8]\<rparr>"

theorem processEth1Data_majority_witness:
  "ts_eth1Data (processEth1Data ex_lib (ex_state\<lparr>ts_eth1DataVotes := replicate 1024 bx_eth1\<rparr>) (bx_body\<lparr>bo_eth1Data := bx_eth1\<rparr>)) =
    bx_eth1"
proof -
  have "count_list (replicate n x @ [x]) x = Suc n" for n and x :: eth1_data
    by (induction n) simp_all
  then show ?thesis
    using processEth1Data_majority [of "ex_state\<lparr>ts_eth1DataVotes := replicate 1024 bx_eth1\<rparr>" ex_lib
      "bx_body\<lparr>bo_eth1Data := bx_eth1\<rparr>"]
    by (simp add: Let_def EPOCHS_PER_ETH1_VOTING_PERIOD_def SLOTS_PER_EPOCH_def)
qed

section \<open>The batch of attestations\<close>

definition bx_attestation :: attestation where
  "bx_attestation = \<lparr>at_aggregationBits = [True], at_data = bx_data [6], at_signature = [9]\<rparr>"

lemma bx_committees: "committeesOk ex_state"
proof -
  have small: "\<forall>slot \<in> set (es_committees (ex_shuffling e)). \<forall>c \<in> set slot. distinct c \<and> (\<forall>i \<in> set c. i < 5)" for e
    by (simp add: ex_shuffling_def)
  have "getBeaconCommittee ex_ctx n k = Inr c \<Longrightarrow> distinct c \<and> (\<forall>i \<in> set c. i < 5)" for n k c
    using small by (fastforce simp: getBeaconCommittee_def getShufflingAtSlot_def getShufflingAtEpoch_def ex_ctx_def Let_def
        bind_res_Inr_iff nth_opt_def not_le split: option.splits if_splits intro: nth_mem)
  moreover have "length ex_validators = 5"
    by (simp add: ex_validators_def)
  ultimately show ?thesis
    by (auto simp: committeesOk_def)
qed

lemma bx_valid: "validateAttestation ex_state bx_attestation = Inr ()"
  by (simp add: validateAttestation_def Let_def bx_attestation_def bx_data_def ex_ctx_def getCommitteeCountPerSlot_def
    getShufflingAtEpoch_def ex_shuffling_def computeEpochAtSlot_def SLOTS_PER_EPOCH_def MIN_ATTESTATION_INCLUSION_DELAY_def
    getBeaconCommittee_def getShufflingAtSlot_def nth_opt_def nth_append)

lemma bx_indices:  "getAttestingIndices ex_ctx (at_data bx_attestation) (at_aggregationBits bx_attestation) = Inr [2]"
  by (simp add: getAttestingIndices_def zipIndexesCommitteeBits_def Let_def bx_attestation_def bx_data_def ex_ctx_def getCommitteeCountPerSlot_def
    getShufflingAtEpoch_def ex_shuffling_def computeEpochAtSlot_def SLOTS_PER_EPOCH_def
    getBeaconCommittee_def getShufflingAtSlot_def nth_opt_def nth_append)

lemma bx_flags: "specFlagIndices ex_state (bx_data [6]) 21 = Inr [1]"
proof -
  have "intSqrt 32 = 5" by code_simp
  moreover have "st_getBlockRootAtSlot ex_state 106 = Inr [6]"
    by (simp add: st_getBlockRootAtSlot_def ex_state_def SLOTS_PER_HISTORICAL_ROOT_def)
  ultimately show ?thesis
    by (simp add: specFlagIndices_def Let_def bx_data_def ex_state_roots currentEpochOf_def ex_ctx_def ex_shuffling_def flagList_def
        SLOTS_PER_EPOCH_def MIN_ATTESTATION_INCLUSION_DELAY_def TIMELY_TARGET_FLAG_INDEX_def)
qed

text \<open>A library whose aggregates are verified when there is a key, in any order.\<close>

definition bx_agg_lib :: st_lib where
  "bx_agg_lib = ex_lib\<lparr>sl_verifyAggregate := \<lambda>sig pks m. if None \<in> set pks then None else Some (pks \<noteq> [])\<rparr>"

lemma bx_agg_lawful: "lawfulAggregate bx_agg_lib"
  by (auto simp: lawfulAggregate_def bx_agg_lib_def dest: mset_eq_setD)

lemma bx_turn:
  assumes "cacheOk ex_state (ab_rootCache b)"
  shows "\<exists>b'. attestInBatch bx_agg_lib ex_state True bx_attestation b = Inr b' \<and> cacheOk ex_state (ab_rootCache b') \<and>
    ab_previousEpochStatuses b' = ab_previousEpochStatuses b \<and>
    ab_currentEpochStatuses b' = jm_set 2 (2 OR statusOf (ab_currentEpochStatuses b) [7, 7, 0, 0, 0] 2) (ab_currentEpochStatuses b)"
proof -
  have data: "at_data bx_attestation = bx_data [6]" "127 - ad_slot (bx_data [6]) = 21"
    "rc_epoch (ad_target (bx_data [6])) = currentEpochOf ex_state"
    by (simp_all add: bx_attestation_def bx_data_def currentEpochOf_def ex_ctx_def ex_shuffling_def)
  obtain key where "pubkeyAt ex_state 2 = Some key" "at_signature bx_attestation \<noteq> []"
    by (simp add: pubkeyAt_def ex_state_def ex_ctx_def nth_opt_def bx_attestation_def)
  then have "checkedIndices bx_agg_lib True bx_attestation ex_state = Inr [2]"
    by (simp add: checkedIndices_def bx_valid bx_indices verifySignatureSet_def getAttestationWithIndicesSignatureSet_def
      fromLibrary_def bx_agg_lib_def ex_lib_def Let_def)
  moreover have "flagsOf [1] = 2"
    by code_simp
  then obtain cache' where "getAttestationParticipationStatus ex_state (bx_data [6]) 21 (ab_rootCache b) = Inr (2, cache')"
    "cacheOk ex_state cache'"
    using participationStatus_eq [OF assms, of "bx_data [6]" 21] bx_flags by (metis Inr_inject Inl_Inr_False)
  ultimately show ?thesis
    by (simp add: attestInBatch_eq data attestIndex_def Let_def)
qed

text \<open>Validator 2 gets the flag for the target, and not twice.\<close>

lemma bx_batch: "\<exists>t. processAttestations bx_agg_lib True [bx_attestation, bx_attestation] ex_state = Inr t \<and>
    ts_currentEpochParticipation t = [7, 7, 2, 0, 0]"
proof -
  let ?start = "\<lparr>ab_rootCache = newRootCache ex_state, ab_proposerReward = 0, ab_previousEpochStatuses = [], ab_currentEpochStatuses = []\<rparr>"
  obtain b1 where b1: "attestInBatch bx_agg_lib ex_state True bx_attestation ?start = Inr b1" "cacheOk ex_state (ab_rootCache b1)"
    "ab_previousEpochStatuses b1 = []" "ab_currentEpochStatuses b1 = [(2, 2)]"
    using bx_turn [of ?start] by (auto simp: cacheOk_new statusOf_def jm_set_def)
  obtain b2 where b2: "attestInBatch bx_agg_lib ex_state True bx_attestation b1 = Inr b2"
    "ab_previousEpochStatuses b2 = []" "ab_currentEpochStatuses b2 = [(2, 2)]"
    using bx_turn [OF b1(2)] b1(3,4) by (auto simp: statusOf_def jm_set_def jm_get_def)
  have "getBeaconProposer ex_ctx 127 = Inr 0"
    by (simp add: getBeaconProposer_def ex_ctx_def ex_shuffling_def computeEpochAtSlot_def SLOTS_PER_EPOCH_def nth_opt_def)
  then show ?thesis
    by (simp add: processAttestations_def b1(1) b2 updateEpochParticipants_def setStatus_def increaseBalance_def applyDelta_def)
qed

theorem processAttestations_sequential_witness:
  "\<exists>t. specProcessAttestations bx_agg_lib True [bx_attestation, bx_attestation] ex_state = Some t \<and>
    ts_currentEpochParticipation t = [7, 7, 2, 0, 0]"
proof -
  have "stateOk Altair 0 ex_state"
    by (rule ex_stateOk) simp_all
  moreover have "saturating bx_agg_lib"
    by (simp add: saturating_def bx_agg_lib_def ex_lib_def)
  moreover have "getBeaconProposer (epochCtx ex_state) (ts_slot ex_state) = Inr (int 0)" "0 < length (ts_validators ex_state)"
    by (simp_all add: getBeaconProposer_def ex_ctx_def ex_shuffling_def computeEpochAtSlot_def SLOTS_PER_EPOCH_def nth_opt_def
        ex_validators_def)
  ultimately have "accepted (processAttestations bx_agg_lib True atts ex_state) = specProcessAttestations bx_agg_lib True atts ex_state"
      for atts
    by (rule processAttestations_sequential [OF _ bx_committees]) (simp_all add: bx_agg_lawful)
  then show ?thesis
    using bx_batch by (metis accepted_simps(2))
qed

section \<open>A sync aggregate\<close>

text \<open>Validator 0 has two seats and is the proposer.\<close>

definition bx_sync_state :: cached_state where
  "bx_sync_state = ex_state\<lparr>epochCtx := ex_ctx\<lparr>ec_currentSyncCommitteeIndexed := Some \<lparr>validatorIndices = [0, 1, 0], validatorIndexMap = []\<rparr>,
     ec_syncParticipantReward := 10, ec_syncProposerReward := 3\<rparr>\<rparr>"

definition bx_sync_block :: st_block where
  "bx_sync_block = \<lparr>bl_slot = 127, bl_proposerIndex = 0, bl_parentRoot = [], bl_stateRoot = [],
     bl_body = bx_body\<lparr>bo_syncAggregate := \<lparr>syncCommitteeBits = [True, False, True], syncCommitteeSignature = []\<rparr>\<rparr>\<rparr>"

theorem syncAggregate_balances_witness:
  "\<exists>t. processSyncAggregate ex_lib bx_sync_state bx_sync_block False = Inr t \<and> ts_balances t ! 0 = 31700000026 \<and>
    ts_balances t ! 1 = 32499999990"
proof -
  have info: "getParticipantInfo bx_sync_state (bo_syncAggregate (bl_body bx_sync_block)) = Inr ([0, 0], [1])"
    by (simp add: getParticipantInfo_def currentCommittee_def bx_sync_state_def bx_sync_block_def zipAllIndexesSyncCommitteeBits_def)
  have proposer: "getBeaconProposer (epochCtx bx_sync_state) (ts_slot bx_sync_state) = Inr 0"
    by (simp add: bx_sync_state_def getBeaconProposer_def ex_ctx_def ex_shuffling_def computeEpochAtSlot_def SLOTS_PER_EPOCH_def nth_opt_def)
  have "\<exists>t. processSyncAggregate ex_lib bx_sync_state bx_sync_block False = Inr t"
    by (simp add: processSyncAggregate_def info proposer syncDeltas_def accumulateDelta_def jm_get_def jm_set_def
        applyDeltaInBatch_def applyDelta_def) (simp add: bx_sync_state_def)
  then obtain t where t: "processSyncAggregate ex_lib bx_sync_state bx_sync_block False = Inr t" ..
  have "saturating ex_lib"
    by (simp add: saturating_def ex_lib_def)
  have committee: "currentCommittee bx_sync_state = Inr [0, 1, 0]"
    "syncCommitteeBits (bo_syncAggregate (bl_body bx_sync_block)) = [True, False, True]"
    by (simp_all add: currentCommittee_def bx_sync_state_def bx_sync_block_def)
  have seats: "seats [0, 1, 0] [True, False, True] True = [0, 0]" "seats [0, 1, 0] [True, False, True] False = [1]"
    by code_simp+
  from syncAggregate_balances [OF \<open>saturating ex_lib\<close> t] have
    "\<forall>i < length (ts_balances bx_sync_state). ts_balances t ! i =
      nat (int (ts_balances bx_sync_state ! i) + syncDelta (epochCtx bx_sync_state) [0, 0] [1] 0 i)"
    unfolding proposer committee Let_def by (auto simp only: seats Inr_inject)
  from this [rule_format, of 0] this [rule_format, of 1] have "ts_balances t ! 0 = 31700000026" "ts_balances t ! 1 = 32499999990"
    by (simp_all add: bx_sync_state_def syncDelta_def)
  with t show ?thesis by blast
qed

end
