(* ===== verification/SyncBatch.thy ===== *)
theory SyncBatch
  imports Params JsText
begin

text \<open>
  The batches of the range sync (\<open>packages/lodestar/src/sync/range/batch.ts\<close>, \<open>sync/constants.ts\<close>) and what
  \<open>sync/range/utils\<close> reads of them. A method of a batch may throw after it has changed the batch, so it returns
  its outcome with the batch as it leaves it.
\<close>

section \<open>Constants\<close>

definition PARALLEL_HEAD_CHAINS :: nat where
  "PARALLEL_HEAD_CHAINS = 2"

definition MIN_FINALIZED_CHAIN_VALIDATED_EPOCHS :: nat where
  "MIN_FINALIZED_CHAIN_VALIDATED_EPOCHS = 10"

definition MAX_BATCH_DOWNLOAD_ATTEMPTS :: nat where
  "MAX_BATCH_DOWNLOAD_ATTEMPTS = 5"

definition MAX_BATCH_PROCESSING_ATTEMPTS :: nat where
  "MAX_BATCH_PROCESSING_ATTEMPTS = 3"

definition BATCH_SLOT_OFFSET :: nat where
  "BATCH_SLOT_OFFSET = 1"

definition EPOCHS_PER_BATCH :: nat where
  "EPOCHS_PER_BATCH = 2"

definition BATCH_BUFFER_SIZE :: nat where
  "BATCH_BUFFER_SIZE = 5"

section \<open>A batch\<close>

text \<open>A peer is the text of its id.\<close>

type_synonym peer_id = string

datatype batch_status = AwaitingDownload | Downloading | AwaitingProcessing | Processing | AwaitingValidation

record sync_attempt =
  sa_peer :: peer_id
  sa_hash :: bytes

datatype 'b batch_state =
    InDownloadQueue
  | BeingDownloaded peer_id
  | InProcessingQueue peer_id "'b list"
  | BeingProcessed sync_attempt
  | InValidationQueue sync_attempt

fun statusOfState :: "'b batch_state \<Rightarrow> batch_status" where
  "statusOfState InDownloadQueue = AwaitingDownload"
| "statusOfState (BeingDownloaded p) = Downloading"
| "statusOfState (InProcessingQueue p bs) = AwaitingProcessing"
| "statusOfState (BeingProcessed a) = Processing"
| "statusOfState (InValidationQueue a) = AwaitingValidation"

record range_request =
  rq_startSlot :: slot
  rq_count :: nat
  rq_step :: nat

record 'b sync_batch =
  sb_startEpoch :: epoch
  sb_state :: "'b batch_state"
  sb_request :: range_request
  sb_failedProcessingAttempts :: "sync_attempt list"
  sb_executionErrorAttempts :: "sync_attempt list"
  sb_failedDownloadAttempts :: "peer_id list"

datatype batch_error_code =
    WRONG_STATUS batch_status
  | MAX_DOWNLOAD_ATTEMPTS
  | MAX_PROCESSING_ATTEMPTS
  | MAX_EXECUTION_ENGINE_ERROR_ATTEMPTS

text \<open>The error with its metadata\<close>

record batch_error =
  be_code :: batch_error_code
  be_startEpoch :: epoch
  be_status :: batch_status

definition new_Batch :: "epoch \<Rightarrow> nat \<Rightarrow> 'b sync_batch" where
  "new_Batch startEpoch epochsPerBatch =
     (let startSlot = computeStartSlotAtEpoch startEpoch + BATCH_SLOT_OFFSET;
          endSlot = startSlot + epochsPerBatch * SLOTS_PER_EPOCH
      in \<lparr>sb_startEpoch = startEpoch, sb_state = InDownloadQueue,
          sb_request = \<lparr>rq_startSlot = startSlot, rq_count = endSlot - startSlot, rq_step = 1\<rparr>,
          sb_failedProcessingAttempts = [], sb_executionErrorAttempts = [], sb_failedDownloadAttempts = []\<rparr>)"

definition batchStatus :: "'b sync_batch \<Rightarrow> batch_status" where
  "batchStatus b = statusOfState (sb_state b)"

definition getFailedPeers :: "'b sync_batch \<Rightarrow> peer_id list" where
  "getFailedPeers b = sb_failedDownloadAttempts b @ map sa_peer (sb_failedProcessingAttempts b)"

definition getMetadata :: "'b sync_batch \<Rightarrow> epoch \<times> batch_status" where
  "getMetadata b = (sb_startEpoch b, batchStatus b)"

definition batchErrorType :: "batch_error_code \<Rightarrow> 'b sync_batch \<Rightarrow> batch_error" where
  "batchErrorType code b = \<lparr>be_code = code, be_startEpoch = fst (getMetadata b), be_status = snd (getMetadata b)\<rparr>"

definition wrongStatusErrorType :: "batch_status \<Rightarrow> 'b sync_batch \<Rightarrow> batch_error" where
  "wrongStatusErrorType expectedStatus = batchErrorType (WRONG_STATUS expectedStatus)"

type_synonym ('b, 'a) batch_method = "('b sync_batch, batch_error, 'a) st"

section \<open>Downloads\<close>

definition startDownloading :: "peer_id \<Rightarrow> ('b, unit) batch_method" where
  "startDownloading peer b =
     (if batchStatus b \<noteq> AwaitingDownload then (Inl (wrongStatusErrorType AwaitingDownload b), b)
      else (Inr (), b\<lparr>sb_state := BeingDownloaded peer\<rparr>))"

definition downloadingSuccess :: "'b list \<Rightarrow> ('b, unit) batch_method" where
  "downloadingSuccess blocks b =
     (case sb_state b of
        BeingDownloaded peer \<Rightarrow> (Inr (), b\<lparr>sb_state := InProcessingQueue peer blocks\<rparr>)
      | _ \<Rightarrow> (Inl (wrongStatusErrorType Downloading b), b))"

definition downloadingError :: "('b, unit) batch_method" where
  "downloadingError b =
     (case sb_state b of
        BeingDownloaded peer \<Rightarrow>
          let b1 = b\<lparr>sb_failedDownloadAttempts := sb_failedDownloadAttempts b @ [peer]\<rparr>
          in if length (sb_failedDownloadAttempts b1) > MAX_BATCH_DOWNLOAD_ATTEMPTS
             then (Inl (batchErrorType MAX_DOWNLOAD_ATTEMPTS b1), b1)
             else (Inr (), b1\<lparr>sb_state := InDownloadQueue\<rparr>)
      | _ \<Rightarrow> (Inl (wrongStatusErrorType Downloading b), b))"

section \<open>Processing\<close>

text \<open>\<open>rootOf\<close> is the root of a signed block, by the SSZ library.\<close>

definition byteArrayConcat :: "bytes list \<Rightarrow> bytes" where
  "byteArrayConcat bytesArr = concat bytesArr"

definition hashBlocks :: "('b \<Rightarrow> bytes) \<Rightarrow> 'b list \<Rightarrow> bytes" where
  "hashBlocks rootOf blocks = byteArrayConcat (map rootOf blocks)"

definition startProcessing :: "('b \<Rightarrow> bytes) \<Rightarrow> ('b, 'b list) batch_method" where
  "startProcessing rootOf b =
     (case sb_state b of
        InProcessingQueue peer blocks \<Rightarrow>
          (Inr blocks, b\<lparr>sb_state := BeingProcessed \<lparr>sa_peer = peer, sa_hash = hashBlocks rootOf blocks\<rparr>\<rparr>)
      | _ \<Rightarrow> (Inl (wrongStatusErrorType AwaitingProcessing b), b))"

definition processingSuccess :: "('b, unit) batch_method" where
  "processingSuccess b =
     (case sb_state b of
        BeingProcessed attempt \<Rightarrow> (Inr (), b\<lparr>sb_state := InValidationQueue attempt\<rparr>)
      | _ \<Rightarrow> (Inl (wrongStatusErrorType Processing b), b))"

text \<open>
  An error of the processor of blocks: a \<open>ChainSegmentError\<close>, with its code and the number of blocks that were
  imported before, or any other.
\<close>

datatype block_error_code = EXECUTION_ENGINE_ERROR | OtherBlockError string

datatype segment_error = ChainSegmentError block_error_code nat | OtherSegmentError string

definition isExecutionError :: "segment_error \<Rightarrow> bool" where
  "isExecutionError err = (case err of ChainSegmentError code imported \<Rightarrow> code = EXECUTION_ENGINE_ERROR | _ \<Rightarrow> False)"

definition importedBlocks :: "segment_error \<Rightarrow> nat" where
  "importedBlocks err = (case err of ChainSegmentError code imported \<Rightarrow> imported | _ \<Rightarrow> 0)"

definition onExecutionEngineError :: "sync_attempt \<Rightarrow> ('b, unit) batch_method" where
  "onExecutionEngineError attempt b =
     (let b1 = b\<lparr>sb_executionErrorAttempts := sb_executionErrorAttempts b @ [attempt]\<rparr>
      in if length (sb_executionErrorAttempts b1) > MAX_BATCH_PROCESSING_ATTEMPTS
         then (Inl (batchErrorType MAX_EXECUTION_ENGINE_ERROR_ATTEMPTS b1), b1)
         else (Inr (), b1\<lparr>sb_state := InDownloadQueue\<rparr>))"

definition onProcessingError :: "sync_attempt \<Rightarrow> ('b, unit) batch_method" where
  "onProcessingError attempt b =
     (let b1 = b\<lparr>sb_failedProcessingAttempts := sb_failedProcessingAttempts b @ [attempt]\<rparr>
      in if length (sb_failedProcessingAttempts b1) > MAX_BATCH_PROCESSING_ATTEMPTS
         then (Inl (batchErrorType MAX_PROCESSING_ATTEMPTS b1), b1)
         else (Inr (), b1\<lparr>sb_state := InDownloadQueue\<rparr>))"

definition processingError :: "segment_error \<Rightarrow> ('b, unit) batch_method" where
  "processingError err b =
     (case sb_state b of
        BeingProcessed attempt \<Rightarrow>
          if isExecutionError err then onExecutionEngineError attempt b else onProcessingError attempt b
      | _ \<Rightarrow> (Inl (wrongStatusErrorType Processing b), b))"

definition validationError :: "segment_error \<Rightarrow> ('b, unit) batch_method" where
  "validationError err b =
     (case sb_state b of
        InValidationQueue attempt \<Rightarrow>
          if isExecutionError err then onExecutionEngineError attempt b else onProcessingError attempt b
      | _ \<Rightarrow> (Inl (wrongStatusErrorType AwaitingValidation b), b))"

definition validationSuccess :: "('b, sync_attempt) batch_method" where
  "validationSuccess b =
     (case sb_state b of
        InValidationQueue attempt \<Rightarrow> (Inr attempt, b)
      | _ \<Rightarrow> (Inl (wrongStatusErrorType AwaitingValidation b), b))"

section \<open>Lists of batches\<close>

datatype batches_error =
    ValidationAfterProcessing | ValidationAfterPreProcessing | ProcessingAfterPreProcessing | SecondProcessing

text \<open>The loop of \<open>validateBatchesStatus\<close>, with its two counters\<close>

fun validateFrom :: "nat \<Rightarrow> nat \<Rightarrow> 'b sync_batch list \<Rightarrow> batches_error + unit" where
  "validateFrom processing preProcessing [] = Inr ()"
| "validateFrom processing preProcessing (b # batches) =
     (case batchStatus b of
        AwaitingValidation \<Rightarrow>
          if processing > 0 then Inl ValidationAfterProcessing
          else if preProcessing > 0 then Inl ValidationAfterPreProcessing
          else validateFrom processing preProcessing batches
      | Processing \<Rightarrow>
          if preProcessing > 0 then Inl ProcessingAfterPreProcessing
          else if processing > 0 then Inl SecondProcessing
          else validateFrom (processing + 1) preProcessing batches
      | _ \<Rightarrow> validateFrom processing (preProcessing + 1) batches)"

definition validateBatchesStatus :: "'b sync_batch list \<Rightarrow> batches_error + unit" where
  "validateBatchesStatus batches = validateFrom 0 0 batches"

text \<open>A batch that is returned as an object is given by its address.\<close>

fun getNextBatchToProcess :: "(nat \<times> 'b sync_batch) list \<Rightarrow> nat option" where
  "getNextBatchToProcess [] = None"
| "getNextBatchToProcess ((a, b) # batches) =
     (case batchStatus b of
        AwaitingValidation \<Rightarrow> getNextBatchToProcess batches
      | AwaitingProcessing \<Rightarrow> Some a
      | _ \<Rightarrow> None)"

definition toBeProcessedStartEpoch :: "'b sync_batch list \<Rightarrow> epoch \<Rightarrow> nat \<Rightarrow> epoch" where
  "toBeProcessedStartEpoch batches startEpoch epochsPerBatch =
     (let lastAwaitingValidation = find (\<lambda>b. batchStatus b = AwaitingValidation) (rev batches)
      in case lastAwaitingValidation of Some b \<Rightarrow> sb_startEpoch b + epochsPerBatch | None \<Rightarrow> startEpoch)"

definition toBeDownloadedStartEpoch :: "'b sync_batch list \<Rightarrow> epoch \<Rightarrow> nat \<Rightarrow> epoch" where
  "toBeDownloadedStartEpoch batches startEpoch epochsPerBatch =
     (if batches = [] then startEpoch else sb_startEpoch (last batches) + epochsPerBatch)"

section \<open>Targets\<close>

record chain_target =
  ct_slot :: slot
  ct_root :: root

text \<open>\<open>toHex\<close> is \<open>toHexString\<close> of the SSZ library.\<close>

definition targetId :: "(root \<Rightarrow> string) \<Rightarrow> chain_target \<Rightarrow> string" where
  "targetId toHex target = decimal (ct_slot target) @ ''-'' @ toHex (ct_root target)"

definition countTarget :: "(root \<Rightarrow> string) \<Rightarrow> chain_target \<Rightarrow> (string, nat) jsmap \<times> chain_target \<times> nat \<Rightarrow>
    (string, nat) jsmap \<times> chain_target \<times> nat" where
  "countTarget toHex target acc =
     (let (countById, mostCommonTarget, mostCommonCount) = acc;
          targetId = targetId toHex target;
          count = 1 + (case jm_get countById targetId of None \<Rightarrow> 0 | Some n \<Rightarrow> n);
          countById1 = jm_set targetId count countById
      in if count > mostCommonCount then (countById1, target, count) else (countById1, mostCommonTarget, mostCommonCount))"

text \<open>Without targets it throws.\<close>

definition computeMostCommonTarget :: "(root \<Rightarrow> string) \<Rightarrow> chain_target list \<Rightarrow> chain_target option" where
  "computeMostCommonTarget toHex targets =
     (case targets of
        [] \<Rightarrow> None
      | first # _ \<Rightarrow> Some (fst (snd (fold (countTarget toHex) targets ([], first, 0)))))"

section \<open>Choosing peers\<close>

text \<open>Stable sorting by several numbers, the first one first\<close>

definition sortBy :: "('a \<Rightarrow> int) list \<Rightarrow> 'a list \<Rightarrow> 'a list" where
  "sortBy conditions arr = sort_key (\<lambda>x. map (\<lambda>condition. condition x) conditions) arr"

text \<open>
  The shuffle of \<open>util/shuffle.ts\<close>: \<open>draw i\<close> is the number below \<open>i + 1\<close> that is drawn for position \<open>i\<close>.
\<close>

definition swapAt :: "nat \<Rightarrow> nat \<Rightarrow> 'a list \<Rightarrow> 'a list" where
  "swapAt i j xs = xs[i := xs ! j, j := xs ! i]"

definition shufflePeers :: "(nat \<Rightarrow> nat) \<Rightarrow> 'a list \<Rightarrow> 'a list" where
  "shufflePeers draw arr = fold (\<lambda>i xs. swapAt i (draw i) xs) (rev [1..<length arr]) arr"

record peers_balancer =
  bal_peers :: "peer_id list"
  bal_activeRequestsByPeer :: "(peer_id, nat) jsmap"

definition activeRequests :: "(peer_id, nat) jsmap \<Rightarrow> peer_id \<Rightarrow> nat" where
  "activeRequests m peer = (case jm_get m peer of None \<Rightarrow> 0 | Some n \<Rightarrow> n)"

definition countActive :: "'b sync_batch \<Rightarrow> (peer_id, nat) jsmap \<Rightarrow> (peer_id, nat) jsmap" where
  "countActive b m =
     (case sb_state b of BeingDownloaded peer \<Rightarrow> jm_set peer (activeRequests m peer + 1) m | _ \<Rightarrow> m)"

definition new_ChainPeersBalancer :: "(nat \<Rightarrow> nat) \<Rightarrow> peer_id list \<Rightarrow> 'b sync_batch list \<Rightarrow> peers_balancer" where
  "new_ChainPeersBalancer draw peers batches =
     \<lparr>bal_peers = shufflePeers draw peers, bal_activeRequestsByPeer = fold countActive batches []\<rparr>"

definition bestPeerToRetryBatch :: "'b sync_batch \<Rightarrow> peers_balancer \<Rightarrow> peer_id option" where
  "bestPeerToRetryBatch b balancer =
     nth_opt (sortBy [\<lambda>peer. if peer \<in> set (getFailedPeers b) then 1 else 0,
         \<lambda>peer. int (activeRequests (bal_activeRequestsByPeer balancer) peer)] (bal_peers balancer)) 0"

definition idlePeers :: "peers_balancer \<Rightarrow> peer_id list" where
  "idlePeers balancer = filter (\<lambda>peer. activeRequests (bal_activeRequestsByPeer balancer) peer = 0) (bal_peers balancer)"

end
