(* ===== verification/SyncChain.thy ===== *)
theory SyncChain
  imports SyncBatch
begin

text \<open>
  A chain of the range sync (\<open>packages/lodestar/src/sync/range/chain.ts\<close>, \<open>util/itTrigger.ts\<close>): batches of blocks are
  requested from many peers at once and processed one after the other. Batches are objects that the map of the
  chain and the requests under way share, so they live in a store and are known by their addresses.

  The methods run between two events of the event loop without interruption: a call from outside, the answer of a
  peer, the end of the processing of a segment, and the continuation of the loop of \<open>sync()\<close>. \<open>chainStep\<close> is what
  happens at each of them.
\<close>

section \<open>The trigger of the loop\<close>

datatype sync_chain_status = ChainStopped | ChainSyncing | ChainSynced | ChainError

datatype sync_error =
    BatchErr batch_error
  | BatchesErr batches_error
  | ErrorAborted
  | SyncChainStartError sync_chain_status

record it_trigger =
  it_triggered :: bool
  it_ended :: bool
  it_error :: "sync_error option"

text \<open>
  Where the loop of \<open>sync()\<close> stands: \<open>next()\<close> of the trigger waits for \<open>onNext\<close>, it has resolved or thrown or is done
  and the loop has not been continued yet, the body waits for a segment of blocks, or has got its outcome, or
  the method has ended, with the error that it throws.
\<close>

datatype 'b loop_state =
    WaitingForNext
  | NextResolved
  | NextThrown sync_error
  | NextDone
  | AwaitingSegment nat "'b list"
  | SegmentDone "sync_error + unit"
  | LoopEnded "sync_error option"

text \<open>\<open>next()\<close>\<close>

fun triggerNext :: "it_trigger \<Rightarrow> 'b loop_state \<times> it_trigger" where
  "triggerNext t =
     (case it_error t of
        Some e \<Rightarrow> (NextThrown e, t)
      | None \<Rightarrow>
          if it_ended t then (NextDone, t)
          else if it_triggered t then (NextResolved, t\<lparr>it_triggered := False\<rparr>)
          else (WaitingForNext, t))"

section \<open>The chain\<close>

datatype range_sync_type = FinalizedSync | HeadSync

datatype peer_action = Fatal | LowToleranceError | MidToleranceError | HighToleranceError

text \<open>
  \<open>sc_inFlight\<close> are the batches whose \<open>sendBatch\<close> waits for the peer. The last three fields record what the chain has asked of its
  environment: the requests sent, the segments that the block processor has accepted, the peers reported.
\<close>

record 'b sync_chain =
  sc_syncType :: range_sync_type
  sc_target :: chain_target
  sc_validatedEpochs :: nat
  sc_startEpoch :: epoch
  sc_status :: sync_chain_status
  sc_batchProcessor :: it_trigger
  sc_loop :: "'b loop_state"
  sc_store :: "'b sync_batch list"
  sc_batches :: "(epoch, nat) jsmap"
  sc_peerset :: "(peer_id, chain_target) jsmap"
  sc_epochsPerBatch :: nat
  sc_shuffles :: nat
  sc_inFlight :: "nat list"
  sc_sent :: "(nat \<times> peer_id) list"
  sc_accepted :: "(epoch \<times> 'b list) list"
  sc_reports :: "(peer_id \<times> peer_action \<times> string) list"

text \<open>The libraries, and the random draws of each shuffle of the peers\<close>

record 'b sync_env =
  se_rootOf :: "'b \<Rightarrow> bytes"
  se_toHex :: "root \<Rightarrow> string"
  se_draw :: "nat \<Rightarrow> nat \<Rightarrow> nat"

text \<open>The constructor, which starts \<open>sync()\<close>: its loop waits at once.\<close>

definition new_SyncChain :: "epoch \<Rightarrow> chain_target \<Rightarrow> range_sync_type \<Rightarrow> nat option \<Rightarrow> 'b sync_chain" where
  "new_SyncChain startEpoch initialTarget syncType epochsPerBatch =
     \<lparr>sc_syncType = syncType, sc_target = initialTarget, sc_validatedEpochs = 0, sc_startEpoch = startEpoch,
      sc_status = ChainStopped, sc_batchProcessor = \<lparr>it_triggered = False, it_ended = False, it_error = None\<rparr>,
      sc_loop = WaitingForNext, sc_store = [], sc_batches = [], sc_peerset = [],
      sc_epochsPerBatch = (case epochsPerBatch of None \<Rightarrow> EPOCHS_PER_BATCH | Some n \<Rightarrow> n),
      sc_shuffles = 0, sc_inFlight = [], sc_sent = [], sc_accepted = [], sc_reports = []\<rparr>"

type_synonym 'b chain_method = "('b sync_chain, sync_error, unit) st"

definition callNext :: "'b sync_chain \<Rightarrow> 'b sync_chain" where
  "callNext c = (let (next_state, t) = triggerNext (sc_batchProcessor c)
     in c\<lparr>sc_loop := next_state, sc_batchProcessor := t\<rparr>)"

text \<open>\<open>onNext\<close> is set while the loop waits.\<close>

definition wakeLoop :: "'b sync_chain \<Rightarrow> 'b sync_chain" where
  "wakeLoop c = (case sc_loop c of WaitingForNext \<Rightarrow> callNext c | _ \<Rightarrow> c)"

definition triggerBatchProcessor :: "'b sync_chain \<Rightarrow> 'b sync_chain" where
  "triggerBatchProcessor c = wakeLoop (c\<lparr>sc_batchProcessor := (sc_batchProcessor c)\<lparr>it_triggered := True\<rparr>\<rparr>)"

definition endBatchProcessor :: "sync_error option \<Rightarrow> 'b sync_chain \<Rightarrow> 'b sync_chain" where
  "endBatchProcessor err c = wakeLoop (c\<lparr>sc_batchProcessor := (case err of
     Some e \<Rightarrow> (sc_batchProcessor c)\<lparr>it_error := Some e\<rparr> | None \<Rightarrow> (sc_batchProcessor c)\<lparr>it_ended := True\<rparr>)\<rparr>)"

text \<open>A method of the batch at an address\<close>

definition onBatch :: "nat \<Rightarrow> ('b, 'a) batch_method \<Rightarrow> ('b sync_chain, sync_error, 'a) st" where
  "onBatch a m c =
     (case m (sc_store c ! a) of
        (Inl e, b) \<Rightarrow> (Inl (BatchErr e), c\<lparr>sc_store := (sc_store c)[a := b]\<rparr>)
      | (Inr x, b) \<Rightarrow> (Inr x, c\<lparr>sc_store := (sc_store c)[a := b]\<rparr>))"

definition addressedBatches :: "'b sync_chain \<Rightarrow> (nat \<times> 'b sync_batch) list" where
  "addressedBatches c = map (\<lambda>(e, a). (a, sc_store c ! a)) (sc_batches c)"

definition chainBatches :: "'b sync_chain \<Rightarrow> 'b sync_batch list" where
  "chainBatches c = map snd (addressedBatches c)"

section \<open>Requests\<close>

text \<open>
  \<open>sendBatch\<close> up to its request. Only batches that await a download are sent, so \<open>startDownloading\<close> does not throw
  (\<open>sendBatch_sends\<close>).
\<close>

definition sendBatch :: "nat \<Rightarrow> peer_id \<Rightarrow> 'b sync_chain \<Rightarrow> 'b sync_chain" where
  "sendBatch a peer c =
     (case onBatch a (startDownloading peer) c of
        (Inl e, c1) \<Rightarrow> endBatchProcessor (Some e) c1
      | (Inr _, c1) \<Rightarrow> c1\<lparr>sc_inFlight := sc_inFlight c1 @ [a], sc_sent := sc_sent c1 @ [(a, peer)]\<rparr>)"

definition includeNextBatch :: "'b sync_chain \<Rightarrow> nat option \<times> 'b sync_chain" where
  "includeNextBatch c =
     (let batches = chainBatches c;
          batchesInBuffer = filter (\<lambda>b. batchStatus b = Downloading \<or> batchStatus b = AwaitingProcessing) batches
      in if length batchesInBuffer > BATCH_BUFFER_SIZE then (None, c)
         else
           let startEpoch = toBeDownloadedStartEpoch batches (sc_startEpoch c) (sc_epochsPerBatch c);
               toBeDownloadedSlot = computeStartSlotAtEpoch startEpoch + BATCH_SLOT_OFFSET
           in if toBeDownloadedSlot > ct_slot (sc_target c) then (None, c)
              else if jm_has (sc_batches c) startEpoch then (None, c)
              else
                let a = length (sc_store c)
                in (Some a, c\<lparr>sc_store := sc_store c @ [new_Batch startEpoch (sc_epochsPerBatch c)],
                  sc_batches := jm_set startEpoch a (sc_batches c)\<rparr>))"

definition retryBatch :: "peers_balancer \<Rightarrow> nat \<Rightarrow> 'b sync_chain \<Rightarrow> 'b sync_chain" where
  "retryBatch balancer a c =
     (if batchStatus (sc_store c ! a) \<noteq> AwaitingDownload then c
      else case bestPeerToRetryBatch (sc_store c ! a) balancer of
             None \<Rightarrow> c
           | Some peer \<Rightarrow> sendBatch a peer c)"

fun requestNextBatches :: "peer_id list \<Rightarrow> 'b sync_chain \<Rightarrow> 'b sync_chain" where
  "requestNextBatches [] c = c"
| "requestNextBatches (peer # peers) c =
     (case includeNextBatch c of
        (None, c1) \<Rightarrow> c1
      | (Some a, c1) \<Rightarrow> requestNextBatches peers (sendBatch a peer c1))"

definition requestBatches :: "'b sync_env \<Rightarrow> peer_id list \<Rightarrow> 'b sync_chain \<Rightarrow> 'b sync_chain" where
  "requestBatches env peers c =
     (if sc_status c \<noteq> ChainSyncing then c
      else
        let peerBalancer = new_ChainPeersBalancer (se_draw env (sc_shuffles c)) peers (chainBatches c);
            c1 = c\<lparr>sc_shuffles := sc_shuffles c + 1\<rparr>;
            c2 = fold (retryBatch peerBalancer) (map snd (sc_batches c1)) c1
        in requestNextBatches (idlePeers peerBalancer) c2)"

definition triggerBatchDownloader :: "'b sync_env \<Rightarrow> 'b sync_chain \<Rightarrow> 'b sync_chain" where
  "triggerBatchDownloader env c = requestBatches env (jm_keys (sc_peerset c)) c"

section \<open>Progress\<close>

definition attemptReports :: "sync_attempt \<Rightarrow> sync_attempt list \<Rightarrow> (peer_id \<times> peer_action \<times> string) list" where
  "attemptReports attemptOk attempts =
     map (\<lambda>attempt. if sa_peer attemptOk = sa_peer attempt then (sa_peer attempt, MidToleranceError, ''SyncChainInvalidBatchSelf'')
         else (sa_peer attempt, LowToleranceError, ''SyncChainInvalidBatchOther''))
       (filter (\<lambda>attempt. sa_hash attempt \<noteq> sa_hash attemptOk) attempts)"

fun dropBatches :: "epoch \<Rightarrow> (epoch \<times> nat) list \<Rightarrow> 'b chain_method" where
  "dropBatches newStartEpoch [] c = (Inr (), c)"
| "dropBatches newStartEpoch ((batchKey, a) # entries) c =
     (if sb_startEpoch (sc_store c ! a) < newStartEpoch
      then
        let c1 = c\<lparr>sc_batches := jm_delete batchKey (sc_batches c), sc_validatedEpochs := sc_validatedEpochs c + EPOCHS_PER_BATCH\<rparr>
        in bind_st (onBatch a validationSuccess) (\<lambda>attemptOk.
             bind_st (modify_st (\<lambda>c. c\<lparr>sc_reports := sc_reports c @
                 attemptReports attemptOk (sb_failedProcessingAttempts (sc_store c ! a))\<rparr>)) (\<lambda>_.
               dropBatches newStartEpoch entries)) c1
      else dropBatches newStartEpoch entries c)"

definition advanceChain :: "epoch \<Rightarrow> 'b chain_method" where
  "advanceChain newStartEpoch c =
     (if newStartEpoch \<le> sc_startEpoch c then (Inr (), c)
      else bind_st (dropBatches newStartEpoch (sc_batches c))
        (\<lambda>_. modify_st (\<lambda>c. c\<lparr>sc_startEpoch := newStartEpoch\<rparr>)) c)"

text \<open>All batches before the one that failed are downloaded again.\<close>

fun invalidateBefore :: "segment_error \<Rightarrow> epoch \<Rightarrow> nat list \<Rightarrow> 'b chain_method" where
  "invalidateBefore err startEpoch [] c = (Inr (), c)"
| "invalidateBefore err startEpoch (a # as) c =
     (if sb_startEpoch (sc_store c ! a) < startEpoch
      then bind_st (onBatch a (validationError err)) (\<lambda>_. invalidateBefore err startEpoch as) c
      else invalidateBefore err startEpoch as c)"

text \<open>\<open>processBatch\<close> after the outcome of the segment\<close>

definition segmentProcessed :: "'b sync_env \<Rightarrow> nat \<Rightarrow> 'b list \<Rightarrow> segment_error option \<Rightarrow> 'b chain_method" where
  "segmentProcessed env a blocks err c =
     (let startEpoch = sb_startEpoch (sc_store c ! a)
      in case err of
           None \<Rightarrow>
             bind_st (onBatch a processingSuccess) (\<lambda>_.
             bind_st (if blocks \<noteq> [] then advanceChain startEpoch else ret_st ()) (\<lambda>_.
               modify_st (\<lambda>c. triggerBatchDownloader env (triggerBatchProcessor c))))
             (c\<lparr>sc_accepted := sc_accepted c @ [(startEpoch, blocks)]\<rparr>)
         | Some e \<Rightarrow>
             bind_st (onBatch a (processingError e)) (\<lambda>_.
             bind_st (if importedBlocks e > 0 then advanceChain startEpoch else ret_st ()) (\<lambda>_.
             bind_st (\<lambda>c. invalidateBefore e startEpoch (map snd (sc_batches c)) c) (\<lambda>_.
               modify_st (triggerBatchDownloader env)))) c)"

section \<open>The loop\<close>

definition shouldReportPeerOnBatchError :: "batch_error_code \<Rightarrow> (peer_action \<times> string) option" where
  "shouldReportPeerOnBatchError code =
     (case code of
        MAX_PROCESSING_ATTEMPTS \<Rightarrow> Some (LowToleranceError, ''SyncChainMaxProcessingAttempts'')
      | _ \<Rightarrow> None)"

text \<open>The \<open>catch\<close> block of \<open>sync()\<close>\<close>

definition syncFailed :: "sync_error \<Rightarrow> 'b sync_chain \<Rightarrow> 'b sync_chain" where
  "syncFailed e c =
     (if e = ErrorAborted then c\<lparr>sc_loop := LoopEnded None\<rparr>
      else
        let reports = (case e of
              BatchErr be \<Rightarrow> (case shouldReportPeerOnBatchError (be_code be) of
                  Some (action, reason) \<Rightarrow> map (\<lambda>peer. (peer, action, reason)) (jm_keys (sc_peerset c))
                | None \<Rightarrow> [])
            | _ \<Rightarrow> [])
        in c\<lparr>sc_status := ChainError, sc_reports := sc_reports c @ reports, sc_loop := LoopEnded (Some e)\<rparr>)"

text \<open>An error in the body, or a \<open>break\<close>, also returns from the trigger.\<close>

definition returnTrigger :: "'b sync_chain \<Rightarrow> 'b sync_chain" where
  "returnTrigger c = c\<lparr>sc_batchProcessor := (sc_batchProcessor c)\<lparr>it_ended := True\<rparr>\<rparr>"

definition syncEnded :: "'b sync_chain \<Rightarrow> 'b sync_chain" where
  "syncEnded c = c\<lparr>sc_status := ChainSynced, sc_loop := LoopEnded None\<rparr>"

definition loopBody :: "'b sync_env \<Rightarrow> 'b sync_chain \<Rightarrow> 'b sync_chain" where
  "loopBody env c =
     (if sc_status c \<noteq> ChainSyncing then callNext c
      else case validateBatchesStatus (chainBatches c) of
        Inl e \<Rightarrow> syncFailed (BatchesErr e) (returnTrigger c)
      | Inr _ \<Rightarrow>
          let toBeProcessedEpoch = toBeProcessedStartEpoch (chainBatches c) (sc_startEpoch c) (sc_epochsPerBatch c)
          in if computeStartSlotAtEpoch toBeProcessedEpoch \<ge> ct_slot (sc_target c) then syncEnded (returnTrigger c)
             else case getNextBatchToProcess (addressedBatches c) of
                    None \<Rightarrow> callNext c
                  | Some a \<Rightarrow>
                      (case onBatch a (startProcessing (se_rootOf env)) c of
                         (Inl e, c1) \<Rightarrow> c1\<lparr>sc_loop := SegmentDone (Inl e)\<rparr>
                       | (Inr blocks, c1) \<Rightarrow> c1\<lparr>sc_loop := AwaitingSegment a blocks\<rparr>))"

definition continueLoop :: "'b sync_env \<Rightarrow> 'b sync_chain \<Rightarrow> 'b sync_chain" where
  "continueLoop env c =
     (case sc_loop c of
        NextResolved \<Rightarrow> loopBody env c
      | NextThrown e \<Rightarrow> syncFailed e c
      | NextDone \<Rightarrow> syncEnded c
      | SegmentDone (Inr _) \<Rightarrow> callNext c
      | SegmentDone (Inl e) \<Rightarrow> syncFailed e (returnTrigger c)
      | _ \<Rightarrow> c)"

section \<open>Calls from outside\<close>

definition startSyncing :: "'b sync_env \<Rightarrow> epoch \<Rightarrow> 'b chain_method" where
  "startSyncing env localFinalizedEpoch c =
     (case sc_status c of
        ChainSyncing \<Rightarrow> (Inr (), c)
      | ChainStopped \<Rightarrow>
          let localFinalizedEpochAligned = int (sc_startEpoch c) +
                (int localFinalizedEpoch - int (sc_startEpoch c)) div int EPOCHS_PER_BATCH * int EPOCHS_PER_BATCH
          in bind_st (advanceChain (nat localFinalizedEpochAligned))
               (\<lambda>_. modify_st (\<lambda>c. triggerBatchProcessor (triggerBatchDownloader env c)))
               (c\<lparr>sc_status := ChainSyncing\<rparr>)
      | _ \<Rightarrow> (Inl (SyncChainStartError (sc_status c)), c))"

definition stopSyncing :: "'b sync_chain \<Rightarrow> 'b sync_chain" where
  "stopSyncing c = c\<lparr>sc_status := ChainStopped\<rparr>"

definition removeChain :: "'b sync_chain \<Rightarrow> 'b sync_chain" where
  "removeChain c = endBatchProcessor (Some ErrorAborted) c"

definition computeTarget :: "'b sync_env \<Rightarrow> 'b sync_chain \<Rightarrow> 'b sync_chain" where
  "computeTarget env c =
     (case computeMostCommonTarget (se_toHex env) (map snd (sc_peerset c)) of
        None \<Rightarrow> c
      | Some target \<Rightarrow> c\<lparr>sc_target := target\<rparr>)"

definition sc_addPeer :: "'b sync_env \<Rightarrow> peer_id \<Rightarrow> chain_target \<Rightarrow> 'b sync_chain \<Rightarrow> 'b sync_chain" where
  "sc_addPeer env peer target c =
     triggerBatchDownloader env (computeTarget env (c\<lparr>sc_peerset := jm_set peer target (sc_peerset c)\<rparr>))"

definition sc_removePeer :: "'b sync_env \<Rightarrow> peer_id \<Rightarrow> 'b sync_chain \<Rightarrow> bool \<times> 'b sync_chain" where
  "sc_removePeer env peer c =
     (jm_has (sc_peerset c) peer, computeTarget env (c\<lparr>sc_peerset := jm_delete peer (sc_peerset c)\<rparr>))"

definition getBatchesState :: "'b sync_chain \<Rightarrow> (epoch \<times> batch_status) list" where
  "getBatchesState c = map getMetadata (chainBatches c)"

definition isSyncing :: "'b sync_chain \<Rightarrow> bool" where
  "isSyncing c \<longleftrightarrow> sc_status c = ChainSyncing"

definition isRemovable :: "'b sync_chain \<Rightarrow> bool" where
  "isRemovable c \<longleftrightarrow> sc_status c = ChainError \<or> sc_status c = ChainSynced"

text \<open>\<open>sendBatch\<close> after the answer of the peer: blocks, or an error\<close>

definition batchDownloaded :: "'b sync_env \<Rightarrow> nat \<Rightarrow> 'b list option \<Rightarrow> 'b sync_chain \<Rightarrow> 'b sync_chain" where
  "batchDownloaded env a answer c =
     (let c0 = c\<lparr>sc_inFlight := remove1 a (sc_inFlight c)\<rparr>;
          (outcome, c1) = (case answer of
            Some blocks \<Rightarrow> bind_st (onBatch a (downloadingSuccess blocks)) (\<lambda>_. modify_st triggerBatchProcessor) c0
          | None \<Rightarrow> onBatch a downloadingError c0);
          c2 = (case outcome of
            Inr _ \<Rightarrow> triggerBatchDownloader env c1
          | Inl e \<Rightarrow> endBatchProcessor (Some e) c1)
      in triggerBatchDownloader env c2)"

section \<open>Runs\<close>

datatype 'b chain_event =
    StartSyncing epoch
  | StopSyncing
  | RemoveChain
  | AddPeer peer_id chain_target
  | RemovePeer peer_id
  | Downloaded nat "'b list option"
  | SegmentProcessed "segment_error option"
  | ContinueLoop

fun chainStep :: "'b sync_env \<Rightarrow> 'b chain_event \<Rightarrow> 'b chain_method" where
  "chainStep env (StartSyncing e) c = startSyncing env e c"
| "chainStep env StopSyncing c = (Inr (), stopSyncing c)"
| "chainStep env RemoveChain c = (Inr (), removeChain c)"
| "chainStep env (AddPeer p t) c = (Inr (), sc_addPeer env p t c)"
| "chainStep env (RemovePeer p) c = (Inr (), snd (sc_removePeer env p c))"
| "chainStep env (Downloaded a answer) c = (Inr (), batchDownloaded env a answer c)"
| "chainStep env (SegmentProcessed err) c =
     (case sc_loop c of
        AwaitingSegment a blocks \<Rightarrow>
          let (outcome, c1) = segmentProcessed env a blocks err c
          in (Inr (), c1\<lparr>sc_loop := SegmentDone outcome\<rparr>)
      | _ \<Rightarrow> (Inr (), c))"
| "chainStep env ContinueLoop c = (Inr (), continueLoop env c)"

text \<open>Answers come for requests under way.\<close>

definition chainEnabled :: "'b chain_event \<Rightarrow> 'b sync_chain \<Rightarrow> bool" where
  "chainEnabled ev c =
     (case ev of
        Downloaded a answer \<Rightarrow> a \<in> set (sc_inFlight c)
      | SegmentProcessed err \<Rightarrow> (case sc_loop c of AwaitingSegment a blocks \<Rightarrow> True | _ \<Rightarrow> False)
      | _ \<Rightarrow> True)"

text \<open>
  A run from \<open>c0\<close>, the draws may be others at each step. A call from outside may throw, after it has changed the
  chain, and the loop then goes on: \<open>any_run\<close> has these steps too. In a \<open>chain_run\<close> no call has thrown; the chains of
  \<open>RangeSync\<close> only have such runs, which is shown in \<open>SyncRangeSpec\<close>.
\<close>

inductive any_run :: "'b sync_chain \<Rightarrow> 'b chain_event list \<Rightarrow> 'b sync_chain \<Rightarrow> bool" for c0 where
  start: "any_run c0 [] c0"
| step: "any_run c0 evs c \<Longrightarrow> chainEnabled ev c \<Longrightarrow> snd (chainStep env ev c) = c' \<Longrightarrow> any_run c0 (evs @ [ev]) c'"

inductive chain_run :: "'b sync_chain \<Rightarrow> 'b chain_event list \<Rightarrow> 'b sync_chain \<Rightarrow> bool" for c0 where
  start: "chain_run c0 [] c0"
| step: "chain_run c0 evs c \<Longrightarrow> chainEnabled ev c \<Longrightarrow> chainStep env ev c = (Inr (), c') \<Longrightarrow> chain_run c0 (evs @ [ev]) c'"

lemma chain_run_any: "chain_run c0 evs c \<Longrightarrow> any_run c0 evs c"
proof (induction rule: chain_run.induct)
  case (step evs c ev env c')
  then show ?case
    using any_run.step [of c0 evs c ev env c'] by simp
qed (rule any_run.start)

end
