(* ===== verification/SyncChainSpec.thy ===== *)
theory SyncChainSpec
  imports SyncChain
begin

text \<open>
  What holds of a chain of the range sync whatever the peers answer and in whatever order: the batches stay in order, and the
  only errors that end a chain are the limits of retries.
\<close>

section \<open>Batches in the store\<close>

definition statusAt :: "'b sync_chain \<Rightarrow> nat \<Rightarrow> batch_status" where
  "statusAt c a = batchStatus (sc_store c ! a)"

definition addresses :: "'b sync_chain \<Rightarrow> nat list" where
  "addresses c = map snd (sc_batches c)"

text \<open>The map has distinct keys and batches, each below its start epoch; a batch under way is being downloaded.\<close>

definition chainWf :: "'b sync_chain \<Rightarrow> bool" where
  "chainWf c \<longleftrightarrow> distinct (map fst (sc_batches c)) \<and> distinct (addresses c) \<and>
     (\<forall>(k, a) \<in> set (sc_batches c). a < length (sc_store c) \<and> sb_startEpoch (sc_store c ! a) = k) \<and>
     distinct (sc_inFlight c) \<and> (\<forall>a \<in> set (sc_inFlight c). a < length (sc_store c) \<and> statusAt c a = Downloading)"

definition putBatch :: "nat \<Rightarrow> 'b sync_batch \<Rightarrow> 'b sync_chain \<Rightarrow> 'b sync_chain" where
  "putBatch a b c = c\<lparr>sc_store := (sc_store c)[a := b]\<rparr>"

lemma putBatch_fields [simp]:
  "sc_batches (putBatch a b c) = sc_batches c" "sc_inFlight (putBatch a b c) = sc_inFlight c"
  "sc_loop (putBatch a b c) = sc_loop c" "sc_batchProcessor (putBatch a b c) = sc_batchProcessor c"
  "sc_startEpoch (putBatch a b c) = sc_startEpoch c" "sc_status (putBatch a b c) = sc_status c"
  "sc_epochsPerBatch (putBatch a b c) = sc_epochsPerBatch c" "sc_accepted (putBatch a b c) = sc_accepted c"
  "sc_sent (putBatch a b c) = sc_sent c" "sc_target (putBatch a b c) = sc_target c"
  "sc_store (putBatch a b c) = (sc_store c)[a := b]" "addresses (putBatch a b c) = addresses c"
  by (simp_all add: putBatch_def addresses_def)

lemma putBatch_status: "a < length (sc_store c) \<Longrightarrow> statusAt (putBatch a b c) a' = (if a' = a then batchStatus b else statusAt c a')"
  by (simp add: statusAt_def)

lemma putBatch_wf:
  assumes "chainWf c" "sb_startEpoch b = sb_startEpoch (sc_store c ! a)" "a \<notin> set (sc_inFlight c)" "a < length (sc_store c)"
  shows "chainWf (putBatch a b c)"
  using assms by (auto simp: chainWf_def putBatch_status nth_list_update split: prod.splits if_splits)

lemma onBatch_eq: "onBatch a m c = (case m (sc_store c ! a) of
    (Inl e, b) \<Rightarrow> (Inl (BatchErr e), putBatch a b c) | (Inr x, b) \<Rightarrow> (Inr x, putBatch a b c))"
  by (auto simp: onBatch_def putBatch_def split: prod.splits sum.splits)

section \<open>The order of the batches\<close>

text \<open>The first \<open>n\<close> batches await their validation, no other does, and only the next one may be in processing.\<close>

definition orderedAt :: "nat \<Rightarrow> 'b sync_chain \<Rightarrow> bool" where
  "orderedAt n c \<longleftrightarrow> n \<le> length (sc_batches c) \<and>
     (\<forall>i < length (sc_batches c). (statusAt c (addresses c ! i) = AwaitingValidation \<longleftrightarrow> i < n) \<and>
       (statusAt c (addresses c ! i) = Processing \<longrightarrow> i = n))"

definition processingAt :: "nat \<Rightarrow> 'b sync_chain \<Rightarrow> nat option" where
  "processingAt n c = (if n < length (sc_batches c) \<and> statusAt c (addresses c ! n) = Processing then Some (addresses c ! n) else None)"

text \<open>The batches follow one another from the start of the chain on.\<close>

definition consecutive :: "'b sync_chain \<Rightarrow> bool" where
  "consecutive c \<longleftrightarrow> sc_epochsPerBatch c = EPOCHS_PER_BATCH \<and>
     (\<forall>i < length (sc_batches c). fst (sc_batches c ! i) = sc_startEpoch c + i * EPOCHS_PER_BATCH)"

definition chainGood :: "nat option \<Rightarrow> 'b sync_chain \<Rightarrow> bool" where
  "chainGood p c \<longleftrightarrow> consecutive c \<and> (\<exists>n. orderedAt n c \<and> processingAt n c = p)"

definition processingOf :: "'b loop_state \<Rightarrow> nat option" where
  "processingOf l = (case l of AwaitingSegment a blocks \<Rightarrow> Some a | _ \<Rightarrow> None)"

definition loopAlive :: "'b loop_state \<Rightarrow> bool" where
  "loopAlive l = (case l of
     WaitingForNext \<Rightarrow> True | NextResolved \<Rightarrow> True | AwaitingSegment a blocks \<Rightarrow> True | SegmentDone (Inr _) \<Rightarrow> True | _ \<Rightarrow> False)"

text \<open>The errors that a chain may end with\<close>

definition limitError :: "sync_error \<Rightarrow> bool" where
  "limitError e \<longleftrightarrow> e = ErrorAborted \<or> (\<exists>be. e = BatchErr be \<and>
     be_code be \<in> {MAX_DOWNLOAD_ATTEMPTS, MAX_PROCESSING_ATTEMPTS, MAX_EXECUTION_ENGINE_ERROR_ATTEMPTS})"

fun loopErrors :: "'b loop_state \<Rightarrow> sync_error set" where
  "loopErrors (NextThrown e) = {e}"
| "loopErrors (SegmentDone (Inl e)) = {e}"
| "loopErrors (LoopEnded (Some e)) = {e}"
| "loopErrors _ = {}"

definition chainErrors :: "'b sync_chain \<Rightarrow> sync_error set" where
  "chainErrors c = loopErrors (sc_loop c) \<union> set_option (it_error (sc_batchProcessor c))"

text \<open>
  Epochs below the start are done: a call of \<open>startSyncing\<close> has said that they are finalized (\<open>L\<close>), or the block processor
  has accepted a batch with them. So are those of the batches that await their validation.
\<close>

definition epochDone :: "epoch set \<Rightarrow> 'b sync_chain \<Rightarrow> epoch \<Rightarrow> bool" where
  "epochDone L c e \<longleftrightarrow> (\<exists>f \<in> L. e < f) \<or> (\<exists>(s, blocks) \<in> set (sc_accepted c). s \<le> e \<and> e < s + sc_epochsPerBatch c)"

definition chainCovers :: "epoch set \<Rightarrow> epoch \<Rightarrow> 'b sync_chain \<Rightarrow> bool" where
  "chainCovers L e0 c \<longleftrightarrow> (\<forall>e. e0 \<le> e \<and> e < sc_startEpoch c \<longrightarrow> epochDone L c e) \<and>
     (\<forall>a \<in> set (addresses c). statusAt c a = AwaitingValidation \<longrightarrow>
       (\<exists>blocks. (sb_startEpoch (sc_store c ! a), blocks) \<in> set (sc_accepted c)))"

definition chainErrorsOk :: "'b sync_chain \<Rightarrow> bool" where
  "chainErrorsOk c \<longleftrightarrow> (\<forall>e \<in> chainErrors c. limitError e) \<and> sc_loop c \<notin> {NextDone, LoopEnded (Some ErrorAborted)} \<and>
     (it_ended (sc_batchProcessor c) \<longrightarrow> (\<exists>e. sc_loop c = LoopEnded e))"

text \<open>\<open>p\<close> is the batch in processing.\<close>

definition chainInv :: "epoch set \<Rightarrow> epoch \<Rightarrow> nat option \<Rightarrow> 'b sync_chain \<Rightarrow> bool" where
  "chainInv L e0 p c \<longleftrightarrow> chainWf c \<and> chainErrorsOk c \<and> (loopAlive (sc_loop c) \<longrightarrow> chainGood p c \<and> chainCovers L e0 c)"

section \<open>The list of batches as the code reads it\<close>

lemma addressedBatches_eq: "addressedBatches c = map (\<lambda>a. (a, sc_store c ! a)) (addresses c)"
  by (simp add: addressedBatches_def addresses_def case_prod_unfold)

lemma chainBatches_eq: "chainBatches c = map (\<lambda>a. sc_store c ! a) (addresses c)"
  by (simp add: chainBatches_def addressedBatches_eq)

lemma validateFrom_pre: "\<forall>b \<in> set bs. batchStatus b \<notin> {AwaitingValidation, Processing} \<Longrightarrow> validateFrom p q bs = Inr ()"
proof (induction bs arbitrary: q)
  case (Cons b bs)
  then show ?case by (cases "batchStatus b") auto
qed simp

lemma validateFrom_ok:
  "\<forall>i < length bs. (batchStatus (bs ! i) = AwaitingValidation \<longleftrightarrow> i < n) \<and> (batchStatus (bs ! i) = Processing \<longrightarrow> i = n) \<Longrightarrow>
    validateFrom 0 0 bs = Inr ()"
proof (induction bs arbitrary: n)
  case (Cons b bs)
  show ?case
  proof (cases n)
    case 0
    have "batchStatus (bs ! i) \<notin> {AwaitingValidation, Processing}" if "i < length bs" for i
      using Cons.prems [rule_format, of "Suc i"] that 0 by auto
    then have rest: "\<forall>b \<in> set bs. batchStatus b \<notin> {AwaitingValidation, Processing}"
      by (metis in_set_conv_nth)
    have "batchStatus b \<noteq> AwaitingValidation"
      using Cons.prems [rule_format, of 0] 0 by simp
    then show ?thesis
      using validateFrom_pre [OF rest] by (cases "batchStatus b") simp_all
  next
    case (Suc m)
    have "\<forall>i < length bs. (batchStatus (bs ! i) = AwaitingValidation \<longleftrightarrow> i < m) \<and> (batchStatus (bs ! i) = Processing \<longrightarrow> i = m)"
      using Cons.prems Suc by (metis Suc_less_eq length_Cons nat.inject nth_Cons_Suc)
    moreover have "batchStatus b = AwaitingValidation"
      using Cons.prems [rule_format, of 0] Suc by simp
    ultimately show ?thesis
      using Cons.IH [of m] by simp
  qed
qed simp

lemma ordered_validates: "orderedAt n c \<Longrightarrow> validateBatchesStatus (chainBatches c) = Inr ()"
  unfolding validateBatchesStatus_def
  by (rule validateFrom_ok [of _ n]) (auto simp: orderedAt_def chainBatches_eq statusAt_def addresses_def)

text \<open>The next batch to process is the one after those that await their validation.\<close>

lemma nextToProcess:
  assumes "getNextBatchToProcess (map (\<lambda>a. (a, st ! a)) as) = Some a"
    and "\<forall>i < length as. batchStatus (st ! (as ! i)) = AwaitingValidation \<longleftrightarrow> i < n"
  shows "n < length as \<and> as ! n = a \<and> batchStatus (st ! a) = AwaitingProcessing"
  using assms
proof (induction as arbitrary: n)
  case (Cons x xs)
  show ?case
  proof (cases n)
    case 0
    then have "batchStatus (st ! x) \<noteq> AwaitingValidation"
      using Cons.prems(2) by force
    with Cons.prems(1) 0 show ?thesis
      by (cases "batchStatus (st ! x)") auto
  next
    case (Suc m)
    then have x: "batchStatus (st ! x) = AwaitingValidation"
      using Cons.prems(2) by force
    have "\<forall>i < length xs. batchStatus (st ! (xs ! i)) = AwaitingValidation \<longleftrightarrow> i < m"
      using Cons.prems(2) Suc by (metis Suc_less_eq length_Cons nth_Cons_Suc)
    with Cons.IH [of m] Cons.prems(1) x Suc show ?thesis by simp
  qed
qed simp

section \<open>What a change of the chain keeps\<close>

lemmas chain_inv_defs = chainInv_def chainWf_def chainErrorsOk_def chainErrors_def chainGood_def chainCovers_def consecutive_def
  orderedAt_def processingAt_def statusAt_def addresses_def epochDone_def

text \<open>The invariant reads the store, the batches, the requests under way, the loop and its trigger.\<close>

lemma chainInv_frame:
  assumes "sc_store c' = sc_store c" "sc_batches c' = sc_batches c" "sc_inFlight c' = sc_inFlight c" "sc_loop c' = sc_loop c"
    "sc_batchProcessor c' = sc_batchProcessor c" "sc_startEpoch c' = sc_startEpoch c"
    "sc_epochsPerBatch c' = sc_epochsPerBatch c" "sc_accepted c' = sc_accepted c"
  shows "chainInv L e0 p c' = chainInv L e0 p c"
  using assms by (simp add: chain_inv_defs)

lemma chainInv_mono:
  assumes "chainInv L e0 p c" "L \<subseteq> L'"
  shows "chainInv L' e0 p c"
proof -
  have "epochDone L c e \<Longrightarrow> epochDone L' c e" for e
    using assms(2) by (auto simp: epochDone_def)
  with assms(1) show ?thesis
    by (auto simp: chainInv_def chainCovers_def)
qed

text \<open>The loop may go on or end, as long as its errors are limits of retries.\<close>

lemma chainInv_loop:
  assumes "chainInv L e0 p c" "loopAlive l \<Longrightarrow> loopAlive (sc_loop c)"
    and "chainErrorsOk (c\<lparr>sc_loop := l, sc_batchProcessor := t\<rparr>)"
  shows "chainInv L e0 p (c\<lparr>sc_loop := l, sc_batchProcessor := t\<rparr>)"
proof -
  let ?c = "c\<lparr>sc_loop := l, sc_batchProcessor := t\<rparr>"
  have "statusAt ?c = statusAt c" "addresses ?c = addresses c"
    by (simp_all add: statusAt_def addresses_def fun_eq_iff)
  then have "chainWf ?c = chainWf c" "chainGood p ?c = chainGood p c" "chainCovers L e0 ?c = chainCovers L e0 c"
    by (simp_all add: chainWf_def chainGood_def chainCovers_def consecutive_def orderedAt_def processingAt_def epochDone_def)
  with assms show ?thesis
    by (simp add: chainInv_def)
qed

lemma callNext_inv:
  fixes c :: "'b sync_chain"
  assumes "chainInv L e0 p c" "\<not> it_ended (sc_batchProcessor c)" "loopAlive (sc_loop c)"
  shows "chainInv L e0 p (callNext c)"
proof -
  obtain l :: "'b loop_state" and t where n: "triggerNext (sc_batchProcessor c) = (l, t)" by fastforce
  have "chainErrorsOk (c\<lparr>sc_loop := l, sc_batchProcessor := t\<rparr>)"
    using n assms by (auto simp: chainInv_def chainErrorsOk_def chainErrors_def split: option.splits if_splits)
  then have "chainInv L e0 p (c\<lparr>sc_loop := l, sc_batchProcessor := t\<rparr>)"
    by (rule chainInv_loop [OF assms(1) assms(3)])
  then show ?thesis
    by (simp add: callNext_def n del: triggerNext.simps)
qed

lemma callNext_processing: "it_ended (sc_batchProcessor c) \<or> processingOf (sc_loop (callNext c)) = None"
  by (auto simp: callNext_def processingOf_def split: option.splits prod.splits)

lemma wakeLoop_inv:
  assumes "chainInv L e0 p c"
  shows "chainInv L e0 p (wakeLoop c)"
proof (cases "sc_loop c = WaitingForNext")
  case True
  then have "\<not> it_ended (sc_batchProcessor c)" "loopAlive (sc_loop c)"
    using assms by (auto simp: chainInv_def chainErrorsOk_def loopAlive_def)
  with True callNext_inv [OF assms] show ?thesis
    by (simp add: wakeLoop_def)
next
  case False
  with assms show ?thesis
    by (simp add: wakeLoop_def split: loop_state.splits)
qed

lemma wakeLoop_processing: "processingOf (sc_loop (wakeLoop c)) = processingOf (sc_loop c)"
  by (auto simp: wakeLoop_def callNext_def processingOf_def split: option.splits prod.splits loop_state.splits if_splits)

text \<open>Setting the trigger, or an error, and waking the loop\<close>

lemma trigger_inv:
  assumes "chainInv L e0 p c"
  shows "chainInv L e0 p (triggerBatchProcessor c)"
proof -
  have "chainInv L e0 p (c\<lparr>sc_loop := sc_loop c, sc_batchProcessor := (sc_batchProcessor c)\<lparr>it_triggered := True\<rparr>\<rparr>)"
    using assms by (intro chainInv_loop) (simp_all add: chainInv_def chainErrorsOk_def chainErrors_def)
  then show ?thesis
    unfolding triggerBatchProcessor_def by (intro wakeLoop_inv) simp
qed

lemma end_inv:
  assumes "chainInv L e0 p c" "limitError e"
  shows "chainInv L e0 p (endBatchProcessor (Some e) c)"
proof -
  have "chainInv L e0 p (c\<lparr>sc_loop := sc_loop c, sc_batchProcessor := (sc_batchProcessor c)\<lparr>it_error := Some e\<rparr>\<rparr>)"
    using assms by (intro chainInv_loop) (simp_all add: chainInv_def chainErrorsOk_def chainErrors_def)
  then show ?thesis
    unfolding endBatchProcessor_def by (intro wakeLoop_inv) simp
qed

lemma trigger_processing [simp]: "processingOf (sc_loop (triggerBatchProcessor c)) = processingOf (sc_loop c)"
  by (simp add: triggerBatchProcessor_def wakeLoop_processing)

lemma end_processing [simp]: "processingOf (sc_loop (endBatchProcessor e c)) = processingOf (sc_loop c)"
  by (simp add: endBatchProcessor_def wakeLoop_processing)

text \<open>A batch that is neither in processing nor awaits its validation may change to another such status.\<close>

lemma putBatch_inv:
  assumes inv: "chainInv L e0 p c" and a: "a < length (sc_store c)" "a \<notin> set (sc_inFlight c)"
    and b: "sb_startEpoch b = sb_startEpoch (sc_store c ! a)"
    and st: "statusAt c a \<notin> {AwaitingValidation, Processing}" "batchStatus b \<notin> {AwaitingValidation, Processing}"
  shows "chainInv L e0 p (putBatch a b c)"
proof -
  have wf: "chainWf (putBatch a b c)"
    using inv b a by (intro putBatch_wf) (simp_all add: chainInv_def)
  have same: "statusAt (putBatch a b c) x \<in> {AwaitingValidation, Processing} \<longleftrightarrow> statusAt c x \<in> {AwaitingValidation, Processing}"
    "statusAt c x \<in> {AwaitingValidation, Processing} \<Longrightarrow> statusAt (putBatch a b c) x = statusAt c x" for x
    using st a by (auto simp: putBatch_status)
  have s: "statusAt (putBatch a b c) x = AwaitingValidation \<longleftrightarrow> statusAt c x = AwaitingValidation"
    "statusAt (putBatch a b c) x = Processing \<longleftrightarrow> statusAt c x = Processing" for x
    using same [of x] by auto
  have e: "sb_startEpoch ((sc_store c)[a := b] ! x) = sb_startEpoch (sc_store c ! x)" for x
    using b a by (cases "x = a") simp_all
  have "chainGood p (putBatch a b c) = chainGood p c" "chainCovers L e0 (putBatch a b c) = chainCovers L e0 c"
    by (simp_all add: chainGood_def consecutive_def orderedAt_def processingAt_def chainCovers_def epochDone_def s e)
  moreover have "chainErrorsOk (putBatch a b c) = chainErrorsOk c"
    by (simp add: chainErrorsOk_def chainErrors_def)
  ultimately show ?thesis
    using inv wf by (simp add: chainInv_def)
qed

section \<open>Requests\<close>

lemma sendBatch_eq:
  assumes "statusAt c a = AwaitingDownload"
  shows "sendBatch a peer c = (putBatch a ((sc_store c ! a)\<lparr>sb_state := BeingDownloaded peer\<rparr>) c)
    \<lparr>sc_inFlight := sc_inFlight c @ [a], sc_sent := sc_sent c @ [(a, peer)]\<rparr>"
  using assms by (simp add: sendBatch_def onBatch_eq startDownloading_def statusAt_def)

lemma inFlight_status: "chainInv L e0 p c \<Longrightarrow> a \<in> set (sc_inFlight c) \<Longrightarrow> a < length (sc_store c) \<and> statusAt c a = Downloading"
  by (simp add: chainInv_def chainWf_def)

lemma sendBatch_inv:
  assumes inv: "chainInv L e0 p c" and a: "a < length (sc_store c)" "statusAt c a = AwaitingDownload"
  shows "chainInv L e0 p (sendBatch a peer c)"
proof -
  let ?b = "(sc_store c ! a)\<lparr>sb_state := BeingDownloaded peer\<rparr>"
  have fl: "a \<notin> set (sc_inFlight c)"
    using inFlight_status [OF inv] a by force
  then have inv1: "chainInv L e0 p (putBatch a ?b c)"
    using a by (intro putBatch_inv [OF inv]) (simp_all add: batchStatus_def)
  let ?c = "(putBatch a ?b c)\<lparr>sc_inFlight := sc_inFlight c @ [a], sc_sent := sc_sent c @ [(a, peer)]\<rparr>"
  have d: "statusAt (putBatch a ?b c) a = Downloading"
    using a by (simp add: putBatch_status batchStatus_def)
  have "statusAt ?c = statusAt (putBatch a ?b c)" "addresses ?c = addresses (putBatch a ?b c)"
    by (simp_all add: statusAt_def addresses_def fun_eq_iff)
  then have "chainWf ?c" "chainErrorsOk ?c = chainErrorsOk (putBatch a ?b c)" "chainGood p ?c = chainGood p (putBatch a ?b c)"
    "chainCovers L e0 ?c = chainCovers L e0 (putBatch a ?b c)"
    using inv1 fl d a by (simp_all add: chainInv_def chainWf_def chainGood_def chainCovers_def consecutive_def orderedAt_def
        processingAt_def epochDone_def chainErrorsOk_def chainErrors_def)
  with inv1 show ?thesis
    by (simp add: sendBatch_eq [OF a(2)] chainInv_def)
qed

lemma jm_set_new: "k \<notin> fst ` set m \<Longrightarrow> jm_set k v m = m @ [(k, v)]"
  unfolding jm_set_def by (induction m) auto

text \<open>A batch that is included comes after all others.\<close>

lemma chainBatches_last: "sc_batches c \<noteq> [] \<Longrightarrow> chainWf c \<Longrightarrow> sb_startEpoch (last (chainBatches c)) = fst (last (sc_batches c))"
  by (cases "last (sc_batches c)")
    (force simp: chainBatches_def addressedBatches_def last_map chainWf_def dest: last_in_set)

lemma consecutive_next:
  assumes "consecutive c" "chainWf c"
  shows "toBeDownloadedStartEpoch (chainBatches c) (sc_startEpoch c) (sc_epochsPerBatch c) =
    sc_startEpoch c + length (sc_batches c) * EPOCHS_PER_BATCH"
proof (cases "sc_batches c = []")
  case False
  moreover from False have "fst (last (sc_batches c)) = sc_startEpoch c + (length (sc_batches c) - 1) * EPOCHS_PER_BATCH"
    using assms(1) by (simp add: last_conv_nth consecutive_def)
  moreover from False obtain n where "length (sc_batches c) = Suc n"
    by (cases "length (sc_batches c)") auto
  ultimately show ?thesis
    using assms chainBatches_last [OF _ assms(2)]
    by (auto simp: toBeDownloadedStartEpoch_def consecutive_def chainBatches_eq addresses_def)
qed (simp add: toBeDownloadedStartEpoch_def chainBatches_eq addresses_def)

lemma includeNextBatch_Some:
  assumes "includeNextBatch c = (Some a, c')"
  obtains k where "a = length (sc_store c)" "k \<notin> fst ` set (sc_batches c)"
    "k = toBeDownloadedStartEpoch (chainBatches c) (sc_startEpoch c) (sc_epochsPerBatch c)"
    "computeStartSlotAtEpoch k + BATCH_SLOT_OFFSET \<le> ct_slot (sc_target c)"
    "c' = c\<lparr>sc_store := sc_store c @ [new_Batch k (sc_epochsPerBatch c)], sc_batches := sc_batches c @ [(k, a)]\<rparr>"
proof -
  let ?k = "toBeDownloadedStartEpoch (chainBatches c) (sc_startEpoch c) (sc_epochsPerBatch c)"
  have none: "jm_get (sc_batches c) ?k = None"
    using assms by (auto simp: includeNextBatch_def Let_def jm_has_def split: if_splits)
  then have key: "?k \<notin> fst ` set (sc_batches c)"
    by (metis domIff dom_jm_get)
  have "jm_set ?k x (sc_batches c) = sc_batches c @ [(?k, x)]" for x
    by (rule jm_set_new [OF key])
  then show thesis
    using assms key by (intro that [of ?k]) (auto simp: includeNextBatch_def Let_def split: if_splits)
qed

lemma includeNextBatch_inv:
  assumes inv: "chainInv L e0 p c" and ok: "includeNextBatch c = (Some a, c')"
  shows "chainInv L e0 p c' \<and> a < length (sc_store c') \<and> statusAt c' a = AwaitingDownload \<and> sc_loop c' = sc_loop c"
proof -
  from includeNextBatch_Some [OF ok] obtain k where a: "a = length (sc_store c)" and k: "k \<notin> fst ` set (sc_batches c)"
    and key: "k = toBeDownloadedStartEpoch (chainBatches c) (sc_startEpoch c) (sc_epochsPerBatch c)"
    and c': "c' = c\<lparr>sc_store := sc_store c @ [new_Batch k (sc_epochsPerBatch c)], sc_batches := sc_batches c @ [(k, a)]\<rparr>"
    by metis
  have wf: "chainWf c"
    using inv by (simp add: chainInv_def)
  then have old: "x < length (sc_store c)" if "x \<in> set (addresses c)" for x
    using that by (auto simp: chainWf_def addresses_def)
  have new: "statusAt c' a = AwaitingDownload" "sb_startEpoch (sc_store c' ! a) = k"
    by (simp_all add: c' a statusAt_def batchStatus_def new_Batch_def Let_def)
  have st: "statusAt c' x = statusAt c x" "sc_store c' ! x = sc_store c ! x" if "x < length (sc_store c)" for x
    using that by (simp_all add: c' statusAt_def nth_append)
  have addr: "addresses c' = addresses c @ [a]"
    by (simp add: c' addresses_def)
  have len: "length (addresses c) = length (sc_batches c)"
    by (simp add: addresses_def)
  have wf': "chainWf c'"
    unfolding chainWf_def
  proof (intro conjI ballI)
    show "distinct (map fst (sc_batches c'))" "distinct (addresses c')" "distinct (sc_inFlight c')"
      using wf k a by (auto simp: chainWf_def c' addresses_def)
  next
    fix x assume "x \<in> set (sc_batches c')"
    with wf new a st show "case x of (k, a) \<Rightarrow> a < length (sc_store c') \<and> sb_startEpoch (sc_store c' ! a) = k"
      by (auto simp: chainWf_def c' nth_append)
  next
    fix x assume "x \<in> set (sc_inFlight c')"
    with wf st show "x < length (sc_store c')" "statusAt c' x = Downloading"
      by (auto simp: chainWf_def c')
  qed
  have "chainGood p c'" if good: "chainGood p c"
  proof -
    from good obtain n where n: "orderedAt n c" "processingAt n c = p" "consecutive c"
      by (auto simp: chainGood_def)
    have nth: "addresses c' ! i = (if i < length (sc_batches c) then addresses c ! i else a)" if "i \<le> length (sc_batches c)" for i
      using that len by (simp add: addr nth_append)
    have sti: "statusAt c' (addresses c ! i) = statusAt c (addresses c ! i)" if "i < length (sc_batches c)" for i
      using that old [of "addresses c ! i"] by (intro st) (simp add: addresses_def)
    have lenB: "length (sc_batches c') = Suc (length (sc_batches c))"
      by (simp add: c')
    have at: "statusAt c' (addresses c' ! i) =
        (if i < length (sc_batches c) then statusAt c (addresses c ! i) else AwaitingDownload)" if "i \<le> length (sc_batches c)" for i
      using that new(1) by (simp add: nth sti)
    have "orderedAt n c'"
      using n(1) unfolding orderedAt_def lenB by (simp add: at less_Suc_eq_le)
    moreover have "processingAt n c' = processingAt n c"
    proof -
      have "n \<le> length (sc_batches c)"
        using n(1) by (simp add: orderedAt_def)
      with at [of n] nth [of n] show ?thesis
        by (cases "n < length (sc_batches c)") (simp_all add: processingAt_def lenB)
    qed
    moreover have "consecutive c'"
      using n(3) consecutive_next [OF n(3) wf] key by (auto simp: consecutive_def c' nth_append less_Suc_eq)
    ultimately show ?thesis
      using n(2) by (auto simp: chainGood_def)
  qed
  moreover have "chainCovers L e0 c'" if "chainCovers L e0 c"
  proof -
    have "sc_startEpoch c' = sc_startEpoch c" "sc_accepted c' = sc_accepted c" "sc_epochsPerBatch c' = sc_epochsPerBatch c"
      by (simp_all add: c')
    with that new st old show ?thesis
      by (simp add: chainCovers_def epochDone_def addr)
  qed
  moreover have "chainErrorsOk c' = chainErrorsOk c" "sc_loop c' = sc_loop c"
    by (simp_all add: c' chainErrorsOk_def chainErrors_def)
  ultimately show ?thesis
    using inv wf' new a by (auto simp: chainInv_def c')
qed

text \<open>The loops of \<open>requestBatches\<close>\<close>

lemma sendBatch_loop [simp]: "processingOf (sc_loop (sendBatch a peer c)) = processingOf (sc_loop c)"
  by (auto simp: sendBatch_def onBatch_eq split: prod.splits sum.splits)

lemma retryBatch_inv:
  assumes "chainInv L e0 p c" "a < length (sc_store c)"
  shows "chainInv L e0 p (retryBatch balancer a c)"
  using sendBatch_inv [OF assms(1,2)] assms(1) by (simp add: retryBatch_def statusAt_def split: option.splits)

lemma wakeLoop_store [simp]: "sc_store (wakeLoop c) = sc_store c"
  by (auto simp: wakeLoop_def callNext_def split: loop_state.splits prod.splits)

lemma sendBatch_store [simp]: "length (sc_store (sendBatch a peer c)) = length (sc_store c)"
  by (auto simp: sendBatch_def onBatch_eq endBatchProcessor_def split: prod.splits sum.splits)

lemma retryBatch_keeps [simp]:
  "length (sc_store (retryBatch balancer a c)) = length (sc_store c)"
  "processingOf (sc_loop (retryBatch balancer a c)) = processingOf (sc_loop c)"
  by (simp_all add: retryBatch_def split: option.splits)

lemma retryBatches_inv:
  "chainInv L e0 p c \<Longrightarrow> \<forall>a \<in> set as. a < length (sc_store c) \<Longrightarrow> chainInv L e0 p (fold (retryBatch balancer) as c)"
  by (induction as arbitrary: c) (simp_all add: retryBatch_inv)

lemma retryBatches_loop [simp]: "processingOf (sc_loop (fold (retryBatch balancer) as c)) = processingOf (sc_loop c)"
  by (induction as arbitrary: c) simp_all

lemma includeNextBatch_None: "includeNextBatch c = (None, c') \<Longrightarrow> c' = c"
  by (auto simp: includeNextBatch_def Let_def split: if_splits)

lemma requestNextBatches_inv:
  "chainInv L e0 p c \<Longrightarrow> chainInv L e0 p (requestNextBatches peers c) \<and>
    processingOf (sc_loop (requestNextBatches peers c)) = processingOf (sc_loop c)"
proof (induction peers arbitrary: c)
  case (Cons peer peers)
  show ?case
  proof (cases "includeNextBatch c")
    case (Pair r c1)
    show ?thesis
    proof (cases r)
      case None
      with Pair includeNextBatch_None [of c c1] Cons.prems show ?thesis by simp
    next
      case (Some a)
      with includeNextBatch_inv [OF Cons.prems, of a c1] Pair
      have c1: "chainInv L e0 p c1" "a < length (sc_store c1)" "statusAt c1 a = AwaitingDownload" "sc_loop c1 = sc_loop c"
        by auto
      from Cons.IH [OF sendBatch_inv [OF c1(1-3), of peer]] c1(4) Pair Some show ?thesis by simp
    qed
  qed
qed simp

lemma requestBatches_inv:
  assumes inv: "chainInv L e0 p c"
  shows "chainInv L e0 p (requestBatches env peers c) \<and> processingOf (sc_loop (requestBatches env peers c)) = processingOf (sc_loop c)"
proof -
  have "chainInv L e0 p (c\<lparr>sc_shuffles := n\<rparr>)" for n
    using inv by (subst chainInv_frame [of _ c]) simp_all
  moreover have "\<forall>a \<in> set (map snd (sc_batches c)). a < length (sc_store c)"
    using inv by (auto simp: chainInv_def chainWf_def)
  ultimately have "chainInv L e0 p (fold (retryBatch b) (map snd (sc_batches c)) (c\<lparr>sc_shuffles := n\<rparr>))" for b n
    by (intro retryBatches_inv) simp_all
  from requestNextBatches_inv [OF this] inv show ?thesis
    by (simp add: requestBatches_def Let_def)
qed

lemma downloader_inv: "chainInv L e0 p c \<Longrightarrow> chainInv L e0 p (triggerBatchDownloader env c)"
  by (simp add: triggerBatchDownloader_def requestBatches_inv)

lemma downloader_processing: "chainInv L e0 p c \<Longrightarrow>
    processingOf (sc_loop (triggerBatchDownloader env c)) = processingOf (sc_loop c)"
  unfolding triggerBatchDownloader_def by (rule requestBatches_inv [THEN conjunct2])

section \<open>Dropping batches\<close>

lemma validate_eq: "onBatch a validationSuccess c = (case sb_state (sc_store c ! a) of
    InValidationQueue attempt \<Rightarrow> (Inr attempt, c) | _ \<Rightarrow> (Inl (BatchErr (wrongStatusErrorType AwaitingValidation (sc_store c ! a))), c))"
  by (simp add: onBatch_def validationSuccess_def split: batch_state.splits)

lemma status_iff: "batchStatus b = AwaitingValidation \<longleftrightarrow> (\<exists>x. sb_state b = InValidationQueue x)"
  by (cases "sb_state b") (simp_all add: batchStatus_def)

lemma jm_delete_filter: "jm_delete k m = filter (\<lambda>(k', v). k' \<noteq> k) m"
  by (induction m) (auto simp: jm_delete_def)

text \<open>What the drop leaves alone\<close>

definition dropFrame :: "'b sync_chain \<Rightarrow> 'b sync_chain \<Rightarrow> bool" where
  "dropFrame c c' \<longleftrightarrow> sc_store c' = sc_store c \<and> sc_inFlight c' = sc_inFlight c \<and> sc_loop c' = sc_loop c \<and>
    sc_batchProcessor c' = sc_batchProcessor c \<and> sc_startEpoch c' = sc_startEpoch c \<and>
    sc_epochsPerBatch c' = sc_epochsPerBatch c \<and> sc_accepted c' = sc_accepted c \<and> sc_sent c' = sc_sent c"

lemma dropBatches_ok:
  "dropBatches s entries c = (Inr (), c') \<Longrightarrow> \<forall>(k, a) \<in> set entries. sb_startEpoch (sc_store c ! a) = k \<Longrightarrow>
    dropFrame c c' \<and> (\<forall>(k, a) \<in> set entries. k < s \<longrightarrow> statusAt c a = AwaitingValidation) \<and>
    sc_batches c' = filter (\<lambda>(k, a). k \<notin> fst ` set entries \<or> s \<le> k) (sc_batches c)"
proof (induction entries arbitrary: c)
  case Nil
  then show ?case by (simp add: dropFrame_def case_prod_unfold)
next
  case (Cons e entries)
  obtain k a where e: "e = (k, a)" by fastforce
  show ?case
  proof (cases "k < s")
    case True
    let ?c1 = "c\<lparr>sc_batches := jm_delete k (sc_batches c), sc_validatedEpochs := sc_validatedEpochs c + EPOCHS_PER_BATCH\<rparr>"
    from Cons.prems e True obtain x r where x: "sb_state (sc_store c ! a) = InValidationQueue x"
      and rest: "dropBatches s entries (?c1\<lparr>sc_reports := r\<rparr>) = (Inr (), c')"
      by (auto simp: Let_def bind_st_eq_Inr validate_eq split: batch_state.splits)
    have "dropFrame (?c1\<lparr>sc_reports := r\<rparr>) c' \<and> (\<forall>(k, a) \<in> set entries. k < s \<longrightarrow> statusAt (?c1\<lparr>sc_reports := r\<rparr>) a = AwaitingValidation) \<and>
        sc_batches c' = filter (\<lambda>(k, a). k \<notin> fst ` set entries \<or> s \<le> k) (sc_batches (?c1\<lparr>sc_reports := r\<rparr>))"
      using Cons.prems(2) e by (intro Cons.IH [OF rest]) auto
    moreover have "filter (\<lambda>(k, a). k \<notin> fst ` set entries \<or> s \<le> k) (jm_delete k (sc_batches c)) =
        filter (\<lambda>(k, a). k \<notin> fst ` set (e # entries) \<or> s \<le> k) (sc_batches c)"
      using True e by (auto simp: jm_delete_filter intro!: filter_cong)
    ultimately show ?thesis
      using x e by (simp add: dropFrame_def statusAt_def status_iff)
  next
    case False
    with Cons.prems e have rest: "dropBatches s entries c = (Inr (), c')"
      by auto
    have "filter (\<lambda>(k, a). k \<notin> fst ` set entries \<or> s \<le> k) (sc_batches c) =
        filter (\<lambda>(k, a). k \<notin> fst ` set (e # entries) \<or> s \<le> k) (sc_batches c)"
      using False e by (intro filter_cong) auto
    with Cons.IH [OF rest] Cons.prems(2) e False show ?thesis
      by auto
  qed
qed

lemma dropBatches_total:
  "\<forall>(k, a) \<in> set entries. sb_startEpoch (sc_store c ! a) = k \<and> (k < s \<longrightarrow> statusAt c a = AwaitingValidation) \<Longrightarrow>
    \<exists>c'. dropBatches s entries c = (Inr (), c')"
proof (induction entries arbitrary: c)
  case (Cons e entries)
  obtain k a where e: "e = (k, a)" by fastforce
  show ?case
  proof (cases "k < s")
    case True
    let ?c1 = "c\<lparr>sc_batches := jm_delete k (sc_batches c), sc_validatedEpochs := sc_validatedEpochs c + EPOCHS_PER_BATCH\<rparr>"
    from Cons.prems e True obtain x where x: "sb_state (sc_store c ! a) = InValidationQueue x"
      by (auto simp: statusAt_def status_iff)
    have "\<exists>c'. dropBatches s entries (?c1\<lparr>sc_reports := r\<rparr>) = (Inr (), c')" for r
      using Cons.prems by (intro Cons.IH) (auto simp: statusAt_def)
    with x e True Cons.prems show ?thesis
      by (auto simp: Let_def bind_st_def validate_eq)
  next
    case False
    with Cons e show ?thesis by auto
  qed
qed simp

lemma advanceChain_ok:
  assumes wf: "chainWf c" and ok: "advanceChain s c = (Inr (), c')" and s: "sc_startEpoch c < s"
  obtains c1 where "dropFrame c c1" "c' = c1\<lparr>sc_startEpoch := s\<rparr>"
    "\<forall>(k, a) \<in> set (sc_batches c). k < s \<longrightarrow> statusAt c a = AwaitingValidation"
    "sc_batches c' = filter (\<lambda>(k, a). s \<le> k) (sc_batches c)"
proof -
  from ok s obtain c1 where c1: "dropBatches s (sc_batches c) c = (Inr (), c1)" "c' = c1\<lparr>sc_startEpoch := s\<rparr>"
    by (auto simp: advanceChain_def bind_st_eq_Inr)
  have "dropFrame c c1 \<and> (\<forall>(k, a) \<in> set (sc_batches c). k < s \<longrightarrow> statusAt c a = AwaitingValidation) \<and>
      sc_batches c1 = filter (\<lambda>(k, a). k \<notin> fst ` set (sc_batches c) \<or> s \<le> k) (sc_batches c)"
    using wf by (intro dropBatches_ok [OF c1(1)]) (auto simp: chainWf_def)
  moreover have "filter (\<lambda>(k, a). k \<notin> fst ` set (sc_batches c) \<or> s \<le> k) (sc_batches c) = filter (\<lambda>(k, a). s \<le> k) (sc_batches c)"
    by (intro filter_cong) force+
  ultimately show thesis
    using c1(2) by (intro that [of c1]) auto
qed

lemma advanceChain_total:
  assumes wf: "chainWf c" and av: "\<forall>(k, a) \<in> set (sc_batches c). k < s \<longrightarrow> statusAt c a = AwaitingValidation"
  shows "\<exists>c'. advanceChain s c = (Inr (), c')"
proof -
  have "\<exists>c'. dropBatches s (sc_batches c) c = (Inr (), c')"
    using wf av by (intro dropBatches_total) (auto simp: chainWf_def)
  then show ?thesis
    by (auto simp: advanceChain_def)
qed

text \<open>Batches that follow one another are dropped from the front.\<close>

lemma filter_consecutive:
  "\<forall>i < length xs. fst (xs ! i) = s + i * d \<Longrightarrow> 0 < d \<Longrightarrow> filter (\<lambda>(k, a). s + m * d \<le> k) xs = drop m xs"
proof (induction xs arbitrary: s m)
  case (Cons x xs)
  have x: "fst x = s"
    using Cons.prems(1) [rule_format, of 0] by simp
  have xs: "\<forall>i < length xs. fst (xs ! i) = (s + d) + i * d"
    using Cons.prems(1) [rule_format, of "Suc i" for i] by auto
  show ?case
  proof (cases m)
    case 0
    with Cons.IH [OF xs Cons.prems(2), of 0] have "filter (\<lambda>(k, a). s + d \<le> k) xs = xs" by simp
    then have "filter (\<lambda>(k, a). s \<le> k) xs = xs"
      by (auto simp: filter_id_conv)
    with 0 x show ?thesis by (simp add: case_prod_unfold)
  next
    case (Suc j)
    with Cons.IH [OF xs Cons.prems(2), of j] x Cons.prems(2) show ?thesis
      by (simp add: case_prod_unfold add.assoc)
  qed
qed simp

lemma advance_frame:
  assumes "chainWf c" "advanceChain s c = (Inr (), c')"
  shows "sc_store c' = sc_store c \<and> sc_inFlight c' = sc_inFlight c \<and> sc_loop c' = sc_loop c \<and>
    sc_batchProcessor c' = sc_batchProcessor c \<and> sc_epochsPerBatch c' = sc_epochsPerBatch c \<and> sc_accepted c' = sc_accepted c \<and>
    sc_startEpoch c' = max s (sc_startEpoch c)"
proof (cases "sc_startEpoch c < s")
  case True
  from advanceChain_ok [OF assms True] obtain c1 where "dropFrame c c1" "c' = c1\<lparr>sc_startEpoch := s\<rparr>" by metis
  with True show ?thesis by (simp add: dropFrame_def)
next
  case False
  with assms show ?thesis by (simp add: advanceChain_def)
qed

lemma advance_wf:
  assumes wf: "chainWf c" and ok: "advanceChain s c = (Inr (), c')"
  shows "chainWf c'"
proof (cases "sc_startEpoch c < s")
  case True
  from advanceChain_ok [OF assms True] have b: "sc_batches c' = filter (\<lambda>(k, a). s \<le> k) (sc_batches c)" by metis
  moreover from wf have "distinct (map snd (sc_batches c))" "distinct (map fst (sc_batches c))"
    by (simp_all add: chainWf_def addresses_def)
  ultimately have "distinct (map fst (sc_batches c'))" "distinct (map snd (sc_batches c'))"
    by (simp_all add: distinct_map_filter)
  with b wf advance_frame [OF assms] show ?thesis
    by (auto simp: chainWf_def addresses_def statusAt_def)
next
  case False
  with assms show ?thesis by (simp add: advanceChain_def)
qed

lemma advance_good:
  assumes wf: "chainWf c" and ok: "advanceChain (sc_startEpoch c + m * EPOCHS_PER_BATCH) c = (Inr (), c')"
    and con: "consecutive c" and n: "orderedAt n c" and m: "0 < m"
  shows "consecutive c' \<and> addresses c' = drop m (addresses c) \<and> orderedAt (n - min m (length (addresses c))) c' \<and>
    processingAt (n - min m (length (addresses c))) c' = processingAt n c"
proof -
  let ?s = "sc_startEpoch c + m * EPOCHS_PER_BATCH" and ?k = "min m (length (addresses c))"
  have pos: "0 < EPOCHS_PER_BATCH"
    by (simp add: EPOCHS_PER_BATCH_def)
  then have less: "sc_startEpoch c < ?s"
    using m by simp
  from advanceChain_ok [OF wf ok less] have av: "\<forall>(k, a) \<in> set (sc_batches c). k < ?s \<longrightarrow> statusAt c a = AwaitingValidation"
    and b: "sc_batches c' = filter (\<lambda>(k, a). ?s \<le> k) (sc_batches c)" by metis+
  have drop: "sc_batches c' = drop m (sc_batches c)"
    unfolding b using con pos by (intro filter_consecutive) (simp_all add: consecutive_def)
  note fr = advance_frame [OF wf ok]
  have len: "length (addresses c) = length (sc_batches c)"
    by (simp add: addresses_def)
  have st: "statusAt c' = statusAt c"
    using fr by (simp add: statusAt_def fun_eq_iff)
  have addr: "addresses c' = drop m (addresses c)"
    by (simp add: addresses_def drop drop_map)
  have "consecutive c'"
    using con fr less by (auto simp: consecutive_def drop max_def algebra_simps)
  moreover have low: "?k \<le> n"
  proof (rule ccontr)
    assume "\<not> ?k \<le> n"
    then have i: "n < length (sc_batches c)" "n < m"
      using len by auto
    then have "fst (sc_batches c ! n) < ?s"
      using con pos by (simp add: consecutive_def)
    moreover have "sc_batches c ! n \<in> set (sc_batches c)"
      using i by simp
    ultimately have "statusAt c (snd (sc_batches c ! n)) = AwaitingValidation"
      using av by (metis (mono_tags, lifting) case_prod_unfold)
    with n i show False
      by (auto simp: orderedAt_def addresses_def)
  qed
  moreover have "orderedAt (n - ?k) c'"
    unfolding orderedAt_def
  proof (intro conjI allI impI)
    show "n - ?k \<le> length (sc_batches c')"
      using n low len drop by (auto simp: orderedAt_def)
  next
    fix i assume "i < length (sc_batches c')"
    then have mi: "m + i < length (sc_batches c)" "?k = m"
      using drop len by auto
    then have at: "addresses c' ! i = addresses c ! (m + i)"
      using addr len by simp
    have "(statusAt c (addresses c ! (m + i)) = AwaitingValidation \<longleftrightarrow> m + i < n) \<and>
        (statusAt c (addresses c ! (m + i)) = Processing \<longrightarrow> m + i = n)"
      using n mi by (simp add: orderedAt_def)
    then show "(statusAt c' (addresses c' ! i) = AwaitingValidation) = (i < n - ?k)"
      "statusAt c' (addresses c' ! i) = Processing \<Longrightarrow> i = n - ?k"
      unfolding st at mi(2) by auto
  qed
  moreover have "processingAt (n - ?k) c' = processingAt n c"
  proof (cases "n < length (sc_batches c)")
    case True
    then have k: "?k = m" "m \<le> n"
      using low len by auto
    then have "n - m < length (sc_batches c')" "addresses c' ! (n - m) = addresses c ! n"
      using True drop addr len by auto
    with True k show ?thesis
      by (simp add: processingAt_def st)
  next
    case False
    then have "\<not> n - ?k < length (sc_batches c')"
      using drop len by auto
    with False show ?thesis
      by (simp add: processingAt_def)
  qed
  ultimately show ?thesis
    using addr by simp
qed

lemma advance_inv:
  assumes inv: "chainInv L e0 p c" and ok: "advanceChain (sc_startEpoch c + m * EPOCHS_PER_BATCH) c = (Inr (), c')"
    and e: "\<And>e. loopAlive (sc_loop c) \<Longrightarrow> sc_startEpoch c \<le> e \<Longrightarrow> e < sc_startEpoch c + m * EPOCHS_PER_BATCH \<Longrightarrow> epochDone L c e"
  shows "chainInv L e0 p c'"
proof (cases "0 < m")
  case True
  have wf: "chainWf c"
    using inv by (simp add: chainInv_def)
  note fr = advance_frame [OF wf ok]
  have errs: "chainErrorsOk c'"
    using inv fr by (simp add: chainInv_def chainErrorsOk_def chainErrors_def)
  have "chainGood p c' \<and> chainCovers L e0 c'" if alive: "loopAlive (sc_loop c)"
  proof -
    from inv alive obtain n where con: "consecutive c" and n: "orderedAt n c" "processingAt n c = p"
      by (auto simp: chainInv_def chainGood_def)
    from advance_good [OF wf ok con n(1) True] n(2) have "chainGood p c'" "addresses c' = drop m (addresses c)"
      by (auto simp: chainGood_def)
    moreover have "epochDone L c' x" if "epochDone L c x" for x
      using that fr by (simp add: epochDone_def)
    moreover have "statusAt c' x = statusAt c x" for x
      using fr by (simp add: statusAt_def)
    moreover have "e0 \<le> x \<Longrightarrow> x < sc_startEpoch c' \<Longrightarrow> epochDone L c x" for x
      using e [OF alive, of x] inv alive fr by (cases "x < sc_startEpoch c") (auto simp: chainInv_def chainCovers_def)
    ultimately show ?thesis
      using inv alive fr by (auto simp: chainInv_def chainCovers_def dest: in_set_dropD)
  qed
  with errs advance_wf [OF wf ok] fr show ?thesis
    by (simp add: chainInv_def)
next
  case False
  with ok inv show ?thesis by (simp add: advanceChain_def)
qed

end
