(* ===== verification/SyncChainSegment.thy ===== *)
theory SyncChainSegment
  imports SyncChainSpec
begin

text \<open>
  The outcome of a segment of blocks: an accepted one, and one that failed after which the chain goes back, keep the
  invariant of \<open>SyncChainSpec\<close>, or leave the error of a limit.
\<close>

section \<open>The segment in processing\<close>

lemma awaiting_done:
  assumes con: "consecutive c" and n: "orderedAt n c" and cov: "chainCovers L e0 c" and wf: "chainWf c"
    and e: "sc_startEpoch c \<le> e" "e < sc_startEpoch c + n * EPOCHS_PER_BATCH"
  shows "epochDone L c e"
proof -
  let ?i = "(e - sc_startEpoch c) div EPOCHS_PER_BATCH"
  have pos: "0 < EPOCHS_PER_BATCH"
    by (simp add: EPOCHS_PER_BATCH_def)
  have "e - sc_startEpoch c < n * EPOCHS_PER_BATCH"
    using e by auto
  then have i: "?i < n"
    by (simp add: less_mult_imp_div_less)
  with n have len: "?i < length (sc_batches c)"
    by (simp add: orderedAt_def)
  then have "statusAt c (addresses c ! ?i) = AwaitingValidation"
    using n i by (simp add: orderedAt_def)
  moreover have "addresses c ! ?i \<in> set (addresses c)"
    using len by (simp add: addresses_def)
  ultimately obtain blocks where b: "(sb_startEpoch (sc_store c ! (addresses c ! ?i)), blocks) \<in> set (sc_accepted c)"
    using cov by (auto simp: chainCovers_def)
  have "sc_batches c ! ?i \<in> set (sc_batches c)"
    using len by simp
  then have "sb_startEpoch (sc_store c ! (addresses c ! ?i)) = fst (sc_batches c ! ?i)"
    using wf len by (auto simp: chainWf_def addresses_def case_prod_unfold)
  also have "\<dots> = sc_startEpoch c + ?i * EPOCHS_PER_BATCH"
    using con len by (simp add: consecutive_def)
  finally have s: "sb_startEpoch (sc_store c ! (addresses c ! ?i)) = sc_startEpoch c + ?i * EPOCHS_PER_BATCH" .
  have "?i * EPOCHS_PER_BATCH + (e - sc_startEpoch c) mod EPOCHS_PER_BATCH = e - sc_startEpoch c"
    by simp
  moreover have "(e - sc_startEpoch c) mod EPOCHS_PER_BATCH < EPOCHS_PER_BATCH"
    using pos by simp
  ultimately have "sc_startEpoch c + ?i * EPOCHS_PER_BATCH \<le> e" "e < sc_startEpoch c + ?i * EPOCHS_PER_BATCH + EPOCHS_PER_BATCH"
    using e(1) by linarith+
  then show ?thesis
    using b s con by (force simp: epochDone_def consecutive_def)
qed

text \<open>The batch in processing comes right after those that await their validation.\<close>

lemma processing_index:
  assumes inv: "chainInv L e0 (Some a) c" and alive: "loopAlive (sc_loop c)"
  obtains m where "sb_startEpoch (sc_store c ! a) = sc_startEpoch c + m * EPOCHS_PER_BATCH" "a < length (sc_store c)"
    "a \<notin> set (sc_inFlight c)" "statusAt c a = Processing" "a \<in> set (addresses c)"
    "\<And>e. sc_startEpoch c \<le> e \<Longrightarrow> e < sc_startEpoch c + m * EPOCHS_PER_BATCH \<Longrightarrow> epochDone L c e"
    "\<forall>(k, x) \<in> set (sc_batches c). statusAt c x = AwaitingValidation \<longleftrightarrow> k < sc_startEpoch c + m * EPOCHS_PER_BATCH"
    "orderedAt m c" "addresses c ! m = a" "m < length (sc_batches c)" "consecutive c"
proof -
  from inv alive obtain m where wf: "chainWf c" and con: "consecutive c" and m: "orderedAt m c" "processingAt m c = Some a"
    and cov: "chainCovers L e0 c"
    by (auto simp: chainInv_def chainGood_def)
  from m(2) have len: "m < length (sc_batches c)" and a: "addresses c ! m = a" "statusAt c a = Processing"
    by (auto simp: processingAt_def split: if_splits)
  have mem: "(fst (sc_batches c ! m), a) \<in> set (sc_batches c)"
    using len a(1) by (metis addresses_def nth_map nth_mem prod.collapse)
  then have al: "a < length (sc_store c)" "sb_startEpoch (sc_store c ! a) = fst (sc_batches c ! m)"
    using wf by (auto simp: chainWf_def)
  have fl: "a \<notin> set (sc_inFlight c)"
    using inFlight_status [OF inv] a(2) by force
  have all: "\<forall>(k, x) \<in> set (sc_batches c). statusAt c x = AwaitingValidation \<longleftrightarrow> k < sc_startEpoch c + m * EPOCHS_PER_BATCH"
  proof clarify
    fix k x assume "(k, x) \<in> set (sc_batches c)"
    then obtain i where i: "i < length (sc_batches c)" "sc_batches c ! i = (k, x)"
      by (auto simp: in_set_conv_nth)
    then have "statusAt c x = AwaitingValidation \<longleftrightarrow> i < m" "k = sc_startEpoch c + i * EPOCHS_PER_BATCH"
      using m(1) con by (auto simp: orderedAt_def addresses_def consecutive_def dest: spec [of _ i])
    then show "statusAt c x = AwaitingValidation \<longleftrightarrow> k < sc_startEpoch c + m * EPOCHS_PER_BATCH"
      by (simp add: EPOCHS_PER_BATCH_def)
  qed
  show thesis
  proof (rule that [of m])
    show "sb_startEpoch (sc_store c ! a) = sc_startEpoch c + m * EPOCHS_PER_BATCH"
      using al con len by (simp add: consecutive_def)
    show "a \<in> set (addresses c)"
      using mem by (force simp: addresses_def)
    show "\<And>e. sc_startEpoch c \<le> e \<Longrightarrow> e < sc_startEpoch c + m * EPOCHS_PER_BATCH \<Longrightarrow> epochDone L c e"
      by (rule awaiting_done [OF con m(1) cov wf])
  qed (use al fl a all m(1) len con in auto)
qed

lemma orderedAtD: "orderedAt n c \<Longrightarrow> i < length (sc_batches c) \<Longrightarrow>
    (statusAt c (addresses c ! i) = AwaitingValidation \<longleftrightarrow> i < n) \<and> (statusAt c (addresses c ! i) = Processing \<longrightarrow> i = n)"
  by (simp add: orderedAt_def)

lemma processing_done:
  assumes inv: "chainInv L e0 (Some a) c" and alive: "loopAlive (sc_loop c)"
    and b: "sb_startEpoch b = sb_startEpoch (sc_store c ! a)" and p: "p = (if batchStatus b = Processing then Some a else None)"
    and st: "batchStatus b = AwaitingValidation \<Longrightarrow> \<exists>blocks. (sb_startEpoch b, blocks) \<in> set (sc_accepted c)"
      "batchStatus b \<in> {AwaitingValidation, AwaitingDownload, Processing}"
  shows "chainInv L e0 p (putBatch a b c)"
proof -
  obtain m where al: "a < length (sc_store c)" "a \<notin> set (sc_inFlight c)" and m: "orderedAt m c" "addresses c ! m = a"
    "m < length (sc_batches c)" "consecutive c" "statusAt c a = Processing"
    by (rule processing_index [OF inv alive]) blast
  let ?c = "putBatch a b c"
  have wf: "chainWf ?c"
    using inv al b by (intro putBatch_wf) (simp_all add: chainInv_def)
  have dist: "distinct (addresses c)" and len: "length (addresses c) = length (sc_batches c)"
    using inv by (simp_all add: chainInv_def chainWf_def addresses_def)
  have sti: "statusAt ?c (addresses c ! i) = (if i = m then batchStatus b else statusAt c (addresses c ! i))"
    if "i < length (sc_batches c)" for i
    using that m(2,3) al(1) dist len by (auto simp: putBatch_status nth_eq_iff_index_eq)
  have con: "consecutive ?c"
    using m(4) by (simp add: consecutive_def)
  have good: "chainGood p ?c"
  proof (cases "batchStatus b = AwaitingValidation")
    case True
    have at: "(statusAt ?c (addresses c ! i) = AwaitingValidation \<longleftrightarrow> i < Suc m) \<and> statusAt ?c (addresses c ! i) \<noteq> Processing"
      if i: "i < length (sc_batches c)" for i
    proof (cases "i = m")
      case False
      then have "(statusAt c (addresses c ! i) = AwaitingValidation \<longleftrightarrow> i < m) \<and> statusAt c (addresses c ! i) \<noteq> Processing"
        using orderedAtD [OF m(1) i] by blast
      with sti [OF i] False show ?thesis by auto
    qed (use sti [OF i] True in simp)
    then have "orderedAt (Suc m) ?c" "processingAt (Suc m) ?c = None"
      using m(3) by (simp_all add: orderedAt_def processingAt_def)
    with con p True show ?thesis
      by (auto simp: chainGood_def)
  next
    case False
    have "orderedAt m ?c"
      unfolding orderedAt_def
    proof (intro conjI allI impI)
      show "m \<le> length (sc_batches ?c)"
        using m(3) by simp
    next
      fix i assume "i < length (sc_batches ?c)"
      then have i: "i < length (sc_batches c)" by simp
      show "(statusAt ?c (addresses ?c ! i) = AwaitingValidation) = (i < m)" "statusAt ?c (addresses ?c ! i) = Processing \<Longrightarrow> i = m"
        using sti [OF i] orderedAtD [OF m(1) i] False unfolding putBatch_fields by (metis less_irrefl)+
    qed
    moreover have "processingAt m ?c = p"
      using sti [OF m(3)] m(2,3) p by (simp add: processingAt_def)
    ultimately show ?thesis
      using con by (auto simp: chainGood_def)
  qed
  have cov: "chainCovers L e0 ?c"
  proof -
    have "chainCovers L e0 c"
      using inv alive by (simp add: chainInv_def)
    moreover have "epochDone L ?c e = epochDone L c e" for e
      by (simp add: epochDone_def)
    ultimately show ?thesis
      using st(1) al(1) by (auto simp: chainCovers_def putBatch_status nth_list_update split: if_splits)
  qed
  have "chainErrorsOk ?c = chainErrorsOk c"
    by (simp add: chainErrorsOk_def chainErrors_def)
  with inv wf good cov show ?thesis
    by (simp add: chainInv_def)
qed

text \<open>A failure counts as an attempt: the batch is downloaded again, or the limit ends the chain.\<close>

lemma attempt_counted:
  assumes "(r, b') = (if isExecutionError e then onExecutionEngineError x b else onProcessingError x b)"
  shows "sb_startEpoch b' = sb_startEpoch b \<and> (case r of Inr _ \<Rightarrow> batchStatus b' = AwaitingDownload
    | Inl be \<Rightarrow> batchStatus b' = batchStatus b \<and> limitError (BatchErr be))"
  using assms by (auto simp: onExecutionEngineError_def onProcessingError_def Let_def batchStatus_def batchErrorType_def
      limitError_def split: if_splits)

lemma processingError_result:
  assumes "processingError e b = (r, b')" "batchStatus b = Processing"
  shows "sb_startEpoch b' = sb_startEpoch b \<and> (case r of Inr _ \<Rightarrow> batchStatus b' = AwaitingDownload
    | Inl be \<Rightarrow> batchStatus b' = Processing \<and> limitError (BatchErr be))"
proof -
  from assms(2) obtain x where "sb_state b = BeingProcessed x"
    by (cases "sb_state b") (simp_all add: batchStatus_def)
  with assms have "(r, b') = (if isExecutionError e then onExecutionEngineError x b else onProcessingError x b)"
    by (simp add: processingError_def)
  from attempt_counted [OF this] assms(2) show ?thesis by (simp split: sum.splits)
qed

lemma validationError_result:
  assumes "validationError e b = (r, b')" "batchStatus b = AwaitingValidation"
  shows "sb_startEpoch b' = sb_startEpoch b \<and> (case r of Inr _ \<Rightarrow> batchStatus b' = AwaitingDownload
    | Inl be \<Rightarrow> batchStatus b' = AwaitingValidation \<and> limitError (BatchErr be))"
proof -
  from assms(2) obtain x where "sb_state b = InValidationQueue x"
    by (cases "sb_state b") (simp_all add: batchStatus_def)
  with assms have "(r, b') = (if isExecutionError e then onExecutionEngineError x b else onProcessingError x b)"
    by (simp add: validationError_def)
  from attempt_counted [OF this] assms(2) show ?thesis by (simp split: sum.splits)
qed

lemma processingSuccess_result:
  assumes "batchStatus b = Processing"
  obtains b' where "processingSuccess b = (Inr (), b')" "sb_startEpoch b' = sb_startEpoch b" "batchStatus b' = AwaitingValidation"
  using assms by (cases "sb_state b") (auto simp: processingSuccess_def batchStatus_def)

text \<open>Going back: every batch before the failed one is downloaded again, unless a limit is reached.\<close>

definition wentBack :: "epoch \<Rightarrow> nat list \<Rightarrow> 'b sync_chain \<Rightarrow> sync_error + unit \<Rightarrow> 'b sync_chain \<Rightarrow> bool" where
  "wentBack s as c r c' \<longleftrightarrow>
    c' = c\<lparr>sc_store := sc_store c'\<rparr> \<and> length (sc_store c') = length (sc_store c) \<and>
    (\<forall>x. sb_startEpoch (sc_store c' ! x) = sb_startEpoch (sc_store c ! x)) \<and>
    (\<forall>x. x \<notin> set as \<or> \<not> sb_startEpoch (sc_store c ! x) < s \<longrightarrow> sc_store c' ! x = sc_store c ! x) \<and>
    (\<forall>x \<in> set as. sb_startEpoch (sc_store c ! x) < s \<longrightarrow> statusAt c' x \<in> {AwaitingValidation, AwaitingDownload} \<and>
      (r = Inr () \<longrightarrow> statusAt c' x = AwaitingDownload)) \<and> (\<forall>e. r = Inl e \<longrightarrow> limitError e)"

lemma invalidateBefore_result:
  assumes "invalidateBefore err s as c = (r, c')" "distinct as"
    and "\<forall>a \<in> set as. a < length (sc_store c) \<and> (sb_startEpoch (sc_store c ! a) < s \<longrightarrow> statusAt c a = AwaitingValidation)"
  shows "wentBack s as c r c'"
  using assms
proof (induction as arbitrary: c)
  case (Cons a as)
  show ?case
  proof (cases "sb_startEpoch (sc_store c ! a) < s")
    case False
    with Cons.prems have "invalidateBefore err s as c = (r, c')" by simp
    from Cons.IH [OF this] Cons.prems False show ?thesis
      by (simp add: wentBack_def)
  next
    case True
    have a: "a < length (sc_store c)" "batchStatus (sc_store c ! a) = AwaitingValidation"
      using Cons.prems(3) True by (simp_all add: statusAt_def)
    obtain q b where v: "validationError err (sc_store c ! a) = (q, b)" by fastforce
    note res = validationError_result [OF v a(2)]
    let ?c1 = "putBatch a b c"
    show ?thesis
    proof (cases q)
      case (Inl be)
      then have "r = Inl (BatchErr be)" "c' = ?c1"
        using Cons.prems(1) True v by (simp_all add: bind_st_def onBatch_eq)
      with res a Inl True Cons.prems(3) show ?thesis
        by (auto simp: wentBack_def putBatch_def nth_list_update statusAt_def)
    next
      case (Inr u)
      then have rest: "invalidateBefore err s as ?c1 = (r, c')"
        using Cons.prems(1) True v by (simp add: bind_st_def onBatch_eq)
      have st: "sb_startEpoch (sc_store ?c1 ! x) = sb_startEpoch (sc_store c ! x)" for x
        using res a by (cases "x = a") simp_all
      have other: "sc_store ?c1 ! x = sc_store c ! x" if "x \<notin> set (a # as) \<or> \<not> sb_startEpoch (sc_store c ! x) < s" for x
        using that True by (cases "x = a") auto
      have len: "length (sc_store ?c1) = length (sc_store c)"
        by simp
      have ih: "wentBack s as ?c1 r c'"
        using Cons.prems(2,3) by (intro Cons.IH [OF rest]) (auto simp: statusAt_def nth_list_update split: if_splits)
      have c': "c' = c\<lparr>sc_store := sc_store c'\<rparr>"
        using ih by (cases c) (simp add: wentBack_def putBatch_def)
      have "sc_store c' ! a = b"
        using ih Cons.prems(2) a by (simp add: wentBack_def)
      then have "statusAt c' a = AwaitingDownload"
        using res Inr by (simp add: statusAt_def)
      with ih c' st other len Cons.prems(2) True show ?thesis
        unfolding wentBack_def by (auto simp del: putBatch_fields)
    qed
  qed
qed (auto simp: wentBack_def)

lemma no_processing:
  assumes "chainGood None c" "a \<in> set (addresses c)"
  shows "statusAt c a \<noteq> Processing"
proof
  assume p: "statusAt c a = Processing"
  from assms(2) obtain i where i: "i < length (sc_batches c)" "addresses c ! i = a"
    by (auto simp: in_set_conv_nth addresses_def)
  from assms(1) obtain n where n: "orderedAt n c" "processingAt n c = None"
    by (auto simp: chainGood_def)
  from orderedAtD [OF n(1) i(1)] i p have "i = n" by simp
  with n(2) i p show False
    by (simp add: processingAt_def)
qed

lemma wentBack_inv:
  assumes inv: "chainInv L e0 None c" and alive: "loopAlive (sc_loop c)" and w: "wentBack s (addresses c) c r c'"
    and av: "\<forall>a \<in> set (addresses c). statusAt c a = AwaitingValidation \<longleftrightarrow> sb_startEpoch (sc_store c ! a) < s"
  shows "chainWf c' \<and> chainErrorsOk c' \<and> sc_loop c' = sc_loop c \<and> (r = Inr () \<longrightarrow> chainInv L e0 None c')"
proof -
  have c': "c' = c\<lparr>sc_store := sc_store c'\<rparr>" and st: "\<And>x. sb_startEpoch (sc_store c' ! x) = sb_startEpoch (sc_store c ! x)"
    and other: "\<And>x. x \<notin> set (addresses c) \<or> \<not> sb_startEpoch (sc_store c ! x) < s \<Longrightarrow> sc_store c' ! x = sc_store c ! x"
    and len: "length (sc_store c') = length (sc_store c)"
    using w by (auto simp: wentBack_def)
  have fields: "sc_batches c' = sc_batches c" "sc_inFlight c' = sc_inFlight c" "sc_loop c' = sc_loop c"
    "sc_batchProcessor c' = sc_batchProcessor c" "sc_startEpoch c' = sc_startEpoch c" "sc_accepted c' = sc_accepted c"
    "sc_epochsPerBatch c' = sc_epochsPerBatch c" "addresses c' = addresses c"
    by (subst c', simp add: addresses_def)+
  have wf: "chainWf c" and errs: "chainErrorsOk c" and good: "chainGood None c" and cov: "chainCovers L e0 c"
    using inv alive by (auto simp: chainInv_def)
  have fl: "statusAt c' x = Downloading" if x: "x \<in> set (sc_inFlight c)" for x
  proof -
    have "statusAt c x = Downloading"
      using inFlight_status [OF inv x] by simp
    with av have "x \<notin> set (addresses c) \<or> \<not> sb_startEpoch (sc_store c ! x) < s"
      by force
    with \<open>statusAt c x = Downloading\<close> other show ?thesis
      by (simp add: statusAt_def)
  qed
  then have wf': "chainWf c'"
    using wf len by (simp add: chainWf_def fields st)
  have errs': "chainErrorsOk c'"
    using errs by (simp add: chainErrorsOk_def chainErrors_def fields)
  have "chainInv L e0 None c'" if r: "r = Inr ()"
  proof -
    have "statusAt c' x \<notin> {AwaitingValidation, Processing}" if x: "x \<in> set (addresses c)" for x
    proof (cases "sb_startEpoch (sc_store c ! x) < s")
      case True
      then have "statusAt c' x = AwaitingDownload"
        using w x r by (simp add: wentBack_def)
      then show ?thesis by simp
    next
      case False
      then have "statusAt c' x = statusAt c x"
        using other by (simp add: statusAt_def)
      with False av x no_processing [OF good x] show ?thesis by auto
    qed
    note free = this
    then have none: "statusAt c' (addresses c ! i) \<notin> {AwaitingValidation, Processing}" if "i < length (sc_batches c)" for i
      using that by (simp add: addresses_def)
    have "orderedAt 0 c'" "processingAt 0 c' = None"
      using none by (auto simp: orderedAt_def processingAt_def fields)
    moreover have "consecutive c'"
      using good by (simp add: chainGood_def consecutive_def fields)
    moreover have "chainCovers L e0 c'"
      using cov free by (force simp: chainCovers_def epochDone_def fields)
    ultimately show ?thesis
      using wf' errs' by (auto simp: chainInv_def chainGood_def)
  qed
  with wf' errs' fields show ?thesis by simp
qed

lemma accepted_inv:
  assumes "chainInv L e0 p c"
  shows "chainInv L e0 p (c\<lparr>sc_accepted := sc_accepted c @ [x]\<rparr>)"
proof -
  let ?c = "c\<lparr>sc_accepted := sc_accepted c @ [x]\<rparr>"
  have "statusAt ?c = statusAt c" "addresses ?c = addresses c"
    by (simp_all add: statusAt_def addresses_def fun_eq_iff)
  then have "chainWf ?c = chainWf c" "chainErrorsOk ?c = chainErrorsOk c" "chainGood p ?c = chainGood p c"
    by (simp_all add: chainWf_def chainErrorsOk_def chainErrors_def chainGood_def consecutive_def orderedAt_def processingAt_def)
  moreover have "epochDone L c e \<Longrightarrow> epochDone L ?c e" for e
    by (auto simp: epochDone_def)
  then have "chainCovers L e0 c \<Longrightarrow> chainCovers L e0 ?c"
    using \<open>statusAt ?c = statusAt c\<close> \<open>addresses ?c = addresses c\<close> by (fastforce simp: chainCovers_def)
  ultimately show ?thesis
    using assms by (simp add: chainInv_def)
qed

lemma advanceChain_at:
  assumes inv: "chainInv L e0 None c" and alive: "loopAlive (sc_loop c)"
    and av: "\<forall>(k, x) \<in> set (sc_batches c). k < sc_startEpoch c + m * EPOCHS_PER_BATCH \<longrightarrow> statusAt c x = AwaitingValidation"
    and e: "\<And>e. sc_startEpoch c \<le> e \<Longrightarrow> e < sc_startEpoch c + m * EPOCHS_PER_BATCH \<Longrightarrow> epochDone L c e"
  obtains c' where "advanceChain (sc_startEpoch c + m * EPOCHS_PER_BATCH) c = (Inr (), c')" "chainInv L e0 None c'"
    "sc_loop c' = sc_loop c" "sc_store c' = sc_store c" "set (sc_batches c') \<subseteq> set (sc_batches c)"
proof -
  have wf: "chainWf c"
    using inv by (simp add: chainInv_def)
  let ?s = "sc_startEpoch c + m * EPOCHS_PER_BATCH"
  from advanceChain_total [OF wf av] obtain c' where ok: "advanceChain ?s c = (Inr (), c')" by metis
  have "chainInv L e0 None c'"
    using e by (intro advance_inv [OF inv ok])
  moreover have "set (sc_batches c') \<subseteq> set (sc_batches c)"
  proof (cases "sc_startEpoch c < ?s")
    case True
    from advanceChain_ok [OF wf ok True] have "sc_batches c' = filter (\<lambda>(k, a). ?s \<le> k) (sc_batches c)" by metis
    then show ?thesis by auto
  next
    case False
    with ok show ?thesis by (simp add: advanceChain_def)
  qed
  ultimately show thesis
    using advance_frame [OF wf ok] by (intro that [OF ok]) simp_all
qed

lemma segment_accepted:
  assumes inv: "chainInv L e0 (Some a) c" and loop: "sc_loop c = AwaitingSegment a blocks"
    and seg: "segmentProcessed env a blocks None c = (r, c')"
  shows "r = Inr () \<and> chainInv L e0 None c' \<and> processingOf (sc_loop c') = Some a"
proof -
  let ?s = "sb_startEpoch (sc_store c ! a)"
  let ?c0 = "c\<lparr>sc_accepted := sc_accepted c @ [(?s, blocks)]\<rparr>"
  have inv0: "chainInv L e0 (Some a) ?c0"
    by (rule accepted_inv [OF inv])
  have alive: "loopAlive (sc_loop ?c0)"
    by (simp add: loop loopAlive_def)
  obtain m where i: "sb_startEpoch (sc_store ?c0 ! a) = sc_startEpoch ?c0 + m * EPOCHS_PER_BATCH" "a < length (sc_store ?c0)"
    "statusAt ?c0 a = Processing"
    and below: "\<And>e. sc_startEpoch ?c0 \<le> e \<Longrightarrow> e < sc_startEpoch ?c0 + m * EPOCHS_PER_BATCH \<Longrightarrow> epochDone L ?c0 e"
    and av: "\<forall>(k, x) \<in> set (sc_batches ?c0). statusAt ?c0 x = AwaitingValidation \<longleftrightarrow> k < sc_startEpoch ?c0 + m * EPOCHS_PER_BATCH"
    by (rule processing_index [OF inv0 alive]) blast
  from i have m: "?s = sc_startEpoch c + m * EPOCHS_PER_BATCH" "a < length (sc_store c)" "statusAt c a = Processing"
    by (simp_all add: statusAt_def)
  from m(3) obtain b where b: "processingSuccess (sc_store c ! a) = (Inr (), b)" "sb_startEpoch b = ?s" "batchStatus b = AwaitingValidation"
    using processingSuccess_result by (metis statusAt_def)
  let ?c1 = "putBatch a b ?c0"
  have inv1: "chainInv L e0 None ?c1"
    using b by (intro processing_done [OF inv0 alive]) auto
  have alive1: "loopAlive (sc_loop ?c1)"
    using alive by simp
  have "\<exists>c2. (if blocks \<noteq> [] then advanceChain ?s else ret_st ()) ?c1 = (Inr (), c2) \<and> chainInv L e0 None c2 \<and> sc_loop c2 = sc_loop c"
  proof (cases "blocks = []")
    case True
    with inv1 show ?thesis by simp
  next
    case False
    have "\<forall>(k, x) \<in> set (sc_batches ?c1). k < sc_startEpoch ?c1 + m * EPOCHS_PER_BATCH \<longrightarrow> statusAt ?c1 x = AwaitingValidation"
      using av m(2) b(3) by (auto simp: putBatch_status)
    moreover have "epochDone L ?c1 e" if "sc_startEpoch ?c1 \<le> e" "e < sc_startEpoch ?c1 + m * EPOCHS_PER_BATCH" for e
      using below [of e] that by (simp add: epochDone_def)
    ultimately obtain c2 where "advanceChain (sc_startEpoch ?c1 + m * EPOCHS_PER_BATCH) ?c1 = (Inr (), c2)" "chainInv L e0 None c2"
        "sc_loop c2 = sc_loop ?c1"
      by (rule advanceChain_at [OF inv1 alive1])
    with False m(1) show ?thesis by auto
  qed
  then obtain c2 where c2: "(if blocks \<noteq> [] then advanceChain ?s else ret_st ()) ?c1 = (Inr (), c2)" "chainInv L e0 None c2"
    "sc_loop c2 = sc_loop c" by blast
  have "segmentProcessed env a blocks None c = (Inr (), triggerBatchDownloader env (triggerBatchProcessor c2))"
    using b(1) c2(1) by (simp add: segmentProcessed_def Let_def onBatch_eq bind_st_def)
  moreover have "chainInv L e0 None (triggerBatchDownloader env (triggerBatchProcessor c2))"
    by (intro downloader_inv trigger_inv c2)
  moreover have "processingOf (sc_loop (triggerBatchDownloader env (triggerBatchProcessor c2))) = Some a"
    unfolding downloader_processing [OF trigger_inv [OF c2(2)]] trigger_processing c2(3) loop by (simp add: processingOf_def)
  ultimately show ?thesis
    using seg by auto
qed

lemma segment_failed:
  assumes inv: "chainInv L e0 (Some a) c" and loop: "sc_loop c = AwaitingSegment a blocks"
    and seg: "segmentProcessed env a blocks (Some err) c = (r, c')"
  shows "chainWf c' \<and> chainErrorsOk c' \<and> processingOf (sc_loop c') = Some a \<and> (r = Inr () \<longrightarrow> chainInv L e0 None c') \<and>
    (\<forall>e. r = Inl e \<longrightarrow> limitError e)"
proof -
  let ?s = "sb_startEpoch (sc_store c ! a)"
  have alive: "loopAlive (sc_loop c)"
    by (simp add: loop loopAlive_def)
  obtain m where m: "?s = sc_startEpoch c + m * EPOCHS_PER_BATCH" "a < length (sc_store c)" "statusAt c a = Processing"
    and below: "\<And>e. sc_startEpoch c \<le> e \<Longrightarrow> e < sc_startEpoch c + m * EPOCHS_PER_BATCH \<Longrightarrow> epochDone L c e"
    and av: "\<forall>(k, x) \<in> set (sc_batches c). statusAt c x = AwaitingValidation \<longleftrightarrow> k < sc_startEpoch c + m * EPOCHS_PER_BATCH"
    by (rule processing_index [OF inv alive]) blast
  obtain q b where p: "processingError err (sc_store c ! a) = (q, b)" by fastforce
  have res: "sb_startEpoch b = ?s \<and> (case q of Inr _ \<Rightarrow> batchStatus b = AwaitingDownload
      | Inl be \<Rightarrow> batchStatus b = Processing \<and> limitError (BatchErr be))"
    using m(3) by (intro processingError_result [OF p]) (simp add: statusAt_def)
  let ?c1 = "putBatch a b c"
  show ?thesis
  proof (cases q)
    case (Inl be)
    have "chainInv L e0 (Some a) ?c1"
      using res Inl by (intro processing_done [OF inv alive]) auto
    moreover have "r = Inl (BatchErr be)" "c' = ?c1"
      using seg p Inl by (simp_all add: segmentProcessed_def Let_def onBatch_eq bind_st_def)
    ultimately show ?thesis
      using res Inl loop by (simp add: chainInv_def processingOf_def)
  next
    case (Inr u)
    have inv1: "chainInv L e0 None ?c1" and b: "batchStatus b = AwaitingDownload"
      using res Inr by (auto intro!: processing_done [OF inv alive])
    have alive1: "loopAlive (sc_loop ?c1)"
      using alive by simp
    have av1: "\<forall>(k, x) \<in> set (sc_batches ?c1). statusAt ?c1 x = AwaitingValidation \<longleftrightarrow> k < ?s"
    proof clarify
      fix k x assume x: "(k, x) \<in> set (sc_batches ?c1)"
      have "sb_startEpoch (sc_store c ! x) = k"
        using inv x by (auto simp: chainInv_def chainWf_def)
      with x av m b show "statusAt ?c1 x = AwaitingValidation \<longleftrightarrow> k < ?s"
        by (cases "x = a") (auto simp: putBatch_status)
    qed
    have "\<exists>c2. (if importedBlocks err > 0 then advanceChain ?s else ret_st ()) ?c1 = (Inr (), c2) \<and> chainInv L e0 None c2 \<and>
        sc_loop c2 = sc_loop c \<and> sc_store c2 = sc_store ?c1 \<and> set (sc_batches c2) \<subseteq> set (sc_batches ?c1)"
    proof (cases "importedBlocks err > 0")
      case False
      with inv1 show ?thesis by simp
    next
      case True
      have "\<forall>(k, x) \<in> set (sc_batches ?c1). k < sc_startEpoch ?c1 + m * EPOCHS_PER_BATCH \<longrightarrow> statusAt ?c1 x = AwaitingValidation"
        using av1 m(1) by auto
      moreover have "epochDone L ?c1 e" if "sc_startEpoch ?c1 \<le> e" "e < sc_startEpoch ?c1 + m * EPOCHS_PER_BATCH" for e
        using below [of e] that by (simp add: epochDone_def)
      ultimately obtain c2 where "advanceChain (sc_startEpoch ?c1 + m * EPOCHS_PER_BATCH) ?c1 = (Inr (), c2)" "chainInv L e0 None c2"
          "sc_loop c2 = sc_loop ?c1" "sc_store c2 = sc_store ?c1" "set (sc_batches c2) \<subseteq> set (sc_batches ?c1)"
        by (rule advanceChain_at [OF inv1 alive1])
      with True m(1) show ?thesis by auto
    qed
    then obtain c2 where c2: "(if importedBlocks err > 0 then advanceChain ?s else ret_st ()) ?c1 = (Inr (), c2)" "chainInv L e0 None c2"
      "sc_loop c2 = sc_loop c" "sc_store c2 = sc_store ?c1" "set (sc_batches c2) \<subseteq> set (sc_batches ?c1)" by blast
    have wf2: "chainWf c2"
      using c2(2) by (simp add: chainInv_def)
    have "\<forall>x \<in> set (addresses c2). statusAt c2 x = AwaitingValidation \<longleftrightarrow> sb_startEpoch (sc_store c2 ! x) < ?s"
    proof
      fix x assume "x \<in> set (addresses c2)"
      then obtain k where k: "(k, x) \<in> set (sc_batches c2)"
        by (auto simp: addresses_def)
      then have "sb_startEpoch (sc_store c2 ! x) = k"
        using wf2 by (auto simp: chainWf_def)
      with k av1 c2(4,5) show "statusAt c2 x = AwaitingValidation \<longleftrightarrow> sb_startEpoch (sc_store c2 ! x) < ?s"
        by (auto simp: statusAt_def)
    qed
    note av2 = this
    have alive2: "loopAlive (sc_loop c2)"
      using c2(3) alive by simp
    obtain q2 c3 where inval: "invalidateBefore err ?s (addresses c2) c2 = (q2, c3)" by fastforce
    have "wentBack ?s (addresses c2) c2 q2 c3"
      using wf2 av2 by (intro invalidateBefore_result [OF inval]) (auto simp: chainWf_def addresses_def)
    from wentBack_inv [OF c2(2) alive2 this av2] this
    have c3: "chainWf c3 \<and> chainErrorsOk c3 \<and> sc_loop c3 = sc_loop c2 \<and> (q2 = Inr () \<longrightarrow> chainInv L e0 None c3)"
      "\<forall>e. q2 = Inl e \<longrightarrow> limitError e"
      by (simp_all add: wentBack_def)
    have eq: "segmentProcessed env a blocks (Some err) c = (case q2 of Inl e \<Rightarrow> (Inl e, c3) | Inr _ \<Rightarrow> (Inr (), triggerBatchDownloader env c3))"
      using p Inr c2(1) inval by (simp add: segmentProcessed_def Let_def onBatch_eq bind_st_def addresses_def split: sum.splits)
    show ?thesis
    proof (cases q2)
      case (Inl e)
      with eq seg c3 c2(3) loop show ?thesis
        by (auto simp: processingOf_def)
    next
      case (Inr v)
      then have inv3: "chainInv L e0 None c3"
        using c3 by simp
      from downloader_inv [OF this] downloader_processing [OF this] Inr eq seg c3 c2(3) loop show ?thesis
        by (auto simp: processingOf_def chainInv_def)
    qed
  qed
qed

end
