(* ===== verification/SyncChainRun.thy ===== *)
theory SyncChainRun
  imports SyncChainSegment
begin

text \<open>
  Runs of a chain of the range sync: each event, whatever it brings, keeps the invariant of \<open>SyncChainSpec\<close>, so that a chain
  ends only by a limit of retries, and is synced only when every epoch up to its target is done.
\<close>

section \<open>The loop of the chain\<close>

definition chainOk :: "epoch set \<Rightarrow> epoch \<Rightarrow> 'b sync_chain \<Rightarrow> bool" where
  "chainOk L e0 c \<longleftrightarrow> chainInv L e0 (processingOf (sc_loop c)) c"

lemma chainInv_dead: "chainInv L e0 p c \<Longrightarrow> \<not> loopAlive (sc_loop c) \<Longrightarrow> chainInv L e0 p' c"
  by (simp add: chainInv_def)

lemma chainInv_sc_loop:
  assumes "chainInv L e0 p c" "loopAlive l \<Longrightarrow> loopAlive (sc_loop c)" "chainErrorsOk (c\<lparr>sc_loop := l\<rparr>)"
  shows "chainInv L e0 p (c\<lparr>sc_loop := l\<rparr>)"
proof -
  have "c\<lparr>sc_loop := l, sc_batchProcessor := sc_batchProcessor c\<rparr> = c\<lparr>sc_loop := l\<rparr>"
    by (cases c) simp
  with chainInv_loop [of L e0 p c l "sc_batchProcessor c"] assms show ?thesis
    by simp
qed

lemma chainOk_ended:
  assumes inv: "chainInv L e0 p c" and errs: "\<forall>e. err = Some e \<longrightarrow> limitError e \<and> e \<noteq> ErrorAborted"
    and c': "sc_store c' = sc_store c" "sc_batches c' = sc_batches c" "sc_inFlight c' = sc_inFlight c"
      "it_error (sc_batchProcessor c') = it_error (sc_batchProcessor c)" "sc_loop c' = LoopEnded err"
  shows "chainOk L e0 c'"
proof -
  have "chainWf c'"
    using inv by (simp add: chainInv_def chainWf_def statusAt_def addresses_def c')
  moreover have "chainErrorsOk c'"
    using inv errs by (cases err) (auto simp: chainInv_def chainErrorsOk_def chainErrors_def c')
  ultimately show ?thesis
    by (simp add: chainOk_def chainInv_def loopAlive_def c')
qed

lemma callNext_ok:
  assumes inv: "chainInv L e0 None c" and alive: "loopAlive (sc_loop c)"
  shows "chainOk L e0 (callNext c)"
proof -
  have "\<not> it_ended (sc_batchProcessor c)"
    using inv alive by (auto simp: chainInv_def chainErrorsOk_def loopAlive_def)
  then show ?thesis
    using callNext_inv [OF inv _ alive] callNext_processing [of c] by (simp add: chainOk_def)
qed

lemma syncFailed_ok:
  assumes inv: "chainInv L e0 p c" and e: "limitError e"
  shows "chainOk L e0 (syncFailed e c)" "chainOk L e0 (syncFailed e (returnTrigger c))"
  by (rule chainOk_ended [OF inv, of "if e = ErrorAborted then None else Some e"]; simp add: syncFailed_def returnTrigger_def Let_def e)+

text \<open>The body of the loop: the order of the batches is as it validates it, and it takes the first batch that is not done.\<close>

lemma startProcessing_inv:
  assumes inv: "chainInv L e0 None c" and alive: "loopAlive (sc_loop c)"
    and nxt: "getNextBatchToProcess (addressedBatches c) = Some a"
  obtains b blocks where "startProcessing f (sc_store c ! a) = (Inr blocks, b)" "chainInv L e0 (Some a) (putBatch a b c)"
    "sc_loop (putBatch a b c) = sc_loop c"
proof -
  from inv alive obtain n where wf: "chainWf c" and con: "consecutive c" and n: "orderedAt n c" "processingAt n c = None"
    and cov: "chainCovers L e0 c" and errs: "chainErrorsOk c"
    by (auto simp: chainInv_def chainGood_def)
  have len: "length (addresses c) = length (sc_batches c)"
    by (simp add: addresses_def)
  have a: "n < length (addresses c)" "addresses c ! n = a" "batchStatus (sc_store c ! a) = AwaitingProcessing"
    using nextToProcess [OF nxt [unfolded addressedBatches_eq], of n] orderedAtD [OF n(1)] len by (auto simp: statusAt_def)
  then obtain peer blocks where st: "sb_state (sc_store c ! a) = InProcessingQueue peer blocks"
    by (cases "sb_state (sc_store c ! a)") (simp_all add: batchStatus_def)
  let ?b = "(sc_store c ! a)\<lparr>sb_state := BeingProcessed \<lparr>sa_peer = peer, sa_hash = hashBlocks f blocks\<rparr>\<rparr>"
  let ?c = "putBatch a ?b c"
  have al: "a < length (sc_store c)"
  proof -
    have "a \<in> set (addresses c)"
      using a(1,2) nth_mem by metis
    with wf show ?thesis
      by (auto simp: chainWf_def addresses_def)
  qed
  have fl: "a \<notin> set (sc_inFlight c)"
    using inFlight_status [OF inv] a(3) by (force simp: statusAt_def)
  have sta: "batchStatus ?b = Processing"
    by (simp add: batchStatus_def)
  have dist: "distinct (addresses c)"
    using wf by (simp add: chainWf_def)
  have at: "statusAt ?c (addresses c ! i) = (if i = n then Processing else statusAt c (addresses c ! i))" if "i < length (sc_batches c)" for i
    using that a(1,2) al dist len sta by (auto simp: putBatch_status nth_eq_iff_index_eq)
  have "orderedAt n ?c"
    unfolding orderedAt_def
  proof (intro conjI allI impI)
    show "n \<le> length (sc_batches ?c)"
      using a(1) len by simp
  next
    fix i assume "i < length (sc_batches ?c)"
    then have i: "i < length (sc_batches c)" by simp
    show "(statusAt ?c (addresses ?c ! i) = AwaitingValidation) = (i < n)" "statusAt ?c (addresses ?c ! i) = Processing \<Longrightarrow> i = n"
      using at [OF i] orderedAtD [OF n(1) i] unfolding putBatch_fields by (metis batch_status.distinct(19) less_irrefl)+
  qed
  moreover have "processingAt n ?c = Some a"
    using at [of n] a len by (simp add: processingAt_def)
  moreover have "consecutive ?c"
    using con by (simp add: consecutive_def)
  moreover have "chainCovers L e0 ?c"
    using cov al sta by (auto simp: chainCovers_def epochDone_def putBatch_status nth_list_update split: if_splits)
  moreover have "chainWf ?c"
    using al fl by (intro putBatch_wf [OF wf]) simp_all
  moreover have "chainErrorsOk ?c"
    using errs by (simp add: chainErrorsOk_def chainErrors_def)
  ultimately have "chainInv L e0 (Some a) ?c"
    by (auto simp: chainInv_def chainGood_def)
  then show thesis
    by (rule that [rotated]) (simp_all add: startProcessing_def st)
qed

lemma loopBody_ok:
  assumes inv: "chainInv L e0 None c" and loop: "sc_loop c = NextResolved"
  shows "chainOk L e0 (loopBody env c)"
proof -
  have alive: "loopAlive (sc_loop c)"
    by (simp add: loop loopAlive_def)
  have valid: "validateBatchesStatus (chainBatches c) = Inr ()"
    using inv alive ordered_validates by (auto simp: chainInv_def chainGood_def)
  have ended: "chainOk L e0 (syncEnded (returnTrigger c))"
    by (rule chainOk_ended [OF inv, of None]) (simp_all add: syncEnded_def returnTrigger_def)
  show ?thesis
  proof (cases "getNextBatchToProcess (addressedBatches c)")
    case None
    with valid ended callNext_ok [OF inv alive] show ?thesis
      by (simp add: loopBody_def Let_def)
  next
    case (Some a)
    obtain b blocks where b: "startProcessing (se_rootOf env) (sc_store c ! a) = (Inr blocks, b)" "chainInv L e0 (Some a) (putBatch a b c)"
      by (rule startProcessing_inv [OF inv alive Some])
    let ?c = "(putBatch a b c)\<lparr>sc_loop := AwaitingSegment a blocks\<rparr>"
    have "chainInv L e0 (Some a) ?c"
      using b(2) loop alive by (intro chainInv_sc_loop) (auto simp: chainInv_def chainErrorsOk_def chainErrors_def)
    then have "chainOk L e0 ?c"
      by (simp add: chainOk_def processingOf_def)
    with valid ended callNext_ok [OF inv alive] Some b(1) show ?thesis
      by (simp add: loopBody_def Let_def onBatch_eq)
  qed
qed

lemma continueLoop_ok:
  assumes ok: "chainOk L e0 c"
  shows "chainOk L e0 (continueLoop env c)"
proof (cases "sc_loop c")
  case NextResolved
  with ok loopBody_ok [of L e0 c] show ?thesis
    by (simp add: chainOk_def continueLoop_def processingOf_def)
next
  case (NextThrown e)
  with ok have "chainInv L e0 None c" "limitError e"
    by (auto simp: chainOk_def processingOf_def chainInv_def chainErrorsOk_def chainErrors_def)
  with NextThrown syncFailed_ok(1) show ?thesis
    by (simp add: continueLoop_def)
next
  case NextDone
  with ok show ?thesis
    by (simp add: chainOk_def chainInv_def chainErrorsOk_def)
next
  case (SegmentDone outcome)
  show ?thesis
  proof (cases outcome)
    case (Inl e)
    with ok SegmentDone have "chainInv L e0 None c" "limitError e"
      by (auto simp: chainOk_def processingOf_def chainInv_def chainErrorsOk_def chainErrors_def)
    with SegmentDone Inl syncFailed_ok(2) show ?thesis
      by (simp add: continueLoop_def)
  next
    case (Inr u)
    with ok SegmentDone callNext_ok [of L e0 c] show ?thesis
      by (simp add: chainOk_def processingOf_def loopAlive_def continueLoop_def)
  qed
qed (use ok in \<open>simp_all add: continueLoop_def\<close>)

section \<open>Every event keeps the chain in order\<close>

lemma segment_ok:
  assumes ok: "chainOk L e0 c" and loop: "sc_loop c = AwaitingSegment a blocks"
    and seg: "segmentProcessed env a blocks err c = (r, c')"
  shows "chainOk L e0 (c'\<lparr>sc_loop := SegmentDone r\<rparr>)"
proof -
  have inv: "chainInv L e0 (Some a) c"
    using ok loop by (simp add: chainOk_def processingOf_def)
  have res: "chainWf c' \<and> chainErrorsOk c' \<and> processingOf (sc_loop c') = Some a \<and> (r = Inr () \<longrightarrow> chainInv L e0 None c') \<and>
    (\<forall>e. r = Inl e \<longrightarrow> limitError e)"
  proof (cases err)
    case None
    with segment_accepted [OF inv loop] seg show ?thesis
      by (auto simp: chainInv_def)
  next
    case (Some e)
    with segment_failed [OF inv loop] seg show ?thesis by simp
  qed
  then obtain b where loop': "sc_loop c' = AwaitingSegment a b"
    by (auto simp: processingOf_def split: loop_state.splits)
  let ?c = "c'\<lparr>sc_loop := SegmentDone r\<rparr>"
  have errs: "chainErrorsOk ?c"
    using res loop' by (cases r) (auto simp: chainErrorsOk_def chainErrors_def)
  have "chainInv L e0 None ?c"
  proof (cases r)
    case (Inl e)
    have "chainWf ?c"
      using res by (simp add: chainWf_def statusAt_def addresses_def)
    with errs Inl show ?thesis
      by (simp add: chainInv_def loopAlive_def)
  next
    case (Inr u)
    with res errs loop' show ?thesis
      by (intro chainInv_sc_loop) (simp_all add: loopAlive_def)
  qed
  then show ?thesis
    by (simp add: chainOk_def processingOf_def)
qed

lemma chainOk_frame:
  assumes "chainOk L e0 c"
    and "sc_store c' = sc_store c" "sc_batches c' = sc_batches c" "sc_inFlight c' = sc_inFlight c" "sc_loop c' = sc_loop c"
    "sc_batchProcessor c' = sc_batchProcessor c" "sc_startEpoch c' = sc_startEpoch c"
    "sc_epochsPerBatch c' = sc_epochsPerBatch c" "sc_accepted c' = sc_accepted c"
  shows "chainOk L e0 c'"
  using assms chainInv_frame [of c' c L e0 "processingOf (sc_loop c)"] by (simp add: chainOk_def)

lemma downloader_ok: "chainOk L e0 c \<Longrightarrow> chainOk L e0 (triggerBatchDownloader env c)"
  unfolding chainOk_def by (metis downloader_inv downloader_processing)

lemma trigger_ok: "chainOk L e0 c \<Longrightarrow> chainOk L e0 (triggerBatchProcessor c)"
  by (simp add: chainOk_def trigger_inv)

lemma end_ok: "chainOk L e0 c \<Longrightarrow> limitError e \<Longrightarrow> chainOk L e0 (endBatchProcessor (Some e) c)"
  by (simp add: chainOk_def end_inv)

lemma computeTarget_frame:
  "sc_store (computeTarget env c) = sc_store c" "sc_batches (computeTarget env c) = sc_batches c"
  "sc_inFlight (computeTarget env c) = sc_inFlight c" "sc_loop (computeTarget env c) = sc_loop c"
  "sc_batchProcessor (computeTarget env c) = sc_batchProcessor c" "sc_startEpoch (computeTarget env c) = sc_startEpoch c"
  "sc_epochsPerBatch (computeTarget env c) = sc_epochsPerBatch c" "sc_accepted (computeTarget env c) = sc_accepted c"
  "sc_status (computeTarget env c) = sc_status c" "sc_sent (computeTarget env c) = sc_sent c"
  by (simp_all add: computeTarget_def split: option.splits)

lemma addPeer_ok: "chainOk L e0 c \<Longrightarrow> chainOk L e0 (sc_addPeer env p t c)"
  unfolding sc_addPeer_def by (intro downloader_ok) (erule chainOk_frame, simp_all add: computeTarget_frame)

lemma removePeer_ok: "chainOk L e0 c \<Longrightarrow> chainOk L e0 (snd (sc_removePeer env p c))"
  unfolding sc_removePeer_def snd_conv by (erule chainOk_frame) (simp_all add: computeTarget_frame)

lemma aligned_epoch: "s \<le> lf \<Longrightarrow>
    nat (int s + (int lf - int s) div int EPOCHS_PER_BATCH * int EPOCHS_PER_BATCH) = s + (lf - s) div EPOCHS_PER_BATCH * EPOCHS_PER_BATCH"
  by (simp add: EPOCHS_PER_BATCH_def nat_add_distrib nat_mult_distrib flip: of_nat_diff zdiv_int)

lemma startSyncing_ok:
  assumes ok: "chainOk L e0 c" and start: "startSyncing env lf c = (Inr (), c')"
  shows "chainOk (insert lf L) e0 c'"
proof (cases "sc_status c = ChainStopped")
  case False
  with start have "c' = c"
    by (simp add: startSyncing_def split: sync_chain_status.splits)
  with ok chainInv_mono [of L e0 _ c "insert lf L"] show ?thesis
    by (auto simp: chainOk_def)
next
  case True
  let ?c = "c\<lparr>sc_status := ChainSyncing\<rparr>"
  let ?al = "int (sc_startEpoch c) + (int lf - int (sc_startEpoch c)) div int EPOCHS_PER_BATCH * int EPOCHS_PER_BATCH"
  from True start obtain c1 where adv: "advanceChain (nat ?al) ?c = (Inr (), c1)"
    and c': "c' = triggerBatchProcessor (triggerBatchDownloader env c1)"
    by (auto simp: startSyncing_def Let_def bind_st_eq_Inr)
  have ok1: "chainInv (insert lf L) e0 (processingOf (sc_loop ?c)) ?c"
    using chainOk_frame [OF ok, of ?c] chainInv_mono [of L e0 _ ?c "insert lf L"] by (auto simp: chainOk_def)
  have "chainInv (insert lf L) e0 (processingOf (sc_loop ?c)) c1 \<and> sc_loop c1 = sc_loop ?c"
  proof (cases "lf \<le> sc_startEpoch c")
    case True
    then have "nat ?al \<le> sc_startEpoch ?c"
      by (simp add: EPOCHS_PER_BATCH_def)
    with adv have "c1 = ?c"
      by (simp add: advanceChain_def)
    with ok1 show ?thesis by simp
  next
    case False
    let ?m = "(lf - sc_startEpoch c) div EPOCHS_PER_BATCH"
    have "nat ?al = sc_startEpoch ?c + ?m * EPOCHS_PER_BATCH"
      using False by (simp add: aligned_epoch)
    note adv1 = adv [unfolded this]
    have "epochDone (insert lf L) ?c e" if "e < sc_startEpoch ?c + ?m * EPOCHS_PER_BATCH" for e
      using that False by (auto simp: epochDone_def EPOCHS_PER_BATCH_def)
    then have "chainInv (insert lf L) e0 (processingOf (sc_loop ?c)) c1"
      by (intro advance_inv [OF ok1 adv1])
    moreover have "chainWf ?c"
      using ok1 by (simp add: chainInv_def)
    ultimately show ?thesis
      using advance_frame [OF _ adv1] by simp
  qed
  then show ?thesis
    unfolding c' by (intro trigger_ok downloader_ok) (simp add: chainOk_def)
qed

lemma batchDownloaded_ok:
  assumes ok: "chainOk L e0 c" and a: "a \<in> set (sc_inFlight c)"
  shows "chainOk L e0 (batchDownloaded env a answer c)"
proof -
  let ?p = "processingOf (sc_loop c)"
  let ?c0 = "c\<lparr>sc_inFlight := remove1 a (sc_inFlight c)\<rparr>"
  have inv: "chainInv L e0 ?p c"
    using ok by (simp add: chainOk_def)
  have al: "a < length (sc_store c)" "statusAt c a = Downloading" and dist: "distinct (sc_inFlight c)"
    using inFlight_status [OF inv a] inv by (auto simp: chainInv_def chainWf_def)
  have eqs: "statusAt ?c0 = statusAt c" "addresses ?c0 = addresses c"
    by (simp_all add: statusAt_def addresses_def fun_eq_iff)
  have "set (remove1 a (sc_inFlight c)) \<subseteq> set (sc_inFlight c)"
    by (rule set_remove1_subset)
  then have "chainWf ?c0"
    using inv dist by (auto simp: chainInv_def chainWf_def eqs)
  moreover have "chainErrorsOk ?c0 = chainErrorsOk c" "chainGood ?p ?c0 = chainGood ?p c" "chainCovers L e0 ?c0 = chainCovers L e0 c"
    by (simp_all add: chainErrorsOk_def chainErrors_def chainGood_def consecutive_def orderedAt_def processingAt_def chainCovers_def
        epochDone_def eqs)
  ultimately have inv0: "chainInv L e0 ?p ?c0"
    using inv by (simp add: chainInv_def)
  have fl: "a \<notin> set (sc_inFlight ?c0)"
    using dist by simp
  have put: "chainOk L e0 (putBatch a b ?c0)"
    if "sb_startEpoch b = sb_startEpoch (sc_store c ! a)" "batchStatus b \<notin> {AwaitingValidation, Processing}" for b
  proof -
    have "chainInv L e0 ?p (putBatch a b ?c0)"
      using that al fl by (intro putBatch_inv [OF inv0]) (simp_all add: statusAt_def)
    then show ?thesis by (simp add: chainOk_def)
  qed
  from al(2) obtain peer where st: "sb_state (sc_store c ! a) = BeingDownloaded peer"
    by (cases "sb_state (sc_store c ! a)") (simp_all add: statusAt_def batchStatus_def)
  show ?thesis
  proof (cases answer)
    case (Some blocks)
    let ?b = "(sc_store c ! a)\<lparr>sb_state := InProcessingQueue peer blocks\<rparr>"
    have "chainOk L e0 (putBatch a ?b ?c0)"
      by (rule put) (simp_all add: batchStatus_def)
    with Some st show ?thesis
      by (simp add: batchDownloaded_def Let_def downloadingSuccess_def bind_st_def onBatch_eq downloader_ok trigger_ok)
  next
    case None
    let ?b1 = "(sc_store c ! a)\<lparr>sb_failedDownloadAttempts := sb_failedDownloadAttempts (sc_store c ! a) @ [peer]\<rparr>"
    let ?b2 = "?b1\<lparr>sb_state := InDownloadQueue\<rparr>"
    have "chainOk L e0 (putBatch a ?b1 ?c0)" "chainOk L e0 (putBatch a ?b2 ?c0)"
      by (rule put; simp add: batchStatus_def st)+
    moreover have "limitError (BatchErr (batchErrorType MAX_DOWNLOAD_ATTEMPTS ?b1))"
      by (simp add: limitError_def batchErrorType_def)
    ultimately show ?thesis
      using None st by (simp add: batchDownloaded_def Let_def downloadingError_def onBatch_eq downloader_ok end_ok)
  qed
qed

lemma chainStep_ok:
  assumes ok: "chainOk L e0 c" and enabled: "chainEnabled ev c" and step: "chainStep env ev c = (Inr (), c')"
  shows "chainOk (L \<union> {lf. ev = StartSyncing lf}) e0 c'"
proof -
  have more: "chainOk (L \<union> {lf. ev = StartSyncing lf}) e0 d" if "chainOk L e0 d" for d :: "'a sync_chain"
    using that chainInv_mono [of L e0 "processingOf (sc_loop d)" d] by (auto simp: chainOk_def)
  show ?thesis
  proof (cases ev)
    case (StartSyncing lf)
    with startSyncing_ok [OF ok, of env lf c'] step have "chainOk (insert lf L) e0 c'" by simp
    moreover have "insert lf L = L \<union> {l. ev = StartSyncing l}"
      using StartSyncing by auto
    ultimately show ?thesis by simp
  next
    case StopSyncing
    have "chainOk L e0 (stopSyncing c)"
      by (rule chainOk_frame [OF ok]) (simp_all add: stopSyncing_def)
    with more [of "stopSyncing c"] StopSyncing step show ?thesis by simp
  next
    case RemoveChain
    have "chainOk L e0 (removeChain c)"
      by (simp add: removeChain_def end_ok [OF ok] limitError_def)
    with more [of "removeChain c"] RemoveChain step show ?thesis by simp
  next
    case (AddPeer p t)
    with more [OF addPeer_ok [OF ok, of env p t]] step show ?thesis by simp
  next
    case (RemovePeer p)
    with more [OF removePeer_ok [OF ok, of env p]] step show ?thesis by simp
  next
    case (Downloaded a answer)
    with more [OF batchDownloaded_ok [OF ok, of a env answer]] step enabled show ?thesis
      by (simp add: chainEnabled_def)
  next
    case (SegmentProcessed err)
    with enabled obtain a blocks where loop: "sc_loop c = AwaitingSegment a blocks"
      by (auto simp: chainEnabled_def split: loop_state.splits)
    obtain r c1 where seg: "segmentProcessed env a blocks err c = (r, c1)" by fastforce
    with more [OF segment_ok [OF ok loop seg]] step loop SegmentProcessed show ?thesis by simp
  next
    case ContinueLoop
    with more [OF continueLoop_ok [OF ok, of env]] step show ?thesis by simp
  qed
qed

definition finalizedGiven :: "'b chain_event list \<Rightarrow> epoch set" where
  "finalizedGiven evs = {lf. StartSyncing lf \<in> set evs}"

lemma new_chain_ok: "chainOk {} e0 (new_SyncChain e0 target t None)"
  by (simp add: new_SyncChain_def chainOk_def processingOf_def chainInv_def chainWf_def addresses_def chainErrorsOk_def chainErrors_def
      chainGood_def consecutive_def orderedAt_def processingAt_def chainCovers_def exI [of _ 0] linorder_not_less [symmetric])

lemma chain_run_ok: "chain_run (new_SyncChain e0 target t None) evs c \<Longrightarrow> chainOk (finalizedGiven evs) e0 c"
proof (induction rule: chain_run.induct)
  case start
  show ?case
    using new_chain_ok by (simp add: finalizedGiven_def)
next
  case (step evs c ev env c')
  have "finalizedGiven (evs @ [ev]) = finalizedGiven evs \<union> {lf. ev = StartSyncing lf}"
    by (auto simp: finalizedGiven_def)
  with chainStep_ok [OF step.IH step.hyps(2,3)] show ?case by simp
qed

section \<open>What holds of every run\<close>

text \<open>
  In a run in which no call throws: as long as the loop goes on, the batches stand in the order that
  \<open>validateBatchesStatus\<close> asks for, and when the loop ends with an error, this is the limit of attempts of a batch.
\<close>

lemma chain_run_limit:
  assumes run: "chain_run (new_SyncChain e0 target t None) evs c"
  shows "(loopAlive (sc_loop c) \<longrightarrow> validateBatchesStatus (chainBatches c) = Inr ()) \<and>
    (\<forall>e. sc_loop c = LoopEnded (Some e) \<longrightarrow> (\<exists>be. e = BatchErr be \<and>
      be_code be \<in> {MAX_DOWNLOAD_ATTEMPTS, MAX_PROCESSING_ATTEMPTS, MAX_EXECUTION_ENGINE_ERROR_ATTEMPTS}))"
proof -
  have inv: "chainInv (finalizedGiven evs) e0 (processingOf (sc_loop c)) c"
    using chain_run_ok [OF run] by (simp add: chainOk_def)
  have "validateBatchesStatus (chainBatches c) = Inr ()" if "loopAlive (sc_loop c)"
    using inv that ordered_validates by (auto simp: chainInv_def chainGood_def)
  moreover have "\<exists>be. e = BatchErr be \<and> be_code be \<in> {MAX_DOWNLOAD_ATTEMPTS, MAX_PROCESSING_ATTEMPTS, MAX_EXECUTION_ENGINE_ERROR_ATTEMPTS}"
    if l: "sc_loop c = LoopEnded (Some e)" for e
  proof -
    have "limitError e" "e \<noteq> ErrorAborted"
      using inv l by (auto simp: chainInv_def chainErrorsOk_def chainErrors_def)
    then show ?thesis
      by (auto simp: limitError_def)
  qed
  ultimately show ?thesis by blast
qed

text \<open>The first epoch that is not done, as the loop computes it\<close>

lemma lastAwaiting:
  "n \<le> length bs \<Longrightarrow> \<forall>i < length bs. batchStatus (bs ! i) = AwaitingValidation \<longleftrightarrow> i < n \<Longrightarrow>
    find (\<lambda>b. batchStatus b = AwaitingValidation) (rev bs) = (if n = 0 then None else Some (bs ! (n - 1)))"
proof (induction bs rule: rev_induct)
  case (snoc b bs)
  show ?case
  proof (cases "n = Suc (length bs)")
    case True
    then have "batchStatus b = AwaitingValidation"
      using snoc.prems(2) [rule_format, of "length bs"] by simp
    with True show ?thesis by simp
  next
    case False
    then have b: "batchStatus b \<noteq> AwaitingValidation" and n: "n \<le> length bs"
      using snoc.prems(1) snoc.prems(2) [rule_format, of "length bs"] by simp_all
    have "\<forall>i < length bs. batchStatus (bs ! i) = AwaitingValidation \<longleftrightarrow> i < n"
    proof (intro allI impI)
      fix i assume "i < length bs"
      then show "batchStatus (bs ! i) = AwaitingValidation \<longleftrightarrow> i < n"
        using snoc.prems(2) [rule_format, of i] by (simp add: nth_append)
    qed
    with snoc.IH [OF n] b n show ?thesis
      by (auto simp: nth_append)
  qed
qed simp

lemma toBeProcessed_at:
  assumes wf: "chainWf c" and con: "consecutive c" and n: "orderedAt n c"
  shows "toBeProcessedStartEpoch (chainBatches c) (sc_startEpoch c) (sc_epochsPerBatch c) = sc_startEpoch c + n * EPOCHS_PER_BATCH"
proof -
  have len: "length (addresses c) = length (sc_batches c)"
    by (simp add: addresses_def)
  have "n \<le> length (chainBatches c)"
    using n len by (simp add: orderedAt_def chainBatches_eq)
  moreover have "\<forall>i < length (chainBatches c). batchStatus (chainBatches c ! i) = AwaitingValidation \<longleftrightarrow> i < n"
    using orderedAtD [OF n] len by (auto simp: chainBatches_eq statusAt_def)
  ultimately have f: "find (\<lambda>b. batchStatus b = AwaitingValidation) (rev (chainBatches c)) =
      (if n = 0 then None else Some (chainBatches c ! (n - 1)))"
    by (rule lastAwaiting)
  show ?thesis
  proof (cases n)
    case 0
    with f show ?thesis by (simp add: toBeProcessedStartEpoch_def)
  next
    case (Suc j)
    then have j: "j < length (sc_batches c)"
      using n by (simp add: orderedAt_def)
    then have "sc_batches c ! j \<in> set (sc_batches c)" by simp
    then have "sb_startEpoch (chainBatches c ! j) = fst (sc_batches c ! j)"
      using wf j by (auto simp: chainWf_def chainBatches_eq addresses_def case_prod_unfold)
    with f Suc j con show ?thesis
      by (simp add: toBeProcessedStartEpoch_def consecutive_def algebra_simps)
  qed
qed

text \<open>
  C14. In a run in which no call has thrown: when the loop of a chain sets the status to synced, every epoch from the start of
  the chain whose first slot lies before the target is done: a call of \<open>startSyncing\<close> gave a later epoch as finalized, or
  the block processor has accepted a batch that contains it.
\<close>

theorem synced_epochs_done:
  assumes run: "chain_run (new_SyncChain e0 target t None) evs c"
    and before: "sc_status c \<noteq> ChainSynced" and after: "sc_status (continueLoop env c) = ChainSynced"
    and e: "e0 \<le> e" "computeStartSlotAtEpoch e < ct_slot (sc_target c)"
  shows "(\<exists>lf. StartSyncing lf \<in> set evs \<and> e < lf) \<or>
    (\<exists>s blocks. (s, blocks) \<in> set (sc_accepted c) \<and> s \<le> e \<and> e < s + EPOCHS_PER_BATCH)"
proof -
  have inv: "chainInv (finalizedGiven evs) e0 (processingOf (sc_loop c)) c"
    using chain_run_ok [OF run] by (simp add: chainOk_def)
  have loop: "sc_loop c = NextResolved"
  proof (cases "sc_loop c")
    case NextDone
    with inv show ?thesis by (simp add: chainInv_def chainErrorsOk_def)
  qed (use before after in \<open>auto simp: continueLoop_def callNext_def syncFailed_def returnTrigger_def Let_def split: prod.splits sum.splits if_splits\<close>)
  let ?s = "toBeProcessedStartEpoch (chainBatches c) (sc_startEpoch c) (sc_epochsPerBatch c)"
  have reached: "computeStartSlotAtEpoch ?s \<ge> ct_slot (sc_target c)"
  proof (rule ccontr)
    assume "\<not> ?thesis"
    then show False
      using before after loop
      by (auto simp: continueLoop_def loopBody_def callNext_def syncFailed_def returnTrigger_def onBatch_eq Let_def putBatch_def
          split: prod.splits sum.splits if_splits option.splits)
  qed
  from inv loop obtain n where wf: "chainWf c" and con: "consecutive c" and n: "orderedAt n c" and cov: "chainCovers (finalizedGiven evs) e0 c"
    by (auto simp: chainInv_def chainGood_def loopAlive_def)
  have less: "e < sc_startEpoch c + n * EPOCHS_PER_BATCH"
    using e(2) reached unfolding toBeProcessed_at [OF wf con n] by (simp add: computeStartSlotAtEpoch_def SLOTS_PER_EPOCH_def)
  have "epochDone (finalizedGiven evs) c e"
  proof (cases "e < sc_startEpoch c")
    case True
    with cov e(1) show ?thesis by (simp add: chainCovers_def)
  next
    case False
    with awaiting_done [OF con n cov wf] less show ?thesis by simp
  qed
  then show ?thesis
    using con by (auto simp: epochDone_def finalizedGiven_def consecutive_def)
qed

end
