(* ===== verification/SyncChainBound.thy ===== *)
theory SyncChainBound
  imports SyncChainRun
begin

text \<open>
  How often a chain asks for a batch, whether a call may throw, and the target that most peers agree on.
\<close>

section \<open>The budget of a batch\<close>

text \<open>Every request is paid by a failed attempt within the limits, or is the current one.\<close>

definition budget :: "'b sync_batch \<Rightarrow> nat" where
  "budget b = min (length (sb_failedDownloadAttempts b)) MAX_BATCH_DOWNLOAD_ATTEMPTS +
     min (length (sb_failedProcessingAttempts b)) MAX_BATCH_PROCESSING_ATTEMPTS +
     min (length (sb_executionErrorAttempts b)) MAX_BATCH_PROCESSING_ATTEMPTS +
     (if batchStatus b = AwaitingDownload then 0 else 1)"

definition requests :: "'b sync_chain \<Rightarrow> nat \<Rightarrow> nat" where
  "requests c a = count_list (map fst (sc_sent c)) a"

definition paid :: "'b sync_chain \<Rightarrow> bool" where
  "paid c \<longleftrightarrow> (\<forall>a. requests c a \<le> (if a < length (sc_store c) then budget (sc_store c ! a) else 0)) \<and>
     (\<forall>x \<in> set (sc_batches c). snd x < length (sc_store c))"

lemma paidD: "paid c \<Longrightarrow> requests c a \<le> (if a < length (sc_store c) then budget (sc_store c ! a) else 0)"
  by (simp add: paid_def)

lemma paidI: "(\<And>a. requests c a \<le> (if a < length (sc_store c) then budget (sc_store c ! a) else 0)) \<Longrightarrow>
    (\<And>x. x \<in> set (sc_batches c) \<Longrightarrow> snd x < length (sc_store c)) \<Longrightarrow> paid c"
  by (simp add: paid_def)

lemma paid_address: "paid c \<Longrightarrow> x \<in> set (sc_batches c) \<Longrightarrow> snd x < length (sc_store c)"
  by (simp add: paid_def)

definition keepsPaid :: "'b sync_chain \<Rightarrow> 'b sync_chain \<Rightarrow> bool" where
  "keepsPaid c c' \<longleftrightarrow> (paid c \<longrightarrow> paid c')"

lemma keepsPaid_refl [simp]: "keepsPaid c c"
  by (simp add: keepsPaid_def)

lemma keepsPaid_trans: "keepsPaid c c' \<Longrightarrow> keepsPaid c' c'' \<Longrightarrow> keepsPaid c c''"
  by (simp add: keepsPaid_def)

lemma keepsPaid_frame:
  "sc_store c' = sc_store c \<Longrightarrow> sc_sent c' = sc_sent c \<Longrightarrow> set (sc_batches c') \<subseteq> set (sc_batches c) \<Longrightarrow> keepsPaid c c'"
  by (auto simp: keepsPaid_def paid_def requests_def)

lemma keepsPaid_bind:
  "(\<And>c. keepsPaid c (snd (m c))) \<Longrightarrow> (\<And>x c. keepsPaid c (snd (f x c))) \<Longrightarrow> keepsPaid c (snd (bind_st m f c))"
  by (rule rel_bind_st [of keepsPaid]) (blast intro: keepsPaid_trans)+

lemma keepsPaid_modify: "(\<And>c. keepsPaid c (f c)) \<Longrightarrow> keepsPaid c (snd (modify_st f c))"
  by simp

section \<open>Methods of a batch\<close>

named_theorems budget_simps

lemma budget_downloadingSuccess [budget_simps]: "budget b \<le> budget (snd (downloadingSuccess blocks b))"
  by (auto simp: downloadingSuccess_def budget_def batchStatus_def split: batch_state.splits)

lemma budget_downloadingError [budget_simps]: "budget b \<le> budget (snd (downloadingError b))"
  by (auto simp: downloadingError_def budget_def batchStatus_def Let_def split: batch_state.splits)

lemma budget_startProcessing [budget_simps]: "budget b \<le> budget (snd (startProcessing f b))"
  by (auto simp: startProcessing_def budget_def batchStatus_def split: batch_state.splits)

lemma budget_processingSuccess [budget_simps]: "budget b \<le> budget (snd (processingSuccess b))"
  by (auto simp: processingSuccess_def budget_def batchStatus_def split: batch_state.splits)

lemma budget_attempt:
  "budget b \<le> budget (snd (if isExecutionError e then onExecutionEngineError x b else onProcessingError x b))"
  by (auto simp: onExecutionEngineError_def onProcessingError_def budget_def batchStatus_def Let_def)

lemma budget_processingError [budget_simps]: "budget b \<le> budget (snd (processingError e b))"
  using budget_attempt [of b e] by (auto simp: processingError_def split: batch_state.splits)

lemma budget_validationError [budget_simps]: "budget b \<le> budget (snd (validationError e b))"
  using budget_attempt [of b e] by (auto simp: validationError_def split: batch_state.splits)

lemma budget_validationSuccess [budget_simps]: "budget b \<le> budget (snd (validationSuccess b))"
  by (auto simp: validationSuccess_def split: batch_state.splits)

lemma putBatch_paid:
  assumes "budget (sc_store c ! a) \<le> budget b"
  shows "keepsPaid c (putBatch a b c)"
proof -
  have "paid (putBatch a b c)" if p: "paid c"
  proof (rule paidI)
    fix x
    show "requests (putBatch a b c) x \<le> (if x < length (sc_store (putBatch a b c)) then budget (sc_store (putBatch a b c) ! x) else 0)"
      using paidD [OF p, of x] assms by (cases "x = a"; cases "x < length (sc_store c)") (simp_all add: requests_def)
  qed (use paid_address [OF p] in simp)
  then show ?thesis by (simp add: keepsPaid_def)
qed

lemma onBatch_paid:
  assumes "\<And>b. budget b \<le> budget (snd (m b))"
  shows "keepsPaid c (snd (onBatch a m c))"
  using putBatch_paid [of c a "snd (m (sc_store c ! a))"] assms by (auto simp: onBatch_eq split: prod.splits sum.splits)

section \<open>Requests\<close>

lemma sendBatch_paid:
  assumes "a < length (sc_store c)" "batchStatus (sc_store c ! a) = AwaitingDownload"
  shows "keepsPaid c (sendBatch a peer c)"
proof -
  let ?b = "(sc_store c ! a)\<lparr>sb_state := BeingDownloaded peer\<rparr>"
  have b: "budget ?b = Suc (budget (sc_store c ! a))"
    using assms(2) by (simp add: budget_def batchStatus_def)
  have "paid (sendBatch a peer c)" if p: "paid c"
  proof (rule paidI)
    fix x
    show "requests (sendBatch a peer c) x \<le>
        (if x < length (sc_store (sendBatch a peer c)) then budget (sc_store (sendBatch a peer c) ! x) else 0)"
      using paidD [OF p, of x] assms b by (cases "x = a"; cases "x < length (sc_store c)")
        (simp_all add: requests_def statusAt_def sendBatch_eq)
  qed (use paid_address [OF p] assms in \<open>simp add: sendBatch_eq statusAt_def\<close>)
  then show ?thesis by (simp add: keepsPaid_def)
qed

lemma wakeLoop_paid: "keepsPaid c (wakeLoop c)"
  by (rule keepsPaid_frame) (auto simp: wakeLoop_def callNext_def split: loop_state.splits prod.splits)

lemma trigger_paid: "keepsPaid c (triggerBatchProcessor c)"
  unfolding triggerBatchProcessor_def by (rule keepsPaid_trans [OF _ wakeLoop_paid]) (rule keepsPaid_frame, simp_all)

lemma end_paid: "keepsPaid c (endBatchProcessor e c)"
  unfolding endBatchProcessor_def by (rule keepsPaid_trans [OF _ wakeLoop_paid]) (rule keepsPaid_frame, simp_all)

lemma includeNextBatch_paid:
  assumes "includeNextBatch c = (Some a, c')"
  shows "keepsPaid c c' \<and> a < length (sc_store c') \<and> batchStatus (sc_store c' ! a) = AwaitingDownload"
proof -
  from includeNextBatch_Some [OF assms] obtain k where a: "a = length (sc_store c)"
    and c': "c' = c\<lparr>sc_store := sc_store c @ [new_Batch k (sc_epochsPerBatch c)], sc_batches := sc_batches c @ [(k, a)]\<rparr>"
    by metis
  have "paid c'" if p: "paid c"
  proof (rule paidI)
    fix x
    have "requests c' x = requests c x"
      by (simp add: requests_def c')
    then show "requests c' x \<le> (if x < length (sc_store c') then budget (sc_store c' ! x) else 0)"
      using paidD [OF p, of x] by (cases "x < length (sc_store c)") (simp_all add: c' nth_append)
  next
    fix x assume "x \<in> set (sc_batches c')"
    then show "snd x < length (sc_store c')"
      using paid_address [OF p, of x] a by (auto simp: c')
  qed
  then show ?thesis
    by (simp add: keepsPaid_def a c' batchStatus_def new_Batch_def Let_def)
qed

lemma requestNextBatches_paid: "keepsPaid c (requestNextBatches peers c)"
proof (induction peers arbitrary: c)
  case (Cons peer peers)
  show ?case
  proof (cases "includeNextBatch c")
    case (Pair r c1)
    show ?thesis
    proof (cases r)
      case None
      with Pair includeNextBatch_None [of c c1] show ?thesis by simp
    next
      case (Some a)
      with includeNextBatch_paid [of c a c1] Pair
      have "keepsPaid c c1" "keepsPaid c1 (sendBatch a peer c1)"
        by (simp_all add: sendBatch_paid)
      with Cons.IH Pair Some show ?thesis
        by (auto intro: keepsPaid_trans)
    qed
  qed
qed simp

lemma retryBatch_paid: "a < length (sc_store c) \<Longrightarrow> keepsPaid c (retryBatch balancer a c)"
  by (simp add: retryBatch_def sendBatch_paid split: option.splits)

lemma retryBatches_paid: "\<forall>a \<in> set as. a < length (sc_store c) \<Longrightarrow> keepsPaid c (fold (retryBatch balancer) as c)"
proof (induction as arbitrary: c)
  case (Cons a as)
  then have "keepsPaid c (retryBatch balancer a c)" "keepsPaid (retryBatch balancer a c) (fold (retryBatch balancer) as (retryBatch balancer a c))"
    by (simp_all add: retryBatch_paid)
  then show ?case
    by (auto intro: keepsPaid_trans)
qed simp

lemma downloader_paid: "keepsPaid c (triggerBatchDownloader env c)"
proof (cases "paid c")
  case True
  have "keepsPaid c (fold (retryBatch b) (map snd (sc_batches c)) (c\<lparr>sc_shuffles := n\<rparr>))" for b n
  proof (rule keepsPaid_trans)
    show "keepsPaid c (c\<lparr>sc_shuffles := n\<rparr>)"
      by (rule keepsPaid_frame) simp_all
  next
    show "keepsPaid (c\<lparr>sc_shuffles := n\<rparr>) (fold (retryBatch b) (map snd (sc_batches c)) (c\<lparr>sc_shuffles := n\<rparr>))"
      using True by (intro retryBatches_paid) (simp add: paid_def)
  qed
  from keepsPaid_trans [OF this requestNextBatches_paid] show ?thesis
    by (simp add: triggerBatchDownloader_def requestBatches_def Let_def)
qed (simp add: keepsPaid_def)

section \<open>Steps\<close>

lemma dropBatches_paid: "keepsPaid c (snd (dropBatches s entries c))"
proof (induction entries arbitrary: c)
  case (Cons e entries)
  obtain k a where e: "e = (k, a)" by fastforce
  let ?c1 = "c\<lparr>sc_batches := jm_delete k (sc_batches c), sc_validatedEpochs := sc_validatedEpochs c + EPOCHS_PER_BATCH\<rparr>"
  have first: "keepsPaid c ?c1"
    by (rule keepsPaid_frame) (auto simp: jm_delete_filter)
  have rest: "keepsPaid c (snd (bind_st (onBatch a validationSuccess) (\<lambda>attemptOk.
      bind_st (modify_st (\<lambda>c. c\<lparr>sc_reports := sc_reports c @ r attemptOk c\<rparr>)) (\<lambda>_. dropBatches s entries)) c))" for c :: "'a sync_chain" and r
    by (intro keepsPaid_bind onBatch_paid budget_simps keepsPaid_modify) (simp_all add: Cons.IH keepsPaid_frame)
  show ?case
    using keepsPaid_trans [OF first rest] Cons.IH [of c] by (simp add: e Let_def)
qed simp

lemma advanceChain_paid: "keepsPaid c (snd (advanceChain s c))"
proof -
  have "keepsPaid c (snd (bind_st (dropBatches s bs) (\<lambda>_. modify_st (\<lambda>c. c\<lparr>sc_startEpoch := s\<rparr>)) c))" for bs
    by (intro keepsPaid_bind dropBatches_paid keepsPaid_modify) (simp add: keepsPaid_frame)
  then show ?thesis
    by (simp add: advanceChain_def)
qed

lemma invalidateBefore_paid: "keepsPaid c (snd (invalidateBefore err s as c))"
proof (induction as arbitrary: c)
  case (Cons a as)
  have "keepsPaid c (snd (bind_st (onBatch a (validationError err)) (\<lambda>_. invalidateBefore err s as) c))" for c :: "'a sync_chain"
    by (intro keepsPaid_bind onBatch_paid budget_simps) (simp add: Cons.IH)
  with Cons.IH show ?case by simp
qed simp

lemma whenever_paid: "(\<And>c. keepsPaid c (snd (m c))) \<Longrightarrow> keepsPaid c (snd ((if b then m else ret_st ()) c))"
  by simp

lemma segmentProcessed_paid: "keepsPaid c (snd (segmentProcessed env a blocks err c))"
proof (cases err)
  case None
  let ?s = "sb_startEpoch (sc_store c ! a)"
  have "keepsPaid c (snd (bind_st (onBatch a processingSuccess) (\<lambda>_. bind_st (if blocks \<noteq> [] then advanceChain s else ret_st ()) (\<lambda>_.
      modify_st (\<lambda>c. triggerBatchDownloader env (triggerBatchProcessor c)))) c))" for c s
    by (intro keepsPaid_bind onBatch_paid budget_simps whenever_paid advanceChain_paid keepsPaid_modify)
      (rule keepsPaid_trans [OF trigger_paid downloader_paid])
  moreover have "keepsPaid c (c\<lparr>sc_accepted := sc_accepted c @ [(?s, blocks)]\<rparr>)"
    by (simp add: keepsPaid_frame)
  ultimately show ?thesis
    using None unfolding segmentProcessed_def Let_def by (auto intro: keepsPaid_trans)
next
  case (Some e)
  have "keepsPaid c (snd (bind_st (onBatch a (processingError e)) (\<lambda>_. bind_st (if importedBlocks e > 0 then advanceChain s else ret_st ()) (\<lambda>_.
      bind_st (\<lambda>c. invalidateBefore e s (map snd (sc_batches c)) c) (\<lambda>_. modify_st (triggerBatchDownloader env)))) c))" for s
    by (intro keepsPaid_bind onBatch_paid budget_simps whenever_paid advanceChain_paid invalidateBefore_paid keepsPaid_modify downloader_paid)
  with Some show ?thesis
    by (simp add: segmentProcessed_def Let_def)
qed

lemma continueLoop_paid: "keepsPaid c (continueLoop env c)"
proof -
  have next_paid: "keepsPaid d (callNext d)" for d :: "'a sync_chain"
    by (rule keepsPaid_frame) (simp_all add: callNext_def split: prod.splits)
  have failed: "keepsPaid d (syncFailed e d)" "keepsPaid d (syncFailed e (returnTrigger d))" for d :: "'a sync_chain" and e
    by (rule keepsPaid_frame; simp add: syncFailed_def returnTrigger_def Let_def)+
  have ended: "keepsPaid d (syncEnded d)" "keepsPaid d (syncEnded (returnTrigger d))" for d :: "'a sync_chain"
    by (rule keepsPaid_frame; simp add: syncEnded_def returnTrigger_def)+
  have start: "keepsPaid c ((case onBatch a (startProcessing f) c of (Inl e, c1) \<Rightarrow> c1\<lparr>sc_loop := SegmentDone (Inl e)\<rparr>
      | (Inr blocks, c1) \<Rightarrow> c1\<lparr>sc_loop := AwaitingSegment a blocks\<rparr>))" for a and f :: "'a \<Rightarrow> bytes"
  proof -
    have "keepsPaid d (d\<lparr>sc_loop := l\<rparr>)" for d :: "'a sync_chain" and l
      by (simp add: keepsPaid_frame)
    moreover have "keepsPaid c (snd (onBatch a (startProcessing f) c))"
      by (intro onBatch_paid budget_simps)
    ultimately show ?thesis
      by (auto intro: keepsPaid_trans split: prod.splits sum.splits)
  qed
  have "keepsPaid c (loopBody env c)"
    using next_paid failed(2) ended(2) start by (simp add: loopBody_def Let_def split: sum.splits option.splits)
  then show ?thesis
    using next_paid failed ended by (simp add: continueLoop_def split: loop_state.splits sum.splits)
qed

lemma startSyncing_paid: "keepsPaid c (snd (startSyncing env lf c))"
proof -
  have "keepsPaid d (snd (bind_st (advanceChain s) (\<lambda>_. modify_st (\<lambda>c. triggerBatchProcessor (triggerBatchDownloader env c))) d))" for d s
    by (intro keepsPaid_bind advanceChain_paid keepsPaid_modify) (rule keepsPaid_trans [OF downloader_paid trigger_paid])
  moreover have "keepsPaid c (c\<lparr>sc_status := ChainSyncing\<rparr>)"
    by (simp add: keepsPaid_frame)
  ultimately show ?thesis
    by (auto simp: startSyncing_def Let_def intro: keepsPaid_trans split: sync_chain_status.splits)
qed

lemma batchDownloaded_paid: "keepsPaid c (batchDownloaded env a answer c)"
proof -
  let ?c0 = "c\<lparr>sc_inFlight := remove1 a (sc_inFlight c)\<rparr>"
  have first: "keepsPaid c ?c0"
    by (simp add: keepsPaid_frame)
  have answered: "keepsPaid d (snd (case answer of
      Some blocks \<Rightarrow> bind_st (onBatch a (downloadingSuccess blocks)) (\<lambda>_. modify_st triggerBatchProcessor) d
    | None \<Rightarrow> onBatch a downloadingError d))" for d
    by (cases answer) (simp_all add: onBatch_paid budget_simps keepsPaid_bind trigger_paid)
  have last: "keepsPaid d (triggerBatchDownloader env (case r of Inr u \<Rightarrow> triggerBatchDownloader env d | Inl e \<Rightarrow> endBatchProcessor (Some e) d))"
    for d and r :: "sync_error + unit"
    by (cases r) (auto intro: keepsPaid_trans downloader_paid end_paid)
  show ?thesis
    unfolding batchDownloaded_def Let_def
    using keepsPaid_trans [OF first keepsPaid_trans [OF answered last]] by (simp add: case_prod_unfold)
qed

lemma chainStep_paid: "keepsPaid c (snd (chainStep env ev c))"
proof (cases ev)
  case (AddPeer p t)
  have "keepsPaid c (computeTarget env (c\<lparr>sc_peerset := jm_set p t (sc_peerset c)\<rparr>))"
    by (rule keepsPaid_frame) (simp_all add: computeTarget_frame)
  with AddPeer show ?thesis
    by (simp add: sc_addPeer_def keepsPaid_trans [OF _ downloader_paid])
next
  case (SegmentProcessed err)
  have "keepsPaid d (d\<lparr>sc_loop := l\<rparr>)" for d :: "'a sync_chain" and l
    by (simp add: keepsPaid_frame)
  then have "keepsPaid c ((snd (segmentProcessed env a blocks err c))\<lparr>sc_loop := l\<rparr>)" for a blocks l
    by (rule keepsPaid_trans [OF segmentProcessed_paid])
  with SegmentProcessed show ?thesis
    by (simp add: case_prod_unfold Let_def split: loop_state.splits)
qed (simp_all add: startSyncing_paid stopSyncing_def keepsPaid_frame removeChain_def end_paid sc_removePeer_def computeTarget_frame
    batchDownloaded_paid continueLoop_paid)

lemma paid_new: "paid (new_SyncChain e0 target t n)"
  by (simp add: paid_def requests_def new_SyncChain_def)

lemma any_run_paid: "any_run (new_SyncChain e0 target t n) evs c \<Longrightarrow> paid c"
proof (induction rule: any_run.induct)
  case start
  show ?case by (rule paid_new)
next
  case (step evs c ev env c')
  with chainStep_paid [of c env ev] show ?case
    by (simp add: keepsPaid_def)
qed

text \<open>
  C15. However many peers fail or send blocks that are refused, and also when calls from outside throw, a batch is requested
  at most twelve times in the life of a chain: five failed downloads, three failed attempts to process it, three failures of
  the execution engine, and one more.
\<close>

theorem requests_bounded:
  assumes "any_run (new_SyncChain e0 target t n) evs c"
  shows "count_list (map fst (sc_sent c)) a \<le> 12"
proof -
  have "budget b \<le> 5 + 3 + 3 + 1" for b :: "'a sync_batch"
    unfolding budget_def MAX_BATCH_DOWNLOAD_ATTEMPTS_def MAX_BATCH_PROCESSING_ATTEMPTS_def by (intro add_mono) auto
  then have "budget (sc_store c ! a) \<le> 12" by simp
  with paidD [OF any_run_paid [OF assms], of a] show ?thesis
    by (simp add: requests_def split: if_splits)
qed

section \<open>Starting again\<close>

lemma dropBatches_throws:
  assumes "(k, a) \<in> set entries" "k < s" "statusAt c a \<noteq> AwaitingValidation"
    and "\<forall>(k, a) \<in> set entries. sb_startEpoch (sc_store c ! a) = k"
  obtains e c' where "dropBatches s entries c = (Inl e, c')"
proof (cases "dropBatches s entries c")
  case (Pair r c')
  show thesis
  proof (cases r)
    case (Inl e)
    with Pair that show ?thesis by simp
  next
    case (Inr u)
    with Pair dropBatches_ok [of s entries c c'] assms show ?thesis by auto
  qed
qed

lemma dropBatches_scalars: "sc_status (snd (dropBatches s entries c)) = sc_status c \<and> sc_startEpoch (snd (dropBatches s entries c)) = sc_startEpoch c \<and>
    sc_sent (snd (dropBatches s entries c)) = sc_sent c \<and> sc_loop (snd (dropBatches s entries c)) = sc_loop c"
  by (induction entries arbitrary: c) (auto simp: Let_def bind_st_def validate_eq split: prod.splits sum.splits batch_state.splits)

text \<open>
  C16. When a stopped chain is started again, and the finalized epoch given has passed the end of a batch that is not yet
  processed, \<open>startSyncing\<close> throws. The chain is left with the status of a syncing chain, the start where it was, and neither
  the downloader nor the processor triggered.
\<close>

theorem startSyncing_throws:
  assumes run: "chain_run (new_SyncChain e0 target t None) evs c" and stopped: "sc_status c = ChainStopped"
    and b: "(k, a) \<in> set (sc_batches c)" "k + EPOCHS_PER_BATCH \<le> lf" "statusAt c a \<noteq> AwaitingValidation"
    and alive: "loopAlive (sc_loop c)"
  shows "\<exists>e c'. startSyncing env lf c = (Inl e, c') \<and> sc_status c' = ChainSyncing \<and> sc_startEpoch c' = sc_startEpoch c \<and>
    sc_sent c' = sc_sent c \<and> sc_loop c' = sc_loop c"
proof -
  let ?c = "c\<lparr>sc_status := ChainSyncing\<rparr>"
  let ?s = "sc_startEpoch c + (lf - sc_startEpoch c) div EPOCHS_PER_BATCH * EPOCHS_PER_BATCH"
  from chain_run_ok [OF run] alive have wf: "chainWf c" and con: "consecutive c"
    by (auto simp: chainOk_def chainInv_def chainGood_def)
  from b(1) obtain i where "i < length (sc_batches c)" "sc_batches c ! i = (k, a)"
    by (auto simp: in_set_conv_nth)
  with con have k: "k = sc_startEpoch c + i * EPOCHS_PER_BATCH"
    by (auto simp: consecutive_def)
  then have "k < ?s" and less: "sc_startEpoch c < ?s" and le: "sc_startEpoch c \<le> lf"
    using b(2) by (auto simp: EPOCHS_PER_BATCH_def)
  moreover have "\<forall>(k, a) \<in> set (sc_batches c). sb_startEpoch (sc_store ?c ! a) = k"
    using wf by (auto simp: chainWf_def)
  moreover have "statusAt ?c a \<noteq> AwaitingValidation"
    using b(3) by (simp add: statusAt_def)
  ultimately obtain e c' where thrown: "dropBatches ?s (sc_batches c) ?c = (Inl e, c')"
    using dropBatches_throws [OF b(1), of ?s ?c] by metis
  have "startSyncing env lf c = (Inl e, c')"
    using stopped less thrown by (simp add: startSyncing_def Let_def aligned_epoch [OF le] advanceChain_def)
  moreover have "sc_status c' = ChainSyncing \<and> sc_startEpoch c' = sc_startEpoch c \<and> sc_sent c' = sc_sent c \<and> sc_loop c' = sc_loop c"
    using dropBatches_scalars [of ?s "sc_batches c" ?c] thrown by simp
  ultimately show ?thesis by blast
qed

section \<open>The target of a chain\<close>

definition targetVotes :: "(root \<Rightarrow> string) \<Rightarrow> chain_target list \<Rightarrow> string \<Rightarrow> nat" where
  "targetVotes toHex targets i = count_list (map (targetId toHex) targets) i"

text \<open>After the targets \<open>done_targets\<close>: their counts, and the one that was the first to reach the largest count\<close>

definition counted :: "(root \<Rightarrow> string) \<Rightarrow> chain_target list \<Rightarrow> (string, nat) jsmap \<times> chain_target \<times> nat \<Rightarrow> bool" where
  "counted toHex targets acc \<longleftrightarrow> (case acc of (m, best, n) \<Rightarrow>
     (\<forall>i. jm_get m i = (if targetVotes toHex targets i = 0 then None else Some (targetVotes toHex targets i))) \<and>
     (\<forall>i. targetVotes toHex targets i \<le> n) \<and>
     (if targets = [] then n = 0 else best \<in> set targets \<and> n = targetVotes toHex targets (targetId toHex best)))"

lemma targetVotes_snoc: "targetVotes toHex (targets @ [t]) i = targetVotes toHex targets i + (if targetId toHex t = i then 1 else 0)"
  by (simp add: targetVotes_def)

lemma countTarget_counted:
  assumes "counted toHex targets acc"
  shows "counted toHex (targets @ [t]) (countTarget toHex t acc)"
proof -
  obtain m best n where acc: "acc = (m, best, n)" by (cases acc)
  let ?i = "targetId toHex t" and ?v = "targetVotes toHex targets"
  have m: "jm_get m i = (if ?v i = 0 then None else Some (?v i))" and le: "?v i \<le> n" for i
    using assms by (simp_all add: counted_def acc)
  have count: "1 + (case jm_get m ?i of None \<Rightarrow> 0 | Some k \<Rightarrow> k) = ?v ?i + 1"
    by (simp add: m)
  have get: "jm_get (jm_set ?i (?v ?i + 1) m) i =
      (if targetVotes toHex (targets @ [t]) i = 0 then None else Some (targetVotes toHex (targets @ [t]) i))" for i
    by (simp add: targetVotes_snoc m)
  show ?thesis
  proof (cases "n < ?v ?i + 1")
    case True
    then have "targetVotes toHex (targets @ [t]) i \<le> ?v ?i + 1" for i
      using le [of i] le [of ?i] by (auto simp: targetVotes_snoc)
    with True get show ?thesis
      unfolding acc countTarget_def prod.case Let_def count by (simp add: counted_def targetVotes_snoc)
  next
    case False
    then have "targetVotes toHex (targets @ [t]) i \<le> n" for i
      using le [of i] by (auto simp: targetVotes_snoc)
    moreover have "targets \<noteq> []"
      using False assms by (auto simp: counted_def acc)
    moreover from this have "best \<in> set targets" "n = ?v (targetId toHex best)"
      using assms by (simp_all add: counted_def acc)
    moreover have "?i \<noteq> targetId toHex best"
      using False \<open>n = ?v (targetId toHex best)\<close> by auto
    ultimately show ?thesis
      using False get unfolding acc countTarget_def prod.case Let_def count by (simp add: counted_def targetVotes_snoc)
  qed
qed

lemma fold_counted: "counted toHex done_targets acc \<Longrightarrow> counted toHex (done_targets @ targets) (fold (countTarget toHex) targets acc)"
proof (induction targets arbitrary: done_targets acc)
  case (Cons t targets)
  from Cons.IH [OF countTarget_counted [OF Cons.prems, of t]] show ?case by simp
qed simp

text \<open>
  C0. The target that a chain follows is one that its peers claim, and no other is claimed by more of them; only a chain without
  peers has none.
\<close>

theorem mostCommonTarget_max:
  "case computeMostCommonTarget toHex targets of
     None \<Rightarrow> targets = []
   | Some t \<Rightarrow> t \<in> set targets \<and> (\<forall>i. count_list (map (targetId toHex) targets) i \<le>
       count_list (map (targetId toHex) targets) (targetId toHex t))"
proof (cases targets)
  case Nil
  then show ?thesis by (simp add: computeMostCommonTarget_def)
next
  case (Cons t ts)
  obtain m best n where acc: "fold (countTarget toHex) targets ([], t, 0) = (m, best, n)"
    by (cases "fold (countTarget toHex) targets ([], t, 0)")
  have "counted toHex [] ([], t, 0)"
    by (simp add: counted_def targetVotes_def)
  from fold_counted [OF this, of targets] acc have "counted toHex targets (m, best, n)" by simp
  then have "best \<in> set targets" "\<forall>i. targetVotes toHex targets i \<le> targetVotes toHex targets (targetId toHex best)"
    using Cons by (auto simp: counted_def)
  moreover have "computeMostCommonTarget toHex targets = Some best"
    using acc Cons by (simp add: computeMostCommonTarget_def)
  ultimately show ?thesis
    unfolding targetVotes_def by simp
qed

end
