(* ===== verification/SyncChainExamples.thy ===== *)
theory SyncChainExamples
  imports SyncChainBound
begin

text \<open>Concrete runs of a chain of the range sync: one that syncs, one that fails after all retries, one that is stopped.\<close>

section \<open>Computing a run\<close>

fun runChain :: "'b sync_env \<Rightarrow> 'b chain_event list \<Rightarrow> 'b sync_chain \<Rightarrow> 'b sync_chain option" where
  "runChain env [] c = Some c"
| "runChain env (ev # evs) c =
     (if chainEnabled ev c then (case chainStep env ev c of (Inr _, c') \<Rightarrow> runChain env evs c' | _ \<Rightarrow> None) else None)"

lemma runChain_from: "chain_run c0 evs0 c \<Longrightarrow> runChain env evs c = Some c' \<Longrightarrow> chain_run c0 (evs0 @ evs) c'"
proof (induction evs arbitrary: evs0 c)
  case (Cons ev evs)
  from Cons.prems(2) obtain c1 where c1: "chainEnabled ev c" "chainStep env ev c = (Inr (), c1)" "runChain env evs c1 = Some c'"
    by (auto split: if_splits prod.splits sum.splits)
  from Cons.IH [OF chain_run.step [OF Cons.prems(1) c1(1,2)] c1(3)] show ?case by simp
qed simp

lemma runChain_run: "runChain env evs c0 \<noteq> None \<Longrightarrow> chain_run c0 evs (the (runChain env evs c0))"
  using runChain_from [OF chain_run.start] by fastforce

section \<open>A world with one peer\<close>

definition syncx_env :: "nat sync_env" where
  "syncx_env = \<lparr>se_rootOf = (\<lambda>b. [word_of_nat b]), se_toHex = (\<lambda>r. replicate (length r) (CHR ''x'')), se_draw = (\<lambda>_ _. 0)\<rparr>"

definition syncx_target :: chain_target where
  "syncx_target = \<lparr>ct_slot = 40, ct_root = []\<rparr>"

definition syncx_new :: "nat sync_chain" where
  "syncx_new = new_SyncChain 0 syncx_target FinalizedSync None"

definition syncx_start :: "nat chain_event list" where
  "syncx_start = [AddPeer ''a'' syncx_target, StartSyncing 0, ContinueLoop]"

text \<open>The peer answers, the segment is accepted.\<close>

definition syncx_good :: "nat chain_event list" where
  "syncx_good = syncx_start @ [Downloaded 0 (Some [7]), ContinueLoop, SegmentProcessed None, ContinueLoop]"

text \<open>Every attempt fails, until the last limit.\<close>

definition syncx_cycle :: "segment_error \<Rightarrow> nat chain_event list" where
  "syncx_cycle e = [Downloaded 0 (Some [7]), ContinueLoop, SegmentProcessed (Some e), ContinueLoop]"

definition syncx_bad :: "nat chain_event list" where
  "syncx_bad = syncx_start @ replicate 5 (Downloaded 0 None) @ concat (replicate 3 (syncx_cycle (ChainSegmentError EXECUTION_ENGINE_ERROR 0))) @
     concat (replicate 4 (syncx_cycle (OtherSegmentError ''invalid'')))"

definition syncx_stopped :: "nat chain_event list" where
  "syncx_stopped = syncx_start @ [StopSyncing]"

definition syncx_end :: "nat chain_event list \<Rightarrow> nat sync_chain" where
  "syncx_end evs = the (runChain syncx_env evs syncx_new)"

lemma syncx_runs:
  "runChain syncx_env syncx_good syncx_new \<noteq> None" "runChain syncx_env syncx_bad syncx_new \<noteq> None"
  "runChain syncx_env syncx_stopped syncx_new \<noteq> None"
  by code_simp+

lemma syncx_run:
  "chain_run (new_SyncChain 0 syncx_target FinalizedSync None) syncx_good (syncx_end syncx_good)"
  "chain_run (new_SyncChain 0 syncx_target FinalizedSync None) syncx_bad (syncx_end syncx_bad)"
  "chain_run (new_SyncChain 0 syncx_target FinalizedSync None) syncx_stopped (syncx_end syncx_stopped)"
  using syncx_runs [THEN runChain_run] by (simp_all add: syncx_end_def syncx_new_def)

lemma syncx_good_end:
  "sc_status (syncx_end syncx_good) = ChainSyncing" "sc_status (continueLoop syncx_env (syncx_end syncx_good)) = ChainSynced"
  "ct_slot (sc_target (syncx_end syncx_good)) = 40"
  by code_simp+

lemma syncx_bad_end:
  "sc_loop (syncx_end syncx_bad) =
    LoopEnded (Some (BatchErr \<lparr>be_code = MAX_PROCESSING_ATTEMPTS, be_startEpoch = 0, be_status = Processing\<rparr>))"
  "count_list (map fst (sc_sent (syncx_end syncx_bad))) 0 = 12"
  by code_simp+

lemma syncx_stopped_end:
  "sc_status (syncx_end syncx_stopped) = ChainStopped" "(0, 0) \<in> set (sc_batches (syncx_end syncx_stopped))"
  "statusAt (syncx_end syncx_stopped) 0 = Downloading" "loopAlive (sc_loop (syncx_end syncx_stopped))"
  by code_simp+

section \<open>A call that throws\<close>

fun runAny :: "'b sync_env \<Rightarrow> 'b chain_event list \<Rightarrow> 'b sync_chain \<Rightarrow> 'b sync_chain option" where
  "runAny env [] c = Some c"
| "runAny env (ev # evs) c = (if chainEnabled ev c then runAny env evs (snd (chainStep env ev c)) else None)"

lemma runAny_from: "any_run c0 evs0 c \<Longrightarrow> runAny env evs c = Some c' \<Longrightarrow> any_run c0 (evs0 @ evs) c'"
proof (induction evs arbitrary: evs0 c)
  case (Cons ev evs)
  from Cons.prems(2) have c1: "chainEnabled ev c" "runAny env evs (snd (chainStep env ev c)) = Some c'"
    by (auto split: if_splits)
  from Cons.IH [OF any_run.step [OF Cons.prems(1) c1(1) refl] c1(2)] show ?case by simp
qed simp

text \<open>
  The first batch is accepted and the second under way in the processor when the chain is stopped. It is started again
  with a finalized epoch past both: the call drops both and throws at the second. A new peer makes the chain request its
  first epochs again, and when the processor refuses the old segment, the loop ends with a wrong status.
\<close>

definition syncx_far :: chain_target where
  "syncx_far = \<lparr>ct_slot = 400, ct_root = []\<rparr>"

definition syncx_thrown :: "nat chain_event list" where
  "syncx_thrown = [AddPeer ''a'' syncx_far, StartSyncing 0, ContinueLoop, Downloaded 0 (Some [7]), ContinueLoop,
     SegmentProcessed None, ContinueLoop, RemovePeer ''a'', Downloaded 1 (Some [8]), ContinueLoop, StopSyncing,
     StartSyncing 4, AddPeer ''b'' syncx_far, SegmentProcessed (Some (OtherSegmentError ''invalid'')), ContinueLoop]"

lemma syncx_thrown_end: "case runAny syncx_env syncx_thrown (new_SyncChain 0 syncx_far FinalizedSync None) of None \<Rightarrow> False
    | Some c \<Rightarrow> sc_loop c = LoopEnded (Some (BatchErr \<lparr>be_code = WRONG_STATUS AwaitingValidation, be_startEpoch = 0,
        be_status = Downloading\<rparr>))"
  by code_simp

lemma thrown_start_ends_loop:
  "\<exists>c. any_run (new_SyncChain 0 syncx_far FinalizedSync None) syncx_thrown c \<and>
    sc_loop c = LoopEnded (Some (BatchErr \<lparr>be_code = WRONG_STATUS AwaitingValidation, be_startEpoch = 0, be_status = Downloading\<rparr>))"
proof -
  from syncx_thrown_end obtain c where c: "runAny syncx_env syncx_thrown (new_SyncChain 0 syncx_far FinalizedSync None) = Some c"
    "sc_loop c = LoopEnded (Some (BatchErr \<lparr>be_code = WRONG_STATUS AwaitingValidation, be_startEpoch = 0, be_status = Downloading\<rparr>))"
    by (auto split: option.splits)
  from runAny_from [OF any_run.start c(1)] c(2) show ?thesis by auto
qed

section \<open>Witnesses\<close>

theorem synced_epochs_done_witness:
  "(\<exists>lf. StartSyncing lf \<in> set syncx_good \<and> 1 < lf) \<or>
   (\<exists>s blocks. (s, blocks) \<in> set (sc_accepted (syncx_end syncx_good)) \<and> s \<le> 1 \<and> 1 < s + EPOCHS_PER_BATCH)"
  by (rule synced_epochs_done [where env = syncx_env, OF syncx_run(1)])
    (simp_all add: syncx_good_end computeStartSlotAtEpoch_def SLOTS_PER_EPOCH_def)

theorem requests_bounded_witness:
  "count_list (map fst (sc_sent (syncx_end syncx_bad))) 0 = 12 \<and> count_list (map fst (sc_sent (syncx_end syncx_bad))) 0 \<le> 12"
  using requests_bounded [OF chain_run_any [OF syncx_run(2)], of 0] syncx_bad_end(2) by simp

theorem startSyncing_throws_witness:
  "\<exists>e c'. startSyncing syncx_env 2 (syncx_end syncx_stopped) = (Inl e, c') \<and> sc_status c' = ChainSyncing \<and>
     sc_startEpoch c' = sc_startEpoch (syncx_end syncx_stopped) \<and> sc_sent c' = sc_sent (syncx_end syncx_stopped) \<and>
     sc_loop c' = sc_loop (syncx_end syncx_stopped)"
  using startSyncing_throws [OF syncx_run(3) syncx_stopped_end(1,2), of 2] syncx_stopped_end(3,4)
  by (simp add: EPOCHS_PER_BATCH_def)

end
