(* ===== verification/SyncRange.thy ===== *)
theory SyncRange
  imports SyncChain
begin

text \<open>
  The range sync over its chains (\<open>packages/lodestar/src/sync/range/range.ts\<close>, \<open>range/utils/updateChains.ts\<close>,
  \<open>sync/utils/remoteSyncType.ts\<close>) and the sync state of the node (\<open>sync/sync.ts\<close>). What the fork choice, the clock and the
  network answer may change from call to call, so a view of them is an argument of each call.
\<close>

section \<open>What a peer is good for\<close>

text \<open>The status message that peers exchange\<close>

record status_message =
  sm_forkDigest :: bytes
  sm_finalizedRoot :: root
  sm_finalizedEpoch :: epoch
  sm_headRoot :: root
  sm_headSlot :: slot

datatype peer_sync_type = FullySynced | AdvancedPeer | BehindPeer

definition getPeerSyncType :: "status_message \<Rightarrow> status_message \<Rightarrow> (root \<Rightarrow> bool) \<Rightarrow> nat \<Rightarrow> peer_sync_type" where
  "getPeerSyncType local remote hasBlockRoot slotImportTolerance =
     (let nearRangeStart = int (sm_headSlot local) - int slotImportTolerance;
          nearRangeEnd = int (sm_headSlot local) + int slotImportTolerance
      in if sm_finalizedEpoch remote < sm_finalizedEpoch local then BehindPeer
         else if sm_finalizedEpoch remote > sm_finalizedEpoch local then
           (if sm_finalizedEpoch local + 1 = sm_finalizedEpoch remote \<and> nearRangeStart \<le> int (sm_headSlot remote) \<and>
                 int (sm_headSlot remote) \<le> nearRangeEnd \<or> hasBlockRoot (sm_headRoot remote)
            then FullySynced else AdvancedPeer)
         else if int (sm_headSlot remote) < nearRangeStart then BehindPeer
         else if int (sm_headSlot remote) > nearRangeEnd \<and> \<not> hasBlockRoot (sm_headRoot remote) then AdvancedPeer
         else FullySynced)"

definition getRangeSyncType :: "status_message \<Rightarrow> status_message \<Rightarrow> (root \<Rightarrow> bool) \<Rightarrow> range_sync_type" where
  "getRangeSyncType local remote hasBlockRoot =
     (if sm_finalizedEpoch remote > sm_finalizedEpoch local \<and> \<not> hasBlockRoot (sm_finalizedRoot remote) then FinalizedSync else HeadSync)"

section \<open>Which chains sync\<close>

definition peersCount :: "'b sync_chain \<Rightarrow> nat" where
  "peersCount c = jm_size (sc_peerset c)"

text \<open>Chains are objects; here each comes with its identity.\<close>

definition prioritizeSyncChains :: "('i \<times> 'b sync_chain) list \<Rightarrow> ('i \<times> 'b sync_chain) list" where
  "prioritizeSyncChains syncChains =
     sortBy [\<lambda>(i, c). - int (peersCount c), \<lambda>(i, c). if isSyncing c then 0 else 1] syncChains"

fun startHeadChains :: "'i list \<Rightarrow> ('i \<times> 'b sync_chain) list \<Rightarrow> 'i list \<Rightarrow> 'i list \<times> 'i list" where
  "startHeadChains toStart [] toStop = (toStart, toStop)"
| "startHeadChains toStart ((i, c) # others) toStop =
     (if length toStart < PARALLEL_HEAD_CHAINS then startHeadChains (toStart @ [i]) others toStop
      else startHeadChains toStart others (toStop @ [i]))"

definition updateChains :: "('i \<times> 'b sync_chain) list \<Rightarrow> 'i list \<times> 'i list" where
  "updateChains others =
     (let finalizedChains = filter (\<lambda>(i, c). sc_syncType c = FinalizedSync) others;
          headChains = filter (\<lambda>(i, c). sc_syncType c \<noteq> FinalizedSync) others
      in case prioritizeSyncChains finalizedChains of
           (newId, newSyncChain) # _ \<Rightarrow>
             (case find (\<lambda>(i, c). isSyncing c) finalizedChains of
                None \<Rightarrow> ([newId], [])
              | Some (currentId, currentSyncChain) \<Rightarrow>
                  if newId \<noteq> currentId \<and> peersCount newSyncChain > peersCount currentSyncChain \<and>
                      sc_validatedEpochs currentSyncChain > MIN_FINALIZED_CHAIN_VALIDATED_EPOCHS
                  then ([newId], [currentId]) else ([], []))
         | [] \<Rightarrow> startHeadChains [] (prioritizeSyncChains headChains) [])"

section \<open>The range sync\<close>

text \<open>
  One chain for each type. Chains that were removed from the map are objects whose requests may still be answered. The
  last two fields record the peers that were asked for their status again, and the completed chains that were announced.
\<close>

record 'b range_sync =
  rs_chains :: "(range_sync_type, 'b sync_chain) jsmap"
  rs_epochsPerBatch :: "nat option"
  rs_removedChains :: "'b sync_chain list"
  rs_reStatused :: "peer_id list"
  rs_completedChains :: nat

definition new_RangeSync :: "nat option \<Rightarrow> 'b range_sync" where
  "new_RangeSync epochsPerBatch = \<lparr>rs_chains = [], rs_epochsPerBatch = epochsPerBatch, rs_removedChains = [],
     rs_reStatused = [], rs_completedChains = 0\<rparr>"

record chain_view =
  cv_hasBlock :: "root \<Rightarrow> bool"
  cv_finalizedEpoch :: epoch

type_synonym 'b range_method = "('b range_sync, sync_error, unit) st"

definition onChain :: "range_sync_type \<Rightarrow> 'b chain_method \<Rightarrow> 'b range_method" where
  "onChain t m s =
     (case jm_get (rs_chains s) t of
        None \<Rightarrow> (Inr (), s)
      | Some c \<Rightarrow> let (outcome, c1) = m c in (outcome, s\<lparr>rs_chains := jm_set t c1 (rs_chains s)\<rparr>))"

definition rs_close :: "'b range_sync \<Rightarrow> 'b range_sync" where
  "rs_close s = s\<lparr>rs_chains := map (\<lambda>(t, c). (t, removeChain c)) (rs_chains s)\<rparr>"

definition rs_removePeer :: "'b sync_env \<Rightarrow> peer_id \<Rightarrow> 'b range_sync \<Rightarrow> 'b range_sync" where
  "rs_removePeer env peer s = s\<lparr>rs_chains := map (\<lambda>(t, c). (t, snd (sc_removePeer env peer c))) (rs_chains s)\<rparr>"

definition addPeerOrCreateChain :: "'b sync_env \<Rightarrow> epoch \<Rightarrow> chain_target \<Rightarrow> peer_id \<Rightarrow> range_sync_type \<Rightarrow> 'b range_sync \<Rightarrow> 'b range_sync" where
  "addPeerOrCreateChain env startEpoch target peer syncType s =
     (let syncChain = (case jm_get (rs_chains s) syncType of
            Some c \<Rightarrow> c
          | None \<Rightarrow> new_SyncChain startEpoch target syncType (rs_epochsPerBatch s))
      in s\<lparr>rs_chains := jm_set syncType (sc_addPeer env peer target syncChain) (rs_chains s)\<rparr>)"

definition chainOutdated :: "chain_view \<Rightarrow> slot \<Rightarrow> 'b sync_chain \<Rightarrow> bool" where
  "chainOutdated view localFinalizedSlot c \<longleftrightarrow>
     isRemovable c \<or> peersCount c = 0 \<or> ct_slot (sc_target c) < localFinalizedSlot \<or> cv_hasBlock view (ct_root (sc_target c))"

fun removeOutdated :: "chain_view \<Rightarrow> slot \<Rightarrow> (range_sync_type \<times> 'b sync_chain) list \<Rightarrow> 'b range_sync \<Rightarrow> 'b range_sync" where
  "removeOutdated view localFinalizedSlot [] s = s"
| "removeOutdated view localFinalizedSlot ((t, c) # entries) s =
     removeOutdated view localFinalizedSlot entries
       (if chainOutdated view localFinalizedSlot c
        then s\<lparr>rs_chains := jm_delete t (rs_chains s), rs_removedChains := rs_removedChains s @ [removeChain c],
               rs_reStatused := rs_reStatused s @ jm_keys (sc_peerset c)\<rparr>
        else s)"

fun stopChains :: "range_sync_type list \<Rightarrow> 'b range_method" where
  "stopChains [] = ret_st ()"
| "stopChains (t # ts) = bind_st (onChain t (modify_st stopSyncing)) (\<lambda>_. stopChains ts)"

fun startChains :: "'b sync_env \<Rightarrow> epoch \<Rightarrow> range_sync_type list \<Rightarrow> 'b range_method" where
  "startChains env localFinalizedEpoch [] = ret_st ()"
| "startChains env localFinalizedEpoch (t # ts) =
     bind_st (onChain t (startSyncing env localFinalizedEpoch)) (\<lambda>_. startChains env localFinalizedEpoch ts)"

definition rs_update :: "'b sync_env \<Rightarrow> chain_view \<Rightarrow> epoch \<Rightarrow> 'b range_method" where
  "rs_update env view localFinalizedEpoch s =
     (let localFinalizedSlot = computeStartSlotAtEpoch localFinalizedEpoch;
          s1 = removeOutdated view localFinalizedSlot (rs_chains s) s;
          (toStart, toStop) = updateChains (rs_chains s1)
      in bind_st (stopChains toStop) (\<lambda>_. startChains env localFinalizedEpoch toStart) s1)"

definition rs_addPeer :: "'b sync_env \<Rightarrow> chain_view \<Rightarrow> peer_id \<Rightarrow> status_message \<Rightarrow> status_message \<Rightarrow> 'b range_method" where
  "rs_addPeer env view peer localStatus peerStatus s =
     (let syncType = getRangeSyncType localStatus peerStatus (cv_hasBlock view);
          (startEpoch, target) = (case syncType of
            FinalizedSync \<Rightarrow> (sm_finalizedEpoch localStatus,
              \<lparr>ct_slot = computeStartSlotAtEpoch (sm_finalizedEpoch peerStatus), ct_root = sm_finalizedRoot peerStatus\<rparr>)
          | HeadSync \<Rightarrow> (min (computeEpochAtSlot (sm_headSlot localStatus)) (sm_finalizedEpoch peerStatus),
              \<lparr>ct_slot = sm_headSlot peerStatus, ct_root = sm_headRoot peerStatus\<rparr>));
          s1 = (if syncType = HeadSync then rs_removePeer env peer s else s)
      in rs_update env view (sm_finalizedEpoch localStatus) (addPeerOrCreateChain env startEpoch target peer syncType s1))"

definition onSyncChainEnd :: "'b sync_env \<Rightarrow> chain_view \<Rightarrow> 'b range_method" where
  "onSyncChainEnd env view =
     bind_st (rs_update env view (cv_finalizedEpoch view)) (\<lambda>_. modify_st (\<lambda>s. s\<lparr>rs_completedChains := rs_completedChains s + 1\<rparr>))"

datatype range_sync_state = RangeFinalized chain_target | RangeHead "chain_target list" | RangeIdle

fun stateOfChains :: "chain_target list \<Rightarrow> 'b sync_chain list \<Rightarrow> range_sync_state" where
  "stateOfChains syncingHeadTargets [] = (if syncingHeadTargets \<noteq> [] then RangeHead syncingHeadTargets else RangeIdle)"
| "stateOfChains syncingHeadTargets (c # others) =
     (if isSyncing c
      then (if sc_syncType c = FinalizedSync then RangeFinalized (sc_target c)
            else stateOfChains (syncingHeadTargets @ [sc_target c]) others)
      else stateOfChains syncingHeadTargets others)"

definition rs_state :: "'b range_sync \<Rightarrow> range_sync_state" where
  "rs_state s = stateOfChains [] (map snd (rs_chains s))"

section \<open>The sync state of the node\<close>

definition MIN_EPOCH_TO_START_GOSSIP :: int where
  "MIN_EPOCH_TO_START_GOSSIP = - 1"

definition slotImportTolerance :: nat where
  "slotImportTolerance = SLOTS_PER_EPOCH"

datatype sync_state = Stalled | SyncingFinalized | SyncingHead | Synced

text \<open>The clock, which is negative before genesis, the head and the network\<close>

record node_view =
  nv_currentSlot :: int
  nv_headSlot :: slot
  nv_hasSomeConnectedPeer :: bool
  nv_chain :: chain_view

record 'b beacon_sync =
  bn_rangeSync :: "'b range_sync"
  bn_isSingleNode :: bool
  bn_peerSyncType :: "(peer_id, peer_sync_type) jsmap"
  bn_subscribedGossipCoreTopics :: bool

definition syncState :: "node_view \<Rightarrow> 'b beacon_sync \<Rightarrow> sync_state" where
  "syncState v b =
     (if (nv_currentSlot v < 0 \<or>
          int (nv_headSlot v) \<le> nv_currentSlot v \<and> int (nv_headSlot v) \<ge> nv_currentSlot v - int slotImportTolerance) \<and>
        (bn_isSingleNode b \<or> nv_hasSomeConnectedPeer v)
      then Synced
      else case rs_state (bn_rangeSync b) of
             RangeFinalized t \<Rightarrow> SyncingFinalized
           | RangeHead ts \<Rightarrow> SyncingHead
           | RangeIdle \<Rightarrow> Stalled)"

record syncing_status =
  ss_headSlot :: slot
  ss_syncDistance :: int
  ss_isSyncing :: bool

definition getSyncStatus :: "node_view \<Rightarrow> 'b beacon_sync \<Rightarrow> syncing_status" where
  "getSyncStatus v b =
     (case syncState v b of
        Synced \<Rightarrow> \<lparr>ss_headSlot = nv_headSlot v, ss_syncDistance = 0, ss_isSyncing = False\<rparr>
      | _ \<Rightarrow> \<lparr>ss_headSlot = nv_headSlot v, ss_syncDistance = nv_currentSlot v - int (nv_headSlot v), ss_isSyncing = True\<rparr>)"

definition bn_isSyncing :: "node_view \<Rightarrow> 'b beacon_sync \<Rightarrow> bool" where
  "bn_isSyncing v b \<longleftrightarrow> syncState v b = SyncingFinalized \<or> syncState v b = SyncingHead"

definition bn_isSynced :: "node_view \<Rightarrow> 'b beacon_sync \<Rightarrow> bool" where
  "bn_isSynced v b \<longleftrightarrow> syncState v b = Synced"

definition updateSyncState :: "node_view \<Rightarrow> 'b beacon_sync \<Rightarrow> 'b beacon_sync" where
  "updateSyncState v b =
     (let state = syncState v b;
          b1 = (if state = Synced \<and> \<not> bn_subscribedGossipCoreTopics b \<and> nv_currentSlot v \<ge> MIN_EPOCH_TO_START_GOSSIP
                then b\<lparr>bn_subscribedGossipCoreTopics := True\<rparr> else b)
      in if state \<noteq> Synced \<and> bn_subscribedGossipCoreTopics b1
         then
           let syncDiff = nv_currentSlot v - int (nv_headSlot v)
           in if syncDiff > int slotImportTolerance * 2 then b1\<lparr>bn_subscribedGossipCoreTopics := False\<rparr> else b1
         else b1)"

definition bn_addPeer :: "'b sync_env \<Rightarrow> node_view \<Rightarrow> peer_id \<Rightarrow> status_message \<Rightarrow> status_message \<Rightarrow> ('b beacon_sync, sync_error, unit) st" where
  "bn_addPeer env v peer localStatus peerStatus b =
     (let syncType = getPeerSyncType localStatus peerStatus (cv_hasBlock (nv_chain v)) slotImportTolerance;
          b1 = b\<lparr>bn_peerSyncType := jm_set peer syncType (bn_peerSyncType b)\<rparr>;
          (outcome, rs) = (if syncType = AdvancedPeer then rs_addPeer env (nv_chain v) peer localStatus peerStatus (bn_rangeSync b1)
            else (Inr (), bn_rangeSync b1));
          b2 = b1\<lparr>bn_rangeSync := rs\<rparr>
      in case outcome of
           Inl e \<Rightarrow> (Inl e, b2)
         | Inr _ \<Rightarrow> (Inr (), updateSyncState v b2))"

definition bn_removePeer :: "'b sync_env \<Rightarrow> peer_id \<Rightarrow> 'b beacon_sync \<Rightarrow> 'b beacon_sync" where
  "bn_removePeer env peer b = b\<lparr>bn_rangeSync := rs_removePeer env peer (bn_rangeSync b), bn_peerSyncType := jm_delete peer (bn_peerSyncType b)\<rparr>"

section \<open>Runs of the range sync\<close>

text \<open>
  Calls of the node, the end of a chain, which calls \<open>onEnd\<close>, and the events of its chains. Chains start and stop only
  by calls of the range sync.
\<close>

datatype 'b range_event =
    RangeAddPeer peer_id status_message status_message
  | RangeRemovePeer peer_id
  | RangeClose
  | RangeChainEnded
  | InChain range_sync_type "'b chain_event"
  | InRemovedChain nat "'b chain_event"

fun ownEvent :: "'b chain_event \<Rightarrow> bool" where
  "ownEvent (Downloaded a answer) = True"
| "ownEvent (SegmentProcessed err) = True"
| "ownEvent ContinueLoop = True"
| "ownEvent _ = False"

fun loopEnded :: "'b loop_state \<Rightarrow> bool" where
  "loopEnded (LoopEnded e) = True"
| "loopEnded _ = False"

definition rangeEnabled :: "'b range_event \<Rightarrow> 'b range_sync \<Rightarrow> bool" where
  "rangeEnabled ev s =
     (case ev of
        InChain t e \<Rightarrow> (case jm_get (rs_chains s) t of Some c \<Rightarrow> ownEvent e \<and> chainEnabled e c | None \<Rightarrow> False)
      | InRemovedChain i e \<Rightarrow> i < length (rs_removedChains s) \<and> ownEvent e \<and> chainEnabled e (rs_removedChains s ! i)
      | RangeChainEnded \<Rightarrow> list_ex (\<lambda>c. loopEnded (sc_loop c)) (map snd (rs_chains s) @ rs_removedChains s)
      | _ \<Rightarrow> True)"

fun rangeStep :: "'b sync_env \<Rightarrow> chain_view \<Rightarrow> 'b range_event \<Rightarrow> 'b range_method" where
  "rangeStep env view (RangeAddPeer peer localStatus peerStatus) s = rs_addPeer env view peer localStatus peerStatus s"
| "rangeStep env view (RangeRemovePeer peer) s = (Inr (), rs_removePeer env peer s)"
| "rangeStep env view RangeClose s = (Inr (), rs_close s)"
| "rangeStep env view RangeChainEnded s = onSyncChainEnd env view s"
| "rangeStep env view (InChain t e) s = onChain t (chainStep env e) s"
| "rangeStep env view (InRemovedChain i e) s =
     (let (outcome, c) = chainStep env e (rs_removedChains s ! i)
      in (outcome, s\<lparr>rs_removedChains := (rs_removedChains s)[i := c]\<rparr>))"

text \<open>A run, whatever the outcome of its calls, with the draws and the view of each step as they come\<close>

inductive range_run :: "nat option \<Rightarrow> 'b range_event list \<Rightarrow> 'b range_sync \<Rightarrow> bool" for n where
  start: "range_run n [] (new_RangeSync n)"
| step: "range_run n evs s \<Longrightarrow> rangeEnabled ev s \<Longrightarrow> snd (rangeStep env view ev s) = s' \<Longrightarrow> range_run n (evs @ [ev]) s'"

end
