(* ===== verification/SyncRangeSpec.thy ===== *)
theory SyncRangeSpec
  imports SyncRange SyncChainRun "HOL-Library.Multiset"
begin

text \<open>
  The range sync: it follows at most one chain of each type, each chain it has ever made is a run of \<open>SyncChain\<close>, and its
  calls do not throw. And which chains are started and stopped when there are many.
\<close>

section \<open>Chains that are stopped have no batches\<close>

definition stays :: "'b sync_chain \<Rightarrow> 'b sync_chain \<Rightarrow> bool" where
  "stays c c' \<longleftrightarrow> sc_syncType c' = sc_syncType c \<and>
     (sc_status c' = ChainStopped \<longrightarrow> sc_status c = ChainStopped \<and> set (sc_batches c') \<subseteq> set (sc_batches c))"

lemma stays_refl [simp]: "stays c c"
  by (simp add: stays_def)

lemma stays_trans: "stays c c' \<Longrightarrow> stays c' c'' \<Longrightarrow> stays c c''"
  by (auto simp: stays_def)

lemma stays_frame:
  "sc_syncType c' = sc_syncType c \<Longrightarrow> sc_status c' = sc_status c \<Longrightarrow> set (sc_batches c') \<subseteq> set (sc_batches c) \<Longrightarrow> stays c c'"
  by (simp add: stays_def)

lemma stays_bind:
  "(\<And>c. stays c (snd (m c))) \<Longrightarrow> (\<And>x c. stays c (snd (f x c))) \<Longrightarrow> stays c (snd (bind_st m f c))"
  by (rule rel_bind_st [of stays]) (blast intro: stays_trans)+

lemma onBatch_stays: "stays c (snd (onBatch a m c))"
  by (auto simp: onBatch_eq putBatch_def intro: stays_frame split: prod.splits sum.splits)

lemma wakeLoop_stays: "stays c (wakeLoop c)"
  by (rule stays_frame) (auto simp: wakeLoop_def callNext_def split: loop_state.splits prod.splits)

lemma trigger_stays: "stays c (triggerBatchProcessor c)"
  unfolding triggerBatchProcessor_def by (rule stays_trans [OF _ wakeLoop_stays]) (simp add: stays_frame)

lemma end_stays: "stays c (endBatchProcessor e c)"
  unfolding endBatchProcessor_def by (rule stays_trans [OF _ wakeLoop_stays]) (simp add: stays_frame)

text \<open>Requests keep the type and the status of the chain.\<close>

lemma wakeLoop_kind [simp]: "sc_syncType (wakeLoop c) = sc_syncType c" "sc_status (wakeLoop c) = sc_status c"
  by (auto simp: wakeLoop_def callNext_def split: loop_state.splits prod.splits)

lemma sendBatch_kind [simp]: "sc_syncType (sendBatch a peer c) = sc_syncType c" "sc_status (sendBatch a peer c) = sc_status c"
  by (auto simp: sendBatch_def onBatch_eq endBatchProcessor_def putBatch_def split: prod.splits sum.splits)

lemma retryBatch_kind [simp]: "sc_syncType (retryBatch balancer a c) = sc_syncType c" "sc_status (retryBatch balancer a c) = sc_status c"
  by (auto simp: retryBatch_def split: option.splits)

lemma retryBatches_kind [simp]: "sc_syncType (fold (retryBatch balancer) as c) = sc_syncType c"
  "sc_status (fold (retryBatch balancer) as c) = sc_status c"
  by (induction as arbitrary: c) simp_all

lemma includeNextBatch_kind: "includeNextBatch c = (r, c') \<Longrightarrow> sc_syncType c' = sc_syncType c \<and> sc_status c' = sc_status c"
  by (auto simp: includeNextBatch_def Let_def split: if_splits)

lemma requestNextBatches_kind [simp]: "sc_syncType (requestNextBatches peers c) = sc_syncType c"
  "sc_status (requestNextBatches peers c) = sc_status c"
  by (induction peers arbitrary: c) (auto dest: includeNextBatch_kind split: prod.splits option.splits)

lemma downloader_kind [simp]: "sc_syncType (triggerBatchDownloader env c) = sc_syncType c"
  "sc_status (triggerBatchDownloader env c) = sc_status c"
  by (simp_all add: triggerBatchDownloader_def requestBatches_def Let_def)

lemma downloader_stays: "stays c (triggerBatchDownloader env c)"
proof (cases "sc_status c = ChainSyncing")
  case True
  then show ?thesis
    by (simp add: stays_def)
qed (simp add: triggerBatchDownloader_def requestBatches_def)

lemma dropBatches_stays: "stays c (snd (dropBatches s entries c))"
proof (induction entries arbitrary: c)
  case (Cons e entries)
  obtain k a where e: "e = (k, a)" by fastforce
  let ?c1 = "c\<lparr>sc_batches := jm_delete k (sc_batches c), sc_validatedEpochs := sc_validatedEpochs c + EPOCHS_PER_BATCH\<rparr>"
  have first: "stays c ?c1"
    by (rule stays_frame) (auto simp: jm_delete_filter)
  have rest: "stays c (snd (bind_st (onBatch a validationSuccess) (\<lambda>attemptOk.
      bind_st (modify_st (\<lambda>c. c\<lparr>sc_reports := sc_reports c @ r attemptOk c\<rparr>)) (\<lambda>_. dropBatches s entries)) c))" for c :: "'a sync_chain" and r
    by (intro stays_bind onBatch_stays) (simp_all add: Cons.IH stays_frame)
  show ?case
    using stays_trans [OF first rest] Cons.IH [of c] by (simp add: e Let_def)
qed simp

lemma advanceChain_stays: "stays c (snd (advanceChain s c))"
proof -
  have "stays c (snd (bind_st (dropBatches s bs) (\<lambda>_. modify_st (\<lambda>c. c\<lparr>sc_startEpoch := s\<rparr>)) c))" for bs
    by (intro stays_bind dropBatches_stays) (simp add: stays_frame)
  then show ?thesis
    by (simp add: advanceChain_def)
qed

lemma invalidateBefore_stays: "stays c (snd (invalidateBefore err s as c))"
proof (induction as arbitrary: c)
  case (Cons a as)
  have "stays c (snd (bind_st (onBatch a (validationError err)) (\<lambda>_. invalidateBefore err s as) c))" for c :: "'a sync_chain"
    by (intro stays_bind onBatch_stays) (simp add: Cons.IH)
  with Cons.IH show ?case by simp
qed simp

lemma segmentProcessed_stays: "stays c (snd (segmentProcessed env a blocks err c))"
proof (cases err)
  case None
  let ?s = "sb_startEpoch (sc_store c ! a)"
  have "stays c (snd (bind_st (onBatch a processingSuccess) (\<lambda>_. bind_st (if blocks \<noteq> [] then advanceChain s else ret_st ()) (\<lambda>_.
      modify_st (\<lambda>c. triggerBatchDownloader env (triggerBatchProcessor c)))) c))" for c :: "'a sync_chain" and s
    by (intro stays_bind onBatch_stays) (simp_all add: advanceChain_stays stays_trans [OF trigger_stays downloader_stays])
  moreover have "stays c (c\<lparr>sc_accepted := sc_accepted c @ [(?s, blocks)]\<rparr>)"
    by (simp add: stays_frame)
  ultimately show ?thesis
    using None unfolding segmentProcessed_def Let_def by (auto intro: stays_trans)
next
  case (Some e)
  have "stays c (snd (bind_st (onBatch a (processingError e)) (\<lambda>_. bind_st (if importedBlocks e > 0 then advanceChain s else ret_st ()) (\<lambda>_.
      bind_st (\<lambda>c. invalidateBefore e s (map snd (sc_batches c)) c) (\<lambda>_. modify_st (triggerBatchDownloader env)))) c))" for s
    by (intro stays_bind onBatch_stays) (simp_all add: advanceChain_stays invalidateBefore_stays downloader_stays)
  with Some show ?thesis
    by (simp add: segmentProcessed_def Let_def)
qed

lemma continueLoop_stays: "stays c (continueLoop env c)"
proof -
  have next_stays: "stays d (callNext d)" for d :: "'a sync_chain"
    by (rule stays_frame) (simp_all add: callNext_def split: prod.splits)
  have failed: "stays d (syncFailed e d)" "stays d (syncFailed e (returnTrigger d))" for d :: "'a sync_chain" and e
    by (simp_all add: stays_def syncFailed_def returnTrigger_def Let_def)
  have ended: "stays d (syncEnded d)" "stays d (syncEnded (returnTrigger d))" for d :: "'a sync_chain"
    by (simp_all add: stays_def syncEnded_def returnTrigger_def)
  have start: "stays c ((case onBatch a (startProcessing f) c of (Inl e, c1) \<Rightarrow> c1\<lparr>sc_loop := SegmentDone (Inl e)\<rparr>
      | (Inr blocks, c1) \<Rightarrow> c1\<lparr>sc_loop := AwaitingSegment a blocks\<rparr>))" for a and f :: "'a \<Rightarrow> bytes"
  proof -
    have "stays d (d\<lparr>sc_loop := l\<rparr>)" for d :: "'a sync_chain" and l
      by (simp add: stays_frame)
    moreover have "stays c (snd (onBatch a (startProcessing f) c))"
      by (rule onBatch_stays)
    ultimately show ?thesis
      by (auto intro: stays_trans split: prod.splits sum.splits)
  qed
  have "stays c (loopBody env c)"
    using next_stays failed(2) ended(2) start by (simp add: loopBody_def Let_def split: sum.splits option.splits)
  then show ?thesis
    using next_stays failed ended by (simp add: continueLoop_def split: loop_state.splits sum.splits)
qed

lemma batchDownloaded_stays: "stays c (batchDownloaded env a answer c)"
proof -
  let ?c0 = "c\<lparr>sc_inFlight := remove1 a (sc_inFlight c)\<rparr>"
  have first: "stays c ?c0"
    by (simp add: stays_frame)
  have answered: "stays d (snd (case answer of
      Some blocks \<Rightarrow> bind_st (onBatch a (downloadingSuccess blocks)) (\<lambda>_. modify_st triggerBatchProcessor) d
    | None \<Rightarrow> onBatch a downloadingError d))" for d
    by (cases answer) (simp_all add: onBatch_stays stays_bind trigger_stays)
  have last: "stays d (triggerBatchDownloader env (case r of Inr u \<Rightarrow> triggerBatchDownloader env d | Inl e \<Rightarrow> endBatchProcessor (Some e) d))"
    for d and r :: "sync_error + unit"
    by (cases r) (auto intro: stays_trans downloader_stays end_stays)
  show ?thesis
    unfolding batchDownloaded_def Let_def
    using stays_trans [OF first stays_trans [OF answered last]] by (simp add: case_prod_unfold)
qed

lemma addPeer_stays: "stays c (sc_addPeer env p t c)"
proof -
  have "stays c (computeTarget env (c\<lparr>sc_peerset := jm_set p t (sc_peerset c)\<rparr>))"
    by (rule stays_frame) (auto simp: computeTarget_def split: option.splits)
  then show ?thesis
    by (simp add: sc_addPeer_def stays_trans [OF _ downloader_stays])
qed

lemma removePeer_stays: "stays c (snd (sc_removePeer env p c))"
  by (rule stays_frame) (auto simp: sc_removePeer_def computeTarget_def split: option.splits)

lemma ownEvent_stays:
  assumes "ownEvent ev"
  shows "stays c (snd (chainStep env ev c)) \<and> fst (chainStep env ev c) = Inr ()"
proof (cases ev)
  case (SegmentProcessed err)
  have "stays d (d\<lparr>sc_loop := l\<rparr>)" for d :: "'a sync_chain" and l
    by (simp add: stays_frame)
  then have "stays c ((snd (segmentProcessed env a blocks err c))\<lparr>sc_loop := l\<rparr>)" for a blocks l
    by (rule stays_trans [OF segmentProcessed_stays])
  with SegmentProcessed show ?thesis
    by (simp add: case_prod_unfold Let_def split: loop_state.splits)
qed (use assms in \<open>simp_all add: batchDownloaded_stays continueLoop_stays\<close>)

section \<open>The chains of the range sync\<close>

text \<open>Each chain is the one of its type, a stopped one is fresh, and each is reached by a run.\<close>

definition chainRun :: "nat option \<Rightarrow> 'b sync_chain \<Rightarrow> bool" where
  "chainRun n c \<longleftrightarrow> (\<exists>e0 target t evs. chain_run (new_SyncChain e0 target t n) evs c)"

definition chainFine :: "nat option \<Rightarrow> range_sync_type \<Rightarrow> 'b sync_chain \<Rightarrow> bool" where
  "chainFine n t c \<longleftrightarrow> sc_syncType c = t \<and> (sc_status c = ChainStopped \<longrightarrow> sc_batches c = []) \<and> chainRun n c"

definition rangeInv :: "nat option \<Rightarrow> 'b range_sync \<Rightarrow> bool" where
  "rangeInv n s \<longleftrightarrow> rs_epochsPerBatch s = n \<and> jm_ok (rs_chains s) \<and> (\<forall>(t, c) \<in> set (rs_chains s). chainFine n t c) \<and>
     (\<forall>c \<in> set (rs_removedChains s). chainRun n c)"

lemma chainRun_step:
  assumes "chainRun n c" "chainEnabled ev c" "chainStep env ev c = (Inr (), c')"
  shows "chainRun n c'"
  using assms chain_run.step unfolding chainRun_def by blast

lemma chainFine_step:
  assumes fine: "chainFine n t c" and "chainEnabled ev c" "chainStep env ev c = (Inr (), c')" and st: "stays c c'"
  shows "chainFine n t c'"
  using assms chainRun_step [of n c ev env c'] by (auto simp: chainFine_def stays_def)

lemma chainFine_addPeer: "chainFine n t c \<Longrightarrow> chainFine n t (sc_addPeer env p target c)"
  using chainFine_step [of n t c "AddPeer p target" env] by (simp add: chainEnabled_def addPeer_stays)

lemma chainFine_removePeer: "chainFine n t c \<Longrightarrow> chainFine n t (snd (sc_removePeer env p c))"
  using chainFine_step [of n t c "RemovePeer p" env] by (simp add: chainEnabled_def removePeer_stays)

lemma chainFine_remove: "chainFine n t c \<Longrightarrow> chainFine n t (removeChain c)"
  using chainFine_step [of n t c RemoveChain] by (simp add: chainEnabled_def removeChain_def end_stays)

lemma chainFine_new: "chainFine n t (new_SyncChain e0 target t n)"
proof -
  have "chainRun n (new_SyncChain e0 target t n)"
    unfolding chainRun_def by (blast intro: chain_run.start)
  then show ?thesis
    by (simp add: chainFine_def new_SyncChain_def)
qed

lemma chainFine_own:
  assumes "chainFine n t c" "ownEvent ev" "chainEnabled ev c"
  shows "chainFine n t (snd (chainStep env ev c))"
proof -
  have step: "chainStep env ev c = (Inr (), snd (chainStep env ev c))" "stays c (snd (chainStep env ev c))"
    using ownEvent_stays [OF assms(2), of c env] by (simp_all add: prod_eq_iff)
  show ?thesis
    by (rule chainFine_step [OF assms(1,3) step])
qed

lemma startSyncing_fine:
  assumes fine: "chainFine n t c" and "\<not> isRemovable c"
  shows "fst (startSyncing env lf c) = Inr () \<and> chainFine n t (snd (startSyncing env lf c))"
proof (cases "sc_status c = ChainStopped")
  case False
  with assms show ?thesis
    by (cases "sc_status c") (simp_all add: startSyncing_def isRemovable_def)
next
  case True
  then have none: "sc_batches c = []"
    using fine by (simp add: chainFine_def)
  let ?s = "nat (int (sc_startEpoch c) + (int lf - int (sc_startEpoch c)) div int EPOCHS_PER_BATCH * int EPOCHS_PER_BATCH)"
  have "\<exists>d. advanceChain ?s (c\<lparr>sc_status := ChainSyncing\<rparr>) = (Inr (), d) \<and> sc_status d = ChainSyncing \<and> sc_syncType d = sc_syncType c"
    using none by (cases "?s \<le> sc_startEpoch c") (simp_all add: advanceChain_def bind_st_def)
  then obtain d where d: "advanceChain ?s (c\<lparr>sc_status := ChainSyncing\<rparr>) = (Inr (), d)" "sc_status d = ChainSyncing" "sc_syncType d = sc_syncType c"
    by blast
  let ?c = "triggerBatchProcessor (triggerBatchDownloader env d)"
  have eq: "startSyncing env lf c = (Inr (), ?c)"
    using True d(1) by (simp add: startSyncing_def Let_def bind_st_def)
  have "chainRun n ?c"
    using fine eq chainRun_step [of n c "StartSyncing lf" env ?c] by (simp add: chainFine_def chainEnabled_def)
  with fine eq d show ?thesis
    by (simp add: chainFine_def triggerBatchProcessor_def)
qed

text \<open>With one chain of each type no chain is ever stopped.\<close>

lemma one_of_type:
  assumes "distinct (map fst xs)" "\<forall>(t, c) \<in> set xs. sc_syncType c = t"
  shows "length (filter (\<lambda>(t, c). sc_syncType c = T) xs) \<le> 1"
  using assms
proof (induction xs)
  case (Cons x xs)
  obtain t c where x: "x = (t, c)" by fastforce
  show ?case
  proof (cases "t = T")
    case True
    have "filter (\<lambda>(t, c). sc_syncType c = T) xs = []"
      using Cons.prems x True by (force simp: filter_empty_conv)
    with x show ?thesis by simp
  next
    case False
    with Cons x show ?thesis by simp
  qed
qed simp

lemma length_sortBy [simp]: "length (sortBy fs xs) = length xs"
  by (simp add: sortBy_def)

lemma set_sortBy [simp]: "set (sortBy fs xs) = set xs"
  by (simp add: sortBy_def)

lemma singleton_cases: "length xs \<le> 1 \<Longrightarrow> xs = [] \<or> (\<exists>x. xs = [x])"
  by (cases xs; cases "tl xs") auto

lemma updateChains_single:
  assumes "jm_ok m" "\<forall>(t, c) \<in> set m. sc_syncType c = t"
  shows "\<exists>ids. updateChains m = (ids, []) \<and> length ids \<le> 1 \<and> set ids \<subseteq> fst ` set m"
proof -
  let ?f = "filter (\<lambda>(t, c). sc_syncType c = FinalizedSync) m" and ?h = "filter (\<lambda>(t, c). sc_syncType c \<noteq> FinalizedSync) m"
  have kind: "(sc_syncType c \<noteq> FinalizedSync) = (sc_syncType c = HeadSync)" for c :: "'a sync_chain"
    by (cases "sc_syncType c") simp_all
  have one: "length ?f \<le> 1" "length ?h \<le> 1"
    using assms one_of_type [of m] unfolding kind by (simp_all add: jm_ok_def)
  have sub: "set ?f \<subseteq> set m" "set ?h \<subseteq> set m"
    by auto
  show ?thesis
  proof (cases "?f = []")
    case True
    from singleton_cases [OF one(2)] show ?thesis
    proof
      assume "?h = []"
      with True show ?thesis
        by (simp add: updateChains_def prioritizeSyncChains_def sortBy_def)
    next
      assume "\<exists>x. ?h = [x]"
      then obtain t c where "?h = [(t, c)]" by fastforce
      with True sub(2) show ?thesis
        by (force simp: updateChains_def prioritizeSyncChains_def sortBy_def PARALLEL_HEAD_CHAINS_def)
    qed
  next
    case False
    with singleton_cases [OF one(1)] obtain t c where "?f = [(t, c)]" by fastforce
    with sub(1) show ?thesis
      by (force simp: updateChains_def prioritizeSyncChains_def sortBy_def)
  qed
qed

section \<open>Runs of the range sync\<close>

lemma set_jm_set: "x \<in> set (jm_set k v m) \<Longrightarrow> x = (k, v) \<or> x \<in> set m"
  unfolding jm_set_def by (induction m) (auto split: if_splits)

lemma jm_get_in: "jm_get m k = Some v \<Longrightarrow> (k, v) \<in> set m"
  by (simp add: jm_get_def map_of_SomeD)

lemma jm_delete_in: "x \<in> set (jm_delete k m) \<Longrightarrow> x \<in> set m"
  by (auto simp: jm_delete_filter)

lemma rangeInv_map:
  assumes "rangeInv n s" "\<And>t c. chainFine n t c \<Longrightarrow> chainFine n t (f c)"
  shows "rangeInv n (s\<lparr>rs_chains := map (\<lambda>(t, c). (t, f c)) (rs_chains s)\<rparr>)"
  using assms by (auto simp: rangeInv_def jm_ok_def case_prod_unfold comp_def)

lemma rangeInv_set:
  assumes "rangeInv n s" "chainFine n t c"
  shows "rangeInv n (s\<lparr>rs_chains := jm_set t c (rs_chains s)\<rparr>)"
  using assms by (auto simp: rangeInv_def dest: set_jm_set)

lemma rangeInv_chain: "rangeInv n s \<Longrightarrow> (t, c) \<in> set (rs_chains s) \<Longrightarrow> chainFine n t c"
  by (auto simp: rangeInv_def)

text \<open>After the outdated ones are removed, no chain has ended.\<close>

lemma removeOutdated_inv:
  assumes "rangeInv n s" "\<forall>(t, c) \<in> set entries. chainFine n t c"
  shows "rangeInv n (removeOutdated view slot entries s)"
  using assms
proof (induction entries arbitrary: s)
  case (Cons e entries)
  obtain t c where e: "e = (t, c)" by fastforce
  let ?s = "s\<lparr>rs_chains := jm_delete t (rs_chains s), rs_removedChains := rs_removedChains s @ [removeChain c],
     rs_reStatused := rs_reStatused s @ jm_keys (sc_peerset c)\<rparr>"
  have "chainRun n (removeChain c)"
    using Cons.prems(2) e chainFine_remove [of n t c] by (simp add: chainFine_def)
  then have "rangeInv n ?s"
    using Cons.prems(1) by (auto simp: rangeInv_def dest: jm_delete_in)
  with Cons e show ?case by simp
qed simp

lemma removeOutdated_chains:
  "rs_chains (removeOutdated view slot entries s) =
    filter (\<lambda>(t, c). \<not> (\<exists>d. (t, d) \<in> set entries \<and> chainOutdated view slot d)) (rs_chains s)"
proof (induction entries arbitrary: s)
  case (Cons e entries)
  obtain t c where e: "e = (t, c)" by fastforce
  show ?case
    unfolding e removeOutdated.simps Cons.IH by (auto simp: jm_delete_filter intro!: filter_cong)
qed (simp add: case_prod_unfold)

lemma removeOutdated_left:
  assumes "(t, c) \<in> set (rs_chains (removeOutdated view slot (rs_chains s) s))"
  shows "\<not> isRemovable c"
  using assms unfolding removeOutdated_chains by (auto simp: chainOutdated_def)

lemma rs_update_inv:
  assumes inv: "rangeInv n s"
  shows "fst (rs_update env view lf s) = Inr () \<and> rangeInv n (snd (rs_update env view lf s))"
proof -
  let ?s = "removeOutdated view (computeStartSlotAtEpoch lf) (rs_chains s) s"
  have inv1: "rangeInv n ?s"
    by (rule removeOutdated_inv [OF inv]) (use inv in \<open>simp add: rangeInv_def\<close>)
  then obtain ids where ids: "updateChains (rs_chains ?s) = (ids, [])" "length ids \<le> 1" "set ids \<subseteq> fst ` set (rs_chains ?s)"
  proof -
    have "jm_ok (rs_chains ?s)" "\<forall>(t, c) \<in> set (rs_chains ?s). sc_syncType c = t"
      using inv1 by (auto simp: rangeInv_def chainFine_def)
    from updateChains_single [OF this] that show thesis by blast
  qed
  have eq: "rs_update env view lf s = startChains env lf ids ?s"
    by (simp add: rs_update_def Let_def ids(1) bind_st_def)
  from singleton_cases [OF ids(2)] show ?thesis
  proof
    assume "ids = []"
    with eq inv1 show ?thesis by simp
  next
    assume "\<exists>t. ids = [t]"
    then obtain t where t: "ids = [t]" by blast
    with ids(3) obtain c where c: "jm_get (rs_chains ?s) t = Some c"
      unfolding jm_get_def by (metis (no_types, lifting) imageE insert_subset list.set(2) map_of_eq_None_iff not_None_eq)
    have fine: "chainFine n t c" "\<not> isRemovable c"
      using rangeInv_chain [OF inv1 jm_get_in [OF c]] removeOutdated_left [OF jm_get_in [OF c]] by auto
    obtain c' where start: "startSyncing env lf c = (Inr (), c')" "chainFine n t c'"
      using startSyncing_fine [OF fine, of env lf] by (metis prod.collapse)
    have "startChains env lf ids ?s = (Inr (), ?s\<lparr>rs_chains := jm_set t c' (rs_chains ?s)\<rparr>)"
      by (simp add: t bind_st_def onChain_def c start(1))
    with eq rangeInv_set [OF inv1 start(2)] show ?thesis by simp
  qed
qed

lemma addPeerOrCreate_inv:
  assumes "rangeInv n s"
  shows "rangeInv n (addPeerOrCreateChain env e0 target p t s)"
proof (cases "jm_get (rs_chains s) t")
  case None
  have "chainFine n t (sc_addPeer env p target (new_SyncChain e0 target t n))"
    by (intro chainFine_addPeer chainFine_new)
  from rangeInv_set [OF assms this] None assms show ?thesis
    by (simp add: addPeerOrCreateChain_def rangeInv_def)
next
  case (Some c)
  have "chainFine n t (sc_addPeer env p target c)"
    using rangeInv_chain [OF assms jm_get_in [OF Some]] by (rule chainFine_addPeer)
  from rangeInv_set [OF assms this] Some show ?thesis
    by (simp add: addPeerOrCreateChain_def)
qed

lemma rs_removePeer_inv: "rangeInv n s \<Longrightarrow> rangeInv n (rs_removePeer env p s)"
  unfolding rs_removePeer_def by (rule rangeInv_map) (simp_all add: chainFine_removePeer)

lemma rangeStep_inv:
  assumes inv: "rangeInv n s" and enabled: "rangeEnabled ev s"
  shows "fst (rangeStep env view ev s) = Inr () \<and> rangeInv n (snd (rangeStep env view ev s))"
proof (cases ev)
  case (RangeAddPeer p l r)
  have "rangeInv n (addPeerOrCreateChain env e0 target p t s)" "rangeInv n (addPeerOrCreateChain env e0 target p t (rs_removePeer env p s))"
    for e0 target t
    using inv by (simp_all add: addPeerOrCreate_inv rs_removePeer_inv)
  from this [THEN rs_update_inv] RangeAddPeer show ?thesis
    by (simp add: rs_addPeer_def Let_def split: range_sync_type.splits)
next
  case (RangeRemovePeer p)
  with inv show ?thesis by (simp add: rs_removePeer_inv)
next
  case RangeClose
  have "rangeInv n (rs_close s)"
    unfolding rs_close_def by (rule rangeInv_map [OF inv]) (rule chainFine_remove)
  with RangeClose show ?thesis by simp
next
  case RangeChainEnded
  obtain s1 where "rs_update env view (cv_finalizedEpoch view) s = (Inr (), s1)" "rangeInv n s1"
    using rs_update_inv [OF inv, of env view "cv_finalizedEpoch view"] by (metis prod.collapse)
  with RangeChainEnded show ?thesis
    by (simp add: onSyncChainEnd_def bind_st_def rangeInv_def)
next
  case (InChain t e)
  with enabled obtain c where c: "jm_get (rs_chains s) t = Some c" "ownEvent e" "chainEnabled e c"
    by (auto simp: rangeEnabled_def split: option.splits)
  have fine: "chainFine n t c"
    by (rule rangeInv_chain [OF inv jm_get_in [OF c(1)]])
  from ownEvent_stays [OF c(2), of c env] have "fst (chainStep env e c) = Inr ()" by simp
  with rangeInv_set [OF inv chainFine_own [OF fine c(2,3), of env]] InChain c(1) show ?thesis
    by (simp add: onChain_def case_prod_unfold Let_def)
next
  case (InRemovedChain i e)
  with enabled have i: "i < length (rs_removedChains s)" "ownEvent e" "chainEnabled e (rs_removedChains s ! i)"
    by (simp_all add: rangeEnabled_def)
  let ?c = "rs_removedChains s ! i"
  have out: "chainStep env e ?c = (Inr (), snd (chainStep env e ?c))"
    using ownEvent_stays [OF i(2), of ?c env] by (simp add: prod_eq_iff)
  have "chainRun n ?c"
    using inv i(1) by (simp add: rangeInv_def)
  from chainRun_step [OF this i(3) out] inv have "rangeInv n (s\<lparr>rs_removedChains := (rs_removedChains s)[i := snd (chainStep env e ?c)]\<rparr>)"
    by (auto simp: rangeInv_def dest: set_update_subset_insert [THEN subsetD])
  with InRemovedChain out show ?thesis
    by (simp add: case_prod_unfold Let_def prod_eq_iff)
qed

lemma range_run_inv: "range_run n evs s \<Longrightarrow> rangeInv n s"
proof (induction rule: range_run.induct)
  case start
  show ?case by (simp add: rangeInv_def new_RangeSync_def)
next
  case (step evs s ev env view s')
  with rangeStep_inv [OF step.IH step.hyps(2), of env view] show ?case by simp
qed

text \<open>
  C17. Whatever peers, processors and fork choice bring, the range sync holds at most one chain of each type, every chain it has
  ever created is a run of \<open>SyncChain\<close> from its constructor, also after its removal, and none of its calls throws: ended chains are
  gone before the others are started, and none is started that was stopped with batches.
\<close>

theorem rangeSync_sound:
  assumes run: "range_run n evs s"
  shows "distinct (map fst (rs_chains s)) \<and> (\<forall>(t, c) \<in> set (rs_chains s). sc_syncType c = t) \<and>
    (\<forall>c \<in> set (map snd (rs_chains s) @ rs_removedChains s).
      \<exists>e0 target t cevs. chain_run (new_SyncChain e0 target t n) cevs c) \<and>
    (\<forall>env view ev. rangeEnabled ev s \<longrightarrow> fst (rangeStep env view ev s) = Inr ())"
proof -
  note inv = range_run_inv [OF run]
  have "distinct (map fst (rs_chains s)) \<and> (\<forall>(t, c) \<in> set (rs_chains s). sc_syncType c = t)"
    using inv by (auto simp: rangeInv_def jm_ok_def chainFine_def)
  moreover have "chainRun n c" if "c \<in> set (map snd (rs_chains s) @ rs_removedChains s)" for c
    using inv that by (auto simp: rangeInv_def chainFine_def)
  moreover have "fst (rangeStep env view ev s) = Inr ()" if "rangeEnabled ev s" for env view ev
    using rangeStep_inv [OF inv that] by simp
  ultimately show ?thesis
    unfolding chainRun_def by blast
qed

text \<open>
  C13. In the range sync with batches of the default length, whatever peers, block processor and fork choice bring: as long as
  the loop of a chain that it follows or has removed goes on, the batches of the chain stand in the order that
  \<open>validateBatchesStatus\<close> asks for, and when the loop ends with an error, this is the limit of attempts of a batch, never a
  wrong status of a batch or a wrong order. For a chain alone, whose \<open>startSyncing\<close> can throw, this is not so, see
  \<open>thrown_start_ends_loop\<close> of \<open>SyncChainExamples\<close>.
\<close>

theorem chain_ends_by_limit:
  assumes run: "range_run None evs s" and c: "c \<in> set (map snd (rs_chains s) @ rs_removedChains s)"
  shows "(loopAlive (sc_loop c) \<longrightarrow> validateBatchesStatus (chainBatches c) = Inr ()) \<and>
    (\<forall>e. sc_loop c = LoopEnded (Some e) \<longrightarrow> (\<exists>be. e = BatchErr be \<and>
      be_code be \<in> {MAX_DOWNLOAD_ATTEMPTS, MAX_PROCESSING_ATTEMPTS, MAX_EXECUTION_ENGINE_ERROR_ATTEMPTS}))"
proof -
  have "chainRun None c"
    using range_run_inv [OF run] c by (auto simp: rangeInv_def chainFine_def)
  then show ?thesis
    unfolding chainRun_def using chain_run_limit by blast
qed

section \<open>Priorities\<close>

text \<open>The chain with most peers comes first.\<close>

lemma prioritize_sorted:
  assumes "prioritizeSyncChains others = xs" "i < j" "j < length xs"
  shows "peersCount (snd (xs ! j)) \<le> peersCount (snd (xs ! i))"
proof -
  let ?key = "\<lambda>x. map (\<lambda>f. f x) [\<lambda>(i, c). - int (peersCount c), \<lambda>(i, c). if isSyncing c then 0 else 1]"
  have "sorted (map ?key xs)"
    using assms(1) by (auto simp: prioritizeSyncChains_def sortBy_def)
  then have "?key (xs ! i) \<le> ?key (xs ! j)"
    using assms(2,3) by (simp add: sorted_iff_nth_mono)
  then show ?thesis
    by (auto simp: case_prod_unfold)
qed

lemma startHeadChains_split:
  "length toStart \<le> PARALLEL_HEAD_CHAINS \<Longrightarrow> startHeadChains toStart xs toStop =
    (toStart @ take (PARALLEL_HEAD_CHAINS - length toStart) (map fst xs),
     toStop @ drop (PARALLEL_HEAD_CHAINS - length toStart) (map fst xs))"
proof (induction xs arbitrary: toStart toStop)
  case (Cons x xs)
  obtain i c where x: "x = (i, c)" by fastforce
  show ?case
  proof (cases "length toStart < PARALLEL_HEAD_CHAINS")
    case True
    then obtain k where "PARALLEL_HEAD_CHAINS - length toStart = Suc k" "PARALLEL_HEAD_CHAINS - Suc (length toStart) = k"
      by (metis Suc_diff_Suc)
    with True x Cons.IH [of "toStart @ [i]" toStop] show ?thesis by simp
  next
    case False
    with Cons.prems x Cons.IH [of toStart "toStop @ [i]"] show ?thesis by simp
  qed
qed simp

text \<open>
  C18. Of many chains, with a finalized one among them at most one finalized chain is started, none has more peers, and one that is
  syncing is stopped only for it, when it has fewer peers and has validated more than ten epochs. Without a finalized chain two
  head chains are started, or the only one, and all others are stopped, of which none has more peers.
\<close>

theorem updateChains_priority:
  assumes "updateChains others = (toStart, toStop)"
  shows "if \<exists>(i, c) \<in> set others. sc_syncType c = FinalizedSync
    then toStart = [] \<and> toStop = [] \<or>
      (\<exists>i c. toStart = [i] \<and> (i, c) \<in> set others \<and> sc_syncType c = FinalizedSync \<and>
        (\<forall>(j, d) \<in> set others. sc_syncType d = FinalizedSync \<longrightarrow> peersCount d \<le> peersCount c) \<and>
        (toStop = [] \<or> (\<exists>j d. toStop = [j] \<and> (j, d) \<in> set others \<and> isSyncing d \<and> peersCount d < peersCount c \<and>
          sc_validatedEpochs d > 10)))
    else \<exists>xs. mset xs = mset others \<and> toStart = map fst (take 2 xs) \<and> toStop = map fst (drop 2 xs) \<and>
      (\<forall>(i, c) \<in> set (take 2 xs). \<forall>(j, d) \<in> set (drop 2 xs). peersCount d \<le> peersCount c)"
proof -
  let ?f = "filter (\<lambda>(i, c). sc_syncType c = FinalizedSync) others" and ?h = "filter (\<lambda>(i, c). sc_syncType c \<noteq> FinalizedSync) others"
  have ms: "mset (prioritizeSyncChains ys) = mset ys" for ys :: "('a \<times> 'b sync_chain) list"
    by (simp add: prioritizeSyncChains_def sortBy_def)
  show ?thesis
  proof (cases "?f = []")
    case True
    then have none: "\<not> (\<exists>(i, c) \<in> set others. sc_syncType c = FinalizedSync)" and h: "?h = others"
      by (auto simp: filter_empty_conv filter_id_conv)
    let ?xs = "prioritizeSyncChains others"
    have "startHeadChains [] ?xs [] = (toStart, toStop)"
      using assms True h by (simp add: updateChains_def Let_def prioritizeSyncChains_def sortBy_def)
    then have split: "toStart = map fst (take 2 ?xs)" "toStop = map fst (drop 2 ?xs)"
      using startHeadChains_split [of "[]" ?xs "[]"] by (simp_all add: PARALLEL_HEAD_CHAINS_def take_map drop_map)
    have "peersCount (snd y) \<le> peersCount (snd x)" if x: "x \<in> set (take 2 ?xs)" and y: "y \<in> set (drop 2 ?xs)" for x y
    proof -
      from x obtain i where i: "i < 2" "i < length ?xs" "x = ?xs ! i"
        by (auto simp: in_set_conv_nth)
      from y obtain j where "j < length (drop 2 ?xs)" "y = drop 2 ?xs ! j"
        by (metis in_set_conv_nth)
      then have j: "2 + j < length ?xs" "y = ?xs ! (2 + j)"
        by simp_all
      from prioritize_sorted [of others ?xs i "2 + j"] i j show ?thesis by simp
    qed
    then have "\<forall>(i, c) \<in> set (take 2 ?xs). \<forall>(j, d) \<in> set (drop 2 ?xs). peersCount d \<le> peersCount c"
      by fastforce
    with split ms [of others] have "\<exists>xs. mset xs = mset others \<and> toStart = map fst (take 2 xs) \<and> toStop = map fst (drop 2 xs) \<and>
        (\<forall>(i, c) \<in> set (take 2 xs). \<forall>(j, d) \<in> set (drop 2 xs). peersCount d \<le> peersCount c)"
      by blast
    with none show ?thesis by (simp only: if_False)
  next
    case False
    then have some: "\<exists>(i, c) \<in> set others. sc_syncType c = FinalizedSync"
      by (auto simp: filter_empty_conv)
    have "length (prioritizeSyncChains ?f) = length ?f"
      by (simp add: prioritizeSyncChains_def)
    then obtain x rest where x: "prioritizeSyncChains ?f = x # rest"
      using False by (cases "prioritizeSyncChains ?f") auto
    obtain i c where ic: "x = (i, c)" by fastforce
    have "set (prioritizeSyncChains ?f) = set ?f"
      by (simp add: prioritizeSyncChains_def)
    then have sets: "set (x # rest) = set ?f"
      by (simp add: x)
    then have mem: "(i, c) \<in> set others" "sc_syncType c = FinalizedSync"
      using ic by auto
    have most: "peersCount d \<le> peersCount c" if d: "(j, d) \<in> set others" "sc_syncType d = FinalizedSync" for j d
    proof -
      have "(j, d) \<in> set (x # rest)"
        using d sets by simp
      then obtain k where k: "k < length (x # rest)" "(x # rest) ! k = (j, d)"
        by (metis in_set_conv_nth)
      show ?thesis
      proof (cases k)
        case 0
        with k ic show ?thesis by simp
      next
        case (Suc m)
        with prioritize_sorted [OF x, of 0 k] k ic show ?thesis by simp
      qed
    qed
    show ?thesis
    proof (cases "find (\<lambda>(i, c). isSyncing c) ?f")
      case None
      then have "toStart = [i]" "toStop = []"
        using assms x ic by (simp_all add: updateChains_def Let_def)
      with some mem most show ?thesis by auto
    next
      case (Some y)
      obtain j d where y: "y = (j, d)" by fastforce
      from Some y have d: "isSyncing d" "(j, d) \<in> set others"
        by (auto simp: find_Some_iff in_set_conv_nth dest!: nth_mem)
      show ?thesis
      proof (cases "i \<noteq> j \<and> peersCount c > peersCount d \<and> sc_validatedEpochs d > MIN_FINALIZED_CHAIN_VALIDATED_EPOCHS")
        case True
        then have "toStart = [i]" "toStop = [j]"
          using assms x ic Some y by (simp_all add: updateChains_def Let_def)
        with True some mem most d show ?thesis
          by (auto simp: MIN_FINALIZED_CHAIN_VALIDATED_EPOCHS_def)
      next
        case False
        then have "toStart = [] \<and> toStop = []"
          using assms x ic Some y by (auto simp: updateChains_def Let_def)
        with some show ?thesis by simp
      qed
    qed
  qed
qed

end
