(* ===== verification/SyncRangeExamples.thy ===== *)
theory SyncRangeExamples
  imports SyncRangeSpec
begin

text \<open>A range sync with one peer that is two epochs ahead, from its first status to the end of the chain.\<close>

fun runRange :: "'b sync_env \<Rightarrow> chain_view \<Rightarrow> 'b range_event list \<Rightarrow> 'b range_sync \<Rightarrow> 'b range_sync option" where
  "runRange env view [] s = Some s"
| "runRange env view (ev # evs) s =
     (if rangeEnabled ev s then runRange env view evs (snd (rangeStep env view ev s)) else None)"

lemma runRange_from: "range_run n evs0 s \<Longrightarrow> runRange env view evs s = Some s' \<Longrightarrow> range_run n (evs0 @ evs) s'"
proof (induction evs arbitrary: evs0 s)
  case (Cons ev evs)
  from Cons.prems(2) have e: "rangeEnabled ev s" "runRange env view evs (snd (rangeStep env view ev s)) = Some s'"
    by (auto split: if_splits)
  from Cons.IH [OF range_run.step [OF Cons.prems(1) e(1) refl] e(2)] show ?case by simp
qed simp

definition rsx_env :: "nat sync_env" where
  "rsx_env = \<lparr>se_rootOf = (\<lambda>b. [word_of_nat b]), se_toHex = (\<lambda>r. replicate (length r) (CHR ''x'')), se_draw = (\<lambda>_ _. 0)\<rparr>"

definition rsx_view :: chain_view where
  "rsx_view = \<lparr>cv_hasBlock = (\<lambda>r. r = []), cv_finalizedEpoch = 0\<rparr>"

definition rsx_local :: status_message where
  "rsx_local = \<lparr>sm_forkDigest = [], sm_finalizedRoot = [], sm_finalizedEpoch = 0, sm_headRoot = [], sm_headSlot = 3\<rparr>"

definition rsx_remote :: status_message where
  "rsx_remote = \<lparr>sm_forkDigest = [], sm_finalizedRoot = [1], sm_finalizedEpoch = 2, sm_headRoot = [2], sm_headSlot = 130\<rparr>"

definition rsx_events :: "nat range_event list" where
  "rsx_events = RangeAddPeer ''a'' rsx_local rsx_remote # map (InChain FinalizedSync)
     [ContinueLoop, Downloaded 0 (Some [7]), ContinueLoop, SegmentProcessed None, ContinueLoop, ContinueLoop] @ [RangeChainEnded]"

definition rsx_end :: "nat range_sync" where
  "rsx_end = the (runRange rsx_env rsx_view rsx_events (new_RangeSync None))"

lemma rsx_runs: "runRange rsx_env rsx_view rsx_events (new_RangeSync None) \<noteq> None"
  by code_simp

lemma rsx_run: "range_run None rsx_events rsx_end"
  using rsx_runs runRange_from [OF range_run.start] by (fastforce simp: rsx_end_def)

lemma rsx_completed:
  "rs_completedChains rsx_end = 1" "rs_chains rsx_end = []" "map sc_status (rs_removedChains rsx_end) = [ChainSynced]"
  by code_simp+

theorem rangeSync_sound_witness:
  "rs_completedChains rsx_end = 1 \<and>
   (\<exists>e0 target t cevs. chain_run (new_SyncChain e0 target t None) cevs (hd (rs_removedChains rsx_end)))"
proof -
  have "hd (rs_removedChains rsx_end) \<in> set (rs_removedChains rsx_end)"
    using rsx_completed(3) by (intro hd_in_set) auto
  then show ?thesis
    using rangeSync_sound [OF rsx_run] rsx_completed(1) by simp
qed

text \<open>The peer answers no request: after five failed downloads the chain ends. And a chain in the middle of its work\<close>

definition rsx_failing :: "nat range_event list" where
  "rsx_failing = RangeAddPeer ''a'' rsx_local rsx_remote # map (InChain FinalizedSync)
     (ContinueLoop # replicate 6 (Downloaded 0 None) @ [ContinueLoop])"

definition rsx_failed :: "nat range_sync" where
  "rsx_failed = the (runRange rsx_env rsx_view rsx_failing (new_RangeSync None))"

definition rsx_middle :: "nat range_sync" where
  "rsx_middle = the (runRange rsx_env rsx_view (take 4 rsx_events) (new_RangeSync None))"

lemma rsx_more_runs: "runRange rsx_env rsx_view rsx_failing (new_RangeSync None) \<noteq> None"
  "runRange rsx_env rsx_view (take 4 rsx_events) (new_RangeSync None) \<noteq> None"
  by code_simp+

lemma rsx_more_run: "range_run None rsx_failing rsx_failed" "range_run None (take 4 rsx_events) rsx_middle"
  using rsx_more_runs runRange_from [OF range_run.start] by (fastforce simp: rsx_failed_def rsx_middle_def)+

lemma rsx_failed_end: "map (sc_loop \<circ> snd) (rs_chains rsx_failed) =
    [LoopEnded (Some (BatchErr \<lparr>be_code = MAX_DOWNLOAD_ATTEMPTS, be_startEpoch = 0, be_status = Downloading\<rparr>))]"
  by code_simp

lemma rsx_middle_end: "map (loopAlive \<circ> sc_loop \<circ> snd) (rs_chains rsx_middle) = [True]"
  by code_simp

theorem chain_ends_by_limit_witness:
  "(\<exists>be. sc_loop (snd (hd (rs_chains rsx_failed))) = LoopEnded (Some (BatchErr be)) \<and>
     be_code be \<in> {MAX_DOWNLOAD_ATTEMPTS, MAX_PROCESSING_ATTEMPTS, MAX_EXECUTION_ENGINE_ERROR_ATTEMPTS}) \<and>
   validateBatchesStatus (chainBatches (snd (hd (rs_chains rsx_middle)))) = Inr ()"
proof -
  obtain t c where c: "rs_chains rsx_failed = [(t, c)]"
    "sc_loop c = LoopEnded (Some (BatchErr \<lparr>be_code = MAX_DOWNLOAD_ATTEMPTS, be_startEpoch = 0, be_status = Downloading\<rparr>))"
    using rsx_failed_end by (auto simp: map_eq_Cons_conv)
  obtain u d where d: "rs_chains rsx_middle = [(u, d)]" "loopAlive (sc_loop d)"
    using rsx_middle_end by (auto simp: map_eq_Cons_conv)
  show ?thesis
    using chain_ends_by_limit [OF rsx_more_run(1), of c] chain_ends_by_limit [OF rsx_more_run(2), of d] c d by auto
qed

text \<open>Three head chains with one, three and two peers\<close>

definition rsx_head :: "nat \<Rightarrow> nat sync_chain" where
  "rsx_head n = (new_SyncChain 0 \<lparr>ct_slot = 9, ct_root = []\<rparr> HeadSync None)
     \<lparr>sc_peerset := map (\<lambda>i. (replicate i (CHR ''p''), \<lparr>ct_slot = 9, ct_root = []\<rparr>)) [0..<n]\<rparr>"

lemma rsx_update: "updateChains [(1, rsx_head 1), (3, rsx_head 3), (2, rsx_head 2)] = ([3, 2], [1 :: nat])"
  by code_simp

lemma rsx_no_finalized: "\<not> (\<exists>(i, c) \<in> set [(1 :: nat, rsx_head 1), (3, rsx_head 3), (2, rsx_head 2)]. sc_syncType c = FinalizedSync)"
  by (simp add: rsx_head_def new_SyncChain_def)

theorem updateChains_priority_witness:
  "\<exists>xs. mset xs = mset [(1 :: nat, rsx_head 1), (3, rsx_head 3), (2, rsx_head 2)] \<and> [3, 2] = map fst (take 2 xs) \<and> [1] = map fst (drop 2 xs)"
  using updateChains_priority [OF rsx_update] unfolding if_not_P [OF rsx_no_finalized]
  by (elim exE conjE) (intro exI conjI)

text \<open>The gossip topics are subscribed one slot before genesis, although the bound is meant as an epoch.\<close>

definition rsx_node :: "int \<Rightarrow> node_view" where
  "rsx_node slot = \<lparr>nv_currentSlot = slot, nv_headSlot = 0, nv_hasSomeConnectedPeer = True, nv_chain = rsx_view\<rparr>"

definition rsx_sync :: "nat beacon_sync" where
  "rsx_sync = \<lparr>bn_rangeSync = new_RangeSync None, bn_isSingleNode = False, bn_peerSyncType = [], bn_subscribedGossipCoreTopics = False\<rparr>"

lemma gossip_before_genesis:
  "bn_subscribedGossipCoreTopics (updateSyncState (rsx_node (- 1)) rsx_sync)"
  "\<not> bn_subscribedGossipCoreTopics (updateSyncState (rsx_node (- 2)) rsx_sync)"
  by code_simp+

end
