(* ===== verification/Spec2Isabelle.thy ===== *)
theory Spec2Isabelle
  imports ForkChoiceExamples SlashingExamples LightClientServerExamples EpochExamples BlockExamples SyncChainExamples SyncRangeExamples
begin

text \<open>
  A verification of the consensus core of Lodestar, the TypeScript implementation of an Ethereum
  consensus client in this repository: the state transition, the fork choice, the slashing protection of the
  validator, the light client and the light client server. All paths are below \<open>src/packages\<close>.

  \<^bold>\<open>The parts and how they interact.\<close> The beacon node runs the state transition
  (\<open>beacon-state-transition\<close>) on every block: it passes slots and epochs up to the slot of the block, checks
  the block and its operations, and gives the next state. It then gives the block to the fork choice
  (\<open>fork-choice\<close>), which keeps the block tree in an array (\<open>ProtoArray\<close>), the latest vote of each
  validator, and a store of justified and finalized checkpoints; \<open>updateHead\<close> turns changed votes into
  weight deltas (\<open>computeDeltas\<close>), applies them to the array and follows best descendants to the head.
  The same imports feed the light client server (\<open>lodestar/src/chain/lightClient\<close>), which stores
  proofs and serves snapshots and updates; the light client (\<open>light-client\<close>) starts from a snapshot and
  follows the chain by updates alone. The validator (\<open>validator\<close>) asks the slashing protection
  before it signs; its records live in a key-value database (\<open>db\<close>) and travel between installations as
  interchange files.

  \<^bold>\<open>Conventions.\<close> \<open>Prelude\<close>: exceptions are \<open>Inl\<close> values, a method that may throw half way returns the
  outcome with the object as it leaves it, array reads out of range are \<open>None\<close>, a JavaScript \<open>Map\<close> is its list
  of entries in insertion order. Numbers of the protocol are naturals or integers, bytes are \<open>8 word\<close>;
  \<open>None\<close> stands for a number that is not a number. Roots are hex strings in the fork choice and bytes elsewhere.
  \<open>Params\<close> has the constants of the mainnet preset and the slot arithmetic of
  \<open>beacon-state-transition/src/util\<close>.

  \<^bold>\<open>State transition.\<close> \<open>StateParams\<close>, \<open>StateTypes\<close> and \<open>ValidatorRegistry\<close> have the presets, the containers,
  the cached state (\<open>cached_state\<close>: the values of the tree, with the epoch context), the errors, and the
  operations on single validators; the SSZ, BLS and hash libraries are one record of functions, \<open>st_lib\<close>.
  \<^item> \<open>Shuffle\<close>, \<open>EpochShuffling\<close>, \<open>EpochContext\<close> and \<open>EpochTransition\<close> translate \<open>util/shuffle.ts\<close>, \<open>util/seed.ts\<close>,
    \<open>cache\<close> and the steps of \<open>allForks/epoch\<close>, \<open>phase0/epoch\<close> and \<open>altair/epoch\<close>. \<open>ShuffleSpec\<close>: the optimised
    shuffle is that of the specification; \<open>EpochShufflingSpec\<close>: committees partition the validators, proposers and
    sync committees are found; \<open>RegistrySpec\<close>, \<open>RegistryUpdateSpec\<close>: the cached counters of the exit queue, as long as
    they stand for the queue (\<open>queueOk\<close>), give the registry updates of the specification; \<open>EpochTransitionSpec\<close>: finality and effective balances.
  \<^item> \<open>SignatureSets\<close>, \<open>BlockOperations\<close>, \<open>BlockAttestations\<close> and \<open>StateTransition\<close> translate
    \<open>allForks/signatureSets\<close>, the \<open>block\<close> directories of all forks, \<open>allForks/stateTransition.ts\<close>, \<open>allForks/slot\<close>, the
    upgrades and \<open>util/shufflingDecisionRoot.ts\<close>. \<open>OperationSpec\<close>, \<open>BlockInvariant\<close>: the invariant \<open>stateOk\<close>, kept by
    every operation and by a block; \<open>OperationProps\<close>: slashings, exits, deposits and votes against the
    specification; \<open>AttestationSpec\<close>: the batch of attestations is \<open>process_attestation\<close> of the specification on one after
    the other; \<open>SyncAggregateSpec\<close>: balances after a sync aggregate, seat by seat; \<open>SlotSpec\<close>, \<open>BlockChainSpec\<close>: slots are passed
    one by one, and accepted blocks form a chain.
  \<^item> \<open>EpochExamples\<close>, \<open>BlockExamples\<close>: a concrete state and two blocks.

  \<^bold>\<open>Fork choice.\<close> \<open>ProtoArray\<close> and \<open>ComputeDeltas\<close> translate \<open>fork-choice/src/protoArray\<close>, and
  \<open>ForkChoice\<close> translates \<open>fork-choice/src/forkChoice\<close>, method by method.
  \<^item> \<open>ProtoArrayWf\<close>: the well-formedness of an array, kept by every operation; \<open>ProtoArrayWalk\<close>: walks over
    ancestors, common ancestors and pruning against the parent relation; \<open>ProtoArrayWeights\<close>: after
    \<open>applyScoreChanges\<close> weights are sums over subtrees; \<open>ProtoArrayHead\<close>: the
    head is that of \<open>get_head\<close> of the specification when the children of viable blocks are viable, and an array
    with another child where it is not.
  \<^item> \<open>ForkChoiceSpec\<close>: what each handler accepts and changes; \<open>ForkChoiceSteps\<close>: invariants over any
    sequence of calls, failing ones included, and the head as GHOST over the latest messages.
  \<^item> \<open>ForkChoiceExamples\<close>: a concrete chain, at which the properties are applied.

  \<^bold>\<open>Slashing protection.\<close> \<open>Bytes\<close> and \<open>JsText\<close> are the encodings, with
  \<open>String\<close> and \<open>parseInt\<close> on the integers of doubles, which are inverse below \<open>10 ^ 21\<close>; \<open>SlashingDb\<close> has the buckets, keys and
  repositories (\<open>db/src\<close>, \<open>validator/src/slashingProtection\<close>), \<open>SlashingScan\<close> their range scans;
  \<open>MinMaxSurround\<close> the min-max surround check over a locale for its distance store, interpreted on the
  repository; \<open>SlashingProtection\<close> the two services, \<open>Interchange\<close> the interchange formats and
  \<open>ValidatorMetaData\<close> the pin of the genesis.
  \<^item> \<open>SlashingProtectionSpec\<close> relates the database to sets of records by a locale of keyed
    repositories, interpreted on blocks and attestations; \<open>SlashingSession\<close> shows for a session, an import
    of a history with one record per slot and target epoch followed by any signing requests, that nothing slashable is signed, exactly what is let through and that
    refusals are true.
  \<^item> \<open>SlashingExamples\<close>: a concrete session.

  \<^bold>\<open>Light client.\<close> \<open>ForkConfig\<close> is the fork schedule with signature domains and fork digests
  (\<open>config/src/forkConfig\<close>, \<open>config/src/genesisConfig\<close>); \<open>LightClientValidation\<close> the checks and utilities
  (\<open>light-client/src/validation.ts\<close>, \<open>utils\<close>); \<open>LightClient\<close> the class with its state and the turns of its
  run loop (\<open>index.ts\<close>); \<open>LightClientServer\<close> the server with its repositories as maps.
  \<^item> \<open>LightClientSpec\<close>: over any updates, what the client believes rests on a chain of trusted committees,
    which periods it holds, when a header is accepted, that Merkle branches prove membership.
  \<^item> \<open>LightClientLoop\<close>: turns of the loop are such runs, and an interrupted sync is stuck for good with nodes that
    answer what is asked for.
  \<^item> \<open>LightClientServerSpec\<close>: an invariant of the server's database, from which what it serves passes the
    checks of the client.
  \<^item> \<open>LightClientExamples\<close>, \<open>LightClientServerExamples\<close>: a concrete client and server.

  \<^bold>\<open>Range sync.\<close> \<open>SyncBatch\<close> is the state machine of a batch of blocks, what is read of a list of batches, the
  most common target of the peers and the choice of peers (\<open>lodestar/src/sync/range/batch.ts\<close>, \<open>utils\<close>). \<open>SyncChain\<close> is
  the class of a chain (\<open>chain.ts\<close>) with the trigger of its loop (\<open>util/itTrigger.ts\<close>): \<open>chainStep\<close> is what runs between two
  events of the event loop, \<open>any_run\<close> a run over any answers of peers and processor in any order, with calls from outside that may
  throw, and \<open>chain_run\<close> one in which no call has thrown.
  \<^item> \<open>SyncChainSpec\<close>, \<open>SyncChainSegment\<close>: the order of the batches, what is done below the start of the chain, and which
    errors end it, kept by requests, by dropping batches, and by the outcome of a segment.
  \<^item> \<open>SyncChainRun\<close>: runs in which no call throws keep all this, so that a chain ends only by a limit of attempts, and is synced
    only when every epoch before its target is done.
  \<^item> \<open>SyncChainBound\<close>: how often a batch is requested, when starting again throws, the most common target.
  \<^item> \<open>SyncChainExamples\<close>: runs that sync, that fail after all retries, that are stopped, and one that ends with a wrong
    status after a call that has thrown.

  \<open>SyncRange\<close> is the class that holds the chains (\<open>range.ts\<close>, \<open>range/utils/updateChains.ts\<close>), the judgement of peers by
  their status (\<open>sync/utils/remoteSyncType.ts\<close>) and the sync state of the node with its gossip topics (\<open>sync/sync.ts\<close>).
  \<^item> \<open>SyncRangeSpec\<close>: its chains are runs of \<open>SyncChain\<close> and its calls never throw, so that its chains end only by a limit of
    attempts; which of many chains are started and stopped.
  \<^item> \<open>SyncRangeExamples\<close>: a range sync from the first peer to the end of its chain.

  \<^bold>\<open>Bounds and fuel.\<close> Walks towards the root take as fuel one more than the number of nodes
  (\<open>propagateUp\<close>), the number of nodes (\<open>ancestorsFrom\<close>) or twice this number
  (\<open>commonAncestorLoop\<close>); parents lie at smaller indices in a well-formed array, so the fuel is
  never used up, which the termination properties show. \<open>chunksFrom\<close> runs for the number of chunks the code computes.
  The sampling of a sync committee takes its fuel as an argument, and 512 rounds over the validators are
  enough when one of them has the maximum balance (\<open>syncCommittee_terminates\<close>); \<open>slotsLoop\<close> takes one turn for each slot to pass
  (\<open>processSlots_ends\<close>).

  \<^bold>\<open>Parameters.\<close> Not part of the repository, hence arguments: roots and serialization of the SSZ library,
  the hash of the Merkle tree library and its proofs, BLS signatures, hexadecimal strings of the SSZ library, and
  the saturating addition on the list of balances (\<open>saturating\<close>).
  LevelDB is a map read in key order, its documented contract. Hypotheses about them are named in the statements
  (\<open>lawful_hex\<close>, \<open>import_ok\<close>, \<open>lawfulAggregate\<close>); collisions of hashes are part of a conclusion, or excluded for the headers at
  hand (\<open>headerCollision\<close>).

  \<^bold>\<open>Not modelled.\<close> The genesis state and the limits of weak subjectivity. Networking, REST and command
  line, timers, loggers and metrics: input and output. The
  operation pools and the state caches of the node, and the sync of unknown blocks and of older blocks, are not covered. Handlers of the server
  run to their end before the next one starts: the interleaving of their awaits is not followed. The
  cache of domains is modelled in \<open>ForkConfig\<close> but not passed on by the light client and the state transition, as it
  does not change any answer. The tree of a state is not followed, only its values, and with it the switch between
  transient and persistent caches.
\<close>

end
